(* ===== verification/Prelude.thy ===== *)
theory Prelude
  imports Main "HOL-Library.Char_ord" "HOL-Library.List_Lexorder" "HOL-Library.Code_Target_Numeral"
begin

text \<open>
  What every component theory shares: the lemma collections of the development, Go's
  \<open>(value, error)\<close> results as a sum type with the error on the left, and a few generic
  facts on lists that several components need (keeping the first occurrence of each value,
  grouping, updating the rows of a table).
\<close>

named_theorems step_defs \<open>definitions of single operations, unfolded to reason about one step\<close>
named_theorems table_simps \<open>how the rows of a table look after one statement\<close>

type_synonym ('e, 'a) result = "'e + 'a"

abbreviation Err :: "'e \<Rightarrow> ('e, 'a) result" where "Err \<equiv> Inl"

abbreviation Ok :: "'a \<Rightarrow> ('e, 'a) result" where "Ok \<equiv> Inr"

text \<open>A statement after which the state is returned as the statement left it.\<close>

lemma snd_case_result [simp]:
  "snd (case x of (Inl e, d) \<Rightarrow> (f e d, d) | (Inr v, d) \<Rightarrow> (g v d, d)) = snd x"
  by (cases x; cases "fst x") auto

section \<open>Lists without repetitions, in order of first occurrence\<close>

text \<open>
  The loop \<open>if !seen(v) { result = append(result, v) }\<close> that the code writes in several
  places. \<open>acc\<close> is the result so far.
\<close>

fun uniq_onto :: "'a list \<Rightarrow> 'a list \<Rightarrow> 'a list" where
  "uniq_onto acc [] = acc"
| "uniq_onto acc (x # xs) = (if x \<in> set acc then uniq_onto acc xs else uniq_onto (acc @ [x]) xs)"

lemma set_uniq_onto [simp]: "set (uniq_onto acc xs) = set acc \<union> set xs"
  by (induction xs arbitrary: acc) auto

lemma distinct_uniq_onto [simp]: "distinct acc \<Longrightarrow> distinct (uniq_onto acc xs)"
  by (induction xs arbitrary: acc) auto

lemma uniq_onto_filter: "uniq_onto acc xs = acc @ uniq_onto [] (filter (\<lambda>x. x \<notin> set acc) xs)"
proof (induction xs arbitrary: acc rule: length_induct)
  case (1 xs)
  note IH = 1
  show ?case
  proof (cases xs)
    case Nil
    then show ?thesis by simp
  next
    case (Cons y ys)
    show ?thesis
    proof (cases "y \<in> set acc")
      case True
      have "uniq_onto acc ys = acc @ uniq_onto [] (filter (\<lambda>x. x \<notin> set acc) ys)"
        using IH Cons by simp
      with True Cons show ?thesis by simp
    next
      case False
      let ?zs = "filter (\<lambda>x. x \<notin> set acc) ys"
      have len: "length ?zs < length xs"
        using Cons by (simp add: less_Suc_eq_le)
      have step1: "uniq_onto (acc @ [y]) ys
          = (acc @ [y]) @ uniq_onto [] (filter (\<lambda>x. x \<notin> set (acc @ [y])) ys)"
        using IH Cons by (metis length_Cons lessI)
      have step2: "uniq_onto [y] ?zs = [y] @ uniq_onto [] (filter (\<lambda>x. x \<notin> set [y]) ?zs)"
        using IH len by blast
      have "filter (\<lambda>x. x \<notin> set [y]) ?zs = filter (\<lambda>x. x \<notin> set (acc @ [y])) ys"
        by (auto intro: filter_cong)
      with False Cons step1 step2 show ?thesis by simp
    qed
  qed
qed

lemma uniq_onto_distinct: "distinct (acc @ xs) \<Longrightarrow> uniq_onto acc xs = acc @ xs"
  by (induction xs arbitrary: acc) auto

lemma length_uniq_onto: "length (uniq_onto acc xs) \<le> length acc + length xs"
proof (induction xs arbitrary: acc)
  case Nil
  then show ?case by simp
next
  case (Cons x xs)
  then show ?case
    using Cons.IH [of acc] Cons.IH [of "acc @ [x]"] by (auto intro: le_SucI)
qed

lemma uniq_onto_sorted:
  "sorted xs \<Longrightarrow> sorted_wrt (<) acc \<Longrightarrow> (\<And>a x. a \<in> set acc \<Longrightarrow> x \<in> set xs \<Longrightarrow> a \<le> x)
     \<Longrightarrow> sorted_wrt (<) (uniq_onto acc (xs :: 'a :: linorder list))"
proof (induction xs arbitrary: acc)
  case (Cons x xs)
  show ?case
  proof (cases "x \<in> set acc")
    case False
    have "a < x" if "a \<in> set acc" for a
      using Cons.prems(3) [OF that, of x] that False by (auto simp: order_less_le)
    then have "sorted_wrt (<) (acc @ [x])" using Cons.prems(2) by (simp add: sorted_wrt_append)
    moreover have "a \<le> y" if "a \<in> set (acc @ [x])" "y \<in> set xs" for a y
      using that Cons.prems(1,3) by auto
    ultimately show ?thesis using False Cons.IH [of "acc @ [x]"] Cons.prems(1) by simp
  qed (use Cons in simp)
qed simp

section \<open>Rows of a table\<close>

text \<open>The effect of \<open>UPDATE ... SET f WHERE p\<close> on a list of rows, and the rows it hits.\<close>

definition update_rows :: "('r \<Rightarrow> bool) \<Rightarrow> ('r \<Rightarrow> 'r) \<Rightarrow> 'r list \<Rightarrow> 'r list" where
  "update_rows p f rs = map (\<lambda>r. if p r then f r else r) rs"

definition count_rows :: "('r \<Rightarrow> bool) \<Rightarrow> 'r list \<Rightarrow> nat" where
  "count_rows p rs = length (filter p rs)"

lemma update_rows_simps [simp]:
  "update_rows p f [] = []"
  "update_rows p f (r # rs) = (if p r then f r else r) # update_rows p f rs"
  by (simp_all add: update_rows_def)

lemma length_update_rows [simp]: "length (update_rows p f rs) = length rs"
  by (simp add: update_rows_def)

lemma set_update_rows: "set (update_rows p f rs) = (\<lambda>r. if p r then f r else r) ` set rs"
  by (simp add: update_rows_def)

lemma update_rows_all:
  "(\<And>r. p r \<Longrightarrow> Q (f r)) \<Longrightarrow> (\<And>r. \<not> p r \<Longrightarrow> Q r) \<Longrightarrow> \<forall>r \<in> set (update_rows p f rs). Q r"
  by (auto simp: update_rows_def)

lemma map_update_rows: "(\<And>r. p r \<Longrightarrow> g (f r) = g r) \<Longrightarrow> map g (update_rows p f rs) = map g rs"
  by (simp add: update_rows_def)

lemma update_rows_none: "\<forall>r \<in> set rs. \<not> p r \<Longrightarrow> update_rows p f rs = rs"
  by (induction rs) auto

text \<open>Rows that stay as they are or change by \<open>E\<close>.\<close>

lemma update_rows_evolve:
  "\<forall>r \<in> set rs. p r \<longrightarrow> E r (f r) \<Longrightarrow> list_all2 (\<lambda>t t'. t' = t \<or> E t t') rs (update_rows p f rs)"
  by (induction rs) auto

lemma list_all2_in_left: "list_all2 P xs ys \<Longrightarrow> x \<in> set xs \<Longrightarrow> \<exists>y \<in> set ys. P x y"
  by (induction rule: list_all2_induct) auto

lemma list_all2_in_right: "list_all2 P xs ys \<Longrightarrow> y \<in> set ys \<Longrightarrow> \<exists>x \<in> set xs. P x y"
  by (induction rule: list_all2_induct) auto

lemma count_rows_0: "count_rows p rs = 0 \<longleftrightarrow> (\<forall>r \<in> set rs. \<not> p r)"
  by (simp add: count_rows_def filter_empty_conv)

lemma count_rows_pos: "0 < count_rows p rs \<longleftrightarrow> (\<exists>r \<in> set rs. p r)"
  using count_rows_0 [of p rs] by auto

end
