(* ===== verification/GoStrings.thy ===== *)
theory GoStrings
  imports Prelude
begin

text \<open>
  The part of Go's strings, bytes, strconv and utf8 packages that the modelled code calls.
  A Go string is a sequence of bytes, so it is an Isabelle \<open>string\<close> (a list of 8-bit
  characters), and \<open>len(s)\<close> is \<open>length s\<close>. Case mapping is the one of ASCII; the
  modelled code uses it on names, schemes and keywords.
\<close>

type_synonym rune = nat

abbreviation dquote :: char where "dquote \<equiv> CHR 0x22"
abbreviation squote :: char where "squote \<equiv> CHR 0x27"
abbreviation newline :: char where "newline \<equiv> CHR 0x0A"
abbreviation tab :: char where "tab \<equiv> CHR 0x09"
abbreviation backslash :: char where "backslash \<equiv> CHR 0x5C"

section \<open>Prefixes, suffixes, substrings\<close>

definition has_prefix :: "'a list \<Rightarrow> 'a list \<Rightarrow> bool" where
  "has_prefix s p \<longleftrightarrow> take (length p) s = p"

definition has_suffix :: "'a list \<Rightarrow> 'a list \<Rightarrow> bool" where
  "has_suffix s p \<longleftrightarrow> length p \<le> length s \<and> drop (length s - length p) s = p"

definition trim_prefix :: "'a list \<Rightarrow> 'a list \<Rightarrow> 'a list" where
  "trim_prefix s p = (if has_prefix s p then drop (length p) s else s)"

definition trim_suffix :: "'a list \<Rightarrow> 'a list \<Rightarrow> 'a list" where
  "trim_suffix s p = (if has_suffix s p then take (length s - length p) s else s)"

lemma has_prefix_append [simp]: "has_prefix (p @ s) p"
  by (simp add: has_prefix_def)

lemma has_prefix_iff: "has_prefix s p \<longleftrightarrow> (\<exists>t. s = p @ t)"
  by (metis append_eq_conv_conj has_prefix_def)

lemma has_prefix_simps [simp]:
  "has_prefix s []"
  "has_prefix [] (a # p) = False"
  "has_prefix (b # s) (a # p) \<longleftrightarrow> a = b \<and> has_prefix s p"
  by (auto simp: has_prefix_def)

lemma has_suffix_iff: "has_suffix s p \<longleftrightarrow> (\<exists>t. s = t @ p)"
proof
  assume "has_suffix s p"
  then have "s = take (length s - length p) s @ p"
    by (metis append_take_drop_id has_suffix_def)
  then show "\<exists>t. s = t @ p" by blast
qed (auto simp: has_suffix_def)

lemma trim_prefix_append [simp]: "trim_prefix (p @ s) p = s"
  by (simp add: trim_prefix_def)

lemma has_suffix_append [simp]: "has_suffix (s @ p) p"
  by (simp add: has_suffix_iff)

fun index_of :: "'a list \<Rightarrow> 'a list \<Rightarrow> nat option" where
  "index_of [] p = (if p = [] then Some 0 else None)"
| "index_of (a # s) p = (if has_prefix (a # s) p then Some 0 else map_option Suc (index_of s p))"

definition contains :: "'a list \<Rightarrow> 'a list \<Rightarrow> bool" where
  "contains s p \<longleftrightarrow> index_of s p \<noteq> None"

lemma index_of_Some: "index_of s p = Some i \<Longrightarrow> s = take i s @ p @ drop (i + length p) s"
proof (induction s arbitrary: i)
  case Nil
  then show ?case by (auto split: if_splits)
next
  case (Cons a s)
  then show ?case
    by (auto simp: has_prefix_iff split: if_splits)
qed

lemma index_of_None: "index_of s p = None \<longleftrightarrow> (\<nexists>u v. s = u @ p @ v)"
proof (induction s)
  case Nil
  then show ?case by auto
next
  case (Cons a s)
  have "(\<exists>u v. a # s = u @ p @ v) \<longleftrightarrow> has_prefix (a # s) p \<or> (\<exists>u v. s = u @ p @ v)"
  proof
    assume "\<exists>u v. a # s = u @ p @ v"
    then obtain u v where "a # s = u @ p @ v" by blast
    then show "has_prefix (a # s) p \<or> (\<exists>u v. s = u @ p @ v)"
      by (cases u) (auto simp: has_prefix_iff)
  next
    assume "has_prefix (a # s) p \<or> (\<exists>u v. s = u @ p @ v)"
    then show "\<exists>u v. a # s = u @ p @ v"
    proof
      assume "has_prefix (a # s) p"
      then obtain v where "a # s = [] @ p @ v" by (auto simp: has_prefix_iff)
      then show ?thesis by blast
    next
      assume "\<exists>u v. s = u @ p @ v"
      then obtain u v where "a # s = (a # u) @ p @ v" by auto
      then show ?thesis by blast
    qed
  qed
  with Cons.IH show ?case by simp
qed

lemma contains_iff: "contains s p \<longleftrightarrow> (\<exists>u v. s = u @ p @ v)"
  by (simp add: contains_def index_of_None)

text \<open>The index of the last occurrence of one byte; Go's \<open>-1\<close> is \<open>None\<close>.\<close>

fun last_index :: "'a list \<Rightarrow> 'a \<Rightarrow> nat option" where
  "last_index [] c = None"
| "last_index (a # s) c =
     (case last_index s c of Some i \<Rightarrow> Some (Suc i) | None \<Rightarrow> if a = c then Some 0 else None)"

lemma last_index_None: "last_index s c = None \<longleftrightarrow> c \<notin> set s"
proof (induction s)
  case Nil
  then show ?case by simp
next
  case (Cons a s)
  then show ?case by (cases "last_index s c") simp_all
qed

lemma last_index_SomeD:
  "last_index s c = Some i \<Longrightarrow> i < length s \<and> s ! i = c \<and> c \<notin> set (drop (Suc i) s)"
  by (induction s arbitrary: i) (auto simp: last_index_None split: option.splits if_splits)

lemma last_index_snoc: "c \<notin> set b \<Longrightarrow> last_index (a @ c # b) c = Some (length a)"
proof (induction a)
  case Nil
  then have "last_index b c = None" by (simp add: last_index_None)
  then show ?case by simp
qed simp

section \<open>Cut, Split, Join\<close>

text \<open>\<open>strings.Cut\<close>: the text before and after the first separator, and whether it was found.\<close>

definition cut :: "'a list \<Rightarrow> 'a list \<Rightarrow> 'a list \<times> 'a list \<times> bool" where
  "cut s p = (case index_of s p of
     Some i \<Rightarrow> (take i s, drop (i + length p) s, True)
   | None \<Rightarrow> (s, [], False))"

lemma cut_found: "cut s p = (a, b, True) \<Longrightarrow> s = a @ p @ b"
  by (auto simp: cut_def dest: index_of_Some split: option.splits)

lemma cut_char [simp]: "c \<notin> set a \<Longrightarrow> cut (a @ c # b) [c] = (a, b, True)"
proof (induction a)
  case Nil
  then show ?case by (simp add: cut_def)
next
  case (Cons x a)
  then have "cut (a @ c # b) [c] = (a, b, True)" by simp
  then obtain i where "index_of (a @ c # b) [c] = Some i"
      "take i (a @ c # b) = a" "drop (Suc i) (a @ c # b) = b"
    by (auto simp: cut_def split: option.splits)
  with Cons show ?case by (auto simp: cut_def)
qed

lemma index_of_char_None: "c \<notin> set s \<Longrightarrow> index_of s [c] = None"
  by (induction s) auto

lemma cut_none: "c \<notin> set s \<Longrightarrow> cut s [c] = (s, [], False)"
  by (simp add: cut_def index_of_char_None)

text \<open>\<open>strings.Split\<close> with a separator of one byte.\<close>

fun split_on :: "'a \<Rightarrow> 'a list \<Rightarrow> 'a list list" where
  "split_on c [] = [[]]"
| "split_on c (x # xs) =
     (if x = c then [] # split_on c xs
      else (case split_on c xs of [] \<Rightarrow> [[x]] | y # ys \<Rightarrow> (x # y) # ys))"

fun join :: "'a list \<Rightarrow> 'a list list \<Rightarrow> 'a list" where
  "join sep [] = []"
| "join sep [x] = x"
| "join sep (x # y # zs) = x @ sep @ join sep (y # zs)"

lemma split_on_nonempty [simp]: "split_on c s \<noteq> []"
  by (induction s) (auto split: list.splits)

lemma join_split_on [simp]: "join [c] (split_on c s) = s"
proof (induction s)
  case Nil
  then show ?case by simp
next
  case (Cons x xs)
  then show ?case
    by (cases "split_on c xs"; cases "tl (split_on c xs)") (auto split: list.splits)
qed

lemma split_on_no_sep: "\<forall>t \<in> set (split_on c s). c \<notin> set t"
  by (induction s) (auto split: list.splits)

lemma split_on_single: "c \<notin> set s \<Longrightarrow> split_on c s = [s]"
  by (induction s) auto

lemma split_on_append: "c \<notin> set a \<Longrightarrow> split_on c (a @ c # b) = a # split_on c b"
  by (induction a) auto

lemma split_on_join:
  "xs \<noteq> [] \<Longrightarrow> \<forall>x \<in> set xs. c \<notin> set x \<Longrightarrow> split_on c (join [c] xs) = xs"
proof (induction "[c]" xs rule: join.induct)
  case (3 x y zs)
  then show ?case by (simp add: split_on_append)
qed (auto simp: split_on_single)

lemma set_split_on: "set (concat (split_on c s)) = set s - {c}"
proof (induction s)
  case Nil
  then show ?case by simp
next
  case (Cons x xs)
  then show ?case by (cases "split_on c xs") (auto split: if_splits)
qed

text \<open>\<open>strings.ReplaceAll(s, old, new)\<close> for a non-empty \<open>old\<close>; \<open>strings.Repeat\<close>.\<close>

function replace_all :: "'a list \<Rightarrow> 'a list \<Rightarrow> 'a list \<Rightarrow> 'a list" where
  "replace_all s old new =
     (if old \<noteq> [] \<and> has_prefix s old then new @ replace_all (drop (length old) s) old new
      else (case s of [] \<Rightarrow> [] | c # cs \<Rightarrow> c # replace_all cs old new))"
  by pat_completeness auto
termination
proof (relation "measure (\<lambda>(s, old, new). length s)")
  fix s old new :: "'a list"
  assume "old \<noteq> [] \<and> has_prefix s old"
  then show "((drop (length old) s, old, new), s, old, new) \<in> measure (\<lambda>(s, old, new). length s)"
    by (auto simp: has_prefix_iff)
qed auto

declare replace_all.simps [simp del]

lemma replace_all_id: "old \<noteq> [] \<Longrightarrow> \<not> contains s old \<Longrightarrow> replace_all s old new = s"
proof (induction s)
  case Nil
  then show ?case by (subst replace_all.simps) (auto simp: has_prefix_def)
next
  case (Cons a s)
  then have "\<not> has_prefix (a # s) old" "\<not> contains s old"
    by (auto simp: contains_def split: if_splits)
  with Cons show ?case by (subst replace_all.simps) simp
qed

definition repeat :: "'a list \<Rightarrow> nat \<Rightarrow> 'a list" where
  "repeat s n = concat (replicate n s)"

section \<open>Case and white space\<close>

definition between :: "char \<Rightarrow> char \<Rightarrow> char \<Rightarrow> bool" where
  [simp]: "between lo hi c \<longleftrightarrow> lo \<le> c \<and> c \<le> hi"

definition ascii_letter :: "char \<Rightarrow> bool" where
  [simp]: "ascii_letter c \<longleftrightarrow> between (CHR ''A'') (CHR ''Z'') c \<or> between (CHR ''a'') (CHR ''z'') c"

definition lower_char :: "char \<Rightarrow> char" where
  "lower_char c = (if CHR ''A'' \<le> c \<and> c \<le> CHR ''Z'' then char_of (of_char c + 32 :: nat) else c)"

definition upper_char :: "char \<Rightarrow> char" where
  "upper_char c = (if CHR ''a'' \<le> c \<and> c \<le> CHR ''z'' then char_of (of_char c - 32 :: nat) else c)"

definition to_lower :: "string \<Rightarrow> string" where "to_lower = map lower_char"

definition to_upper :: "string \<Rightarrow> string" where "to_upper = map upper_char"

definition equal_fold :: "string \<Rightarrow> string \<Rightarrow> bool" where
  "equal_fold a b \<longleftrightarrow> to_lower a = to_lower b"

lemma length_to_lower [simp]: "length (to_lower s) = length s"
  by (simp add: to_lower_def)

text \<open>
  The UTF-8 encodings of the characters that \<open>unicode.IsSpace\<close> accepts;
  \<open>strings.TrimSpace\<close> removes them at both ends. A suffix of bytes decodes to such a
  character exactly when it is its encoding, so the same table serves both ends.
\<close>

definition space_encodings :: "string list" where
  "space_encodings =
     [[CHR '' ''], [CHR 0x09], [CHR 0x0A], [CHR 0x0B], [CHR 0x0C], [CHR 0x0D],
      [CHR 0xC2, CHR 0x85], [CHR 0xC2, CHR 0xA0], [CHR 0xE1, CHR 0x9A, CHR 0x80],
      [CHR 0xE2, CHR 0x80, CHR 0x80], [CHR 0xE2, CHR 0x80, CHR 0x81],
      [CHR 0xE2, CHR 0x80, CHR 0x82], [CHR 0xE2, CHR 0x80, CHR 0x83],
      [CHR 0xE2, CHR 0x80, CHR 0x84], [CHR 0xE2, CHR 0x80, CHR 0x85],
      [CHR 0xE2, CHR 0x80, CHR 0x86], [CHR 0xE2, CHR 0x80, CHR 0x87],
      [CHR 0xE2, CHR 0x80, CHR 0x88], [CHR 0xE2, CHR 0x80, CHR 0x89],
      [CHR 0xE2, CHR 0x80, CHR 0x8A], [CHR 0xE2, CHR 0x80, CHR 0xA8],
      [CHR 0xE2, CHR 0x80, CHR 0xA9], [CHR 0xE2, CHR 0x80, CHR 0xAF],
      [CHR 0xE2, CHR 0x81, CHR 0x9F], [CHR 0xE3, CHR 0x80, CHR 0x80]]"

function trim_by :: "string list \<Rightarrow> string \<Rightarrow> string" where
  "trim_by ws s =
     (case find (\<lambda>w. w \<noteq> [] \<and> has_prefix s w) ws of
        None \<Rightarrow> s | Some w \<Rightarrow> trim_by ws (drop (length w) s))"
  by pat_completeness auto
termination
  by (relation "measure (\<lambda>(ws, s). length s)") (auto simp: find_Some_iff has_prefix_iff)

declare trim_by.simps [simp del]

definition trim_space :: "string \<Rightarrow> string" where
  "trim_space s = rev (trim_by (map rev space_encodings) (rev (trim_by space_encodings s)))"

lemma trim_by_id: "\<forall>w \<in> set ws. \<not> (w \<noteq> [] \<and> has_prefix s w) \<Longrightarrow> trim_by ws s = s"
  by (subst trim_by.simps) (auto simp: find_None_iff split: option.splits dest!: find_Some_iff [THEN iffD1])

lemma trim_by_done: "\<forall>w \<in> set ws. \<not> (w \<noteq> [] \<and> has_prefix (trim_by ws s) w)"
proof (induction ws s rule: trim_by.induct)
  case (1 ws s)
  show ?case
  proof (cases "find (\<lambda>w. w \<noteq> [] \<and> has_prefix s w) ws")
    case None
    then have "\<forall>w \<in> set ws. \<not> (w \<noteq> [] \<and> has_prefix s w)" by (auto simp: find_None_iff)
    then show ?thesis by (simp add: trim_by_id)
  next
    case (Some w)
    with 1 show ?thesis by (subst trim_by.simps) simp
  qed
qed

lemma trim_by_suffix: "\<exists>p. s = p @ trim_by ws s"
proof (induction ws s rule: trim_by.induct)
  case (1 ws s)
  show ?case
  proof (cases "find (\<lambda>w. w \<noteq> [] \<and> has_prefix s w) ws")
    case None
    then show ?thesis by (subst trim_by.simps) auto
  next
    case (Some w)
    then have "s = take (length w) s @ drop (length w) s" by simp
    with 1 Some obtain p where "drop (length w) s = p @ trim_by ws (drop (length w) s)" by blast
    then have "s = (take (length w) s @ p) @ trim_by ws (drop (length w) s)"
      by (metis append.assoc append_take_drop_id)
    moreover have "trim_by ws s = trim_by ws (drop (length w) s)"
      using Some by (subst trim_by.simps) simp
    ultimately show ?thesis by metis
  qed
qed

lemma trim_by_length: "length (trim_by ws s) \<le> length s"
  using trim_by_suffix [of s ws] by (metis le_add2 length_append)

lemma trim_by_idem [simp]: "trim_by ws (trim_by ws s) = trim_by ws s"
  by (rule trim_by_id) (rule trim_by_done)

lemma trim_space_length: "length (trim_space s) \<le> length s"
  unfolding trim_space_def
  by (metis length_rev order_trans trim_by_length)

lemma trim_space_Nil [simp]: "trim_space [] = []"
  using trim_space_length [of "[]"] by simp

text \<open>Printable ASCII without the space is left alone, and so is what precedes a line break.\<close>

definition visible :: "char \<Rightarrow> bool" where
  "visible c \<longleftrightarrow> 33 \<le> (of_char c :: nat) \<and> (of_char c :: nat) < 127"

lemma spaces_invisible: "w \<in> set space_encodings \<Longrightarrow> w \<noteq> [] \<and> \<not> visible (hd w) \<and> \<not> visible (last w)"
proof -
  have "list_all (\<lambda>w. w \<noteq> [] \<and> \<not> visible (hd w) \<and> \<not> visible (last w)) space_encodings" by code_simp
  then show "w \<in> set space_encodings \<Longrightarrow> w \<noteq> [] \<and> \<not> visible (hd w) \<and> \<not> visible (last w)"
    by (simp add: list_all_iff)
qed

lemma trim_visible_left:
  assumes "visible c"
  shows "trim_by space_encodings (c # s) = c # s"
proof (rule trim_by_id, intro ballI notI)
  fix w assume w: "w \<in> set space_encodings" "w \<noteq> [] \<and> has_prefix (c # s) w"
  from w(2) obtain t where "w \<noteq> []" "c # s = w @ t" by (auto simp: has_prefix_iff)
  then have "hd w = c" by (metis hd_append2 list.sel(1))
  with assms spaces_invisible [OF w(1)] show False by simp
qed

lemma trim_visible_right:
  assumes "list_all visible s"
  shows "trim_by (map rev space_encodings) (rev s) = rev s"
proof (rule trim_by_id, intro ballI notI)
  fix w assume w: "w \<in> set (map rev space_encodings)" "w \<noteq> [] \<and> has_prefix (rev s) w"
  then obtain v t where v: "v \<in> set space_encodings" "rev s = rev v @ t" by (auto simp: has_prefix_iff)
  then have "last v \<in> set s" using spaces_invisible [OF v(1)]
    by (metis UnCI last_in_set set_append set_rev)
  with assms spaces_invisible [OF v(1)] show False by (auto simp: list_all_iff)
qed

lemma trim_space_visible:
  assumes "list_all visible s"
  shows "trim_space s = s" and "trim_space (s @ [newline]) = s"
proof -
  show "trim_space s = s"
  proof (cases s)
    case (Cons c s')
    then show ?thesis
      using assms trim_visible_left [of c s'] trim_visible_right [OF assms] by (simp add: trim_space_def)
  qed simp
  have nl: "trim_by (map rev space_encodings) (newline # r) = trim_by (map rev space_encodings) r" for r
    by (subst trim_by.simps) (simp add: space_encodings_def)
  show "trim_space (s @ [newline]) = s"
  proof (cases s)
    case Nil
    have "trim_by space_encodings [newline] = []"
      by (simp add: trim_by.simps space_encodings_def)
    then show ?thesis using Nil trim_by_length [of "map rev space_encodings" "[]"] by (simp add: trim_space_def)
  next
    case (Cons c s')
    then show ?thesis
      using assms trim_visible_left [of c "s' @ [newline]"] trim_visible_right [OF assms] nl [of "rev s"]
      by (simp add: trim_space_def)
  qed
qed

text \<open>\<open>strings.Trim\<close>, \<open>TrimLeft\<close> and \<open>TrimRight\<close> with a cutset of ASCII characters.\<close>

definition trim_left_set :: "string \<Rightarrow> string \<Rightarrow> string" where
  "trim_left_set s cs = dropWhile (\<lambda>c. c \<in> set cs) s"

definition trim_right_set :: "string \<Rightarrow> string \<Rightarrow> string" where
  "trim_right_set s cs = rev (dropWhile (\<lambda>c. c \<in> set cs) (rev s))"

definition trim_set :: "string \<Rightarrow> string \<Rightarrow> string" where
  "trim_set s cs = trim_right_set (trim_left_set s cs) cs"

lemma trim_right_set_prefix: "\<exists>t. s = trim_right_set s cs @ t"
  by (metis rev_append rev_rev_ident takeWhile_dropWhile_id trim_right_set_def)

lemma length_trim_right_set: "length (trim_right_set s cs) \<le> length s"
  using trim_right_set_prefix [of s cs] by (metis le_add1 length_append)

lemma last_trim_right_set: "trim_right_set s cs \<noteq> [] \<Longrightarrow> last (trim_right_set s cs) \<notin> set cs"
proof -
  let ?d = "dropWhile (\<lambda>c. c \<in> set cs) (rev s)"
  assume "trim_right_set s cs \<noteq> []"
  then have ne: "?d \<noteq> []" by (metis rev.simps(1) trim_right_set_def)
  then have "last (trim_right_set s cs) = hd ?d" by (simp only: trim_right_set_def last_rev)
  with hd_dropWhile [OF ne] show ?thesis by simp
qed

end
