(* ===== verification/GoConv.thy ===== *)
theory GoConv
  imports GoStrings
begin

text \<open>
  The conversions of strconv and unicode/utf8 that the modelled code calls: \<open>Itoa\<close>,
  \<open>Atoi\<close> and \<open>ParseInt(s, 10, 64)\<close> with their 64-bit range, and the decoding of a
  byte string into code points that \<open>[]rune(s)\<close> and \<open>range s\<close> do, with U+FFFD for
  each byte that is not part of a valid encoding.
\<close>

section \<open>Decimal numbers\<close>

definition digit_char :: "nat \<Rightarrow> char" where
  "digit_char d = char_of (48 + d)"

definition is_digit :: "char \<Rightarrow> bool" where
  "is_digit c \<longleftrightarrow> 48 \<le> (of_char c :: nat) \<and> (of_char c :: nat) \<le> 57"

definition digit_val :: "char \<Rightarrow> nat" where
  "digit_val c = of_char c - 48"

fun nat_digits :: "nat \<Rightarrow> string" where
  "nat_digits n = (if n < 10 then [digit_char n] else nat_digits (n div 10) @ [digit_char (n mod 10)])"

declare nat_digits.simps [simp del]

definition itoa :: "int \<Rightarrow> string" where
  "itoa i = (if i < 0 then CHR ''-'' # nat_digits (nat (- i)) else nat_digits (nat i))"

definition digits_value :: "string \<Rightarrow> nat" where
  "digits_value s = foldl (\<lambda>n c. 10 * n + digit_val c) 0 s"

definition parse_digits :: "string \<Rightarrow> nat option" where
  "parse_digits s = (if s \<noteq> [] \<and> list_all is_digit s then Some (digits_value s) else None)"

definition atoi :: "string \<Rightarrow> int option" where
  "atoi s =
     (let (neg, ds) = (case s of
            c # cs \<Rightarrow> if c = CHR ''-'' then (True, cs) else if c = CHR ''+'' then (False, cs) else (False, s)
          | [] \<Rightarrow> (False, s))
      in case parse_digits ds of
           None \<Rightarrow> None
         | Some n \<Rightarrow>
             if neg then (if n \<le> 2 ^ 63 then Some (- int n) else None)
             else (if n < 2 ^ 63 then Some (int n) else None))"

lemma is_digit_digit_char [simp]: "d < 10 \<Longrightarrow> is_digit (digit_char d)"
  by (simp add: is_digit_def digit_char_def)

lemma digit_val_digit_char [simp]: "d < 10 \<Longrightarrow> digit_val (digit_char d) = d"
  by (simp add: digit_val_def digit_char_def)

lemma digits_value_snoc [simp]: "digits_value (s @ [c]) = 10 * digits_value s + digit_val c"
  by (simp add: digits_value_def)

lemma digits_value_Nil [simp]: "digits_value [] = 0"
  by (simp add: digits_value_def)

lemma digits_value_single [simp]: "digits_value [c] = digit_val c"
  by (simp add: digits_value_def)

lemma nat_digits_ok: "nat_digits n \<noteq> [] \<and> list_all is_digit (nat_digits n) \<and> digits_value (nat_digits n) = n"
proof (induction n rule: nat_digits.induct)
  case (1 n)
  show ?case
  proof (cases "n < 10")
    case True
    then show ?thesis by (simp add: nat_digits.simps [of n])
  next
    case False
    with 1 show ?thesis by (simp add: nat_digits.simps [of n])
  qed
qed

lemma parse_nat_digits [simp]: "parse_digits (nat_digits n) = Some n"
  by (simp add: parse_digits_def nat_digits_ok)

lemma nat_digits_inj: "nat_digits m = nat_digits n \<Longrightarrow> m = n"
  by (metis nat_digits_ok)

lemma not_digit_sign: "\<not> is_digit CHR ''-''" "\<not> is_digit CHR ''+''" "\<not> is_digit CHR '',''" "\<not> is_digit CHR ''/''"
  by (simp_all add: is_digit_def)

lemma hd_nat_digits: "nat_digits n = c # cs \<Longrightarrow> is_digit c"
  using nat_digits_ok [of n] by simp

lemma atoi_itoa: "- (2 ^ 63) \<le> i \<Longrightarrow> i < 2 ^ 63 \<Longrightarrow> atoi (itoa i) = Some i"
proof -
  assume lo: "- (2 ^ 63) \<le> i" and hi: "i < 2 ^ 63"
  show ?thesis
  proof (cases "i < 0")
    case True
    with lo have "nat (- i) \<le> 2 ^ 63" by (simp add: nat_le_iff)
    with True show ?thesis by (simp add: atoi_def itoa_def)
  next
    case False
    with hi have "nat i < 2 ^ 63" by (simp add: nat_less_iff)
    moreover obtain c cs where cs: "nat_digits (nat i) = c # cs"
      using nat_digits_ok [of "nat i"] by (cases "nat_digits (nat i)") auto
    moreover have "c \<noteq> CHR ''-''" "c \<noteq> CHR ''+''"
      using hd_nat_digits [OF cs] not_digit_sign by auto
    moreover have "parse_digits (c # cs) = Some (nat i)"
      using cs parse_nat_digits [of "nat i"] by simp
    ultimately show ?thesis using False by (simp add: atoi_def itoa_def)
  qed
qed

lemma atoi_range: "atoi s = Some i \<Longrightarrow> - (2 ^ 63) \<le> i \<and> i < 2 ^ 63"
  by (auto simp: atoi_def split: option.splits if_splits list.splits prod.splits)

section \<open>UTF-8\<close>

definition rune_error :: rune where "rune_error = 65533"

definition in_range :: "nat \<Rightarrow> nat \<Rightarrow> char \<Rightarrow> bool" where
  "in_range lo hi c \<longleftrightarrow> lo \<le> of_char c \<and> of_char c \<le> hi"

definition cont_bits :: "char \<Rightarrow> nat" where
  "cont_bits c = of_char c - 128"

text \<open>
  The multi-byte encodings after a first byte \<open>n\<close> of at least 128: the code point and how
  many further bytes it takes; \<open>None\<close> where the encoding is invalid (a stray continuation
  byte, an overlong form, a surrogate, a value above U+10FFFF, a truncated sequence).
\<close>

definition utf8_tail :: "nat \<Rightarrow> string \<Rightarrow> (rune \<times> nat) option" where
  "utf8_tail n s =
     (if 0xC2 \<le> n \<and> n \<le> 0xDF then
        (case s of b # _ \<Rightarrow> if in_range 0x80 0xBF b then Some ((n - 0xC0) * 64 + cont_bits b, 1) else None
         | _ \<Rightarrow> None)
      else if 0xE0 \<le> n \<and> n \<le> 0xEF then
        (case s of b # c # _ \<Rightarrow>
           if in_range (if n = 0xE0 then 0xA0 else 0x80) (if n = 0xED then 0x9F else 0xBF) b
              \<and> in_range 0x80 0xBF c
           then Some ((n - 0xE0) * 4096 + cont_bits b * 64 + cont_bits c, 2) else None
         | _ \<Rightarrow> None)
      else if 0xF0 \<le> n \<and> n \<le> 0xF4 then
        (case s of b # c # d # _ \<Rightarrow>
           if in_range (if n = 0xF0 then 0x90 else 0x80) (if n = 0xF4 then 0x8F else 0xBF) b
              \<and> in_range 0x80 0xBF c \<and> in_range 0x80 0xBF d
           then Some ((n - 0xF0) * 262144 + cont_bits b * 4096 + cont_bits c * 64 + cont_bits d, 3)
           else None
         | _ \<Rightarrow> None)
      else None)"

function decode_runes :: "string \<Rightarrow> rune list" where
  "decode_runes [] = []"
| "decode_runes (a # s) =
     (let n = of_char a in
      if n < 128 then n # decode_runes s
      else case utf8_tail n s of
             Some (r, k) \<Rightarrow> r # decode_runes (drop k s)
           | None \<Rightarrow> rune_error # decode_runes s)"
  by pat_completeness auto
termination
  by (relation "measure length") auto

text \<open>\<open>string(runes)\<close>: surrogates and values above U+10FFFF become U+FFFD.\<close>

definition encode_rune :: "rune \<Rightarrow> string" where
  "encode_rune r0 =
     (let r = (if r0 \<le> 0x10FFFF \<and> \<not> (0xD800 \<le> r0 \<and> r0 \<le> 0xDFFF) then r0 else rune_error) in
      if r < 0x80 then [char_of r]
      else if r < 0x800 then [char_of (0xC0 + r div 64), char_of (0x80 + r mod 64)]
      else if r < 0x10000 then
        [char_of (0xE0 + r div 4096), char_of (0x80 + r div 64 mod 64), char_of (0x80 + r mod 64)]
      else
        [char_of (0xF0 + r div 262144), char_of (0x80 + r div 4096 mod 64),
         char_of (0x80 + r div 64 mod 64), char_of (0x80 + r mod 64)])"

definition encode_runes :: "rune list \<Rightarrow> string" where
  "encode_runes rs = concat (map encode_rune rs)"

definition ascii :: "string \<Rightarrow> bool" where
  "ascii s \<longleftrightarrow> (\<forall>c \<in> set s. (of_char c :: nat) < 128)"

lemma ascii_simps [simp]:
  "ascii []" "ascii (c # s) \<longleftrightarrow> (of_char c :: nat) < 128 \<and> ascii s"
  "ascii (s @ t) \<longleftrightarrow> ascii s \<and> ascii t"
  by (auto simp: ascii_def)

lemma decode_ascii: "ascii s \<Longrightarrow> decode_runes s = map of_char s"
  by (induction s) auto

lemma decode_ascii_append: "ascii s \<Longrightarrow> decode_runes (s @ t) = map of_char s @ decode_runes t"
  by (induction s) auto

lemma encode_rune_ascii: "r < 128 \<Longrightarrow> encode_rune r = [char_of r]"
  by (simp add: encode_rune_def)

lemma encode_decode_ascii: "ascii s \<Longrightarrow> encode_runes (map of_char s) = s"
  by (induction s) (auto simp: encode_runes_def encode_rune_ascii)

lemma encode_runes_append: "encode_runes (xs @ ys) = encode_runes xs @ encode_runes ys"
  by (simp add: encode_runes_def)

end
