(* ===== verification/GoFloat.thy ===== *)
theory GoFloat
  imports GoConv
begin

text \<open>
  Go's float64 as the template language uses it: IEEE 754 binary64 with rounding to nearest
  even. A finite number is a sign, a mantissa and a power of two. What is modelled is what the
  language calls: \<open>strconv.ParseFloat(s, 64)\<close> with its whole grammar (decimal and
  hexadecimal forms, underscores, infinities, NaN), \<open>FormatFloat(x, 'f', -1, 64)\<close> (the
  shortest decimal that reads back as the same number), addition, the order comparisons, and
  the conversion to an integer, which Go leaves to the implementation outside the 64-bit range.
\<close>

datatype f64 = F_NaN | F_Inf bool | F_Fin bool nat int

definition f_zero :: "bool \<Rightarrow> f64" where
  "f_zero neg = F_Fin neg 0 (- 1074)"

fun bits :: "nat \<Rightarrow> nat" where
  "bits n = (if n = 0 then 0 else Suc (bits (n div 2)))"

declare bits.simps [simp del]

text \<open>The quotient \<open>p / q\<close> divided by a power of two, as a fraction; and its rounding.\<close>

definition scale :: "nat \<Rightarrow> nat \<Rightarrow> int \<Rightarrow> nat \<times> nat" where
  "scale p q e = (if 0 \<le> e then (p, q * 2 ^ nat e) else (p * 2 ^ nat (- e), q))"

definition round_even :: "nat \<Rightarrow> nat \<Rightarrow> nat" where
  "round_even a b =
     (let d = a div b; r = a mod b in
      if 2 * r < b then d else if b < 2 * r then d + 1 else if even d then d else d + 1)"

definition f_make :: "bool \<Rightarrow> nat \<Rightarrow> nat \<Rightarrow> f64" where
  "f_make neg p q =
     (if p = 0 then f_zero neg
      else
        let e0 = int (bits p) - int (bits q) - 53;
            (a0, b0) = scale p q e0;
            e1 = (if 2 ^ 53 \<le> a0 div b0 then e0 + 1 else e0);
            e = max e1 (- 1074);
            (a, b) = scale p q e;
            m = round_even a b;
            (m', e') = (if m = 2 ^ 53 then (2 ^ 52, e + 1) else (m, e))
        in if 971 < e' then F_Inf neg else F_Fin neg m' e')"

definition f_of_int :: "int \<Rightarrow> f64" where
  "f_of_int i = f_make (i < 0) (nat \<bar>i\<bar>) 1"

section \<open>Arithmetic and comparison\<close>

definition signed :: "bool \<Rightarrow> nat \<Rightarrow> int" where
  "signed neg m = (if neg then - int m else int m)"

fun f_add :: "f64 \<Rightarrow> f64 \<Rightarrow> f64" where
  "f_add F_NaN _ = F_NaN"
| "f_add _ F_NaN = F_NaN"
| "f_add (F_Inf s) (F_Inf t) = (if s = t then F_Inf s else F_NaN)"
| "f_add (F_Inf s) _ = F_Inf s"
| "f_add _ (F_Inf t) = F_Inf t"
| "f_add (F_Fin s m e) (F_Fin t n f) =
     (let k = min e f;
          i = signed s m * 2 ^ nat (e - k) + signed t n * 2 ^ nat (f - k)
      in if i = 0 then f_zero (s \<and> t)
         else if 0 \<le> k then f_make (i < 0) (nat \<bar>i\<bar> * 2 ^ nat k) 1
         else f_make (i < 0) (nat \<bar>i\<bar>) (2 ^ nat (- k)))"

fun f_less :: "f64 \<Rightarrow> f64 \<Rightarrow> bool" where
  "f_less F_NaN _ = False"
| "f_less _ F_NaN = False"
| "f_less (F_Inf s) (F_Inf t) \<longleftrightarrow> s \<and> \<not> t"
| "f_less (F_Inf s) (F_Fin _ _ _) \<longleftrightarrow> s"
| "f_less (F_Fin _ _ _) (F_Inf t) \<longleftrightarrow> \<not> t"
| "f_less (F_Fin s m e) (F_Fin t n f) \<longleftrightarrow>
     (let k = min e f in signed s m * 2 ^ nat (e - k) < signed t n * 2 ^ nat (f - k))"

fun f_equal :: "f64 \<Rightarrow> f64 \<Rightarrow> bool" where
  "f_equal F_NaN _ = False"
| "f_equal _ F_NaN = False"
| "f_equal (F_Inf s) (F_Inf t) \<longleftrightarrow> s = t"
| "f_equal (F_Fin s m e) (F_Fin t n f) \<longleftrightarrow>
     (let k = min e f in signed s m * 2 ^ nat (e - k) = signed t n * 2 ^ nat (f - k))"
| "f_equal _ _ = False"

definition f_less_eq :: "f64 \<Rightarrow> f64 \<Rightarrow> bool" where
  "f_less_eq a b \<longleftrightarrow> f_less a b \<or> f_equal a b"

text \<open>
  \<open>int64(x)\<close>: truncation towards zero where the result fits; elsewhere Go's result depends
  on the machine, so it comes from the parameter \<open>out\<close>.
\<close>

fun f_trunc :: "f64 \<Rightarrow> int option" where
  "f_trunc (F_Fin s m e) =
     (let n = (if 0 \<le> e then m * 2 ^ nat e else m div 2 ^ nat (- e)); i = signed s n
      in if - (2 ^ 63) \<le> i \<and> i < 2 ^ 63 then Some i else None)"
| "f_trunc _ = None"

definition f_to_int :: "(f64 \<Rightarrow> int) \<Rightarrow> f64 \<Rightarrow> int" where
  "f_to_int out x = (case f_trunc x of Some i \<Rightarrow> i | None \<Rightarrow> out x)"

section \<open>Reading a number\<close>

definition hex_val :: "char \<Rightarrow> nat option" where
  "hex_val c =
     (if is_digit c then Some (digit_val c)
      else let l = lower_char c in
        if CHR ''a'' \<le> l \<and> l \<le> CHR ''f'' then Some (of_char l - 87) else None)"

definition mant_digit :: "bool \<Rightarrow> char \<Rightarrow> nat option" where
  "mant_digit hex c = (if hex then hex_val c else if is_digit c then Some (digit_val c) else None)"

text \<open>
  The loop of \<open>readFloat\<close> over the mantissa: the number read so far, how many of its digits
  stand after the point, whether a point and a digit were seen; it returns at the first
  character that cannot continue a mantissa.
\<close>

fun scan_mant :: "bool \<Rightarrow> bool \<Rightarrow> bool \<Rightarrow> nat \<Rightarrow> nat \<Rightarrow> string \<Rightarrow> (bool \<times> nat \<times> nat \<times> string)" where
  "scan_mant hex dot dig m fr [] = (dig, m, fr, [])"
| "scan_mant hex dot dig m fr (c # cs) =
     (if c = CHR ''_'' then scan_mant hex dot dig m fr cs
      else if c = CHR ''.'' then
        (if dot then (dig, m, fr, c # cs) else scan_mant hex True dig m fr cs)
      else case mant_digit hex c of
             Some d \<Rightarrow> scan_mant hex dot True ((if hex then 16 else 10) * m + d) (if dot then Suc fr else fr) cs
           | None \<Rightarrow> (dig, m, fr, c # cs))"

fun scan_exp :: "nat \<Rightarrow> string \<Rightarrow> (nat \<times> string)" where
  "scan_exp e [] = (e, [])"
| "scan_exp e (c # cs) =
     (if c = CHR ''_'' then scan_exp e cs
      else if is_digit c then scan_exp (if e < 10000 then 10 * e + digit_val c else e) cs
      else (e, c # cs))"

fun underscore_scan :: "bool \<Rightarrow> char \<Rightarrow> string \<Rightarrow> bool" where
  "underscore_scan hex saw [] = (saw \<noteq> CHR ''_'')"
| "underscore_scan hex saw (c # cs) =
     (if mant_digit hex c \<noteq> None then underscore_scan hex CHR ''0'' cs
      else if c = CHR ''_'' then saw = CHR ''0'' \<and> underscore_scan hex CHR ''_'' cs
      else saw \<noteq> CHR ''_'' \<and> underscore_scan hex CHR ''!'' cs)"

definition split_sign :: "string \<Rightarrow> bool \<times> string" where
  "split_sign s = (case s of
     c # cs \<Rightarrow> if c = CHR ''-'' then (True, cs) else if c = CHR ''+'' then (False, cs) else (False, s)
   | [] \<Rightarrow> (False, []))"

definition underscore_ok :: "string \<Rightarrow> bool" where
  "underscore_ok s =
     (case snd (split_sign s) of
        z # x # rest \<Rightarrow>
          if z = CHR ''0'' \<and> lower_char x \<in> set ''box''
          then underscore_scan (lower_char x = CHR ''x'') CHR ''0'' rest
          else underscore_scan False CHR ''^'' (z # x # rest)
      | r \<Rightarrow> underscore_scan False CHR ''^'' r)"

definition parse_special :: "string \<Rightarrow> f64 option" where
  "parse_special s =
     (let (neg, r) = split_sign s; l = to_lower r in
      if l = ''inf'' \<or> l = ''infinity'' then Some (F_Inf neg)
      else if to_lower s = ''nan'' then Some F_NaN else None)"

definition parse_exponent :: "bool \<Rightarrow> string \<Rightarrow> int option" where
  "parse_exponent hex s = (case s of
     [] \<Rightarrow> if hex then None else Some 0
   | c # cs \<Rightarrow>
       if lower_char c = (if hex then CHR ''p'' else CHR ''e'') then
         (let (neg, ds) = split_sign cs in
          case ds of
            [] \<Rightarrow> None
          | d # _ \<Rightarrow>
              if is_digit d
              then (let (e, rest) = scan_exp 0 ds in
                    if rest = [] then Some (if neg then - int e else int e) else None)
              else None)
       else None)"

definition pow_frac :: "nat \<Rightarrow> nat \<Rightarrow> int \<Rightarrow> nat \<times> nat" where
  "pow_frac b m e = (if 0 \<le> e then (m * b ^ nat e, 1) else (m, b ^ nat (- e)))"

definition parse_float :: "string \<Rightarrow> f64 option" where
  "parse_float s =
     (case parse_special s of Some x \<Rightarrow> Some x
      | None \<Rightarrow>
        let (neg, r) = split_sign s;
            hex = (case r of z # x # _ # _ \<Rightarrow> z = CHR ''0'' \<and> lower_char x = CHR ''x'' | _ \<Rightarrow> False);
            (dig, m, fr, rest) = scan_mant hex False False 0 0 (if hex then drop 2 r else r)
        in if \<not> dig then None
           else case parse_exponent hex rest of
                  None \<Rightarrow> None
                | Some e \<Rightarrow>
                    if CHR ''_'' \<in> set s \<and> \<not> underscore_ok s then None
                    else
                      let (p, q) = (if hex then pow_frac 2 m (e - 4 * int fr) else pow_frac 10 m (e - int fr));
                          x = f_make neg p q
                      in case x of F_Inf _ \<Rightarrow> None | _ \<Rightarrow> Some x)"

section \<open>Printing a number\<close>

fun lead_zeros :: "nat \<Rightarrow> nat \<Rightarrow> nat \<Rightarrow> nat" where
  "lead_zeros 0 p q = 0"
| "lead_zeros (Suc k) p q = (if q \<le> p * 10 then 0 else Suc (lead_zeros k (p * 10) q))"

text \<open>The power of ten above \<open>p / q\<close>; no finite float64 has more than 323 zeros after the point.\<close>

definition dec_point :: "nat \<Rightarrow> nat \<Rightarrow> int" where
  "dec_point p q = (if q \<le> p then int (length (nat_digits (p div q))) else - int (lead_zeros 330 p q))"

definition reads_back :: "nat \<Rightarrow> int \<Rightarrow> f64 \<Rightarrow> bool" where
  "reads_back d k x = (case pow_frac 10 d k of (p, q) \<Rightarrow> f_make False p q = x)"

text \<open>The shortest decimal: the first number of digits at which one of the two neighbours reads back.\<close>

fun shortest :: "nat \<Rightarrow> nat \<Rightarrow> nat \<Rightarrow> nat \<Rightarrow> int \<Rightarrow> f64 \<Rightarrow> nat \<times> int" where
  "shortest 0 n p q c x = (let (a, b) = pow_frac 10 p (int n - c) in (a div (b * q), c - int n))"
| "shortest (Suc f) n p q c x =
     (let k = c - int n;
          (a, b) = pow_frac 10 p (- k);
          d = a div (b * q); r = a mod (b * q);
          lo = reads_back d k x; hi = reads_back (d + 1) k x
      in if lo \<and> hi then (if 2 * r < b * q \<or> 2 * r = b * q \<and> even d then (d, k) else (d + 1, k))
         else if lo then (d, k) else if hi then (d + 1, k)
         else shortest f (Suc n) p q c x)"

fun strip_zeros :: "nat \<Rightarrow> nat \<Rightarrow> int \<Rightarrow> nat \<times> int" where
  "strip_zeros 0 d k = (d, k)"
| "strip_zeros (Suc f) d k = (if k < 0 \<and> d mod 10 = 0 then strip_zeros f (d div 10) (k + 1) else (d, k))"

definition show_decimal :: "nat \<Rightarrow> int \<Rightarrow> string" where
  "show_decimal d k =
     (let ds = nat_digits d; n = nat (- k) in
      if 0 \<le> k then ds @ replicate (nat k) CHR ''0''
      else if n < length ds then take (length ds - n) ds @ ''.'' @ drop (length ds - n) ds
      else ''0.'' @ replicate (n - length ds) CHR ''0'' @ ds)"

fun format_float :: "f64 \<Rightarrow> string" where
  "format_float F_NaN = ''NaN''"
| "format_float (F_Inf neg) = (if neg then ''-Inf'' else ''+Inf'')"
| "format_float (F_Fin neg m e) =
     (if neg then ''-'' else []) @
     (if m = 0 then ''0''
      else
        let (p, q) = (if 0 \<le> e then (m * 2 ^ nat e, 1) else (m, 2 ^ nat (- e)));
            (d, k) = shortest 17 1 p q (dec_point p q) (F_Fin False m e);
            (d', k') = strip_zeros 20 d k
        in show_decimal d' k')"

section \<open>Whole numbers are exact\<close>

lemma bits_bounds: "0 < n \<Longrightarrow> 2 ^ (bits n - 1) \<le> n \<and> n < 2 ^ bits n \<and> 0 < bits n"
proof (induction n rule: bits.induct)
  case (1 n)
  show ?case
  proof (cases "n div 2 = 0")
    case True
    with 1 have "n = 1" by linarith
    then show ?thesis by (simp add: bits.simps)
  next
    case False
    then have pos: "0 < n div 2" by simp
    with 1 have IH: "2 ^ (bits (n div 2) - 1) \<le> n div 2" "n div 2 < 2 ^ bits (n div 2)" "0 < bits (n div 2)"
      by auto
    have b: "bits n = Suc (bits (n div 2))" using 1 by (simp add: bits.simps [of n])
    obtain k where k: "bits (n div 2) = Suc k" using IH(3) gr0_implies_Suc by blast
    have "2 * 2 ^ k \<le> n" using IH(1) k by simp
    moreover have "n < 2 * 2 ^ Suc k" using IH(2) k by simp
    ultimately show ?thesis by (simp add: b k)
  qed
qed

lemma bits_le: "0 < n \<Longrightarrow> n < 2 ^ k \<Longrightarrow> bits n \<le> k"
proof (rule ccontr)
  assume n: "0 < n" "n < 2 ^ k" and "\<not> bits n \<le> k"
  then have "k \<le> bits n - 1" by linarith
  then have "(2 :: nat) ^ k \<le> 2 ^ (bits n - 1)" by (rule power_increasing) simp
  with n bits_bounds [of n] show False by linarith
qed

lemma bits_one [simp]: "bits (Suc 0) = 1"
  by (simp add: bits.simps)

lemma round_even_one [simp]: "round_even a (Suc 0) = a"
  by (simp add: round_even_def)

lemma f_make_whole:
  assumes "0 < n" and "n < 2 ^ 53"
  shows "f_make neg n 1 = F_Fin neg (n * 2 ^ (53 - bits n)) (int (bits n) - 53)"
proof -
  let ?b = "bits n"
  have b: "2 ^ (?b - 1) \<le> n" "n < 2 ^ ?b" "0 < ?b" using bits_bounds [OF assms(1)] by auto
  have b53: "?b \<le> 53" using bits_le assms by blast
  let ?e0 = "int ?b - 54"
  have neg: "nat (- ?e0) = 54 - ?b" using b53 by linarith
  have "(2 :: nat) ^ 53 = 2 ^ (?b - 1) * 2 ^ (54 - ?b)"
    using b(3) b53 by (simp flip: power_add)
  also have "\<dots> \<le> n * 2 ^ (54 - ?b)" using b(1) by simp
  finally have big: "2 ^ 53 \<le> n * 2 ^ (54 - ?b)" .
  have s0: "scale n 1 ?e0 = (n * 2 ^ (54 - ?b), 1)" using b53 neg by (simp add: scale_def)
  have s1: "scale n 1 (int ?b - 53) = (n * 2 ^ (53 - ?b), 1)"
  proof (cases "?b = 53")
    case True
    then show ?thesis by (simp add: scale_def)
  next
    case False
    with b53 have "nat (- (int ?b - 53)) = 53 - ?b" by linarith
    with False b53 show ?thesis by (simp add: scale_def)
  qed
  have "n * 2 ^ (53 - ?b) < 2 ^ ?b * 2 ^ (53 - ?b)" using b(2) by simp
  also have "\<dots> = 2 ^ 53" using b53 by (simp flip: power_add)
  finally have small: "n * 2 ^ (53 - ?b) < 2 ^ 53" .
  have e: "max (int ?b - 53) (- 1074) = int ?b - 53" by simp
  show ?thesis
    using assms(1) b(3) big small s0 s1 b53
    by (simp add: f_make_def Let_def e)
qed

lemma f_trunc_of_int: "\<bar>i\<bar> < 2 ^ 53 \<Longrightarrow> f_trunc (f_of_int i) = Some i"
proof -
  assume a: "\<bar>i\<bar> < 2 ^ 53"
  show ?thesis
  proof (cases "i = 0")
    case True
    then show ?thesis by (simp add: f_of_int_def f_make_def f_zero_def signed_def)
  next
    case False
    let ?n = "nat \<bar>i\<bar>" and ?b = "bits (nat \<bar>i\<bar>)"
    have n: "0 < ?n" "?n < 2 ^ 53" using a False by (auto simp: nat_less_iff)
    have b53: "?b \<le> 53" using bits_le n by blast
    have mk: "f_of_int i = F_Fin (i < 0) (?n * 2 ^ (53 - ?b)) (int ?b - 53)"
      using f_make_whole [OF n] by (simp add: f_of_int_def)
    have mant: "(if 0 \<le> int ?b - 53 then ?n * 2 ^ (53 - ?b) * 2 ^ nat (int ?b - 53)
               else ?n * 2 ^ (53 - ?b) div 2 ^ nat (- (int ?b - 53))) = ?n"
    proof (cases "?b = 53")
      case True
      then show ?thesis by simp
    next
      case False
      with b53 have "nat (- (int ?b - 53)) = 53 - ?b" by linarith
      with False b53 show ?thesis by simp
    qed
    have "signed (i < 0) ?n = i" by (simp add: signed_def)
    moreover have "- (2 ^ 63) \<le> i \<and> i < 2 ^ 63" using a by (simp add: abs_less_iff)
    ultimately show ?thesis unfolding mk by (simp only: f_trunc.simps mant Let_def) simp
  qed
qed

lemma f_equal_refl_fin [simp]: "f_equal (F_Fin s m e) (F_Fin s m e)"
  by (simp add: Let_def)

lemma f_less_irrefl [simp]: "\<not> f_less x x"
  by (cases x) (auto simp: Let_def)

lemma f_less_asym: "f_less x y \<Longrightarrow> \<not> f_less y x"
  by (cases x; cases y) (auto simp: Let_def min.commute)

lemma f_equal_sym: "f_equal x y \<longleftrightarrow> f_equal y x"
  by (cases x; cases y) (auto simp: Let_def min.commute)

end
