(* ===== verification/GoBase64.thy ===== *)
theory GoBase64
  imports GoConv
begin

text \<open>
  \<open>base64.StdEncoding\<close>: the padded encoding, and \<open>DecodeString\<close>, which skips line
  breaks, wants the padding exactly at the end and does not look at the unused low bits of the
  last character.
\<close>

definition b64_alphabet :: string where
  "b64_alphabet = ''ABCDEFGHIJKLMNOPQRSTUVWXYZabcdefghijklmnopqrstuvwxyz0123456789+/''"

definition b64_char :: "nat \<Rightarrow> char" where
  "b64_char n =
     char_of (if n < 26 then 65 + n else if n < 52 then 71 + n else if n < 62 then n - 4
              else if n = 62 then 43 else 47)"

definition b64_val :: "char \<Rightarrow> nat option" where
  "b64_val c =
     (let n = of_char c :: nat in
      if 65 \<le> n \<and> n \<le> 90 then Some (n - 65)
      else if 97 \<le> n \<and> n \<le> 122 then Some (n - 71)
      else if 48 \<le> n \<and> n \<le> 57 then Some (n + 4)
      else if n = 43 then Some 62 else if n = 47 then Some 63 else None)"

fun b64_encode :: "string \<Rightarrow> string" where
  "b64_encode [] = []"
| "b64_encode [a] =
     (let x = of_char a :: nat in [b64_char (x div 4), b64_char (x mod 4 * 16), CHR ''='', CHR ''=''])"
| "b64_encode [a, b] =
     (let x = of_char a :: nat; y = of_char b :: nat in
      [b64_char (x div 4), b64_char (x mod 4 * 16 + y div 16), b64_char (y mod 16 * 4), CHR ''=''])"
| "b64_encode (a # b # c # s) =
     (let x = of_char a :: nat; y = of_char b :: nat; z = of_char c :: nat in
      b64_char (x div 4) # b64_char (x mod 4 * 16 + y div 16) # b64_char (y mod 16 * 4 + z div 64)
        # b64_char (z mod 64) # b64_encode s)"

fun b64_quanta :: "string \<Rightarrow> string option" where
  "b64_quanta [] = Some []"
| "b64_quanta (a # b # c # d # s) =
     (case (b64_val a, b64_val b) of
        (Some i, Some j) \<Rightarrow>
          (case b64_val c of
             None \<Rightarrow>
               if c = CHR ''='' \<and> d = CHR ''='' \<and> s = [] then Some [char_of (i * 4 + j div 16)] else None
           | Some k \<Rightarrow>
               (case b64_val d of
                  None \<Rightarrow>
                    if d = CHR ''='' \<and> s = []
                    then Some [char_of (i * 4 + j div 16), char_of (j mod 16 * 16 + k div 4)] else None
                | Some l \<Rightarrow>
                    map_option (\<lambda>r. char_of (i * 4 + j div 16) # char_of (j mod 16 * 16 + k div 4)
                                      # char_of (k mod 4 * 64 + l) # r) (b64_quanta s)))
      | _ \<Rightarrow> None)"
| "b64_quanta _ = None"

definition b64_decode :: "string \<Rightarrow> string option" where
  "b64_decode s = b64_quanta (filter (\<lambda>c. c \<noteq> newline \<and> c \<noteq> CHR 0x0D) s)"

lemma b64_alphabet_char: "n < 64 \<Longrightarrow> b64_alphabet ! n = b64_char n"
proof -
  have "list_all (\<lambda>n. b64_alphabet ! n = b64_char n) [0..<64]" by code_simp
  then show "n < 64 \<Longrightarrow> b64_alphabet ! n = b64_char n" by (simp add: list_all_iff)
qed

lemma b64_val_char: "n < 64 \<Longrightarrow> b64_val (b64_char n) = Some n"
  by (auto simp: b64_val_def b64_char_def Let_def)

lemma b64_pad [simp]: "b64_val CHR ''='' = None"
  by (simp add: b64_val_def)

lemma b64_char_no_break: "n < 64 \<Longrightarrow> b64_char n \<noteq> newline \<and> b64_char n \<noteq> CHR 0x0D"
proof -
  have "list_all (\<lambda>n. b64_char n \<noteq> newline \<and> b64_char n \<noteq> CHR 0x0D) [0..<64]" by code_simp
  then show "n < 64 \<Longrightarrow> b64_char n \<noteq> newline \<and> b64_char n \<noteq> CHR 0x0D"
    by (simp add: list_all_iff)
qed

lemma b64_parts [simp]:
  "(of_char c :: nat) div 4 < 64" "(of_char c :: nat) mod 4 * 16 < 64"
  "(of_char c :: nat) mod 16 * 4 < 64" "(of_char c :: nat) mod 64 < 64"
  "(of_char c :: nat) div 16 < 16" "(of_char c :: nat) div 64 < 4"
  using nat_of_char_less_256 [of c] by linarith+

lemma b64_joins [simp]:
  "(of_char c :: nat) mod 4 * 16 + of_char d div 16 < 64"
  "(of_char c :: nat) mod 16 * 4 + of_char d div 64 < 64"
proof -
  have "(of_char c :: nat) mod 4 < 4" "(of_char d :: nat) div 16 < 16" by simp_all
  then show "(of_char c :: nat) mod 4 * 16 + of_char d div 16 < 64" by linarith
  have "(of_char c :: nat) mod 16 < 16" "(of_char d :: nat) div 64 < 4" by simp_all
  then show "(of_char c :: nat) mod 16 * 4 + of_char d div 64 < 64" by linarith
qed

lemma b64_encode_no_break: "c \<in> set (b64_encode s) \<Longrightarrow> c \<noteq> newline \<and> c \<noteq> CHR 0x0D"
  by (induction s rule: b64_encode.induct)
     (auto simp: Let_def b64_char_no_break)

lemma b64_char_visible: "n < 64 \<Longrightarrow> visible (b64_char n)"
proof -
  have "list_all (\<lambda>n. visible (b64_char n)) [0..<64]" by code_simp
  then show "n < 64 \<Longrightarrow> visible (b64_char n)" by (simp add: list_all_iff)
qed

lemma b64_encode_visible: "list_all visible (b64_encode s)"
  by (induction s rule: b64_encode.induct) (auto simp: Let_def b64_char_visible visible_def [of "CHR ''=''"])

lemma b64_encode_Nil: "b64_encode s = [] \<longleftrightarrow> s = []"
  by (cases s rule: b64_encode.cases) (auto simp: Let_def)

lemma b64_quanta_encode: "b64_quanta (b64_encode s) = Some s"
  by (induction s rule: b64_encode.induct)
     (simp_all add: Let_def b64_val_char)

theorem b64_roundtrip: "b64_decode (b64_encode s) = Some s"
proof -
  have "filter (\<lambda>c. c \<noteq> newline \<and> c \<noteq> CHR 0x0D) (b64_encode s) = b64_encode s"
    using b64_encode_no_break by (intro filter_True) blast
  then show ?thesis by (simp add: b64_decode_def b64_quanta_encode)
qed

end
