(* ===== verification/TemplateExpr.thy ===== *)
theory TemplateExpr
  imports GoFloat GoBase64
begin

text \<open>
  The placeholder expression language of controllers/template_expr.go: its tokenizer, its
  recursive-descent parser, which evaluates while it parses, and the functions it calls. A
  parser function takes the remaining tokens (\<open>p.tokens[p.pos:]\<close>) and the position in the
  source of randomness; it returns a value with both of them after it, or an error with the
  position in the source (nothing reads the tokens after an error). The
  recursion is bounded by fuel; \<open>TemplateSound\<close> shows that the fuel the entry point passes is
  always enough.
\<close>

section \<open>Values, data, errors\<close>

datatype tval = VNil | VBool bool | VNum f64 | VStr string

record template_data =
  Defaults :: "string \<rightharpoonup> string"
  Inputs :: "string \<rightharpoonup> string"
  Env :: "string \<rightharpoonup> string"

text \<open>
  \<open>rnd k\<close> is what the \<open>k\<close>-th call of \<open>crypto/rand.Int\<close> returns (\<open>None\<close> for an
  error) and \<open>int_out\<close> the machine's conversion of a float64 outside the 64-bit range.
\<close>

record tenv =
  data :: template_data
  rnd :: "nat \<Rightarrow> nat option"
  int_out :: "f64 \<Rightarrow> int"

datatype expr_error =
    UnterminatedString | UnexpectedChar rune | UnexpectedToken string | UnexpectedEnd
  | MissingParen | MissingParenAfter string | ExpectedName string | UnknownFunction string
  | UnknownOperator string | BadNumber string | OutOfFuel

definition lookup :: "template_data \<Rightarrow> string list \<Rightarrow> string \<times> bool" where
  "lookup d path =
     (case path of
        [a, b] \<Rightarrow>
          if a = ''defaults'' then (case Defaults d b of Some v \<Rightarrow> (v, True) | None \<Rightarrow> ([], False))
          else if a = ''inputs'' then (case Inputs d b of Some v \<Rightarrow> (v, True) | None \<Rightarrow> ([], False))
          else ([], False)
      | [a] \<Rightarrow>
          (case Env d a of Some v \<Rightarrow> (v, True)
           | None \<Rightarrow> (case Defaults d a of Some v \<Rightarrow> (v, True)
                      | None \<Rightarrow> (case Inputs d a of Some v \<Rightarrow> (v, True) | None \<Rightarrow> ([], False))))
      | _ \<Rightarrow> ([], False))"

fun truthy :: "tval \<Rightarrow> bool" where
  "truthy VNil = False"
| "truthy (VBool b) = b"
| "truthy (VNum x) = (\<not> f_equal x (f_zero False))"
| "truthy (VStr s) = (s \<noteq> [] \<and> s \<noteq> ''false'')"

definition format_bool :: "bool \<Rightarrow> string" where
  "format_bool b = (if b then ''true'' else ''false'')"

fun value_to_string :: "(f64 \<Rightarrow> int) \<Rightarrow> tval \<Rightarrow> string" where
  "value_to_string out VNil = []"
| "value_to_string out (VBool b) = format_bool b"
| "value_to_string out (VNum x) =
     (let i = f_to_int out x in
      if f_equal x (f_of_int i) then itoa i else format_float x)"
| "value_to_string out (VStr s) = s"

fun to_number :: "tval \<Rightarrow> f64 option" where
  "to_number (VNum x) = Some x"
| "to_number (VStr s) = parse_float s"
| "to_number _ = None"

section \<open>The tokenizer\<close>

datatype token = TIdent string | TString string | TNumber string | TOp string

definition token_value :: "token \<Rightarrow> string" where
  "token_value t = (case t of TIdent s \<Rightarrow> s | TString s \<Rightarrow> s | TNumber s \<Rightarrow> s | TOp s \<Rightarrow> s)"

definition is_identifier_rune :: "rune \<Rightarrow> bool" where
  "is_identifier_rune r \<longleftrightarrow>
     r = 95 \<or> r = 36 \<or> r = 45 \<or> 97 \<le> r \<and> r \<le> 122 \<or> 65 \<le> r \<and> r \<le> 90"

definition is_digit_rune :: "rune \<Rightarrow> bool" where
  "is_digit_rune r \<longleftrightarrow> 48 \<le> r \<and> r \<le> 57"

definition operators :: "string list" where
  "operators = [''==='', ''!=='', ''=='', ''!='', ''>='', ''<='', ''&&'', ''||'', ''!'', ''>'', ''<'',
     ''+'', ''('', '')'', '','', ''.'']"

definition runes_of :: "string \<Rightarrow> rune list" where
  "runes_of s = map of_char s"

definition match_operator :: "rune list \<Rightarrow> string option" where
  "match_operator rs = find (\<lambda>op. has_prefix rs (runes_of op)) operators"

definition add_token :: "token \<Rightarrow> (expr_error, token list) result \<Rightarrow> (expr_error, token list) result" where
  "add_token t res = (case res of Inl e \<Rightarrow> Inl e | Inr ts \<Rightarrow> Inr (t # ts))"

lemma add_token_simps [simp]: "add_token t (Inl e) = Inl e" "add_token t (Inr ts) = Inr (t # ts)"
  by (simp_all add: add_token_def)

lemma match_operator_nonempty: "match_operator rs = Some op \<Longrightarrow> op \<noteq> []"
proof -
  assume "match_operator rs = Some op"
  then obtain i where "i < length operators" "op = operators ! i"
    unfolding match_operator_def find_Some_iff by blast
  then have "op \<in> set operators" by simp
  moreover have "[] \<notin> set operators" by (simp add: operators_def)
  ultimately show ?thesis by blast
qed

lemma length_dropWhile_lt: "length (dropWhile p xs) < Suc (length xs)"
  by (simp add: le_imp_less_Suc length_dropWhile_le)

function tokenize_runes :: "rune list \<Rightarrow> (expr_error, token list) result" where
  "tokenize_runes [] = Ok []"
| "tokenize_runes (r # rs) =
     (if r = 32 \<or> r = 9 \<or> r = 10 then tokenize_runes rs
      else if r = 39 \<or> r = 34 then
        (case dropWhile (\<lambda>x. x \<noteq> r) rs of
           [] \<Rightarrow> Err UnterminatedString
         | _ # rest \<Rightarrow>
             add_token (TString (encode_runes (takeWhile (\<lambda>x. x \<noteq> r) rs))) (tokenize_runes rest))
      else if is_digit_rune r then
        add_token (TNumber (encode_runes (r # takeWhile (\<lambda>x. x = 46 \<or> is_digit_rune x) rs)))
          (tokenize_runes (dropWhile (\<lambda>x. x = 46 \<or> is_digit_rune x) rs))
      else if is_identifier_rune r then
        add_token (TIdent (encode_runes (r # takeWhile (\<lambda>x. is_identifier_rune x \<or> is_digit_rune x) rs)))
          (tokenize_runes (dropWhile (\<lambda>x. is_identifier_rune x \<or> is_digit_rune x) rs))
      else (case match_operator (r # rs) of
              None \<Rightarrow> Err (UnexpectedChar r)
            | Some op \<Rightarrow> add_token (TOp op) (tokenize_runes (drop (length op) (r # rs)))))"
  by pat_completeness auto
termination
proof (relation "measure length", goal_cases)
  case (3 r rs y ys)
  then have "length (y # ys) \<le> length rs" by (metis length_dropWhile_le)
  then show ?case by simp
next
  case (6 r rs op)
  then have "0 < length op" using match_operator_nonempty by blast
  then show ?case by auto
qed (simp_all add: length_dropWhile_lt)

declare tokenize_runes.simps(2) [simp del]

definition tokenize_expression :: "string \<Rightarrow> (expr_error, token list) result" where
  "tokenize_expression input = tokenize_runes (decode_runes input)"

section \<open>Functions\<close>

text \<open>A value or an error, and the position in the source of randomness after it.\<close>

type_synonym 'a rres = "(expr_error \<times> nat) + ('a \<times> nat)"

definition random_alphabet :: string where
  "random_alphabet = ''abcdefghijklmnopqrstuvwxyz0123456789''"

fun random_chars :: "(nat \<Rightarrow> nat option) \<Rightarrow> nat \<Rightarrow> nat \<Rightarrow> string option \<times> nat" where
  "random_chars r 0 k = (Some [], k)"
| "random_chars r (Suc n) k =
     (case r k of
        None \<Rightarrow> (None, Suc k)
      | Some i \<Rightarrow>
          (case random_chars r n (Suc k) of
             (None, k') \<Rightarrow> (None, k')
           | (Some s, k') \<Rightarrow> (Some (random_alphabet ! i # s), k')))"

definition random_string :: "(nat \<Rightarrow> nat option) \<Rightarrow> int \<Rightarrow> nat \<Rightarrow> string \<times> nat" where
  "random_string r len k =
     (let len = (if len \<le> 0 then 8 else len);
          len = (if 64 < len then 64 else len)
      in case random_chars r (nat len) k of
           (Some s, k') \<Rightarrow> (s, k')
         | (None, k') \<Rightarrow> (repeat ''x'' (nat len), k'))"

definition call_template_function ::
  "tenv \<Rightarrow> string \<Rightarrow> tval list \<Rightarrow> nat \<Rightarrow> tval rres" where
  "call_template_function env name args k =
     (if name = ''random'' then
        (let len = (case args of
               a # _ \<Rightarrow> (case to_number a of Some x \<Rightarrow> f_to_int (int_out env) x | None \<Rightarrow> 8)
             | [] \<Rightarrow> 8);
             (s, k') = random_string (rnd env) len k
         in Ok (VStr s, k'))
      else if name = ''base64'' then
        (case args of
           [] \<Rightarrow> Ok (VStr [], k)
         | a # _ \<Rightarrow> Ok (VStr (b64_encode (value_to_string (int_out env) a)), k))
      else if name = ''base64Decode'' then
        (case args of
           [] \<Rightarrow> Ok (VStr [], k)
         | a # _ \<Rightarrow>
             (case b64_decode (value_to_string (int_out env) a) of
                None \<Rightarrow> Ok (VStr [], k) | Some s \<Rightarrow> Ok (VStr s, k)))
      else Err (UnknownFunction name, k))"

definition compare_values :: "(f64 \<Rightarrow> int) \<Rightarrow> string \<Rightarrow> tval \<Rightarrow> tval \<Rightarrow> (expr_error, tval) result" where
  "compare_values out op l r =
     (let lt = value_to_string out l; rt = value_to_string out r;
          by_text =
            (if op = ''==='' \<or> op = ''=='' then Ok (VBool (lt = rt))
             else if op = ''!=='' \<or> op = ''!='' then Ok (VBool (lt \<noteq> rt))
             else if op = ''>'' then Ok (VBool (rt < lt))
             else if op = ''<'' then Ok (VBool (lt < rt))
             else if op = ''>='' then Ok (VBool (rt \<le> lt))
             else if op = ''<='' then Ok (VBool (lt \<le> rt))
             else Err (UnknownOperator op))
      in case (to_number l, to_number r) of
           (Some x, Some y) \<Rightarrow>
             if op = ''>='' then Ok (VBool (f_less_eq y x))
             else if op = ''<='' then Ok (VBool (f_less_eq x y))
             else if op = ''>'' then Ok (VBool (f_less y x))
             else if op = ''<'' then Ok (VBool (f_less x y))
             else by_text
         | _ \<Rightarrow> by_text)"

definition add_values :: "(f64 \<Rightarrow> int) \<Rightarrow> tval \<Rightarrow> tval \<Rightarrow> tval" where
  "add_values out l r =
     (case (to_number l, to_number r) of
        (Some x, Some y) \<Rightarrow> VNum (f_add x y)
      | _ \<Rightarrow> VStr (value_to_string out l @ value_to_string out r))"

section \<open>The parser\<close>

type_synonym pres = "(expr_error \<times> nat) + (tval \<times> token list \<times> nat)"

definition accept_op :: "string list \<Rightarrow> token list \<Rightarrow> (string \<times> token list) option" where
  "accept_op values ts =
     (case ts of TOp v # rest \<Rightarrow> if v \<in> set values then Some (v, rest) else None | _ \<Rightarrow> None)"

definition bindp :: "pres \<Rightarrow> (tval \<Rightarrow> token list \<Rightarrow> nat \<Rightarrow> pres) \<Rightarrow> pres" where
  "bindp p f = (case p of Inl e \<Rightarrow> Inl e | Inr (v, ts, k) \<Rightarrow> f v ts k)"

definition with_tokens :: "tval rres \<Rightarrow> token list \<Rightarrow> pres" where
  "with_tokens r ts = (case r of Inl e \<Rightarrow> Inl e | Inr (v, k) \<Rightarrow> Inr (v, ts, k))"

definition comparison_ops :: "string list" where
  "comparison_ops = [''==='', ''!=='', ''=='', ''!='', ''>='', ''<='', ''>'', ''<'']"

text \<open>The loop that reads \<open>.name\<close> after an identifier.\<close>

fun parse_path :: "string list \<Rightarrow> token list \<Rightarrow> (expr_error, string list) result \<times> token list" where
  "parse_path path (TOp v # rest) =
     (if v = ''.'' then
        (case rest of
           TIdent n # rest' \<Rightarrow> parse_path (path @ [n]) rest'
         | _ \<Rightarrow> (Err (ExpectedName (join ''.'' path)), rest))
      else (Ok path, TOp v # rest))"
| "parse_path path ts = (Ok path, ts)"

definition path_value :: "template_data \<Rightarrow> string list \<Rightarrow> tval" where
  "path_value d path =
     (let name = join ''.'' path in
      if name = ''true'' then VBool True
      else if name = ''false'' then VBool False
      else VStr (fst (lookup d path)))"

text \<open>
  The methods of \<open>exprParser\<close>, one constructor each; a loop inside a method is a production
  of its own that carries the value read so far. Each method is written over \<open>rec\<close>, the
  parser of the other productions, and \<open>parse\<close> ties the knot. Both operands of \<open>||\<close> and
  \<open>&&\<close> are parsed, hence evaluated, whatever the left one is; only the choice of the result
  follows JavaScript.
\<close>

datatype production =
    POr | POrLoop tval | PAnd | PAndLoop tval | PComparison | PSum | PSumLoop tval
  | PUnary | PPrimary | PArgs string "tval list"

type_synonym parser = "production \<Rightarrow> token list \<Rightarrow> nat \<Rightarrow> pres"

definition parse_or :: "parser \<Rightarrow> token list \<Rightarrow> nat \<Rightarrow> pres" where
  "parse_or rec ts k = bindp (rec PAnd ts k) (\<lambda>l. rec (POrLoop l))"

definition parse_or_loop :: "parser \<Rightarrow> tval \<Rightarrow> token list \<Rightarrow> nat \<Rightarrow> pres" where
  "parse_or_loop rec l ts k =
     (case accept_op [''||''] ts of
        None \<Rightarrow> Ok (l, ts, k)
      | Some (_, ts') \<Rightarrow> bindp (rec PAnd ts' k) (\<lambda>r. rec (POrLoop (if truthy l then l else r))))"

definition parse_and :: "parser \<Rightarrow> token list \<Rightarrow> nat \<Rightarrow> pres" where
  "parse_and rec ts k = bindp (rec PComparison ts k) (\<lambda>l. rec (PAndLoop l))"

definition parse_and_loop :: "parser \<Rightarrow> tval \<Rightarrow> token list \<Rightarrow> nat \<Rightarrow> pres" where
  "parse_and_loop rec l ts k =
     (case accept_op [''&&''] ts of
        None \<Rightarrow> Ok (l, ts, k)
      | Some (_, ts') \<Rightarrow>
          bindp (rec PComparison ts' k) (\<lambda>r. rec (PAndLoop (if \<not> truthy l then l else r))))"

definition parse_comparison :: "tenv \<Rightarrow> parser \<Rightarrow> token list \<Rightarrow> nat \<Rightarrow> pres" where
  "parse_comparison env rec ts k =
     bindp (rec PSum ts k) (\<lambda>l ts k.
       case accept_op comparison_ops ts of
         None \<Rightarrow> Ok (l, ts, k)
       | Some (op, ts') \<Rightarrow>
           bindp (rec PSum ts' k) (\<lambda>r ts k.
             case compare_values (int_out env) op l r of
               Inl e \<Rightarrow> Err (e, k) | Inr v \<Rightarrow> Ok (v, ts, k)))"

definition parse_sum :: "parser \<Rightarrow> token list \<Rightarrow> nat \<Rightarrow> pres" where
  "parse_sum rec ts k = bindp (rec PUnary ts k) (\<lambda>l. rec (PSumLoop l))"

definition parse_sum_loop :: "tenv \<Rightarrow> parser \<Rightarrow> tval \<Rightarrow> token list \<Rightarrow> nat \<Rightarrow> pres" where
  "parse_sum_loop env rec l ts k =
     (case accept_op [''+''] ts of
        None \<Rightarrow> Ok (l, ts, k)
      | Some (_, ts') \<Rightarrow>
          bindp (rec PUnary ts' k) (\<lambda>r. rec (PSumLoop (add_values (int_out env) l r))))"

definition parse_unary :: "parser \<Rightarrow> token list \<Rightarrow> nat \<Rightarrow> pres" where
  "parse_unary rec ts k =
     (case accept_op [''!''] ts of
        Some (_, ts') \<Rightarrow> bindp (rec PUnary ts' k) (\<lambda>v ts k. Ok (VBool (\<not> truthy v), ts, k))
      | None \<Rightarrow> rec PPrimary ts k)"

definition parse_args :: "tenv \<Rightarrow> parser \<Rightarrow> string \<Rightarrow> tval list \<Rightarrow> token list \<Rightarrow> nat \<Rightarrow> pres" where
  "parse_args env rec name args ts k =
     bindp (rec POr ts k) (\<lambda>a ts k.
       case accept_op ['',''] ts of
         Some (_, ts') \<Rightarrow> rec (PArgs name (args @ [a])) ts' k
       | None \<Rightarrow>
           (case accept_op ['')''] ts of
              Some (_, ts') \<Rightarrow>
                with_tokens (call_template_function env name (args @ [a]) k) ts'
            | None \<Rightarrow> Err (MissingParenAfter name, k)))"

definition parse_primary :: "tenv \<Rightarrow> parser \<Rightarrow> token list \<Rightarrow> nat \<Rightarrow> pres" where
  "parse_primary env rec ts k =
     (case ts of
        [] \<Rightarrow> Err (UnexpectedEnd, k)
      | TString s # rest \<Rightarrow> Ok (VStr s, rest, k)
      | TNumber s # rest \<Rightarrow>
          (case parse_float s of None \<Rightarrow> Err (BadNumber s, k) | Some x \<Rightarrow> Ok (VNum x, rest, k))
      | TOp v # rest \<Rightarrow>
          if v = ''('' then
            bindp (rec POr rest k) (\<lambda>v ts k.
              case accept_op ['')''] ts of
                None \<Rightarrow> Err (MissingParen, k)
              | Some (_, ts') \<Rightarrow> Ok (v, ts', k))
          else Err (UnexpectedToken v, k)
      | TIdent name # rest \<Rightarrow>
          (case accept_op [''(''] rest of
             Some (_, ts') \<Rightarrow>
               (case accept_op ['')''] ts' of
                  Some (_, ts'') \<Rightarrow>
                    with_tokens (call_template_function env name [] k) ts''
                | None \<Rightarrow> rec (PArgs name []) ts' k)
           | None \<Rightarrow>
               (case parse_path [name] rest of
                  (Inl e, ts') \<Rightarrow> Err (e, k)
                | (Inr path, ts') \<Rightarrow> Ok (path_value (data env) path, ts', k))))"

fun parse_production :: "tenv \<Rightarrow> parser \<Rightarrow> parser" where
  "parse_production env rec POr = parse_or rec"
| "parse_production env rec (POrLoop l) = parse_or_loop rec l"
| "parse_production env rec PAnd = parse_and rec"
| "parse_production env rec (PAndLoop l) = parse_and_loop rec l"
| "parse_production env rec PComparison = parse_comparison env rec"
| "parse_production env rec PSum = parse_sum rec"
| "parse_production env rec (PSumLoop l) = parse_sum_loop env rec l"
| "parse_production env rec PUnary = parse_unary rec"
| "parse_production env rec PPrimary = parse_primary env rec"
| "parse_production env rec (PArgs name args) = parse_args env rec name args"

primrec parse :: "tenv \<Rightarrow> nat \<Rightarrow> parser" where
  "parse env 0 = (\<lambda>g ts k. Err (OutOfFuel, k))"
| "parse env (Suc f) = parse_production env (parse env f)"

definition parse_fuel :: "token list \<Rightarrow> nat" where
  "parse_fuel ts = 10 * length ts + 10"

text \<open>A token left over after the expression is an error.\<close>

definition bind_end :: "pres \<Rightarrow> tval rres" where
  "bind_end p = (case p of
     Inl e \<Rightarrow> Inl e
   | Inr (v, [], k) \<Rightarrow> Ok (v, k)
   | Inr (v, t # _, k) \<Rightarrow> Err (UnexpectedToken (token_value t), k))"

definition evaluate_tokens :: "tenv \<Rightarrow> token list \<Rightarrow> nat \<Rightarrow> tval rres" where
  "evaluate_tokens env ts k =
     (if ts = [] then Ok (VNil, k)
      else bind_end (parse env (parse_fuel ts) POr ts k))"

definition evaluate_template_expression :: "tenv \<Rightarrow> string \<Rightarrow> nat \<Rightarrow> tval rres" where
  "evaluate_template_expression env expression k =
     (case tokenize_expression expression of
        Inl e \<Rightarrow> Err (e, k)
      | Inr ts \<Rightarrow> evaluate_tokens env ts k)"

definition evaluate_or_empty :: "tenv \<Rightarrow> string \<Rightarrow> nat \<Rightarrow> tval \<times> nat" where
  "evaluate_or_empty env expression k =
     (case evaluate_template_expression env expression k of
        Inl (_, k') \<Rightarrow> (VNil, k')
      | Inr (v, k') \<Rightarrow> (v, k'))"

end
