(* ===== verification/TemplateGrammar.thy ===== *)
theory TemplateGrammar
  imports TemplateSound
begin

text \<open>
  The meaning of the expression language. \<open>sem\<close> says what an expression tree means, without
  tokens or a parser; \<open>toks\<close> prints a tree with exactly the parentheses its precedences need.
  Parsing what was printed gives the meaning (\<open>parses_toks\<close>), so the grammar the parser
  implements is the one with the precedences of JavaScript, left-associative where its loops
  are, and every operator is applied to the operands it should be applied to.
\<close>

section \<open>Expression trees and their meaning\<close>

datatype ast =
    AStr string | ANum string | APath string "string list" | ACall string "ast list"
  | ANot ast | AAdd ast ast | ACmp string ast ast | AAnd ast ast | AOr ast ast

definition bindr :: "tval rres \<Rightarrow> (tval \<Rightarrow> nat \<Rightarrow> tval rres) \<Rightarrow> tval rres" where
  "bindr r f = (case r of Inl e \<Rightarrow> Inl e | Inr (v, k) \<Rightarrow> f v k)"

fun sem :: "tenv \<Rightarrow> ast \<Rightarrow> nat \<Rightarrow> tval rres"
and sem_call :: "tenv \<Rightarrow> string \<Rightarrow> tval list \<Rightarrow> ast list \<Rightarrow> nat \<Rightarrow> tval rres" where
  "sem env (AStr s) k = Ok (VStr s, k)"
| "sem env (ANum s) k =
     (case parse_float s of None \<Rightarrow> Err (BadNumber s, k) | Some x \<Rightarrow> Ok (VNum x, k))"
| "sem env (APath n ns) k = Ok (path_value (data env) (n # ns), k)"
| "sem env (ACall name args) k = sem_call env name [] args k"
| "sem env (ANot e) k = bindr (sem env e k) (\<lambda>v k. Ok (VBool (\<not> truthy v), k))"
| "sem env (AAdd a b) k =
     bindr (sem env a k) (\<lambda>l k. bindr (sem env b k) (\<lambda>r k. Ok (add_values (int_out env) l r, k)))"
| "sem env (ACmp op a b) k =
     bindr (sem env a k) (\<lambda>l k. bindr (sem env b k) (\<lambda>r k.
       case compare_values (int_out env) op l r of Inl e \<Rightarrow> Err (e, k) | Inr v \<Rightarrow> Ok (v, k)))"
| "sem env (AAnd a b) k =
     bindr (sem env a k) (\<lambda>l k. bindr (sem env b k) (\<lambda>r k. Ok (if \<not> truthy l then l else r, k)))"
| "sem env (AOr a b) k =
     bindr (sem env a k) (\<lambda>l k. bindr (sem env b k) (\<lambda>r k. Ok (if truthy l then l else r, k)))"
| "sem_call env name vs [] k = call_template_function env name vs k"
| "sem_call env name vs (a # as) k =
     bindr (sem env a k) (\<lambda>v k. sem_call env name (vs @ [v]) as k)"

text \<open>Levels: 0 or, 1 and, 2 comparison, 3 sum, 4 unary, 5 primary.\<close>

fun level :: "ast \<Rightarrow> nat" where
  "level (AOr _ _) = 0" | "level (AAnd _ _) = 1" | "level (ACmp _ _ _) = 2"
| "level (AAdd _ _) = 3" | "level (ANot _) = 4" | "level _ = 5"

definition wrap :: "nat \<Rightarrow> nat \<Rightarrow> token list \<Rightarrow> token list" where
  "wrap p l ts = (if l < p then TOp ''('' # ts @ [TOp '')''] else ts)"

fun body :: "ast \<Rightarrow> token list" and args_toks :: "ast list \<Rightarrow> token list" where
  "body (AStr s) = [TString s]"
| "body (ANum s) = [TNumber s]"
| "body (APath n ns) = TIdent n # concat (map (\<lambda>m. [TOp ''.'', TIdent m]) ns)"
| "body (ACall name args) = TIdent name # TOp ''('' # args_toks args"
| "body (ANot e) = TOp ''!'' # wrap 4 (level e) (body e)"
| "body (AAdd a b) = wrap 3 (level a) (body a) @ TOp ''+'' # wrap 4 (level b) (body b)"
| "body (ACmp op a b) = wrap 3 (level a) (body a) @ TOp op # wrap 3 (level b) (body b)"
| "body (AAnd a b) = wrap 1 (level a) (body a) @ TOp ''&&'' # wrap 2 (level b) (body b)"
| "body (AOr a b) = wrap 0 (level a) (body a) @ TOp ''||'' # wrap 1 (level b) (body b)"
| "args_toks [] = [TOp '')'']"
| "args_toks [a] = body a @ [TOp '')'']"
| "args_toks (a # as) = body a @ TOp '','' # args_toks as"

definition toks :: "nat \<Rightarrow> ast \<Rightarrow> token list" where
  "toks p e = wrap p (level e) (body e)"

text \<open>Comparison nodes carry an operator of the language.\<close>

fun known_ops :: "ast \<Rightarrow> bool" where
  "known_ops (ACall _ args) \<longleftrightarrow> (\<forall>a \<in> set args. known_ops a)"
| "known_ops (ANot e) \<longleftrightarrow> known_ops e"
| "known_ops (AAdd a b) \<longleftrightarrow> known_ops a \<and> known_ops b"
| "known_ops (ACmp op a b) \<longleftrightarrow> op \<in> set comparison_ops \<and> known_ops a \<and> known_ops b"
| "known_ops (AAnd a b) \<longleftrightarrow> known_ops a \<and> known_ops b"
| "known_ops (AOr a b) \<longleftrightarrow> known_ops a \<and> known_ops b"
| "known_ops _ \<longleftrightarrow> True"

section \<open>What parsing a printed tree means at each level\<close>

definition free :: "string list \<Rightarrow> token list \<Rightarrow> bool" where
  "free ops ts \<longleftrightarrow> (case ts of TOp v # _ \<Rightarrow> v \<notin> set ops | _ \<Rightarrow> True)"

definition stops :: "nat \<Rightarrow> string list" where
  "stops p = [''.'', ''(''] @ (if p \<le> 2 then ''+'' # comparison_ops else [])
     @ (if p = 0 then [''&&''] else [])"

definition prod_of :: "nat \<Rightarrow> production" where
  "prod_of p = [POr, PAnd, PComparison, PSum, PUnary, PPrimary] ! p"

definition tail_of :: "tenv \<Rightarrow> nat \<Rightarrow> tval \<Rightarrow> token list \<Rightarrow> nat \<Rightarrow> pres" where
  "tail_of env p l =
     (if p = 0 then prs env (POrLoop l) else if p = 1 then prs env (PAndLoop l)
      else if p = 3 then prs env (PSumLoop l) else (\<lambda>ts k. Ok (l, ts, k)))"

definition parses :: "tenv \<Rightarrow> nat \<Rightarrow> ast \<Rightarrow> bool" where
  "parses env p e \<longleftrightarrow> (\<forall>rest k. free (stops p) rest \<longrightarrow>
     prs env (prod_of p) (toks p e @ rest) k = bindp (with_tokens (sem env e k) rest) (tail_of env p))"

lemma parsesI:
  "(\<And>rest k. free (stops p) rest \<Longrightarrow>
     prs env (prod_of p) (toks p e @ rest) k = bindp (with_tokens (sem env e k) rest) (tail_of env p))
   \<Longrightarrow> parses env p e"
  by (simp add: parses_def)

lemma parsesD:
  "parses env p e \<Longrightarrow> free (stops p) rest \<Longrightarrow>
     prs env (prod_of p) (toks p e @ rest) k = bindp (with_tokens (sem env e k) rest) (tail_of env p)"
  by (simp add: parses_def)

lemma prod_of_simps [simp]:
  "prod_of 0 = POr" "prod_of (Suc 0) = PAnd" "prod_of 2 = PComparison" "prod_of 3 = PSum"
  "prod_of 4 = PUnary" "prod_of 5 = PPrimary"
  by (simp_all add: prod_of_def)

lemma tail_of_simps [simp]:
  "tail_of env 0 = (\<lambda>l. prs env (POrLoop l))" "tail_of env (Suc 0) = (\<lambda>l. prs env (PAndLoop l))"
  "tail_of env 2 = (\<lambda>l ts k. Ok (l, ts, k))" "tail_of env 3 = (\<lambda>l. prs env (PSumLoop l))"
  "tail_of env 4 = (\<lambda>l ts k. Ok (l, ts, k))" "tail_of env 5 = (\<lambda>l ts k. Ok (l, ts, k))"
  by (simp_all add: tail_of_def fun_eq_iff)

lemma bindp_return [simp]: "bindp p (\<lambda>l ts k. Ok (l, ts, k)) = p"
  by (cases p) (auto simp: bindp_def)

lemma bindp_assoc [simp]: "bindp (bindp p f) g = bindp p (\<lambda>v ts k. bindp (f v ts k) g)"
  by (cases p) (auto simp: bindp_def)

lemma with_tokens_bindr:
  "with_tokens (bindr r f) ts = bindp (with_tokens r ts) (\<lambda>v _ k. with_tokens (f v k) ts)"
  by (cases r) (auto simp: bindr_def)

lemma bindp_with_tokens_cong:
  "(\<And>v k. f v ts k = g v ts' k) \<Longrightarrow> bindp (with_tokens r ts) f = bindp (with_tokens r ts') g"
  by (cases r) auto

lemma accept_op_simps [simp]:
  "accept_op vs (TOp v # rest) = (if v \<in> set vs then Some (v, rest) else None)"
  "accept_op vs [] = None" "accept_op vs (TIdent n # rest) = None"
  "accept_op vs (TString n # rest) = None" "accept_op vs (TNumber n # rest) = None"
  by (simp_all add: accept_op_def)

lemma accept_op_free: "free ops rest \<Longrightarrow> set vs \<subseteq> set ops \<Longrightarrow> accept_op vs rest = None"
  by (auto simp: free_def accept_op_def split: list.splits token.splits)

lemma free_mono: "free ops rest \<Longrightarrow> set vs \<subseteq> set ops \<Longrightarrow> free vs rest"
  by (auto simp: free_def split: list.splits token.splits)

lemma stops_mono: "p \<le> q \<Longrightarrow> set (stops q) \<subseteq> set (stops p)"
  by (auto simp: stops_def)

lemma free_stops_mono: "free (stops p) rest \<Longrightarrow> p \<le> q \<Longrightarrow> free (stops q) rest"
  using free_mono stops_mono by blast

lemma prs_simps:
  "prs env POr ts k = parse_or (prs env) ts k"
  "prs env (POrLoop l) ts k = parse_or_loop (prs env) l ts k"
  "prs env PAnd ts k = parse_and (prs env) ts k"
  "prs env (PAndLoop l) ts k = parse_and_loop (prs env) l ts k"
  "prs env PComparison ts k = parse_comparison env (prs env) ts k"
  "prs env PSum ts k = parse_sum (prs env) ts k"
  "prs env (PSumLoop l) ts k = parse_sum_loop env (prs env) l ts k"
  "prs env PUnary ts k = parse_unary (prs env) ts k"
  "prs env PPrimary ts k = parse_primary env (prs env) ts k"
  "prs env (PArgs name args) ts k = parse_args env (prs env) name args ts k"
  by (subst prs_eq, simp)+

lemma loop_stops:
  "free (stops 0) rest \<Longrightarrow> prs env (PAndLoop l) rest k = Ok (l, rest, k)"
  "free (stops 2) rest \<Longrightarrow> prs env (PSumLoop l) rest k = Ok (l, rest, k)"
  by (simp_all add: prs_simps parse_and_loop_def parse_sum_loop_def accept_op_free stops_def)

section \<open>From one level to the next\<close>

lemma toks_Suc: "level e \<noteq> p \<Longrightarrow> toks p e = toks (Suc p) e"
  by (auto simp: toks_def wrap_def)

lemma level_le: "level e \<le> 5"
  by (cases e) auto

lemma head_not_bang: "accept_op [''!''] (toks 5 e @ rest) = None"
  by (cases e) (auto simp: toks_def wrap_def)

lemma climb:
  assumes "parses env (Suc p) e" and "level e \<noteq> p" and "p < 5"
  shows "parses env p e"
proof (rule parsesI)
  fix rest k
  assume free: "free (stops p) rest"
  then have IH: "prs env (prod_of (Suc p)) (toks p e @ rest) k
      = bindp (with_tokens (sem env e k) rest) (tail_of env (Suc p))"
    using assms parsesD free_stops_mono by (simp add: toks_Suc)
  consider "p = 0" | "p = Suc 0" | "p = 2" | "p = 3" | "p = 4" using assms(3) by linarith
  then show "prs env (prod_of p) (toks p e @ rest) k = bindp (with_tokens (sem env e k) rest) (tail_of env p)"
  proof cases
    case 1
    with IH free show ?thesis
      by (auto simp: prs_simps(1) parse_or_def loop_stops intro!: bindp_with_tokens_cong)
  next
    case 2
    with IH show ?thesis by (simp add: prs_simps(3) parse_and_def numeral_2_eq_2 [symmetric])
  next
    case 3
    with free have "accept_op comparison_ops rest = None"
      by (auto simp: stops_def intro: accept_op_free)
    with 3 IH free show ?thesis
      by (cases "sem env e k") (auto simp: prs_simps(5) parse_comparison_def loop_stops)
  next
    case 4
    with IH show ?thesis by (simp add: prs_simps(6) parse_sum_def)
  next
    case 5
    with IH assms(2) have "toks 4 e = toks 5 e" by (simp add: toks_Suc)
    with 5 IH show ?thesis
      by (simp add: prs_simps(8) parse_unary_def head_not_bang)
  qed
qed

lemma paren:
  assumes "parses env 0 e" and "level e < 5"
  shows "parses env 5 e"
proof (rule parsesI)
  fix rest k
  assume "free (stops 5) rest"
  have "free (stops 0) (TOp '')'' # rest)"
    by (simp add: free_def stops_def comparison_ops_def)
  from parsesD [OF assms(1) this]
  have "prs env POr (body e @ TOp '')'' # rest) k
      = bindp (with_tokens (sem env e k) (TOp '')'' # rest)) (\<lambda>l. prs env (POrLoop l))"
    by (simp add: toks_def wrap_def)
  with assms(2) show "prs env (prod_of 5) (toks 5 e @ rest) k
      = bindp (with_tokens (sem env e k) rest) (tail_of env 5)"
    by (cases "sem env e k")
       (auto simp: prs_simps(2,9) parse_or_loop_def parse_primary_def toks_def wrap_def bindp_def)
qed

lemma downwards: "parses env q e \<Longrightarrow> p \<le> q \<Longrightarrow> q \<le> 5 \<Longrightarrow> (\<And>j. p \<le> j \<Longrightarrow> j < q \<Longrightarrow> level e \<noteq> j) \<Longrightarrow> parses env p e"
proof (induction "q - p" arbitrary: p)
  case (Suc n)
  then have "parses env (Suc p) e" by auto
  with Suc climb [of env p e] show ?case by auto
qed simp

lemma every_level:
  assumes "parses env (level e) e" and "p \<le> 5"
  shows "parses env p e"
proof (cases "p \<le> level e")
  case True
  then show ?thesis using assms(1) level_le [of e] by (rule_tac downwards [of env "level e"]) auto
next
  case False
  have "parses env 0 e" using assms(1) level_le [of e] by (rule_tac downwards [of env "level e"]) auto
  moreover have "level e < 5" using False assms(2) by simp
  ultimately have "parses env 5 e" by (rule paren)
  then show ?thesis using False assms(2) by (rule_tac downwards [of env 5]) auto
qed

section \<open>The meaning of what was printed\<close>

lemma parse_path_printed:
  "free [''.''] rest \<Longrightarrow>
     parse_path path (concat (map (\<lambda>m. [TOp ''.'', TIdent m]) ns) @ rest) = (Ok (path @ ns), rest)"
proof (induction ns arbitrary: path)
  case Nil
  then show ?case by (cases rest; cases "hd rest") (auto simp: free_def)
qed simp

lemma free_cons [simp]: "free ops (TOp v # rest) \<longleftrightarrow> v \<notin> set ops"
  by (simp add: free_def)

lemma stop_tokens [simp]:
  "'')'' \<notin> set (stops p)" "'','' \<notin> set (stops p)" "''||'' \<notin> set (stops p)"
  "''&&'' \<notin> set (stops (Suc 0))" "''&&'' \<notin> set (stops 2)" "''+'' \<notin> set (stops 3)" "''+'' \<notin> set (stops 4)"
  by (simp_all add: stops_def comparison_ops_def)

lemma comparison_not_stop: "op \<in> set comparison_ops \<Longrightarrow> op \<notin> set (stops 3)"
  by (auto simp: stops_def comparison_ops_def)

lemma toks_0: "toks 0 e = body e"
  by (simp add: toks_def wrap_def)

lemma wrap_toks: "wrap p (level e) (body e) = toks p e"
  by (simp add: toks_def)

lemma body_level: "toks (level e) e = body e"
  by (simp add: toks_def wrap_def)

lemma parses_args:
  assumes "\<And>a. a \<in> set as \<Longrightarrow> parses env 0 a" and "as \<noteq> []"
  shows "prs env (PArgs name vs) (args_toks as @ rest) k = with_tokens (sem_call env name vs as k) rest"
  using assms
proof (induction as arbitrary: vs k rule: induct_list012)
  case (2 a)
  have "prs env POr (body a @ TOp '')'' # rest) k
      = bindp (with_tokens (sem env a k) (TOp '')'' # rest)) (\<lambda>l. prs env (POrLoop l))"
    using parsesD [OF 2(1), of a "TOp '')'' # rest" k] by (simp add: toks_0)
  then show ?case
    by (cases "sem env a k")
       (auto simp: prs_simps(2,10) parse_args_def parse_or_loop_def bindr_def)
next
  case (3 a b bs)
  let ?r = "TOp '','' # args_toks (b # bs) @ rest"
  have "prs env POr (body a @ ?r) k
      = bindp (with_tokens (sem env a k) ?r) (\<lambda>l. prs env (POrLoop l))"
    using parsesD [OF 3(3), of a ?r k] by (simp add: toks_0)
  moreover have ih: "prs env (PArgs name vs) (args_toks (b # bs) @ rest) k
      = with_tokens (sem_call env name vs (b # bs) k) rest" for vs k
    using 3 by auto
  ultimately have "parse_args env (prs env) name vs (body a @ ?r) k
      = with_tokens (bindr (sem env a k) (\<lambda>v k. sem_call env name (vs @ [v]) (b # bs) k)) rest"
    by (cases "sem env a k")
       (auto simp: prs_simps(2) ih parse_args_def parse_or_loop_def bindr_def
             simp del: args_toks.simps(2,3) sem_call.simps(2))
  then show ?case
    by (simp only: prs_simps(10) args_toks.simps(3) sem_call.simps(2) [of env name vs a] append_assoc append_Cons)
qed simp

lemma args_toks_head: "as \<noteq> [] \<Longrightarrow> accept_op ['')''] (args_toks as @ rest) = None"
proof -
  have "accept_op ['')''] (body e @ ts) = None" for e ts
  proof (induction e arbitrary: ts)
    case (ANot e)
    then show ?case by simp
  qed (auto simp: wrap_def)
  moreover assume "as \<noteq> []"
  ultimately show ?thesis
    by (induction as rule: induct_list012) auto
qed

text \<open>One lemma per kind of node: at its own level it parses to its meaning.\<close>

lemma own_level_leaf:
  "parses env 5 (AStr s)" "parses env 5 (ANum s)" "parses env 5 (APath n ns)"
proof -
  show "parses env 5 (APath n ns)"
  proof (rule parsesI)
    fix rest k
    assume "free (stops 5) rest"
    then have f: "free [''.''] rest" "accept_op [''(''] rest = None"
      by (auto simp: stops_def intro: free_mono accept_op_free)
    then have "accept_op [''(''] (concat (map (\<lambda>m. [TOp ''.'', TIdent m]) ns) @ rest) = None"
      by (cases ns) auto
    then show "prs env (prod_of 5) (toks 5 (APath n ns) @ rest) k
        = bindp (with_tokens (sem env (APath n ns) k) rest) (tail_of env 5)"
      using parse_path_printed [OF f(1), of "[n]" ns]
      by (simp add: prs_simps(9) parse_primary_def toks_def wrap_def)
  qed
qed (auto intro!: parsesI simp: prs_simps(9) parse_primary_def toks_def wrap_def split: option.split)

lemma own_level_call:
  assumes "\<And>a. a \<in> set args \<Longrightarrow> parses env 0 a"
  shows "parses env 5 (ACall name args)"
proof (rule parsesI)
  fix rest k
  show "prs env (prod_of 5) (toks 5 (ACall name args) @ rest) k
      = bindp (with_tokens (sem env (ACall name args) k) rest) (tail_of env 5)"
  proof (cases "args = []")
    case False
    with args_toks_head [OF this] parses_args [OF assms False] show ?thesis
      by (simp add: prs_simps(9) parse_primary_def toks_def wrap_def)
  qed (simp add: prs_simps(9) parse_primary_def toks_def wrap_def)
qed

lemma own_level_not: "parses env 4 e \<Longrightarrow> parses env 4 (ANot e)"
proof (rule parsesI)
  fix rest k
  assume "parses env 4 e" "free (stops 4) rest"
  then have "prs env PUnary (toks 4 e @ rest) k = with_tokens (sem env e k) rest"
    using parsesD [of env 4 e rest k] by simp
  then show "prs env (prod_of 4) (toks 4 (ANot e) @ rest) k
      = bindp (with_tokens (sem env (ANot e) k) rest) (tail_of env 4)"
    by (cases "sem env e k") (auto simp: prs_simps(8) parse_unary_def toks_0 body_level [of "ANot e", simplified] wrap_toks bindr_def)
qed

lemma own_level_add:
  assumes a: "parses env 3 a" and b: "parses env 4 b"
  shows "parses env 3 (AAdd a b)"
proof (rule parsesI)
  fix rest k
  assume f: "free (stops 3) rest"
  then have pb: "prs env PUnary (toks 4 b @ rest) k = with_tokens (sem env b k) rest" for k
    using parsesD [OF b free_stops_mono, of 3 rest k] by simp
  show "prs env (prod_of 3) (toks 3 (AAdd a b) @ rest) k
      = bindp (with_tokens (sem env (AAdd a b) k) rest) (tail_of env 3)"
    using parsesD [OF a, of "TOp ''+'' # toks 4 b @ rest" k] pb
    by (cases "sem env a k")
       (auto simp: prs_simps(7) parse_sum_loop_def body_level [of "AAdd a b", simplified] wrap_toks bindr_def
         with_tokens_bindr split: sum.split)
qed

lemma own_level_cmp:
  assumes a: "parses env 3 a" and b: "parses env 3 b" and op: "op \<in> set comparison_ops"
  shows "parses env 2 (ACmp op a b)"
proof (rule parsesI)
  fix rest k
  assume f: "free (stops 2) rest"
  have loop: "prs env (PSumLoop l) (TOp op # ts) k = Ok (l, TOp op # ts, k)" for l ts k
    using op by (auto simp: prs_simps(7) parse_sum_loop_def comparison_ops_def)
  have pb: "prs env PSum (toks 3 b @ rest) k = with_tokens (sem env b k) rest" for k
    using parsesD [OF b free_stops_mono [OF f], of k] f
    by (cases "sem env b k") (auto simp: loop_stops)
  show "prs env (prod_of 2) (toks 2 (ACmp op a b) @ rest) k
      = bindp (with_tokens (sem env (ACmp op a b) k) rest) (tail_of env 2)"
    using parsesD [OF a, of "TOp op # toks 3 b @ rest" k] pb op
    by (cases "sem env a k")
       (auto simp: prs_simps(5) parse_comparison_def loop body_level [of "ACmp op a b", simplified] wrap_toks
         bindr_def with_tokens_bindr comparison_not_stop with_tokens_def bindp_def split: sum.splits)
qed

lemma own_level_and:
  assumes a: "parses env 1 a" and b: "parses env 2 b"
  shows "parses env 1 (AAnd a b)"
proof (rule parsesI)
  fix rest k
  assume f: "free (stops 1) rest"
  then have pb: "prs env PComparison (toks 2 b @ rest) k = with_tokens (sem env b k) rest" for k
    using parsesD [OF b free_stops_mono, of 1 rest k] by simp
  show "prs env (prod_of 1) (toks 1 (AAnd a b) @ rest) k
      = bindp (with_tokens (sem env (AAnd a b) k) rest) (tail_of env 1)"
    using parsesD [OF a, of "TOp ''&&'' # toks 2 b @ rest" k] pb
    by (cases "sem env a k")
       (auto simp: prs_simps(4) parse_and_loop_def body_level [of "AAnd a b", simplified] wrap_toks bindr_def
         with_tokens_bindr split: sum.split)
qed

lemma own_level_or:
  assumes a: "parses env 0 a" and b: "parses env 1 b"
  shows "parses env 0 (AOr a b)"
proof (rule parsesI)
  fix rest k
  assume f: "free (stops 0) rest"
  have loop: "prs env (PAndLoop l) rest k = Ok (l, rest, k)" for l k
    using f by (rule loop_stops)
  then have pb: "bindp (prs env PAnd (toks 1 b @ rest) k) g = bindp (with_tokens (sem env b k) rest) g" for k g
    using parsesD [OF b free_stops_mono [OF f], of k]
    by (cases "sem env b k") auto
  show "prs env (prod_of 0) (toks 0 (AOr a b) @ rest) k
      = bindp (with_tokens (sem env (AOr a b) k) rest) (tail_of env 0)"
    using parsesD [OF a, of "TOp ''||'' # toks 1 b @ rest" k] pb
    by (cases "sem env a k")
       (auto simp: prs_simps(2) parse_or_loop_def body_level [of "AOr a b", simplified] wrap_toks bindr_def
         with_tokens_bindr split: sum.split)
qed

lemma parses_own_level: "known_ops e \<Longrightarrow> parses env (level e) e"
proof (induction e)
  case (ACall name args)
  then show ?case by (auto intro!: own_level_call every_level [of env _ 0])
next
  case (ANot e)
  then show ?case by (auto intro!: own_level_not every_level [of env _ 4])
next
  case (AAdd a b)
  then show ?case by (auto intro!: own_level_add every_level [of env a 3] every_level [of env b 4])
next
  case (ACmp op a b)
  then show ?case by (auto intro!: own_level_cmp every_level [of env a 3] every_level [of env b 3])
next
  case (AAnd a b)
  then show ?case
    using own_level_and every_level [of env a 1] every_level [of env b 2] by simp
next
  case (AOr a b)
  then show ?case
    using own_level_or every_level [of env a 0] every_level [of env b 1] by simp
qed (simp_all add: own_level_leaf)

lemma parses_toks: "known_ops e \<Longrightarrow> p \<le> 5 \<Longrightarrow> parses env p e"
  by (rule every_level [OF parses_own_level])

lemma body_nonempty: "body e \<noteq> []"
  by (cases e) auto

text \<open>
  C2: an expression tree, printed with the parentheses its precedences need and no others,
  evaluates to the meaning of the tree: the parser groups every operator as the tree does,
  calls every function on its own arguments, and draws randomness in the order of the source.
\<close>

theorem evaluate_printed:
  assumes "known_ops e"
  shows "evaluate_tokens env (toks 0 e) k = sem env e k"
proof -
  have "prs env POr (toks 0 e) k = with_tokens (sem env e k) []"
    using parsesD [OF parses_toks [OF assms, of 0 env], of "[]" k]
    by (cases "sem env e k") (auto simp: free_def prs_simps(2) parse_or_loop_def)
  with body_nonempty [of e] show ?thesis
    by (cases "sem env e k") (auto simp: toks_0 evaluate_tokens_prs bind_end_def)
qed

theorem evaluate_printed_witness:
  "evaluate_tokens \<lparr>data = \<lparr>Defaults = Map.empty, Inputs = [''db'' \<mapsto> ''mysql''], Env = Map.empty\<rparr>,
       rnd = (\<lambda>_. None), int_out = (\<lambda>_. 0)\<rparr>
     (toks 0 (ANot (AOr (ACmp ''==='' (APath ''inputs'' [''db'']) (AStr ''mysql'')) (APath ''false'' [])))) 0
   = Ok (VBool False, 0)"
  by (subst evaluate_printed) code_simp+

end
