(* ===== verification/TemplatePrint.thy ===== *)
theory TemplatePrint
  imports TemplateGrammar
begin

text \<open>
  The tokenizer reads back what was written: a list of tokens, written out with a space
  after each, tokenizes to the same list. What the grammar says of token lists
  thereby holds of their text.
\<close>

definition show_token :: "token \<Rightarrow> string" where
  "show_token t = (case t of
     TIdent s \<Rightarrow> s | TString s \<Rightarrow> squote # s @ [squote] | TNumber s \<Rightarrow> s | TOp s \<Rightarrow> s)"

definition show_tokens :: "token list \<Rightarrow> string" where
  "show_tokens ts = concat (map (\<lambda>t. show_token t @ '' '') ts)"

text \<open>The tokens the language can write: what each constructor may hold.\<close>

definition plain_token :: "token \<Rightarrow> bool" where
  "plain_token t = (case t of
     TIdent s \<Rightarrow> (case s of [] \<Rightarrow> False
       | c # cs \<Rightarrow> is_identifier_rune (of_char c) \<and>
           (\<forall>x \<in> set cs. is_identifier_rune (of_char x) \<or> is_digit_rune (of_char x)))
   | TString s \<Rightarrow> ascii s \<and> squote \<notin> set s
   | TNumber s \<Rightarrow> (case s of [] \<Rightarrow> False
       | c # cs \<Rightarrow> is_digit_rune (of_char c) \<and> (\<forall>x \<in> set cs. x = CHR ''.'' \<or> is_digit_rune (of_char x)))
   | TOp s \<Rightarrow> s \<in> set operators)"

lemma identifier_rune_facts:
  "is_identifier_rune r \<Longrightarrow> r < 128 \<and> r \<noteq> 32 \<and> r \<noteq> 9 \<and> r \<noteq> 10 \<and> r \<noteq> 39 \<and> r \<noteq> 34 \<and> \<not> is_digit_rune r"
  by (auto simp: is_identifier_rune_def is_digit_rune_def)

lemma digit_rune_facts:
  "is_digit_rune r \<Longrightarrow> r < 128 \<and> r \<noteq> 32 \<and> r \<noteq> 9 \<and> r \<noteq> 10 \<and> r \<noteq> 39 \<and> r \<noteq> 34"
  by (auto simp: is_digit_rune_def)

lemma space_rune: "\<not> is_identifier_rune 32" "\<not> is_digit_rune 32" "(32::nat) \<noteq> 46"
  by (auto simp: is_identifier_rune_def is_digit_rune_def)

lemma runes_of_simps [simp]:
  "runes_of [] = []" "runes_of (c # s) = of_char c # runes_of s" "runes_of (s @ t) = runes_of s @ runes_of t"
  by (simp_all add: runes_of_def)

lemma encode_runes_of: "ascii s \<Longrightarrow> encode_runes (runes_of s) = s"
  by (simp add: runes_of_def encode_decode_ascii)

lemma tokenize_space: "tokenize_runes (32 # rs) = tokenize_runes rs"
  by (simp add: tokenize_runes.simps(2))

lemma take_drop_stop:
  "\<forall>x \<in> set xs. p x \<Longrightarrow> \<not> p y \<Longrightarrow>
     takeWhile p (xs @ y # ys) = xs \<and> dropWhile p (xs @ y # ys) = y # ys"
  by (induction xs) auto

lemma rune_char: "(of_char c :: nat) = 46 \<longleftrightarrow> c = CHR ''.''" "(of_char c :: nat) = 39 \<longleftrightarrow> c = squote"
  using of_char_eq_iff [where ?'a = nat, of c "CHR ''.''"] of_char_eq_iff [where ?'a = nat, of c squote] by simp_all

lemma ascii_identifier: "\<forall>x \<in> set s. is_identifier_rune (of_char x) \<or> is_digit_rune (of_char x) \<Longrightarrow> ascii s"
  unfolding ascii_def using identifier_rune_facts digit_rune_facts by blast

lemma ascii_number: "\<forall>x \<in> set s. x = CHR ''.'' \<or> is_digit_rune (of_char x) \<Longrightarrow> ascii s"
  unfolding ascii_def
proof
  fix c assume "\<forall>x \<in> set s. x = CHR ''.'' \<or> is_digit_rune (of_char x)" and "c \<in> set s"
  then consider "c = CHR ''.''" | "is_digit_rune (of_char c)" by blast
  then show "(of_char c :: nat) < 128" using digit_rune_facts by cases auto
qed

lemma ascii_plain:
  assumes "plain_token t"
  shows "ascii (show_token t)"
proof (cases t)
  case (TIdent s)
  with assms show ?thesis
    by (intro ascii_identifier) (auto simp: plain_token_def show_token_def split: list.splits)
next
  case (TNumber s)
  with assms show ?thesis
    by (intro ascii_number) (auto simp: plain_token_def show_token_def split: list.splits)
next
  case (TOp s)
  have "\<forall>s \<in> set operators. ascii s" by (simp add: operators_def)
  with assms TOp show ?thesis by (simp add: plain_token_def show_token_def)
next
  case (TString s)
  with assms show ?thesis by (simp add: plain_token_def show_token_def)
qed

text \<open>One step of the tokenizer per kind of token.\<close>

lemma step_ident:
  "is_identifier_rune r \<Longrightarrow> tokenize_runes (r # rs) =
     add_token (TIdent (encode_runes (r # takeWhile (\<lambda>x. is_identifier_rune x \<or> is_digit_rune x) rs)))
       (tokenize_runes (dropWhile (\<lambda>x. is_identifier_rune x \<or> is_digit_rune x) rs))"
  using identifier_rune_facts [of r] by (simp add: tokenize_runes.simps(2))

lemma step_number:
  "is_digit_rune r \<Longrightarrow> tokenize_runes (r # rs) =
     add_token (TNumber (encode_runes (r # takeWhile (\<lambda>x. x = 46 \<or> is_digit_rune x) rs)))
       (tokenize_runes (dropWhile (\<lambda>x. x = 46 \<or> is_digit_rune x) rs))"
  using digit_rune_facts [of r] by (simp add: tokenize_runes.simps(2))

lemma step_string:
  "dropWhile (\<lambda>x. x \<noteq> 39) rs = y # rest \<Longrightarrow> tokenize_runes (39 # rs) =
     add_token (TString (encode_runes (takeWhile (\<lambda>x. x \<noteq> 39) rs))) (tokenize_runes rest)"
  by (simp add: tokenize_runes.simps(2))

lemma tokenize_ident:
  assumes "plain_token (TIdent s)"
  shows "tokenize_runes (runes_of s @ 32 # rs) = add_token (TIdent s) (tokenize_runes rs)"
proof -
  let ?p = "\<lambda>x. is_identifier_rune x \<or> is_digit_rune x"
  obtain c cs where s: "s = c # cs" and c: "is_identifier_rune (of_char c)"
    and "\<forall>x \<in> set (runes_of cs). ?p x"
    using assms by (auto simp: plain_token_def runes_of_def split: list.splits)
  then have td: "takeWhile ?p (runes_of cs @ 32 # rs) = runes_of cs"
      "dropWhile ?p (runes_of cs @ 32 # rs) = 32 # rs"
    using take_drop_stop [of "runes_of cs" ?p 32 rs] by (auto simp: space_rune)
  have "encode_runes (of_char c # runes_of cs) = s"
    using ascii_plain [OF assms] encode_runes_of [of s] s by (simp add: show_token_def)
  then show ?thesis
    unfolding s runes_of_simps append_Cons step_ident [OF c] td tokenize_space by (simp only:)
qed

lemma tokenize_number:
  assumes "plain_token (TNumber s)"
  shows "tokenize_runes (runes_of s @ 32 # rs) = add_token (TNumber s) (tokenize_runes rs)"
proof -
  let ?p = "\<lambda>x. x = 46 \<or> is_digit_rune x"
  obtain c cs where s: "s = c # cs" and c: "is_digit_rune (of_char c)"
    and "\<forall>x \<in> set (runes_of cs). ?p x"
    using assms by (auto simp: plain_token_def runes_of_def rune_char split: list.splits)
  then have td: "takeWhile ?p (runes_of cs @ 32 # rs) = runes_of cs"
      "dropWhile ?p (runes_of cs @ 32 # rs) = 32 # rs"
    using take_drop_stop [of "runes_of cs" ?p 32 rs] by (auto simp: space_rune)
  have "encode_runes (of_char c # runes_of cs) = s"
    using ascii_plain [OF assms] encode_runes_of [of s] s by (simp add: show_token_def)
  then show ?thesis
    unfolding s runes_of_simps append_Cons step_number [OF c] td tokenize_space by (simp only:)
qed

lemma tokenize_string:
  assumes "plain_token (TString s)"
  shows "tokenize_runes (39 # runes_of s @ 39 # rs) = add_token (TString s) (tokenize_runes rs)"
proof -
  have "squote \<notin> set s" and a: "ascii s" using assms by (auto simp: plain_token_def)
  then have "\<forall>x \<in> set (runes_of s). x \<noteq> 39"
    by (auto simp: runes_of_def rune_char)
  then have td: "takeWhile (\<lambda>x. x \<noteq> 39) (runes_of s @ 39 # rs) = runes_of s"
      "dropWhile (\<lambda>x. x \<noteq> 39) (runes_of s @ 39 # rs) = 39 # rs"
    using take_drop_stop [of "runes_of s" "\<lambda>x. x \<noteq> 39" 39 rs] by auto
  show ?thesis
    unfolding step_string [OF td(2)] td encode_runes_of [OF a] ..
qed

lemma operator_runes:
  "runes_of ''==='' = [61, 61, 61]" "runes_of ''!=='' = [33, 61, 61]" "runes_of ''=='' = [61, 61]"
  "runes_of ''!='' = [33, 61]" "runes_of ''>='' = [62, 61]" "runes_of ''<='' = [60, 61]"
  "runes_of ''&&'' = [38, 38]" "runes_of ''||'' = [124, 124]" "runes_of ''!'' = [33]"
  "runes_of ''>'' = [62]" "runes_of ''<'' = [60]" "runes_of ''+'' = [43]" "runes_of ''('' = [40]"
  "runes_of '')'' = [41]" "runes_of '','' = [44]" "runes_of ''.'' = [46]"
  by (simp_all add: runes_of_def)

lemma match_operator_space: "op \<in> set operators \<Longrightarrow> match_operator (runes_of op @ 32 # rs) = Some op"
proof -
  have "\<forall>op \<in> set operators. match_operator (runes_of op @ 32 # rs) = Some op"
    by (simp add: operators_def match_operator_def operator_runes del: runes_of_simps)
  then show "op \<in> set operators \<Longrightarrow> ?thesis" by blast
qed

lemma operator_head: "op \<in> set operators \<Longrightarrow> \<exists>r rs. runes_of op = r # rs \<and>
   r \<notin> {32, 9, 10, 39, 34} \<and> \<not> is_digit_rune r \<and> \<not> is_identifier_rune r"
proof -
  have "\<forall>op \<in> set operators. \<exists>r rs. runes_of op = r # rs \<and>
      r \<notin> {32, 9, 10, 39, 34} \<and> \<not> is_digit_rune r \<and> \<not> is_identifier_rune r"
    by (simp add: operators_def operator_runes is_digit_rune_def is_identifier_rune_def del: runes_of_simps)
  then show "op \<in> set operators \<Longrightarrow> ?thesis" by blast
qed

lemma tokenize_op:
  assumes "op \<in> set operators"
  shows "tokenize_runes (runes_of op @ 32 # rs) = add_token (TOp op) (tokenize_runes rs)"
proof -
  from operator_head [OF assms] obtain c cs where c: "runes_of op = c # cs"
      "c \<notin> {32, 9, 10, 39, 34}" "\<not> is_digit_rune c" "\<not> is_identifier_rune c" by blast
  have m: "match_operator (c # cs @ 32 # rs) = Some op"
    using match_operator_space [OF assms, of rs] by (simp add: c(1))
  have "length op = length (c # cs)" by (simp flip: c(1) add: runes_of_def)
  then have "drop (length op) (c # cs @ 32 # rs) = 32 # rs" by simp
  with m c(2-) show ?thesis
    by (simp add: c(1) tokenize_runes.simps(2) tokenize_space)
qed

lemma tokenize_one:
  assumes "plain_token t"
  shows "tokenize_runes (runes_of (show_token t @ '' '') @ rs) = add_token t (tokenize_runes rs)"
proof (cases t)
  case (TString s)
  with assms tokenize_string [of s "32 # rs"] show ?thesis by (simp add: show_token_def tokenize_space)
next
  case (TOp s)
  with assms show ?thesis by (simp add: show_token_def plain_token_def tokenize_op)
qed (use assms in \<open>simp_all add: show_token_def tokenize_ident tokenize_number\<close>)

text \<open>
  A list of tokens, written out with a space after each, tokenizes to the same list; so no
  token of the language is split in two, swallowed by its neighbour or read as another one
  (\<open>!=\<close> is not \<open>!\<close> and \<open>=\<close>, a name may hold dashes, a string may hold operators).
\<close>

theorem tokenize_shown:
  assumes "\<forall>t \<in> set ts. plain_token t"
  shows "tokenize_expression (show_tokens ts) = Ok ts"
proof -
  have "ascii (show_tokens ts)"
    using assms by (induction ts) (auto simp: show_tokens_def ascii_plain)
  moreover have "tokenize_runes (runes_of (show_tokens ts)) = Ok ts"
    using assms
  proof (induction ts)
    case (Cons t ts)
    then show ?case
      using tokenize_one [of t "runes_of (show_tokens ts)"] by (simp add: show_tokens_def)
  qed (simp add: show_tokens_def)
  ultimately show ?thesis
    by (simp add: tokenize_expression_def decode_ascii runes_of_def)
qed

theorem tokenize_shown_witness:
  "tokenize_expression (show_tokens [TOp ''!'', TIdent ''a-1'', TOp ''!='', TString ''= (''])
     = Ok [TOp ''!'', TIdent ''a-1'', TOp ''!='', TString ''= ('']"
  by (rule tokenize_shown)
    (simp add: plain_token_def operators_def is_identifier_rune_def is_digit_rune_def)

end
