(* ===== verification/TemplateText.thy ===== *)
theory TemplateText
  imports TemplateExpr
begin

text \<open>
  Rendering a template's text (controllers/template_expr.go, \<open>renderTemplateText\<close> and what
  it calls): the placeholder pattern, the substitution, and the conditional blocks. The two
  regular expressions are written out as matchers with the choices of Go's leftmost-first
  semantics: the shortest \<open>.*?\<close> that lets the rest of the pattern match.
\<close>

section \<open>Placeholders\<close>

text \<open>The class \<open>\s\<close> of package regexp.\<close>

definition re_space :: "char \<Rightarrow> bool" where
  "re_space c \<longleftrightarrow> c \<in> {tab, newline, CHR 0x0C, CHR 0x0D, CHR '' ''}"

definition skip_space :: "string \<Rightarrow> string" where
  "skip_space s = dropWhile re_space s"

text \<open>\<open>\s*\}\}\<close> at the start of \<open>s\<close>: the text after it.\<close>

definition match_close :: "string \<Rightarrow> string option" where
  "match_close s =
     (if has_prefix (skip_space s) ''}}'' then Some (drop 2 (skip_space s)) else None)"

text \<open>\<open>(.*?)\s*\}\}\<close> at the start of \<open>s\<close>: the group and the text after the match.\<close>

fun match_body :: "string \<Rightarrow> (string \<times> string) option" where
  "match_body s =
     (case match_close s of
        Some rest \<Rightarrow> Some ([], rest)
      | None \<Rightarrow>
          (case s of
             [] \<Rightarrow> None
           | c # cs \<Rightarrow>
               if c = newline then None else map_option (\<lambda>(x, rest). (c # x, rest)) (match_body cs)))"

declare match_body.simps [simp del]

text \<open>
  \<open>placeholderPattern\<close> at the start of \<open>s\<close>. Taking all the white space before the group is
  what the greedy \<open>\s*\<close> does first, and a match with less of it is one with all of it too.
\<close>

definition match_placeholder :: "string \<Rightarrow> (string \<times> string) option" where
  "match_placeholder s =
     (if has_prefix s ''${{'' then match_body (skip_space (drop 3 s)) else None)"

lemma skip_space_length: "length (skip_space s) \<le> length s"
  by (simp add: skip_space_def length_dropWhile_le)

lemma match_close_length: "match_close s = Some rest \<Longrightarrow> length rest < length s"
  using skip_space_length [of s]
  by (auto simp: match_close_def has_prefix_iff split: if_splits)

lemma match_body_length: "match_body s = Some (x, rest) \<Longrightarrow> length rest < length s"
proof (induction s arbitrary: x rest)
  case Nil
  then show ?case by (subst (asm) match_body.simps) (auto dest: match_close_length split: option.splits)
next
  case (Cons c cs)
  from Cons.prems show ?case
    unfolding match_body.simps [of "c # cs"]
    by (auto split: option.splits if_splits dest!: match_close_length dest: Cons.IH less_SucI)
qed

lemma match_placeholder_length: "match_placeholder s = Some (x, rest) \<Longrightarrow> length rest < length s"
  unfolding match_placeholder_def
  using skip_space_length [of "drop 3 s"] match_body_length [of "skip_space (drop 3 s)" x rest]
  by (auto split: if_splits)

text \<open>\<open>ReplaceAllStringFunc\<close> with the replacement of \<open>substitutePlaceholders\<close>.\<close>

definition placeholder_value :: "tenv \<Rightarrow> string \<Rightarrow> nat \<Rightarrow> string \<times> nat" where
  "placeholder_value env expression k =
     (case evaluate_template_expression env expression k of
        Inl (_, k') \<Rightarrow> ([], k')
      | Inr (v, k') \<Rightarrow> (value_to_string (int_out env) v, k'))"

function substitute_placeholders :: "tenv \<Rightarrow> string \<Rightarrow> nat \<Rightarrow> string \<times> nat" where
  "substitute_placeholders env s k =
     (case match_placeholder s of
        Some (expression, rest) \<Rightarrow>
          (let (v, k') = placeholder_value env expression k;
               (out, k'') = substitute_placeholders env rest k'
           in (v @ out, k''))
      | None \<Rightarrow>
          (case s of
             [] \<Rightarrow> ([], k)
           | c # cs \<Rightarrow> (let (out, k') = substitute_placeholders env cs k in (c # out, k'))))"
  by pat_completeness auto
termination
  by (relation "measure (\<lambda>(env, s, k). length s)") (auto dest: match_placeholder_length)

declare substitute_placeholders.simps [simp del]

section \<open>Conditional blocks\<close>

definition directive_keywords :: "string list" where
  "directive_keywords = [''if'', ''elif'', ''else'', ''endif'']"

text \<open>\<open>(.*?)\)\s*\}\}\s*$\<close> at the start of \<open>s\<close>: the group.\<close>

definition match_end :: "string \<Rightarrow> bool" where
  "match_end s \<longleftrightarrow> (case s of
     c # cs \<Rightarrow> c = CHR '')'' \<and> (case match_close cs of Some rest \<Rightarrow> skip_space rest = [] | None \<Rightarrow> False)
   | [] \<Rightarrow> False)"

fun match_condition :: "string \<Rightarrow> string option" where
  "match_condition [] = None"
| "match_condition (c # cs) =
     (if match_end (c # cs) then Some []
      else if c = newline then None else map_option (Cons c) (match_condition cs))"

text \<open>\<open>conditionalPattern.FindStringSubmatch(line)[1:]\<close>.\<close>

definition directive :: "string \<Rightarrow> (string \<times> string) option" where
  "directive line =
     (let s = skip_space line in
      if \<not> has_prefix s ''${{'' then None
      else
        let s = skip_space (drop 3 s) in
        case find (\<lambda>w. has_prefix s (w @ ''('')) directive_keywords of
          None \<Rightarrow> None
        | Some w \<Rightarrow> map_option (Pair w) (match_condition (drop (length w + 1) s)))"

text \<open>The local type \<open>block\<close> of \<open>applyConditionals\<close>; the head of the list is the innermost block.\<close>

record block =
  active :: bool
  taken :: bool
  enclosed :: bool

definition live :: "block list \<Rightarrow> bool" where
  "live stack \<longleftrightarrow> (\<forall>item \<in> set stack. active item \<and> enclosed item)"

definition condition_true :: "tenv \<Rightarrow> string \<Rightarrow> nat \<Rightarrow> bool \<times> nat" where
  "condition_true env expression k =
     (let (v, k') = evaluate_or_empty env expression k in (truthy v, k'))"

text \<open>\<open>a && truthy(evaluateOrEmpty(expression, data))\<close>: evaluated only where \<open>a\<close> holds.\<close>

definition and_condition :: "bool \<Rightarrow> tenv \<Rightarrow> string \<Rightarrow> nat \<Rightarrow> bool \<times> nat" where
  "and_condition a env expression k = (if a then condition_true env expression k else (False, k))"

definition open_block :: "tenv \<Rightarrow> string \<Rightarrow> block list \<Rightarrow> nat \<Rightarrow> block list \<times> nat" where
  "open_block env expression stack k =
     (let enc = live stack;
          (result, k') = and_condition enc env expression k
      in (\<lparr>active = result, taken = result, enclosed = enc\<rparr> # stack, k'))"

definition next_branch :: "tenv \<Rightarrow> bool \<Rightarrow> string \<Rightarrow> block list \<Rightarrow> nat \<Rightarrow> block list \<times> nat" where
  "next_branch env is_elif expression stack k =
     (case stack of
        [] \<Rightarrow> ([], k)
      | b # bs \<Rightarrow>
          if taken b then (b\<lparr>active := False\<rparr> # bs, k)
          else
            (let (result, k') =
               (if is_elif then and_condition (enclosed b) env expression k else (enclosed b, k))
             in (b\<lparr>active := result, taken := taken b \<or> result\<rparr> # bs, k')))"

fun conditional_lines :: "tenv \<Rightarrow> string list \<Rightarrow> block list \<Rightarrow> nat \<Rightarrow> string list \<times> nat" where
  "conditional_lines env [] stack k = ([], k)"
| "conditional_lines env (line # lines) stack k =
     (case directive line of
        None \<Rightarrow>
          (let (kept, k') = conditional_lines env lines stack k
           in (if live stack then line # kept else kept, k'))
      | Some (keyword, expression) \<Rightarrow>
          (let (stack', k') =
             (if keyword = ''if'' then open_block env expression stack k
              else if keyword = ''elif'' \<or> keyword = ''else''
                then next_branch env (keyword = ''elif'') expression stack k
              else (tl stack, k))
           in conditional_lines env lines stack' k'))"

definition text_lines :: "string \<Rightarrow> string list" where
  "text_lines text = split_on newline (replace_all text [CHR 0x0D, newline] [newline])"

definition apply_conditionals :: "tenv \<Rightarrow> string \<Rightarrow> nat \<Rightarrow> string \<times> nat" where
  "apply_conditionals env text k =
     (let (kept, k') = conditional_lines env (text_lines text) [] k in (join [newline] kept, k'))"

definition render_template_text :: "tenv \<Rightarrow> string \<Rightarrow> nat \<Rightarrow> string \<times> nat" where
  "render_template_text env text k =
     (let (s, k') = apply_conditionals env text k in substitute_placeholders env s k')"

section \<open>A document and what it selects\<close>

text \<open>
  A well-nested document: text lines, and blocks \<open>if\<close> ... \<open>elif\<close> ... \<open>else\<close> ... \<open>endif\<close>
  around other documents. \<open>doc_lines\<close> is how it is written; \<open>select_doc\<close> is what it means:
  of each block the first branch whose condition holds, and nothing of the others, whose
  conditions after the chosen one and whose nested conditions are not evaluated.
\<close>

datatype doc = Done | Text string doc | If string doc alts doc
and alts = EndIf | Else doc | ElIf string doc alts

definition directive_line :: "string \<Rightarrow> string \<Rightarrow> string" where
  "directive_line keyword e = ''${{ '' @ keyword @ ''('' @ e @ '') }}''"

fun doc_lines :: "doc \<Rightarrow> string list" and alts_lines :: "alts \<Rightarrow> string list" where
  "doc_lines Done = []"
| "doc_lines (Text l d) = l # doc_lines d"
| "doc_lines (If e b a d) =
     directive_line ''if'' e # doc_lines b @ alts_lines a @ directive_line ''endif'' [] # doc_lines d"
| "alts_lines EndIf = []"
| "alts_lines (Else b) = directive_line ''else'' [] # doc_lines b"
| "alts_lines (ElIf e b a) = directive_line ''elif'' e # doc_lines b @ alts_lines a"

fun select_doc :: "tenv \<Rightarrow> doc \<Rightarrow> nat \<Rightarrow> string list \<times> nat"
and select_alts :: "tenv \<Rightarrow> alts \<Rightarrow> nat \<Rightarrow> string list \<times> nat" where
  "select_doc env Done k = ([], k)"
| "select_doc env (Text l d) k = (let (s, k) = select_doc env d k in (l # s, k))"
| "select_doc env (If e b a d) k =
     (let (c, k) = condition_true env e k;
          (s, k) = (if c then select_doc env b k else select_alts env a k);
          (t, k) = select_doc env d k
      in (s @ t, k))"
| "select_alts env EndIf k = ([], k)"
| "select_alts env (Else b) k = select_doc env b k"
| "select_alts env (ElIf e b a) k =
     (let (c, k) = condition_true env e k in if c then select_doc env b k else select_alts env a k)"

fun plain_doc :: "doc \<Rightarrow> bool" and plain_alts :: "alts \<Rightarrow> bool" where
  "plain_doc Done \<longleftrightarrow> True"
| "plain_doc (Text l d) \<longleftrightarrow>
     directive l = None \<and> newline \<notin> set l \<and> CHR 0x0D \<notin> set l \<and> plain_doc d"
| "plain_doc (If e b a d) \<longleftrightarrow>
     newline \<notin> set e \<and> CHR 0x0D \<notin> set e \<and> plain_doc b \<and> plain_alts a \<and> plain_doc d"
| "plain_alts EndIf \<longleftrightarrow> True"
| "plain_alts (Else b) \<longleftrightarrow> plain_doc b"
| "plain_alts (ElIf e b a) \<longleftrightarrow> newline \<notin> set e \<and> CHR 0x0D \<notin> set e \<and> plain_doc b \<and> plain_alts a"

lemma set_skip_space: "c \<in> set s \<Longrightarrow> \<not> re_space c \<Longrightarrow> c \<in> set (skip_space s)"
proof (induction s)
  case (Cons x xs)
  then show ?case by (cases "re_space x") (auto simp: skip_space_def)
qed simp

lemma paren_not_space: "\<not> re_space (CHR '')'')"
  by (simp add: re_space_def)

lemma match_end_once: "CHR '')'' \<in> set cs \<Longrightarrow> \<not> match_end (c # cs)"
proof
  assume p: "CHR '')'' \<in> set cs" and m: "match_end (c # cs)"
  from m obtain rest where r: "match_close cs = Some rest" "skip_space rest = []"
    by (auto simp: match_end_def split: option.splits)
  then have "skip_space cs = ''}}'' @ rest"
    by (auto simp: match_close_def has_prefix_iff split: if_splits)
  with set_skip_space [OF p paren_not_space] have "CHR '')'' \<in> set rest" by simp
  with set_skip_space [OF this paren_not_space] r(2) show False by simp
qed

lemma match_condition_closed:
  "newline \<notin> set e \<Longrightarrow> match_condition (e @ '') }}'') = Some e"
proof (induction e)
  case Nil
  show ?case by (simp add: match_end_def match_close_def skip_space_def re_space_def)
next
  case (Cons c e)
  then have "c \<noteq> newline" by auto
  with Cons show ?case by (simp add: match_end_once)
qed

lemma directive_directive_line:
  assumes "w \<in> set directive_keywords" and "newline \<notin> set e"
  shows "directive (directive_line w e) = Some (w, e)"
proof -
  have "skip_space (directive_line w e) = directive_line w e"
    by (simp add: directive_line_def skip_space_def re_space_def)
  moreover have "skip_space (drop 3 (directive_line w e)) = w @ ''('' @ e @ '') }}''"
    using assms(1) by (auto simp: directive_line_def skip_space_def re_space_def directive_keywords_def)
  moreover have "find (\<lambda>v. has_prefix (w @ ''('' @ e @ '') }}'') (v @ ''('')) directive_keywords = Some w"
    using assms(1) by (auto simp: directive_keywords_def)
  moreover have "has_prefix (directive_line w e) ''${{''"
    by (simp add: directive_line_def)
  ultimately show ?thesis
    using match_condition_closed [OF assms(2)] by (simp add: directive_def)
qed

lemma live_Nil [simp]: "live []"
  by (simp add: live_def)

lemma live_Cons [simp]: "live (b # st) \<longleftrightarrow> active b \<and> enclosed b \<and> live st"
  by (auto simp: live_def)

lemma keyword_in [simp]:
  "''if'' \<in> set directive_keywords" "''elif'' \<in> set directive_keywords"
  "''else'' \<in> set directive_keywords" "''endif'' \<in> set directive_keywords"
  by (simp_all add: directive_keywords_def)

definition then_lines :: "string list \<times> nat \<Rightarrow> (nat \<Rightarrow> string list \<times> nat) \<Rightarrow> string list \<times> nat" where
  "then_lines p f = (let (s, k) = p; (t, k') = f k in (s @ t, k'))"

lemma then_lines_simps [simp]:
  "then_lines ([], k) f = f k"
  "then_lines (s, k) (\<lambda>k. ([], k)) = (s, k)"
  by (simp_all add: then_lines_def)

lemma then_lines_assoc: "then_lines (then_lines p f) g = then_lines p (\<lambda>k. then_lines (f k) g)"
  by (auto simp: then_lines_def split: prod.splits)

lemma then_lines_cong: "(\<And>k. f k = g k) \<Longrightarrow> then_lines p f = then_lines p g"
  by (simp add: then_lines_def)

lemma select_doc_If:
  "select_doc env (If e b a d) k =
     then_lines (select_alts env (ElIf e b a) k) (select_doc env d)"
  by (auto simp: then_lines_def split: prod.splits)

text \<open>
  The one induction: from a live stack the lines select as the document does; from a dead one
  they do nothing, whatever is on the stack above.
\<close>

lemma conditional_lines_doc:
  "plain_doc d \<Longrightarrow> conditional_lines env (doc_lines d @ ls) st k =
     (if live st then then_lines (select_doc env d k) (conditional_lines env ls st)
      else conditional_lines env ls st k)"
  and conditional_lines_alts:
  "plain_alts a \<Longrightarrow> enclosed b = live st \<Longrightarrow>
     conditional_lines env (alts_lines a @ directive_line ''endif'' [] # ls) (b # st) k =
     (if live st \<and> \<not> taken b then then_lines (select_alts env a k) (conditional_lines env ls st)
      else conditional_lines env ls st k)"
proof (induction d and a arbitrary: ls st k and b ls st k)
  case (Text l d)
  then show ?case
    by (auto simp: then_lines_def split: prod.splits)
next
  case (If e b a d)
  let ?rest = "alts_lines a @ directive_line ''endif'' [] # doc_lines d @ ls"
  have d: "directive (directive_line ''if'' e) = Some (''if'', e)"
    using If.prems by (intro directive_directive_line) auto
  have ih: "conditional_lines env (doc_lines b @ ?rest) (c # st) k
      = (if live (c # st) then then_lines (select_doc env b k) (conditional_lines env ?rest (c # st))
         else conditional_lines env ?rest (c # st) k)"
    "enclosed c = live st \<Longrightarrow> conditional_lines env ?rest (c # st) k
      = (if live st \<and> \<not> taken c then then_lines (select_alts env a k) (conditional_lines env (doc_lines d @ ls) st)
         else conditional_lines env (doc_lines d @ ls) st k)"
    "conditional_lines env (doc_lines d @ ls) st k
      = (if live st then then_lines (select_doc env d k) (conditional_lines env ls st)
         else conditional_lines env ls st k)" for c k
    using If.IH If.prems by auto
  show ?case
    using d
    by (auto simp: open_block_def and_condition_def ih select_doc_If then_lines_assoc condition_true_def
          simp del: select_doc.simps(3) split: prod.splits intro!: then_lines_cong)
next
  case (Else d)
  have "directive (directive_line ''else'' []) = Some (''else'', [])"
       "directive (directive_line ''endif'' []) = Some (''endif'', [])"
    by (intro directive_directive_line; simp)+
  with Else show ?case
    by (auto simp: next_branch_def then_lines_def split: prod.splits)
next
  case (ElIf e d a)
  have "directive (directive_line ''elif'' e) = Some (''elif'', e)"
    using ElIf.prems by (intro directive_directive_line) auto
  with ElIf show ?case
    by (auto simp: next_branch_def and_condition_def condition_true_def split: prod.splits intro!: then_lines_cong)
next
  case EndIf
  have "directive (directive_line ''endif'' []) = Some (''endif'', [])"
    by (intro directive_directive_line; simp)
  then show ?case by (auto simp: then_lines_def)
qed (simp add: then_lines_def)

text \<open>The lines of a well-nested document survive being joined into a text and split again.\<close>

lemma directive_line_chars:
  "w \<in> set directive_keywords \<Longrightarrow> newline \<notin> set e \<Longrightarrow> CHR 0x0D \<notin> set e \<Longrightarrow>
     newline \<notin> set (directive_line w e) \<and> CHR 0x0D \<notin> set (directive_line w e)"
  by (auto simp: directive_line_def directive_keywords_def)

lemma doc_lines_chars:
  "plain_doc d \<Longrightarrow> \<forall>l \<in> set (doc_lines d). newline \<notin> set l \<and> CHR 0x0D \<notin> set l"
  "plain_alts a \<Longrightarrow> \<forall>l \<in> set (alts_lines a). newline \<notin> set l \<and> CHR 0x0D \<notin> set l"
  by (induction d and a) (auto simp: directive_line_chars)

lemma set_join: "set (join sep xs) \<subseteq> set sep \<union> \<Union> (set ` set xs)"
  by (induction sep xs rule: join.induct) auto

lemma text_lines_join:
  assumes "ls \<noteq> []" and "\<forall>l \<in> set ls. newline \<notin> set l \<and> CHR 0x0D \<notin> set l"
  shows "text_lines (join [newline] ls) = ls"
proof -
  have "CHR 0x0D \<notin> set (join [newline] ls)"
    using set_join [of "[newline]" ls] assms(2) by auto
  then have "\<not> contains (join [newline] ls) [CHR 0x0D, newline]"
    by (auto simp: contains_iff)
  then show ?thesis
    using assms by (simp add: text_lines_def replace_all_id split_on_join)
qed

text \<open>
  C3: the conditional blocks of a well-nested document keep, of every block, the lines of the
  first branch whose condition holds and of no other, in order and without the directives; a
  condition inside a cut branch, or after the branch that was chosen, is never evaluated (it
  would move the source of randomness).
\<close>

theorem apply_conditionals_select:
  assumes "plain_doc d" and "d \<noteq> Done"
  shows "apply_conditionals env (join [newline] (doc_lines d)) k =
    (let (kept, k') = select_doc env d k in (join [newline] kept, k'))"
proof -
  have "doc_lines d \<noteq> []" using assms(2) by (cases d) auto
  then have "text_lines (join [newline] (doc_lines d)) = doc_lines d"
    using doc_lines_chars(1) [OF assms(1)] by (rule text_lines_join)
  moreover have "conditional_lines env (doc_lines d) [] k = select_doc env d k"
    using conditional_lines_doc [OF assms(1), of env "[]" "[]" k]
    by (simp add: then_lines_def split: prod.splits)
  ultimately show ?thesis by (simp add: apply_conditionals_def)
qed

theorem apply_conditionals_select_witness:
  "apply_conditionals \<lparr>data = \<lparr>Defaults = Map.empty, Inputs = Map.empty, Env = Map.empty\<rparr>,
       rnd = (\<lambda>_. Some 0), int_out = (\<lambda>_. 0)\<rparr>
     (join [newline] (doc_lines (If ''false'' (If ''random()'' (Text ''a'' Done) EndIf Done)
        (Else (Text ''b'' Done)) (Text ''c'' Done)))) 0
   = (''b'' @ newline # ''c'', 0)"
  by (subst apply_conditionals_select)
    (simp add: directive_def skip_space_def re_space_def, simp,
     simp add: condition_true_def evaluate_or_empty_def evaluate_template_expression_def, code_simp)

end
