(* ===== verification/TemplateRender.thy ===== *)
theory TemplateRender
  imports TemplateText
begin

text \<open>
  The rendering half of a template's deployment (controllers/template.go): the template's own
  defaults, the form's fields, and the whole manifest text.
\<close>

section \<open>What one placeholder does\<close>

lemma skip_space_stops: "xs \<noteq> [] \<Longrightarrow> \<not> re_space (last xs) \<Longrightarrow> \<exists>c r. c \<in> set xs \<and> skip_space (xs @ ys) = c # r"
proof (induction xs)
  case (Cons x xs)
  then show ?case by (cases "xs = []") (auto simp: skip_space_def)
qed simp

lemma match_body_closed:
  assumes "CHR ''}'' \<notin> set e" and "newline \<notin> set e" and "e \<noteq> [] \<Longrightarrow> \<not> re_space (last e)"
  shows "match_body (e @ '' }}'' @ rest) = Some (e, rest)"
  using assms
proof (induction e)
  case Nil
  show ?case by (simp add: match_body.simps match_close_def skip_space_def re_space_def)
next
  case (Cons c e)
  obtain d r where d: "d \<in> set (c # e)" "skip_space ((c # e) @ '' }}'' @ rest) = d # r"
    using skip_space_stops [of "c # e" "'' }}'' @ rest"] Cons.prems(3) by blast
  then have "d \<noteq> CHR ''}''" using Cons.prems(1) by auto
  then have "match_close (c # e @ '' }}'' @ rest) = None"
    using d(2) by (simp add: match_close_def)
  moreover have "match_body (e @ '' }}'' @ rest) = Some (e, rest)"
    using Cons by (auto split: if_splits)
  moreover have "c \<noteq> newline" using Cons.prems(2) by auto
  ultimately show ?case by (subst match_body.simps) simp
qed

lemma substitute_no_dollar:
  "CHR ''$'' \<notin> set t \<Longrightarrow> substitute_placeholders env (t @ s) k =
     (let (out, k') = substitute_placeholders env s k in (t @ out, k'))"
proof (induction t)
  case (Cons c t)
  then have "match_placeholder (c # t @ s) = None"
    by (auto simp: match_placeholder_def)
  with Cons show ?case
    by (subst substitute_placeholders.simps) (auto split: prod.splits)
qed simp

text \<open>
  Substitution copies the text before a placeholder, replaces the placeholder by the text
  of its expression's value, or by nothing when the expression is in error, and goes on after
  it: what an expression evaluates to is never read as a placeholder itself.
\<close>

theorem substitute_one:
  assumes "CHR ''$'' \<notin> set t" and "CHR ''}'' \<notin> set e" and "newline \<notin> set e"
    and "e \<noteq> [] \<Longrightarrow> \<not> re_space (hd e) \<and> \<not> re_space (last e)"
  shows "substitute_placeholders env (t @ ''${{ '' @ e @ '' }}'' @ rest) k =
    (let (v, k1) = (case evaluate_template_expression env e k of
           Inl (_, k1) \<Rightarrow> ([], k1)
         | Inr (v, k1) \<Rightarrow> (value_to_string (int_out env) v, k1));
         (out, k2) = substitute_placeholders env rest k1
     in (t @ v @ out, k2))"
proof -
  let ?p = "''${{ '' @ e @ '' }}'' @ rest"
  have "skip_space ('' '' @ e @ '' }}'' @ rest) = (if e = [] then ''}}'' @ rest else e @ '' }}'' @ rest)"
    using assms(4) by (cases e) (auto simp: skip_space_def re_space_def)
  moreover have "match_body (''}}'' @ rest) = Some ([], rest)"
    by (subst match_body.simps) (simp add: match_close_def skip_space_def re_space_def)
  ultimately have "match_placeholder ?p = Some (e, rest)"
    using match_body_closed [of e rest] assms(2-4) by (auto simp: match_placeholder_def)
  then have "substitute_placeholders env ?p k =
      (let (v, k1) = placeholder_value env e k; (out, k2) = substitute_placeholders env rest k1
       in (v @ out, k2))"
    by (subst substitute_placeholders.simps) simp
  then show ?thesis
    using substitute_no_dollar [OF assms(1), of env ?p k]
    by (auto simp: placeholder_value_def Let_def split: prod.splits)
qed

theorem substitute_one_witness:
  "substitute_placeholders \<lparr>data = \<lparr>Defaults = Map.empty, Inputs = [''x'' \<mapsto> ''${{ y }}''], Env = Map.empty\<rparr>,
       rnd = (\<lambda>_. None), int_out = (\<lambda>_. 0)\<rparr>
     (''a: '' @ ''${{ '' @ ''inputs.x'' @ '' }}'' @ ''.'') 0 = (''a: ${{ y }}.'', 0)"
proof -
  have "substitute_placeholders env ''.'' k = (''.'', k)" for env k
    by (simp add: substitute_placeholders.simps match_placeholder_def)
  moreover have "evaluate_template_expression \<lparr>data = \<lparr>Defaults = Map.empty, Inputs = [''x'' \<mapsto> ''${{ y }}''], Env = Map.empty\<rparr>,
       rnd = (\<lambda>_. None), int_out = (\<lambda>_. 0)\<rparr> ''inputs.x'' 0 = Ok (VStr ''${{ y }}'', 0)"
    by code_simp
  ultimately show ?thesis
    by (subst substitute_one) (simp_all add: re_space_def)
qed

end
