(* ===== verification/Market.thy ===== *)
theory Market
  imports GoStrings "HOL-Library.AList"
begin

text \<open>
  The local copy of the template market (store/templates.go): the sync that replaces it, the
  documents a template file holds, and the listing with its cache. The directories under the
  data directory are maps from file names to contents; every file operation may fail, as an
  oracle says. YAML, the tar and gzip readers and HTTP are parameters.
\<close>

section \<open>Templates\<close>

record template_value =
  value_type :: string
  value_text :: string

record template_input =
  in_description :: string
  in_type :: string
  in_default :: string
  in_required :: bool
  in_options :: "string list"
  in_if :: string

record template_i18n =
  tr_title :: string
  tr_description :: string
  tr_readme :: string

text \<open>A Go map whose keys are enumerated is an association list; its first binding counts.\<close>

record template_spec =
  spec_title :: string
  spec_url :: string
  spec_git_repo :: string
  spec_author :: string
  spec_description :: string
  spec_readme :: string
  spec_icon :: string
  spec_screenshots :: "string list"
  spec_template_type :: string
  spec_locale :: string
  spec_i18n :: "(string \<times> template_i18n) list"
  spec_categories :: "string list"
  spec_draft :: bool
  spec_defaults :: "(string \<times> template_value) list"
  spec_inputs :: "(string \<times> template_input) list"

record template_document =
  doc_kind :: string
  doc_name :: string
  doc_spec :: template_spec

record template =
  t_name :: string
  t_spec :: template_spec
  t_manifests :: string

datatype template_error = EmptyTemplate string | BadYaml string | NotATemplate string | InvalidName string | NoFile

text \<open>\<open>SplitYamlDocuments\<close>: cut at the lines that are \<open>---\<close> but for trailing blanks.\<close>

definition is_separator :: "string \<Rightarrow> bool" where
  "is_separator line \<longleftrightarrow> trim_right_set line [CHR '' '', tab] = ''---''"

fun split_documents :: "string list \<Rightarrow> string list \<Rightarrow> string list" where
  "split_documents current [] = [join [newline] current]"
| "split_documents current (line # lines) =
     (if is_separator line then join [newline] current # split_documents [] lines
      else split_documents (current @ [line]) lines)"

definition split_yaml_documents :: "string \<Rightarrow> string list" where
  "split_yaml_documents text =
     split_documents [] (split_on newline (replace_all text [CHR 0x0D, newline] [newline]))"

definition document_separator :: string where
  "document_separator = newline # ''---'' @ [newline]"

definition parse_template_file ::
  "(string \<Rightarrow> template_document option) \<Rightarrow> string \<Rightarrow> string \<Rightarrow> (template_error, template) result" where
  "parse_template_file unmarshal name content =
     (case split_yaml_documents content of
        [] \<Rightarrow> Err (EmptyTemplate name)
      | document # documents \<Rightarrow>
          (case unmarshal document of
             None \<Rightarrow> Err (BadYaml name)
           | Some header \<Rightarrow>
               if doc_kind header \<noteq> ''Template'' then Err (NotATemplate name)
               else Ok \<lparr>t_name = (if doc_name header \<noteq> [] then doc_name header else name),
                        t_spec = doc_spec header,
                        t_manifests = join document_separator documents\<rparr>))"

section \<open>The sync\<close>

definition default_template_repo :: string where
  "default_template_repo = ''https://github.com/labring-actions/templates''"

definition default_template_branch :: string where
  "default_template_branch = ''kb-0.9''"

definition max_template_bytes :: nat where
  "max_template_bytes = 4194304"

definition tarball_url :: "string \<Rightarrow> string \<Rightarrow> string" where
  "tarball_url repo_url branch =
     (let trimmed = trim_suffix (trim_suffix (trim_space repo_url) ''/'') ''.git'' in
      if has_suffix trimmed ''.tar.gz'' \<or> has_suffix trimmed ''.tgz'' then trimmed
      else if has_prefix trimmed ''https://github.com/'' then
        ''https://codeload.github.com/'' @ trim_prefix trimmed ''https://github.com/''
          @ ''/tar.gz/refs/heads/'' @ branch
      else trimmed)"

text \<open>\<open>templatePathPattern\<close>: the name in \<open><repo>/template/<name>/index.yaml\<close>.\<close>

definition template_path_name :: "string \<Rightarrow> string option" where
  "template_path_name path =
     (case split_on (CHR ''/'') path of
        [repo, t, name, file] \<Rightarrow>
          if repo \<noteq> [] \<and> t = ''template'' \<and> name \<noteq> [] \<and> (file = ''index.yaml'' \<or> file = ''index.yml'')
          then Some name else None
      | _ \<Rightarrow> None)"

type_synonym directory = "(string \<times> string) list"
type_synonym disk = "string \<rightharpoonup> directory"

text \<open>
  \<open>fault n\<close>: the \<open>n\<close>-th file operation of the sync fails. A failing removal leaves some
  residue and a failing write leaves some content; a failing rename changes nothing.
\<close>

record io_oracle =
  fault :: "nat \<Rightarrow> bool"
  residue :: "nat \<Rightarrow> directory option"
  half_written :: "nat \<Rightarrow> string option"

definition remove_all :: "io_oracle \<Rightarrow> nat \<Rightarrow> string \<Rightarrow> disk \<Rightarrow> bool \<times> disk" where
  "remove_all io n p d = (if fault io n then (False, d(p := residue io n)) else (True, d(p := None)))"

definition mkdir_all :: "io_oracle \<Rightarrow> nat \<Rightarrow> string \<Rightarrow> disk \<Rightarrow> bool \<times> disk" where
  "mkdir_all io n p d =
     (if fault io n then (False, d)
      else (True, (case d p of None \<Rightarrow> d(p \<mapsto> []) | Some _ \<Rightarrow> d)))"

definition write_file :: "io_oracle \<Rightarrow> nat \<Rightarrow> string \<Rightarrow> string \<Rightarrow> string \<Rightarrow> disk \<Rightarrow> bool \<times> disk" where
  "write_file io n p file content d =
     (case d p of
        None \<Rightarrow> (False, d)
      | Some dir \<Rightarrow>
          if fault io n then
            (False, (case half_written io n of
               None \<Rightarrow> d | Some c \<Rightarrow> d(p \<mapsto> AList.update file c dir)))
          else (True, d(p \<mapsto> AList.update file content dir)))"

text \<open>Renaming a directory replaces an empty one and fails on any other.\<close>

definition rename_dir :: "io_oracle \<Rightarrow> nat \<Rightarrow> string \<Rightarrow> string \<Rightarrow> disk \<Rightarrow> bool \<times> disk" where
  "rename_dir io n p q d =
     (case d p of
        None \<Rightarrow> (False, d)
      | Some dir \<Rightarrow>
          if fault io n \<or> (case d q of Some e \<Rightarrow> e \<noteq> [] | None \<Rightarrow> False) then (False, d)
          else (True, d(q \<mapsto> dir, p := None)))"

text \<open>
  The archive: its regular files and others in order, each with what reading it gives
  (\<open>None\<close> for an error), and whether the stream ends in an error instead of \<open>io.EOF\<close>.
\<close>

record tar_entry =
  tar_regular :: bool
  tar_path :: string
  tar_contents :: "string option"

record archive =
  ar_entries :: "tar_entry list"
  ar_broken :: bool

datatype sync_error =
    BadRequest | BadResponse | BadGzip | ClearStaging | MakeStaging | BadTar | ReadFailed | WriteFailed
  | NoTemplates | MoveAside | MoveIn

record repo_status =
  st_repo :: string
  st_branch :: string
  st_count :: nat
  st_updated_at :: string

fun extract_archive :: "io_oracle \<Rightarrow> nat \<Rightarrow> string \<Rightarrow> tar_entry list \<Rightarrow> bool \<Rightarrow> nat \<Rightarrow> disk
    \<Rightarrow> ((sync_error + nat) \<times> nat) \<times> disk" where
  "extract_archive io n staging [] brk k d = ((if brk then Inl BadTar else Inr k, n), d)"
| "extract_archive io n staging (e # es) brk k d =
     (if \<not> tar_regular e then extract_archive io n staging es brk k d
      else case template_path_name (tar_path e) of
        None \<Rightarrow> extract_archive io n staging es brk k d
      | Some name \<Rightarrow>
          (case tar_contents e of
             None \<Rightarrow> ((Inl ReadFailed, n), d)
           | Some c \<Rightarrow>
               (let (ok, d) = write_file io n staging (name @ ''.yaml'') (take max_template_bytes c) d in
                if \<not> ok then ((Inl WriteFailed, Suc n), d)
                else extract_archive io (Suc n) staging es brk (Suc k) d)))"

text \<open>
  Moving the staged set in place of the old one, and back when that fails. \<open>Stat\<close> is taken to find the old one exactly
  when it is there: a failure of \<open>Stat\<close> itself, of a directory that cannot be looked up, is not modelled.
\<close>

definition swap_in :: "io_oracle \<Rightarrow> nat \<Rightarrow> string \<Rightarrow> disk \<Rightarrow> (sync_error option \<times> nat) \<times> disk" where
  "swap_in io n dir d0 =
     (let staging = dir @ ''.new''; previous = dir @ ''.old'';
          (_, d) = remove_all io n previous d0;
          (ok, d) = (if d dir \<noteq> None then rename_dir io (n + 1) dir previous d else (True, d))
      in if \<not> ok then ((Some MoveAside, n + 2), d)
         else
           (let (ok, d) = rename_dir io (n + 2) staging dir d in
            if \<not> ok then ((Some MoveIn, n + 4), snd (rename_dir io (n + 3) previous dir d))
            else ((None, n + 4), snd (remove_all io (n + 3) previous d))))"

text \<open>
  \<open>SyncTemplates\<close> over what the request gave: an error before the archive, or the archive.
  \<open>encode\<close> is \<open>json.Marshal\<close> of the status, \<open>now\<close> the formatted time; the result also says
  whether the cache of parsed templates was emptied.
\<close>

definition sync_templates ::
  "io_oracle \<Rightarrow> (repo_status \<Rightarrow> string option) \<Rightarrow> string \<Rightarrow> string \<Rightarrow> (string \<Rightarrow> string \<Rightarrow> sync_error + archive)
     \<Rightarrow> string \<Rightarrow> string \<Rightarrow> disk \<Rightarrow> (sync_error option \<times> repo_status \<times> bool) \<times> disk" where
  "sync_templates io encode now dir fetch repo0 branch0 d =
     (let repo_url = (if repo0 = [] then default_template_repo else repo0);
          br = (if branch0 = [] then default_template_branch else branch0);
          status = \<lparr>st_repo = repo_url, st_branch = br, st_count = 0, st_updated_at = []\<rparr>;
          failed = (\<lambda>e d. ((Some e, status, False), d))
      in case fetch repo_url br of
        Inl e \<Rightarrow> failed e d
      | Inr ar \<Rightarrow>
          (let staging = dir @ ''.new''; (ok, d) = remove_all io 0 staging d in
           if \<not> ok then failed ClearStaging d
           else let (ok, d) = mkdir_all io 1 staging d in
           if \<not> ok then failed MakeStaging d
           else let ((res, n), d) = extract_archive io 2 staging (ar_entries ar) (ar_broken ar) 0 d in
           case res of
             Inl e \<Rightarrow> failed e d
           | Inr k \<Rightarrow>
               if k = 0 then failed NoTemplates (snd (remove_all io n staging d))
               else (let ((err, n), d) = swap_in io n dir d in
                 case err of
                   Some e \<Rightarrow> failed e d
                 | None \<Rightarrow>
                     (let status = status\<lparr>st_count := k, st_updated_at := now\<rparr>;
                          d = (case encode status of
                                 None \<Rightarrow> d | Some t \<Rightarrow> snd (write_file io n dir ''repo.json'' t d))
                      in ((None, status, True), d)))))"

section \<open>Loading\<close>

text \<open>
  The cache maps a path to the parsed template and the modification time it was read at.
  \<open>stat\<close> gives a file's modification time and \<open>read_file\<close> its content.
\<close>

type_synonym template_cache = "string \<rightharpoonup> template \<times> nat"

record template_files =
  stat :: "string \<Rightarrow> nat option"
  read_file :: "string \<Rightarrow> string option"

definition load_template_file ::
  "(string \<Rightarrow> template_document option) \<Rightarrow> template_files \<Rightarrow> string \<Rightarrow> string \<Rightarrow> template_cache
     \<Rightarrow> (template_error, template) result \<times> template_cache" where
  "load_template_file unmarshal fs file name cache =
     (case stat fs file of
        None \<Rightarrow> (Err NoFile, cache)
      | Some mtime \<Rightarrow>
          (case (case cache file of Some (t, m) \<Rightarrow> if m = mtime then Some t else None | None \<Rightarrow> None) of
             Some t \<Rightarrow> (Ok t, cache)
           | None \<Rightarrow>
               (case read_file fs file of
                  None \<Rightarrow> (Err NoFile, cache)
                | Some content \<Rightarrow>
                    (case parse_template_file unmarshal name content of
                       Inl e \<Rightarrow> (Err e, cache)
                     | Inr t \<Rightarrow> (Ok t, cache(file \<mapsto> (t, mtime)))))))"

text \<open>\<open>dir_entries\<close>: what \<open>os.ReadDir\<close> lists, a name and whether it is a directory.\<close>

fun load_entries ::
  "(string \<Rightarrow> template_document option) \<Rightarrow> template_files \<Rightarrow> string \<Rightarrow> template list
     \<Rightarrow> (string \<times> bool) list \<Rightarrow> template_cache \<Rightarrow> template list \<times> template_cache" where
  "load_entries unmarshal fs dir builtin [] cache = ([], cache)"
| "load_entries unmarshal fs dir builtin ((file, is_dir) # es) cache =
     (if is_dir \<or> \<not> has_suffix file ''.yaml'' then load_entries unmarshal fs dir builtin es cache
      else
        (let (res, cache) =
           load_template_file unmarshal fs (dir @ ''/'' @ file) (trim_suffix file ''.yaml'') cache;
             (ts, cache) = load_entries unmarshal fs dir builtin es cache
         in case res of
              Inl _ \<Rightarrow> (ts, cache)
            | Inr t \<Rightarrow>
                if t_name t \<in> t_name ` set builtin \<or> spec_draft (t_spec t) then (ts, cache)
                else (t # ts, cache)))"

text \<open>\<open>None\<close> for \<open>dir_entries\<close>: the directory cannot be read (one that does not exist lists nothing).\<close>

definition load_templates ::
  "(string \<Rightarrow> template_document option) \<Rightarrow> template_files \<Rightarrow> string \<Rightarrow> template list
     \<Rightarrow> (string \<times> bool) list option \<Rightarrow> template_cache \<Rightarrow> template list option \<times> template_cache" where
  "load_templates unmarshal fs dir builtin dir_entries cache =
     (case dir_entries of
        None \<Rightarrow> (None, cache)
      | Some es \<Rightarrow>
          (let (ts, cache) = load_entries unmarshal fs dir builtin es cache
           in (Some (sort_key (\<lambda>t. to_lower (t_name t)) (builtin @ ts)), cache)))"

definition load_template ::
  "(string \<Rightarrow> template_document option) \<Rightarrow> template_files \<Rightarrow> string \<Rightarrow> template list \<Rightarrow> string
     \<Rightarrow> template_cache \<Rightarrow> (template_error, template) result \<times> template_cache" where
  "load_template unmarshal fs dir builtin name cache =
     (if name = [] \<or> CHR ''/'' \<in> set name \<or> backslash \<in> set name then (Err (InvalidName name), cache)
      else case find (\<lambda>t. t_name t = name) builtin of
        Some t \<Rightarrow> (Ok t, cache)
      | None \<Rightarrow> load_template_file unmarshal fs (dir @ ''/'' @ name @ ''.yaml'') name cache)"

section \<open>The sync keeps a market\<close>

lemma remove_all_other: "q \<noteq> p \<Longrightarrow> snd (remove_all io n p d) q = d q"
  by (simp add: remove_all_def)

lemma mkdir_all_other: "q \<noteq> p \<Longrightarrow> snd (mkdir_all io n p d) q = d q"
  by (simp add: mkdir_all_def split: option.split)

lemma write_file_other: "q \<noteq> p \<Longrightarrow> snd (write_file io n p f c d) q = d q"
  by (simp add: write_file_def split: option.split)

lemma rename_dir_other: "q \<noteq> p \<Longrightarrow> q \<noteq> r \<Longrightarrow> snd (rename_dir io n p r d) q = d q"
  by (simp add: rename_dir_def split: option.split)

lemma extract_archive_other:
  "q \<noteq> p \<Longrightarrow> snd (extract_archive io n p es brk k d) q = d q"
proof (induction io n p es brk k d rule: extract_archive.induct)
  case (2 io n staging e es brk k d)
  show ?case
  proof (cases "tar_regular e \<and> template_path_name (tar_path e) \<noteq> None \<and> tar_contents e \<noteq> None")
    case True
    then obtain name c where t: "tar_regular e" "template_path_name (tar_path e) = Some name" "tar_contents e = Some c"
      by auto
    obtain ok d' where w: "write_file io n staging (name @ ''.yaml'') (take max_template_bytes c) d = (ok, d')"
      by force
    then have "d' q = d q" using write_file_other [of q staging] 2(4) by (metis snd_conv)
    then show ?thesis using 2(3) [of name c] 2(4) t w by auto
  next
    case False
    then consider "\<not> tar_regular e" | "tar_regular e" "template_path_name (tar_path e) = None"
      | name where "tar_regular e" "template_path_name (tar_path e) = Some name" "tar_contents e = None" by auto
    then show ?thesis using 2(1,2,4) by cases simp_all
  qed
qed simp

lemma rename_dir_moved:
  "rename_dir io n p q d = (True, d') \<Longrightarrow> p \<noteq> q \<Longrightarrow> d' q = d p \<and> d' p = None \<and> d p \<noteq> None"
  by (auto simp: rename_dir_def split: option.splits if_splits)

lemma rename_dir_failed: "rename_dir io n p q d = (False, d') \<Longrightarrow> d' = d"
  by (auto simp: rename_dir_def split: option.splits if_splits)

lemma suffix_names [simp]:
  "dir @ ''.new'' \<noteq> dir" "dir @ ''.old'' \<noteq> dir" "dir \<noteq> dir @ ''.new''" "dir \<noteq> dir @ ''.old''"
  by auto

text \<open>
  After a swap that failed: the market is where it was, or aside with nothing in its place.
  (Where there was none, a residue that \<open>.old\<close> still held may have been moved in.)
\<close>

lemma swap_in_failed:
  assumes "swap_in io n dir d = ((Some e, n'), d')" and "d dir \<noteq> None"
  shows "d' dir = d dir \<or> (d' dir = None \<and> d' (dir @ ''.old'') = d dir)"
proof -
  let ?st = "dir @ ''.new''" and ?pr = "dir @ ''.old''"
  define d1 where "d1 = snd (remove_all io n ?pr d)"
  have d1: "d1 dir = d dir" by (simp add: d1_def remove_all_other)
  obtain okr where rem: "remove_all io n ?pr d = (okr, d1)" by (metis d1_def prod.collapse)
  have False: "d1 dir \<noteq> None" using assms(2) d1 by simp
  obtain ok d2 where r1: "rename_dir io (n + 1) dir ?pr d1 = (ok, d2)" by force
  show ?thesis
  proof (cases ok)
    case True
    then have m: "d2 ?pr = d dir" "d2 dir = None"
      using r1 rename_dir_moved [of io "n + 1" dir ?pr d1 d2] d1 by auto
    obtain ok' d3 where r2: "rename_dir io (n + 2) ?st dir d2 = (ok', d3)" by force
    have "swap_in io n dir d =
       (if \<not> ok' then ((Some MoveIn, n + 4), snd (rename_dir io (n + 3) ?pr dir d3))
        else ((None, n + 4), snd (remove_all io (n + 3) ?pr d3)))"
      using rem r1 r2 True False by (simp add: swap_in_def Let_def del: add_2_eq_Suc')
    with assms have "\<not> ok'" and "d' = snd (rename_dir io (n + 3) ?pr dir d3)"
      by (simp_all split: if_splits)
    then have d': "d' = snd (rename_dir io (n + 3) ?pr dir d2)" using r2 by (cases ok') (auto dest: rename_dir_failed)
    then show ?thesis
      using m by (auto simp: d' rename_dir_def split: option.splits)
  next
    case neg: False
    then have "d2 = d1" using r1 by (cases ok) (auto dest: rename_dir_failed)
    moreover have "swap_in io n dir d = ((Some MoveAside, n + 2), d2)"
      using rem r1 neg False by (simp add: swap_in_def Let_def del: add_2_eq_Suc')
    ultimately show ?thesis using assms d1 by simp
  qed
qed

lemma market_until_swap:
  assumes "sync_templates io encode now dir fetch repo0 branch0 d = ((Some e, st, c), d')"
  shows "d' dir = d dir \<or> (\<exists>n n' e' d1. swap_in io n dir d1 = ((Some e', n'), d') \<and> d1 dir = d dir)"
proof -
  let ?st = "dir @ ''.new''"
  define d1 where "d1 = snd (remove_all io 0 ?st d)"
  define d2 where "d2 = snd (mkdir_all io 1 ?st d1)"
  have eq: "d1 dir = d dir" "d2 dir = d dir"
    by (simp_all add: d1_def d2_def remove_all_other mkdir_all_other)
  obtain ok1 where r1: "remove_all io 0 ?st d = (ok1, d1)" by (metis d1_def prod.collapse)
  obtain ok2 where r2: "mkdir_all io 1 ?st d1 = (ok2, d2)" by (metis d2_def prod.collapse)
  show ?thesis
  proof (cases "fetch (if repo0 = [] then default_template_repo else repo0)
      (if branch0 = [] then default_template_branch else branch0)")
    case (Inl e)
    with assms show ?thesis by (simp add: sync_templates_def)
  next
    case (Inr ar)
    obtain res n d3 where x: "extract_archive io 2 ?st (ar_entries ar) (ar_broken ar) 0 d2 = ((res, n), d3)"
      by (metis prod.collapse)
    then have d3: "d3 dir = d dir"
      using extract_archive_other [of dir ?st io 2 "ar_entries ar" "ar_broken ar" 0 d2] eq by simp
    obtain err n' d4 where sw: "swap_in io n dir d3 = ((err, n'), d4)" by (metis prod.collapse)
    show ?thesis
    proof (cases "ok1 \<and> ok2")
      case False
      with assms Inr r1 r2 eq show ?thesis
        by (auto simp: sync_templates_def Let_def split: if_splits)
    next
      case True
      show ?thesis
      proof (cases res)
        case (Inl e')
        with True assms Inr r1 r2 x d3 show ?thesis by (auto simp: sync_templates_def)
      next
        case res: (Inr k)
        show ?thesis
        proof (cases "k = 0")
          case True
          with \<open>ok1 \<and> ok2\<close> assms Inr r1 r2 x d3 res show ?thesis
            by (auto simp: sync_templates_def remove_all_other)
        next
          case False
          then have "d' = d4 \<and> err = Some e"
            using \<open>ok1 \<and> ok2\<close> assms Inr r1 r2 x res sw
            by (auto simp: sync_templates_def Let_def split: option.splits)
          with sw d3 show ?thesis by blast
        qed
      qed
    qed
  qed
qed

text \<open>
  C4: a sync that fails, at whatever file operation, leaves the market it was to replace as it was; if even the
  renaming back fails, the whole market is under \<open>.old\<close>, and no half-written set is in its
  place.
\<close>

theorem failed_sync_keeps_market:
  assumes "sync_templates io encode now dir fetch repo0 branch0 d = ((Some e, st, cleared), d')"
    and "d dir \<noteq> None"
  shows "\<not> cleared \<and> (d' dir = d dir \<or> (d' dir = None \<and> d' (dir @ ''.old'') = d dir))"
proof
  show "\<not> cleared"
    using assms(1) by (auto simp: sync_templates_def Let_def split: sum.splits if_splits prod.splits option.splits)
  show "d' dir = d dir \<or> (d' dir = None \<and> d' (dir @ ''.old'') = d dir)"
    using market_until_swap [OF assms(1)] swap_in_failed assms(2) by metis
qed

theorem failed_sync_keeps_market_witness:
  "let d = Map.empty(''t'' \<mapsto> [(''a.yaml'', ''A'')]);
       io = \<lparr>fault = (\<lambda>n. n = 4), residue = (\<lambda>_. None), half_written = (\<lambda>_. None)\<rparr>;
       fetch = (\<lambda>_ _. Inr \<lparr>ar_entries = [\<lparr>tar_regular = True, tar_path = ''r/template/b/index.yaml'',
           tar_contents = Some ''B''\<rparr>], ar_broken = False\<rparr>);
       r = sync_templates io (\<lambda>_. None) ''now'' ''t'' fetch [] [] d
   in fst (fst r) = Some MoveAside \<and> snd r ''t'' = d ''t''"
proof -
  let ?d = "Map.empty(''t'' \<mapsto> [(''a.yaml'', ''A'')])"
  let ?io = "\<lparr>fault = (\<lambda>n. n = 4), residue = (\<lambda>_. None), half_written = (\<lambda>_. None)\<rparr>"
  let ?fetch = "\<lambda>_ _. Inr \<lparr>ar_entries = [\<lparr>tar_regular = True, tar_path = ''r/template/b/index.yaml'',
           tar_contents = Some ''B''\<rparr>], ar_broken = False\<rparr>"
  have e: "fst (fst (sync_templates ?io (\<lambda>_. None) ''now'' ''t'' ?fetch [] [] ?d)) = Some MoveAside"
    and n: "snd (sync_templates ?io (\<lambda>_. None) ''now'' ''t'' ?fetch [] [] ?d) ''t'' \<noteq> None"
    by code_simp+
  then obtain st c d' where "sync_templates ?io (\<lambda>_. None) ''now'' ''t'' ?fetch [] [] ?d = ((Some MoveAside, st, c), d')"
    by (metis prod.collapse)
  with failed_sync_keeps_market [OF this] e n show ?thesis by (auto simp: Let_def)
qed

section \<open>What a sync that succeeds leaves\<close>

text \<open>The files of the archive: the last entry with a name wins.\<close>

fun staged_files :: "tar_entry list \<Rightarrow> directory \<Rightarrow> directory" where
  "staged_files [] dir = dir"
| "staged_files (e # es) dir =
     staged_files es
       (case (if tar_regular e then template_path_name (tar_path e) else None, tar_contents e) of
          (Some name, Some c) \<Rightarrow> AList.update (name @ ''.yaml'') (take max_template_bytes c) dir
        | _ \<Rightarrow> dir)"

lemma write_file_ok:
  "write_file io n p f c d = (True, d') \<Longrightarrow> d p = Some dir \<Longrightarrow> d' p = Some (AList.update f c dir)"
  by (auto simp: write_file_def split: if_splits)

lemma extract_archive_ok:
  "extract_archive io n p es brk k d = ((Inr k', n'), d') \<Longrightarrow> d p = Some dir \<Longrightarrow>
     d' p = Some (staged_files es dir)"
proof (induction es arbitrary: n k d dir)
  case (Cons e es)
  consider "\<not> tar_regular e" | "tar_regular e" "template_path_name (tar_path e) = None"
    | name where "tar_regular e" "template_path_name (tar_path e) = Some name" by auto
  then show ?case
  proof cases
    case 3
    then obtain c where c: "tar_contents e = Some c" using Cons.prems by (cases "tar_contents e") auto
    obtain ok d1 where w: "write_file io n p (name @ ''.yaml'') (take max_template_bytes c) d = (ok, d1)" by force
    with 3 c Cons.prems have "ok" "extract_archive io (Suc n) p es brk (Suc k) d1 = ((Inr k', n'), d')"
      by (auto split: if_splits)
    with 3 c w Cons show ?thesis using write_file_ok by auto
  qed (use Cons in auto)
qed (auto split: if_splits)

lemma swap_in_ok:
  assumes "swap_in io n dir d = ((None, n'), d')"
  shows "d' dir = d (dir @ ''.new'') \<and> d' (dir @ ''.new'') = None"
proof -
  let ?st = "dir @ ''.new''" and ?pr = "dir @ ''.old''"
  define d1 where "d1 = snd (remove_all io n ?pr d)"
  obtain okr where rem: "remove_all io n ?pr d = (okr, d1)" by (metis d1_def prod.collapse)
  obtain ok d2 where r1: "(if d1 dir \<noteq> None then rename_dir io (n + 1) dir ?pr d1 else (True, d1)) = (ok, d2)"
    by force
  obtain ok' d3 where r2: "rename_dir io (n + 2) ?st dir d2 = (ok', d3)" by force
  have "swap_in io n dir d = (if \<not> ok then ((Some MoveAside, n + 2), d2)
     else if \<not> ok' then ((Some MoveIn, n + 4), snd (rename_dir io (n + 3) ?pr dir d3))
     else ((None, n + 4), snd (remove_all io (n + 3) ?pr d3)))"
    unfolding swap_in_def Let_def rem prod.case r1 r2 ..
  with assms have ok: "ok" "ok'" "d' = snd (remove_all io (n + 3) ?pr d3)"
    by (auto split: if_splits)
  have st: "?st \<noteq> ?pr" by simp
  have "d2 ?st = d1 ?st"
    using r1 rename_dir_other [of ?st dir ?pr io "n + 1" d1] st by (auto split: if_splits)
  moreover have "d1 ?st = d ?st" using st by (simp add: d1_def remove_all_other)
  moreover have "d3 dir = d2 ?st" "d3 ?st = None"
    using rename_dir_moved [of io "n + 2" ?st dir d2 d3] r2 ok by auto
  ultimately show ?thesis using st by (simp add: ok(3) remove_all_other)
qed

text \<open>
  A sync that succeeds replaces the whole market: it holds exactly the templates of the
  archive (besides the status file), none of the previous market survives, the staging
  directory is gone and the cache of parsed templates was emptied.
\<close>

theorem sync_replaces_market:
  assumes "sync_templates io encode now dir fetch repo0 branch0 d = ((None, st, cleared), d')"
  shows "cleared \<and> 0 < st_count st \<and> d' (dir @ ''.new'') = None \<and>
    (\<exists>ar files. fetch (st_repo st) (st_branch st) = Inr ar \<and> d' dir = Some files \<and>
      (\<forall>f. f \<noteq> ''repo.json'' \<longrightarrow> map_of files f = map_of (staged_files (ar_entries ar) []) f))"
proof -
  let ?st = "dir @ ''.new''"
  let ?repo = "if repo0 = [] then default_template_repo else repo0"
  let ?br = "if branch0 = [] then default_template_branch else branch0"
  obtain ar where ar: "fetch ?repo ?br = Inr ar"
    using assms by (cases "fetch ?repo ?br") (auto simp: sync_templates_def)
  obtain ok1 d1 where r1: "remove_all io 0 ?st d = (ok1, d1)" by force
  obtain ok2 d2 where r2: "mkdir_all io 1 ?st d1 = (ok2, d2)" by force
  obtain res n d3 where x: "extract_archive io 2 ?st (ar_entries ar) (ar_broken ar) 0 d2 = ((res, n), d3)"
    by (metis prod.collapse)
  obtain err n' d4 where sw: "swap_in io n dir d3 = ((err, n'), d4)" by (metis prod.collapse)
  define st' where "st' k = \<lparr>st_repo = ?repo, st_branch = ?br, st_count = k, st_updated_at = now\<rparr>" for k
  have "ok1" "ok2" using assms ar r1 r2 by (auto simp: sync_templates_def Let_def split: if_splits)
  moreover obtain k where res: "res = Inr k"
    using assms ar r1 r2 x calculation by (cases res) (auto simp: sync_templates_def Let_def)
  moreover have "k \<noteq> 0"
    using assms ar r1 r2 x calculation by (cases "k = 0") (auto simp: sync_templates_def Let_def)
  moreover have "err = None"
    using assms ar r1 r2 x sw calculation by (cases err) (auto simp: sync_templates_def Let_def)
  ultimately have main: "st = st' k" "cleared"
    "d' = (case encode (st' k) of None \<Rightarrow> d4 | Some t \<Rightarrow> snd (write_file io n' dir ''repo.json'' t d4))"
    using assms ar r1 r2 x sw unfolding st'_def by (auto simp: sync_templates_def Let_def)
  have "d1 ?st = None" using r1 \<open>ok1\<close> by (auto simp: remove_all_def split: if_splits)
  then have "d2 ?st = Some []" using r2 \<open>ok2\<close> by (auto simp: mkdir_all_def split: if_splits)
  then have "d3 ?st = Some (staged_files (ar_entries ar) [])"
    using extract_archive_ok x res by blast
  then have d4: "d4 dir = Some (staged_files (ar_entries ar) [])" "d4 ?st = None"
    using swap_in_ok [of io n dir d3 n' d4] sw \<open>err = None\<close> by auto
  then have "d' ?st = None" by (auto simp: main(3) write_file_other split: option.split)
  moreover have "\<exists>files. d' dir = Some files \<and>
      (\<forall>f. f \<noteq> ''repo.json'' \<longrightarrow> map_of files f = map_of (staged_files (ar_entries ar) []) f)"
    using d4(1) by (auto simp: main(3) write_file_def update_conv' split: option.split)
  moreover have "fetch (st_repo st) (st_branch st) = Inr ar" using ar by (simp add: main(1) st'_def)
  ultimately show ?thesis using main \<open>k \<noteq> 0\<close> by (auto simp: st'_def)
qed

theorem sync_replaces_market_witness:
  "let d = Map.empty(''t'' \<mapsto> [(''a.yaml'', ''A'')]);
       io = \<lparr>fault = (\<lambda>n. False), residue = (\<lambda>_. None), half_written = (\<lambda>_. None)\<rparr>;
       fetch = (\<lambda>_ _. Inr \<lparr>ar_entries = [\<lparr>tar_regular = True, tar_path = ''r/template/b/index.yaml'',
           tar_contents = Some ''B''\<rparr>], ar_broken = False\<rparr>);
       r = sync_templates io (\<lambda>_. None) ''now'' ''t'' fetch [] [] d
   in fst (fst r) = None \<and> (\<exists>files. snd r ''t'' = Some files \<and> map_of files ''a.yaml'' = None)"
proof -
  let ?d = "Map.empty(''t'' \<mapsto> [(''a.yaml'', ''A'')])"
  let ?io = "\<lparr>fault = (\<lambda>n. False), residue = (\<lambda>_. None), half_written = (\<lambda>_. None)\<rparr>"
  let ?fetch = "\<lambda>_ _. Inr \<lparr>ar_entries = [\<lparr>tar_regular = True, tar_path = ''r/template/b/index.yaml'',
           tar_contents = Some ''B''\<rparr>], ar_broken = False\<rparr>"
  have "fst (fst (sync_templates ?io (\<lambda>_. None) ''now'' ''t'' ?fetch [] [] ?d)) = None"
    by code_simp
  then obtain st c d' where r: "sync_templates ?io (\<lambda>_. None) ''now'' ''t'' ?fetch [] [] ?d = ((None, st, c), d')"
    by (metis prod.collapse)
  have "template_path_name ''r/template/b/index.yaml'' = Some ''b''" by code_simp
  with sync_replaces_market [OF r] obtain files where "d' ''t'' = Some files" "map_of files ''a.yaml'' = None"
    by (auto elim!: allE [of _ "''a.yaml''"])
  then show ?thesis by (simp add: r)
qed

section \<open>Documents\<close>

lemma split_documents_lines:
  "\<forall>l \<in> set ls. \<not> is_separator l \<Longrightarrow>
     split_documents current (ls @ ''---'' # rest) = join [newline] (current @ ls) # split_documents [] rest"
proof (induction ls arbitrary: current)
  case Nil
  then show ?case by (simp add: is_separator_def trim_right_set_def)
qed simp

lemma split_documents_last:
  "\<forall>l \<in> set ls. \<not> is_separator l \<Longrightarrow> split_documents current ls = [join [newline] (current @ ls)]"
  by (induction ls arbitrary: current) auto

lemma split_documents_concat:
  "docs \<noteq> [] \<Longrightarrow> \<forall>ls \<in> set docs. \<forall>l \<in> set ls. \<not> is_separator l \<Longrightarrow>
     split_documents [] (join [''---''] docs) = map (join [newline]) docs"
proof (induction "[''---'']" docs rule: join.induct)
  case (2 x)
  then show ?case by (simp add: split_documents_last)
next
  case (3 x y zs)
  then show ?case using split_documents_lines [of x "[]" "join [''---''] (y # zs)"] by simp
qed simp

lemma join_append: "xs \<noteq> [] \<Longrightarrow> ys \<noteq> [] \<Longrightarrow> join sep (xs @ ys) = join sep xs @ sep @ join sep ys"
proof (induction sep xs rule: join.induct)
  case (2 sep x)
  then show ?case by (cases ys) auto
qed auto

lemma split_on_document_separator:
  "docs \<noteq> [] \<Longrightarrow> split_on newline (join document_separator docs) = join [''---''] (map (split_on newline) docs)"
proof (induction document_separator docs rule: join.induct)
  case (3 x y zs)
  let ?r = "join document_separator (y # zs)"
  have "x @ document_separator @ ?r = join [newline] (split_on newline x @ ''---'' # split_on newline ?r)"
    using join_append [of "split_on newline x" "''---'' # split_on newline ?r" "[newline]"]
      join_append [of "[''---'']" "split_on newline ?r" "[newline]"]
    by (simp add: document_separator_def)
  moreover have "\<forall>t \<in> set (split_on newline x @ ''---'' # split_on newline ?r). newline \<notin> set t"
    using split_on_no_sep [of newline x] split_on_no_sep [of newline ?r] by auto
  ultimately have "split_on newline (x @ document_separator @ ?r) = split_on newline x @ ''---'' # split_on newline ?r"
    using split_on_join [of "split_on newline x @ ''---'' # split_on newline ?r" newline] by simp
  then show ?case using 3 by simp
qed simp_all

text \<open>
  Documents written one after the other with a separator line between them are cut back
  into the same documents.
\<close>

theorem split_yaml_join:
  assumes "docs \<noteq> []"
    and "\<forall>d \<in> set docs. CHR 0x0D \<notin> set d \<and> (\<forall>l \<in> set (split_on newline d). \<not> is_separator l)"
  shows "split_yaml_documents (join (newline # ''---'' @ [newline]) docs) = docs"
proof -
  have "set (join sep docs) \<subseteq> set sep \<union> \<Union> (set ` set docs)" for sep
    by (induction sep docs rule: join.induct) auto
  then have "CHR 0x0D \<notin> set (join document_separator docs)"
    using assms(2) by (fastforce simp: document_separator_def)
  then have "\<not> contains (join document_separator docs) [CHR 0x0D, newline]"
    by (auto simp: contains_iff)
  then have "split_yaml_documents (join document_separator docs)
      = split_documents [] (join [''---''] (map (split_on newline) docs))"
    by (simp add: split_yaml_documents_def replace_all_id split_on_document_separator assms(1))
  also have "\<dots> = map (join [newline]) (map (split_on newline) docs)"
    using assms by (intro split_documents_concat) auto
  finally show ?thesis by (simp add: document_separator_def comp_def)
qed

theorem split_yaml_join_witness:
  "split_yaml_documents (join (newline # ''---'' @ [newline]) [''a: 1'', ''b: ---'']) = [''a: 1'', ''b: ---'']"
  by (rule split_yaml_join) (simp_all add: is_separator_def trim_right_set_def)

section \<open>The cache\<close>

text \<open>
  A cache agrees with the disk when what it holds for a path at the path's current
  modification time is what parsing the file gives; a cached name is the file's name.
\<close>

definition cache_agrees ::
  "(string \<Rightarrow> template_document option) \<Rightarrow> template_files \<Rightarrow> (string \<Rightarrow> string) \<Rightarrow> template_cache \<Rightarrow> bool" where
  "cache_agrees unmarshal fs name_of cache \<longleftrightarrow>
     (\<forall>file t m. cache file = Some (t, m) \<and> stat fs file = Some m \<longrightarrow>
        (\<exists>c. read_file fs file = Some c \<and> parse_template_file unmarshal (name_of file) c = Ok t))"

text \<open>
  Reading through the cache gives what reading and parsing the file gives, and the cache
  stays in agreement with the disk.
\<close>

theorem load_through_cache:
  assumes "cache_agrees unmarshal fs name_of cache" and "name_of file = name"
  shows "fst (load_template_file unmarshal fs file name cache)
        = fst (load_template_file unmarshal fs file name Map.empty)
      \<and> cache_agrees unmarshal fs name_of (snd (load_template_file unmarshal fs file name cache))"
proof (cases "stat fs file")
  case None
  with assms(1) show ?thesis by (simp add: load_template_file_def)
next
  case (Some m)
  show ?thesis
  proof (cases "\<exists>t. cache file = Some (t, m)")
    case True
    then obtain t where t: "cache file = Some (t, m)" by blast
    then obtain c where "read_file fs file = Some c" "parse_template_file unmarshal name c = Ok t"
      using assms Some by (auto simp: cache_agrees_def)
    with t Some assms(1) show ?thesis by (simp add: load_template_file_def)
  next
    case False
    then have "(case cache file of Some (t, m') \<Rightarrow> if m' = m then Some t else None | None \<Rightarrow> None) = None"
      by (auto split: option.split)
    with Some assms show ?thesis
      by (auto simp: load_template_file_def cache_agrees_def split: option.splits sum.splits)
  qed
qed

theorem load_through_cache_witness:
  "fst (load_template_file (\<lambda>_. None) \<lparr>stat = (\<lambda>_. Some 3), read_file = (\<lambda>_. Some [])\<rparr> ''f'' ''n'' Map.empty)
     = Err (BadYaml ''n'')"
  using load_through_cache [of "\<lambda>_. None" "\<lparr>stat = (\<lambda>_. Some 3), read_file = (\<lambda>_. Some [])\<rparr>" "\<lambda>_. ''n''" Map.empty "''f''" "''n''"]
  by (simp add: cache_agrees_def load_template_file_def parse_template_file_def split_yaml_documents_def replace_all.simps)

end
