(* ===== verification/GoNet.thy ===== *)
theory GoNet
  imports GoConv
begin

text \<open>
  The part of Go's package net that the modelled code calls: \<open>SplitHostPort\<close>,
  \<open>JoinHostPort\<close>, and \<open>ParseIP\<close> with \<open>To4\<close>, \<open>IsLoopback\<close> and the dotted \<open>String\<close>.
\<close>

section \<open>Host and port\<close>

definition split_host_port :: "string \<Rightarrow> (string \<times> string) option" where
  "split_host_port s =
     (case last_index s (CHR '':'') of
        None \<Rightarrow> None
      | Some i \<Rightarrow>
          if has_prefix s ''['' then
            (case index_of s '']'' of
               None \<Rightarrow> None
             | Some e \<Rightarrow>
                 if e + 1 \<noteq> i then None
                 else if CHR ''['' \<in> set (drop 1 s) \<or> CHR '']'' \<in> set (drop (e + 1) s) then None
                 else Some (take (e - 1) (drop 1 s), drop (i + 1) s))
          else if CHR '':'' \<in> set (take i s) \<or> CHR ''['' \<in> set s \<or> CHR '']'' \<in> set s then None
          else Some (take i s, drop (i + 1) s))"

definition join_host_port :: "string \<Rightarrow> string \<Rightarrow> string" where
  "join_host_port host port =
     (if CHR '':'' \<in> set host then ''['' @ host @ '']:'' @ port else host @ '':'' @ port)"

lemma split_join_host_port_plain:
  assumes "CHR '':'' \<notin> set h" "CHR '':'' \<notin> set p"
    and "CHR ''['' \<notin> set h" "CHR '']'' \<notin> set h" "CHR ''['' \<notin> set p" "CHR '']'' \<notin> set p"
  shows "split_host_port (join_host_port h p) = Some (h, p)"
proof -
  have "\<not> has_prefix (h @ CHR '':'' # p) ''[''"
    using assms(3) by (cases h) auto
  moreover have "last_index (h @ CHR '':'' # p) (CHR '':'') = Some (length h)"
    using assms(2) by (rule last_index_snoc)
  ultimately show ?thesis
    using assms by (simp add: split_host_port_def join_host_port_def)
qed

section \<open>Addresses\<close>

text \<open>An address is its 16 bytes, as in \<open>net.IP\<close>; an IPv4 address is mapped into ::ffff:0:0/96.\<close>

type_synonym ip = "nat list"

text \<open>\<open>parseIPv4Fields\<close>: four decimal fields of at most 255, no leading zeros.\<close>

definition parse_ipv4_field :: "string \<Rightarrow> nat option" where
  "parse_ipv4_field f =
     (if f = [] \<or> \<not> list_all is_digit f \<or> 3 < length f \<or> (1 < length f \<and> hd f = CHR ''0'') then None
      else case parse_digits f of Some n \<Rightarrow> if n \<le> 255 then Some n else None | None \<Rightarrow> None)"

definition parse_ipv4_fields :: "string \<Rightarrow> nat list option" where
  "parse_ipv4_fields s =
     (case map parse_ipv4_field (split_on (CHR ''.'') s) of
        [Some a, Some b, Some c, Some d] \<Rightarrow> Some [a, b, c, d]
      | _ \<Rightarrow> None)"

definition v4_prefix :: "nat list" where
  "v4_prefix = replicate 10 0 @ [255, 255]"

definition hex_value :: "char \<Rightarrow> nat option" where
  "hex_value c =
     (if is_digit c then Some (of_char c - 48)
      else if CHR ''a'' \<le> c \<and> c \<le> CHR ''f'' then Some (of_char c - 87)
      else if CHR ''A'' \<le> c \<and> c \<le> CHR ''F'' then Some (of_char c - 55)
      else None)"

definition hex_group :: "string \<Rightarrow> nat" where
  "hex_group ds = foldl (\<lambda>a c. a * 16 + the (hex_value c)) 0 ds"

text \<open>
  The loop of \<open>netip.parseIPv6\<close>: \<open>n\<close> groups of two bytes may still be read, \<open>acc\<close> holds the
  bytes so far and \<open>ell\<close> the position of the ellipsis. Each round reads one group.
\<close>

fun parse_groups :: "nat \<Rightarrow> string \<Rightarrow> nat list \<Rightarrow> nat option \<Rightarrow> (nat list \<times> nat option \<times> string) option" where
  "parse_groups 0 s acc ell = Some (acc, ell, s)"
| "parse_groups (Suc n) s acc ell =
     (let ds = takeWhile (\<lambda>c. hex_value c \<noteq> None) s; r = dropWhile (\<lambda>c. hex_value c \<noteq> None) s in
      if ds = [] \<or> 4 < length ds then None
      else if has_prefix r ''.'' then
        (if ell = None \<and> length acc \<noteq> 12 \<or> 16 < length acc + 4 then None
         else case parse_ipv4_fields s of None \<Rightarrow> None | Some bs \<Rightarrow> Some (acc @ bs, ell, []))
      else
        let acc' = acc @ [hex_group ds div 256, hex_group ds mod 256] in
        case r of
          [] \<Rightarrow> Some (acc', ell, [])
        | c # r' \<Rightarrow>
            if c \<noteq> CHR '':'' \<or> r' = [] then None
            else if has_prefix r' '':'' then
              (if ell \<noteq> None then None
               else if tl r' = [] then Some (acc', Some (length acc'), [])
               else parse_groups n (tl r') acc' (Some (length acc')))
            else parse_groups n r' acc' ell)"

definition parse_ipv6 :: "string \<Rightarrow> ip option" where
  "parse_ipv6 s =
     (if s = ''::'' then Some (replicate 16 0)
      else case (if has_prefix s ''::'' then parse_groups 8 (drop 2 s) [] (Some 0)
                 else parse_groups 8 s [] None) of
        None \<Rightarrow> None
      | Some (bs, ell, rest) \<Rightarrow>
          if rest \<noteq> [] then None
          else if length bs < 16 then
            (case ell of
               None \<Rightarrow> None
             | Some e \<Rightarrow> Some (take e bs @ replicate (16 - length bs) 0 @ drop e bs))
          else if ell \<noteq> None then None else Some bs)"

text \<open>
  \<open>net.ParseIP\<close>: the first of the characters dot, colon and percent decides how the rest is read, and
  an address with a zone is not an IP.
\<close>

definition parse_ip :: "string \<Rightarrow> ip option" where
  "parse_ip s =
     (case filter (\<lambda>c. c \<in> {CHR ''.'', CHR '':'', CHR ''%''}) s of
        [] \<Rightarrow> None
      | c # _ \<Rightarrow>
          if c = CHR ''.'' then map_option (\<lambda>bs. v4_prefix @ bs) (parse_ipv4_fields s)
          else if c = CHR '':'' then (if CHR ''%'' \<in> set s then None else parse_ipv6 s)
          else None)"

definition to4 :: "ip \<Rightarrow> nat list option" where
  "to4 ip = (if length ip = 16 \<and> take 12 ip = v4_prefix then Some (drop 12 ip) else None)"

definition is_loopback :: "ip \<Rightarrow> bool" where
  "is_loopback ip =
     (case to4 ip of Some bs \<Rightarrow> bs ! 0 = 127 | None \<Rightarrow> ip = replicate 15 0 @ [1])"

definition dotted :: "nat list \<Rightarrow> string" where
  "dotted bs = join ''.'' (map (\<lambda>b. itoa (int b)) bs)"

lemma length_parse_ipv4: "parse_ipv4_fields s = Some bs \<Longrightarrow> length bs = 4"
  by (auto simp: parse_ipv4_fields_def split: list.splits option.splits)

lemma to4_v4 [simp]: "length bs = 4 \<Longrightarrow> to4 (v4_prefix @ bs) = Some bs"
  by (simp add: to4_def v4_prefix_def)

end
