(* ===== verification/AppGateway.thy ===== *)
theory AppGateway
  imports GoNet
begin

text \<open>
  The names the app gateway answers for and the rewriting of a template's addresses
  (controllers/app_gateway.go), with the guess of a cloud domain (controllers/template.go).
  The regular expressions are written out as matchers.
\<close>

section \<open>The gateway's names\<close>

definition is_lower_letter :: "char \<Rightarrow> bool" where
  "is_lower_letter c \<longleftrightarrow> 97 \<le> (of_char c :: nat) \<and> (of_char c :: nat) \<le> 122"

definition host_label_char :: "char \<Rightarrow> bool" where
  "host_label_char c \<longleftrightarrow> is_lower_letter c \<or> is_digit c \<or> c = CHR ''-''"

text \<open>\<open>\d{1,3}-\d{1,3}-\d{1,3}-\d{1,3}\<close>.\<close>

definition dashed_ipv4 :: "string \<Rightarrow> bool" where
  "dashed_ipv4 s \<longleftrightarrow>
     (let fs = split_on (CHR ''-'') s in
      length fs = 4 \<and> (\<forall>f \<in> set fs. 1 \<le> length f \<and> length f \<le> 3 \<and> list_all is_digit f))"

text \<open>The labels before the dashed address, when the name is one under \<open>sslip.io\<close>.\<close>

definition sslip_labels :: "string \<Rightarrow> string list option" where
  "sslip_labels domain =
     (case rev (split_on (CHR ''.'') domain) of
        io # sslip # addr # labels \<Rightarrow>
          if io = ''io'' \<and> sslip = ''sslip'' \<and> dashed_ipv4 addr
             \<and> (\<forall>l \<in> set labels. l \<noteq> [] \<and> list_all host_label_char l)
          then Some (rev labels) else None
      | _ \<Rightarrow> None)"

definition is_app_gateway_domain :: "string \<Rightarrow> bool" where
  "is_app_gateway_domain domain0 =
     (let domain = to_lower domain0 in
      domain = ''localhost'' \<or> has_suffix domain ''.localhost'' \<or> sslip_labels domain \<noteq> None)"

definition host_name :: "string \<Rightarrow> string" where
  "host_name host = (case split_host_port host of Some (name, _) \<Rightarrow> name | None \<Rightarrow> host)"

definition is_app_gateway_host :: "string \<Rightarrow> bool" where
  "is_app_gateway_host host0 =
     (let host = to_lower (host_name host0) in
      has_suffix host ''.localhost'' \<or>
      (case sslip_labels host of Some ls \<Rightarrow> ls \<noteq> [] | None \<Rightarrow> False))"

section \<open>Rewriting addresses\<close>

definition alnum :: "char \<Rightarrow> bool" where
  "alnum c \<longleftrightarrow> is_digit c \<or> is_lower_letter (lower_char c)"

definition word_char :: "char \<Rightarrow> bool" where
  "word_char c \<longleftrightarrow> alnum c \<or> c = CHR ''_''"

text \<open>\<open>(?:[A-Za-z0-9-]+\.)*\<close> at the start of \<open>s\<close>: the lengths it can match, longest first.\<close>

function label_lengths :: "string \<Rightarrow> nat list" where
  "label_lengths s =
     (let n = length (takeWhile (\<lambda>c. alnum c \<or> c = CHR ''-'') s) in
      if 0 < n \<and> has_prefix (drop n s) ''.'' then map (\<lambda>m. n + 1 + m) (label_lengths (drop (n + 1) s)) @ [0]
      else [0])"
  by pat_completeness auto
termination
proof (relation "measure length")
  fix s n assume "n = length (takeWhile (\<lambda>c. alnum c \<or> c = CHR ''-'') s)" "0 < n \<and> has_prefix (drop n s) ''.''"
  then have "s \<noteq> []" by auto
  then show "(drop (n + 1) s, s) \<in> measure length" by (cases s) auto
qed simp

declare label_lengths.simps [simp del]

text \<open>
  \<open>(?::443)?([^A-Za-z0-9.:-]|$)\<close> at the start of \<open>s\<close>: the second group and the text after it.
  The group is one character; its first byte stands for it, the others are copied behind it.
\<close>

definition match_delim :: "string \<Rightarrow> (string \<times> string) option" where
  "match_delim s =
     (case s of
        [] \<Rightarrow> Some ([], [])
      | c # cs \<Rightarrow> if alnum c \<or> c \<in> {CHR ''.'', CHR '':'', CHR ''-''} then None else Some ([c], cs))"

definition match_after_host :: "string \<Rightarrow> (string \<times> string) option" where
  "match_after_host s =
     (if has_prefix s '':443'' then
        (case match_delim (drop 4 s) of Some r \<Rightarrow> Some r | None \<Rightarrow> match_delim s)
      else match_delim s)"

text \<open>The groups of the pattern behind its scheme: the host, the delimiter, the rest.\<close>

fun first_host :: "string \<Rightarrow> string \<Rightarrow> nat list \<Rightarrow> (string \<times> string \<times> string) option" where
  "first_host domain s [] = None"
| "first_host domain s (n # ns) =
     (case (if has_prefix (drop n s) domain then match_after_host (drop (n + length domain) s) else None) of
        Some (d, r) \<Rightarrow> Some (take n s @ domain, d, r)
      | None \<Rightarrow> first_host domain s ns)"

definition match_gateway_host :: "string \<Rightarrow> string \<Rightarrow> (string \<times> string \<times> string) option" where
  "match_gateway_host domain s = first_host domain s (label_lengths s)"

lemma match_delim_length: "match_delim s = Some (d, r) \<Longrightarrow> length r \<le> length s"
  by (auto simp: match_delim_def split: list.splits if_splits)

lemma match_after_host_length: "match_after_host s = Some (d, r) \<Longrightarrow> length r \<le> length s"
  by (auto simp: match_after_host_def split: if_splits option.splits dest!: match_delim_length)

lemma first_host_length: "first_host domain s ns = Some (h, d, r) \<Longrightarrow> length r \<le> length s"
  by (induction domain s ns rule: first_host.induct)
     (force split: if_splits option.splits dest!: match_after_host_length)+

lemma match_gateway_host_length:
  "match_gateway_host domain s = Some (h, d, r) \<Longrightarrow> length r \<le> length s"
  by (simp add: match_gateway_host_def first_host_length)

text \<open>
  \<open>ReplaceAllString\<close>: \<open>scheme\<close> at a word boundary (its first character is a word character,
  so the one before must not be), then a host of the domain. \<open>prev\<close> is whether the character
  before the position is a word character.
\<close>

function rewrite_scheme :: "string \<Rightarrow> string \<Rightarrow> string \<Rightarrow> string \<Rightarrow> bool \<Rightarrow> string \<Rightarrow> string" where
  "rewrite_scheme scheme new domain suffix prev s =
     (case (if scheme \<noteq> [] \<and> \<not> prev \<and> has_prefix s scheme then match_gateway_host domain (drop (length scheme) s) else None) of
        Some (host, delim, rest) \<Rightarrow>
          new @ host @ suffix @ delim @
          rewrite_scheme scheme new domain suffix (delim \<noteq> [] \<and> word_char (last delim)) rest
      | None \<Rightarrow>
          (case s of [] \<Rightarrow> []
           | c # cs \<Rightarrow> c # rewrite_scheme scheme new domain suffix (word_char c) cs))"
  by pat_completeness auto
termination
  by (relation "measure (\<lambda>(scheme, new, domain, suffix, prev, s). length s)")
     (auto split: if_splits simp: has_prefix_iff dest!: match_gateway_host_length intro: le_less_trans simp flip: length_greater_0_conv)

declare rewrite_scheme.simps [simp del]

definition app_gateway_addresses :: "string \<Rightarrow> string \<Rightarrow> string \<Rightarrow> string" where
  "app_gateway_addresses text domain port_suffix =
     rewrite_scheme ''wss://'' ''ws://'' domain port_suffix False
       (rewrite_scheme ''https://'' ''http://'' domain port_suffix False text)"

definition app_gateway_port_suffix :: "string \<Rightarrow> string \<Rightarrow> string" where
  "app_gateway_port_suffix domain request_host =
     (if \<not> is_app_gateway_domain domain then []
      else case split_host_port request_host of
        None \<Rightarrow> []
      | Some (_, port) \<Rightarrow> if port = [] \<or> port = ''80'' then [] else '':'' @ port)"

definition default_cloud_domain :: "string \<Rightarrow> string" where
  "default_cloud_domain host0 =
     (let host = trim_set (host_name host0) ''[]'' in
      if host = [] then ''cluster.local''
      else case parse_ip host of
        None \<Rightarrow> host
      | Some ip \<Rightarrow>
          if is_loopback ip then ''localhost''
          else case to4 ip of
            Some bs \<Rightarrow> replace_all (dotted bs) ''.'' ''-'' @ ''.sslip.io''
          | None \<Rightarrow> host)"

section \<open>A guessed domain is one the gateway answers for\<close>

lemma parse_ipv4_field_byte: "parse_ipv4_field f = Some n \<Longrightarrow> n \<le> 255"
  by (auto simp: parse_ipv4_field_def split: if_splits option.splits)

lemma parse_ipv4_fields_bytes: "parse_ipv4_fields s = Some bs \<Longrightarrow> length bs = 4 \<and> (\<forall>b \<in> set bs. b \<le> 255)"
proof -
  assume s: "parse_ipv4_fields s = Some bs"
  then have m: "map parse_ipv4_field (split_on (CHR ''.'') s) = map Some bs"
    by (auto simp: parse_ipv4_fields_def split: list.splits option.splits)
  have "\<forall>x \<in> set (map parse_ipv4_field (split_on (CHR ''.'') s)). \<forall>n. x = Some n \<longrightarrow> n \<le> 255"
    using parse_ipv4_field_byte by auto
  then have "\<forall>b \<in> set bs. b \<le> 255" unfolding m by auto
  then show ?thesis using length_parse_ipv4 [OF s] by simp
qed

lemma hex_value_lt: "hex_value c = Some n \<Longrightarrow> n < 16"
proof -
  have "is_digit c \<Longrightarrow> (of_char c :: nat) - 48 < 16"
    by (auto simp: is_digit_def less_eq_char_def)
  moreover have "CHR ''a'' \<le> c \<Longrightarrow> c \<le> CHR ''f'' \<Longrightarrow> (of_char c :: nat) - 87 < 16"
    by (auto simp: less_eq_char_def)
  moreover have "CHR ''A'' \<le> c \<Longrightarrow> c \<le> CHR ''F'' \<Longrightarrow> (of_char c :: nat) - 55 < 16"
    by (auto simp: less_eq_char_def)
  ultimately show "hex_value c = Some n \<Longrightarrow> n < 16" by (auto simp: hex_value_def split: if_splits)
qed

lemma hex_fold_bound:
  "\<forall>c \<in> set ds. hex_value c \<noteq> None \<Longrightarrow>
     foldl (\<lambda>a c. a * 16 + the (hex_value c)) a ds < (a + 1) * 16 ^ length ds"
proof (induction ds arbitrary: a)
  case (Cons c ds)
  then obtain n where n: "hex_value c = Some n" "n < 16" using hex_value_lt by auto
  have "foldl (\<lambda>a c. a * 16 + the (hex_value c)) (a * 16 + n) ds < (a * 16 + n + 1) * 16 ^ length ds"
    using Cons by auto
  also have "\<dots> \<le> ((a + 1) * 16) * 16 ^ length ds" using n by (intro mult_right_mono) auto
  finally show ?case using n by (simp add: algebra_simps)
qed simp

lemma hex_group_bound:
  assumes "\<forall>c \<in> set ds. hex_value c \<noteq> None" and "length ds \<le> 4"
  shows "hex_group ds div 256 \<le> 255"
proof -
  have "hex_group ds < 1 * 16 ^ length ds" using hex_fold_bound [OF assms(1), of 0] by (simp add: hex_group_def)
  also have "\<dots> \<le> 16 ^ 4" unfolding mult_1 using assms(2) by (intro power_increasing) auto
  finally show ?thesis by simp
qed

lemma parse_groups_bytes:
  "parse_groups n s acc ell = Some (bs, e, r) \<Longrightarrow> \<forall>b \<in> set acc. b \<le> 255 \<Longrightarrow> \<forall>b \<in> set bs. b \<le> 255"
proof (induction n arbitrary: s acc ell)
  case (Suc n)
  define ds where "ds = takeWhile (\<lambda>c. hex_value c \<noteq> None) s"
  define q where "q = dropWhile (\<lambda>c. hex_value c \<noteq> None) s"
  let ?acc = "acc @ [hex_group ds div 256, hex_group ds mod 256]"
  note run = Suc.prems(1) [unfolded parse_groups.simps Let_def, folded ds_def q_def]
  have ds: "ds \<noteq> []" "length ds \<le> 4" using run by (auto split: if_splits)
  have "\<forall>c \<in> set ds. hex_value c \<noteq> None" unfolding ds_def by (auto dest: set_takeWhileD)
  then have acc: "\<forall>b \<in> set ?acc. b \<le> 255" using hex_group_bound [of ds] ds Suc.prems(2) by auto
  show ?case
  proof (cases "has_prefix q ''.''")
    case True
    with run ds Suc.prems(2) show ?thesis
      by (auto dest!: parse_ipv4_fields_bytes split: if_splits option.splits)
  next
    case False
    show ?thesis
    proof (cases q)
      case Nil
      with run False ds acc show ?thesis by auto
    next
      case (Cons c q')
      with run False ds have "parse_groups n q' ?acc ell = Some (bs, e, r) \<or> bs = ?acc
          \<or> parse_groups n (tl q') ?acc (Some (length ?acc)) = Some (bs, e, r)"
        by (auto split: if_splits)
      with Suc.IH acc show ?thesis by blast
    qed
  qed
qed simp

lemma parse_ip_bytes: "parse_ip s = Some ip \<Longrightarrow> \<forall>b \<in> set ip. b \<le> 255"
  by (auto simp: parse_ip_def parse_ipv6_def v4_prefix_def split: list.splits if_splits option.splits
      dest!: parse_ipv4_fields_bytes parse_groups_bytes, (meson in_set_takeD in_set_dropD)+)

lemma length_itoa_byte: "b \<le> 255 \<Longrightarrow> 1 \<le> length (nat_digits b) \<and> length (nat_digits b) \<le> 3"
proof -
  assume "b \<le> 255"
  then have "b div 10 div 10 < 10" by simp
  then have "length (nat_digits (b div 10 div 10)) = 1" by (subst nat_digits.simps) simp
  then have "length (nat_digits (b div 10)) \<le> 2" by (subst nat_digits.simps) simp
  then show ?thesis using nat_digits_ok [of b] by (subst (1 2) nat_digits.simps) auto
qed

lemma replace_char_join:
  "\<forall>x \<in> set xs. c \<notin> set x \<Longrightarrow> replace_all (join [c] xs) [c] r = join r xs"
proof (induction "[c]" xs rule: join.induct)
  case 1
  then show ?case by (simp add: replace_all.simps)
next
  case (2 x)
  then have "\<not> contains x [c]" by (auto simp: contains_iff)
  then show ?case by (simp add: replace_all_id)
next
  case (3 x y zs)
  have "replace_all (x @ c # s) [c] r = x @ r @ replace_all s [c] r" if "c \<notin> set x" for x s
    using that
  proof (induction x)
    case Nil
    then show ?case by (subst replace_all.simps) simp
  next
    case (Cons a x)
    then show ?case by (subst replace_all.simps) auto
  qed
  with 3 show ?case by simp
qed

lemma digits_lower: "list_all is_digit s \<Longrightarrow> to_lower s = s \<and> CHR ''.'' \<notin> set s \<and> CHR ''-'' \<notin> set s"
  by (induction s) (auto simp: to_lower_def lower_char_def is_digit_def less_eq_char_def)

lemma lower_join: "\<forall>x \<in> set xs. to_lower x = x \<Longrightarrow> to_lower sep = sep \<Longrightarrow> to_lower (join sep xs) = join sep xs"
  by (induction sep xs rule: join.induct) (auto simp: to_lower_def)

lemma dots_join: "c \<notin> set sep \<Longrightarrow> \<forall>x \<in> set xs. c \<notin> set x \<Longrightarrow> c \<notin> set (join sep xs)"
  by (induction sep xs rule: join.induct) auto

lemma sslip_of_bytes:
  assumes "length bs = 4" and "\<forall>b \<in> set bs. b \<le> 255"
  shows "is_app_gateway_domain (replace_all (dotted bs) ''.'' ''-'' @ ''.sslip.io'')"
proof -
  let ?ds = "map nat_digits bs" and ?a = "join ''-'' (map nat_digits bs)"
  have digits: "\<forall>x \<in> set ?ds. list_all is_digit x" using nat_digits_ok by auto
  then have low: "\<forall>x \<in> set ?ds. to_lower x = x" "\<forall>x \<in> set ?ds. CHR ''.'' \<notin> set x" "\<forall>x \<in> set ?ds. CHR ''-'' \<notin> set x"
    using digits_lower by auto
  have "dotted bs = join ''.'' ?ds" by (simp add: dotted_def itoa_def comp_def)
  then have a: "replace_all (dotted bs) ''.'' ''-'' = ?a" using replace_char_join [of ?ds] low(2) by simp
  have "to_lower ''-'' = ''-''" "to_lower ''.sslip.io'' = ''.sslip.io''" by code_simp+
  then have l: "to_lower (?a @ ''.sslip.io'') = ?a @ ''.sslip.io''"
    using lower_join [OF low(1)] by (simp add: to_lower_def)
  have nodot: "CHR ''.'' \<notin> set ?a" using dots_join [of "CHR ''.''" "''-''"] low(2) by simp
  have "split_on (CHR ''-'') ?a = ?ds"
    using split_on_join [of ?ds "CHR ''-''"] low(3) assms(1) by (cases bs) auto
  then have "dashed_ipv4 ?a"
    using assms digits length_itoa_byte by (auto simp: dashed_ipv4_def)
  moreover have "split_on (CHR ''.'') (?a @ ''.sslip.io'') = [?a, ''sslip'', ''io'']"
    using split_on_append [OF nodot] by simp
  ultimately have "sslip_labels (?a @ ''.sslip.io'') = Some []" by (simp add: sslip_labels_def)
  then show ?thesis by (simp add: a is_app_gateway_domain_def l)
qed

text \<open>
  When the reader is on an IPv4 or a loopback address, the domain that is guessed for the
  apps is one the gateway answers for, so every generated app address is reachable.
\<close>

theorem guessed_domain_is_served:
  assumes "parse_ip (trim_set (host_name host) ''[]'') = Some ip" and "is_loopback ip \<or> to4 ip \<noteq> None"
  shows "is_app_gateway_domain (default_cloud_domain host)"
proof -
  have ne: "trim_set (host_name host) ''[]'' \<noteq> []" using assms(1) by (auto simp: parse_ip_def)
  have lo: "is_app_gateway_domain ''localhost''" by code_simp
  show ?thesis
  proof (cases "is_loopback ip")
    case True
    with assms(1) ne lo show ?thesis by (simp add: default_cloud_domain_def)
  next
    case False
    with assms(2) obtain bs where bs: "to4 ip = Some bs" by auto
    then have "length bs = 4" "\<forall>b \<in> set bs. b \<le> 255"
      using parse_ip_bytes [OF assms(1)] by (auto simp: to4_def split: if_splits dest: in_set_dropD)
    with False bs assms(1) ne show ?thesis
      by (simp add: default_cloud_domain_def sslip_of_bytes)
  qed
qed

theorem guessed_domain_is_served_witness:
  "is_app_gateway_domain (default_cloud_domain ''192.168.1.20:9000'')"
  by (rule guessed_domain_is_served [where ip = "v4_prefix @ [192, 168, 1, 20]"]) code_simp+

end
