(* ===== verification/TemplateDeploy.thy ===== *)
theory TemplateDeploy
  imports TemplateRender Market AppGateway
begin

text \<open>
  The rendering half of a deployment (controllers/template.go): the template's own names, the
  form's fields, the manifests; and the record that is kept of an installed app. \<open>k\<close> is the
  position in the source of randomness, as in \<open>TemplateExpr\<close>; a Go map that is only looked up
  is a map, one whose keys are listed is an association list.
\<close>

section \<open>The market's list\<close>

record summary =
  sum_name :: string
  sum_title :: string
  sum_description :: string
  sum_icon :: string
  sum_author :: string
  sum_url :: string
  sum_git_repo :: string
  sum_categories :: "string list"

definition template_language :: "string \<Rightarrow> string" where
  "template_language language = (if has_prefix (to_lower language) ''zh'' then ''zh'' else ''en'')"

definition localized_summary :: "template \<Rightarrow> string \<Rightarrow> summary" where
  "localized_summary t language =
     (let spec = t_spec t;
          s = \<lparr>sum_name = t_name t,
               sum_title = (if spec_title spec = [] then t_name t else spec_title spec),
               sum_description = spec_description spec, sum_icon = spec_icon spec,
               sum_author = spec_author spec, sum_url = spec_url spec,
               sum_git_repo = spec_git_repo spec, sum_categories = spec_categories spec\<rparr>
      in case map_of (spec_i18n spec) language of
           None \<Rightarrow> s
         | Some tr \<Rightarrow>
             s\<lparr>sum_title := (if tr_title tr \<noteq> [] then tr_title tr else sum_title s),
               sum_description :=
                 (if tr_description tr \<noteq> [] then tr_description tr else sum_description s)\<rparr>)"

text \<open>The loop of \<open>GetTemplates\<close>: the summaries shown and the names of all categories.\<close>

definition shown_in_market :: "string \<Rightarrow> string \<Rightarrow> summary \<Rightarrow> bool" where
  "shown_in_market category search s \<longleftrightarrow>
     (category = [] \<or> category = ''all'' \<or> category \<in> set (sum_categories s)) \<and>
     (search = [] \<or>
      contains (to_lower (sum_name s @ '' '' @ sum_title s @ '' '' @ sum_description s)) search)"

definition list_market ::
  "template list \<Rightarrow> string \<Rightarrow> string \<Rightarrow> string \<Rightarrow> summary list \<times> string list" where
  "list_market templates language0 search0 category0 =
     (let language = template_language language0;
          search = to_lower (trim_space search0);
          category = trim_space category0;
          summaries = map (\<lambda>t. localized_summary t language) templates
      in (filter (shown_in_market category search) summaries,
          sort (remdups (concat (map sum_categories summaries)))))"

section \<open>Names and fields\<close>

definition sorted_keys :: "(string \<times> 'a) list \<Rightarrow> string list" where
  "sorted_keys m = sort (remdups (map fst m))"

definition with_data :: "tenv \<Rightarrow> template_data \<Rightarrow> tenv" where
  "with_data env d = env\<lparr>data := d\<rparr>"

fun default_names ::
  "tenv \<Rightarrow> (string \<times> template_value) list \<Rightarrow> (string \<rightharpoonup> string) \<Rightarrow> (string \<rightharpoonup> string) \<Rightarrow> string list
     \<Rightarrow> (string \<rightharpoonup> string) \<Rightarrow> nat \<Rightarrow> (string \<rightharpoonup> string) \<times> nat" where
  "default_names env vs penv given [] acc k = (acc, k)"
| "default_names env vs penv given (key # keys) acc k =
     (case given key of
        Some (c # cs) \<Rightarrow> default_names env vs penv given keys (acc(key \<mapsto> c # cs)) k
      | _ \<Rightarrow>
          (let (v, k) = substitute_placeholders
                 (with_data env \<lparr>Defaults = acc, Inputs = Map.empty, Env = penv\<rparr>)
                 (case map_of vs key of Some v \<Rightarrow> value_text v | None \<Rightarrow> []) k
           in default_names env vs penv given keys (acc(key \<mapsto> v)) k))"

definition rendered_defaults ::
  "tenv \<Rightarrow> template \<Rightarrow> (string \<rightharpoonup> string) \<Rightarrow> (string \<rightharpoonup> string) \<Rightarrow> nat \<Rightarrow> (string \<rightharpoonup> string) \<times> nat" where
  "rendered_defaults env t penv given k =
     (let vs = spec_defaults (t_spec t)
      in default_names env vs penv given (sorted_keys vs) Map.empty k)"

definition condition_holds :: "tenv \<Rightarrow> string \<Rightarrow> nat \<Rightarrow> bool \<times> nat" where
  "condition_holds env condition k =
     (if trim_space condition = [] then (True, k) else condition_true env condition k)"

record input_field =
  f_key :: string
  f_description :: string
  f_type :: string
  f_default :: string
  f_required :: bool
  f_options :: "string list"
  f_if :: string

fun field_list ::
  "tenv \<Rightarrow> (string \<times> template_input) list \<Rightarrow> string list \<Rightarrow> nat \<Rightarrow> input_field list \<times> nat" where
  "field_list env ins [] k = ([], k)"
| "field_list env ins (key # keys) k =
     (case map_of ins key of
        None \<Rightarrow> field_list env ins keys k
      | Some i \<Rightarrow>
          (let (descr, k) = substitute_placeholders env (in_description i) k;
               (dflt, k) = substitute_placeholders env (in_default i) k;
               (fs, k) = field_list env ins keys k
           in (\<lparr>f_key = key, f_description = descr, f_type = in_type i, f_default = dflt,
                f_required = in_required i, f_options = in_options i, f_if = in_if i\<rparr> # fs, k)))"

definition template_input_fields :: "tenv \<Rightarrow> template \<Rightarrow> nat \<Rightarrow> input_field list \<times> nat" where
  "template_input_fields env t k =
     (let ins = spec_inputs (t_spec t) in field_list env ins (sorted_keys ins) k)"

section \<open>The whole rendering\<close>

record deploy_request =
  rq_inputs :: "string \<rightharpoonup> string"
  rq_defaults :: "string \<rightharpoonup> string"

text \<open>The loop over the inputs: their values so far, the required ones left empty.\<close>

fun input_values ::
  "tenv \<Rightarrow> (string \<times> template_input) list \<Rightarrow> (string \<rightharpoonup> string) \<Rightarrow> string list \<Rightarrow> template_data
     \<Rightarrow> nat \<Rightarrow> (template_data \<times> string list) \<times> nat" where
  "input_values env ins given [] d k = ((d, []), k)"
| "input_values env ins given (key # keys) d k =
     (case map_of ins key of
        None \<Rightarrow> input_values env ins given keys d k
      | Some i \<Rightarrow>
          (let (value, k) = (case given key of
                 Some (c # cs) \<Rightarrow> (c # cs, k)
               | _ \<Rightarrow> substitute_placeholders (with_data env d) (in_default i) k);
               (asked, k) =
                 (if in_required i \<and> trim_space value = []
                  then condition_holds (with_data env d) (in_if i) k else (False, k));
               ((d, missing), k) =
                 input_values env ins given keys (d\<lparr>Inputs := (Inputs d)(key \<mapsto> value)\<rparr>) k
           in ((d, if asked then key # missing else missing), k)))"

definition render_template ::
  "tenv \<Rightarrow> template \<Rightarrow> deploy_request \<Rightarrow> (string \<rightharpoonup> string) \<Rightarrow> nat
     \<Rightarrow> (string \<times> template_data \<times> string list \<times> string list) \<times> nat" where
  "render_template env t req penv k =
     (let (defaults, k) = rendered_defaults env t penv (rq_defaults req) k;
          ins = spec_inputs (t_spec t);
          ((d, missing), k) = input_values env ins (rq_inputs req) (sorted_keys ins)
             \<lparr>Defaults = defaults, Inputs = Map.empty, Env = penv\<rparr> k;
          (inst, k) = (case defaults ''app_name'' of
             Some (c # cs) \<Rightarrow> (c # cs, k)
           | _ \<Rightarrow> (let (s, k) = random_string (rnd env) 6 k in (t_name t @ ''-'' @ s, k)));
          (rendered, k) = render_template_text (with_data env d) (t_manifests t) k;
          domain = (case penv ''SEALOS_CLOUD_DOMAIN'' of Some v \<Rightarrow> v | None \<Rightarrow> []);
          suffix = (case penv ''CASOS_APP_PORT_SUFFIX'' of Some v \<Rightarrow> v | None \<Rightarrow> []);
          rendered = (if is_app_gateway_domain domain
            then app_gateway_addresses rendered domain suffix else rendered)
      in ((inst, d, split_yaml_documents rendered, missing), k))"

record gpu_summary =
  gpu_name :: string
  gpu_memory_mib :: int

definition platform_env :: "string \<Rightarrow> string \<Rightarrow> string \<Rightarrow> gpu_summary \<Rightarrow> (string \<times> string) list" where
  "platform_env namespace domain0 request_host gpu =
     (let domain = trim_space domain0;
          domain = (if domain = [] then default_cloud_domain request_host else domain)
      in [(''SEALOS_NAMESPACE'', namespace),
          (''SEALOS_CLOUD_DOMAIN'', domain),
          (''SEALOS_CERT_SECRET_NAME'', ''wildcard-cert''),
          (''SEALOS_SERVICE_ACCOUNT'', ''default''),
          (''DESKTOP_DOMAIN'', domain),
          (''CASOS_GPU'', if gpu_name gpu \<noteq> [] then ''nvidia'' else []),
          (''CASOS_GPU_NAME'', gpu_name gpu),
          (''CASOS_GPU_MEMORY_MIB'', itoa (gpu_memory_mib gpu)),
          (''CASOS_APP_PORT_SUFFIX'', app_gateway_port_suffix domain request_host)])"

section \<open>The form and the deployment agree\<close>





lemma set_sorted_keys [simp]: "set (sorted_keys m) = fst ` set m"
  by (simp add: sorted_keys_def)

lemma distinct_sorted_keys: "distinct (sorted_keys m) \<and> sorted (sorted_keys m)"
  by (simp add: sorted_keys_def)







text \<open>The loop over the form's fields, one round of it.\<close>

lemma input_values_step:
  assumes "map_of ins key = Some i"
    and "input_values env ins given (key # keys) d k = ((d', missing), k')"
  obtains val asked missing' k1 k2
  where "input_values env ins given keys (d\<lparr>Inputs := (Inputs d)(key \<mapsto> val)\<rparr>) k2 = ((d', missing'), k')"
    and "missing = (if asked then key # missing' else missing')"
    and "in_required i \<Longrightarrow> trim_space val = [] \<Longrightarrow> trim_space (in_if i) = [] \<Longrightarrow> asked"
    and "\<And>c cs. given key = Some (c # cs) \<Longrightarrow> val = c # cs"
proof -
  obtain val k1 where v: "(case given key of Some (c # cs) \<Rightarrow> (c # cs, k)
       | _ \<Rightarrow> substitute_placeholders (with_data env d) (in_default i) k) = (val, k1)" by force
  obtain asked k2 where a: "(if in_required i \<and> trim_space val = []
       then condition_holds (with_data env d) (in_if i) k1 else (False, k1)) = (asked, k2)" by force
  obtain d'' missing' k3 where r:
    "input_values env ins given keys (d\<lparr>Inputs := (Inputs d)(key \<mapsto> val)\<rparr>) k2 = ((d'', missing'), k3)"
    by (metis prod.collapse)
  have "input_values env ins given (key # keys) d k
      = ((d'', if asked then key # missing' else missing'), k3)"
    by (simp add: assms(1) v a r)
  with assms(2) have "d'' = d'" "k3 = k'" "missing = (if asked then key # missing' else missing')" by auto
  moreover have "in_required i \<Longrightarrow> trim_space val = [] \<Longrightarrow> trim_space (in_if i) = [] \<Longrightarrow> asked"
    using a by (auto simp: condition_holds_def)
  moreover have "given key = Some (c # cs) \<Longrightarrow> val = c # cs" for c cs using v by auto
  ultimately show ?thesis using r that by blast
qed

lemma input_values_other:
  "input_values env ins given keys d k = ((d', missing), k') \<Longrightarrow> key \<notin> set keys \<Longrightarrow>
     Inputs d' key = Inputs d key"
proof (induction keys arbitrary: d k missing)
  case (Cons x keys)
  show ?case
  proof (cases "map_of ins x")
    case None
    with Cons show ?thesis by simp
  next
    case (Some i)
    from Cons.prems show ?thesis
      by (elim input_values_step [OF Some]) (auto dest: Cons.IH)
  qed
qed simp

lemma input_values_missing:
  "input_values env ins given keys d k = ((d', missing), k') \<Longrightarrow> distinct keys \<Longrightarrow> key \<in> set keys \<Longrightarrow>
     map_of ins key = Some i \<Longrightarrow> in_required i \<Longrightarrow> trim_space (in_if i) = [] \<Longrightarrow> key \<notin> set missing \<Longrightarrow>
     \<exists>v. Inputs d' key = Some v \<and> trim_space v \<noteq> []"
proof (induction keys arbitrary: d k missing)
  case (Cons x keys)
  show ?case
  proof (cases "map_of ins x")
    case None
    with Cons show ?thesis by auto
  next
    case (Some j)
    from Cons.prems(1) show ?thesis
    proof (rule input_values_step [OF Some])
      fix v asked missing' k2
      assume r: "input_values env ins given keys (d\<lparr>Inputs := (Inputs d)(x \<mapsto> v)\<rparr>) k2 = ((d', missing'), k')"
        and m: "missing = (if asked then x # missing' else missing')"
        and req: "in_required j \<Longrightarrow> trim_space v = [] \<Longrightarrow> trim_space (in_if j) = [] \<Longrightarrow> asked"
      show ?thesis
      proof (cases "x = key")
        case True
        then have "Inputs d' key = Some v" using input_values_other [OF r] Cons.prems(2) by auto
        moreover have "trim_space v \<noteq> []" using req m Cons.prems(4-7) Some True by (auto split: if_splits)
        ultimately show ?thesis by simp
      next
        case False
        then have "key \<in> set keys" using Cons.prems(3) by simp
        then show ?thesis
          using Cons.IH [OF r] Cons.prems m by (auto split: if_splits)
      qed
    qed
  qed
qed simp

text \<open>
  When no field is reported missing, every required field that is always asked for has a
  value that is not blank in the data the manifests are rendered with.
\<close>

theorem required_fields_filled:
  assumes "render_template env t req penv k = ((inst, d, docs, []), k')"
    and "map_of (spec_inputs (t_spec t)) key = Some i" and "in_required i" and "trim_space (in_if i) = []"
  shows "\<exists>v. Inputs d key = Some v \<and> trim_space v \<noteq> []"
proof -
  let ?ins = "spec_inputs (t_spec t)"
  obtain defaults k1 where r1: "rendered_defaults env t penv (rq_defaults req) k = (defaults, k1)" by force
  obtain d1 missing k2 where r2: "input_values env ?ins (rq_inputs req) (sorted_keys ?ins)
      \<lparr>Defaults = defaults, Inputs = Map.empty, Env = penv\<rparr> k1 = ((d1, missing), k2)"
    by (metis prod.collapse)
  have "d1 = d \<and> missing = []"
    using assms(1) r1 r2 by (auto simp: render_template_def Let_def split: prod.splits)
  moreover have "key \<in> set (sorted_keys ?ins)"
    using assms(2) by (metis map_of_eq_None_iff option.distinct(1) set_sorted_keys)
  ultimately show ?thesis
    using input_values_missing [OF r2] distinct_sorted_keys assms(2-4) by auto
qed

theorem required_fields_filled_witness:
  "\<exists>v. Inputs (fst (snd (fst (render_template \<lparr>data = \<lparr>Defaults = Map.empty, Inputs = Map.empty, Env = Map.empty\<rparr>,
       rnd = (\<lambda>_. None), int_out = (\<lambda>_. 0)\<rparr>
     \<lparr>t_name = ''n'', t_spec = \<lparr>spec_title = [], spec_url = [], spec_git_repo = [], spec_author = [],
        spec_description = [], spec_readme = [], spec_icon = [], spec_screenshots = [],
        spec_template_type = [], spec_locale = [], spec_i18n = [], spec_categories = [], spec_draft = False,
        spec_defaults = [], spec_inputs = [(''host'', \<lparr>in_description = [], in_type = [], in_default = [],
          in_required = True, in_options = [], in_if = []\<rparr>)]\<rparr>, t_manifests = []\<rparr>
     \<lparr>rq_inputs = [''host'' \<mapsto> ''h''], rq_defaults = Map.empty\<rparr> Map.empty 0)))) ''host'' = Some v
     \<and> trim_space v \<noteq> []"
proof -
  let ?i = "\<lparr>in_description = [], in_type = [], in_default = [], in_required = True, in_options = [], in_if = []\<rparr>"
  let ?t = "\<lparr>t_name = ''n'', t_spec = \<lparr>spec_title = [], spec_url = [], spec_git_repo = [], spec_author = [],
        spec_description = [], spec_readme = [], spec_icon = [], spec_screenshots = [],
        spec_template_type = [], spec_locale = [], spec_i18n = [], spec_categories = [], spec_draft = False,
        spec_defaults = [], spec_inputs = [(''host'', ?i)]\<rparr>, t_manifests = []\<rparr>"
  let ?r = "render_template \<lparr>data = \<lparr>Defaults = Map.empty, Inputs = Map.empty, Env = Map.empty\<rparr>,
       rnd = (\<lambda>_. None), int_out = (\<lambda>_. 0)\<rparr> ?t \<lparr>rq_inputs = [''host'' \<mapsto> ''h''], rq_defaults = Map.empty\<rparr> Map.empty 0"
  have "snd (snd (snd (fst ?r))) = []" by code_simp
  then obtain inst d docs k' where r: "?r = ((inst, d, docs, []), k')" by (metis prod.collapse)
  have "trim_space (in_if ?i) = []" by simp
  with required_fields_filled [OF r, of "''host''" ?i] show ?thesis by (simp add: r)
qed

end
