(* ===== verification/SqlTable.thy ===== *)
theory SqlTable
  imports Prelude
begin

text \<open>
  What the code relies on of its database engine (xorm over MySQL), as an interface. The
  engine is a parameter of every definition that uses it: a record of the statements the code
  issues on one table. The locale states what the code counts on: a statement that succeeds
  has the effect SQL documents; one that fails has that effect or none (an answer can be lost
  after the server did the work), and so has a commit that fails; a rolled-back transaction is
  as if it had not begun. An in-memory table with a failure oracle satisfies it.
\<close>

datatype db_failure = DbFailure string

section \<open>Statements on one table\<close>

record ('r, 'db) table =
  select_where :: "('r \<Rightarrow> bool) \<Rightarrow> 'db \<Rightarrow> db_failure + 'r list"
  update_where :: "('r \<Rightarrow> bool) \<Rightarrow> ('r \<Rightarrow> 'r) \<Rightarrow> 'db \<Rightarrow> (db_failure + nat) \<times> 'db"
  insert_row :: "'r \<Rightarrow> 'db \<Rightarrow> (db_failure + 'r) \<times> 'db"
  delete_where :: "('r \<Rightarrow> bool) \<Rightarrow> 'db \<Rightarrow> (db_failure + nat) \<times> 'db"

text \<open>\<open>Desc("id").Get\<close>: the matching row with the highest id.\<close>

definition get_latest :: "('r, 'db) table \<Rightarrow> ('r \<Rightarrow> bool) \<Rightarrow> 'db \<Rightarrow> db_failure + 'r option" where
  "get_latest T p db =
     (case select_where T p db of
        Inl e \<Rightarrow> Inl e | Inr rs \<Rightarrow> Inr (if rs = [] then None else Some (last rs)))"

text \<open>\<open>Get\<close>: the first row that matches, in the order the engine reads them.\<close>

definition get_first :: "('r, 'db) table \<Rightarrow> ('r \<Rightarrow> bool) \<Rightarrow> 'db \<Rightarrow> db_failure + 'r option" where
  "get_first T p db =
     (case select_where T p db of Inl e \<Rightarrow> Inl e | Inr [] \<Rightarrow> Inr None | Inr (r # _) \<Rightarrow> Inr (Some r))"

text \<open>
  \<open>contents\<close> is the table's rows, in ascending order of their keys. The number an update
  reports lies between the rows that changed and the rows that matched: MySQL reports the
  former, other engines the latter.
\<close>

locale row_table =
  fixes T :: "('r, 'db) table" and contents :: "'db \<Rightarrow> 'r list"
  assumes select_ok: "select_where T p db = Inr rs \<Longrightarrow> rs = filter p (contents db)"
    and update_ok: "update_where T p f db = (Inr n, db') \<Longrightarrow> contents db' = update_rows p f (contents db)
        \<and> n \<le> count_rows p (contents db) \<and> count_rows (\<lambda>r. p r \<and> f r \<noteq> r) (contents db) \<le> n"
    and update_failed: "update_where T p f db = (Inl e, db') \<Longrightarrow>
        contents db' = contents db \<or> contents db' = update_rows p f (contents db)"
    and delete_ok: "delete_where T p db = (Inr n, db') \<Longrightarrow> contents db' = filter (\<lambda>r. \<not> p r) (contents db)"
    and delete_failed: "delete_where T p db = (Inl e, db') \<Longrightarrow>
        contents db' = contents db \<or> contents db' = filter (\<lambda>r. \<not> p r) (contents db)"
begin

lemma update_cases:
  obtains n where "fst (update_where T p f db) = Inr n"
      "contents (snd (update_where T p f db)) = update_rows p f (contents db)"
      "n = 0 \<Longrightarrow> \<forall>r \<in> set (contents db). p r \<longrightarrow> f r = r"
      "0 < n \<Longrightarrow> \<exists>r \<in> set (contents db). p r"
  | e where "fst (update_where T p f db) = Inl e"
      "contents (snd (update_where T p f db)) = contents db
       \<or> contents (snd (update_where T p f db)) = update_rows p f (contents db)"
proof (cases "update_where T p f db")
  case (Pair res db')
  show ?thesis
  proof (cases res)
    case (Inl e)
    with Pair update_failed [of p f db e db'] that(2) show ?thesis by simp
  next
    case (Inr n)
    have u: "contents db' = update_rows p f (contents db)"
      "n \<le> count_rows p (contents db)" "count_rows (\<lambda>r. p r \<and> f r \<noteq> r) (contents db) \<le> n"
      using update_ok [of p f db n db'] Pair Inr by auto
    have "n = 0 \<Longrightarrow> \<forall>r \<in> set (contents db). p r \<longrightarrow> f r = r"
      using u(3) count_rows_0 [of "\<lambda>r. p r \<and> f r \<noteq> r" "contents db"] by auto
    moreover have "0 < n \<Longrightarrow> \<exists>r \<in> set (contents db). p r"
      using u(2) count_rows_pos [of p "contents db"] by auto
    ultimately show ?thesis using that(1) Pair Inr u by auto
  qed
qed

lemma update_either:
  "contents (snd (update_where T p f db)) = update_rows p f (contents db)
   \<or> contents (snd (update_where T p f db)) = contents db"
  by (rule update_cases [of p f db]) auto

lemma update_positive: "update_where T p f db = (Inr (Suc n), db') \<Longrightarrow> \<exists>r \<in> set (contents db). p r"
  by (rule update_cases [of p f db]) auto

lemma update_evolves:
  assumes "\<forall>r \<in> set (contents db). p r \<longrightarrow> E r (f r)"
  shows "list_all2 (\<lambda>t t'. t' = t \<or> E t t') (contents db) (contents (snd (update_where T p f db)))"
proof -
  have "list_all2 (\<lambda>t t'. t' = t \<or> E t t') (contents db) (contents db)" by (simp add: list_all2_same)
  then show ?thesis using update_either [of p f db] update_rows_evolve [of "contents db" p E f] assms by metis
qed

lemma get_latest_in: "get_latest T p db = Inr (Some t) \<Longrightarrow> t \<in> set (contents db) \<and> p t"
proof -
  assume g: "get_latest T p db = Inr (Some t)"
  then obtain rs where rs: "select_where T p db = Inr rs" "rs \<noteq> []" "t = last rs"
    by (auto simp: get_latest_def split: sum.splits if_splits)
  then have "t \<in> set (filter p (contents db))" using select_ok [OF rs(1)] last_in_set by metis
  then show ?thesis by simp
qed

lemma get_latest_none: "get_latest T p db = Inr None \<Longrightarrow> \<forall>r \<in> set (contents db). \<not> p r"
  using select_ok [of p db] by (auto simp: get_latest_def filter_empty_conv split: sum.splits if_splits)

lemma get_first_in: "get_first T p db = Inr (Some t) \<Longrightarrow> t \<in> set (contents db) \<and> p t"
proof -
  assume "get_first T p db = Inr (Some t)"
  then obtain rs where rs: "select_where T p db = Inr (t # rs)"
    by (auto simp: get_first_def split: sum.splits list.splits)
  have "t \<in> set (filter p (contents db))" by (simp add: select_ok [OF rs, symmetric])
  then show ?thesis by simp
qed

end

text \<open>
  Tables whose key counts up: \<open>rid\<close> is a row's id and \<open>with_id\<close> the row with another id,
  \<open>keys_ok\<close> the unique constraints. An insertion gives the row an id above all others.
\<close>

locale sql_table = row_table T contents
  for T :: "('r, 'db) table" and contents :: "'db \<Rightarrow> 'r list" +
  fixes rid :: "'r \<Rightarrow> int" and with_id :: "int \<Rightarrow> 'r \<Rightarrow> 'r" and keys_ok :: "'r list \<Rightarrow> bool"
  assumes insert_ok: "insert_row T r db = (Inr r', db') \<Longrightarrow> contents db' = contents db @ [r'] \<and> keys_ok (contents db')
        \<and> (\<exists>i. r' = with_id i r \<and> 0 < i \<and> (\<forall>q \<in> set (contents db). rid q < i))"
    and insert_failed: "insert_row T r db = (Inl e, db') \<Longrightarrow> contents db' = contents db
        \<or> (\<exists>i. contents db' = contents db @ [with_id i r] \<and> keys_ok (contents db')
             \<and> 0 < i \<and> (\<forall>q \<in> set (contents db). rid q < i))"
    and rid_with_id: "rid (with_id i r) = i"

text \<open>Tables whose key is part of the row: an insertion puts the row somewhere among the others.\<close>

locale keyed_table = row_table T contents
  for T :: "('r, 'db) table" and contents :: "'db \<Rightarrow> 'r list" +
  fixes keys_ok :: "'r list \<Rightarrow> bool"
  assumes keyed_insert_ok: "insert_row T r db = (Inr r', db') \<Longrightarrow> r' = r \<and> keys_ok (contents db')
        \<and> (\<exists>xs ys. contents db = xs @ ys \<and> contents db' = xs @ r # ys)"
    and keyed_insert_failed: "insert_row T r db = (Inl e, db') \<Longrightarrow> contents db' = contents db
        \<or> keys_ok (contents db') \<and> (\<exists>xs ys. contents db = xs @ ys \<and> contents db' = xs @ r # ys)"

text \<open>
  Two tables of one database: the statements on one leave the other alone, and rolling back
  restores both. The transaction functions are the engine's, too.
\<close>

record 'db transactions =
  begin_tx :: "'db \<Rightarrow> db_failure option"
  commit_tx :: "'db \<Rightarrow> 'db \<Rightarrow> db_failure option \<times> 'db"
  rollback_tx :: "'db \<Rightarrow> 'db \<Rightarrow> 'db"

text \<open>
  \<open>withTransaction\<close>: \<open>fail\<close> turns a failure of the engine into the caller's error. A commit that
  fails stands for itself and the rollback that follows it, which has nothing left to undo.
\<close>

definition with_transaction ::
  "'db transactions \<Rightarrow> (db_failure \<Rightarrow> 'e) \<Rightarrow> ('db \<Rightarrow> ('e + 'a) \<times> 'db) \<Rightarrow> 'db \<Rightarrow> ('e + 'a) \<times> 'db" where
  "with_transaction tx fail fn db =
     (case begin_tx tx db of
        Some e \<Rightarrow> (Inl (fail e), db)
      | None \<Rightarrow>
          (case fn db of
             (Inl e, db') \<Rightarrow> (Inl e, rollback_tx tx db db')
           | (Inr v, db') \<Rightarrow>
               (case commit_tx tx db db' of
                  (Some e, db'') \<Rightarrow> (Inl (fail e), db'')
                | (None, db'') \<Rightarrow> (Inr v, db''))))"

locale two_tables = A: row_table TA ca + B: row_table TB cb
  for TA :: "('a, 'db) table" and ca and TB :: "('b, 'db) table" and cb +
  fixes tx :: "'db transactions"
  assumes A_keeps_B: "cb (snd (update_where TA p f db)) = cb db" "cb (snd (insert_row TA r db)) = cb db"
      "cb (snd (delete_where TA p db)) = cb db"
    and B_keeps_A: "ca (snd (update_where TB p' f' db)) = ca db" "ca (snd (insert_row TB r' db)) = ca db"
      "ca (snd (delete_where TB p' db)) = ca db"
    and rolled_back: "ca (rollback_tx tx db db') = ca db" "cb (rollback_tx tx db db') = cb db"
    and committed: "commit_tx tx db db' = (None, db'') \<Longrightarrow> ca db'' = ca db' \<and> cb db'' = cb db'"
    and not_committed: "commit_tx tx db db' = (Some e, db'') \<Longrightarrow>
        ca db'' = ca db' \<and> cb db'' = cb db' \<or> ca db'' = ca db \<and> cb db'' = cb db"
begin

text \<open>A transaction has the effect of its body on both tables, or none on either.\<close>

lemma transaction_effect:
  "ca (snd (with_transaction tx fail fn db)) = ca db \<and> cb (snd (with_transaction tx fail fn db)) = cb db
   \<or> ca (snd (with_transaction tx fail fn db)) = ca (snd (fn db))
     \<and> cb (snd (with_transaction tx fail fn db)) = cb (snd (fn db))"
proof (cases "begin_tx tx db")
  case None
  obtain res db' where f: "fn db = (res, db')" by force
  obtain err db'' where c: "commit_tx tx db db' = (err, db'')" by force
  show ?thesis
    using None f c rolled_back [of db db'] committed [of db db' db''] not_committed [of db db' _ db'']
    by (cases res; cases err) (auto simp: with_transaction_def)
qed (simp add: with_transaction_def)

lemma transaction_ok:
  assumes "with_transaction tx fail fn db = (Inr v, db'')"
  obtains db' where "fn db = (Inr v, db')" "ca db'' = ca db'" "cb db'' = cb db'"
proof -
  obtain res db' where f: "fn db = (res, db')" by force
  obtain err db3 where c: "commit_tx tx db db' = (err, db3)" by force
  from assms f c committed [of db db' db3] that show ?thesis
    by (cases res; cases err) (auto simp: with_transaction_def split: option.splits)
qed

end

section \<open>Tables in memory\<close>

text \<open>
  An engine to show that the laws can hold: rows with the next id, and an oracle that lets the
  \<open>n\<close>-th statement fail.
\<close>

record 'r mem =
  mrows :: "'r list"
  mnext :: int
  mfaults :: "db_failure option list"

definition next_fault :: "'r mem \<Rightarrow> db_failure option \<times> 'r mem" where
  "next_fault m = (case mfaults m of [] \<Rightarrow> (None, m) | f # fs \<Rightarrow> (f, m\<lparr>mfaults := fs\<rparr>))"

lemma next_fault_rows: "next_fault m = (e, m') \<Longrightarrow> mrows m' = mrows m \<and> mnext m' = mnext m"
  by (auto simp: next_fault_def split: list.splits)

definition mem_table ::
  "('db \<Rightarrow> 'r mem) \<Rightarrow> ('r mem \<Rightarrow> 'db \<Rightarrow> 'db) \<Rightarrow> ('r \<Rightarrow> int) \<Rightarrow> (int \<Rightarrow> 'r \<Rightarrow> 'r) \<Rightarrow> ('r list \<Rightarrow> bool)
     \<Rightarrow> db_failure \<Rightarrow> ('r, 'db) table" where
  "mem_table get put rid with_id keys_ok dup =
     \<lparr>select_where = (\<lambda>p db. case fst (next_fault (get db)) of
          Some e \<Rightarrow> Inl e | None \<Rightarrow> Inr (filter p (mrows (get db)))),
      update_where = (\<lambda>p f db. let (e, m) = next_fault (get db) in
          case e of Some e \<Rightarrow> (Inl e, put m db)
          | None \<Rightarrow> (Inr (count_rows p (mrows m)), put (m\<lparr>mrows := update_rows p f (mrows m)\<rparr>) db)),
      insert_row = (\<lambda>r db. let (e, m) = next_fault (get db);
            i = foldr max (map rid (mrows m)) (max 0 (mnext m)) + 1; r = with_id i r in
          case e of Some e \<Rightarrow> (Inl e, put m db)
          | None \<Rightarrow> if keys_ok (mrows m @ [r]) then (Inr r, put (m\<lparr>mrows := mrows m @ [r], mnext := i\<rparr>) db)
                    else (Inl dup, put m db)),
      delete_where = (\<lambda>p db. let (e, m) = next_fault (get db) in
          case e of Some e \<Rightarrow> (Inl e, put m db)
          | None \<Rightarrow> (Inr (count_rows p (mrows m)), put (m\<lparr>mrows := filter (\<lambda>r. \<not> p r) (mrows m)\<rparr>) db))\<rparr>"

lemma length_filter_conj: "length (filter (\<lambda>x. p x \<and> q x) xs) \<le> length (filter p xs)"
  by (induction xs) auto

lemma foldr_max_ge: "(x::int) \<in> set xs \<Longrightarrow> x \<le> foldr max xs a" "a \<le> foldr max xs (a::int)"
  by (induction xs) auto

lemma mem_table_laws:
  assumes gp: "\<And>m db. get (put m db) = m" and wi: "\<And>i r. rid (with_id i r) = i"
  shows "sql_table (mem_table get put rid with_id keys_ok dup) (\<lambda>db. mrows (get db)) rid with_id keys_ok"
proof
  fix r db r' db'
  let ?T = "mem_table get put rid with_id keys_ok dup"
  assume ins: "insert_row ?T r db = (Inr r', db')"
  obtain e m where nf: "next_fault (get db) = (e, m)" by force
  define i where "i = foldr max (map rid (mrows m)) (max 0 (mnext m)) + 1"
  have m: "mrows m = mrows (get db)" using next_fault_rows [OF nf] by simp
  have r: "e = None" "keys_ok (mrows m @ [with_id i r])" "r' = with_id i r"
      "mrows (get db') = mrows m @ [r']"
    using ins nf by (auto simp: mem_table_def Let_def gp i_def split: option.splits if_splits)
  have "0 < i" using foldr_max_ge(2) [of "max 0 (mnext m)" "map rid (mrows m)"] by (simp add: i_def)
  moreover have "\<forall>q \<in> set (mrows m). rid q < i"
    using foldr_max_ge(1) [of _ "map rid (mrows m)" "max 0 (mnext m)"] by (fastforce simp: i_def)
  ultimately show "mrows (get db') = mrows (get db) @ [r'] \<and> keys_ok (mrows (get db'))
      \<and> (\<exists>i. r' = with_id i r \<and> 0 < i \<and> (\<forall>q \<in> set (mrows (get db)). rid q < i))"
    using r by (auto simp: m)
next
  fix p f db n db'
  assume "update_where (mem_table get put rid with_id keys_ok dup) p f db = (Inr n, db')"
  then show "mrows (get db') = update_rows p f (mrows (get db)) \<and> n \<le> count_rows p (mrows (get db))
      \<and> count_rows (\<lambda>r. p r \<and> f r \<noteq> r) (mrows (get db)) \<le> n"
    by (auto simp: mem_table_def Let_def gp count_rows_def split: prod.splits option.splits
        dest!: next_fault_rows intro!: length_filter_conj)
qed (auto simp: mem_table_def Let_def gp wi split: prod.splits option.splits if_splits dest!: next_fault_rows)

text \<open>The same table where the key is part of the row.\<close>

lemma mem_keyed_laws:
  assumes gp: "\<And>m db. get (put m db) = m"
  shows "keyed_table (mem_table get put rid (\<lambda>_ r. r) keys_ok dup) (\<lambda>db. mrows (get db)) keys_ok"
proof
  fix p f db n db'
  assume "update_where (mem_table get put rid (\<lambda>_ r. r) keys_ok dup) p f db = (Inr n, db')"
  then show "mrows (get db') = update_rows p f (mrows (get db)) \<and> n \<le> count_rows p (mrows (get db))
      \<and> count_rows (\<lambda>r. p r \<and> f r \<noteq> r) (mrows (get db)) \<le> n"
    by (auto simp: mem_table_def Let_def gp count_rows_def split: prod.splits option.splits
        dest!: next_fault_rows intro!: length_filter_conj)
next
  fix r db r' db'
  assume "insert_row (mem_table get put rid (\<lambda>_ r. r) keys_ok dup) r db = (Inr r', db')"
  then have "r' = r \<and> keys_ok (mrows (get db')) \<and> mrows (get db') = mrows (get db) @ [r]"
    by (auto simp: mem_table_def Let_def gp split: prod.splits option.splits if_splits dest!: next_fault_rows)
  then show "r' = r \<and> keys_ok (mrows (get db'))
      \<and> (\<exists>xs ys. mrows (get db) = xs @ ys \<and> mrows (get db') = xs @ r # ys)" by auto
qed (auto simp: mem_table_def Let_def gp split: prod.splits option.splits if_splits dest!: next_fault_rows)

end
