(* ===== verification/HelmTasks.thy ===== *)
theory HelmTasks
  imports SqlTable GoConv
begin

text \<open>
  The record of Helm operations (object/helm_operation.go): tasks and their logs in two tables
  of a database that is a parameter (\<open>SqlTable\<close>). Every function that reads the clock takes
  what its calls of \<open>time.Now\<close> return (nanoseconds), and SHA-256 in hexadecimal is the
  parameter \<open>sha\<close>. A call returns an error or a value with the database after it.
\<close>

section \<open>Rows\<close>

abbreviation (input) "op_install \<equiv> ''install''"
abbreviation (input) "op_upgrade \<equiv> ''upgrade''"
abbreviation (input) "st_pending \<equiv> ''pending''"
abbreviation (input) "st_running \<equiv> ''running''"
abbreviation (input) "st_succeeded \<equiv> ''succeeded''"
abbreviation (input) "st_failed \<equiv> ''failed''"
abbreviation (input) "ph_queued \<equiv> ''queued''"
abbreviation (input) "ph_loading \<equiv> ''loading''"
abbreviation (input) "ph_installing \<equiv> ''installing''"
abbreviation (input) "ph_ready \<equiv> ''ready''"
abbreviation (input) "ph_failed \<equiv> ''failed''"

record helm_task =
  ht_id :: int
  ht_active_key :: "string option"
  ht_owner :: string
  ht_operation :: string
  ht_release :: string
  ht_namespace :: string
  ht_chart :: string
  ht_repo_url :: string
  ht_version :: string
  ht_status :: string
  ht_phase :: string
  ht_error :: string
  ht_created :: int
  ht_started :: int
  ht_finished :: int
  ht_updated :: int

record helm_log =
  hl_id :: int
  hl_task :: int
  hl_level :: string
  hl_message :: string
  hl_created :: int

record 'db helm_store =
  tasks :: "(helm_task, 'db) table"
  logs :: "(helm_log, 'db) table"
  txs :: "'db transactions"

datatype helm_error =
    MissingField | Unsupported string | AlreadyActive int | AlreadyFinished int | StillRunning
  | TaskNotFound | NotFailedInstall | BadPhase string | NotPending int | NotRunning int
  | LogMismatch int | BadTaskId | BadLimit | MissingOwner | Database db_failure
  | VerifyFailed helm_error | RecorderClosed | QueueFull

definition helm_stale_after :: int where "helm_stale_after = 660000000000"

definition unfinished_shown_for :: int where "unfinished_shown_for = 604800000000000"

definition is_supported_helm_operation :: "string \<Rightarrow> bool" where
  "is_supported_helm_operation operation \<longleftrightarrow> operation = op_install \<or> operation = op_upgrade"

definition active_task :: "helm_task \<Rightarrow> bool" where
  "active_task t \<longleftrightarrow> ht_status t = st_pending \<or> ht_status t = st_running"

definition of_release :: "string \<Rightarrow> string \<Rightarrow> helm_task \<Rightarrow> bool" where
  "of_release namespace release t \<longleftrightarrow> ht_namespace t = namespace \<and> ht_release t = release"

definition helm_active_key :: "(string \<Rightarrow> string) \<Rightarrow> string \<Rightarrow> string \<Rightarrow> string" where
  "helm_active_key sha namespace release = sha (namespace @ CHR 0x00 # release)"

section \<open>Creating a task\<close>

definition close_task :: "string \<Rightarrow> string \<Rightarrow> string \<Rightarrow> int \<Rightarrow> helm_task \<Rightarrow> helm_task" where
  "close_task status phase msg now t =
     t\<lparr>ht_active_key := None, ht_status := status, ht_phase := phase, ht_error := msg,
       ht_finished := now, ht_updated := now\<rparr>"

text \<open>The transaction of \<open>CreateHelmOperationTask\<close>: expire a stale active task, then insert.\<close>

definition expire_stale ::
  "'db helm_store \<Rightarrow> string \<Rightarrow> string \<Rightarrow> int \<Rightarrow> int \<Rightarrow> 'db \<Rightarrow> (helm_error, unit) result \<times> 'db" where
  "expire_stale S namespace release now1 now2 db =
     (case get_latest (tasks S) (\<lambda>t. of_release namespace release t \<and> active_task t) db of
        Inl e \<Rightarrow> (Err (Database e), db)
      | Inr None \<Rightarrow> (Ok (), db)
      | Inr (Some t) \<Rightarrow>
          if ht_updated t > now1 - helm_stale_after then (Err (AlreadyActive (ht_id t)), db)
          else
            (case update_where (tasks S) (\<lambda>r. ht_id r = ht_id t)
                (close_task st_failed ph_failed ''Helm operation expired before completion'' now2) db of
               (Inl e, db) \<Rightarrow> (Err (Database e), db)
             | (Inr _, db) \<Rightarrow> (Ok (), db)))"

definition insert_task ::
  "'db helm_store \<Rightarrow> string \<Rightarrow> helm_task \<Rightarrow> 'db \<Rightarrow> (helm_error, helm_task) result \<times> 'db" where
  "insert_task S key t db =
     (case insert_row (tasks S) t db of
        (Inr t', db) \<Rightarrow> (Ok t', db)
      | (Inl e, db) \<Rightarrow>
          (case get_latest (tasks S) (\<lambda>r. ht_active_key r = Some key) db of
             Inr (Some c) \<Rightarrow> (Err (AlreadyActive (ht_id c)), db)
           | _ \<Rightarrow> (Err (Database e), db)))"

definition new_task ::
  "(string \<Rightarrow> string) \<Rightarrow> string \<Rightarrow> string \<Rightarrow> string \<Rightarrow> string \<Rightarrow> string \<Rightarrow> string \<Rightarrow> string \<Rightarrow> int \<Rightarrow> helm_task" where
  "new_task sha owner operation release namespace chart repo_url version now =
     \<lparr>ht_id = 0, ht_active_key = Some (helm_active_key sha namespace release), ht_owner = owner,
      ht_operation = operation, ht_release = release, ht_namespace = namespace, ht_chart = chart,
      ht_repo_url = trim_space repo_url, ht_version = trim_space version,
      ht_status = st_pending, ht_phase = ph_queued, ht_error = [],
      ht_created = now, ht_started = 0, ht_finished = 0, ht_updated = now\<rparr>"

definition create_helm_task ::
  "'db helm_store \<Rightarrow> (string \<Rightarrow> string) \<Rightarrow> string \<Rightarrow> string \<Rightarrow> string \<Rightarrow> string \<Rightarrow> string \<Rightarrow> string \<Rightarrow> string
     \<Rightarrow> int \<times> int \<times> int \<Rightarrow> 'db \<Rightarrow> (helm_error, helm_task) result \<times> 'db" where
  "create_helm_task S sha owner0 operation0 release0 namespace0 chart0 repo_url version = (\<lambda>(now1, now2, now3) db.
     let owner = trim_space owner0; operation = trim_space operation0; release = trim_space release0;
         namespace = trim_space namespace0; chart = trim_space chart0 in
     if owner = [] \<or> operation = [] \<or> release = [] \<or> namespace = [] \<or> chart = []
       then (Err MissingField, db)
     else if \<not> is_supported_helm_operation operation then (Err (Unsupported operation), db)
     else with_transaction (txs S) Database (\<lambda>db.
       case expire_stale S namespace release now1 now2 db of
         (Inl e, db) \<Rightarrow> (Err e, db)
       | (Inr _, db) \<Rightarrow> insert_task S (helm_active_key sha namespace release)
           (new_task sha owner operation release namespace chart repo_url version now3) db) db)"

section \<open>The life of a task\<close>

definition fail_interrupted :: "'db helm_store \<Rightarrow> int \<Rightarrow> 'db \<Rightarrow> (helm_error, nat) result \<times> 'db" where
  "fail_interrupted S now db =
     (case update_where (tasks S) active_task
         (close_task st_failed ph_failed ''Helm operation was interrupted when CasOS stopped'' now) db of
        (Inl e, db) \<Rightarrow> (Err (Database e), db) | (Inr n, db) \<Rightarrow> (Ok n, db))"

text \<open>The pattern of the functions below: update, and an error when no row was affected.\<close>

definition update_task ::
  "'db helm_store \<Rightarrow> int \<Rightarrow> (helm_task \<Rightarrow> bool) \<Rightarrow> (helm_task \<Rightarrow> helm_task) \<Rightarrow> helm_error \<Rightarrow> 'db
     \<Rightarrow> (helm_error, unit) result \<times> 'db" where
  "update_task S tid p f none db =
     (case update_where (tasks S) (\<lambda>t. ht_id t = tid \<and> p t) f db of
        (Inl e, db) \<Rightarrow> (Err (Database e), db)
      | (Inr n, db) \<Rightarrow> (if n = 0 then Err none else Ok (), db))"

definition start_helm_task :: "'db helm_store \<Rightarrow> int \<Rightarrow> string \<Rightarrow> int \<Rightarrow> 'db \<Rightarrow> (helm_error, unit) result \<times> 'db" where
  "start_helm_task S tid phase now db =
     (if phase \<noteq> ph_loading then (Err (BadPhase phase), db)
      else update_task S tid (\<lambda>t. ht_status t = st_pending \<and> ht_phase t = ph_queued)
        (\<lambda>t. t\<lparr>ht_status := st_running, ht_phase := phase, ht_started := now, ht_updated := now\<rparr>)
        (NotPending tid) db)"

definition touch_helm_task :: "'db helm_store \<Rightarrow> int \<Rightarrow> int \<Rightarrow> 'db \<Rightarrow> (helm_error, unit) result \<times> 'db" where
  "touch_helm_task S tid now db =
     (case update_where (tasks S) (\<lambda>t. ht_id t = tid \<and> active_task t) (\<lambda>t. t\<lparr>ht_updated := now\<rparr>) db of
        (Inl e, db) \<Rightarrow> (Err (Database e), db) | (Inr _, db) \<Rightarrow> (Ok (), db))"

definition update_helm_phase :: "'db helm_store \<Rightarrow> int \<Rightarrow> string \<Rightarrow> int \<Rightarrow> 'db \<Rightarrow> (helm_error, unit) result \<times> 'db" where
  "update_helm_phase S tid phase now db =
     (if phase \<noteq> ph_installing then (Err (BadPhase phase), db)
      else update_task S tid (\<lambda>t. ht_status t = st_running \<and> ht_phase t = ph_loading)
        (\<lambda>t. t\<lparr>ht_phase := phase, ht_updated := now\<rparr>) (NotRunning tid) db)"

definition finish_helm_task ::
  "'db helm_store \<Rightarrow> int \<Rightarrow> bool \<Rightarrow> string \<Rightarrow> int \<Rightarrow> 'db \<Rightarrow> (helm_error, unit) result \<times> 'db" where
  "finish_helm_task S tid success msg now db =
     update_task S tid active_task
       (close_task (if success then st_succeeded else st_failed) (if success then ph_ready else ph_failed)
          (if success then [] else msg) now)
       (AlreadyFinished tid) db"

section \<open>Reading\<close>

text \<open>A zero id is no condition for \<open>Get\<close>: it then reads the first row.\<close>

definition get_helm_task :: "'db helm_store \<Rightarrow> int \<Rightarrow> 'db \<Rightarrow> (helm_error, helm_task option) result" where
  "get_helm_task S tid db =
     (case select_where (tasks S) (\<lambda>t. tid = 0 \<or> ht_id t = tid) db of
        Inl e \<Rightarrow> Err (Database e)
      | Inr [] \<Rightarrow> Ok None
      | Inr (t # _) \<Rightarrow> Ok (Some t))"

definition get_latest_for_release ::
  "'db helm_store \<Rightarrow> string \<Rightarrow> string \<Rightarrow> 'db \<Rightarrow> (helm_error, helm_task option) result" where
  "get_latest_for_release S namespace0 release0 db =
     (let namespace = trim_space namespace0; release = trim_space release0 in
      if namespace = [] \<or> release = [] then Err MissingField
      else case get_latest (tasks S) (of_release namespace release) db of
        Inl e \<Rightarrow> Err (Database e) | Inr t \<Rightarrow> Ok t)"

definition release_key :: "helm_task \<Rightarrow> string" where
  "release_key t = ht_namespace t @ ''/'' @ ht_release t"

fun first_of_release :: "string list \<Rightarrow> helm_task list \<Rightarrow> helm_task list" where
  "first_of_release seen [] = []"
| "first_of_release seen (t # ts) =
     (let key = release_key t in
      if key \<in> set seen then first_of_release seen ts
      else if ht_operation t = op_install \<and> ht_status t \<noteq> st_succeeded
        then t # first_of_release (key # seen) ts
      else first_of_release (key # seen) ts)"

definition unfinished_installs ::
  "'db helm_store \<Rightarrow> string \<Rightarrow> int \<Rightarrow> 'db \<Rightarrow> (helm_error, helm_task list) result" where
  "unfinished_installs S namespace0 now db =
     (let namespace = trim_space namespace0 in
      case select_where (tasks S) (\<lambda>t. ht_created t > now - unfinished_shown_for
          \<and> (namespace = [] \<or> ht_namespace t = namespace)) db of
        Inl e \<Rightarrow> Err (Database e)
      | Inr ts \<Rightarrow> Ok (first_of_release [] (rev ts)))"

definition get_helm_task_for_owner ::
  "'db helm_store \<Rightarrow> int \<Rightarrow> string \<Rightarrow> 'db \<Rightarrow> (helm_error, helm_task option) result" where
  "get_helm_task_for_owner S tid owner0 db =
     (let owner = trim_space owner0 in
      if owner = [] then Err MissingOwner
      else case get_helm_task S tid db of
        Inl e \<Rightarrow> Err e
      | Inr None \<Rightarrow> Ok None
      | Inr (Some t) \<Rightarrow> if ht_owner t \<noteq> owner then Ok None else Ok (Some t))"

definition terminal_outcome :: "bool \<Rightarrow> string \<Rightarrow> helm_task \<Rightarrow> bool" where
  "terminal_outcome success msg t \<longleftrightarrow>
     (if success then ht_status t = st_succeeded \<and> ht_phase t = ph_ready \<and> ht_error t = []
      else ht_status t = st_failed \<and> ht_phase t = ph_failed \<and> ht_error t = msg)"

definition has_terminal_outcome ::
  "'db helm_store \<Rightarrow> int \<Rightarrow> bool \<Rightarrow> string \<Rightarrow> 'db \<Rightarrow> (helm_error, bool) result" where
  "has_terminal_outcome S tid success msg db =
     (case get_helm_task S tid db of
        Inl e \<Rightarrow> Err e
      | Inr None \<Rightarrow> Ok False
      | Inr (Some t) \<Rightarrow> Ok (terminal_outcome success msg t))"

section \<open>Deleting and logging\<close>

definition failed_install :: "helm_task \<Rightarrow> bool" where
  "failed_install t \<longleftrightarrow> ht_operation t = op_install \<and> ht_status t = st_failed"

definition delete_failed_install :: "'db helm_store \<Rightarrow> int \<Rightarrow> 'db \<Rightarrow> (helm_error, unit) result \<times> 'db" where
  "delete_failed_install S tid db =
     (case get_helm_task S tid db of
        Inl e \<Rightarrow> (Err e, db)
      | Inr None \<Rightarrow> (Err TaskNotFound, db)
      | Inr (Some t) \<Rightarrow>
          if active_task t then (Err StillRunning, db)
          else if \<not> failed_install t then (Err NotFailedInstall, db)
          else with_transaction (txs S) Database (\<lambda>db.
            case select_where (tasks S)
                (\<lambda>r. of_release (ht_namespace t) (ht_release t) r \<and> failed_install r) db of
              Inl e \<Rightarrow> (Err (Database e), db)
            | Inr rs \<Rightarrow>
                if rs = [] then (Ok (), db)
                else let ids = map ht_id rs in
                  case delete_where (logs S) (\<lambda>l. hl_task l \<in> set ids) db of
                    (Inl e, db) \<Rightarrow> (Err (Database e), db)
                  | (Inr _, db) \<Rightarrow>
                      (case delete_where (tasks S) (\<lambda>r. ht_id r \<in> set ids) db of
                         (Inl e, db) \<Rightarrow> (Err (Database e), db)
                       | (Inr _, db) \<Rightarrow> (Ok (), db))) db)"

text \<open>\<open>session.Insert(&logs)\<close> of several rows: one after the other.\<close>

fun insert_logs :: "'db helm_store \<Rightarrow> helm_log list \<Rightarrow> 'db \<Rightarrow> (helm_error, unit) result \<times> 'db" where
  "insert_logs S [] db = (Ok (), db)"
| "insert_logs S (l # ls) db =
     (case insert_row (logs S) l db of
        (Inl e, db) \<Rightarrow> (Err (Database e), db)
      | (Inr _, db) \<Rightarrow> insert_logs S ls db)"

definition add_helm_logs ::
  "'db helm_store \<Rightarrow> int \<Rightarrow> helm_log list \<Rightarrow> int \<Rightarrow> 'db \<Rightarrow> (helm_error, unit) result \<times> 'db" where
  "add_helm_logs S tid ls now db =
     (if ls = [] then (Ok (), db)
      else if \<exists>l \<in> set ls. hl_task l \<noteq> tid then (Err (LogMismatch tid), db)
      else with_transaction (txs S) Database (\<lambda>db.
        case insert_logs S (map (\<lambda>l. if hl_created l = 0 then l\<lparr>hl_created := now\<rparr> else l) ls) db of
          (Inl e, db) \<Rightarrow> (Err e, db)
        | (Inr _, db) \<Rightarrow> touch_helm_task S tid now db) db)"

definition get_helm_logs :: "'db helm_store \<Rightarrow> int \<Rightarrow> int \<Rightarrow> 'db \<Rightarrow> (helm_error, helm_log list) result" where
  "get_helm_logs S tid limit db =
     (if tid \<le> 0 then Err BadTaskId
      else let limit = (if limit \<le> 0 then 500 else limit) in
        if 1000 < limit then Err BadLimit
        else case select_where (logs S) (\<lambda>l. hl_task l = tid) db of
          Inl e \<Rightarrow> Err (Database e)
        | Inr ls \<Rightarrow> Ok (rev (take (nat limit) (rev ls))))"

end
