(* ===== verification/HelmLifecycle.thy ===== *)
theory HelmLifecycle
  imports HelmTasks
begin

text \<open>
  What the record of Helm operations promises, as a transition system on the rows of the task
  table, and the proof that every call of \<open>HelmTasks\<close> is a sequence of its transitions
  whatever the engine does, as long as the engine keeps SQL's own promises. The invariants of
  the record are proved once, of the transition system.
\<close>

section \<open>The life of one task\<close>

inductive lifecycle :: "helm_task \<Rightarrow> helm_task \<Rightarrow> bool" where
  start: "ht_status t = st_pending \<Longrightarrow> ht_phase t = ph_queued \<Longrightarrow>
    lifecycle t (t\<lparr>ht_status := st_running, ht_phase := ph_loading, ht_started := now, ht_updated := now\<rparr>)"
| install: "ht_status t = st_running \<Longrightarrow> ht_phase t = ph_loading \<Longrightarrow>
    lifecycle t (t\<lparr>ht_phase := ph_installing, ht_updated := now\<rparr>)"
| touch: "active_task t \<Longrightarrow> lifecycle t (t\<lparr>ht_updated := now\<rparr>)"
| succeed: "active_task t \<Longrightarrow> lifecycle t (close_task st_succeeded ph_ready [] now t)"
| fail: "active_task t \<Longrightarrow> lifecycle t (close_task st_failed ph_failed msg now t)"

inductive_cases lifecycleE: "lifecycle t t'"

text \<open>The rows evolve, a task of a release without an active one is added, or failed installs go.\<close>

definition unique_keys :: "helm_task list \<Rightarrow> bool" where
  "unique_keys rows \<longleftrightarrow> distinct (List.map_filter ht_active_key rows)"

definition fresh_task :: "(string \<Rightarrow> string) \<Rightarrow> helm_task \<Rightarrow> bool" where
  "fresh_task sha t \<longleftrightarrow> ht_status t = st_pending \<and> ht_phase t = ph_queued \<and> ht_error t = []
     \<and> ht_active_key t = Some (helm_active_key sha (ht_namespace t) (ht_release t))
     \<and> is_supported_helm_operation (ht_operation t) \<and> ht_owner t \<noteq> [] \<and> ht_release t \<noteq> []
     \<and> ht_namespace t \<noteq> [] \<and> ht_chart t \<noteq> []"

inductive task_step :: "(string \<Rightarrow> string) \<Rightarrow> helm_task list \<Rightarrow> helm_task list \<Rightarrow> bool" for sha where
  evolve: "list_all2 (\<lambda>t t'. t' = t \<or> lifecycle t t') rows rows' \<Longrightarrow> task_step sha rows rows'"
| create: "fresh_task sha t \<Longrightarrow> 0 < ht_id t \<Longrightarrow> \<forall>r \<in> set rows. ht_id r < ht_id t \<Longrightarrow> unique_keys (rows @ [t]) \<Longrightarrow>
    task_step sha rows (rows @ [t])"
| remove: "\<forall>r \<in> set rows. p r \<longrightarrow> failed_install r \<Longrightarrow> task_step sha rows (filter (\<lambda>r. \<not> p r) rows)"

text \<open>The steps that remove nothing.\<close>

inductive grow_step :: "(string \<Rightarrow> string) \<Rightarrow> helm_task list \<Rightarrow> helm_task list \<Rightarrow> bool" for sha where
  evolve: "list_all2 (\<lambda>t t'. t' = t \<or> lifecycle t t') rows rows' \<Longrightarrow> grow_step sha rows rows'"
| create: "fresh_task sha t \<Longrightarrow> 0 < ht_id t \<Longrightarrow> \<forall>r \<in> set rows. ht_id r < ht_id t \<Longrightarrow> unique_keys (rows @ [t]) \<Longrightarrow>
    grow_step sha rows (rows @ [t])"

lemma grow_task: "grow_step sha rows rows' \<Longrightarrow> task_step sha rows rows'"
  by (erule grow_step.cases) (auto intro: task_step.intros)

lemma grow_tasks: "(grow_step sha)\<^sup>*\<^sup>* rows rows' \<Longrightarrow> (task_step sha)\<^sup>*\<^sup>* rows rows'"
  by (rule rtranclp_mono [THEN predicate2D]) (auto intro: grow_task)

section \<open>Invariants\<close>

definition task_ok :: "(string \<Rightarrow> string) \<Rightarrow> helm_task \<Rightarrow> bool" where
  "task_ok sha t \<longleftrightarrow>
     (if active_task t then ht_active_key t = Some (helm_active_key sha (ht_namespace t) (ht_release t))
      else ht_active_key t = None) \<and>
     (ht_status t = st_pending \<and> ht_phase t = ph_queued
      \<or> ht_status t = st_running \<and> ht_phase t \<in> {ph_loading, ph_installing}
      \<or> ht_status t = st_succeeded \<and> ht_phase t = ph_ready \<and> ht_error t = []
      \<or> ht_status t = st_failed \<and> ht_phase t = ph_failed) \<and>
     is_supported_helm_operation (ht_operation t) \<and> 0 < ht_id t"

definition tasks_ok :: "(string \<Rightarrow> string) \<Rightarrow> helm_task list \<Rightarrow> bool" where
  "tasks_ok sha rows \<longleftrightarrow>
     (\<forall>t \<in> set rows. task_ok sha t) \<and> unique_keys rows \<and> sorted_wrt (<) (map ht_id rows)"

lemma lifecycle_same:
  "lifecycle t t' \<Longrightarrow> ht_id t' = ht_id t \<and> ht_namespace t' = ht_namespace t \<and> ht_release t' = ht_release t
     \<and> ht_operation t' = ht_operation t \<and> ht_owner t' = ht_owner t \<and> active_task t"
  by (induction rule: lifecycle.induct) (auto simp: close_task_def active_task_def)

lemma lifecycle_key: "lifecycle t t' \<Longrightarrow> ht_active_key t' = ht_active_key t \<or> ht_active_key t' = None"
  by (induction rule: lifecycle.induct) (auto simp: close_task_def)

lemma lifecycle_ok: "lifecycle t t' \<Longrightarrow> task_ok sha t \<Longrightarrow> task_ok sha t'"
  by (induction rule: lifecycle.induct) (auto simp: task_ok_def close_task_def active_task_def)

lemma map_filter_keys_subseq:
  "list_all2 (\<lambda>t t'. ht_active_key t' = ht_active_key t \<or> ht_active_key t' = None) rows rows' \<Longrightarrow>
     distinct (List.map_filter ht_active_key rows) \<Longrightarrow>
     distinct (List.map_filter ht_active_key rows')
     \<and> set (List.map_filter ht_active_key rows') \<subseteq> set (List.map_filter ht_active_key rows)"
  by (induction rule: list_all2_induct) (auto simp: map_filter_simps split: option.splits)

lemma unique_keys_filter: "unique_keys rows \<Longrightarrow> unique_keys (filter p rows)"
proof -
  have "set (List.map_filter ht_active_key (filter p rows)) \<subseteq> set (List.map_filter ht_active_key rows)" for rows
    by (induction rows) (auto simp: map_filter_simps split: option.splits)
  then show "unique_keys rows \<Longrightarrow> unique_keys (filter p rows)"
    by (induction rows) (auto simp: unique_keys_def map_filter_simps split: option.splits)
qed

lemma evolve_ids: "list_all2 (\<lambda>t t'. t' = t \<or> lifecycle t t') rows rows' \<Longrightarrow> map ht_id rows' = map ht_id rows"
  by (induction rule: list_all2_induct) (auto dest: lifecycle_same)

lemma tasks_ok_step: "task_step sha rows rows' \<Longrightarrow> tasks_ok sha rows \<Longrightarrow> tasks_ok sha rows'"
proof (induction rule: task_step.induct)
  case (evolve rows rows')
  have "\<forall>t' \<in> set rows'. task_ok sha t'"
  proof
    fix t' assume "t' \<in> set rows'"
    then obtain t where "t \<in> set rows" "t' = t \<or> lifecycle t t'"
      using list_all2_in_right [OF evolve(1)] by blast
    then show "task_ok sha t'" using evolve(2) lifecycle_ok by (auto simp: tasks_ok_def)
  qed
  moreover have "list_all2 (\<lambda>t t'. ht_active_key t' = ht_active_key t \<or> ht_active_key t' = None) rows rows'"
    using evolve(1) by (rule list_all2_mono) (auto dest: lifecycle_key)
  ultimately show ?case
    using evolve map_filter_keys_subseq evolve_ids by (auto simp: tasks_ok_def unique_keys_def)
next
  case (create t rows)
  then show ?case
    by (auto simp: tasks_ok_def task_ok_def fresh_task_def active_task_def sorted_wrt_append)
next
  case (remove rows p)
  then show ?case
    by (auto simp: tasks_ok_def unique_keys_filter sorted_wrt_map sorted_wrt_filter)
qed

text \<open>The record is reachable when it comes from an empty table by transitions.\<close>

definition reachable :: "(string \<Rightarrow> string) \<Rightarrow> helm_task list \<Rightarrow> bool" where
  "reachable sha rows \<longleftrightarrow> (task_step sha)\<^sup>*\<^sup>* [] rows"

lemma tasks_ok_Nil [simp]: "tasks_ok sha []"
  by (simp add: tasks_ok_def unique_keys_def map_filter_simps)

lemma reachable_ok: "reachable sha rows \<Longrightarrow> tasks_ok sha rows"
  unfolding reachable_def by (induction rule: rtranclp_induct) (auto intro: tasks_ok_step)

lemma steps_ok: "(task_step sha)\<^sup>*\<^sup>* rows rows' \<Longrightarrow> tasks_ok sha rows \<Longrightarrow> tasks_ok sha rows'"
  by (induction rule: rtranclp_induct) (auto intro: tasks_ok_step)

lemma unique_ids: "tasks_ok sha rows \<Longrightarrow> r \<in> set rows \<Longrightarrow> t \<in> set rows \<Longrightarrow> ht_id r = ht_id t \<Longrightarrow> r = t"
proof -
  assume ok: "tasks_ok sha rows" and "r \<in> set rows" "t \<in> set rows" "ht_id r = ht_id t"
  moreover have "distinct (map ht_id rows)" using ok by (simp add: tasks_ok_def strict_sorted_iff)
  ultimately show "r = t" by (auto simp: distinct_map inj_on_def)
qed

lemma key_in: "r \<in> set rows \<Longrightarrow> ht_active_key r = Some key \<Longrightarrow> key \<in> set (List.map_filter ht_active_key rows)"
  by (induction rows) (auto simp: map_filter_simps split: option.splits)

lemma unique_keys_inj:
  "unique_keys rows \<Longrightarrow> i < length rows \<Longrightarrow> j < length rows \<Longrightarrow> ht_active_key (rows ! i) = Some key \<Longrightarrow>
     ht_active_key (rows ! j) = Some key \<Longrightarrow> i = j"
proof (induction rows arbitrary: i j)
  case (Cons r rows)
  have in_set: "ht_active_key (rows ! k) = Some key \<Longrightarrow> k < length rows \<Longrightarrow> key \<in> set (List.map_filter ht_active_key rows)" for k
    by (rule key_in [OF nth_mem])
  from Cons show ?case
    by (cases i; cases j) (auto simp: unique_keys_def map_filter_simps dest: in_set split: option.splits)
qed simp

text \<open>No two active tasks of one release, whatever the hash does.\<close>

lemma one_active_per_release:
  assumes "tasks_ok sha rows" and "r \<in> set rows" and "t \<in> set rows" and "active_task r" and "active_task t"
    and "of_release namespace release r" and "of_release namespace release t"
  shows "r = t"
proof -
  obtain i j where ij: "i < length rows" "rows ! i = r" "j < length rows" "rows ! j = t"
    using assms(2,3) by (metis in_set_conv_nth)
  have "ht_active_key r = Some (helm_active_key sha namespace release)"
       "ht_active_key t = Some (helm_active_key sha namespace release)"
    using assms by (auto simp: tasks_ok_def task_ok_def of_release_def)
  then have "i = j" using unique_keys_inj [of rows i j] assms(1) ij by (auto simp: tasks_ok_def)
  then show ?thesis using ij by simp
qed

text \<open>A finished task never changes; it can only be removed.\<close>

lemma finished_grow:
  assumes "grow_step sha rows rows'" and "t \<in> set rows" and "\<not> active_task t"
  shows "t \<in> set rows'"
  using assms
proof (induction rule: grow_step.induct)
  case (evolve rows rows')
  then obtain t' where "t' \<in> set rows'" "t' = t \<or> lifecycle t t'"
    using list_all2_in_left [OF evolve(1)] by blast
  then show ?case using evolve(3) lifecycle_same [of t t'] by auto
qed auto

lemma finished_grows:
  assumes "(grow_step sha)\<^sup>*\<^sup>* rows rows'" and "t \<in> set rows" and "\<not> active_task t"
  shows "t \<in> set rows'"
  using assms(1,2) by (induction rule: rtranclp_induct) (auto intro: finished_grow [OF _ _ assms(3)])

lemma finished_step:
  assumes "task_step sha rows rows'" and "t \<in> set rows" and "\<not> active_task t"
  shows "t \<in> set rows' \<or> failed_install t"
  using assms(1)
proof cases
  case evolve
  then show ?thesis using finished_grow [OF grow_step.evolve assms(2,3)] by blast
qed (use assms in auto)

lemma finished_steps:
  assumes "(task_step sha)\<^sup>*\<^sup>* rows rows'" and "t \<in> set rows" and "\<not> active_task t" and "\<not> failed_install t"
  shows "t \<in> set rows'"
  using assms(1,2)
proof (induction rule: rtranclp_induct)
  case (step y z)
  then show ?case using finished_step [OF step.hyps(2)] assms(3,4) by blast
qed

section \<open>Every call is a sequence of transitions\<close>

locale helm_engine =
  two_tables "tasks S" tc "logs S" lc "txs S"
  + A: sql_table "tasks S" tc ht_id "\<lambda>i t. t\<lparr>ht_id := i\<rparr>" unique_keys
  + B: sql_table "logs S" lc hl_id "\<lambda>i l. l\<lparr>hl_id := i\<rparr>" "\<lambda>_. True"
  for S :: "'db helm_store" and tc :: "'db \<Rightarrow> helm_task list" and lc :: "'db \<Rightarrow> helm_log list"
begin

lemma update_evolves:
  assumes "\<forall>r \<in> set (tc db). p r \<longrightarrow> lifecycle r (f r)"
  shows "grow_step sha (tc db) (tc (snd (update_where (tasks S) p f db)))"
  by (intro grow_step.evolve A.update_evolves assms)

lemmas get_latest_in = A.get_latest_in
lemmas get_latest_none = A.get_latest_none

lemma transaction_grow:
  assumes "(grow_step sha)\<^sup>*\<^sup>* (tc db) (tc (snd (fn db)))"
  shows "(grow_step sha)\<^sup>*\<^sup>* (tc db) (tc (snd (with_transaction (txs S) fail fn db)))"
  using transaction_effect [of fail fn db] assms by auto

lemma expire_stale_step:
  assumes ok: "tasks_ok sha (tc db)"
  shows "grow_step sha (tc db) (tc (snd (expire_stale S namespace release now1 now2 db)))"
proof -
  have no_growth: "grow_step sha rows rows" for rows
    by (rule grow_step.evolve) (simp add: list_all2_same)
  show ?thesis
  proof (cases "get_latest (tasks S) (\<lambda>t. of_release namespace release t \<and> active_task t) db")
    case (Inl e)
    then show ?thesis using no_growth by (simp add: expire_stale_def)
  next
    case (Inr found)
    show ?thesis
    proof (cases found)
      case None
      with Inr no_growth show ?thesis by (simp add: expire_stale_def)
    next
      case (Some t)
      with Inr have t: "t \<in> set (tc db)" "active_task t" using get_latest_in by blast+
      have "\<forall>r \<in> set (tc db). ht_id r = ht_id t \<longrightarrow> lifecycle r (close_task st_failed ph_failed msg now2 r)" for msg
        using t unique_ids [OF ok] lifecycle.fail by metis
      note ev = update_evolves [OF this]
      show ?thesis
      proof (cases "ht_updated t > now1 - helm_stale_after")
        case True
        with Inr Some no_growth show ?thesis by (simp add: expire_stale_def)
      next
        case False
        have "tc (snd (expire_stale S namespace release now1 now2 db)) = tc (snd (update_where (tasks S)
            (\<lambda>r. ht_id r = ht_id t)
            (close_task st_failed ph_failed ''Helm operation expired before completion'' now2) db))"
          using Inr Some False by (simp add: expire_stale_def split: prod.split sum.split)
        with ev show ?thesis by simp
      qed
    qed
  qed
qed

lemma no_growth: "grow_step sha rows rows"
  by (rule grow_step.evolve) (simp add: list_all2_same)

lemma insert_task_step:
  assumes "\<And>i. fresh_task sha (t\<lparr>ht_id := i\<rparr>)"
  shows "grow_step sha (tc db) (tc (snd (insert_task S key t db)))"
proof (cases "insert_row (tasks S) t db")
  case (Pair res db')
  have "tc (snd (insert_task S key t db)) = tc db'"
    using Pair by (simp add: insert_task_def split: sum.split option.split)
  moreover have "tc db' = tc db \<or> (\<exists>i. tc db' = tc db @ [t\<lparr>ht_id := i\<rparr>] \<and> unique_keys (tc db')
      \<and> 0 < i \<and> (\<forall>q \<in> set (tc db). ht_id q < i))"
    using Pair A.insert_failed [of t db _ db'] A.insert_ok [of t db _ db'] by (cases res) auto
  moreover have "grow_step sha (tc db) (tc db @ [t\<lparr>ht_id := i\<rparr>])"
    if "unique_keys (tc db @ [t\<lparr>ht_id := i\<rparr>])" "0 < i" "\<forall>q \<in> set (tc db). ht_id q < i" for i
    using assms that by (intro grow_step.create) auto
  ultimately show ?thesis using no_growth by metis
qed

lemma fresh_new_task:
  "is_supported_helm_operation operation \<Longrightarrow> owner \<noteq> [] \<Longrightarrow> release \<noteq> [] \<Longrightarrow> namespace \<noteq> [] \<Longrightarrow> chart \<noteq> [] \<Longrightarrow>
     fresh_task sha (new_task sha owner operation release namespace chart repo version now\<lparr>ht_id := i\<rparr>)"
  by (simp add: fresh_task_def new_task_def)

lemma create_grow:
  assumes "tasks_ok sha (tc db)"
  shows "(grow_step sha)\<^sup>*\<^sup>* (tc db) (tc (snd (create_helm_task S sha owner operation release namespace chart repo version nows db)))"
proof -
  obtain now1 now2 now3 where n: "nows = (now1, now2, now3)" by (cases nows)
  show ?thesis
  proof (cases "trim_space owner = [] \<or> trim_space operation = [] \<or> trim_space release = [] \<or>
      trim_space namespace = [] \<or> trim_space chart = [] \<or> \<not> is_supported_helm_operation (trim_space operation)")
    case True
    then show ?thesis by (auto simp: create_helm_task_def n Let_def)
  next
    case False
    let ?t = "new_task sha (trim_space owner) (trim_space operation) (trim_space release) (trim_space namespace)
      (trim_space chart) repo version now3"
    let ?fn = "\<lambda>db. case expire_stale S (trim_space namespace) (trim_space release) now1 now2 db of
        (Inl e, db) \<Rightarrow> (Err e, db)
      | (Inr _, db) \<Rightarrow> insert_task S (helm_active_key sha (trim_space namespace) (trim_space release)) ?t db"
    obtain res db1 where e: "expire_stale S (trim_space namespace) (trim_space release) now1 now2 db = (res, db1)" by force
    then have s1: "grow_step sha (tc db) (tc db1)"
      using expire_stale_step [OF assms, of "trim_space namespace" "trim_space release" now1 now2] by simp
    have "(grow_step sha)\<^sup>*\<^sup>* (tc db) (tc (snd (?fn db)))"
    proof (cases res)
      case (Inl x)
      with e s1 show ?thesis by auto
    next
      case (Inr u)
      have "grow_step sha (tc db1) (tc (snd (insert_task S
          (helm_active_key sha (trim_space namespace) (trim_space release)) ?t db1)))"
        using False by (intro insert_task_step fresh_new_task) auto
      with e s1 Inr show ?thesis by auto
    qed
    with False show ?thesis by (simp add: create_helm_task_def n Let_def transaction_grow)
  qed
qed

lemma fail_interrupted_grows: "grow_step sha (tc db) (tc (snd (fail_interrupted S now db)))"
proof -
  have "tc (snd (fail_interrupted S now db)) = tc (snd (update_where (tasks S) active_task
      (close_task st_failed ph_failed ''Helm operation was interrupted when CasOS stopped'' now) db))"
    by (simp add: fail_interrupted_def split: prod.split sum.split)
  then show ?thesis using update_evolves lifecycle.fail by simp
qed

lemma update_task_step:
  assumes "\<And>t. p t \<Longrightarrow> lifecycle t (f t)"
  shows "grow_step sha (tc db) (tc (snd (update_task S tid p f none db)))"
proof -
  have "tc (snd (update_task S tid p f none db)) = tc (snd (update_where (tasks S) (\<lambda>t. ht_id t = tid \<and> p t) f db))"
    by (simp add: update_task_def split: prod.split sum.split)
  then show ?thesis using update_evolves assms by simp
qed

lemma start_grows: "grow_step sha (tc db) (tc (snd (start_helm_task S tid phase now db)))"
  using no_growth by (auto simp: start_helm_task_def intro!: update_task_step lifecycle.start)

lemma touch_grows: "grow_step sha (tc db) (tc (snd (touch_helm_task S tid now db)))"
proof -
  have "tc (snd (touch_helm_task S tid now db)) = tc (snd (update_where (tasks S)
      (\<lambda>t. ht_id t = tid \<and> active_task t) (\<lambda>t. t\<lparr>ht_updated := now\<rparr>) db))"
    by (simp add: touch_helm_task_def split: prod.split sum.split)
  then show ?thesis using update_evolves lifecycle.touch by simp
qed

lemma phase_grows: "grow_step sha (tc db) (tc (snd (update_helm_phase S tid phase now db)))"
  using no_growth by (auto simp: update_helm_phase_def intro!: update_task_step lifecycle.install)

lemma finish_grows: "grow_step sha (tc db) (tc (snd (finish_helm_task S tid success msg now db)))"
  unfolding finish_helm_task_def
  by (rule update_task_step) (auto intro: lifecycle.succeed lifecycle.fail)

lemma insert_logs_tasks: "tc (snd (insert_logs S ls db)) = tc db"
proof (induction ls arbitrary: db)
  case (Cons l ls)
  obtain res db' where i: "insert_row (logs S) l db = (res, db')" by force
  then have "tc db' = tc db" using B_keeps_A(2) [of l db] by simp
  with i Cons show ?case by (cases res) auto
qed simp

lemma add_logs_grow: "(grow_step sha)\<^sup>*\<^sup>* (tc db) (tc (snd (add_helm_logs S tid ls now db)))"
proof -
  let ?ls = "map (\<lambda>l. if hl_created l = 0 then l\<lparr>hl_created := now\<rparr> else l) ls"
  let ?fn = "\<lambda>db. case insert_logs S ?ls db of (Inl e, db) \<Rightarrow> (Err e, db) | (Inr _, db) \<Rightarrow> touch_helm_task S tid now db"
  obtain res db1 where i: "insert_logs S ?ls db = (res, db1)" by force
  then have "tc db1 = tc db" using insert_logs_tasks [of ?ls db] by simp
  then have "grow_step sha (tc db) (tc (snd (?fn db)))"
    using i no_growth touch_grows [of sha db1 tid now] by (cases res) auto
  then show ?thesis
    by (auto simp: add_helm_logs_def intro: transaction_grow)
qed

text \<open>As transitions of the record.\<close>

lemma stutter: "task_step sha rows rows"
  by (rule grow_task [OF no_growth])

lemma transaction_steps:
  assumes "(task_step sha)\<^sup>*\<^sup>* (tc db) (tc (snd (fn db)))"
  shows "(task_step sha)\<^sup>*\<^sup>* (tc db) (tc (snd (with_transaction (txs S) fail fn db)))"
  using transaction_effect [of fail fn db] assms by auto

lemmas fail_interrupted_step = grow_task [OF fail_interrupted_grows]
lemmas start_step = grow_task [OF start_grows]
lemmas touch_step = grow_task [OF touch_grows]
lemmas phase_step = grow_task [OF phase_grows]
lemmas finish_step = grow_task [OF finish_grows]
lemmas create_steps = grow_tasks [OF create_grow]
lemmas add_logs_steps = grow_tasks [OF add_logs_grow]

lemma delete_steps:
  assumes ok: "tasks_ok sha (tc db)"
  shows "(task_step sha)\<^sup>*\<^sup>* (tc db) (tc (snd (delete_failed_install S tid db)))"
proof -
  have tx: "task_step sha (tc db) (tc (snd (case select_where (tasks S) q db of
        Inl e \<Rightarrow> (Err (Database e), db)
      | Inr rs \<Rightarrow>
          if rs = [] then (Ok (), db)
          else let ids = map ht_id rs in
            case delete_where (logs S) (\<lambda>l. hl_task l \<in> set ids) db of
              (Inl e, db) \<Rightarrow> (Err (Database e), db)
            | (Inr _, db) \<Rightarrow>
                (case delete_where (tasks S) (\<lambda>r. ht_id r \<in> set ids) db of
                   (Inl e, db) \<Rightarrow> (Err (Database e), db)
                 | (Inr _, db) \<Rightarrow> (Ok (), db)))))"
    if q: "\<And>r. q r \<Longrightarrow> failed_install r" for q
  proof (cases "select_where (tasks S) q db")
    case (Inl e)
    then show ?thesis using stutter by simp
  next
    case (Inr rs)
    then have rs: "rs = filter q (tc db)" using A.select_ok by simp
    let ?p = "\<lambda>r. ht_id r \<in> set (map ht_id rs)"
    obtain res1 db1 where d1: "delete_where (logs S) (\<lambda>l. hl_task l \<in> set (map ht_id rs)) db = (res1, db1)" by force
    then have t1: "tc db1 = tc db" using B_keeps_A(3) [of "\<lambda>l. hl_task l \<in> set (map ht_id rs)" db] by simp
    obtain res2 db2 where d2: "delete_where (tasks S) ?p db1 = (res2, db2)" by force
    have gone: "\<forall>r \<in> set (tc db1). ?p r \<longrightarrow> failed_install r"
    proof (intro ballI impI)
      fix r assume "r \<in> set (tc db1)" and "?p r"
      then obtain r' where "r' \<in> set (tc db)" "q r'" "ht_id r = ht_id r'" by (auto simp: rs)
      then show "failed_install r" using unique_ids [OF ok] \<open>r \<in> set (tc db1)\<close> t1 q by metis
    qed
    have "tc db2 = filter (\<lambda>r. \<not> ?p r) (tc db1) \<or> tc db2 = tc db1"
      using d2 A.delete_ok [of ?p db1 _ db2] A.delete_failed [of ?p db1 _ db2] by (cases res2) auto
    then have step: "task_step sha (tc db) (tc db2)"
      using task_step.remove [OF gone] t1 stutter by metis
    show ?thesis
      using Inr d1 d2 step stutter t1 by (cases res1; cases res2) (auto simp: Let_def)
  qed
  show ?thesis
  proof (cases "\<exists>t. get_helm_task S tid db = Ok (Some t) \<and> \<not> active_task t \<and> failed_install t")
    case True
    then obtain t where t: "get_helm_task S tid db = Ok (Some t)" "\<not> active_task t" "failed_install t" by blast
    show ?thesis
      by (simp add: delete_failed_install_def t)
        (rule transaction_steps, rule r_into_rtranclp, rule tx, simp)
  next
    case False
    then have "snd (delete_failed_install S tid db) = db"
      by (auto simp: delete_failed_install_def split: sum.split option.split)
    then show ?thesis by simp
  qed
qed

text \<open>What a deletion removes: failed installs of the release of a failed install it was asked to delete.\<close>

lemma delete_removes:
  assumes ok: "tasks_ok sha (tc db)" and t: "t \<in> set (tc db)"
    and gone: "t \<notin> set (tc (snd (delete_failed_install S tid db)))"
  shows "failed_install t \<and> (\<exists>r \<in> set (tc db). (tid = 0 \<or> ht_id r = tid) \<and> failed_install r \<and>
      of_release (ht_namespace t) (ht_release t) r) \<and>
    (\<forall>q \<in> set (tc (snd (delete_failed_install S tid db))). ht_id q \<noteq> ht_id t)"
proof -
  obtain r where r: "get_helm_task S tid db = Ok (Some r)" "\<not> active_task r" "failed_install r"
    using gone t by (auto simp: delete_failed_install_def split: sum.splits option.splits if_splits)
  then obtain rs0 where "select_where (tasks S) (\<lambda>t. tid = 0 \<or> ht_id t = tid) db = Inr (r # rs0)"
    by (auto simp: get_helm_task_def split: sum.splits list.splits)
  then have "r \<in> set (filter (\<lambda>t. tid = 0 \<or> ht_id t = tid) (tc db))"
    using A.select_ok [of "\<lambda>t. tid = 0 \<or> ht_id t = tid" db "r # rs0"] by (metis list.set_intros(1))
  then have rin: "r \<in> set (tc db)" "tid = 0 \<or> ht_id r = tid" by simp_all
  let ?q = "\<lambda>x. of_release (ht_namespace r) (ht_release r) x \<and> failed_install x"
  let ?ids = "map ht_id (filter ?q (tc db))"
  let ?body = "\<lambda>db. case select_where (tasks S) ?q db of
        Inl e \<Rightarrow> (Err (Database e), db)
      | Inr rs \<Rightarrow>
          if rs = [] then (Ok (), db)
          else let ids = map ht_id rs in
            case delete_where (logs S) (\<lambda>l. hl_task l \<in> set ids) db of
              (Inl e, db) \<Rightarrow> (Err (Database e), db)
            | (Inr _, db) \<Rightarrow>
                (case delete_where (tasks S) (\<lambda>r. ht_id r \<in> set ids) db of
                   (Inl e, db) \<Rightarrow> (Err (Database e), db)
                 | (Inr _, db) \<Rightarrow> (Ok (), db))"
  have run: "delete_failed_install S tid db = with_transaction (txs S) Database ?body db"
    using r by (simp add: delete_failed_install_def)
  have body: "tc (snd (?body db)) = tc db \<or> tc (snd (?body db)) = filter (\<lambda>x. ht_id x \<notin> set ?ids) (tc db)"
  proof (cases "select_where (tasks S) ?q db")
    case (Inr rs)
    then have rs: "rs = filter ?q (tc db)" using A.select_ok by simp
    obtain res1 db1 where d1: "delete_where (logs S) (\<lambda>l. hl_task l \<in> set (map ht_id rs)) db = (res1, db1)" by force
    then have t1: "tc db1 = tc db" using B_keeps_A(3) [of "\<lambda>l. hl_task l \<in> set (map ht_id rs)" db] by simp
    obtain res2 db2 where d2: "delete_where (tasks S) (\<lambda>x. ht_id x \<in> set (map ht_id rs)) db1 = (res2, db2)" by force
    then have "tc db2 = filter (\<lambda>x. ht_id x \<notin> set (map ht_id rs)) (tc db1) \<or> tc db2 = tc db1"
      using d2 A.delete_ok [of "\<lambda>x. ht_id x \<in> set (map ht_id rs)" db1 _ db2] A.delete_failed [of "\<lambda>x. ht_id x \<in> set (map ht_id rs)" db1 _ db2]
      by (cases res2) auto
    then show ?thesis using Inr d1 d2 t1 by (cases res1; cases res2) (auto simp: Let_def rs)
  qed simp
  have after: "tc (snd (delete_failed_install S tid db)) = filter (\<lambda>x. ht_id x \<notin> set ?ids) (tc db)"
  proof -
    have "tc (snd (delete_failed_install S tid db)) = tc db \<or> tc (snd (delete_failed_install S tid db)) = tc (snd (?body db))"
      using transaction_effect [of Database ?body db] unfolding run by blast
    moreover have "tc (snd (delete_failed_install S tid db)) \<noteq> tc db" using gone t by auto
    ultimately show ?thesis using body by argo
  qed
  with gone t have ids: "ht_id t \<in> set ?ids" by simp
  then obtain t' where "t' \<in> set (tc db)" "?q t'" "ht_id t' = ht_id t" by auto
  then have q: "?q t" using unique_ids [OF ok _ t] by metis
  show ?thesis
  proof (intro conjI)
    show "failed_install t" using q by simp
    show "\<exists>r \<in> set (tc db). (tid = 0 \<or> ht_id r = tid) \<and> failed_install r \<and> of_release (ht_namespace t) (ht_release t) r"
      using rin r(3) q by (intro bexI [of _ r]) (simp_all add: of_release_def)
    show "\<forall>q \<in> set (tc (snd (delete_failed_install S tid db))). ht_id q \<noteq> ht_id t"
      unfolding after using ids by (metis (mono_tags, lifting) mem_Collect_eq set_filter)
  qed
qed

end

section \<open>The whole interface\<close>

text \<open>The calls that can change the record, with the instants their clock reads.\<close>

datatype helm_call =
    Create string string string string string string string "int \<times> int \<times> int"
  | FailInterrupted int
  | Start int string int
  | Touch int int
  | Phase int string int
  | Finish int bool string int
  | AddLogs int "helm_log list" int
  | DeleteFailed int

fun run_call :: "'db helm_store \<Rightarrow> (string \<Rightarrow> string) \<Rightarrow> helm_call \<Rightarrow> 'db \<Rightarrow> 'db" where
  "run_call S sha (Create owner operation release namespace chart repo version nows) db =
     snd (create_helm_task S sha owner operation release namespace chart repo version nows db)"
| "run_call S sha (FailInterrupted now) db = snd (fail_interrupted S now db)"
| "run_call S sha (Start tid phase now) db = snd (start_helm_task S tid phase now db)"
| "run_call S sha (Touch tid now) db = snd (touch_helm_task S tid now db)"
| "run_call S sha (Phase tid phase now) db = snd (update_helm_phase S tid phase now db)"
| "run_call S sha (Finish tid success msg now) db = snd (finish_helm_task S tid success msg now db)"
| "run_call S sha (AddLogs tid ls now) db = snd (add_helm_logs S tid ls now db)"
| "run_call S sha (DeleteFailed tid) db = snd (delete_failed_install S tid db)"

definition run_calls :: "'db helm_store \<Rightarrow> (string \<Rightarrow> string) \<Rightarrow> helm_call list \<Rightarrow> 'db \<Rightarrow> 'db" where
  "run_calls S sha calls db = fold (run_call S sha) calls db"

context helm_engine
begin

lemma call_steps: "tasks_ok sha (tc db) \<Longrightarrow> (task_step sha)\<^sup>*\<^sup>* (tc db) (tc (run_call S sha c db))"
  by (cases c)
     (auto intro: create_steps add_logs_steps delete_steps fail_interrupted_step start_step touch_step
        phase_step finish_step)

lemma calls_steps: "tasks_ok sha (tc db) \<Longrightarrow> (task_step sha)\<^sup>*\<^sup>* (tc db) (tc (run_calls S sha cs db))"
proof (induction cs arbitrary: db)
  case (Cons c cs)
  then have "(task_step sha)\<^sup>*\<^sup>* (tc db) (tc (run_call S sha c db))" by (intro call_steps)
  moreover from this have "tasks_ok sha (tc (run_call S sha c db))" using Cons.prems by (rule steps_ok)
  ultimately show ?case using Cons.IH by (auto simp: run_calls_def intro: rtranclp_trans)
qed (simp add: run_calls_def)

lemma call_keeps_finished:
  assumes "tasks_ok sha (tc db)" "t \<in> set (tc db)" "\<not> active_task t" "\<forall>tid. c \<noteq> DeleteFailed tid"
  shows "t \<in> set (tc (run_call S sha c db))"
proof -
  have "(grow_step sha)\<^sup>*\<^sup>* (tc db) (tc (run_call S sha c db))"
    using assms(1,4) by (cases c)
     (auto intro: create_grow add_logs_grow fail_interrupted_grows start_grows touch_grows phase_grows finish_grows)
  then show ?thesis using finished_grows assms(2,3) by blast
qed

lemma calls_keep_finished:
  assumes "tasks_ok sha (tc db)" "t \<in> set (tc db)" "\<not> active_task t"
  shows "t \<in> set (tc (run_calls S sha calls db)) \<or>
    failed_install t \<and> (\<exists>pre tid post. calls = pre @ DeleteFailed tid # post \<and>
      t \<in> set (tc (run_calls S sha pre db)) \<and>
      (\<exists>r \<in> set (tc (run_calls S sha pre db)). (tid = 0 \<or> ht_id r = tid) \<and> failed_install r \<and>
         of_release (ht_namespace t) (ht_release t) r) \<and>
      (\<forall>q \<in> set (tc (run_calls S sha (pre @ [DeleteFailed tid]) db)). ht_id q \<noteq> ht_id t))"
  using assms(1,2)
proof (induction calls arbitrary: db)
  case (Cons c calls)
  let ?d = "run_call S sha c db"
  have ok: "tasks_ok sha (tc ?d)" using steps_ok [OF call_steps] Cons.prems(1) by blast
  have run: "run_calls S sha (c # cs) db = run_calls S sha cs ?d" for cs by (simp add: run_calls_def)
  show ?case
  proof (cases "t \<in> set (tc ?d)")
    case True
    from Cons.IH [OF ok True] show ?thesis
    proof (elim disjE conjE exE)
      fix pre tid post
      assume "failed_install t" "calls = pre @ DeleteFailed tid # post" "t \<in> set (tc (run_calls S sha pre ?d))"
        "\<exists>r \<in> set (tc (run_calls S sha pre ?d)). (tid = 0 \<or> ht_id r = tid) \<and> failed_install r \<and>
           of_release (ht_namespace t) (ht_release t) r"
        "\<forall>q \<in> set (tc (run_calls S sha (pre @ [DeleteFailed tid]) ?d)). ht_id q \<noteq> ht_id t"
      then show ?thesis by (intro disjI2 conjI exI [of _ "c # pre"] exI [of _ tid] exI [of _ post]) (simp_all add: run)
    qed (simp add: run)
  next
    case False
    then obtain tid where c: "c = DeleteFailed tid" using call_keeps_finished [OF Cons.prems assms(3)] by blast
    then have "t \<notin> set (tc (snd (delete_failed_install S tid db)))" using False by simp
    from delete_removes [OF Cons.prems this] c Cons.prems(2) show ?thesis
      by (intro disjI2 conjI exI [of _ "[]"] exI [of _ tid] exI [of _ calls]) (simp_all add: run_calls_def)
  qed
qed (simp add: run_calls_def)

end

section \<open>An engine in memory\<close>

record helm_mem =
  m_tasks :: "helm_task mem"
  m_logs :: "helm_log mem"
  m_commit :: "db_failure option"

definition mem_store :: "helm_mem helm_store" where
  "mem_store =
     \<lparr>tasks = mem_table m_tasks (\<lambda>m db. db\<lparr>m_tasks := m\<rparr>) ht_id (\<lambda>i t. t\<lparr>ht_id := i\<rparr>) unique_keys
         (DbFailure ''duplicate key''),
      logs = mem_table m_logs (\<lambda>m db. db\<lparr>m_logs := m\<rparr>) hl_id (\<lambda>i l. l\<lparr>hl_id := i\<rparr>) (\<lambda>_. True)
         (DbFailure ''duplicate key''),
      txs = \<lparr>begin_tx = (\<lambda>_. None),
         commit_tx = (\<lambda>db db'. case m_commit db' of None \<Rightarrow> (None, db') | Some e \<Rightarrow> (Some e, db)),
         rollback_tx = (\<lambda>db _. db)\<rparr>\<rparr>"

interpretation helm_memory: helm_engine mem_store "\<lambda>db. mrows (m_tasks db)" "\<lambda>db. mrows (m_logs db)"
proof -
  have t: "sql_table (tasks mem_store) (\<lambda>db. mrows (m_tasks db)) ht_id (\<lambda>i t. t\<lparr>ht_id := i\<rparr>) unique_keys"
    and l: "sql_table (logs mem_store) (\<lambda>db. mrows (m_logs db)) hl_id (\<lambda>i l. l\<lparr>hl_id := i\<rparr>) (\<lambda>_. True)"
    unfolding mem_store_def helm_store.simps by (rule mem_table_laws; simp)+
  show "helm_engine mem_store (\<lambda>db. mrows (m_tasks db)) (\<lambda>db. mrows (m_logs db))"
    unfolding helm_engine_def two_tables_def two_tables_axioms_def
    by (intro conjI t l sql_table.axioms(1) [OF t] sql_table.axioms(1) [OF l])
       (auto simp: mem_store_def mem_table_def Let_def split: prod.split option.splits)
qed

section \<open>What the record promises\<close>

text \<open>
  C6: whatever calls are made, in whatever order, and whichever of the database's statements
  fail on the way, no release ever has two active tasks, a task holds the key that blocks its
  release exactly while it is active, and status and phase fit together.
\<close>

theorem helm_record_invariant:
  assumes "helm_engine S tc lc" and "tc db = []"
  shows "let rows = tc (run_calls S sha calls db) in
     (\<forall>r \<in> set rows. \<forall>t \<in> set rows. active_task r \<and> active_task t \<and>
        of_release (ht_namespace t) (ht_release t) r \<longrightarrow> r = t) \<and>
     (\<forall>t \<in> set rows. (ht_active_key t \<noteq> None) = active_task t \<and>
        (ht_status t, ht_phase t) \<in> {(''pending'', ''queued''), (''running'', ''loading''), (''running'', ''installing''),
          (''succeeded'', ''ready''), (''failed'', ''failed'')})"
proof -
  have "(task_step sha)\<^sup>*\<^sup>* (tc db) (tc (run_calls S sha calls db))"
    by (rule helm_engine.calls_steps [OF assms(1)]) (simp add: assms(2))
  then have ok: "tasks_ok sha (tc (run_calls S sha calls db))"
    by (rule steps_ok) (simp add: assms(2))
  have "r = t" if "r \<in> set (tc (run_calls S sha calls db))" "t \<in> set (tc (run_calls S sha calls db))"
    "active_task r" "active_task t" "of_release (ht_namespace t) (ht_release t) r" for r t
    using one_active_per_release [OF ok that] by (simp add: of_release_def)
  moreover have "(ht_active_key t \<noteq> None) = active_task t \<and>
        (ht_status t, ht_phase t) \<in> {(''pending'', ''queued''), (''running'', ''loading''), (''running'', ''installing''),
          (''succeeded'', ''ready''), (''failed'', ''failed'')}"
    if "t \<in> set (tc (run_calls S sha calls db))" for t
  proof -
    have "task_ok sha t" using ok that by (simp add: tasks_ok_def)
    then show ?thesis by (auto simp: task_ok_def split: if_splits)
  qed
  ultimately show ?thesis by (auto simp: Let_def)
qed

text \<open>
  C7: a task that has finished keeps its outcome for ever, message and instants included, whatever is called afterwards
  and whichever statements fail. A failed install, too, is never changed: it stays until a call that deletes the failed
  installs of its release (by the id of one of them, or by the id 0, which reads the first row of the table) removes its row.
\<close>

theorem finished_task_is_final:
  assumes "helm_engine S tc lc" and "tasks_ok sha (tc db)" and "t \<in> set (tc db)" and "\<not> active_task t"
  shows "t \<in> set (tc (run_calls S sha calls db)) \<or>
    failed_install t \<and> (\<exists>pre tid post. calls = pre @ DeleteFailed tid # post \<and>
      t \<in> set (tc (run_calls S sha pre db)) \<and>
      (\<exists>r \<in> set (tc (run_calls S sha pre db)). (tid = 0 \<or> ht_id r = tid) \<and> failed_install r \<and>
         of_release (ht_namespace t) (ht_release t) r) \<and>
      (\<forall>q \<in> set (tc (run_calls S sha (pre @ [DeleteFailed tid]) db)). ht_id q \<noteq> ht_id t))"
  by (rule helm_engine.calls_keep_finished [OF assms])

abbreviation empty_mem :: helm_mem where
  "empty_mem \<equiv> \<lparr>m_tasks = \<lparr>mrows = [], mnext = 0, mfaults = []\<rparr>, m_logs = \<lparr>mrows = [], mnext = 0, mfaults = []\<rparr>,
     m_commit = None\<rparr>"

lemma mem_store_engine: "helm_engine mem_store (\<lambda>db. mrows (m_tasks db)) (\<lambda>db. mrows (m_logs db))"
  by (rule helm_memory.helm_engine_axioms)

theorem helm_record_invariant_witness:
  "list_all (\<lambda>r. (ht_active_key r \<noteq> None) = active_task r)
     (mrows (m_tasks (run_calls mem_store (\<lambda>_. ''k'')
       [Create ''o'' ''install'' ''r'' ''n'' ''c'' [] [] (1, 1, 1), Start 1 ''loading'' 2,
        Create ''o'' ''upgrade'' ''r'' ''n'' ''c'' [] [] (3, 3, 3)] empty_mem)))"
  using helm_record_invariant [OF mem_store_engine, of empty_mem "\<lambda>_. ''k''"
     "[Create ''o'' ''install'' ''r'' ''n'' ''c'' [] [] (1, 1, 1), Start 1 ''loading'' 2,
        Create ''o'' ''upgrade'' ''r'' ''n'' ''c'' [] [] (3, 3, 3)]"]
  by (simp add: Let_def list_all_iff)

theorem finished_task_is_final_witness:
  "let t = (new_task (\<lambda>_. ''k'') ''o'' ''install'' ''r'' ''n'' ''c'' [] [] 1)
        \<lparr>ht_id := 1, ht_active_key := None, ht_status := ''failed'', ht_phase := ''failed'', ht_error := ''no room''\<rparr>;
      db = empty_mem\<lparr>m_tasks := \<lparr>mrows = [t], mnext = 1, mfaults = []\<rparr>\<rparr>
   in t \<in> set (mrows (m_tasks (run_calls mem_store (\<lambda>_. ''k'') [Finish 1 True ''late'' 9, Touch 1 10] db)))"
  unfolding Let_def
  using finished_task_is_final [OF mem_store_engine, of "\<lambda>_. ''k''" "empty_mem\<lparr>m_tasks := \<lparr>mrows =
      [(new_task (\<lambda>_. ''k'') ''o'' ''install'' ''r'' ''n'' ''c'' [] [] 1)
        \<lparr>ht_id := 1, ht_active_key := None, ht_status := ''failed'', ht_phase := ''failed'', ht_error := ''no room''\<rparr>],
      mnext = 1, mfaults = []\<rparr>\<rparr>" _ "[Finish 1 True ''late'' 9, Touch 1 10]"]
  by (auto simp: tasks_ok_def task_ok_def unique_keys_def active_task_def new_task_def
        is_supported_helm_operation_def map_filter_simps Cons_eq_append_conv)

text \<open>
  While a task of the release is active and was refreshed within the last eleven minutes,
  no other task can be created for it, and trying changes nothing.
\<close>

theorem create_refused_while_active:
  assumes "helm_engine S tc lc" and "tasks_ok sha (tc db)"
    and "t \<in> set (tc db)" and "active_task t" and "of_release (trim_space namespace) (trim_space release) t"
    and "ht_updated t > now1 - helm_stale_after"
  shows "(\<exists>e. fst (create_helm_task S sha owner operation release namespace chart repo version (now1, now2, now3) db) = Inl e)
    \<and> tc (snd (create_helm_task S sha owner operation release namespace chart repo version (now1, now2, now3) db)) = tc db"
proof -
  note eng = assms(1)
  let ?p = "\<lambda>r. of_release (trim_space namespace) (trim_space release) r \<and> active_task r"
  have found: "r = t" if "get_latest (tasks S) ?p db = Inr (Some r)" for r
    using helm_engine.get_latest_in [OF eng that] one_active_per_release [OF assms(2) _ assms(3) _ assms(4) _ assms(5)]
    by blast
  have "\<exists>e. expire_stale S (trim_space namespace) (trim_space release) now1 now2 db = (Inl e, db)"
  proof (cases "get_latest (tasks S) ?p db")
    case (Inl e)
    then show ?thesis by (simp add: expire_stale_def)
  next
    case (Inr r)
    show ?thesis
    proof (cases r)
      case None
      then show ?thesis using helm_engine.get_latest_none [OF eng, of ?p db] Inr assms(3-5) by blast
    next
      case (Some r')
      then have "get_latest (tasks S) ?p db = Inr (Some t)" using found Inr by simp
      then show ?thesis using assms(6) by (simp add: expire_stale_def)
    qed
  qed
  then obtain e where e: "expire_stale S (trim_space namespace) (trim_space release) now1 now2 db = (Inl e, db)" by blast
  have tx: "tc (rollback_tx (txs S) db db') = tc db" for db'
    by (rule two_tables.rolled_back(1) [OF helm_engine.axioms(1) [OF eng]])
  show ?thesis
    by (auto simp: create_helm_task_def Let_def with_transaction_def e tx split: option.splits)
qed

theorem create_refused_while_active_witness:
  "let t = (new_task (\<lambda>_. ''k'') ''o'' ''install'' ''r'' ''n'' ''c'' [] [] 1)\<lparr>ht_id := 1\<rparr>;
      db = empty_mem\<lparr>m_tasks := \<lparr>mrows = [t], mnext = 1, mfaults = []\<rparr>\<rparr>
   in mrows (m_tasks (snd (create_helm_task mem_store (\<lambda>_. ''k'') ''o'' ''install'' ''r'' ''n'' ''c'' [] [] (2, 3, 4) db))) = [t]"
proof -
  let ?t = "(new_task (\<lambda>_. ''k'') ''o'' ''install'' ''r'' ''n'' ''c'' [] [] 1)\<lparr>ht_id := 1\<rparr>"
  let ?db = "empty_mem\<lparr>m_tasks := \<lparr>mrows = [?t], mnext = 1, mfaults = []\<rparr>\<rparr>"
  have "tasks_ok (\<lambda>_. ''k'') (mrows (m_tasks ?db))"
    by (simp add: tasks_ok_def task_ok_def unique_keys_def active_task_def new_task_def helm_active_key_def
        is_supported_helm_operation_def map_filter_simps)
  moreover have "active_task ?t" "?t \<in> set (mrows (m_tasks ?db))" "2 - helm_stale_after < ht_updated ?t"
    by (simp_all add: active_task_def new_task_def helm_stale_after_def)
  moreover have "of_release (trim_space ''n'') (trim_space ''r'') ?t" by code_simp
  ultimately show ?thesis
    using create_refused_while_active [OF mem_store_engine, of "\<lambda>_. ''k''" ?db ?t "''n''" "''r''" 2] by (simp add: Let_def)
qed

lemma update_task_ok:
  assumes "update_task S tid p f none db = (Ok (), db1)"
  obtains n where "update_where (tasks S) (\<lambda>t. ht_id t = tid \<and> p t) f db = (Inr (Suc n), db1)"
proof -
  obtain res db2 where u: "update_where (tasks S) (\<lambda>t. ht_id t = tid \<and> p t) f db = (res, db2)" by force
  with assms obtain n where "res = Inr n" "n \<noteq> 0" "db2 = db1"
    by (cases res) (auto simp: update_task_def split: if_splits)
  with u that show ?thesis by (cases n) auto
qed

text \<open>
  Once a task was recorded as succeeded, no later call can finish it again, whatever
  happened in between.
\<close>

theorem succeeded_only_once:
  assumes "helm_engine S tc lc" and "tasks_ok sha (tc db)"
    and "finish_helm_task S tid True msg now db = (Ok (), db1)"
  shows "fst (finish_helm_task S tid success msg' now' (run_calls S sha calls db1)) \<noteq> Ok ()"
proof
  note eng = assms(1)
  let ?db2 = "run_calls S sha calls db1"
  let ?p = "\<lambda>t. ht_id t = tid \<and> active_task t"
  assume again: "fst (finish_helm_task S tid success msg' now' ?db2) = Ok ()"
  have one: "task_step sha (tc db) (tc db1)"
    using helm_engine.finish_step [OF eng, of sha db tid True msg now] assms(3) by simp
  then have ok1: "tasks_ok sha (tc db1)" using assms(2) tasks_ok_step by blast
  then have ok2: "tasks_ok sha (tc ?db2)" using steps_ok helm_engine.calls_steps [OF eng] by blast
  have sql: "sql_table (tasks S) tc ht_id (\<lambda>i t. t\<lparr>ht_id := i\<rparr>) unique_keys"
    by (rule helm_engine.axioms(2) [OF eng])
  obtain n where n: "update_where (tasks S) ?p (close_task st_succeeded ph_ready [] now) db = (Inr (Suc n), db1)"
    using assms(3) unfolding finish_helm_task_def if_True by (rule update_task_ok)
  then obtain r where r: "r \<in> set (tc db)" "?p r" using row_table.update_positive [OF sql_table.axioms(1) [OF sql]] by blast
  let ?t = "close_task st_succeeded ph_ready [] now r"
  have "tc db1 = update_rows ?p (close_task st_succeeded ph_ready [] now) (tc db)"
    using row_table.update_ok [OF sql_table.axioms(1) [OF sql] n] by blast
  then have "?t \<in> set (tc db1)" using r by (auto simp: set_update_rows)
  moreover have t: "\<not> active_task ?t" "\<not> failed_install ?t" "ht_id ?t = tid"
    using r by (auto simp: close_task_def active_task_def failed_install_def)
  ultimately have "?t \<in> set (tc ?db2)"
    using finished_steps [OF helm_engine.calls_steps [OF eng ok1]] by blast
  moreover obtain db3 where "finish_helm_task S tid success msg' now' ?db2 = (Ok (), db3)"
    using again by (cases "finish_helm_task S tid success msg' now' ?db2") auto
  then obtain n' f where "update_where (tasks S) ?p f ?db2 = (Inr (Suc n'), db3)"
    unfolding finish_helm_task_def by (elim update_task_ok)
  then obtain q where "q \<in> set (tc ?db2)" "?p q" using row_table.update_positive [OF sql_table.axioms(1) [OF sql]] by blast
  ultimately show False using unique_ids [OF ok2, of q ?t] t by auto
qed

theorem succeeded_only_once_witness:
  "let t = (new_task (\<lambda>_. ''k'') ''o'' ''install'' ''r'' ''n'' ''c'' [] [] 1)\<lparr>ht_id := 1\<rparr>;
      db = empty_mem\<lparr>m_tasks := \<lparr>mrows = [t], mnext = 1, mfaults = []\<rparr>\<rparr>;
      db1 = snd (finish_helm_task mem_store 1 True [] 2 db)
   in fst (finish_helm_task mem_store 1 False ''no'' 4 (run_calls mem_store (\<lambda>_. ''k'') [Touch 1 3] db1)) \<noteq> Ok ()"
proof -
  let ?t = "(new_task (\<lambda>_. ''k'') ''o'' ''install'' ''r'' ''n'' ''c'' [] [] 1)\<lparr>ht_id := 1\<rparr>"
  let ?db = "empty_mem\<lparr>m_tasks := \<lparr>mrows = [?t], mnext = 1, mfaults = []\<rparr>\<rparr>"
  have ok: "tasks_ok (\<lambda>_. ''k'') (mrows (m_tasks ?db))"
    by (simp add: tasks_ok_def task_ok_def unique_keys_def active_task_def new_task_def helm_active_key_def
        is_supported_helm_operation_def map_filter_simps)
  have "fst (finish_helm_task mem_store 1 True [] 2 ?db) = Ok ()"
    by (simp add: finish_helm_task_def update_task_def mem_store_def mem_table_def next_fault_def count_rows_def
        active_task_def new_task_def)
  then have "finish_helm_task mem_store 1 True [] 2 ?db = (Ok (), snd (finish_helm_task mem_store 1 True [] 2 ?db))"
    by (metis prod.collapse)
  from succeeded_only_once [OF mem_store_engine ok this] show ?thesis by (simp add: Let_def)
qed

lemma first_of_release_spec:
  "t \<in> set (first_of_release seen ts) \<longleftrightarrow>
     find (\<lambda>u. release_key u = release_key t) ts = Some t \<and> release_key t \<notin> set seen \<and>
     ht_operation t = ''install'' \<and> ht_status t \<noteq> ''succeeded''"
proof (induction seen ts rule: first_of_release.induct)
  case (2 seen u ts)
  then show ?case by (auto simp: Let_def)
qed simp

text \<open>
  The list of unfinished installs has a task exactly when it is the newest one of its
  release in the window shown, and an install that has not succeeded; so each release appears
  at most once, and one whose install succeeded at last does not appear.
\<close>

theorem unfinished_installs_spec:
  assumes "helm_engine S tc lc" and "unfinished_installs S [] now db = Ok ts"
  shows "t \<in> set ts \<longleftrightarrow>
     find (\<lambda>u. release_key u = release_key t)
       (rev (filter (\<lambda>u. ht_created u > now - unfinished_shown_for) (tc db))) = Some t
     \<and> ht_operation t = ''install'' \<and> ht_status t \<noteq> ''succeeded''"
proof -
  have sql: "sql_table (tasks S) tc ht_id (\<lambda>i t. t\<lparr>ht_id := i\<rparr>) unique_keys"
    by (rule helm_engine.axioms(2) [OF assms(1)])
  have "ts = first_of_release [] (rev (filter (\<lambda>u. ht_created u > now - unfinished_shown_for) (tc db)))"
    using assms(2) row_table.select_ok [OF sql_table.axioms(1) [OF sql]] by (auto simp: unfinished_installs_def split: sum.splits)
  then show ?thesis by (simp add: first_of_release_spec)
qed

theorem unfinished_installs_spec_witness:
  "unfinished_installs mem_store [] 1 empty_mem = Ok [] \<and> new_task (\<lambda>_. []) [] [] [] [] [] [] [] 0 \<notin> set []"
proof -
  have "unfinished_installs mem_store [] 1 empty_mem = Ok []"
    by (simp add: unfinished_installs_def mem_store_def mem_table_def next_fault_def)
  with unfinished_installs_spec [OF mem_store_engine this, of "new_task (\<lambda>_. []) [] [] [] [] [] [] [] 0"]
  show ?thesis by simp
qed

end
