(* ===== verification/HelmRecorder.thy ===== *)
theory HelmRecorder
  imports HelmLifecycle
begin

text \<open>
  The recorder of a running Helm operation (object/helm_operation_recorder.go). Writers hand
  log lines to a bounded queue, one worker writes them in batches, and \<open>Finish\<close> closes the
  queue and records the outcome. The goroutines are a step relation: each rule is what one of
  them does between two synchronisations. The functions that persist are fields of the
  recorder, so \<open>finishTaskWithRetry\<close> takes the two it calls as arguments.
\<close>

section \<open>The queue and its worker\<close>

definition log_batch_size :: nat where "log_batch_size = 50"

definition log_queue_size :: nat where "log_queue_size = 100"

definition log_level :: "string \<Rightarrow> string" where
  "log_level line =
     (let trimmed = trim_space line in
      if 6 \<le> length trimmed \<and> equal_fold (take 6 trimmed) ''ERROR:'' then ''error'' else ''info'')"

definition log_entry :: "int \<Rightarrow> string \<Rightarrow> int \<Rightarrow> helm_log" where
  "log_entry tid line now =
     \<lparr>hl_id = 0, hl_task = tid, hl_level = log_level line, hl_message = line, hl_created = now\<rparr>"

text \<open>
  \<open>writers\<close> are the calls of \<open>RecordLog\<close> that passed the gate and have not returned.
  \<open>accepted\<close> and \<open>flushed\<close> are the history: the lines put on the queue, the batches handed to
  \<open>persistLogs\<close>.
\<close>

record recorder =
  queue :: "helm_log list"
  gate_closed :: bool
  queue_closed :: bool
  writers :: "helm_log list"
  batch :: "helm_log list"
  batch_failed :: bool
  worker_done :: bool
  accepted :: "helm_log list"
  flushed :: "helm_log list list"

definition new_recorder :: recorder where
  "new_recorder = \<lparr>queue = [], gate_closed = False, queue_closed = False, writers = [], batch = [],
     batch_failed = False, worker_done = False, accepted = [], flushed = []\<rparr>"

text \<open>The closure \<open>flush\<close> of \<open>run\<close>; \<open>persist\<close> is the field \<open>persistLogs\<close>.\<close>

definition flush ::
  "(helm_log list \<Rightarrow> 'db \<Rightarrow> (helm_error, unit) result \<times> 'db) \<Rightarrow> recorder \<Rightarrow> 'db \<Rightarrow> recorder \<times> 'db" where
  "flush persist r db =
     (if batch r = [] then (r, db)
      else
        (let (res, db) = persist (batch r) db
         in (r\<lparr>batch := [], batch_failed := batch_failed r \<or> res \<noteq> Ok (), flushed := flushed r @ [batch r]\<rparr>, db)))"

definition receive ::
  "(helm_log list \<Rightarrow> 'db \<Rightarrow> (helm_error, unit) result \<times> 'db) \<Rightarrow> recorder \<Rightarrow> 'db \<Rightarrow> recorder \<times> 'db" where
  "receive persist r db =
     (case queue r of
        [] \<Rightarrow> (r, db)
      | e # q \<Rightarrow>
          (let r = r\<lparr>queue := q, batch := batch r @ [e]\<rparr>
           in if log_batch_size \<le> length (batch r) then flush persist r db else (r, db)))"

inductive rec_step ::
  "'db helm_store \<Rightarrow> int \<Rightarrow> recorder \<times> 'db \<Rightarrow> recorder \<times> 'db \<Rightarrow> bool" for S tid where
  enter: "\<not> gate_closed r \<Longrightarrow>
    rec_step S tid (r, db) (r\<lparr>writers := writers r @ [log_entry tid line now]\<rparr>, db)"
| enqueue: "writers r = a @ e # b \<Longrightarrow> length (queue r) < log_queue_size \<Longrightarrow>
    rec_step S tid (r, db) (r\<lparr>writers := a @ b, queue := queue r @ [e], accepted := accepted r @ [e]\<rparr>, db)"
| give_up: "writers r = a @ e # b \<Longrightarrow> rec_step S tid (r, db) (r\<lparr>writers := a @ b\<rparr>, db)"
| close_gate: "rec_step S tid (r, db) (r\<lparr>gate_closed := True\<rparr>, db)"
| close_queue: "gate_closed r \<Longrightarrow> writers r = [] \<Longrightarrow> rec_step S tid (r, db) (r\<lparr>queue_closed := True\<rparr>, db)"
| receive: "\<not> worker_done r \<Longrightarrow>
    rec_step S tid (r, db) (receive (\<lambda>ls. add_helm_logs S tid ls now) r db)"
| tick: "\<not> worker_done r \<Longrightarrow>
    rec_step S tid (r, db) (flush (\<lambda>ls. add_helm_logs S tid ls now) r db)"
| heartbeat: "\<not> worker_done r \<Longrightarrow> rec_step S tid (r, db) (r, snd (touch_helm_task S tid now db))"
| stop: "\<not> worker_done r \<Longrightarrow> queue_closed r \<Longrightarrow> queue r = [] \<Longrightarrow>
    flush (\<lambda>ls. add_helm_logs S tid ls now) r db = (r', db') \<Longrightarrow>
    rec_step S tid (r, db) (r'\<lparr>worker_done := True\<rparr>, db')"

inductive_cases rec_stepE: "rec_step S tid (r, db) s"

section \<open>Nothing is lost, doubled or reordered\<close>

definition rec_ok :: "recorder \<Rightarrow> bool" where
  "rec_ok r \<longleftrightarrow> accepted r = concat (flushed r) @ batch r @ queue r
     \<and> (\<forall>b \<in> set (flushed r). b \<noteq> [] \<and> length b \<le> log_batch_size)
     \<and> length (batch r) < log_batch_size \<and> length (queue r) \<le> log_queue_size
     \<and> (queue_closed r \<longrightarrow> gate_closed r \<and> writers r = [])
     \<and> (worker_done r \<longrightarrow> queue_closed r \<and> queue r = [] \<and> batch r = [])"


lemma flush_fields:
  assumes "flush persist r db = (r', db')"
  shows "queue r' = queue r \<and> batch r' = [] \<and> accepted r' = accepted r \<and> writers r' = writers r
     \<and> gate_closed r' = gate_closed r \<and> queue_closed r' = queue_closed r \<and> worker_done r' = worker_done r
     \<and> concat (flushed r') = concat (flushed r) @ batch r
     \<and> (\<forall>b \<in> set (flushed r'). b \<in> set (flushed r) \<or> b = batch r \<and> b \<noteq> [])"
  using assms by (auto simp: flush_def Let_def split: if_splits prod.splits)

lemma rec_step_ok: "rec_step S tid s s' \<Longrightarrow> rec_ok (fst s) \<Longrightarrow> rec_ok (fst s')"
proof (induction rule: rec_step.induct)
  case (receive r db now)
  show ?case
  proof (cases "queue r")
    case Nil
    with receive show ?thesis by (simp add: receive_def)
  next
    case (Cons e q)
    let ?r = "r\<lparr>queue := q, batch := batch r @ [e]\<rparr>"
    show ?thesis
    proof (cases "log_batch_size \<le> length (batch ?r)")
      case True
      obtain r' db' where f: "flush (\<lambda>ls. add_helm_logs S tid ls now) ?r db = (r', db')" by force
      have "receive (\<lambda>ls. add_helm_logs S tid ls now) r db = (r', db')"
        using True f by (simp add: receive_def Cons Let_def)
      moreover have "rec_ok r'"
      proof -
        have "length (batch ?r) \<le> log_batch_size" using receive(2) by (simp add: rec_ok_def)
        then have "\<forall>b \<in> set (flushed r'). b \<noteq> [] \<and> length b \<le> log_batch_size"
          using flush_fields [OF f] receive(2) unfolding rec_ok_def by fastforce
        then show ?thesis
          using flush_fields [OF f] receive(1,2) Cons by (simp add: rec_ok_def log_batch_size_def)
      qed
      ultimately show ?thesis by simp
    next
      case False
      with receive Cons show ?thesis by (auto simp: receive_def rec_ok_def Let_def)
    qed
  qed
next
  case (tick r db now)
  obtain r' db' where f: "flush (\<lambda>ls. add_helm_logs S tid ls now) r db = (r', db')" by force
  have "\<forall>b \<in> set (flushed r'). b \<noteq> [] \<and> length b \<le> log_batch_size"
    using flush_fields [OF f] tick(2) unfolding rec_ok_def by fastforce
  with flush_fields [OF f] tick show ?case by (simp add: f rec_ok_def log_batch_size_def)
next
  case (stop r now db r' db')
  have "\<forall>b \<in> set (flushed r'). b \<noteq> [] \<and> length b \<le> log_batch_size"
    using flush_fields [OF stop(4)] stop(5) unfolding rec_ok_def by fastforce
  with flush_fields [OF stop(4)] stop show ?case by (simp add: rec_ok_def log_batch_size_def)
qed (auto simp: rec_ok_def)

lemma new_recorder_ok: "rec_ok new_recorder"
  by (simp add: rec_ok_def new_recorder_def log_batch_size_def)

lemma recorder_ok: "(rec_step S tid)\<^sup>*\<^sup>* (new_recorder, db0) s \<Longrightarrow> rec_ok (fst s)"
  by (induction rule: rtranclp_induct) (auto simp: new_recorder_ok intro: rec_step_ok)

text \<open>What a log row says, whatever id and instant it got.\<close>

definition log_body :: "helm_log \<Rightarrow> int \<times> string \<times> string" where
  "log_body l = (hl_task l, hl_level l, hl_message l)"

context helm_engine
begin

lemma insert_logs_ok:
  "insert_logs S ls db = (Inr u, db') \<Longrightarrow> map log_body (lc db') = map log_body (lc db) @ map log_body ls"
proof (induction ls arbitrary: db)
  case (Cons l ls)
  obtain res db1 where i: "insert_row (logs S) l db = (res, db1)" by force
  with Cons.prems obtain l' where "res = Inr l'" by (cases res) auto
  with i B.insert_ok [of l db l' db1] have "map log_body (lc db1) = map log_body (lc db) @ [log_body l]"
    by (auto simp: log_body_def)
  with Cons i \<open>res = Inr l'\<close> show ?case by auto
qed simp

lemma touch_keeps_logs: "lc (snd (touch_helm_task S tid now db)) = lc db"
  using A_keeps_B(1) [of "\<lambda>t. ht_id t = tid \<and> active_task t" "\<lambda>t. t\<lparr>ht_updated := now\<rparr>" db]
  by (auto simp: touch_helm_task_def split: prod.split sum.split)

lemma add_logs_ok:
  assumes "add_helm_logs S tid ls now db = (Ok (), db')"
  shows "map log_body (lc db') = map log_body (lc db) @ map log_body ls"
proof (cases "ls = []")
  case True
  with assms show ?thesis by (simp add: add_helm_logs_def)
next
  case False
  let ?ls = "map (\<lambda>l. if hl_created l = 0 then l\<lparr>hl_created := now\<rparr> else l) ls"
  let ?fn = "\<lambda>db. case insert_logs S ?ls db of (Inl e, db) \<Rightarrow> (Err e, db) | (Inr _, db) \<Rightarrow> touch_helm_task S tid now db"
  have "with_transaction (txs S) Database ?fn db = (Ok (), db')"
    using assms False by (simp add: add_helm_logs_def split: if_splits)
  then obtain db1 where f: "?fn db = (Ok (), db1)" "lc db' = lc db1"
    by (rule transaction_ok)
  obtain res db2 where i: "insert_logs S ?ls db = (res, db2)" by force
  with f obtain u where "res = Inr u" by (cases res) auto
  with i f have "touch_helm_task S tid now db2 = (Ok (), db1)" by simp
  then have "lc db1 = lc db2" using touch_keeps_logs [of tid now db2] by simp
  moreover have "map log_body (lc db2) = map log_body (lc db) @ map log_body ?ls"
    using i \<open>res = Inr u\<close> insert_logs_ok by blast
  moreover have "map log_body ?ls = map log_body ls" by (auto simp: log_body_def)
  ultimately show ?thesis using f by simp
qed

lemma flush_rows:
  assumes "flush (\<lambda>ls. add_helm_logs S tid ls now) r db = (r', db')" and "\<not> batch_failed r'"
  shows "\<not> batch_failed r \<and> map log_body (lc db') = map log_body (lc db) @ map log_body (batch r)"
proof (cases "batch r = []")
  case False
  obtain res db1 where a: "add_helm_logs S tid (batch r) now db = (res, db1)" by force
  with assms False have "res = Ok ()" "db' = db1" "\<not> batch_failed r" by (auto simp: flush_def)
  with a add_logs_ok show ?thesis by blast
qed (use assms in \<open>auto simp: flush_def\<close>)

lemma rec_step_rows:
  assumes "rec_step S tid s s'" and "\<not> batch_failed (fst s')"
  shows "\<not> batch_failed (fst s) \<and>
    (map log_body (lc (snd s)) = rows @ map log_body (concat (flushed (fst s))) \<longrightarrow>
     map log_body (lc (snd s')) = rows @ map log_body (concat (flushed (fst s'))))"
  using assms
proof (induction rule: rec_step.induct)
  case (receive r db now)
  show ?case
  proof (cases "queue r")
    case Nil
    with receive show ?thesis by (simp add: receive_def)
  next
    case (Cons e q)
    let ?r = "r\<lparr>queue := q, batch := batch r @ [e]\<rparr>"
    show ?thesis
    proof (cases "log_batch_size \<le> length (batch ?r)")
      case True
      obtain r' db' where f: "flush (\<lambda>ls. add_helm_logs S tid ls now) ?r db = (r', db')" by force
      then have "receive (\<lambda>ls. add_helm_logs S tid ls now) r db = (r', db')"
        using True by (simp add: receive_def Cons Let_def)
      with receive flush_rows [OF f] flush_fields [OF f] show ?thesis by simp
    next
      case False
      with receive Cons show ?thesis by (simp add: receive_def Let_def)
    qed
  qed
next
  case (tick r db now)
  obtain r' db' where f: "flush (\<lambda>ls. add_helm_logs S tid ls now) r db = (r', db')" by force
  with tick flush_rows [OF f] flush_fields [OF f] show ?case by simp
next
  case (stop r now db r' db')
  from stop flush_rows [OF stop(4)] flush_fields [OF stop(4)] show ?case by simp
next
  case (heartbeat r now db)
  then show ?case by (simp add: touch_keeps_logs)
qed auto

lemma recorder_rows:
  "(rec_step S tid)\<^sup>*\<^sup>* (new_recorder, db0) s \<Longrightarrow> \<not> batch_failed (fst s) \<Longrightarrow>
     map log_body (lc (snd s)) = map log_body (lc db0) @ map log_body (concat (flushed (fst s)))"
proof (induction rule: rtranclp_induct)
  case (step y z)
  with rec_step_rows [OF step(2)] show ?case by blast
qed (simp add: new_recorder_def)

end

text \<open>
  C8: every line a writer was told is accepted is handed to the database exactly once and in
  the order of acceptance, in batches of at most fifty; nothing can be sent on the queue after
  it was closed; and when the worker has ended without a failed batch, the log table has gained
  exactly the accepted lines.
\<close>

theorem recorder_loses_nothing:
  assumes "helm_engine S tc lc" and "(rec_step S tid)\<^sup>*\<^sup>* (new_recorder, db0) (r, db)"
  shows "accepted r = concat (flushed r) @ batch r @ queue r
    \<and> (\<forall>b \<in> set (flushed r). b \<noteq> [] \<and> length b \<le> 50)
    \<and> (queue_closed r \<longrightarrow> writers r = [])
    \<and> (worker_done r \<and> \<not> batch_failed r \<longrightarrow>
        map log_body (lc db) = map log_body (lc db0) @ map log_body (accepted r))"
proof -
  have "rec_ok r" using recorder_ok [OF assms(2)] by simp
  then show ?thesis
    using helm_engine.recorder_rows [OF assms] by (auto simp: rec_ok_def log_batch_size_def)
qed

theorem recorder_loses_nothing_witness:
  "let e = log_entry 1 ''ERROR: x'' 5; r = new_recorder\<lparr>queue := [e], accepted := [e]\<rparr>
   in accepted r = concat (flushed r) @ batch r @ queue r"
proof -
  let ?e = "log_entry 1 ''ERROR: x'' 5"
  have 1: "rec_step mem_store 1 (new_recorder, empty_mem) (new_recorder\<lparr>writers := writers new_recorder @ [?e]\<rparr>, empty_mem)"
    by (rule rec_step.enter) (simp add: new_recorder_def)
  have "rec_step mem_store 1 (new_recorder\<lparr>writers := [?e]\<rparr>, empty_mem)
     ((new_recorder\<lparr>writers := [?e]\<rparr>)\<lparr>writers := [] @ [], queue := queue (new_recorder\<lparr>writers := [?e]\<rparr>) @ [?e],
        accepted := accepted (new_recorder\<lparr>writers := [?e]\<rparr>) @ [?e]\<rparr>, empty_mem)"
    by (rule rec_step.enqueue) (simp_all add: new_recorder_def log_queue_size_def)
  with 1 have "(rec_step mem_store 1)\<^sup>*\<^sup>* (new_recorder, empty_mem) (new_recorder\<lparr>queue := [?e], accepted := [?e]\<rparr>, empty_mem)"
    by (simp add: new_recorder_def)
  from recorder_loses_nothing [OF mem_store_engine this] show ?thesis by (simp add: Let_def)
qed

section \<open>Recording the outcome\<close>

text \<open>
  \<open>finishTaskWithRetry\<close>: the \<open>k\<close>-th attempt calls \<open>finish k\<close>; \<open>finished\<close> recognises
  \<open>ErrHelmOperationAlreadyFinished\<close> and \<open>cancelled\<close> a cancelled or expired context. The
  result is the error, or none.
\<close>

definition finish_attempts :: nat where "finish_attempts = 3"

fun finish_with_retry ::
  "(nat \<Rightarrow> 'db \<Rightarrow> (helm_error, unit) result \<times> 'db) \<Rightarrow> ('db \<Rightarrow> (helm_error, bool) result) \<Rightarrow> (helm_error \<Rightarrow> bool)
     \<Rightarrow> (helm_error \<Rightarrow> bool) \<Rightarrow> nat \<Rightarrow> helm_error option \<Rightarrow> 'db \<Rightarrow> helm_error option \<times> 'db" where
  "finish_with_retry finish matches finished cancelled 0 prev_err db = (prev_err, db)"
| "finish_with_retry finish matches finished cancelled (Suc n) prev_err db =
     (case finish n db of
        (Inr _, db) \<Rightarrow> (None, db)
      | (Inl e, db) \<Rightarrow>
          if finished e then
            (case matches db of
               Inl e' \<Rightarrow> (Some (VerifyFailed e'), db)
             | Inr True \<Rightarrow> (None, db)
             | Inr False \<Rightarrow> (Some e, db))
          else if cancelled e then (Some e, db)
          else finish_with_retry finish matches finished cancelled n (Some e) db)"

text \<open>What the recorder relies on of the two functions: each only confirms an outcome that holds.\<close>

locale outcome_store =
  fixes finish :: "nat \<Rightarrow> 'db \<Rightarrow> (helm_error, unit) result \<times> 'db" and matches :: "'db \<Rightarrow> (helm_error, bool) result"
    and inv :: "'db \<Rightarrow> bool" and outcome :: "'db \<Rightarrow> bool"
  assumes finish_inv: "inv db \<Longrightarrow> inv (snd (finish k db))"
    and finish_outcome: "inv db \<Longrightarrow> finish k db = (Inr u, db') \<Longrightarrow> outcome db'"
    and matches_outcome: "inv db \<Longrightarrow> matches db = Inr True \<Longrightarrow> outcome db"
begin

lemma retry_outcome:
  "inv db \<Longrightarrow> (n = 0 \<longrightarrow> prev_err \<noteq> None) \<Longrightarrow> finish_with_retry finish matches finished cancelled n prev_err db = (None, db') \<Longrightarrow>
     outcome db'"
proof (induction n arbitrary: prev_err db)
  case (Suc n)
  obtain res db1 where f: "finish n db = (res, db1)" by force
  then have inv1: "inv db1" using finish_inv [OF Suc.prems(1), of n] by simp
  show ?case
  proof (cases res)
    case (Inr u)
    with f Suc.prems finish_outcome show ?thesis by auto
  next
    case (Inl e)
    with f Suc.prems(3) inv1 Suc.IH [OF inv1] matches_outcome [OF inv1] show ?thesis
      by (auto split: if_splits sum.splits bool.splits)
  qed
qed simp

end

definition recorder_finish ::
  "'db helm_store \<Rightarrow> (helm_error \<Rightarrow> bool) \<Rightarrow> int \<Rightarrow> bool \<Rightarrow> string \<Rightarrow> (nat \<Rightarrow> int) \<Rightarrow> 'db \<Rightarrow> helm_error option \<times> 'db" where
  "recorder_finish S cancelled tid success msg now db =
     finish_with_retry (\<lambda>k. finish_helm_task S tid success msg (now k)) (has_terminal_outcome S tid success msg)
       (\<lambda>e. e = AlreadyFinished tid) cancelled finish_attempts None db"

text \<open>The task's row, found under its id, has the outcome.\<close>

definition row_outcome :: "helm_task list \<Rightarrow> int \<Rightarrow> bool \<Rightarrow> string \<Rightarrow> bool" where
  "row_outcome rows tid success msg \<longleftrightarrow> (\<exists>t \<in> set rows. ht_id t = tid \<and> terminal_outcome success msg t)"

context helm_engine
begin

lemma helm_outcome_store:
  assumes "0 < tid"
  shows "outcome_store (\<lambda>k. finish_helm_task S tid success msg (now k)) (has_terminal_outcome S tid success msg)
    (\<lambda>db. tasks_ok sha (tc db)) (\<lambda>db. row_outcome (tc db) tid success msg)"
proof
  fix k db
  assume "tasks_ok sha (tc db)"
  then show "tasks_ok sha (tc (snd (finish_helm_task S tid success msg (now k) db)))"
    using finish_step tasks_ok_step by blast
next
  fix k db u db'
  let ?f = "close_task (if success then ''succeeded'' else ''failed'') (if success then ''ready'' else ''failed'')
     (if success then [] else msg) (now k)"
  let ?p = "\<lambda>t. ht_id t = tid \<and> active_task t"
  assume "finish_helm_task S tid success msg (now k) db = (Inr u, db')"
  then obtain n where n: "update_where (tasks S) ?p ?f db = (Inr (Suc n), db')"
    unfolding finish_helm_task_def by (auto elim: update_task_ok)
  then obtain r where r: "r \<in> set (tc db)" "?p r" using A.update_positive by blast
  have "tc db' = update_rows ?p ?f (tc db)" using A.update_ok [OF n] by blast
  with r have "?f r \<in> set (tc db')" by (auto simp: set_update_rows)
  moreover have "ht_id (?f r) = tid" "terminal_outcome success msg (?f r)"
    using r by (auto simp: close_task_def terminal_outcome_def)
  ultimately show "row_outcome (tc db') tid success msg" unfolding row_outcome_def by blast
next
  fix db
  assume "has_terminal_outcome S tid success msg db = Inr True"
  then obtain t where t: "get_helm_task S tid db = Ok (Some t)" "terminal_outcome success msg t"
    by (auto simp: has_terminal_outcome_def split: sum.splits option.splits)
  then obtain ts where "select_where (tasks S) (\<lambda>t. tid = 0 \<or> ht_id t = tid) db = Inr (t # ts)"
    by (auto simp: get_helm_task_def split: sum.splits list.splits)
  then have "t \<in> set (filter (\<lambda>t. tid = 0 \<or> ht_id t = tid) (tc db))"
    using A.select_ok by (metis list.set_intros(1))
  with t assms show "row_outcome (tc db) tid success msg" by (auto simp: row_outcome_def)
qed

end

interpretation recorder_memory: outcome_store
  "\<lambda>k. finish_helm_task mem_store 1 True [] (now k)" "has_terminal_outcome mem_store 1 True []"
  "\<lambda>db. tasks_ok sha (mrows (m_tasks db))" "\<lambda>db. row_outcome (mrows (m_tasks db)) 1 True []"
  for now sha
  by (rule helm_memory.helm_outcome_store) simp

text \<open>
  C9: when \<open>Finish\<close> reports no error, the task's row holds exactly the outcome that was to be
  recorded, even when attempts failed or answers were lost on the way.
\<close>

theorem finish_reports_truthfully:
  assumes "helm_engine S tc lc" and "tasks_ok sha (tc db)" and "0 < tid"
    and "recorder_finish S cancelled tid success msg now db = (None, db')"
  shows "\<exists>t \<in> set (tc db'). ht_id t = tid \<and> terminal_outcome success msg t"
proof -
  note store = helm_engine.helm_outcome_store [OF assms(1,3), of success msg now sha]
  have "row_outcome (tc db') tid success msg"
    using assms(4) unfolding recorder_finish_def
    by (rule outcome_store.retry_outcome [OF store assms(2), rotated]) (simp add: finish_attempts_def)
  then show ?thesis by (simp add: row_outcome_def)
qed

theorem finish_reports_truthfully_witness:
  "let t = (new_task (\<lambda>_. ''k'') ''o'' ''install'' ''r'' ''n'' ''c'' [] [] 1)\<lparr>ht_id := 1\<rparr>;
      db = empty_mem\<lparr>m_tasks := \<lparr>mrows = [t], mnext = 1, mfaults = [Some (DbFailure ''lost''), None]\<rparr>\<rparr>
   in \<exists>t \<in> set (mrows (m_tasks (snd (recorder_finish mem_store (\<lambda>_. False) 1 False ''boom'' (\<lambda>_. 7) db)))).
        ht_id t = 1 \<and> terminal_outcome False ''boom'' t"
proof -
  let ?t = "(new_task (\<lambda>_. ''k'') ''o'' ''install'' ''r'' ''n'' ''c'' [] [] 1)\<lparr>ht_id := 1\<rparr>"
  let ?db = "empty_mem\<lparr>m_tasks := \<lparr>mrows = [?t], mnext = 1, mfaults = [Some (DbFailure ''lost''), None]\<rparr>\<rparr>"
  have ok: "tasks_ok (\<lambda>_. ''k'') (mrows (m_tasks ?db))"
    by (simp add: tasks_ok_def task_ok_def unique_keys_def active_task_def new_task_def helm_active_key_def
        is_supported_helm_operation_def map_filter_simps)
  have "fst (recorder_finish mem_store (\<lambda>_. False) 1 False ''boom'' (\<lambda>_. 7) ?db) = None"
    by (simp add: recorder_finish_def finish_attempts_def numeral_3_eq_3 finish_helm_task_def update_task_def mem_store_def
        mem_table_def next_fault_def count_rows_def active_task_def new_task_def)
  then have "recorder_finish mem_store (\<lambda>_. False) 1 False ''boom'' (\<lambda>_. 7) ?db
     = (None, snd (recorder_finish mem_store (\<lambda>_. False) 1 False ''boom'' (\<lambda>_. 7) ?db))" by (metis prod.collapse)
  from finish_reports_truthfully [OF mem_store_engine ok _ this] show ?thesis by (simp add: Let_def)
qed

end
