(* ===== verification/GoRegexp.thy ===== *)
theory GoRegexp
  imports GoStrings
begin

text \<open>
  The regular expressions the code compiles with \<open>regexp.MustCompile\<close>, as far as they are
  anchored at both ends: a syntax tree, the strings it matches as a relation, and a matcher by
  derivatives that decides it.
\<close>

datatype re =
    Nothing
  | Empty
  | Chr "char list"
  | Seq re re
  | Alt re re
  | Star re

definition Opt :: "re \<Rightarrow> re" where "Opt r = Alt r Empty"

definition Plus :: "re \<Rightarrow> re" where "Plus r = Seq r (Star r)"

inductive in_re :: "re \<Rightarrow> string \<Rightarrow> bool" where
  empty: "in_re Empty []"
| chr: "c \<in> set cs \<Longrightarrow> in_re (Chr cs) [c]"
| seq: "in_re r s \<Longrightarrow> in_re q t \<Longrightarrow> in_re (Seq r q) (s @ t)"
| alt1: "in_re r s \<Longrightarrow> in_re (Alt r q) s"
| alt2: "in_re q s \<Longrightarrow> in_re (Alt r q) s"
| star_none: "in_re (Star r) []"
| star_more: "in_re r s \<Longrightarrow> in_re (Star r) t \<Longrightarrow> in_re (Star r) (s @ t)"

inductive_simps in_re_simps [simp]:
  "in_re Nothing s" "in_re Empty s" "in_re (Chr cs) s" "in_re (Seq r q) s" "in_re (Alt r q) s"

fun nullable :: "re \<Rightarrow> bool" where
  "nullable Nothing = False"
| "nullable Empty = True"
| "nullable (Chr _) = False"
| "nullable (Seq r q) = (nullable r \<and> nullable q)"
| "nullable (Alt r q) = (nullable r \<or> nullable q)"
| "nullable (Star _) = True"

fun deriv :: "char \<Rightarrow> re \<Rightarrow> re" where
  "deriv c Nothing = Nothing"
| "deriv c Empty = Nothing"
| "deriv c (Chr cs) = (if c \<in> set cs then Empty else Nothing)"
| "deriv c (Seq r q) = (if nullable r then Alt (Seq (deriv c r) q) (deriv c q) else Seq (deriv c r) q)"
| "deriv c (Alt r q) = Alt (deriv c r) (deriv c q)"
| "deriv c (Star r) = Seq (deriv c r) (Star r)"

definition match_re :: "re \<Rightarrow> string \<Rightarrow> bool" where
  "match_re r s = nullable (fold deriv s r)"

lemma nullable_iff: "nullable r = in_re r []"
  by (induction r) (auto intro: in_re.intros)

lemma star_Cons: "in_re (Star r) (c # s) \<longleftrightarrow> (\<exists>u v. s = u @ v \<and> in_re r (c # u) \<and> in_re (Star r) v)"
proof
  assume "in_re (Star r) (c # s)"
  then show "\<exists>u v. s = u @ v \<and> in_re r (c # u) \<and> in_re (Star r) v"
  proof (induction "Star r" "c # s" arbitrary: s rule: in_re.induct)
    case (star_more r1 s1)
    then show ?case by (cases r1) auto
  qed
qed (metis append_Cons star_more)

lemma deriv_iff: "in_re (deriv c r) s = in_re r (c # s)"
proof (induction r arbitrary: s)
  case (Seq r q)
  have "in_re (Seq r q) (c # s) \<longleftrightarrow>
      (\<exists>u v. s = u @ v \<and> in_re r (c # u) \<and> in_re q v) \<or> nullable r \<and> in_re q (c # s)"
    by (auto simp: nullable_iff Cons_eq_append_conv)
  then show ?case using Seq by auto
next
  case (Star r)
  then show ?case by (auto simp: star_Cons)
qed auto

theorem match_re_iff: "match_re r s = in_re r s"
proof (induction s arbitrary: r)
  case Nil
  then show ?case by (simp add: match_re_def nullable_iff)
next
  case (Cons c s)
  have "match_re r (c # s) = match_re (deriv c r) s" by (simp add: match_re_def)
  then show ?case using Cons [of "deriv c r"] by (simp add: deriv_iff)
qed

section \<open>Characters and repetitions\<close>

definition lower_digits :: string where "lower_digits = ''abcdefghijklmnopqrstuvwxyz0123456789''"

lemma in_star_chr: "in_re (Star (Chr cs)) s \<longleftrightarrow> set s \<subseteq> set cs"
proof (induction s)
  case Nil
  then show ?case by (simp add: star_none)
next
  case (Cons c s)
  then show ?case by (auto simp: star_Cons)
qed

lemma in_seq_chr: "in_re (Seq (Chr cs) r) s \<longleftrightarrow> (\<exists>c t. s = c # t \<and> c \<in> set cs \<and> in_re r t)"
proof
  assume "\<exists>c t. s = c # t \<and> c \<in> set cs \<and> in_re r t"
  then obtain c t where "s = [c] @ t" "c \<in> set cs" "in_re r t" by auto
  then show "in_re (Seq (Chr cs) r) s" by (metis in_re.chr in_re.seq)
qed auto

lemma in_seq_chr_end: "in_re (Seq r (Chr cs)) s \<longleftrightarrow> (\<exists>t c. s = t @ [c] \<and> c \<in> set cs \<and> in_re r t)"
  by auto

lemma in_opt [simp]: "in_re (Opt r) s \<longleftrightarrow> s = [] \<or> in_re r s"
  by (auto simp: Opt_def)

lemma first_separator:
  assumes "u @ d # w = u' @ x" "d \<notin> set u" "d \<notin> set u'" "x = [] \<or> (\<exists>w'. x = d # w')"
  shows "u' = u \<and> x = d # w"
proof (cases x)
  case Nil
  then have "d \<in> set u'" using assms(1) by (metis append_Nil2 in_set_conv_decomp)
  with assms(3) show ?thesis by simp
next
  case (Cons c w')
  with assms have "u @ d # w = u' @ d # w'" by auto
  moreover have "takeWhile (\<lambda>c. c \<noteq> d) (v @ d # y) = v" if "d \<notin> set v" for v y
    using that by (induction v) auto
  ultimately have "u = u' \<and> w = w'" using assms(2,3) by (metis append_same_eq same_append_eq list.inject)
  with Cons assms(1) show ?thesis by auto
qed

text \<open>A list of items separated by a character, as in \<open>r(\.r)*\<close>.\<close>

lemma separated_step:
  assumes "\<And>u. P u \<Longrightarrow> d \<notin> set u"
  shows "(\<exists>u x. s = u @ x \<and> P u \<and> (x = [] \<or> (\<exists>w. x = d # w \<and> (\<forall>t \<in> set (split_on d w). P t))))
     \<longleftrightarrow> (\<forall>t \<in> set (split_on d s). P t)"
proof (cases "d \<in> set s")
  case True
  then obtain u w where s: "s = u @ d # w" "d \<notin> set u" by (metis split_list_first)
  then have sp: "split_on d s = u # split_on d w" by (simp add: split_on_append)
  have "u' = u \<and> x = d # w" if "s = u' @ x" "P u'" "x = [] \<or> (\<exists>w. x = d # w)" for u' x
    using first_separator [OF _ s(2) assms [OF that(2)] that(3)] that(1) s(1) by simp
  then show ?thesis using s sp by auto
next
  case False
  then show ?thesis by (auto simp: split_on_single)
qed

lemma in_separated:
  assumes no: "\<And>s. in_re r s \<Longrightarrow> d \<notin> set s"
  shows "in_re (Seq r (Star (Seq (Chr [d]) r))) s \<longleftrightarrow> (\<forall>t \<in> set (split_on d s). in_re r t)"
proof -
  let ?tail = "\<lambda>v. v = [] \<or> (\<exists>w. v = d # w \<and> (\<forall>t \<in> set (split_on d w). in_re r t))"
  have star: "in_re (Star (Seq (Chr [d]) r)) v = ?tail v" for v
  proof (induction "length v" arbitrary: v rule: less_induct)
    case less
    show ?case
    proof (cases v)
      case Nil
      then show ?thesis by (simp add: star_none)
    next
      case (Cons c s)
      have IH: "in_re (Star (Seq (Chr [d]) r)) x = ?tail x" if "s = u @ x" for u x
        using less Cons that by simp
      have "in_re (Star (Seq (Chr [d]) r)) v \<longleftrightarrow>
          c = d \<and> (\<exists>u x. s = u @ x \<and> in_re r u \<and> in_re (Star (Seq (Chr [d]) r)) x)"
        by (auto simp: Cons star_Cons Cons_eq_append_conv)
      also have "\<dots> \<longleftrightarrow> c = d \<and> (\<exists>u x. s = u @ x \<and> in_re r u \<and> ?tail x)" using IH by blast
      also have "\<dots> \<longleftrightarrow> c = d \<and> (\<forall>t \<in> set (split_on d s). in_re r t)"
        using separated_step [of "in_re r" d s, OF no] by simp
      finally show ?thesis using Cons by auto
    qed
  qed
  have "in_re (Seq r (Star (Seq (Chr [d]) r))) s \<longleftrightarrow> (\<exists>u x. s = u @ x \<and> in_re r u \<and> ?tail x)"
    by (auto simp: star)
  then show ?thesis using separated_step [of "in_re r" d s, OF no] by simp
qed

text \<open>A label of a subdomain name by RFC 1123.\<close>

definition rfc1123_label :: "string \<Rightarrow> bool" where
  "rfc1123_label l \<longleftrightarrow> l \<noteq> [] \<and> length l \<le> 63 \<and> set l \<subseteq> set (CHR ''-'' # lower_digits)
     \<and> hd l \<noteq> CHR ''-'' \<and> last l \<noteq> CHR ''-''"

lemma dash_no_digit: "CHR ''-'' \<notin> set lower_digits" "CHR ''.'' \<notin> set lower_digits"
  by (simp_all add: lower_digits_def)

end
