(* ===== verification/NodeTasks.thy ===== *)
theory NodeTasks
  imports SqlTable GoRegexp GoBase64
begin

text \<open>
  Deploying a machine as a node (object/machine_node_deploy.go): the tasks and their logs, the
  SSH credentials kept encrypted, and the secret they are encrypted with. Times are what the
  calls of \<open>time.Now\<close> return. Parameters: SHA-256, AES-GCM and the parser of SSH keys
  (\<open>crypto\<close>), whether a text is an https URL with a host (\<open>net/url\<close>), and the tables.
\<close>

section \<open>Rows\<close>

record node_task =
  nt_id :: int
  nt_owner :: string
  nt_machine :: string
  nt_node :: string
  nt_apiserver :: string
  nt_status :: string
  nt_phase :: string
  nt_error :: string
  nt_created :: int
  nt_started :: int
  nt_finished :: int
  nt_updated :: int

record node_log =
  nl_id :: int
  nl_task :: int
  nl_level :: string
  nl_message :: string
  nl_created :: int

record node_credential =
  nc_owner :: string
  nc_machine :: string
  nc_key :: string
  nc_updated :: int

record machine =
  mc_owner :: string
  mc_name :: string
  mc_created :: string
  mc_display :: string
  mc_ip :: string
  mc_port :: int
  mc_user :: string
  mc_auth :: string
  mc_password :: string
  mc_key :: string
  mc_os :: string
  mc_status :: string
  mc_role :: string
  mc_description :: string

record 'db node_store =
  nd_tasks :: "(node_task, 'db) table"
  nd_logs :: "(node_log, 'db) table"
  nd_creds :: "(node_credential, 'db) table"
  nd_machines :: "(machine, 'db) table"
  nd_tx :: "'db transactions"

datatype secret_error =
    SecretRead | SecretEmpty | SecretRandom | SecretMkdir | SecretTemp | SecretChmod
  | SecretWrite | SecretSync | SecretClose | SecretRename

datatype node_error =
    OwnerAndMachineRequired | SlashInMachine | NodeNameRequired | BadNodeName | LongLabel
  | BadApiserver | MachineNotFound | NodeTaskActive int | NegativeLimit | LimitTooHigh
  | NodeOwnerRequired | InvalidPhase string | NodeNotPending int | NodeFinished int
  | BadLogLevel string | EmptyKey | InvalidKey | NotStored | VerifyCredential node_error
  | BadFormat | BadBase64 | ShortPayload | OpenFailed | NoSecret secret_error | NoNonce
  | BadMachineStatus string | NodeDb db_failure

abbreviation (input) "np_queued \<equiv> ''queued''"
abbreviation (input) "np_failed \<equiv> ''failed''"

section \<open>Names\<close>

definition dns_label :: re where
  "dns_label = Seq (Chr lower_digits) (Opt (Seq (Star (Chr (CHR ''-'' # lower_digits))) (Chr lower_digits)))"

definition node_name_regexp :: re where
  "node_name_regexp = Seq dns_label (Star (Seq (Chr ''.'') dns_label))"

definition validate_node_name :: "string \<Rightarrow> node_error option" where
  "validate_node_name name0 =
     (let name = trim_space name0 in
      if length name > 253 \<or> \<not> match_re node_name_regexp name then Some BadNodeName
      else if \<exists>label \<in> set (split_on (CHR ''.'') name). length label > 63 then Some LongLabel
      else None)"

section \<open>Tasks\<close>

definition node_active :: "node_task \<Rightarrow> bool" where
  "node_active t \<longleftrightarrow> nt_status t = ''pending'' \<or> nt_status t = ''running''"

definition of_machine :: "string \<Rightarrow> string \<Rightarrow> node_task \<Rightarrow> bool" where
  "of_machine owner machine t \<longleftrightarrow> nt_owner t = owner \<and> nt_machine t = machine"

definition new_node_task :: "string \<Rightarrow> string \<Rightarrow> string \<Rightarrow> string \<Rightarrow> int \<Rightarrow> node_task" where
  "new_node_task owner machine node apiserver now =
     \<lparr>nt_id = 0, nt_owner = owner, nt_machine = machine, nt_node = node, nt_apiserver = apiserver,
      nt_status = ''pending'', nt_phase = np_queued, nt_error = [], nt_created = now, nt_started = 0,
      nt_finished = 0, nt_updated = now\<rparr>"

definition insert_node_task ::
  "'db node_store \<Rightarrow> string \<Rightarrow> string \<Rightarrow> string \<Rightarrow> string \<Rightarrow> int \<Rightarrow> 'db \<Rightarrow> (node_error, node_task) result \<times> 'db" where
  "insert_node_task S owner machine node apiserver now db =
     (case get_first (nd_machines S) (\<lambda>m. mc_owner m = owner \<and> mc_name m = machine) db of
        Inl e \<Rightarrow> (Err (NodeDb e), db)
      | Inr None \<Rightarrow> (Err MachineNotFound, db)
      | Inr (Some _) \<Rightarrow>
          (case select_where (nd_tasks S) (\<lambda>t. of_machine owner machine t \<and> node_active t) db of
             Inl e \<Rightarrow> (Err (NodeDb e), db)
           | Inr (t # ts) \<Rightarrow> (Err (NodeTaskActive (nt_id (last (t # ts)))), db)
           | Inr [] \<Rightarrow>
               (case insert_row (nd_tasks S) (new_node_task owner machine node apiserver now) db of
                  (Inl e, db) \<Rightarrow> (Err (NodeDb e), db)
                | (Inr t, db) \<Rightarrow> (Ok t, db))))"

definition create_node_task ::
  "'db node_store \<Rightarrow> (string \<Rightarrow> bool) \<Rightarrow> string \<Rightarrow> string \<Rightarrow> string \<Rightarrow> string \<Rightarrow> int \<Rightarrow> 'db
     \<Rightarrow> (node_error, node_task) result \<times> 'db" where
  "create_node_task S https_url owner0 machine0 node0 apiserver0 now db =
     (let owner = trim_space owner0; machine = trim_space machine0;
          node = trim_space node0; apiserver = trim_space apiserver0 in
      if owner = [] \<or> machine = [] then (Err OwnerAndMachineRequired, db)
      else if CHR ''/'' \<in> set machine then (Err SlashInMachine, db)
      else if node = [] then (Err NodeNameRequired, db)
      else case validate_node_name node of
        Some e \<Rightarrow> (Err e, db)
      | None \<Rightarrow>
          if apiserver \<noteq> [] \<and> \<not> https_url apiserver then (Err BadApiserver, db)
          else with_transaction (nd_tx S) NodeDb (insert_node_task S owner machine node apiserver now) db)"

text \<open>A zero id is no condition, as in \<open>HelmTasks\<close>.\<close>

definition get_node_task :: "'db node_store \<Rightarrow> int \<Rightarrow> 'db \<Rightarrow> (node_error, node_task option) result" where
  "get_node_task S tid db =
     (case get_first (nd_tasks S) (\<lambda>t. tid = 0 \<or> nt_id t = tid) db of
        Inl e \<Rightarrow> Err (NodeDb e) | Inr t \<Rightarrow> Ok t)"

definition get_node_tasks ::
  "'db node_store \<Rightarrow> string \<Rightarrow> string \<Rightarrow> int \<Rightarrow> 'db \<Rightarrow> (node_error, node_task list) result" where
  "get_node_tasks S owner0 machine0 limit0 db =
     (if limit0 < 0 then Err NegativeLimit
      else if limit0 > 100 then Err LimitTooHigh
      else
        (let limit = (if limit0 = 0 then 50 else limit0);
             owner = trim_space owner0; machine = trim_space machine0 in
         if owner = [] then Err NodeOwnerRequired
         else case select_where (nd_tasks S)
             (\<lambda>t. nt_owner t = owner \<and> (machine = [] \<or> nt_machine t = machine)) db of
           Inl e \<Rightarrow> Err (NodeDb e)
         | Inr ts \<Rightarrow> Ok (take (nat limit) (rev ts))))"

definition end_node_task :: "string \<Rightarrow> string \<Rightarrow> string \<Rightarrow> int \<Rightarrow> node_task \<Rightarrow> node_task" where
  "end_node_task status phase msg now t =
     t\<lparr>nt_status := status, nt_phase := phase, nt_error := msg, nt_finished := now, nt_updated := now\<rparr>"

definition fail_active_tasks :: "'db node_store \<Rightarrow> string \<Rightarrow> int \<Rightarrow> 'db \<Rightarrow> (node_error, unit) result \<times> 'db" where
  "fail_active_tasks S reason0 now db =
     (let reason = (if trim_space reason0 = [] then ''node deployment task was interrupted'' else trim_space reason0) in
      case update_where (nd_tasks S) node_active (end_node_task ''failed'' np_failed reason now) db of
        (Inl e, db) \<Rightarrow> (Err (NodeDb e), db) | (Inr _, db) \<Rightarrow> (Ok (), db))"

definition valid_node_phase :: "string \<Rightarrow> bool" where
  "valid_node_phase phase \<longleftrightarrow> phase \<in> {''queued'', ''preflight'', ''installing'', ''configuring'', ''starting'',
     ''waiting'', ''ready'', ''failed''}"

definition start_node_task :: "'db node_store \<Rightarrow> int \<Rightarrow> string \<Rightarrow> int \<Rightarrow> 'db \<Rightarrow> (node_error, unit) result \<times> 'db" where
  "start_node_task S tid phase now db =
     (if \<not> valid_node_phase phase then (Err (InvalidPhase phase), db)
      else case update_where (nd_tasks S) (\<lambda>t. nt_id t = tid \<and> nt_status t = ''pending'')
          (\<lambda>t. t\<lparr>nt_status := ''running'', nt_phase := phase, nt_started := now, nt_updated := now\<rparr>) db of
        (Inl e, db) \<Rightarrow> (Err (NodeDb e), db)
      | (Inr n, db) \<Rightarrow> (if n = 0 then Err (NodeNotPending tid) else Ok (), db))"

definition update_node_phase :: "'db node_store \<Rightarrow> int \<Rightarrow> string \<Rightarrow> int \<Rightarrow> 'db \<Rightarrow> (node_error, unit) result \<times> 'db" where
  "update_node_phase S tid phase now db =
     (if \<not> valid_node_phase phase then (Err (InvalidPhase phase), db)
      else case update_where (nd_tasks S) (\<lambda>t. nt_id t = tid \<and> nt_status t = ''running'')
          (\<lambda>t. t\<lparr>nt_phase := phase, nt_updated := now\<rparr>) db of
        (Inl e, db) \<Rightarrow> (Err (NodeDb e), db) | (Inr _, db) \<Rightarrow> (Ok (), db))"

definition finish_node_task ::
  "'db node_store \<Rightarrow> int \<Rightarrow> bool \<Rightarrow> string \<Rightarrow> string \<Rightarrow> int \<Rightarrow> 'db \<Rightarrow> (node_error, unit) result \<times> 'db" where
  "finish_node_task S tid success phase msg now db =
     (if \<not> valid_node_phase phase then (Err (InvalidPhase phase), db)
      else case update_where (nd_tasks S) (\<lambda>t. nt_id t = tid \<and> node_active t)
          (end_node_task (if success then ''succeeded'' else ''failed'') phase msg now) db of
        (Inl e, db) \<Rightarrow> (Err (NodeDb e), db)
      | (Inr n, db) \<Rightarrow> (if n = 0 then Err (NodeFinished tid) else Ok (), db))"

definition add_node_log ::
  "'db node_store \<Rightarrow> int \<Rightarrow> string \<Rightarrow> string \<Rightarrow> int \<Rightarrow> 'db \<Rightarrow> (node_error, unit) result \<times> 'db" where
  "add_node_log S tid level message now db =
     (if level \<noteq> ''info'' \<and> level \<noteq> ''error'' then (Err (BadLogLevel level), db)
      else case insert_row (nd_logs S)
          \<lparr>nl_id = 0, nl_task = tid, nl_level = level, nl_message = message, nl_created = now\<rparr> db of
        (Inl e, db) \<Rightarrow> (Err (NodeDb e), db) | (Inr _, db) \<Rightarrow> (Ok (), db))"

definition get_node_logs :: "'db node_store \<Rightarrow> int \<Rightarrow> int \<Rightarrow> 'db \<Rightarrow> (node_error, node_log list) result" where
  "get_node_logs S tid limit0 db =
     (if limit0 < 0 then Err NegativeLimit
      else if limit0 > 1000 then Err LimitTooHigh
      else
        (let limit = (if limit0 = 0 then 500 else limit0) in
         case select_where (nd_logs S) (\<lambda>l. nl_task l = tid) db of
           Inl e \<Rightarrow> Err (NodeDb e) | Inr ls \<Rightarrow> Ok (take (nat limit) ls)))"

section \<open>The secret\<close>

text \<open>
  The file with the secret and a temporary file beside it. \<open>ch_io n\<close> says whether the
  \<open>n\<close>-th step succeeds: 0 reading (a missing file is not a failure), 1 to 7 the steps of
  writing a new file, 8 removing the temporary one. A write that fails may leave any text.
\<close>

record key_host =
  key_file :: "string option"
  temp_file :: "string option"

record chance =
  ch_io :: "nat \<Rightarrow> bool"
  ch_secret :: "(nat \<Rightarrow> char) option"
  ch_nonce :: "(nat \<Rightarrow> char) option"
  ch_partial :: string

definition remove_temp :: "chance \<Rightarrow> key_host \<Rightarrow> key_host" where
  "remove_temp ch h = (if ch_io ch 8 then h\<lparr>temp_file := None\<rparr> else h)"

definition write_secret :: "chance \<Rightarrow> string \<Rightarrow> key_host \<Rightarrow> (secret_error, string) result \<times> key_host" where
  "write_secret ch secret h =
     (if \<not> ch_io ch 1 then (Err SecretMkdir, h)
      else if \<not> ch_io ch 2 then (Err SecretTemp, h)
      else
        (let h1 = h\<lparr>temp_file := Some []\<rparr>; h2 = h\<lparr>temp_file := Some (secret @ [newline])\<rparr> in
         if \<not> ch_io ch 3 then (Err SecretChmod, remove_temp ch h1)
         else if \<not> ch_io ch 4 then (Err SecretWrite, remove_temp ch (h\<lparr>temp_file := Some (ch_partial ch)\<rparr>))
         else if \<not> ch_io ch 5 then (Err SecretSync, remove_temp ch h2)
         else if \<not> ch_io ch 6 then (Err SecretClose, remove_temp ch h2)
         else if \<not> ch_io ch 7 then (Err SecretRename, remove_temp ch h2)
         else (Ok secret, h\<lparr>key_file := Some (secret @ [newline]), temp_file := None\<rparr>)))"

definition credential_secret :: "string \<Rightarrow> chance \<Rightarrow> key_host \<Rightarrow> (secret_error, string) result \<times> key_host" where
  "credential_secret conf ch h =
     (if trim_space conf \<noteq> [] then (Ok (trim_space conf), h)
      else if \<not> ch_io ch 0 then (Err SecretRead, h)
      else case key_file h of
        Some text \<Rightarrow> (if trim_space text = [] then Err SecretEmpty else Ok (trim_space text), h)
      | None \<Rightarrow>
          (case ch_secret ch of
             None \<Rightarrow> (Err SecretRandom, h)
           | Some bytes \<Rightarrow> write_secret ch (b64_encode (map bytes [0..<32])) h))"

section \<open>Encryption\<close>

record crypt =
  cr_conf :: string
  cr_sha :: "string \<Rightarrow> string"
  cr_seal :: "string \<Rightarrow> string \<Rightarrow> string \<Rightarrow> string \<Rightarrow> string"
  cr_open :: "string \<Rightarrow> string \<Rightarrow> string \<Rightarrow> string \<Rightarrow> string option"

definition nonce_size :: nat where "nonce_size = 12"

definition credential_prefix :: string where "credential_prefix = ''enc:v1:''"

definition credential_aead :: "crypt \<Rightarrow> chance \<Rightarrow> key_host \<Rightarrow> (node_error, string) result \<times> key_host" where
  "credential_aead C ch h =
     (case credential_secret (cr_conf C) ch h of
        (Inl e, h) \<Rightarrow> (Err (NoSecret e), h) | (Inr secret, h) \<Rightarrow> (Ok (cr_sha C secret), h))"

definition bound_to :: "string \<Rightarrow> string \<Rightarrow> string" where
  "bound_to owner machine = owner @ ''/'' @ machine"

definition encrypt_key ::
  "crypt \<Rightarrow> chance \<Rightarrow> string \<Rightarrow> string \<Rightarrow> string \<Rightarrow> key_host \<Rightarrow> (node_error, string) result \<times> key_host" where
  "encrypt_key C ch owner machine plain h =
     (case credential_aead C ch h of
        (Inl e, h) \<Rightarrow> (Err e, h)
      | (Inr k, h) \<Rightarrow>
          (case ch_nonce ch of
             None \<Rightarrow> (Err NoNonce, h)
           | Some bytes \<Rightarrow>
               (let nonce = map bytes [0..<nonce_size]
                in (Ok (credential_prefix @ b64_encode (nonce @ cr_seal C k nonce plain (bound_to owner machine))), h))))"

definition decrypt_key ::
  "crypt \<Rightarrow> chance \<Rightarrow> string \<Rightarrow> string \<Rightarrow> string \<Rightarrow> key_host \<Rightarrow> (node_error, string) result \<times> key_host" where
  "decrypt_key C ch owner machine encrypted h =
     (if \<not> has_prefix encrypted credential_prefix then (Err BadFormat, h)
      else case b64_decode (trim_prefix encrypted credential_prefix) of
        None \<Rightarrow> (Err BadBase64, h)
      | Some raw \<Rightarrow>
          (case credential_aead C ch h of
             (Inl e, h) \<Rightarrow> (Err e, h)
           | (Inr k, h) \<Rightarrow>
               if length raw < nonce_size then (Err ShortPayload, h)
               else case cr_open C k (take nonce_size raw) (drop nonce_size raw) (bound_to owner machine) of
                 None \<Rightarrow> (Err OpenFailed, h)
               | Some plain \<Rightarrow> (Ok plain, h)))"

section \<open>Credentials\<close>

text \<open>An empty field of the bean is no condition of \<open>Get\<close>.\<close>

definition credential_bean :: "string \<Rightarrow> string \<Rightarrow> node_credential \<Rightarrow> bool" where
  "credential_bean owner machine c \<longleftrightarrow>
     (owner = [] \<or> nc_owner c = owner) \<and> (machine = [] \<or> nc_machine c = machine)"

definition get_credential ::
  "'db node_store \<Rightarrow> crypt \<Rightarrow> chance \<Rightarrow> string \<Rightarrow> string \<Rightarrow> key_host \<times> 'db
     \<Rightarrow> (node_error, node_credential option) result \<times> key_host \<times> 'db" where
  "get_credential S C ch owner machine = (\<lambda>(h, db).
     case get_first (nd_creds S) (credential_bean owner machine) db of
       Inl e \<Rightarrow> (Err (NodeDb e), h, db)
     | Inr None \<Rightarrow> (Ok None, h, db)
     | Inr (Some c) \<Rightarrow>
         (case decrypt_key C ch owner machine (nc_key c) h of
            (Inl e, h) \<Rightarrow> (Err e, h, db)
          | (Inr plain, h) \<Rightarrow> (Ok (Some (c\<lparr>nc_key := plain\<rparr>)), h, db)))"

text \<open>A transaction of the database does not undo what happened to files.\<close>

definition beside_files :: "'db transactions \<Rightarrow> (key_host \<times> 'db) transactions" where
  "beside_files tx =
     \<lparr>begin_tx = (\<lambda>(h, db). begin_tx tx db),
      commit_tx = (\<lambda>(h0, db0) (h, db). let (e, db) = commit_tx tx db0 db in (e, h, db)),
      rollback_tx = (\<lambda>(h0, db0) (h, db). (h, rollback_tx tx db0 db))\<rparr>"

definition upsert_credential :: "'db node_store \<Rightarrow> node_credential \<Rightarrow> 'db \<Rightarrow> (node_error, unit) result \<times> 'db" where
  "upsert_credential S c db =
     (case update_where (nd_creds S) (\<lambda>r. nc_owner r = nc_owner c \<and> nc_machine r = nc_machine c)
         (\<lambda>r. r\<lparr>nc_key := nc_key c, nc_updated := nc_updated c\<rparr>) db of
        (Inl e, db) \<Rightarrow> (Err (NodeDb e), db)
      | (Inr n, db) \<Rightarrow>
          if n \<noteq> 0 then (Ok (), db)
          else (case insert_row (nd_creds S) c db of
                  (Inl e, db) \<Rightarrow> (Err (NodeDb e), db) | (Inr _, db) \<Rightarrow> (Ok (), db)))"

definition deployed_machine :: "machine \<Rightarrow> machine \<Rightarrow> machine" where
  "deployed_machine locked m =
     m\<lparr>mc_password := [], mc_key := [], mc_status := ''Deployed'',
       mc_role := (if mc_role locked \<noteq> [] \<and> mc_role locked \<noteq> ''worker'' then mc_role locked else ''worker'')\<rparr>"

definition store_credential ::
  "'db node_store \<Rightarrow> crypt \<Rightarrow> chance \<Rightarrow> node_credential \<Rightarrow> key_host \<times> 'db \<Rightarrow> (node_error, unit) result \<times> key_host \<times> 'db" where
  "store_credential S C ch c = (\<lambda>(h, db).
     let owner = nc_owner c; name = nc_machine c; is_machine = (\<lambda>m. mc_owner m = owner \<and> mc_name m = name) in
     case get_first (nd_machines S) is_machine db of
       Inl e \<Rightarrow> (Err (NodeDb e), h, db)
     | Inr None \<Rightarrow> (Err MachineNotFound, h, db)
     | Inr (Some locked) \<Rightarrow>
         (case upsert_credential S c db of
            (Inl e, db) \<Rightarrow> (Err e, h, db)
          | (Inr _, db) \<Rightarrow>
              (case get_first (nd_creds S) (credential_bean owner name) db of
                 Inl e \<Rightarrow> (Err (NodeDb e), h, db)
               | Inr None \<Rightarrow> (Err NotStored, h, db)
               | Inr (Some stored) \<Rightarrow>
                   (case decrypt_key C ch owner name (nc_key stored) h of
                      (Inl e, h) \<Rightarrow> (Err (VerifyCredential e), h, db)
                    | (Inr _, h) \<Rightarrow>
                        (case update_where (nd_machines S) is_machine (deployed_machine locked) db of
                           (Inl e, db) \<Rightarrow> (Err (NodeDb e), h, db)
                         | (Inr _, db) \<Rightarrow> (Ok (), h, db))))))"

definition update_credential ::
  "'db node_store \<Rightarrow> crypt \<Rightarrow> (string \<Rightarrow> bool) \<Rightarrow> chance \<times> chance \<Rightarrow> machine \<Rightarrow> string \<Rightarrow> int \<Rightarrow> key_host \<times> 'db
     \<Rightarrow> (node_error, unit) result \<times> key_host \<times> 'db" where
  "update_credential S C ssh_key = (\<lambda>(ch1, ch2) m key now (h, db).
     if trim_space key = [] then (Err EmptyKey, h, db)
     else if \<not> ssh_key key then (Err InvalidKey, h, db)
     else case encrypt_key C ch1 (mc_owner m) (mc_name m) key h of
       (Inl e, h) \<Rightarrow> (Err e, h, db)
     | (Inr encrypted, h) \<Rightarrow>
         with_transaction (beside_files (nd_tx S)) NodeDb
           (store_credential S C ch2
              \<lparr>nc_owner = mc_owner m, nc_machine = mc_name m, nc_key = encrypted, nc_updated = now\<rparr>) (h, db))"

definition valid_machine_status :: "string \<Rightarrow> bool" where
  "valid_machine_status status \<longleftrightarrow> status \<in> {''Deploying'', ''Deployed'', ''Failed''}"

definition update_machine_status ::
  "'db node_store \<Rightarrow> string \<Rightarrow> string \<Rightarrow> string \<Rightarrow> 'db \<Rightarrow> (node_error, unit) result \<times> 'db" where
  "update_machine_status S owner name status db =
     (if \<not> valid_machine_status status then (Err (BadMachineStatus status), db)
      else case update_where (nd_machines S) (\<lambda>m. mc_owner m = owner \<and> mc_name m = name)
          (\<lambda>m. m\<lparr>mc_status := status\<rparr>) db of
        (Inl e, db) \<Rightarrow> (Err (NodeDb e), db) | (Inr _, db) \<Rightarrow> (Ok (), db))"

end
