(* ===== verification/NodeDeploy.thy ===== *)
theory NodeDeploy
  imports NodeTasks
begin

text \<open>
  What \<open>NodeTasks\<close> promises: the names it accepts are the RFC 1123 subdomains, a machine
  has one active task at most, outcomes are final, the secret does not change once it was given
  out, and a credential comes back as it was stored, for its own machine only.
\<close>

section \<open>Names\<close>

lemma in_dns_label:
  "in_re dns_label l \<longleftrightarrow> l \<noteq> [] \<and> set l \<subseteq> set (CHR ''-'' # lower_digits) \<and> hd l \<noteq> CHR ''-'' \<and> last l \<noteq> CHR ''-''"
proof -
  let ?D = "set lower_digits"
  have "in_re dns_label l \<longleftrightarrow> (\<exists>c \<in> ?D. l = [c]) \<or> (\<exists>c \<in> ?D. \<exists>m d. d \<in> ?D \<and> set m \<subseteq> insert CHR ''-'' ?D \<and> l = c # m @ [d])"
    unfolding dns_label_def in_seq_chr in_opt in_seq_chr_end in_star_chr by auto
  also have "\<dots> \<longleftrightarrow> l \<noteq> [] \<and> set l \<subseteq> insert CHR ''-'' ?D \<and> hd l \<noteq> CHR ''-'' \<and> last l \<noteq> CHR ''-''"
  proof (cases l)
    case (Cons c l')
    then show ?thesis
      by (cases l' rule: rev_cases) (use dash_no_digit in auto)
  qed simp
  finally show ?thesis by simp
qed

lemma node_name_labels:
  "validate_node_name name = None \<longleftrightarrow>
     length (trim_space name) \<le> 253 \<and> list_all rfc1123_label (split_on (CHR ''.'') (trim_space name))"
proof -
  have "in_re node_name_regexp s \<longleftrightarrow> (\<forall>l \<in> set (split_on (CHR ''.'') s). in_re dns_label l)" for s
    unfolding node_name_regexp_def
    by (rule in_separated) (use dash_no_digit in \<open>auto simp: in_dns_label\<close>)
  moreover have "rfc1123_label l \<longleftrightarrow> in_re dns_label l \<and> length l \<le> 63" for l
    by (auto simp: rfc1123_label_def in_dns_label)
  ultimately show ?thesis
    by (simp add: validate_node_name_def Let_def match_re_iff ball_conj_distrib not_less not_le list_all_iff)
qed

text \<open>
  C10: a node name is accepted exactly when, without surrounding white space, it is a subdomain
  name by RFC 1123: at most 253 characters, and between the dots labels of one to 63 lower-case
  letters, digits and dashes with no dash at either end.
\<close>

theorem node_name_rfc1123:
  "validate_node_name name = None \<longleftrightarrow>
     length (trim_space name) \<le> 253 \<and> list_all rfc1123_label (split_on (CHR ''.'') (trim_space name))"
  by (rule node_name_labels)

section \<open>The life of a task\<close>

definition node_statuses :: "string list" where
  "node_statuses = [''pending'', ''running'', ''succeeded'', ''failed'']"

definition node_evolves :: "node_task \<Rightarrow> node_task \<Rightarrow> bool" where
  "node_evolves t t' \<longleftrightarrow> node_active t \<and> nt_status t' \<in> set node_statuses \<and> nt_id t' = nt_id t
     \<and> nt_owner t' = nt_owner t \<and> nt_machine t' = nt_machine t \<and> nt_node t' = nt_node t"

definition node_task_ok :: "node_task \<Rightarrow> bool" where
  "node_task_ok t \<longleftrightarrow> 0 < nt_id t \<and> nt_status t \<in> set node_statuses \<and> nt_owner t \<noteq> [] \<and> nt_machine t \<noteq> []
     \<and> CHR ''/'' \<notin> set (nt_machine t) \<and> validate_node_name (nt_node t) = None"

inductive node_step :: "node_task list \<Rightarrow> node_task list \<Rightarrow> bool" where
  evolve: "list_all2 (\<lambda>t t'. t' = t \<or> node_evolves t t') rows rows' \<Longrightarrow> node_step rows rows'"
| create: "node_task_ok t \<Longrightarrow> \<forall>r \<in> set rows. nt_id r < nt_id t \<Longrightarrow>
    \<forall>r \<in> set rows. of_machine (nt_owner t) (nt_machine t) r \<longrightarrow> \<not> node_active r \<Longrightarrow> node_step rows (rows @ [t])"

definition one_active :: "node_task list \<Rightarrow> bool" where
  "one_active rows \<longleftrightarrow> (\<forall>r \<in> set rows. \<forall>t \<in> set rows.
     node_active r \<and> node_active t \<and> of_machine (nt_owner t) (nt_machine t) r \<longrightarrow> r = t)"

definition node_rows_ok :: "node_task list \<Rightarrow> bool" where
  "node_rows_ok rows \<longleftrightarrow> (\<forall>t \<in> set rows. node_task_ok t) \<and> sorted_wrt (<) (map nt_id rows) \<and> one_active rows"

lemma node_rows_ok_Nil [simp]: "node_rows_ok []"
  by (simp add: node_rows_ok_def one_active_def)

lemma node_stutter: "node_step rows rows"
  by (rule node_step.evolve) (simp add: list_all2_same)

lemma node_evolve_ids:
  "list_all2 (\<lambda>t t'. t' = t \<or> node_evolves t t') rows rows' \<Longrightarrow> map nt_id rows' = map nt_id rows"
  by (induction rule: list_all2_induct) (auto simp: node_evolves_def)

lemma node_step_ok: "node_step rows rows' \<Longrightarrow> node_rows_ok rows \<Longrightarrow> node_rows_ok rows'"
proof (induction rule: node_step.induct)
  case (evolve rows rows')
  have ids: "map nt_id rows' = map nt_id rows" by (rule node_evolve_ids [OF evolve(1)])
  have pre: "\<exists>t \<in> set rows. (t' = t \<or> node_evolves t t')" if "t' \<in> set rows'" for t'
    using list_all2_in_right [OF evolve(1) that] .
  have "node_task_ok t'" if t': "t' \<in> set rows'" for t'
  proof -
    obtain t where t: "t \<in> set rows" "t' = t \<or> node_evolves t t'" using pre [OF t'] by blast
    then have "node_task_ok t" using evolve(2) by (simp add: node_rows_ok_def)
    with t(2) show ?thesis by (auto simp: node_task_ok_def node_evolves_def)
  qed
  moreover have "one_active rows'"
    unfolding one_active_def
  proof (intro ballI impI)
    fix r' t' assume in': "r' \<in> set rows'" "t' \<in> set rows'"
      and act: "node_active r' \<and> node_active t' \<and> of_machine (nt_owner t') (nt_machine t') r'"
    obtain r t where rt: "r \<in> set rows" "t \<in> set rows" "r' = r \<or> node_evolves r r'" "t' = t \<or> node_evolves t t'"
      using pre in' by meson
    then have "node_active r \<and> node_active t \<and> of_machine (nt_owner t) (nt_machine t) r"
      using act by (auto simp: node_evolves_def of_machine_def)
    then have "r = t" using evolve(2) rt(1,2) by (auto simp: node_rows_ok_def one_active_def)
    then have "nt_id r' = nt_id t'" using rt(3,4) by (auto simp: node_evolves_def)
    moreover have "distinct (map nt_id rows')" using evolve(2) by (simp add: ids node_rows_ok_def strict_sorted_iff)
    ultimately show "r' = t'" using in' by (auto simp: distinct_map inj_on_def)
  qed
  ultimately show ?case using evolve(2) ids by (simp add: node_rows_ok_def)
next
  case (create t rows)
  then show ?case
    by (auto simp: node_rows_ok_def sorted_wrt_append one_active_def of_machine_def)
qed

lemma node_steps_ok: "node_step\<^sup>*\<^sup>* rows rows' \<Longrightarrow> node_rows_ok rows \<Longrightarrow> node_rows_ok rows'"
  by (induction rule: rtranclp_induct) (auto intro: node_step_ok)

lemma node_step_final: "node_step rows rows' \<Longrightarrow> t \<in> set rows \<Longrightarrow> \<not> node_active t \<Longrightarrow> t \<in> set rows'"
proof (induction rule: node_step.induct)
  case (evolve rows rows')
  then show ?case using list_all2_in_left [OF evolve(1), of t] by (auto simp: node_evolves_def)
qed simp

lemma node_steps_final: "node_step\<^sup>*\<^sup>* rows rows' \<Longrightarrow> t \<in> set rows \<Longrightarrow> \<not> node_active t \<Longrightarrow> t \<in> set rows'"
  by (induction rule: rtranclp_induct) (auto intro: node_step_final)

section \<open>Every call is a step\<close>

locale node_engine =
  TM: two_tables "nd_tasks S" tc "nd_machines S" mc "nd_tx S"
  + TL: two_tables "nd_tasks S" tc "nd_logs S" lc "nd_tx S"
  + TC: two_tables "nd_tasks S" tc "nd_creds S" cc "nd_tx S"
  + CM: two_tables "nd_creds S" cc "nd_machines S" mc "nd_tx S"
  + T: sql_table "nd_tasks S" tc nt_id "\<lambda>i t. t\<lparr>nt_id := i\<rparr>" "\<lambda>_. True"
  + C: keyed_table "nd_creds S" cc "\<lambda>_. True"
  for S :: "'db node_store" and tc :: "'db \<Rightarrow> node_task list" and lc :: "'db \<Rightarrow> node_log list"
    and cc :: "'db \<Rightarrow> node_credential list" and mc :: "'db \<Rightarrow> machine list"
begin

lemma update_step:
  assumes "\<And>t. p t \<Longrightarrow> node_evolves t (f t)"
  shows "node_step (tc db) (tc (snd (update_where (nd_tasks S) p f db)))"
  by (intro node_step.evolve TM.A.update_evolves) (simp add: assms)

lemma insert_step:
  assumes "owner \<noteq> []" "machine \<noteq> []" "CHR ''/'' \<notin> set machine" "validate_node_name node = None"
  shows "node_step (tc db) (tc (snd (insert_node_task S owner machine node apiserver now db)))"
proof -
  let ?new = "new_node_task owner machine node apiserver now"
  obtain res db' where ins: "insert_row (nd_tasks S) ?new db = (res, db')" by force
  show ?thesis
  proof (cases "select_where (nd_tasks S) (\<lambda>t. of_machine owner machine t \<and> node_active t) db = Inr []")
    case True
    then have none: "\<forall>r \<in> set (tc db). of_machine owner machine r \<longrightarrow> \<not> node_active r"
      using TM.A.select_ok [OF True] by (metis (mono_tags, lifting) filter_empty_conv)
    have "tc db' = tc db \<or> (\<exists>i. tc db' = tc db @ [?new\<lparr>nt_id := i\<rparr>] \<and> 0 < i \<and> (\<forall>q \<in> set (tc db). nt_id q < i))"
      using ins T.insert_ok [of ?new db _ db'] T.insert_failed [of ?new db _ db'] by (cases res) auto
    then have "node_step (tc db) (tc db')"
    proof (elim disjE exE conjE)
      fix i assume i: "tc db' = tc db @ [?new\<lparr>nt_id := i\<rparr>]" "0 < i" "\<forall>q \<in> set (tc db). nt_id q < i"
      show ?thesis unfolding i(1)
        using i(2,3) none assms by (intro node_step.create) (auto simp: node_task_ok_def new_node_task_def node_statuses_def)
    qed (simp add: node_stutter)
    with True ins node_stutter show ?thesis
      by (cases res) (auto simp: insert_node_task_def split: sum.split option.split)
  qed (auto simp: insert_node_task_def node_stutter split: sum.split option.split list.split)
qed

lemma create_step: "node_step (tc db) (tc (snd (create_node_task S https_url owner machine node apiserver now db)))"
  using TM.transaction_effect [of NodeDb "insert_node_task S (trim_space owner) (trim_space machine)
      (trim_space node) (trim_space apiserver) now" db]
    insert_step [of "trim_space owner" "trim_space machine" "trim_space node" db "trim_space apiserver" now]
  by (auto simp: create_node_task_def Let_def node_stutter split: option.split)

lemma fail_active_step: "node_step (tc db) (tc (snd (fail_active_tasks S reason now db)))"
  unfolding fail_active_tasks_def Let_def snd_case_result
  by (rule update_step) (simp add: end_node_task_def node_evolves_def node_statuses_def)

lemma start_step: "node_step (tc db) (tc (snd (start_node_task S tid phase now db)))"
  using update_step [of "\<lambda>t. nt_id t = tid \<and> nt_status t = ''pending''"
      "\<lambda>t. t\<lparr>nt_status := ''running'', nt_phase := phase, nt_started := now, nt_updated := now\<rparr>" db]
  by (simp add: start_node_task_def node_stutter node_evolves_def node_statuses_def node_active_def)

lemma phase_step: "node_step (tc db) (tc (snd (update_node_phase S tid phase now db)))"
  using update_step [of "\<lambda>t. nt_id t = tid \<and> nt_status t = ''running''"
      "\<lambda>t. t\<lparr>nt_phase := phase, nt_updated := now\<rparr>" db]
  by (simp add: update_node_phase_def node_stutter node_evolves_def node_statuses_def node_active_def)

lemma finish_step: "node_step (tc db) (tc (snd (finish_node_task S tid success phase msg now db)))"
  using update_step [of "\<lambda>t. nt_id t = tid \<and> node_active t"
      "end_node_task (if success then ''succeeded'' else ''failed'') phase msg now" db]
  by (simp add: finish_node_task_def node_stutter node_evolves_def node_statuses_def end_node_task_def)

lemma log_keeps: "tc (snd (add_node_log S tid level message now db)) = tc db"
  by (simp add: add_node_log_def TL.B_keeps_A)

lemma machine_status_keeps: "tc (snd (update_machine_status S owner name status db)) = tc db"
  by (simp add: update_machine_status_def TM.B_keeps_A)

lemma upsert_keeps: "tc (snd (upsert_credential S c db)) = tc db"
proof -
  obtain res db' where u: "update_where (nd_creds S) (\<lambda>r. nc_owner r = nc_owner c \<and> nc_machine r = nc_machine c)
         (\<lambda>r. r\<lparr>nc_key := nc_key c, nc_updated := nc_updated c\<rparr>) db = (res, db')" by force
  then have "tc db' = tc db" using TC.B_keeps_A(1) by (metis snd_conv)
  with u show ?thesis by (cases res) (auto simp: upsert_credential_def TC.B_keeps_A)
qed

lemma store_keeps: "tc (snd (snd (store_credential S C ch c (h, db)))) = tc db"
proof -
  obtain res db' where "upsert_credential S c db = (res, db')" by force
  moreover from this have "tc db' = tc db" using upsert_keeps by (metis snd_conv)
  moreover have "tc (snd (update_where (nd_machines S) p f db')) = tc db'" for p f by (rule TM.B_keeps_A)
  ultimately show ?thesis
    by (auto simp: store_credential_def Let_def split: sum.split option.split prod.split)
       (metis snd_conv)+
qed

lemma update_credential_keeps: "tc (snd (snd (update_credential S C ssh_key chs m key now (h, db)))) = tc db"
proof -
  obtain ch1 ch2 where chs: "chs = (ch1, ch2)" by force
  obtain enc h1 where enc: "encrypt_key C ch1 (mc_owner m) (mc_name m) key h = (enc, h1)" by force
  have "tc (snd (snd (with_transaction (beside_files (nd_tx S)) NodeDb (store_credential S C ch2 c) (h1, db)))) = tc db" for c
  proof -
    obtain res h2 db2 where f: "store_credential S C ch2 c (h1, db) = (res, h2, db2)" by (metis prod_cases3)
    then have k: "tc db2 = tc db" using store_keeps [of C ch2 c h1 db] by simp
    obtain e db3 where c: "commit_tx (nd_tx S) db db2 = (e, db3)" by force
    show ?thesis
      using f k c TM.rolled_back [of db db2] TM.committed [of db db2 db3] TM.not_committed [of db db2 _ db3]
      by (cases res; cases e) (auto simp: with_transaction_def beside_files_def split: option.split)
  qed
  with enc show ?thesis by (cases enc) (auto simp: update_credential_def chs)
qed

end

section \<open>Sequences of calls\<close>

datatype node_call =
    CreateNode string string string string int
  | FailActive string int
  | StartNode int string int
  | NodePhase int string int
  | FinishNode int bool string string int
  | NodeLog int string string int
  | MachineStatus string string string
  | StoreKey "chance \<times> chance" machine string int
  | ReadKey chance string string

fun run_node_call ::
  "'db node_store \<Rightarrow> crypt \<Rightarrow> (string \<Rightarrow> bool) \<Rightarrow> (string \<Rightarrow> bool) \<Rightarrow> node_call \<Rightarrow> key_host \<times> 'db \<Rightarrow> key_host \<times> 'db" where
  "run_node_call S C https_url ssh_key (CreateNode owner machine node url now) (h, db) =
     (h, snd (create_node_task S https_url owner machine node url now db))"
| "run_node_call S C https_url ssh_key (FailActive reason now) (h, db) = (h, snd (fail_active_tasks S reason now db))"
| "run_node_call S C https_url ssh_key (StartNode tid phase now) (h, db) = (h, snd (start_node_task S tid phase now db))"
| "run_node_call S C https_url ssh_key (NodePhase tid phase now) (h, db) = (h, snd (update_node_phase S tid phase now db))"
| "run_node_call S C https_url ssh_key (FinishNode tid success phase msg now) (h, db) =
     (h, snd (finish_node_task S tid success phase msg now db))"
| "run_node_call S C https_url ssh_key (NodeLog tid level message now) (h, db) =
     (h, snd (add_node_log S tid level message now db))"
| "run_node_call S C https_url ssh_key (MachineStatus owner name status) (h, db) =
     (h, snd (update_machine_status S owner name status db))"
| "run_node_call S C https_url ssh_key (StoreKey chs m key now) st = snd (update_credential S C ssh_key chs m key now st)"
| "run_node_call S C https_url ssh_key (ReadKey ch owner machine) st = snd (get_credential S C ch owner machine st)"

definition run_node_calls ::
  "'db node_store \<Rightarrow> crypt \<Rightarrow> (string \<Rightarrow> bool) \<Rightarrow> (string \<Rightarrow> bool) \<Rightarrow> node_call list \<Rightarrow> key_host \<times> 'db \<Rightarrow> key_host \<times> 'db" where
  "run_node_calls S C https_url ssh_key calls st = fold (run_node_call S C https_url ssh_key) calls st"

lemma get_credential_db: "snd (snd (get_credential S C ch owner machine (h, db))) = db"
  by (auto simp: get_credential_def split: sum.split option.split prod.split)

context node_engine
begin

lemma node_call_step: "node_step (tc (snd st)) (tc (snd (run_node_call S C https_url ssh_key c st)))"
proof (cases st)
  case (Pair h db)
  then show ?thesis
    by (cases c)
       (simp_all add: create_step fail_active_step start_step phase_step finish_step log_keeps machine_status_keeps
          update_credential_keeps get_credential_db node_stutter)
qed

lemma node_calls_steps: "node_step\<^sup>*\<^sup>* (tc (snd st)) (tc (snd (run_node_calls S C https_url ssh_key calls st)))"
  unfolding run_node_calls_def
proof (induction calls arbitrary: st)
  case (Cons c calls)
  have "node_step\<^sup>*\<^sup>* (tc (snd (run_node_call S C https_url ssh_key c st)))
      (tc (snd (fold (run_node_call S C https_url ssh_key) calls (run_node_call S C https_url ssh_key c st))))"
    by (rule Cons.IH)
  with node_call_step [of st C https_url ssh_key c] show ?case
    by (simp add: converse_rtranclp_into_rtranclp)
qed simp

end

section \<open>The secret\<close>

lemma credential_secret_ok:
  assumes "credential_secret conf ch h = (Ok s, h')"
  shows "trim_space conf \<noteq> [] \<and> s = trim_space conf \<and> h' = h
     \<or> trim_space conf = [] \<and> (\<exists>text. key_file h' = Some text \<and> trim_space text = s) \<and> s \<noteq> []
       \<and> (h' = h \<or> temp_file h' = None)"
proof (cases "trim_space conf = [] \<and> key_file h = None")
  case True
  then obtain bytes where b: "ch_secret ch = Some bytes"
      "write_secret ch (b64_encode (map bytes [0..<32])) h = (Ok s, h')"
    using assms by (auto simp: credential_secret_def split: if_splits option.splits)
  then have "s = b64_encode (map bytes [0..<32])" "key_file h' = Some (s @ [newline])" "temp_file h' = None"
    by (auto simp: write_secret_def Let_def split: if_splits)
  then show ?thesis using True
    by (auto simp: b64_encode_visible trim_space_visible b64_encode_Nil)
next
  case False
  then show ?thesis using assms by (auto simp: credential_secret_def split: if_splits option.splits)
qed

text \<open>
  C11: once the secret has been given out it stays the same: every later request that can read
  its file gets the same text and changes nothing. A file that was just written leaves no
  temporary one behind.
\<close>

theorem secret_is_stable:
  assumes "credential_secret conf ch h = (Ok s, h')" and "ch_io ch' 0"
  shows "credential_secret conf ch' h' = (Ok s, h') \<and> s \<noteq> [] \<and> (h' \<noteq> h \<longrightarrow> temp_file h' = None)"
  using credential_secret_ok [OF assms(1)] assms(2) by (auto simp: credential_secret_def)

theorem secret_is_stable_witness:
  "let ch = \<lparr>ch_io = (\<lambda>_. True), ch_secret = Some (\<lambda>_. CHR ''k''), ch_nonce = None, ch_partial = []\<rparr>;
       h = \<lparr>key_file = None, temp_file = Some ''old''\<rparr>; (res, h') = credential_secret [] ch h
   in credential_secret [] ch h' = (res, h') \<and> key_file h' \<noteq> None"
proof -
  let ?ch = "\<lparr>ch_io = (\<lambda>_. True), ch_secret = Some (\<lambda>_. CHR ''k''), ch_nonce = None, ch_partial = []\<rparr>"
  let ?s = "b64_encode (map (\<lambda>_. CHR ''k'') [0..<32])"
  let ?h' = "\<lparr>key_file = Some (?s @ [newline]), temp_file = None\<rparr>"
  have e: "credential_secret [] ?ch \<lparr>key_file = None, temp_file = Some ''old''\<rparr> = (Ok ?s, ?h')"
    by (simp add: credential_secret_def write_secret_def)
  from secret_is_stable [OF e, of ?ch] show ?thesis unfolding Let_def e by simp
qed

section \<open>Credentials\<close>

lemma nonce_length [simp]: "length (map f [0..<nonce_size]) = nonce_size"
  by simp

text \<open>What a decryption that works was given.\<close>

lemma decrypt_keyD:
  assumes "decrypt_key C ch owner machine e h = (Ok plain, h')"
  obtains raw s where "credential_secret (cr_conf C) ch h = (Ok s, h')" "nonce_size \<le> length raw"
    "b64_decode (trim_prefix e credential_prefix) = Some raw"
    "cr_open C (cr_sha C s) (take nonce_size raw) (drop nonce_size raw) (bound_to owner machine) = Some plain"
  using assms
  by (auto simp: decrypt_key_def credential_aead_def not_less split: if_splits option.splits sum.splits prod.splits)

lemma encrypt_keyD:
  assumes "encrypt_key C ch owner machine plain h = (Ok e, h')"
  obtains nonce s where "credential_secret (cr_conf C) ch h = (Ok s, h')" "length nonce = nonce_size"
    "e = credential_prefix @ b64_encode (nonce @ cr_seal C (cr_sha C s) nonce plain (bound_to owner machine))"
proof -
  obtain s nb where s: "credential_secret (cr_conf C) ch h = (Ok s, h')" "ch_nonce ch = Some nb"
    "e = credential_prefix @ b64_encode (map nb [0..<nonce_size] @
       cr_seal C (cr_sha C s) (map nb [0..<nonce_size]) plain (bound_to owner machine))"
    using assms by (auto simp: encrypt_key_def credential_aead_def Let_def split: option.splits sum.splits prod.splits)
  show ?thesis by (rule that [OF s(1) _ s(3)]) simp
qed

text \<open>A later decryption of a credential that was just encrypted opens what was sealed.\<close>

lemma decrypt_encrypted:
  assumes "credential_secret (cr_conf C) ch h = (Ok s, h)" "length nonce = nonce_size"
  shows "decrypt_key C ch owner machine (credential_prefix @ b64_encode (nonce @ box)) h =
     (case cr_open C (cr_sha C s) nonce box (bound_to owner machine) of
        None \<Rightarrow> Err OpenFailed | Some p \<Rightarrow> Ok p, h)"
  using assms by (simp add: decrypt_key_def b64_roundtrip credential_aead_def split: option.split)

lemma bound_to_inj:
  assumes "bound_to owner machine = bound_to owner' machine'" "CHR ''/'' \<notin> set machine" "CHR ''/'' \<notin> set machine'"
  shows "owner' = owner \<and> machine' = machine"
proof -
  have "last_index (bound_to owner machine) (CHR ''/'') = Some (length owner)"
    "last_index (bound_to owner' machine') (CHR ''/'') = Some (length owner')"
    using assms(2,3) by (simp_all add: bound_to_def last_index_snoc)
  with assms(1) have "length owner = length owner'" by simp
  with assms(1) show ?thesis by (simp add: bound_to_def)
qed

text \<open>
  C12: a credential encrypted for a machine can be decrypted for that machine only, and gives the
  key that was encrypted: AES-GCM opens what it sealed and wants the additional data it sealed
  it with, and machine names hold no slash.
\<close>

theorem credential_is_bound:
  assumes sealed: "\<And>k n p ad ad'. cr_open C k n (cr_seal C k n p ad) ad' = (if ad' = ad then Some p else None)"
    and "CHR ''/'' \<notin> set machine" "CHR ''/'' \<notin> set machine'" "ch_io ch' 0"
    and e: "encrypt_key C ch owner machine key h = (Ok e, h')"
  shows "decrypt_key C ch' owner' machine' e h' =
     (if owner' = owner \<and> machine' = machine then Ok key else Err OpenFailed, h')"
proof -
  obtain nonce s where n: "credential_secret (cr_conf C) ch h = (Ok s, h')" "length nonce = nonce_size"
    "e = credential_prefix @ b64_encode (nonce @ cr_seal C (cr_sha C s) nonce key (bound_to owner machine))"
    using encrypt_keyD [OF e] by metis
  have "credential_secret (cr_conf C) ch' h' = (Ok s, h')"
    using credential_secret_ok [OF n(1)] assms(4) by (auto simp: credential_secret_def)
  from decrypt_encrypted [OF this n(2)] show ?thesis
    unfolding n(3) using bound_to_inj [of owner machine owner' machine'] assms(2,3) by (auto simp: sealed)
qed

definition credential_of :: "node_credential \<Rightarrow> node_credential \<Rightarrow> bool" where
  "credential_of c r \<longleftrightarrow> nc_owner r = nc_owner c \<and> nc_machine r = nc_machine c"

definition cleared :: "machine \<Rightarrow> bool" where
  "cleared m \<longleftrightarrow> mc_password m = [] \<and> mc_key m = [] \<and> mc_status m = ''Deployed''"

context node_engine
begin

lemma upsert_stored:
  assumes "upsert_credential S c db = (Ok (), db')" "r \<in> set (cc db')" "credential_of c r"
  shows "nc_key r = nc_key c"
proof -
  let ?p = "\<lambda>r. nc_owner r = nc_owner c \<and> nc_machine r = nc_machine c"
  let ?f = "\<lambda>r. r\<lparr>nc_key := nc_key c, nc_updated := nc_updated c\<rparr>"
  obtain n db2 where u: "update_where (nd_creds S) ?p ?f db = (Inr n, db2)"
    using assms(1) by (auto simp: upsert_credential_def split: prod.splits sum.splits)
  have up: "\<forall>q \<in> set (cc db2). credential_of c q \<longrightarrow> nc_key q = nc_key c"
    using TC.B.update_ok [OF u] by (auto simp: set_update_rows credential_of_def)
  show ?thesis
  proof (cases "n = 0")
    case False
    with u assms up show ?thesis by (auto simp: upsert_credential_def)
  next
    case True
    then obtain c' where "insert_row (nd_creds S) c db2 = (Inr c', db')"
      using u assms(1) by (auto simp: upsert_credential_def split: prod.splits sum.splits)
    then obtain xs ys where "cc db2 = xs @ ys" "cc db' = xs @ c # ys" using C.keyed_insert_ok by blast
    with up assms(2,3) show ?thesis by auto
  qed
qed

lemma store_ok:
  assumes ok: "store_credential S C ch c (h, db) = (Ok (), h', db')" and "nc_owner c \<noteq> []" "nc_machine c \<noteq> []"
  shows "(\<exists>r \<in> set (cc db'). credential_of c r) \<and> (\<forall>r \<in> set (cc db'). credential_of c r \<longrightarrow> nc_key r = nc_key c)
     \<and> (\<exists>s. credential_secret (cr_conf C) ch h = (Ok s, h'))
     \<and> (\<forall>m \<in> set (mc db'). mc_owner m = nc_owner c \<and> mc_name m = nc_machine c \<longrightarrow> cleared m)"
proof -
  let ?m = "\<lambda>m. mc_owner m = nc_owner c \<and> mc_name m = nc_machine c"
  let ?b = "credential_bean (nc_owner c) (nc_machine c)"
  obtain locked db1 stored plain n where
    u: "upsert_credential S c db = (Ok (), db1)" "get_first (nd_creds S) ?b db1 = Inr (Some stored)"
      "decrypt_key C ch (nc_owner c) (nc_machine c) (nc_key stored) h = (Ok plain, h')"
      "update_where (nd_machines S) ?m (deployed_machine locked) db1 = (Inr n, db')"
    using ok by (auto simp: store_credential_def Let_def split: sum.splits option.splits prod.splits)
  have cc: "cc db' = cc db1" using CM.B_keeps_A(1) u(4) by (metis snd_conv)
  have "stored \<in> set (cc db')" "credential_of c stored"
    using TC.B.get_first_in [OF u(2)] assms(2,3) by (auto simp: cc credential_bean_def credential_of_def)
  moreover have "\<exists>s. credential_secret (cr_conf C) ch h = (Ok s, h')" using decrypt_keyD [OF u(3)] by metis
  moreover have "\<forall>m \<in> set (mc db'). ?m m \<longrightarrow> cleared m"
    unfolding TM.B.update_ok [OF u(4), THEN conjunct1]
    by (rule update_rows_all) (auto simp: deployed_machine_def cleared_def)
  moreover have "\<forall>r \<in> set (cc db'). credential_of c r \<longrightarrow> nc_key r = nc_key c"
    unfolding cc using upsert_stored [OF u(1)] by blast
  ultimately show ?thesis by blast
qed

lemma beside_files_ok:
  assumes "with_transaction (beside_files (nd_tx S)) fail fn (h, db) = (Inr v, h', db')"
  obtains db2 where "fn (h, db) = (Inr v, h', db2)" "cc db' = cc db2" "mc db' = mc db2"
proof -
  obtain res h2 db2 where f: "fn (h, db) = (res, h2, db2)" by (metis prod_cases3)
  obtain e db3 where c: "commit_tx (nd_tx S) db db2 = (e, db3)" by force
  from assms f c CM.committed [of db db2 db3] that [of db2] show ?thesis
    by (cases res; cases e) (auto simp: with_transaction_def beside_files_def split: option.splits)
qed

lemma stored_then_read:
  assumes gcm: "\<And>k n p ad. cr_open C k n (cr_seal C k n p ad) ad = Some p"
    and up: "update_credential S C ssh_key chs m key now (h, db) = (Ok (), h1, db1)"
    and m: "mc_owner m \<noteq> []" "mc_name m \<noteq> []" and "ch_io ch 0"
    and get: "get_first (nd_creds S) (credential_bean (mc_owner m) (mc_name m)) db1 = Inr found"
  shows "\<exists>c. get_credential S C ch (mc_owner m) (mc_name m) (h1, db1) = (Ok (Some c), h1, db1) \<and> nc_key c = key
     \<and> nc_owner c = mc_owner m \<and> nc_machine c = mc_name m
     \<and> (\<forall>q \<in> set (mc db1). mc_owner q = mc_owner m \<and> mc_name q = mc_name m \<longrightarrow> cleared q)"
proof -
  let ?o = "mc_owner m" and ?n = "mc_name m"
  obtain ch1 ch2 where chs: "chs = (ch1, ch2)" by force
  obtain e h0 where e: "encrypt_key C ch1 ?o ?n key h = (Ok e, h0)"
    and tx: "with_transaction (beside_files (nd_tx S)) NodeDb
      (store_credential S C ch2 \<lparr>nc_owner = ?o, nc_machine = ?n, nc_key = e, nc_updated = now\<rparr>) (h0, db) = (Ok (), h1, db1)"
    using up by (auto simp: update_credential_def chs split: if_splits prod.splits sum.splits)
  let ?c = "\<lparr>nc_owner = ?o, nc_machine = ?n, nc_key = e, nc_updated = now\<rparr>"
  obtain db2 where st: "store_credential S C ch2 ?c (h0, db) = (Ok (), h1, db2)" "cc db1 = cc db2" "mc db1 = mc db2"
    by (rule beside_files_ok [OF tx])
  obtain nonce s where n: "credential_secret (cr_conf C) ch1 h = (Ok s, h0)" "length nonce = nonce_size"
    "e = credential_prefix @ b64_encode (nonce @ cr_seal C (cr_sha C s) nonce key (bound_to ?o ?n))"
    using encrypt_keyD [OF e] by metis
  note so = store_ok [OF st(1), simplified, OF m]
  obtain s2 where s2: "credential_secret (cr_conf C) ch2 h0 = (Ok s2, h1)" using so by blast
  have "credential_secret (cr_conf C) ch h1 = (Ok s, h1)"
    using credential_secret_ok [OF n(1)] s2 \<open>ch_io ch 0\<close> by (auto simp: credential_secret_def split: if_splits)
  from decrypt_encrypted [OF this n(2)] have d: "decrypt_key C ch ?o ?n e h1 = (Ok key, h1)"
    unfolding n(3) by (simp add: gcm)
  obtain r where "r \<in> set (cc db1)" "credential_of ?c r" using so st(2) by auto
  then have "found \<noteq> None"
    using get TC.B.select_ok [of "credential_bean ?o ?n" db1] m
    by (fastforce simp: get_first_def credential_of_def credential_bean_def filter_empty_conv split: sum.splits list.splits)
  then obtain c where c: "get_first (nd_creds S) (credential_bean ?o ?n) db1 = Inr (Some c)" using get by auto
  have cin: "c \<in> set (cc db1)" "credential_of ?c c"
    using TC.B.get_first_in [OF c] m by (auto simp: credential_bean_def credential_of_def)
  then have "nc_key c = e" using so st(2) by auto
  with c d cin(2) so st(3) show ?thesis by (simp add: get_credential_def credential_of_def)
qed

end

section \<open>An engine in memory\<close>

record node_mem =
  nm_tasks :: "node_task mem"
  nm_logs :: "node_log mem"
  nm_creds :: "node_credential mem"
  nm_machines :: "machine mem"

definition node_mem_store :: "node_mem node_store" where
  "node_mem_store =
     \<lparr>nd_tasks = mem_table nm_tasks (\<lambda>m db. db\<lparr>nm_tasks := m\<rparr>) nt_id (\<lambda>i t. t\<lparr>nt_id := i\<rparr>) (\<lambda>_. True) (DbFailure []),
      nd_logs = mem_table nm_logs (\<lambda>m db. db\<lparr>nm_logs := m\<rparr>) nl_id (\<lambda>i l. l\<lparr>nl_id := i\<rparr>) (\<lambda>_. True) (DbFailure []),
      nd_creds = mem_table nm_creds (\<lambda>m db. db\<lparr>nm_creds := m\<rparr>) (\<lambda>_. 0) (\<lambda>_ c. c) (\<lambda>_. True) (DbFailure []),
      nd_machines = mem_table nm_machines (\<lambda>m db. db\<lparr>nm_machines := m\<rparr>) (\<lambda>_. 0) (\<lambda>_ c. c) (\<lambda>_. True) (DbFailure []),
      nd_tx = \<lparr>begin_tx = (\<lambda>_. None), commit_tx = (\<lambda>_ db. (None, db)), rollback_tx = (\<lambda>db _. db)\<rparr>\<rparr>"

interpretation node_memory: node_engine node_mem_store "\<lambda>db. mrows (nm_tasks db)" "\<lambda>db. mrows (nm_logs db)"
  "\<lambda>db. mrows (nm_creds db)" "\<lambda>db. mrows (nm_machines db)"
proof -
  have t: "sql_table (nd_tasks node_mem_store) (\<lambda>db. mrows (nm_tasks db)) nt_id (\<lambda>i t. t\<lparr>nt_id := i\<rparr>) (\<lambda>_. True)"
    and l: "sql_table (nd_logs node_mem_store) (\<lambda>db. mrows (nm_logs db)) nl_id (\<lambda>i t. t\<lparr>nl_id := i\<rparr>) (\<lambda>_. True)"
    and c: "keyed_table (nd_creds node_mem_store) (\<lambda>db. mrows (nm_creds db)) (\<lambda>_. True)"
    and m: "keyed_table (nd_machines node_mem_store) (\<lambda>db. mrows (nm_machines db)) (\<lambda>_. True)"
    unfolding node_mem_store_def node_store.simps by (rule mem_table_laws mem_keyed_laws; simp)+
  note rows = sql_table.axioms(1) [OF t] sql_table.axioms(1) [OF l] keyed_table.axioms(1) [OF c] keyed_table.axioms(1) [OF m]
  have tx: "two_tables_axioms TA ca TB cb (nd_tx node_mem_store)"
    if "\<And>db p f. cb (snd (update_where TA p f db)) = cb db" "\<And>db r. cb (snd (insert_row TA r db)) = cb db"
      "\<And>db p. cb (snd (delete_where TA p db)) = cb db" "\<And>db p f. ca (snd (update_where TB p f db)) = ca db"
      "\<And>db r. ca (snd (insert_row TB r db)) = ca db" "\<And>db p. ca (snd (delete_where TB p db)) = ca db"
    for TA :: "('a, node_mem) table" and ca and TB :: "('b, node_mem) table" and cb
    using that by (simp add: two_tables_axioms_def node_mem_store_def)
  show "node_engine node_mem_store (\<lambda>db. mrows (nm_tasks db)) (\<lambda>db. mrows (nm_logs db))
      (\<lambda>db. mrows (nm_creds db)) (\<lambda>db. mrows (nm_machines db))"
    unfolding node_engine_def two_tables_def
    by (intro conjI t c rows tx)
       (auto simp: node_mem_store_def mem_table_def Let_def split: prod.split option.splits)
qed

lemma node_mem_engine:
  "node_engine node_mem_store (\<lambda>db. mrows (nm_tasks db)) (\<lambda>db. mrows (nm_logs db))
     (\<lambda>db. mrows (nm_creds db)) (\<lambda>db. mrows (nm_machines db))"
  by (rule node_memory.node_engine_axioms)

text \<open>A cipher to show that the laws of AES-GCM can hold: it puts the additional data before the text.\<close>

definition plain_header :: "string \<Rightarrow> string" where
  "plain_header ad = replicate (length ad) (CHR ''a'') @ CHR ''b'' # ad"

definition plain_crypt :: crypt where
  "plain_crypt =
     \<lparr>cr_conf = ''k'', cr_sha = (\<lambda>s. s), cr_seal = (\<lambda>_ _ p ad. plain_header ad @ p),
      cr_open = (\<lambda>_ _ c ad. if has_prefix c (plain_header ad) then Some (trim_prefix c (plain_header ad)) else None)\<rparr>"

lemma plain_header_inj: "plain_header ad @ p = plain_header ad' @ t \<Longrightarrow> ad' = ad"
proof -
  assume e: "plain_header ad @ p = plain_header ad' @ t"
  have "length (takeWhile (\<lambda>c. c = CHR ''a'') (plain_header x @ y)) = length x" for x y
    by (simp add: plain_header_def takeWhile_append)
  with e have "length ad = length ad'" by metis
  with e show ?thesis by (simp add: plain_header_def)
qed

lemma plain_crypt_gcm:
  "cr_open plain_crypt k n (cr_seal plain_crypt k n p ad) ad' = (if ad' = ad then Some p else None)"
  using plain_header_inj [of ad p ad'] by (auto simp: plain_crypt_def has_prefix_iff)

abbreviation sure :: chance where
  "sure \<equiv> \<lparr>ch_io = (\<lambda>_. True), ch_secret = None, ch_nonce = Some (\<lambda>_. CHR ''n''), ch_partial = []\<rparr>"

abbreviation no_files :: key_host where "no_files \<equiv> \<lparr>key_file = None, temp_file = None\<rparr>"

theorem credential_is_bound_witness:
  "case encrypt_key plain_crypt sure ''o'' ''m'' ''key'' no_files of
     (Inl e, h) \<Rightarrow> False
   | (Inr e, h) \<Rightarrow> fst (decrypt_key plain_crypt sure ''o'' ''n'' e h) = Err OpenFailed"
proof -
  obtain e where e: "encrypt_key plain_crypt sure ''o'' ''m'' ''key'' no_files = (Ok e, no_files)"
    by (simp add: encrypt_key_def credential_aead_def credential_secret_def plain_crypt_def Let_def
        trim_space_visible visible_def)
  from credential_is_bound [OF plain_crypt_gcm _ _ _ e, of "''n''" sure "''o''"] show ?thesis
    by (simp add: e)
qed

section \<open>What the record promises\<close>

text \<open>
  C13: whatever calls are made, in whatever order, and whichever statements of the database fail,
  no machine ever has two active deployment tasks, and every task is for a named machine of an
  owner and a valid node name.
\<close>

theorem node_task_invariant:
  assumes "node_engine S tc lc cc mc" and "tc db = []"
  shows "let rows = tc (snd (run_node_calls S C https_url ssh_key calls (h, db))) in
     (\<forall>r \<in> set rows. \<forall>t \<in> set rows. node_active r \<and> node_active t \<and>
        of_machine (nt_owner t) (nt_machine t) r \<longrightarrow> r = t) \<and>
     (\<forall>t \<in> set rows. nt_owner t \<noteq> [] \<and> nt_machine t \<noteq> [] \<and> CHR ''/'' \<notin> set (nt_machine t)
        \<and> validate_node_name (nt_node t) = None)"
proof -
  have "node_rows_ok (tc (snd (run_node_calls S C https_url ssh_key calls (h, db))))"
    using node_engine.node_calls_steps [OF assms(1), of "(h, db)"] node_steps_ok assms(2) by force
  then show ?thesis by (auto simp: Let_def node_rows_ok_def one_active_def node_task_ok_def)
qed

text \<open>The outcome of a deployment task is final: once it has succeeded or failed nothing changes its row.\<close>

theorem node_outcome_is_final:
  assumes "node_engine S tc lc cc mc" and "t \<in> set (tc db)" and "\<not> node_active t"
  shows "t \<in> set (tc (snd (run_node_calls S C https_url ssh_key calls (h, db))))"
  using node_steps_final [OF node_engine.node_calls_steps [OF assms(1), of "(h, db)"], of t] assms(2,3) by simp

text \<open>
  A credential that was stored without an error reads back as the key that was given, and
  the machine's own password and key are gone: AES-GCM opens what it sealed, and the reading
  itself does not fail.
\<close>

theorem stored_credential_reads_back:
  assumes "node_engine S tc lc cc mc" and "\<And>k n p ad. cr_open C k n (cr_seal C k n p ad) ad = Some p"
    and "update_credential S C ssh_key chs m key now (h, db) = (Ok (), h1, db1)"
    and "mc_owner m \<noteq> []" "mc_name m \<noteq> []" and "ch_io ch 0"
    and "get_first (nd_creds S) (credential_bean (mc_owner m) (mc_name m)) db1 = Inr found"
  shows "\<exists>c. get_credential S C ch (mc_owner m) (mc_name m) (h1, db1) = (Ok (Some c), h1, db1) \<and> nc_key c = key
     \<and> (\<forall>q \<in> set (mc db1). mc_owner q = mc_owner m \<and> mc_name q = mc_name m \<longrightarrow>
          mc_password q = [] \<and> mc_key q = [] \<and> mc_status q = ''Deployed'')"
  using node_engine.stored_then_read [OF assms] unfolding cleared_def by blast

abbreviation (input) one_machine :: machine where
  "one_machine \<equiv> \<lparr>mc_owner = ''o'', mc_name = ''m'', mc_created = [], mc_display = [], mc_ip = [], mc_port = 22,
     mc_user = [], mc_auth = [], mc_password = ''pw'', mc_key = [], mc_os = [], mc_status = [], mc_role = [],
     mc_description = []\<rparr>"

abbreviation (input) one_machine_db :: node_mem where
  "one_machine_db \<equiv> \<lparr>nm_tasks = \<lparr>mrows = [], mnext = 0, mfaults = []\<rparr>, nm_logs = \<lparr>mrows = [], mnext = 0, mfaults = []\<rparr>,
     nm_creds = \<lparr>mrows = [], mnext = 0, mfaults = []\<rparr>, nm_machines = \<lparr>mrows = [one_machine], mnext = 0, mfaults = []\<rparr>\<rparr>"

theorem node_task_invariant_witness:
  "list_all (\<lambda>t. nt_owner t \<noteq> [])
     (mrows (nm_tasks (snd (run_node_calls node_mem_store plain_crypt (\<lambda>_. True) (\<lambda>_. True)
        [CreateNode ''o'' ''m'' ''node-1'' [] 1, CreateNode ''o'' ''m'' ''node-2'' [] 2] (no_files, one_machine_db)))))"
  using node_task_invariant [OF node_mem_engine, of one_machine_db plain_crypt "\<lambda>_. True" "\<lambda>_. True"
     "[CreateNode ''o'' ''m'' ''node-1'' [] 1, CreateNode ''o'' ''m'' ''node-2'' [] 2]" no_files]
  by (simp add: Let_def list_all_iff)

theorem node_outcome_is_final_witness:
  "let t = (new_node_task ''o'' ''m'' ''node-1'' [] 1)\<lparr>nt_id := 1, nt_status := ''failed''\<rparr>;
       db = one_machine_db\<lparr>nm_tasks := \<lparr>mrows = [t], mnext = 1, mfaults = []\<rparr>\<rparr>
   in t \<in> set (mrows (nm_tasks (snd (run_node_calls node_mem_store plain_crypt (\<lambda>_. True) (\<lambda>_. True)
        [FinishNode 1 True ''ready'' [] 5, FailActive [] 6] (no_files, db)))))"
  unfolding Let_def
  by (rule node_outcome_is_final [OF node_mem_engine]) (simp_all add: node_active_def)

theorem stored_credential_reads_back_witness:
  "let (h, db) = snd (update_credential node_mem_store plain_crypt (\<lambda>_. True) (sure, sure) one_machine ''key'' 5
       (no_files, one_machine_db))
   in \<exists>c. fst (get_credential node_mem_store plain_crypt sure ''o'' ''m'' (h, db)) = Ok (Some c) \<and> nc_key c = ''key''"
proof -
  let ?u = "update_credential node_mem_store plain_crypt (\<lambda>_. True) (sure, sure) one_machine ''key'' 5
       (no_files, one_machine_db)"
  have "fst ?u = Ok ()" by code_simp
  then obtain h db where u: "?u = (Ok (), h, db)" by (metis prod.collapse)
  have "case get_first (nd_creds node_mem_store) (credential_bean ''o'' ''m'') (snd (snd ?u)) of Inl _ \<Rightarrow> False | Inr _ \<Rightarrow> True"
    by code_simp
  then obtain found where f: "get_first (nd_creds node_mem_store) (credential_bean ''o'' ''m'') db = Inr found"
    by (auto simp: u split: sum.splits)
  have gcm: "cr_open plain_crypt k n (cr_seal plain_crypt k n p ad) ad = Some p" for k n p ad
    by (simp add: plain_crypt_gcm)
  note r = stored_credential_reads_back [OF node_mem_engine gcm u, of sure found]
  then obtain c where "get_credential node_mem_store plain_crypt sure ''o'' ''m'' (h, db) = (Ok (Some c), h, db)"
    "nc_key c = ''key''" using f by auto
  then show ?thesis by (simp add: u)
qed

end
