(* ===== verification/Kube.thy ===== *)
theory Kube
  imports Prelude
begin

text \<open>
  What the code relies on of the Kubernetes API server, as an interface: reading, writing and
  deleting objects of one kind, which the server keeps by namespace and name. The server is a
  parameter of every definition that calls it.
\<close>

datatype api_error = ApiNotFound | ApiConflict | ApiOther string

record ('o, 'k) resource =
  r_get :: "string \<Rightarrow> string \<Rightarrow> 'k \<Rightarrow> (api_error + 'o) \<times> 'k"
  r_list :: "('o \<Rightarrow> bool) \<Rightarrow> 'k \<Rightarrow> (api_error + 'o list) \<times> 'k"
  r_create :: "'o \<Rightarrow> 'k \<Rightarrow> (api_error + 'o) \<times> 'k"
  r_update :: "'o \<Rightarrow> 'k \<Rightarrow> (api_error + 'o) \<times> 'k"
  r_update_status :: "'o \<Rightarrow> 'k \<Rightarrow> (api_error + 'o) \<times> 'k"
  r_delete :: "string \<Rightarrow> string \<Rightarrow> 'k \<Rightarrow> (api_error + unit) \<times> 'k"

text \<open>
  \<open>main\<close> is what an update decides, \<open>status\<close> what an update of the status does; the server may
  change the rest (versions, defaults). A write that fails has no effect when the server
  refused it, and otherwise its effect or none: the answer can be lost.
\<close>

locale kube_resource =
  fixes R :: "('o, 'k) resource" and objects :: "'k \<Rightarrow> string \<times> string \<Rightarrow> 'o option"
    and key :: "'o \<Rightarrow> string \<times> string" and main :: "'o \<Rightarrow> 'm" and status :: "'o \<Rightarrow> 's"
  assumes reads: "objects (snd (r_get R ns n k)) = objects k" "objects (snd (r_list R p k)) = objects k"
    and stored_key: "objects k q = Some obj \<Longrightarrow> key obj = q"
    and get_ok: "r_get R ns n k = (Inr obj, k') \<Longrightarrow> objects k (ns, n) = Some obj"
    and get_missing: "r_get R ns n k = (Inl ApiNotFound, k') \<Longrightarrow> objects k (ns, n) = None"
    and list_ok: "r_list R p k = (Inr objs, k') \<Longrightarrow> set objs = {obj. p obj \<and> objects k (key obj) = Some obj}"
    and create_effect: "r_create R obj k = (res, k') \<Longrightarrow>
        objects k' = objects k \<and> (\<forall>o'. res \<noteq> Inr o') \<or>
        (\<exists>o'. objects k (key obj) = None \<and> key o' = key obj \<and> main o' = main obj \<and>
           objects k' = (objects k)(key obj \<mapsto> o') \<and> (\<forall>o''. res = Inr o'' \<longrightarrow> o'' = o'))"
    and update_effect: "r_update R obj k = (res, k') \<Longrightarrow>
        objects k' = objects k \<and> (\<forall>o'. res \<noteq> Inr o') \<or>
        (\<exists>old o'. objects k (key obj) = Some old \<and> key o' = key obj \<and> main o' = main obj \<and> status o' = status old \<and>
           objects k' = (objects k)(key obj \<mapsto> o') \<and> (\<forall>o''. res = Inr o'' \<longrightarrow> o'' = o'))"
    and status_effect: "r_update_status R obj k = (res, k') \<Longrightarrow>
        objects k' = objects k \<and> (\<forall>o'. res \<noteq> Inr o') \<or>
        (\<exists>old o'. objects k (key obj) = Some old \<and> key o' = key obj \<and> main o' = main old \<and> status o' = status obj \<and>
           objects k' = (objects k)(key obj \<mapsto> o') \<and> (\<forall>o''. res = Inr o'' \<longrightarrow> o'' = o'))"
    and delete_effect: "r_delete R ns n k = (dres, k') \<Longrightarrow>
        objects k' = objects k \<and> dres \<noteq> Inr () \<and> (dres = Inl ApiNotFound \<longrightarrow> objects k (ns, n) = None) \<or>
        objects k' = (objects k)((ns, n) := None) \<and> (dres = Inl ApiNotFound \<longrightarrow> objects k (ns, n) = None)"
begin

lemma get_keeps: "r_get R ns n k = (res, k') \<Longrightarrow> objects k' = objects k"
  using reads(1) [of ns n k] by simp

lemma list_keeps: "r_list R p k = (res, k') \<Longrightarrow> objects k' = objects k"
  using reads(2) [of p k] by simp

end

section \<open>Objects in memory\<close>

text \<open>
  A server to show that the laws can hold. Every object carries its own key; a call fails when
  the next entry of \<open>kfaults\<close> says so.
\<close>

record 'o kmem =
  kobjs :: "'o list"
  kfaults :: "api_error option list"

definition kobjects :: "('o \<Rightarrow> string \<times> string) \<Rightarrow> 'o kmem \<Rightarrow> string \<times> string \<Rightarrow> 'o option" where
  "kobjects key m q = find (\<lambda>obj. key obj = q) (kobjs m)"

definition kput :: "('o \<Rightarrow> string \<times> string) \<Rightarrow> 'o \<Rightarrow> 'o kmem \<Rightarrow> 'o kmem" where
  "kput key obj m = m\<lparr>kobjs := obj # filter (\<lambda>q. key q \<noteq> key obj) (kobjs m)\<rparr>"

definition kdel :: "('o \<Rightarrow> string \<times> string) \<Rightarrow> string \<times> string \<Rightarrow> 'o kmem \<Rightarrow> 'o kmem" where
  "kdel key q m = m\<lparr>kobjs := filter (\<lambda>obj. key obj \<noteq> q) (kobjs m)\<rparr>"

definition kfault :: "'o kmem \<Rightarrow> api_error option \<times> 'o kmem" where
  "kfault m = (case kfaults m of [] \<Rightarrow> (None, m) | f # fs \<Rightarrow> (f, m\<lparr>kfaults := fs\<rparr>))"

definition mem_resource ::
  "('k \<Rightarrow> 'o kmem) \<Rightarrow> ('o kmem \<Rightarrow> 'k \<Rightarrow> 'k) \<Rightarrow> ('o \<Rightarrow> string \<times> string) \<Rightarrow> ('o \<Rightarrow> 'o \<Rightarrow> 'o) \<Rightarrow> ('o \<Rightarrow> 'o \<Rightarrow> 'o)
     \<Rightarrow> ('o, 'k) resource" where
  "mem_resource get put key with_main with_status =
     \<lparr>r_get = (\<lambda>ns n k. let (e, m) = kfault (get k) in
          case e of Some (ApiOther x) \<Rightarrow> (Inl (ApiOther x), put m k)
          | _ \<Rightarrow> (case kobjects key m (ns, n) of None \<Rightarrow> (Inl ApiNotFound, put m k) | Some obj \<Rightarrow> (Inr obj, put m k))),
      r_list = (\<lambda>p k. let (e, m) = kfault (get k) in
          case e of Some x \<Rightarrow> (Inl x, put m k)
          | None \<Rightarrow> (Inr (filter (\<lambda>obj. p obj \<and> kobjects key m (key obj) = Some obj) (kobjs m)), put m k)),
      r_create = (\<lambda>obj k. let (e, m) = kfault (get k) in
          case e of Some x \<Rightarrow> (Inl x, put m k)
          | None \<Rightarrow> if kobjects key m (key obj) = None then (Inr obj, put (kput key obj m) k)
                    else (Inl (ApiOther ''exists''), put m k)),
      r_update = (\<lambda>obj k. let (e, m) = kfault (get k) in
          case e of Some x \<Rightarrow> (Inl x, put m k)
          | None \<Rightarrow> (case kobjects key m (key obj) of None \<Rightarrow> (Inl ApiNotFound, put m k)
              | Some old \<Rightarrow> (Inr (with_main obj old), put (kput key (with_main obj old) m) k))),
      r_update_status = (\<lambda>obj k. let (e, m) = kfault (get k) in
          case e of Some x \<Rightarrow> (Inl x, put m k)
          | None \<Rightarrow> (case kobjects key m (key obj) of None \<Rightarrow> (Inl ApiNotFound, put m k)
              | Some old \<Rightarrow> (Inr (with_status obj old), put (kput key (with_status obj old) m) k))),
      r_delete = (\<lambda>ns n k. let (e, m) = kfault (get k) in
          case e of Some (ApiOther x) \<Rightarrow> (Inl (ApiOther x), put m k)
          | _ \<Rightarrow> (case kobjects key m (ns, n) of None \<Rightarrow> (Inl ApiNotFound, put m k)
              | Some _ \<Rightarrow> (Inr (), put (kdel key (ns, n) m) k)))\<rparr>"

lemma kfault_objs: "kfault m = (e, m') \<Longrightarrow> kobjects key m' = kobjects key m \<and> kobjs m' = kobjs m"
  by (auto simp: kfault_def kobjects_def fun_eq_iff split: list.splits)

lemma find_filter: "find p (filter q xs) = find (\<lambda>x. p x \<and> q x) xs"
  by (induction xs) auto

lemma kobjects_kput: "kobjects key (kput key obj m) = (kobjects key m)(key obj \<mapsto> obj)"
proof
  fix q
  have "(\<lambda>x. key x = q \<and> key x \<noteq> key obj) = (\<lambda>x. key x = q)" if "q \<noteq> key obj" using that by auto
  then show "kobjects key (kput key obj m) q = ((kobjects key m)(key obj \<mapsto> obj)) q"
    by (auto simp: kobjects_def kput_def find_filter)
qed

lemma kobjects_kdel:
  "kobjects key (kdel key d m) = (kobjects key m)(d := None)"
proof
  fix q
  have "(\<lambda>x. key x = q \<and> key x \<noteq> d) = (\<lambda>x. key x = q)" if "q \<noteq> d" using that by auto
  moreover have "find (\<lambda>x. key x = d \<and> key x \<noteq> d) xs = None" for xs by (simp add: find_None_iff)
  ultimately show "kobjects key (kdel key d m) q = ((kobjects key m)(d := None)) q"
    by (auto simp: kobjects_def kdel_def find_filter)
qed

lemma kobjects_key: "kobjects key m q = Some obj \<Longrightarrow> key obj = q \<and> obj \<in> set (kobjs m)"
  by (auto simp: kobjects_def find_Some_iff)

lemma mem_resource_laws:
  assumes gp: "\<And>m k. get (put m k) = m"
    and mains: "\<And>obj old. key (with_main obj old) = key obj \<and> main (with_main obj old) = main obj
       \<and> status (with_main obj old) = status old"
    and statuses: "\<And>obj old. key (with_status obj old) = key obj \<and> (key old = key obj \<longrightarrow> main (with_status obj old) = main old)
       \<and> status (with_status obj old) = status obj"
  shows "kube_resource (mem_resource get put key with_main with_status) (\<lambda>k. kobjects key (get k)) key main status"
proof
  let ?R = "mem_resource get put key with_main with_status" and ?o = "\<lambda>k. kobjects key (get k)"
  note defs = mem_resource_def Let_def gp
  note splits = prod.splits option.splits api_error.splits if_splits
  have kept: "main (with_status obj old) = main old" if "kobjects key m (key obj) = Some old" for m obj old
    using statuses kobjects_key [OF that] by blast
  show "?o (snd (r_get ?R ns n k)) = ?o k" for ns n k
    by (auto simp: defs split: splits dest!: kfault_objs [where key = key])
  show "?o (snd (r_list ?R p k)) = ?o k" for p k
    by (auto simp: defs split: splits dest!: kfault_objs [where key = key])
  show "key obj = q" if "?o k q = Some obj" for k q obj using kobjects_key that by metis
  show "?o k (ns, n) = Some obj" if "r_get ?R ns n k = (Inr obj, k')" for ns n k obj k'
    using that by (auto simp: defs split: splits dest!: kfault_objs [where key = key])
  show "?o k (ns, n) = None" if "r_get ?R ns n k = (Inl ApiNotFound, k')" for ns n k k'
    using that by (auto simp: defs split: splits dest!: kfault_objs [where key = key])
  show "set objs = {obj. p obj \<and> ?o k (key obj) = Some obj}" if "r_list ?R p k = (Inr objs, k')" for p k objs k'
    using that kobjects_key [of key] by (fastforce simp: defs split: splits dest!: kfault_objs [where key = key])
  show "?o k' = ?o k \<and> (\<forall>o'. res \<noteq> Inr o') \<or>
        (\<exists>o'. ?o k (key obj) = None \<and> key o' = key obj \<and> main o' = main obj \<and>
           ?o k' = (?o k)(key obj \<mapsto> o') \<and> (\<forall>o''. res = Inr o'' \<longrightarrow> o'' = o'))"
    if "r_create ?R obj k = (res, k')" for obj k res k'
    using that by (auto simp: defs kobjects_kput split: splits dest!: kfault_objs [where key = key])
  show "?o k' = ?o k \<and> (\<forall>o'. res \<noteq> Inr o') \<or>
        (\<exists>old o'. ?o k (key obj) = Some old \<and> key o' = key obj \<and> main o' = main obj \<and> status o' = status old \<and>
           ?o k' = (?o k)(key obj \<mapsto> o') \<and> (\<forall>o''. res = Inr o'' \<longrightarrow> o'' = o'))"
    if "r_update ?R obj k = (res, k')" for obj k res k'
    using that mains by (auto simp: defs kobjects_kput split: splits dest!: kfault_objs [where key = key])
  show "?o k' = ?o k \<and> (\<forall>o'. res \<noteq> Inr o') \<or>
        (\<exists>old o'. ?o k (key obj) = Some old \<and> key o' = key obj \<and> main o' = main old \<and> status o' = status obj \<and>
           ?o k' = (?o k)(key obj \<mapsto> o') \<and> (\<forall>o''. res = Inr o'' \<longrightarrow> o'' = o'))"
    if "r_update_status ?R obj k = (res, k')" for obj k res k'
    using that statuses kept [of "get k"]
    by (auto simp: defs kobjects_kput split: splits dest!: kfault_objs [where key = key])
  show "?o k' = ?o k \<and> res \<noteq> Inr () \<and> (res = Inl ApiNotFound \<longrightarrow> ?o k (ns, n) = None) \<or>
        ?o k' = (?o k)((ns, n) := None) \<and> (res = Inl ApiNotFound \<longrightarrow> ?o k (ns, n) = None)"
    if "r_delete ?R ns n k = (res, k')" for ns n k res k'
    using that by (auto simp: defs kobjects_kdel split: splits dest!: kfault_objs [where key = key])
qed

end
