(* ===== verification/ServiceLB.thy ===== *)
theory ServiceLB
  imports Kube GoNet
begin

text \<open>
  The load balancer of the built-in cluster (server/servicelb.go). A Service of type
  LoadBalancer gets a DaemonSet of proxies on the nodes' host ports, and the addresses of the
  nodes with ready proxies become its status. Parameters: the API server (\<open>Kube\<close>), SHA-256 in
  hexadecimal, \<open>json.Unmarshal\<close> of a list of strings, and the comparison of two DaemonSets
  after the server's defaults.
\<close>

section \<open>Objects\<close>

record service_port =
  sp_name :: string
  sp_protocol :: string
  sp_port :: int
  sp_node_port :: int

record ingress =
  in_ip :: string
  in_hostname :: string
  in_mode :: "string option"
  in_ports :: "string list"

record service =
  sv_ns :: string
  sv_name :: string
  sv_uid :: string
  sv_version :: string
  sv_annotations :: "string \<rightharpoonup> string"
  sv_deleting :: bool
  sv_type :: string
  sv_class :: "string option"
  sv_ports :: "service_port list"
  sv_source_ranges :: "string list"
  sv_families :: "string list"
  sv_traffic :: string
  sv_cluster_ip :: string
  sv_cluster_ips :: "string list"
  sv_external_ips :: "string list"
  sv_ingress :: "ingress list"

datatype env_value = Value string | FieldPath string

record container =
  ct_name :: string
  ct_image :: string
  ct_pull :: string
  ct_port_name :: string
  ct_port :: int
  ct_host_port :: int
  ct_protocol :: string
  ct_env :: "(string \<times> env_value) list"
  ct_capabilities :: "string list"

record daemon_set =
  ds_ns :: string
  ds_name :: string
  ds_version :: string
  ds_labels :: "string \<rightharpoonup> string"
  ds_annotations :: "string \<rightharpoonup> string"
  ds_selector :: "string \<rightharpoonup> string"
  ds_max_unavailable :: int
  ds_pod_labels :: "string \<rightharpoonup> string"
  ds_automount :: bool
  ds_priority :: string
  ds_sysctls :: "(string \<times> string) list"
  ds_node_lacks :: "string list"
  ds_tolerates :: "(string \<times> string) list"
  ds_containers :: "container list"

record pod =
  pd_labels :: "string \<rightharpoonup> string"
  pd_node :: string
  pd_ip :: string
  pd_conditions :: "(string \<times> string) list"

record endpoint =
  ep_node :: "string option"
  ep_ready :: "bool option"

record endpoint_slice =
  es_ns :: string
  es_labels :: "string \<rightharpoonup> string"
  es_endpoints :: "endpoint list"

record kube_node =
  kn_name :: string
  kn_labels :: "string \<rightharpoonup> string"
  kn_unschedulable :: bool
  kn_conditions :: "(string \<times> string) list"
  kn_addresses :: "(string \<times> string) list"

datatype lb_error =
    ApiFailed api_error | NoPorts | BadPort string int | NeedsNodePort string | NoClusterIP
  | ForeignDaemonSet | OtherServiceDaemonSet | MalformedLegacy

record 'k lb_api =
  lb_services :: "(service, 'k) resource"
  lb_daemon_sets :: "(daemon_set, 'k) resource"
  lb_pods :: "(pod \<Rightarrow> bool) \<Rightarrow> 'k \<Rightarrow> (api_error + pod list) \<times> 'k"
  lb_slices :: "(endpoint_slice \<Rightarrow> bool) \<Rightarrow> 'k \<Rightarrow> (api_error + endpoint_slice list) \<times> 'k"
  lb_nodes :: "'k \<Rightarrow> (api_error + kube_node list) \<times> 'k"
  lb_sha :: "string \<Rightarrow> string"
  lb_decode :: "string \<Rightarrow> string list option"
  lb_same_spec :: "daemon_set \<Rightarrow> daemon_set \<Rightarrow> bool"

definition lb_namespace :: string where "lb_namespace = ''kube-system''"
definition lb_managed_ips :: string where "lb_managed_ips = ''casos.io/service-lb-managed-ips''"
definition lb_disabled :: string where "lb_disabled = ''casos.io/service-lb-disabled''"
definition lb_managed_by :: string where "lb_managed_by = ''app.kubernetes.io/managed-by''"
definition lb_component :: string where "lb_component = ''app.kubernetes.io/component''"
definition lb_service_name :: string where "lb_service_name = ''casos.io/service-lb-service-name''"
definition lb_service_namespace :: string where "lb_service_namespace = ''casos.io/service-lb-service-namespace''"
definition lb_service_uid :: string where "lb_service_uid = ''casos.io/service-lb-service-uid''"
definition lb_class :: string where "lb_class = ''casos.io/service-lb''"
definition lb_app_name :: string where "lb_app_name = ''app.kubernetes.io/name''"
definition default_lb_image :: string where "default_lb_image = ''docker.io/rancher/klipper-lb:v0.4.17''"

lemmas lb_keys = lb_managed_by_def lb_component_def lb_service_name_def lb_service_namespace_def
  lb_service_uid_def lb_app_name_def

section \<open>Small helpers\<close>

text \<open>\<open>annotations[key]\<close> of a Go map: the empty string when the key is missing.\<close>

definition value_at :: "(string \<rightharpoonup> string) \<Rightarrow> string \<Rightarrow> string" where
  "value_at m k = (case m k of None \<Rightarrow> [] | Some v \<Rightarrow> v)"

definition unique_strings :: "string list \<Rightarrow> string list" where
  "unique_strings vs = uniq_onto [] (filter (\<lambda>v. v \<noteq> []) vs)"

definition uses_family :: "service \<Rightarrow> string \<Rightarrow> bool" where
  "uses_family s family \<longleftrightarrow>
     (if sv_families s = [] then family = ''IPv4'' else family \<in> set (sv_families s))"

definition service_cluster_ips :: "service \<Rightarrow> string list" where
  "service_cluster_ips s =
     (let ips = (if sv_cluster_ips s = [] \<and> sv_cluster_ip s \<noteq> [] then [sv_cluster_ip s] else sv_cluster_ips s)
      in unique_strings (filter (\<lambda>ip. ip \<noteq> [] \<and> \<not> equal_fold ip ''None'') ips))"

definition managed_ips :: "'k lb_api \<Rightarrow> (string \<rightharpoonup> string) \<Rightarrow> (lb_error, string list) result" where
  "managed_ips A annotations =
     (let text = value_at annotations lb_managed_ips in
      if text = [] then Ok []
      else case lb_decode A text of None \<Rightarrow> Err MalformedLegacy | Some ips \<Rightarrow> Ok (unique_strings ips))"

definition lb_manages :: "service \<Rightarrow> bool" where
  "lb_manages s \<longleftrightarrow> sv_type s = ''LoadBalancer'' \<and> value_at (sv_annotations s) lb_disabled \<noteq> ''true''
     \<and> (case sv_class s of None \<Rightarrow> True | Some c \<Rightarrow> c = lb_class)"

definition explicitly_owned :: "service \<Rightarrow> bool" where
  "explicitly_owned s \<longleftrightarrow> sv_class s = Some lb_class"

section \<open>The DaemonSet of a Service\<close>

definition daemon_set_name :: "(string \<Rightarrow> string) \<Rightarrow> service \<Rightarrow> string" where
  "daemon_set_name sha s =
     (let identity = (if sv_uid s = [] then sv_ns s @ ''/'' @ sv_name s else sv_uid s);
          suffix = take 12 (sha identity);
          name = trim_set (sv_name s) ''-'';
          max_len = 63 - length ''svclb-'' - 1 - length suffix;
          name = (if length name > max_len then trim_right_set (take max_len name) ''-'' else name);
          name = (if name = [] then ''service'' else name)
      in ''svclb-'' @ name @ ''-'' @ suffix)"

definition lb_labels :: "service \<Rightarrow> string \<rightharpoonup> string" where
  "lb_labels s = [lb_managed_by \<mapsto> ''casos'', lb_component \<mapsto> ''service-lb'', lb_service_name \<mapsto> sv_name s,
     lb_service_namespace \<mapsto> sv_ns s, lb_service_uid \<mapsto> sv_uid s]"

definition source_ranges :: "service \<Rightarrow> string list" where
  "source_ranges s =
     sort (if sv_source_ranges s = [] then ''0.0.0.0/0'' # (if uses_family s ''IPv6'' then [''::/0''] else [])
           else sv_source_ranges s)"

definition lb_container :: "service \<Rightarrow> string \<Rightarrow> service_port \<Rightarrow> (lb_error, container) result" where
  "lb_container s img p =
     (let name = ''lb-'' @ to_lower (sp_protocol p) @ ''-'' @ itoa (sp_port p);
          c = \<lparr>ct_name = name, ct_image = img, ct_pull = ''IfNotPresent'', ct_port_name = name,
               ct_port = sp_port p, ct_host_port = sp_port p, ct_protocol = sp_protocol p,
               ct_env = [(''SRC_PORT'', Value (itoa (sp_port p))),
                 (''SRC_RANGES'', Value (join '','' (source_ranges s))),
                 (''DEST_PROTO'', Value (sp_protocol p))],
               ct_capabilities = [''NET_ADMIN'']\<rparr> in
      if sp_port p \<le> 0 then Err (BadPort (sp_name p) (sp_port p))
      else if sv_traffic s = ''Local'' then
        (if sp_node_port p = 0 then Err (NeedsNodePort (sp_name p))
         else Ok (c\<lparr>ct_env := ct_env c @ [(''DEST_PORT'', Value (itoa (sp_node_port p))),
                                            (''DEST_IPS'', FieldPath ''status.hostIPs'')]\<rparr>))
      else
        (let ips = service_cluster_ips s in
         if ips = [] then Err NoClusterIP
         else Ok (c\<lparr>ct_env := ct_env c @ [(''DEST_PORT'', Value (itoa (sp_port p))),
                                            (''DEST_IPS'', Value (join '','' ips))]\<rparr>)))"

fun lb_containers :: "service \<Rightarrow> string \<Rightarrow> service_port list \<Rightarrow> (lb_error, container list) result" where
  "lb_containers s img [] = Ok []"
| "lb_containers s img (p # ps) =
     (case lb_container s img p of
        Inl e \<Rightarrow> Err e
      | Inr c \<Rightarrow> (case lb_containers s img ps of Inl e \<Rightarrow> Err e | Inr cs \<Rightarrow> Ok (c # cs)))"

definition build_daemon_set :: "(string \<Rightarrow> string) \<Rightarrow> service \<Rightarrow> string \<Rightarrow> (lb_error, daemon_set) result" where
  "build_daemon_set sha s img0 =
     (if sv_ports s = [] then Err NoPorts
      else
        (let img = (if trim_space img0 = [] then default_lb_image else img0);
             name = daemon_set_name sha s;
             labels = (lb_labels s)(lb_app_name \<mapsto> name);
             selector = [lb_app_name \<mapsto> name];
             sysctls = (if uses_family s ''IPv4'' then [(''net.ipv4.ip_forward'', ''1'')] else []) @
                       (if uses_family s ''IPv6'' then [(''net.ipv6.conf.all.forwarding'', ''1'')] else [])
         in case lb_containers s img (sv_ports s) of
           Inl e \<Rightarrow> Err e
         | Inr cs \<Rightarrow> Ok
             \<lparr>ds_ns = lb_namespace, ds_name = name, ds_version = [], ds_labels = labels, ds_annotations = Map.empty,
              ds_selector = selector, ds_max_unavailable = 1, ds_pod_labels = labels ++ selector,
              ds_automount = False, ds_priority = ''system-node-critical'', ds_sysctls = sysctls,
              ds_node_lacks = [''node-role.kubernetes.io/control-plane'', ''node-role.kubernetes.io/master''],
              ds_tolerates = [(''CriticalAddonsOnly'', []), (''casos.io/bootstrap'', ''NoSchedule'')],
              ds_containers = cs\<rparr>))"

section \<open>Calls of the API server\<close>

definition create_or_update :: "'k lb_api \<Rightarrow> daemon_set \<Rightarrow> 'k \<Rightarrow> (lb_error, unit) result \<times> 'k" where
  "create_or_update A desired k =
     (case r_get (lb_daemon_sets A) (ds_ns desired) (ds_name desired) k of
        (Inl e, k) \<Rightarrow>
          if e = ApiNotFound then
            (case r_create (lb_daemon_sets A) desired k of
               (Inl e, k) \<Rightarrow> (Err (ApiFailed e), k) | (Inr _, k) \<Rightarrow> (Ok (), k))
          else (Err (ApiFailed e), k)
      | (Inr current, k) \<Rightarrow>
          if value_at (ds_labels current) lb_managed_by \<noteq> ''casos'' \<or>
             value_at (ds_labels current) lb_component \<noteq> ''service-lb'' then (Err ForeignDaemonSet, k)
          else if \<exists>key \<in> set [lb_service_name, lb_service_namespace, lb_service_uid].
              value_at (ds_labels current) key \<noteq> value_at (ds_labels desired) key
            then (Err OtherServiceDaemonSet, k)
          else
            (let desired = desired\<lparr>ds_labels := ds_labels current ++ ds_labels desired,
                                   ds_annotations := ds_annotations current ++ ds_annotations desired\<rparr> in
             if ds_labels current = ds_labels desired \<and> ds_annotations current = ds_annotations desired \<and>
                lb_same_spec A current desired then (Ok (), k)
             else
               (case r_update (lb_daemon_sets A) (desired\<lparr>ds_version := ds_version current\<rparr>) k of
                  (Inl e, k) \<Rightarrow> (Err (ApiFailed e), k) | (Inr _, k) \<Rightarrow> (Ok (), k))))"

definition lb_owned :: "daemon_set \<Rightarrow> bool" where
  "lb_owned d \<longleftrightarrow> ds_ns d = lb_namespace \<and> ds_labels d lb_managed_by = Some ''casos''
     \<and> ds_labels d lb_component = Some ''service-lb''"

definition list_daemon_sets :: "'k lb_api \<Rightarrow> 'k \<Rightarrow> (lb_error, daemon_set list) result \<times> 'k" where
  "list_daemon_sets A k =
     (case r_list (lb_daemon_sets A) lb_owned k of
        (Inl e, k) \<Rightarrow> (Err (ApiFailed e), k) | (Inr ds, k) \<Rightarrow> (Ok ds, k))"

text \<open>The loop that deletes: a DaemonSet that is gone already is no error.\<close>

fun delete_daemon_sets :: "'k lb_api \<Rightarrow> daemon_set list \<Rightarrow> 'k \<Rightarrow> lb_error list \<times> 'k" where
  "delete_daemon_sets A [] k = ([], k)"
| "delete_daemon_sets A (d # ds) k =
     (let (res, k) = r_delete (lb_daemon_sets A) (ds_ns d) (ds_name d) k;
          (errs, k) = delete_daemon_sets A ds k
      in (case res of Inl e \<Rightarrow> if e = ApiNotFound then errs else ApiFailed e # errs | Inr _ \<Rightarrow> errs, k))"

definition cleanup_orphans :: "'k lb_api \<Rightarrow> string list \<Rightarrow> 'k \<Rightarrow> lb_error list \<times> 'k" where
  "cleanup_orphans A desired k =
     (case list_daemon_sets A k of
        (Inl e, k) \<Rightarrow> ([e], k)
      | (Inr ds, k) \<Rightarrow> delete_daemon_sets A (filter (\<lambda>d. ds_name d \<notin> set desired) ds) k)"

section \<open>Addresses\<close>

fun condition_status :: "string \<Rightarrow> (string \<times> string) list \<Rightarrow> bool" where
  "condition_status kind [] = False"
| "condition_status kind ((t, s) # cs) = (if t = kind then s = ''True'' else condition_status kind cs)"

definition is_ready_pod :: "pod \<Rightarrow> bool" where "is_ready_pod p = condition_status ''Ready'' (pd_conditions p)"

definition is_ready_node :: "kube_node \<Rightarrow> bool" where
  "is_ready_node n = (if kn_unschedulable n then False else condition_status ''Ready'' (kn_conditions n))"

definition is_control_plane :: "kube_node \<Rightarrow> bool" where
  "is_control_plane n \<longleftrightarrow> kn_labels n ''node-role.kubernetes.io/control-plane'' \<noteq> None
     \<or> kn_labels n ''node-role.kubernetes.io/master'' \<noteq> None"

definition address_matches :: "string \<Rightarrow> string list \<Rightarrow> bool" where
  "address_matches address families =
     (case parse_ip address of
        None \<Rightarrow> False
      | Some ip \<Rightarrow> families = [] \<or> (if to4 ip \<noteq> None then ''IPv4'' else ''IPv6'') \<in> set families)"

definition serving_addresses :: "string \<Rightarrow> kube_node list \<Rightarrow> string list \<Rightarrow> string list \<Rightarrow> string list" where
  "serving_addresses kind nodes ready families =
     concat (map (\<lambda>n. map snd (filter (\<lambda>(t, a). address_matches a families \<and> t = kind) (kn_addresses n)))
       (filter (\<lambda>n. kn_name n \<in> set ready \<and> is_ready_node n \<and> \<not> is_control_plane n) nodes))"

definition ready_proxy_addresses :: "kube_node list \<Rightarrow> string list \<Rightarrow> string list \<Rightarrow> string list" where
  "ready_proxy_addresses nodes ready families =
     (let external = serving_addresses ''ExternalIP'' nodes ready families;
          internal = serving_addresses ''InternalIP'' nodes ready families
      in unique_strings (sort (if external \<noteq> [] then external else internal)))"

definition ready_endpoint_nodes :: "'k lb_api \<Rightarrow> service \<Rightarrow> 'k \<Rightarrow> (lb_error, string list) result \<times> 'k" where
  "ready_endpoint_nodes A s k =
     (case lb_slices A (\<lambda>es. es_ns es = sv_ns s \<and> es_labels es ''kubernetes.io/service-name'' = Some (sv_name s)) k of
        (Inl e, k) \<Rightarrow> (Err (ApiFailed e), k)
      | (Inr slices, k) \<Rightarrow>
          (Ok (List.map_filter (\<lambda>ep. if ep_ready ep = Some False then None else ep_node ep)
                 (concat (map es_endpoints slices))), k))"

definition ready_proxy_node_ips ::
  "'k lb_api \<Rightarrow> service \<Rightarrow> kube_node list \<Rightarrow> 'k \<Rightarrow> (lb_error, string list) result \<times> 'k" where
  "ready_proxy_node_ips A s nodes k =
     (case lb_pods A (\<lambda>p. pd_labels p lb_service_name = Some (sv_name s)
            \<and> pd_labels p lb_service_namespace = Some (sv_ns s) \<and> pd_labels p lb_service_uid = Some (sv_uid s)) k of
        (Inl e, k) \<Rightarrow> (Err (ApiFailed e), k)
      | (Inr pods, k) \<Rightarrow>
          (let ready = map pd_node (filter (\<lambda>p. pd_node p \<noteq> [] \<and> pd_ip p \<noteq> [] \<and> is_ready_pod p) pods) in
           if sv_traffic s = ''Local'' then
             (case ready_endpoint_nodes A s k of
                (Inl e, k) \<Rightarrow> (Err e, k)
              | (Inr local, k) \<Rightarrow>
                  (Ok (ready_proxy_addresses nodes (filter (\<lambda>n. n \<in> set local) ready) (sv_families s)), k))
           else (Ok (ready_proxy_addresses nodes ready (sv_families s)), k)))"

section \<open>The Service\<close>

text \<open>\<open>retry.RetryOnConflict\<close>: again while the error is a conflict, \<open>steps\<close> times at most.\<close>

fun retry_on_conflict :: "nat \<Rightarrow> ('k \<Rightarrow> (lb_error + 'a) \<times> 'k) \<Rightarrow> 'k \<Rightarrow> (lb_error + 'a) \<times> 'k" where
  "retry_on_conflict 0 fn k = fn k"
| "retry_on_conflict (Suc n) fn k =
     (case fn k of
        (Inl e, k') \<Rightarrow> if e = ApiFailed ApiConflict then retry_on_conflict n fn k' else (Inl e, k')
      | r \<Rightarrow> r)"

definition default_retry :: nat where "default_retry = 4"

definition remove_external_ips ::
  "'k lb_api \<Rightarrow> service \<Rightarrow> string list \<Rightarrow> 'k \<Rightarrow> (lb_error, service) result \<times> 'k" where
  "remove_external_ips A s managed k =
     (if managed = [] \<or> sv_external_ips s = [] then (Ok s, k)
      else
        (let desired = s\<lparr>sv_external_ips := filter (\<lambda>ip. ip \<notin> set managed) (sv_external_ips s)\<rparr> in
         if sv_external_ips desired = sv_external_ips s then (Ok s, k)
         else case r_update (lb_services A) desired k of
           (Inl e, k) \<Rightarrow> (Err (ApiFailed e), k) | (Inr updated, k) \<Rightarrow> (Ok updated, k)))"

definition remove_annotation :: "'k lb_api \<Rightarrow> string \<Rightarrow> string \<Rightarrow> 'k \<Rightarrow> (lb_error, unit) result \<times> 'k" where
  "remove_annotation A ns n k =
     retry_on_conflict default_retry (\<lambda>k.
       case r_get (lb_services A) ns n k of
         (Inl e, k) \<Rightarrow> (Err (ApiFailed e), k)
       | (Inr current, k) \<Rightarrow>
           if sv_annotations current lb_managed_ips = None then (Ok (), k)
           else (case r_update (lb_services A)
               (current\<lparr>sv_annotations := (sv_annotations current)(lb_managed_ips := None)\<rparr>) k of
             (Inl e, k) \<Rightarrow> (Err (ApiFailed e), k) | (Inr _, k) \<Rightarrow> (Ok (), k))) k"

definition set_ingress ::
  "'k lb_api \<Rightarrow> service \<Rightarrow> ingress list \<Rightarrow> 'k \<Rightarrow> (lb_error, service) result \<times> 'k" where
  "set_ingress A current desired k =
     (if sv_ingress current = desired then (Ok current, k)
      else case r_update_status (lb_services A) (current\<lparr>sv_ingress := desired\<rparr>) k of
        (Inl e, k) \<Rightarrow> (Err (ApiFailed e), k) | (Inr updated, k) \<Rightarrow> (Ok updated, k))"

definition ip_ingress :: "string \<Rightarrow> ingress" where
  "ip_ingress ip = \<lparr>in_ip = ip, in_hostname = [], in_mode = None, in_ports = []\<rparr>"

definition reconcile_once :: "'k lb_api \<Rightarrow> service \<Rightarrow> string list \<Rightarrow> 'k \<Rightarrow> (lb_error, unit) result \<times> 'k" where
  "reconcile_once A s ips k =
     (let previous = managed_ips A (sv_annotations s);
          (res, k) = (case previous of Inl _ \<Rightarrow> (Ok s, k) | Inr managed \<Rightarrow> remove_external_ips A s managed k)
      in case res of
        Inl e \<Rightarrow> (Err e, k)
      | Inr current \<Rightarrow>
          (case set_ingress A current (map ip_ingress (unique_strings ips)) k of
             (Inl e, k) \<Rightarrow> (Err e, k)
           | (Inr current, k) \<Rightarrow>
               (case previous of
                  Inl e \<Rightarrow> (Err e, k)
                | Inr _ \<Rightarrow> remove_annotation A (sv_ns current) (sv_name current) k)))"

definition reconcile_service :: "'k lb_api \<Rightarrow> service \<Rightarrow> string list \<Rightarrow> 'k \<Rightarrow> (lb_error, unit) result \<times> 'k" where
  "reconcile_service A s ips k =
     (if sv_deleting s then (Ok (), k)
      else retry_on_conflict default_retry (\<lambda>k.
        case r_get (lb_services A) (sv_ns s) (sv_name s) k of
          (Inl e, k) \<Rightarrow> (if e = ApiNotFound then Ok () else Err (ApiFailed e), k)
        | (Inr current, k) \<Rightarrow>
            if sv_deleting current \<or> \<not> lb_manages current then (Ok (), k)
            else reconcile_once A current ips k) k)"

definition cleanup_service :: "'k lb_api \<Rightarrow> service \<Rightarrow> 'k \<Rightarrow> (lb_error, unit) result \<times> 'k" where
  "cleanup_service A s k =
     (if sv_deleting s then (Ok (), k)
      else retry_on_conflict default_retry (\<lambda>k.
        case r_get (lb_services A) (sv_ns s) (sv_name s) k of
          (Inl e, k) \<Rightarrow> (if e = ApiNotFound then Ok () else Err (ApiFailed e), k)
        | (Inr current, k) \<Rightarrow>
            (case set_ingress A current [] k of
               (Inl e, k) \<Rightarrow> (Err e, k)
             | (Inr current, k) \<Rightarrow>
                 (case managed_ips A (sv_annotations current) of
                    Inl e \<Rightarrow> (Err e, k)
                  | Inr managed \<Rightarrow>
                      (case remove_external_ips A current managed k of
                         (Inl e, k) \<Rightarrow> (Err e, k)
                       | (Inr current, k) \<Rightarrow> remove_annotation A (sv_ns current) (sv_name current) k)))) k)"

section \<open>One round\<close>

text \<open>What the controller has left on a Service it does not manage.\<close>

definition has_traces :: "'k lb_api \<Rightarrow> string list \<Rightarrow> service \<Rightarrow> bool" where
  "has_traces A existing s \<longleftrightarrow> daemon_set_name (lb_sha A) s \<in> set existing \<or> explicitly_owned s
     \<or> value_at (sv_annotations s) lb_managed_ips \<noteq> []"

definition error_list :: "(lb_error, unit) result \<Rightarrow> lb_error list" where
  "error_list res = (case res of Inl e \<Rightarrow> [e] | Inr _ \<Rightarrow> [])"

definition round_of_service ::
  "'k lb_api \<Rightarrow> string \<Rightarrow> kube_node list \<Rightarrow> string list \<Rightarrow> service \<Rightarrow> 'k \<Rightarrow> lb_error list \<times> 'k" where
  "round_of_service A img nodes existing s k =
     (if \<not> lb_manages s then
        (if has_traces A existing s then (let (res, k) = cleanup_service A s k in (error_list res, k)) else ([], k))
      else case build_daemon_set (lb_sha A) s img of
        Inl e \<Rightarrow> ([e], k)
      | Inr desired \<Rightarrow>
          (case create_or_update A desired k of
             (Inl e, k) \<Rightarrow> ([e], k)
           | (Inr _, k) \<Rightarrow>
               (case ready_proxy_node_ips A s nodes k of
                  (Inl e, k) \<Rightarrow> ([e], k)
                | (Inr ips, k) \<Rightarrow> (let (res, k) = reconcile_service A s ips k in (error_list res, k)))))"

fun round_of_services ::
  "'k lb_api \<Rightarrow> string \<Rightarrow> kube_node list \<Rightarrow> string list \<Rightarrow> service list \<Rightarrow> 'k \<Rightarrow> lb_error list \<times> 'k" where
  "round_of_services A img nodes existing [] k = ([], k)"
| "round_of_services A img nodes existing (s # ss) k =
     (let (errs, k) = round_of_service A img nodes existing s k;
          (errs', k) = round_of_services A img nodes existing ss k
      in (errs @ errs', k))"

definition list_all_services :: "'k lb_api \<Rightarrow> 'k \<Rightarrow> (lb_error, service list) result \<times> 'k" where
  "list_all_services A k =
     (case r_list (lb_services A) (\<lambda>_. True) k of
        (Inl e, k) \<Rightarrow> (Err (ApiFailed e), k) | (Inr ss, k) \<Rightarrow> (Ok ss, k))"

definition reconcile_lb :: "'k lb_api \<Rightarrow> string \<Rightarrow> 'k \<Rightarrow> lb_error list \<times> 'k" where
  "reconcile_lb A img0 k =
     (let img = (if trim_space img0 = [] then default_lb_image else img0) in
      case lb_nodes A k of
        (Inl e, k) \<Rightarrow> ([ApiFailed e], k)
      | (Inr nodes, k) \<Rightarrow>
          (case list_all_services A k of
             (Inl e, k) \<Rightarrow> ([e], k)
           | (Inr services, k) \<Rightarrow>
               (case list_daemon_sets A k of
                  (Inl e, k) \<Rightarrow> ([e], k)
                | (Inr ds, k) \<Rightarrow>
                    (let (errs, k) = round_of_services A img nodes (map ds_name ds) services k;
                         (errs', k) = cleanup_orphans A
                           (map (daemon_set_name (lb_sha A)) (filter lb_manages services)) k
                     in (errs @ errs', k)))))"

fun cleanup_services :: "'k lb_api \<Rightarrow> service list \<Rightarrow> 'k \<Rightarrow> lb_error list \<times> 'k" where
  "cleanup_services A [] k = ([], k)"
| "cleanup_services A (s # ss) k =
     (let (res, k) = cleanup_service A s k; (errs, k) = cleanup_services A ss k in (error_list res @ errs, k))"

definition cleanup_lb :: "'k lb_api \<Rightarrow> 'k \<Rightarrow> lb_error list \<times> 'k" where
  "cleanup_lb A k =
     (case list_daemon_sets A k of
        (Inl e, k) \<Rightarrow> ([e], k)
      | (Inr ds, k) \<Rightarrow>
          (case list_all_services A k of
             (Inl e, k) \<Rightarrow> ([e], k)
           | (Inr services, k) \<Rightarrow>
               (let (errs, k) = cleanup_services A (filter (has_traces A (map ds_name ds)) services) k;
                    (errs', k) = delete_daemon_sets A ds k
                in (errs @ errs', k))))"

end
