(* ===== verification/LoadBalancer.thy ===== *)
theory LoadBalancer
  imports ServiceLB GoRegexp
begin

text \<open>
  What \<open>ServiceLB\<close> promises: names that fit, addresses that serve, DaemonSets exactly for the
  Services it manages, and nothing of what users own ever changed.
\<close>

section \<open>Names\<close>

lemma set_trim_right: "set (trim_right_set s cs) \<subseteq> set s"
  using trim_right_set_prefix [of s cs] by (metis Un_upper1 set_append)

lemma set_trim_set: "set (trim_set s cs) \<subseteq> set s"
  using set_trim_right [of "trim_left_set s cs" cs] set_dropWhileD [of _ "\<lambda>c. c \<in> set cs" s]
  by (auto simp: trim_set_def trim_left_set_def)

text \<open>The part of the name that comes from the Service.\<close>

definition middle_name :: "nat \<Rightarrow> service \<Rightarrow> string" where
  "middle_name room s =
     (let name = trim_set (sv_name s) ''-'';
          name = (if length name > room then trim_right_set (take room name) ''-'' else name)
      in if name = [] then ''service'' else name)"

lemma daemon_set_name_alt:
  "daemon_set_name sha s =
     (let suffix = take 12 (sha (if sv_uid s = [] then sv_ns s @ ''/'' @ sv_name s else sv_uid s))
      in ''svclb-'' @ middle_name (56 - length suffix) s @ ''-'' @ suffix)"
  by (simp add: daemon_set_name_def middle_name_def Let_def)

lemma length_middle_name: "7 \<le> room \<Longrightarrow> length (middle_name room s) \<le> room"
  using length_trim_right_set [of "take room (trim_set (sv_name s) ''-'')" "''-''"]
  by (auto simp: middle_name_def Let_def)

lemma middle_name_chars:
  assumes "set (sv_name s) \<subseteq> set (CHR ''-'' # lower_digits)"
  shows "set (middle_name room s) \<subseteq> set (CHR ''-'' # lower_digits)"
proof -
  have "set (trim_set (sv_name s) ''-'') \<subseteq> set (CHR ''-'' # lower_digits)"
    using assms set_trim_set [of "sv_name s" "''-''"] by blast
  moreover have "set (trim_right_set (take room n) ''-'') \<subseteq> set n" for n
    using set_trim_right [of "take room n" "''-''"] set_take_subset [of room n] by blast
  moreover have "set ''service'' \<subseteq> set (CHR ''-'' # lower_digits)" by (simp add: lower_digits_def)
  ultimately show ?thesis unfolding middle_name_def Let_def by (simp split: if_split) (meson order_trans)
qed

text \<open>
  The name of the DaemonSet of a Service is a DNS label of at most 63 characters, for any
  Service whose name is made of lower-case letters, digits and dashes, when the digest is
  written in lower-case letters and digits and has at least twelve of them.
\<close>

theorem daemon_set_name_label:
  assumes "set (sv_name s) \<subseteq> set (CHR ''-'' # lower_digits)"
    and "\<And>x. 12 \<le> length (sha x) \<and> set (sha x) \<subseteq> set lower_digits"
  shows "rfc1123_label (daemon_set_name sha s)"
proof -
  define suffix where "suffix = take 12 (sha (if sv_uid s = [] then sv_ns s @ ''/'' @ sv_name s else sv_uid s))"
  have suf: "length suffix = 12" "set suffix \<subseteq> set lower_digits"
    using assms(2) set_take_subset [of 12] by (force simp: suffix_def)+
  then have ne: "suffix \<noteq> []" by auto
  have n: "daemon_set_name sha s = ''svclb-'' @ middle_name 44 s @ ''-'' @ suffix"
    using suf(1) by (simp add: daemon_set_name_alt suffix_def)
  have "last (daemon_set_name sha s) = last suffix" using ne by (simp add: n)
  then have "last (daemon_set_name sha s) \<in> set lower_digits"
    using suf(2) last_in_set [OF ne] by auto
  moreover have "set (daemon_set_name sha s) \<subseteq> set (CHR ''-'' # lower_digits)"
  proof -
    have "set ''svclb-'' \<subseteq> set (CHR ''-'' # lower_digits)" by (simp add: lower_digits_def)
    then show ?thesis unfolding n set_append using middle_name_chars [OF assms(1), of 44] suf(2) by auto
  qed
  moreover have "length (daemon_set_name sha s) \<le> 63"
    using length_middle_name [of 44 s] suf(1) by (simp add: n)
  ultimately show ?thesis
    using dash_no_digit by (auto simp: rfc1123_label_def n)
qed

theorem daemon_set_name_label_witness:
  "rfc1123_label (daemon_set_name (\<lambda>_. ''0123456789ab'')
     \<lparr>sv_ns = ''default'', sv_name = ''-a-name-that-is-much-longer-than-what-is-left-for-it-in-a-label'', sv_uid = ''u'',
      sv_version = [], sv_annotations = Map.empty, sv_deleting = False, sv_type = ''LoadBalancer'', sv_class = None,
      sv_ports = [], sv_source_ranges = [], sv_families = [], sv_traffic = [], sv_cluster_ip = [],
      sv_cluster_ips = [], sv_external_ips = [], sv_ingress = []\<rparr>)"
  by (rule daemon_set_name_label) (simp_all add: lower_digits_def)

section \<open>Addresses\<close>

lemma set_unique_strings [simp]: "set (unique_strings vs) = set vs - {[]}"
  by (auto simp: unique_strings_def)

lemma distinct_unique_strings [simp]: "distinct (unique_strings vs)"
  by (simp add: unique_strings_def)

lemma unique_strings_sort: "sorted_wrt (<) (unique_strings (sort vs))"
  unfolding unique_strings_def by (rule uniq_onto_sorted) (simp_all add: sorted_filter [of "\<lambda>x. x", simplified])

text \<open>A node that may be published: it runs a ready proxy, is ready and no control plane.\<close>

definition publishes :: "string list \<Rightarrow> kube_node \<Rightarrow> bool" where
  "publishes ready n \<longleftrightarrow> kn_name n \<in> set ready \<and> is_ready_node n \<and> \<not> is_control_plane n"

definition address_of_kind :: "string \<Rightarrow> kube_node list \<Rightarrow> string list \<Rightarrow> string list \<Rightarrow> string \<Rightarrow> bool" where
  "address_of_kind kind nodes ready families a \<longleftrightarrow>
     (\<exists>n \<in> set nodes. publishes ready n \<and> (kind, a) \<in> set (kn_addresses n)) \<and> address_matches a families"

lemma serving_iff: "a \<in> set (serving_addresses kind nodes ready families) \<longleftrightarrow> address_of_kind kind nodes ready families a"
  unfolding serving_addresses_def address_of_kind_def publishes_def by force

text \<open>
  The addresses published for a Service are, in strictly ascending order, exactly the
  external addresses, or without any external one the internal addresses, of the nodes that run
  a ready proxy, are ready and schedulable and no control plane; each of them is an IP address
  of a family the Service asks for.
\<close>

theorem published_addresses:
  "sorted_wrt (<) (ready_proxy_addresses nodes ready families) \<and>
   set (ready_proxy_addresses nodes ready families) =
     (if \<exists>a. address_of_kind ''ExternalIP'' nodes ready families a
      then {a. address_of_kind ''ExternalIP'' nodes ready families a}
      else {a. address_of_kind ''InternalIP'' nodes ready families a})"
proof -
  let ?as = "if serving_addresses ''ExternalIP'' nodes ready families \<noteq> []
     then serving_addresses ''ExternalIP'' nodes ready families
     else serving_addresses ''InternalIP'' nodes ready families"
  have ne: "serving_addresses k nodes ready families \<noteq> [] \<longleftrightarrow> (\<exists>a. address_of_kind k nodes ready families a)" for k
    by (metis serving_iff list.set_intros(1) list.exhaust empty_iff list.set(1))
  have "\<not> address_of_kind k nodes ready families []" for k
    by (simp add: address_of_kind_def address_matches_def parse_ip_def parse_ipv6_def)
  then have "set ?as - {[]} = set ?as"
    using serving_iff [of "[]"] by auto
  moreover have "set ?as = (if \<exists>a. address_of_kind ''ExternalIP'' nodes ready families a
      then {a. address_of_kind ''ExternalIP'' nodes ready families a}
      else {a. address_of_kind ''InternalIP'' nodes ready families a})"
    unfolding ne by (auto simp: serving_iff)
  ultimately show ?thesis
    by (simp add: ready_proxy_addresses_def Let_def unique_strings_sort)
qed

section \<open>Building the DaemonSet\<close>

definition port_ok :: "service \<Rightarrow> service_port \<Rightarrow> bool" where
  "port_ok s p \<longleftrightarrow> 0 < sp_port p \<and>
     (if sv_traffic s = ''Local'' then sp_node_port p \<noteq> 0 else service_cluster_ips s \<noteq> [])"

definition forwards :: "service \<Rightarrow> service_port \<Rightarrow> container \<Rightarrow> bool" where
  "forwards s p c \<longleftrightarrow> ct_host_port c = sp_port p \<and> ct_port c = sp_port p \<and> ct_protocol c = sp_protocol p
     \<and> map_of (ct_env c) ''SRC_PORT'' = Some (Value (itoa (sp_port p)))
     \<and> map_of (ct_env c) ''DEST_PROTO'' = Some (Value (sp_protocol p))
     \<and> (if sv_traffic s = ''Local''
        then map_of (ct_env c) ''DEST_PORT'' = Some (Value (itoa (sp_node_port p)))
          \<and> map_of (ct_env c) ''DEST_IPS'' = Some (FieldPath ''status.hostIPs'')
        else map_of (ct_env c) ''DEST_PORT'' = Some (Value (itoa (sp_port p)))
          \<and> map_of (ct_env c) ''DEST_IPS'' = Some (Value (join '','' (service_cluster_ips s))))"

lemma lb_container_ok: "lb_container s img p = Inr c \<Longrightarrow> port_ok s p \<and> forwards s p c"
  by (auto simp: lb_container_def Let_def port_ok_def forwards_def split: if_splits)

lemma lb_container_fails: "lb_container s img p = Inl e \<Longrightarrow> \<not> port_ok s p"
  by (auto simp: lb_container_def Let_def port_ok_def split: if_splits)

lemma lb_containers_ok: "lb_containers s img ps = Inr cs \<Longrightarrow> (\<forall>p \<in> set ps. port_ok s p) \<and> list_all2 (forwards s) ps cs"
  by (induction ps arbitrary: cs) (auto dest: lb_container_ok split: sum.splits)

lemma lb_containers_fails: "lb_containers s img ps = Inl e \<Longrightarrow> \<exists>p \<in> set ps. \<not> port_ok s p"
  by (induction ps) (auto dest: lb_container_fails split: sum.splits)

lemma build_daemon_set_cases:
  "case build_daemon_set sha s img of
     Inl e \<Rightarrow> sv_ports s = [] \<or> (\<exists>p \<in> set (sv_ports s). \<not> port_ok s p)
   | Inr d \<Rightarrow> sv_ports s \<noteq> [] \<and> (\<forall>p \<in> set (sv_ports s). port_ok s p) \<and> list_all2 (forwards s) (sv_ports s) (ds_containers d)
       \<and> ds_name d = daemon_set_name sha s \<and> lb_owned d \<and> ds_labels d lb_service_uid = Some (sv_uid s)"
proof (cases "build_daemon_set sha s img")
  case (Inl e)
  then show ?thesis
    by (auto simp: build_daemon_set_def Let_def dest: lb_containers_fails split: if_splits sum.splits)
next
  case (Inr d)
  then obtain img' cs where "sv_ports s \<noteq> []" "lb_containers s img' (sv_ports s) = Inr cs" "ds_containers d = cs"
    "ds_name d = daemon_set_name sha s" "ds_ns d = lb_namespace"
    "ds_labels d = (lb_labels s)(lb_app_name \<mapsto> daemon_set_name sha s)"
    by (auto simp: build_daemon_set_def Let_def split: if_splits sum.splits)
  then show ?thesis
    using Inr lb_containers_ok [of s img' "sv_ports s" cs] by (simp add: lb_owned_def lb_labels_def lb_keys)
qed

text \<open>
  Building the DaemonSet of a Service succeeds exactly when the Service has ports, each is
  positive and each has somewhere to go: a node port when traffic stays local, else an address
  of the cluster. The DaemonSet then has one container per port, in order, on that host port and
  forwarding there.
\<close>

theorem build_daemon_set_outcome:
  "case build_daemon_set sha s img of
     Inl e \<Rightarrow> sv_ports s = [] \<or> list_ex (\<lambda>p. \<not> port_ok s p) (sv_ports s)
   | Inr d \<Rightarrow> sv_ports s \<noteq> [] \<and> list_all (port_ok s) (sv_ports s) \<and> list_all2 (forwards s) (sv_ports s) (ds_containers d)
       \<and> ds_name d = daemon_set_name sha s \<and> lb_owned d \<and> ds_labels d lb_service_uid = Some (sv_uid s)"
  using build_daemon_set_cases [where sha = sha and s = s and img = img] by (auto simp: list_all_iff list_ex_iff split: sum.splits)

section \<open>The server\<close>

text \<open>What an update of a Service or a DaemonSet decides: all but version and status, and the labels.\<close>

definition service_main :: "service \<Rightarrow> service" where
  "service_main s = s\<lparr>sv_version := [], sv_ingress := []\<rparr>"

definition ds_main :: "daemon_set \<Rightarrow> (string \<rightharpoonup> string) \<times> (string \<rightharpoonup> string)" where
  "ds_main d = (ds_labels d, ds_annotations d)"

abbreviation (input) service_key :: "service \<Rightarrow> string \<times> string" where
  "service_key s \<equiv> (sv_ns s, sv_name s)"

abbreviation (input) ds_key :: "daemon_set \<Rightarrow> string \<times> string" where
  "ds_key d \<equiv> (ds_ns d, ds_name d)"

locale lb_server =
  SV: kube_resource "lb_services A" sv service_key service_main sv_ingress
  + DS: kube_resource "lb_daemon_sets A" dm ds_key ds_main "\<lambda>_. ()"
  for A :: "'k lb_api" and sv :: "'k \<Rightarrow> string \<times> string \<Rightarrow> service option"
    and dm :: "'k \<Rightarrow> string \<times> string \<Rightarrow> daemon_set option" +
  assumes services_keep: "dm (snd (r_get (lb_services A) ns n k)) = dm k" "dm (snd (r_list (lb_services A) p k)) = dm k"
      "dm (snd (r_update (lb_services A) s k)) = dm k" "dm (snd (r_update_status (lb_services A) s k)) = dm k"
    and daemon_sets_keep: "sv (snd (r_get (lb_daemon_sets A) ns n k)) = sv k" "sv (snd (r_list (lb_daemon_sets A) p' k)) = sv k"
      "sv (snd (r_create (lb_daemon_sets A) d k)) = sv k" "sv (snd (r_update (lb_daemon_sets A) d k)) = sv k"
      "sv (snd (r_delete (lb_daemon_sets A) ns n k)) = sv k"
    and reads_keep: "sv (snd (lb_pods A pp k)) = sv k" "dm (snd (lb_pods A pp k)) = dm k"
      "sv (snd (lb_slices A ps k)) = sv k" "dm (snd (lb_slices A ps k)) = dm k"
      "sv (snd (lb_nodes A k)) = sv k" "dm (snd (lb_nodes A k)) = dm k"

section \<open>What may happen to a Service\<close>

text \<open>
  The addresses of a Service without the ones an earlier version of the controller put there,
  and the Services that the controller may turn a Service into: the status is the controller's,
  of the rest only those addresses and the annotation that lists them.
\<close>

definition kept_ips :: "'k lb_api \<Rightarrow> service \<Rightarrow> string list" where
  "kept_ips A s = (case managed_ips A (sv_annotations s) of
     Inl _ \<Rightarrow> sv_external_ips s | Inr managed \<Rightarrow> filter (\<lambda>ip. ip \<notin> set managed) (sv_external_ips s))"

definition users_part :: "service \<Rightarrow> service" where
  "users_part s = s\<lparr>sv_version := [], sv_ingress := [], sv_external_ips := [],
     sv_annotations := (sv_annotations s)(lb_managed_ips := None)\<rparr>"

definition lb_touch :: "'k lb_api \<Rightarrow> service \<Rightarrow> service \<Rightarrow> bool" where
  "lb_touch A s s' \<longleftrightarrow> users_part s' = users_part s \<and>
     (sv_annotations s' = sv_annotations s \<and> (sv_external_ips s' = sv_external_ips s \<or> sv_external_ips s' = kept_ips A s)
      \<or> sv_annotations s' = (sv_annotations s)(lb_managed_ips := None) \<and> sv_external_ips s' = kept_ips A s)"

lemma lb_touch_refl: "lb_touch A s s"
  by (simp add: lb_touch_def)

lemma managed_ips_removed: "managed_ips A (m(lb_managed_ips := None)) = Inr []"
  by (simp add: managed_ips_def value_at_def)

lemma kept_ips_cong:
  "sv_annotations s' = sv_annotations s \<Longrightarrow> sv_external_ips s' = sv_external_ips s \<or> sv_external_ips s' = kept_ips A s
     \<Longrightarrow> kept_ips A s' = kept_ips A s"
  by (auto simp: kept_ips_def split: sum.splits)

lemma lb_touch_kept:
  assumes "lb_touch A s s'"
  shows "kept_ips A s' = kept_ips A s" and "(sv_annotations s')(lb_managed_ips := None) = (sv_annotations s)(lb_managed_ips := None)"
proof -
  have "kept_ips A s' = kept_ips A s \<and> (sv_annotations s')(lb_managed_ips := None) = (sv_annotations s)(lb_managed_ips := None)"
  proof (cases "sv_annotations s' = sv_annotations s")
    case True
    then have "sv_external_ips s' = sv_external_ips s \<or> sv_external_ips s' = kept_ips A s"
      using assms by (auto simp: lb_touch_def)
    with True show ?thesis using kept_ips_cong [OF True] by simp
  next
    case False
    then have e: "sv_annotations s' = (sv_annotations s)(lb_managed_ips := None)" "sv_external_ips s' = kept_ips A s"
      using assms by (auto simp: lb_touch_def)
    then show ?thesis by (simp add: kept_ips_def [of A s'] managed_ips_removed)
  qed
  then show "kept_ips A s' = kept_ips A s" "(sv_annotations s')(lb_managed_ips := None) = (sv_annotations s)(lb_managed_ips := None)"
    by simp_all
qed

lemma lb_touch_trans: "lb_touch A s s' \<Longrightarrow> lb_touch A s' s'' \<Longrightarrow> lb_touch A s s''"
proof -
  assume a: "lb_touch A s s'" and b: "lb_touch A s' s''"
  have "users_part s'' = users_part s" using a b by (simp add: lb_touch_def)
  moreover have "sv_annotations s'' = sv_annotations s \<and> sv_external_ips s'' \<in> {sv_external_ips s, kept_ips A s}
      \<or> sv_annotations s'' = (sv_annotations s)(lb_managed_ips := None) \<and> sv_external_ips s'' = kept_ips A s"
    using a b lb_touch_kept [OF a] unfolding lb_touch_def by (elim conjE disjE) simp_all
  ultimately show "lb_touch A s s''" by (auto simp: lb_touch_def)
qed

text \<open>Only that happens to Services, and nothing to DaemonSets of others.\<close>

definition lb_safe :: "'k lb_api \<Rightarrow> ('k \<Rightarrow> string \<times> string \<Rightarrow> service option) \<Rightarrow> ('k \<Rightarrow> string \<times> string \<Rightarrow> daemon_set option)
    \<Rightarrow> 'k \<Rightarrow> 'k \<Rightarrow> bool" where
  "lb_safe A sv dm k k' \<longleftrightarrow>
     (\<forall>q. rel_option (lb_touch A) (sv k q) (sv k' q)) \<and>
     (\<forall>q d. dm k q = Some d \<and> \<not> lb_owned d \<longrightarrow> dm k' q = Some d)"

lemma rel_option_touch_trans:
  "rel_option (lb_touch A) x y \<Longrightarrow> rel_option (lb_touch A) y z \<Longrightarrow> rel_option (lb_touch A) x z"
  by (cases x; cases y; cases z) (auto intro: lb_touch_trans)

lemma lb_safe_refl: "lb_safe A sv dm k k"
  by (simp add: lb_safe_def option.rel_refl lb_touch_refl)

lemma lb_safe_same: "sv k' = sv k \<Longrightarrow> dm k' = dm k \<Longrightarrow> lb_safe A sv dm k k'"
  using lb_safe_refl [of A sv dm k] by (simp add: lb_safe_def)

lemma lb_safe_trans: "lb_safe A sv dm k k' \<Longrightarrow> lb_safe A sv dm k' k'' \<Longrightarrow> lb_safe A sv dm k k''"
  unfolding lb_safe_def using rel_option_touch_trans by blast

context lb_server
begin

lemma services_keep': "r_get (lb_services A) ns n k = (res, k') \<Longrightarrow> sv k' = sv k \<and> dm k' = dm k"
  "r_list (lb_services A) p k = (res', k') \<Longrightarrow> sv k' = sv k \<and> dm k' = dm k"
  using SV.reads services_keep(1,2) by (metis snd_conv)+

text \<open>Writing a changed copy of a Service that was just read.\<close>

lemma update_service:
  assumes "r_update (lb_services A) obj k = (res, k')" "sv k (service_key obj) = Some s"
    "service_main obj = service_main (s\<lparr>sv_external_ips := e, sv_annotations := a\<rparr>)"
    "lb_touch A s (s\<lparr>sv_external_ips := e, sv_annotations := a\<rparr>)"
  shows "lb_safe A sv dm k k' \<and> (sv k' = sv k \<and> (\<forall>o'. res \<noteq> Inr o') \<or>
     (\<exists>o'. sv k' = (sv k)(service_key obj \<mapsto> o') \<and> service_key o' = service_key obj \<and> service_main o' = service_main obj
        \<and> sv_ingress o' = sv_ingress s \<and> (\<forall>o''. res = Inr o'' \<longrightarrow> o'' = o')))"
proof -
  have dm: "dm k' = dm k" using services_keep(3) [of obj k] assms(1) by simp
  consider "sv k' = sv k" "\<forall>o'. res \<noteq> Inr o'"
    | o' where "service_key o' = service_key obj" "service_main o' = service_main obj" "sv_ingress o' = sv_ingress s"
      "sv k' = (sv k)(service_key obj \<mapsto> o')" "\<forall>o''. res = Inr o'' \<longrightarrow> o'' = o'"
    using SV.update_effect [OF assms(1)] assms(2) by auto
  then show ?thesis
  proof cases
    case 1
    then show ?thesis using dm by (auto intro: lb_safe_same)
  next
    case 2
    have "service_main o' = service_main (s\<lparr>sv_external_ips := e, sv_annotations := a\<rparr>)" using 2(2) assms(3) by simp
    then have "lb_touch A s o'"
      using assms(4) by (cases o'; cases s) (auto simp: lb_touch_def users_part_def service_main_def)
    then have "lb_safe A sv dm k k'"
      using lb_safe_refl [of A sv dm k] assms(2) 2(4) dm by (auto simp: lb_safe_def)
    with 2 show ?thesis by auto
  qed
qed

text \<open>Removing the addresses of an earlier version: what is left, or nothing done.\<close>

lemma remove_external_ips_safe:
  assumes "remove_external_ips A s managed k = (res, k')" "sv k (service_key s) = Some s"
    "managed_ips A (sv_annotations s) = Inr managed"
  shows "lb_safe A sv dm k k' \<and> (\<forall>s'. res = Inr s' \<longrightarrow> sv k' (service_key s) = Some s' \<and>
     sv_external_ips s' = kept_ips A s \<and> lb_touch A s s' \<and> sv_annotations s' = sv_annotations s \<and> sv_ingress s' = sv_ingress s)"
proof -
  let ?d = "s\<lparr>sv_external_ips := filter (\<lambda>ip. ip \<notin> set managed) (sv_external_ips s)\<rparr>"
  have kept: "kept_ips A s = filter (\<lambda>ip. ip \<notin> set managed) (sv_external_ips s)"
    using assms(3) by (simp add: kept_ips_def)
  show ?thesis
  proof (cases "managed = [] \<or> sv_external_ips s = [] \<or> sv_external_ips ?d = sv_external_ips s")
    case True
    then have "res = Inr s" "k' = k" "kept_ips A s = sv_external_ips s"
      using assms(1) kept by (auto simp: remove_external_ips_def Let_def split: if_splits)
    with assms(2) show ?thesis by (simp add: lb_safe_refl lb_touch_refl)
  next
    case False
    obtain res0 where u: "r_update (lb_services A) ?d k = (res0, k')"
      "\<forall>s'. res = Inr s' \<longrightarrow> res0 = Inr s'"
      using assms(1) False by (auto simp: remove_external_ips_def Let_def split: prod.splits sum.splits)
    have t: "lb_touch A s (s\<lparr>sv_external_ips := sv_external_ips ?d, sv_annotations := sv_annotations s\<rparr>)"
      using kept by (simp add: lb_touch_def users_part_def)
    have "lb_safe A sv dm k k' \<and> (sv k' = sv k \<and> (\<forall>o'. res0 \<noteq> Inr o') \<or>
        (\<exists>o'. sv k' = (sv k)(service_key ?d \<mapsto> o') \<and> service_key o' = service_key ?d \<and> service_main o' = service_main ?d
           \<and> sv_ingress o' = sv_ingress s \<and> (\<forall>o''. res0 = Inr o'' \<longrightarrow> o'' = o')))"
      by (rule update_service [OF u(1) _ _ t]) (use assms(2) in \<open>simp_all add: service_main_def\<close>)
    then have "lb_safe A sv dm k k' \<and> (\<forall>s'. res0 = Inr s' \<longrightarrow> sv k' (service_key ?d) = Some s' \<and> service_main s' = service_main ?d
        \<and> sv_ingress s' = sv_ingress s)"
      by auto
    moreover have "sv_external_ips s' = kept_ips A s \<and> lb_touch A s s' \<and> sv_annotations s' = sv_annotations s"
      if "service_main s' = service_main ?d" for s'
      using that t kept by (cases s'; cases s) (auto simp: service_main_def lb_touch_def users_part_def)
    moreover have "sv_ns ?d = sv_ns s" "sv_name ?d = sv_name s" by simp_all
    ultimately show ?thesis using u(2) by (metis (no_types, lifting))
  qed
qed

lemma set_ingress_safe:
  assumes "set_ingress A s new k = (res, k')" "sv k (service_key s) = Some s"
  shows "lb_safe A sv dm k k' \<and> (\<forall>s'. res = Inr s' \<longrightarrow> sv k' (service_key s) = Some s' \<and> service_key s' = service_key s \<and>
     service_main s' = service_main s \<and> sv_ingress s' = new)"
proof (cases "sv_ingress s = new")
  case True
  with assms show ?thesis by (auto simp: set_ingress_def lb_safe_refl)
next
  case False
  let ?d = "s\<lparr>sv_ingress := new\<rparr>"
  obtain res0 where u: "r_update_status (lb_services A) ?d k = (res0, k')" "\<forall>s'. res = Inr s' \<longrightarrow> res0 = Inr s'"
    using assms(1) False by (auto simp: set_ingress_def split: prod.splits sum.splits)
  have dm: "dm k' = dm k" using services_keep(4) [of ?d k] u(1) by simp
  consider "sv k' = sv k" "\<forall>o'. res0 \<noteq> Inr o'"
    | o' where "service_key o' = service_key s" "service_main o' = service_main s" "sv_ingress o' = new"
      "sv k' = (sv k)(service_key s \<mapsto> o')" "\<forall>o''. res0 = Inr o'' \<longrightarrow> o'' = o'"
    using SV.status_effect [OF u(1)] assms(2) by auto
  then show ?thesis
  proof cases
    case 1
    then show ?thesis using dm u(2) by (auto intro: lb_safe_same)
  next
    case 2
    have "lb_touch A s o'"
      using 2(2) by (cases o'; cases s) (auto simp: lb_touch_def users_part_def service_main_def)
    then have "lb_safe A sv dm k k'"
      using lb_safe_refl [of A sv dm k] assms(2) 2(4) dm by (auto simp: lb_safe_def)
    with 2 u(2) show ?thesis by auto
  qed
qed

end

text \<open>Attempts that each keep an invariant and a relation, and the one that succeeded.\<close>

lemma retry_invariant:
  assumes step: "\<And>k. I k \<Longrightarrow> I (snd (fn k)) \<and> lb_safe A sv dm k (snd (fn k))" and "I k"
  shows "I (snd (retry_on_conflict n fn k)) \<and> lb_safe A sv dm k (snd (retry_on_conflict n fn k))
     \<and> (\<forall>v k'. retry_on_conflict n fn k = (Inr v, k') \<longrightarrow> (\<exists>k1. I k1 \<and> lb_safe A sv dm k k1 \<and> fn k1 = (Inr v, k')))"
  using assms(2)
proof (induction n arbitrary: k)
  case 0
  then show ?case using step [of k] lb_safe_refl by fastforce
next
  case (Suc n)
  obtain res k1 where f: "fn k = (res, k1)" by force
  then have s: "I k1" "lb_safe A sv dm k k1" using step [OF Suc.prems] by auto
  show ?case
  proof (cases "res = Inl (ApiFailed ApiConflict)")
    case True
    then have "retry_on_conflict (Suc n) fn k = retry_on_conflict n fn k1" using f by simp
    with Suc.IH [OF s(1)] s(2) lb_safe_trans show ?thesis by metis
  next
    case False
    then have "retry_on_conflict (Suc n) fn k = (res, k1)" using f by (auto split: sum.split)
    with s f Suc.prems lb_safe_refl show ?thesis by fastforce
  qed
qed

lemma service_mainD:
  "service_main s' = service_main s \<longleftrightarrow> sv_external_ips s' = sv_external_ips s \<and> sv_annotations s' = sv_annotations s
     \<and> users_part s' = users_part s"
  by (cases s'; cases s) (auto simp: service_main_def users_part_def)

lemma users_part_upd [simp]:
  "users_part (s\<lparr>sv_external_ips := e\<rparr>) = users_part s" "users_part (s\<lparr>sv_ingress := i\<rparr>) = users_part s"
  "a(lb_managed_ips := None) = (sv_annotations s)(lb_managed_ips := None) \<Longrightarrow> users_part (s\<lparr>sv_annotations := a\<rparr>) = users_part s"
  by (simp_all add: users_part_def)

text \<open>What a Service is when the controller has done with it.\<close>

definition settled :: "'k lb_api \<Rightarrow> service \<Rightarrow> ingress list \<Rightarrow> service \<Rightarrow> bool" where
  "settled A s new s' \<longleftrightarrow> users_part s' = users_part s \<and> sv_ingress s' = new \<and> sv_external_ips s' = kept_ips A s
     \<and> sv_annotations s' = (sv_annotations s)(lb_managed_ips := None)"

lemma settled_touched: "lb_touch A s s1 \<Longrightarrow> settled A s1 new s' \<Longrightarrow> settled A s new s'"
  using lb_touch_kept [of A s s1] by (simp add: settled_def lb_touch_def)

context lb_server
begin

lemma remove_annotation_safe:
  assumes "sv k (ns, n) = Some s" and kept: "kept_ips A s = sv_external_ips s"
    and "remove_annotation A ns n k = (res, k')"
  shows "lb_safe A sv dm k k' \<and> (res = Inr () \<longrightarrow> (\<exists>s'. sv k' (ns, n) = Some s' \<and> settled A s (sv_ingress s) s'))"
proof -
  let ?none = "(sv_annotations s)(lb_managed_ips := None)"
  define I where "I k \<longleftrightarrow> (\<exists>s1. sv k (ns, n) = Some s1 \<and> users_part s1 = users_part s \<and> sv_ingress s1 = sv_ingress s
     \<and> sv_external_ips s1 = sv_external_ips s \<and> (sv_annotations s1 = sv_annotations s \<or> sv_annotations s1 = ?none))" for k
  define fn where "fn k = (case r_get (lb_services A) ns n k of
         (Inl e, k) \<Rightarrow> (Err (ApiFailed e), k)
       | (Inr current, k) \<Rightarrow>
           if sv_annotations current lb_managed_ips = None then (Ok (), k)
           else (case r_update (lb_services A)
               (current\<lparr>sv_annotations := (sv_annotations current)(lb_managed_ips := None)\<rparr>) k of
             (Inl e, k) \<Rightarrow> (Err (ApiFailed e), k) | (Inr _, k) \<Rightarrow> (Ok (), k)))" for k
  have step: "I (snd (fn k)) \<and> lb_safe A sv dm k (snd (fn k)) \<and>
      (fst (fn k) = Inr () \<longrightarrow> (\<exists>s'. sv (snd (fn k)) (ns, n) = Some s' \<and> settled A s (sv_ingress s) s'))" if Ik: "I k" for k
  proof -
    obtain s1 where s1: "sv k (ns, n) = Some s1" "users_part s1 = users_part s" "sv_ingress s1 = sv_ingress s"
      "sv_external_ips s1 = sv_external_ips s" "sv_annotations s1 = sv_annotations s \<or> sv_annotations s1 = ?none"
      using Ik by (auto simp: I_def)
    have key: "sv_ns s1 = ns" "sv_name s1 = n" using SV.stored_key [OF s1(1)] by simp_all
    obtain res1 k1 where g: "r_get (lb_services A) ns n k = (res1, k1)" by force
    note same = services_keep' (1) [OF g]
    show ?thesis
    proof (cases "\<exists>c. res1 = Inr c \<and> sv_annotations c lb_managed_ips \<noteq> None")
      case False
      have "settled A s (sv_ingress s) s1" if "sv_annotations s1 lb_managed_ips = None"
        using s1 that kept by (auto simp: settled_def fun_upd_idem_iff)
      with False g same s1 \<open>I k\<close> SV.get_ok [of ns n k] show ?thesis
        by (cases res1) (auto simp: fn_def I_def intro: lb_safe_same)
    next
      case True
      then have c: "res1 = Inr s1" "sv_annotations s1 lb_managed_ips \<noteq> None"
        using SV.get_ok g s1(1) by fastforce+
      let ?d = "s1\<lparr>sv_annotations := (sv_annotations s1)(lb_managed_ips := None)\<rparr>"
      obtain res2 k2 where u: "r_update (lb_services A) ?d k1 = (res2, k2)" by force
      have ann: "sv_annotations s1 = sv_annotations s" using c(2) s1(5) by auto
      have t: "lb_touch A s1 (s1\<lparr>sv_external_ips := sv_external_ips s1, sv_annotations := (sv_annotations s1)(lb_managed_ips := None)\<rparr>)"
        using ann s1(4) kept kept_ips_cong [OF ann, of A] by (simp add: lb_touch_def)
      have up: "lb_safe A sv dm k1 k2 \<and> (sv k2 = sv k1 \<and> (\<forall>o'. res2 \<noteq> Inr o') \<or>
          (\<exists>o'. sv k2 = (sv k1)(service_key ?d \<mapsto> o') \<and> service_key o' = service_key ?d \<and> service_main o' = service_main ?d
             \<and> sv_ingress o' = sv_ingress s1 \<and> (\<forall>o''. res2 = Inr o'' \<longrightarrow> o'' = o')))"
        by (rule update_service [OF u _ _ t]) (use key s1(1) same in simp_all)
      have fn: "fn k = (case res2 of Inl e \<Rightarrow> Err (ApiFailed e) | Inr _ \<Rightarrow> Ok (), k2)"
        using g c u by (auto simp: fn_def split: sum.split)
      have d: "sv_external_ips ?d = sv_external_ips s" "sv_annotations ?d = ?none" "users_part ?d = users_part s"
        using ann s1 by simp_all
      have "I k2 \<and> (\<forall>v. res2 = Inr v \<longrightarrow> (\<exists>s'. sv k2 (ns, n) = Some s' \<and> settled A s (sv_ingress s) s'))"
      proof (cases "sv k2 = sv k1 \<and> (\<forall>o'. res2 \<noteq> Inr o')")
        case True
        with Ik same show ?thesis by (simp add: I_def)
      next
        case False
        then obtain o' where o': "sv k2 = (sv k1)(service_key ?d \<mapsto> o')" "service_main o' = service_main ?d"
          "sv_ingress o' = sv_ingress s1" using up by blast
        then have "sv k2 (ns, n) = Some o'" "settled A s (sv_ingress s) o'"
          using key d s1(3) kept by (simp_all add: service_mainD settled_def)
        moreover from this have "I k2" using kept by (simp add: I_def settled_def)
        ultimately show ?thesis by blast
      qed
      moreover have "lb_safe A sv dm k k2"
        using lb_safe_trans [OF lb_safe_same] same up by metis
      ultimately show ?thesis by (auto simp: fn split: sum.splits)
    qed
  qed
  have "I k" using assms(1) by (simp add: I_def)
  moreover have "I (snd (fn k)) \<and> lb_safe A sv dm k (snd (fn k))" if "I k" for k using step [OF that] by blast
  ultimately have r: "lb_safe A sv dm k (snd (retry_on_conflict default_retry fn k)) \<and>
      (\<forall>v k'. retry_on_conflict default_retry fn k = (Inr v, k') \<longrightarrow> (\<exists>k1. I k1 \<and> lb_safe A sv dm k k1 \<and> fn k1 = (Inr v, k')))"
    using retry_invariant [of I fn A sv dm k default_retry] by blast
  have e: "retry_on_conflict default_retry fn k = (res, k')"
    using assms(3) by (simp add: remove_annotation_def fn_def [abs_def])
  have "\<exists>s'. sv k' (ns, n) = Some s' \<and> settled A s (sv_ingress s) s'" if ok: "res = Inr ()"
  proof -
    have "retry_on_conflict default_retry fn k = (Inr (), k')" using e ok by simp
    then obtain k1 where "I k1" "fn k1 = (Inr (), k')" using r by blast
    with step [of k1] show ?thesis by simp
  qed
  with r e show ?thesis by simp
qed

lemma settled_touch: "settled A s new s' \<Longrightarrow> lb_touch A s s'"
  by (simp add: settled_def lb_touch_def)

lemma reconcile_once_safe:
  assumes "reconcile_once A s ips k = (res, k')" "sv k (service_key s) = Some s"
  shows "lb_safe A sv dm k k' \<and> (res = Inr () \<longrightarrow> (\<exists>s'. sv k' (service_key s) = Some s' \<and>
     settled A s (map ip_ingress (unique_strings ips)) s'))"
proof -
  let ?new = "map ip_ingress (unique_strings ips)"
  obtain res1 k1 where r1: "(case managed_ips A (sv_annotations s) of Inl _ \<Rightarrow> (Ok s, k)
     | Inr managed \<Rightarrow> remove_external_ips A s managed k) = (res1, k1)" by force
  have s1: "lb_safe A sv dm k k1 \<and> (\<forall>c. res1 = Inr c \<longrightarrow> sv k1 (service_key s) = Some c \<and> sv_external_ips c = kept_ips A s
      \<and> lb_touch A s c \<and> sv_annotations c = sv_annotations s)"
  proof (cases "managed_ips A (sv_annotations s)")
    case (Inl e)
    with r1 assms(2) show ?thesis by (auto simp: kept_ips_def lb_safe_refl lb_touch_refl)
  next
    case (Inr managed)
    with r1 remove_external_ips_safe [OF _ assms(2) Inr] show ?thesis by simp
  qed
  show ?thesis
  proof (cases res1)
    case (Inl e)
    then show ?thesis using assms(1) r1 s1 by (auto simp: reconcile_once_def Let_def)
  next
    case (Inr c)
    have ck: "service_key c = service_key s" using SV.stored_key s1 Inr by blast
    have ckept: "kept_ips A c = kept_ips A s" using s1 Inr lb_touch_kept by blast
    obtain res2 k2 where r2: "set_ingress A c ?new k1 = (res2, k2)" by force
    have s2: "lb_safe A sv dm k1 k2 \<and> (\<forall>d. res2 = Inr d \<longrightarrow> sv k2 (service_key s) = Some d \<and>
        service_main d = service_main c \<and> sv_ingress d = ?new)"
    proof -
      have "sv k1 (service_key c) = Some c" using s1 Inr ck by simp
      from set_ingress_safe [OF r2 this] show ?thesis unfolding ck by blast
    qed
    show ?thesis
    proof (cases "\<exists>d managed. res2 = Inr d \<and> managed_ips A (sv_annotations s) = Inr managed")
      case False
      then have "k' = k2 \<and> res \<noteq> Inr ()" using assms(1) r1 Inr r2
        by (auto simp: reconcile_once_def Let_def split: sum.splits prod.splits)
      with s1 s2 show ?thesis using lb_safe_trans [of A sv dm k k1 k2] by blast
    next
      case True
      then obtain d managed where d: "res2 = Inr d" "managed_ips A (sv_annotations s) = Inr managed" by blast
      then have dk: "service_key d = service_key s" using SV.stored_key s2 by blast
      have main: "sv_external_ips d = kept_ips A s" "sv_annotations d = sv_annotations s" "users_part d = users_part s"
        using s1 s2 Inr d(1) by (auto simp: service_mainD lb_touch_def)
      have "kept_ips A d = kept_ips A s" using main by (intro kept_ips_cong) simp_all
      moreover have "remove_annotation A (sv_ns s) (sv_name s) k2 = (res, k')"
        using assms(1) r1 Inr r2 d dk by (simp add: reconcile_once_def Let_def)
      ultimately have "lb_safe A sv dm k2 k' \<and> (res = Inr () \<longrightarrow> (\<exists>s'. sv k' (service_key s) = Some s' \<and> settled A d ?new s'))"
        using remove_annotation_safe [of k2 "sv_ns s" "sv_name s" d res k'] s2 d(1) main by simp
      moreover have "settled A s ?new s'" if "settled A d ?new s'" for s'
        using that main \<open>kept_ips A d = kept_ips A s\<close> by (simp add: settled_def)
      moreover have "lb_safe A sv dm k k2" using s1 s2 lb_safe_trans [of A sv dm k k1 k2] by blast
      ultimately show ?thesis using lb_safe_trans [of A sv dm k k2 k'] by blast
    qed
  qed
qed

lemma cleanup_once_safe:
  assumes "sv k (service_key s) = Some s"
    and "(case set_ingress A s [] k of
               (Inl e, k) \<Rightarrow> (Err e, k)
             | (Inr current, k) \<Rightarrow>
                 (case managed_ips A (sv_annotations current) of
                    Inl e \<Rightarrow> (Err e, k)
                  | Inr managed \<Rightarrow>
                      (case remove_external_ips A current managed k of
                         (Inl e, k) \<Rightarrow> (Err e, k)
                       | (Inr current, k) \<Rightarrow> remove_annotation A (sv_ns current) (sv_name current) k))) = (res, k')"
  shows "lb_safe A sv dm k k' \<and> (res = Inr () \<longrightarrow> (\<exists>s'. sv k' (service_key s) = Some s' \<and> settled A s [] s'))"
proof -
  obtain res1 k1 where r1: "set_ingress A s [] k = (res1, k1)" by force
  note s1 = set_ingress_safe [OF r1 assms(1)]
  show ?thesis
  proof (cases "\<exists>c managed. res1 = Inr c \<and> managed_ips A (sv_annotations c) = Inr managed")
    case False
    with assms(2) r1 have "k' = k1 \<and> res \<noteq> Inr ()" by (auto split: sum.splits)
    with s1 show ?thesis by blast
  next
    case True
    then obtain c managed where c: "res1 = Inr c" "managed_ips A (sv_annotations c) = Inr managed" by blast
    have ck: "sv k1 (service_key c) = Some c" "service_key c = service_key s" using s1 c(1) by auto
    obtain res2 k2 where r2: "remove_external_ips A c managed k1 = (res2, k2)" by force
    note s2 = remove_external_ips_safe [OF r2 ck(1) c(2)]
    have main: "users_part c = users_part s" "sv_annotations c = sv_annotations s" "sv_external_ips c = sv_external_ips s"
      using s1 c(1) by (auto simp: service_mainD)
    then have ckept: "kept_ips A c = kept_ips A s" by (intro kept_ips_cong) simp_all
    show ?thesis
    proof (cases res2)
      case (Inl e)
      with assms(2) r1 c r2 have "k' = k2 \<and> res \<noteq> Inr ()" by auto
      with s1 s2 show ?thesis using lb_safe_trans [of A sv dm k k1 k2] by blast
    next
      case (Inr d)
      then have d: "sv k2 (service_key s) = Some d" "sv_external_ips d = kept_ips A s" "lb_touch A c d"
        "sv_annotations d = sv_annotations s" "sv_ingress d = sv_ingress c"
        using s2 ck(2) ckept main(2) by auto
      have dk: "service_key d = service_key s" using SV.stored_key [OF d(1)] .
      have dkept: "kept_ips A d = kept_ips A s" using lb_touch_kept(1) [OF d(3)] ckept by simp
      have "remove_annotation A (sv_ns s) (sv_name s) k2 = (res, k')"
        using assms(2) r1 c r2 Inr dk by simp
      then have r3: "lb_safe A sv dm k2 k' \<and> (res = Inr () \<longrightarrow> (\<exists>s'. sv k' (service_key s) = Some s' \<and> settled A d (sv_ingress d) s'))"
        using remove_annotation_safe [of k2 "sv_ns s" "sv_name s" d res k'] d dkept by simp
      have "sv_ingress d = []" using d(5) s1 c(1) by simp
      then have "settled A s [] s'" if "settled A d (sv_ingress d) s'" for s'
        using that d main dkept by (simp add: settled_def lb_touch_def)
      moreover have "lb_safe A sv dm k k'"
        by (rule lb_safe_trans [OF lb_safe_trans]) (use s1 s2 r3 in blast)+
      ultimately show ?thesis using r3 by blast
    qed
  qed
qed

end

end
