(* ===== verification/LoadBalancerRound.thy ===== *)
theory LoadBalancerRound
  imports LoadBalancer
begin

text \<open>
  Whole calls of the load balancer's controller: publishing the status of a Service, cleaning
  one up, and a round over all Services and DaemonSets.
\<close>

section \<open>One Service\<close>

lemma lb_manages_cong:
  assumes "users_part s' = users_part s" "sv_annotations s' lb_disabled = sv_annotations s lb_disabled"
  shows "lb_manages s' = lb_manages s"
  using assms by (cases s'; cases s) (auto simp: lb_manages_def users_part_def value_at_def)

lemma touched_same:
  assumes "lb_touch A s s'"
  shows "lb_manages s' = lb_manages s" "sv_deleting s' = sv_deleting s" "sv_uid s' = sv_uid s" "sv_class s' = sv_class s"
proof -
  have d: "lb_disabled \<noteq> lb_managed_ips" by (simp add: lb_disabled_def lb_managed_ips_def)
  have u: "users_part s' = users_part s" using assms by (simp add: lb_touch_def)
  have "sv_annotations s' lb_disabled = sv_annotations s lb_disabled"
    using assms d by (auto simp: lb_touch_def)
  with u show "lb_manages s' = lb_manages s" by (rule lb_manages_cong)
  show "sv_deleting s' = sv_deleting s" "sv_uid s' = sv_uid s" "sv_class s' = sv_class s"
    using u by (cases s'; cases s; simp add: users_part_def)+
qed

context lb_server
begin

text \<open>A retried call that reads the Service and settles it.\<close>

lemma retried_service:
  assumes fn_def: "fn = (\<lambda>k. case r_get (lb_services A) ns n k of
      (Inl e, k) \<Rightarrow> (if e = ApiNotFound then Ok () else Err (ApiFailed e), k)
    | (Inr current, k) \<Rightarrow> body current k)"
    and body: "\<forall>c k res k'. body c k = (res, k') \<longrightarrow> sv k (service_key c) = Some c \<longrightarrow> lb_safe A sv dm k k' \<and>
      (res = Inr () \<longrightarrow> ok c \<longrightarrow> (\<exists>s'. sv k' (service_key c) = Some s' \<and> settled A c new s'))"
    and ok: "\<forall>c c'. lb_touch A c c' \<longrightarrow> ok c \<longrightarrow> ok c'"
    and r: "retry_on_conflict default_retry fn k = (res, k')"
  shows "lb_safe A sv dm k k' \<and>
    (\<forall>s. sv k (ns, n) = Some s \<longrightarrow> ok s \<longrightarrow> res = Inr () \<longrightarrow> (\<exists>s'. sv k' (ns, n) = Some s' \<and> settled A s new s'))"
proof -
  have step: "lb_safe A sv dm k (snd (fn k)) \<and> (\<forall>s. fst (fn k) = Inr () \<longrightarrow> sv k (ns, n) = Some s \<longrightarrow> ok s \<longrightarrow>
      (\<exists>s'. sv (snd (fn k)) (ns, n) = Some s' \<and> settled A s new s'))" for k
  proof -
    obtain res1 k1 where g: "r_get (lb_services A) ns n k = (res1, k1)" by force
    note same = services_keep' (1) [OF g]
    show ?thesis
    proof (cases res1)
      case (Inl e)
      have "e = ApiNotFound \<Longrightarrow> sv k (ns, n) = None" using SV.get_missing [of ns n k k1] g Inl by simp
      moreover have "fn k = (if e = ApiNotFound then Ok () else Err (ApiFailed e), k1)" using g Inl by (simp add: fn_def)
      moreover have "lb_safe A sv dm k k1" using same by (intro lb_safe_same) simp_all
      ultimately show ?thesis by (cases "e = ApiNotFound") simp_all
    next
      case (Inr c)
      have c: "sv k (ns, n) = Some c" using SV.get_ok g Inr by blast
      then have key: "service_key c = (ns, n)" by (rule SV.stored_key)
      obtain res2 k2 where b: "body c k1 = (res2, k2)" by force
      have "sv k1 (service_key c) = Some c" using c key same by simp
      note b2 = body [rule_format, OF b this]
      have "fn k = (res2, k2)" using g Inr b by (simp add: fn_def)
      moreover have "lb_safe A sv dm k k1" using same by (intro lb_safe_same) simp_all
      then have "lb_safe A sv dm k k2" using b2 lb_safe_trans [of A sv dm k k1 k2] by blast
      ultimately show ?thesis using b2 c unfolding key by auto
    qed
  qed
  have inv: "retry_on_conflict default_retry fn k = (Inr v, k'') \<Longrightarrow>
      \<exists>k1. lb_safe A sv dm k k1 \<and> fn k1 = (Inr v, k'')" for v k''
    using retry_invariant [of "\<lambda>_. True" fn A sv dm k default_retry] step by blast
  have "\<exists>s'. sv k' (ns, n) = Some s' \<and> settled A s new s'" if s: "sv k (ns, n) = Some s" "ok s" "res = Inr ()" for s
  proof -
    obtain k1 where k1: "lb_safe A sv dm k k1" "fn k1 = (Inr (), k')" using inv r s(3) by blast
    then obtain s1 where s1: "sv k1 (ns, n) = Some s1" "lb_touch A s s1"
      using s(1) unfolding lb_safe_def by (metis option_rel_Some1)
    then obtain s' where "sv k' (ns, n) = Some s'" "settled A s1 new s'"
      using step [of k1] k1(2) ok s(2) by fastforce
    with settled_touched [OF s1(2)] show ?thesis by blast
  qed
  moreover have "lb_safe A sv dm k k'"
    using retry_invariant [of "\<lambda>_. True" fn A sv dm k default_retry] step r by simp
  ultimately show ?thesis by blast
qed

lemma reconcile_service_effect:
  assumes "reconcile_service A s0 ips k = (res, k')"
  shows "lb_safe A sv dm k k' \<and>
    (\<forall>s. sv k (service_key s0) = Some s \<longrightarrow> lb_manages s \<and> \<not> sv_deleting s \<longrightarrow> \<not> sv_deleting s0 \<longrightarrow> res = Inr () \<longrightarrow>
     (\<exists>s'. sv k' (service_key s0) = Some s' \<and> settled A s (map ip_ingress (unique_strings ips)) s'))"
proof (cases "sv_deleting s0")
  case True
  with assms show ?thesis by (simp add: reconcile_service_def lb_safe_refl)
next
  case False
  let ?body = "\<lambda>c k. if sv_deleting c \<or> \<not> lb_manages c then (Ok (), k) else reconcile_once A c ips k"
  let ?ok = "\<lambda>c. lb_manages c \<and> \<not> sv_deleting c"
  have body: "\<forall>c k res k'. ?body c k = (res, k') \<longrightarrow> sv k (service_key c) = Some c \<longrightarrow> lb_safe A sv dm k k' \<and>
      (res = Inr () \<longrightarrow> ?ok c \<longrightarrow> (\<exists>s'. sv k' (service_key c) = Some s' \<and> settled A c (map ip_ingress (unique_strings ips)) s'))"
    using reconcile_once_safe [of _ ips] lb_safe_refl by (metis prod.inject)
  have ok: "\<forall>c c'. lb_touch A c c' \<longrightarrow> ?ok c \<longrightarrow> ?ok c'" using touched_same by blast
  have "retry_on_conflict default_retry (\<lambda>k. case r_get (lb_services A) (sv_ns s0) (sv_name s0) k of
      (Inl e, k) \<Rightarrow> (if e = ApiNotFound then Ok () else Err (ApiFailed e), k)
    | (Inr current, k) \<Rightarrow> ?body current k) k = (res, k')"
    using assms False by (simp add: reconcile_service_def)
  from retried_service [OF refl body ok this] show ?thesis by blast
qed

lemma cleanup_service_effect:
  assumes "cleanup_service A s0 k = (res, k')"
  shows "lb_safe A sv dm k k' \<and>
    (\<forall>s. sv k (service_key s0) = Some s \<longrightarrow> \<not> sv_deleting s0 \<longrightarrow> res = Inr () \<longrightarrow>
     (\<exists>s'. sv k' (service_key s0) = Some s' \<and> settled A s [] s'))"
proof (cases "sv_deleting s0")
  case True
  with assms show ?thesis by (simp add: cleanup_service_def lb_safe_refl)
next
  case False
  let ?body = "\<lambda>current k. case set_ingress A current [] k of
               (Inl e, k) \<Rightarrow> (Err e, k)
             | (Inr current, k) \<Rightarrow>
                 (case managed_ips A (sv_annotations current) of
                    Inl e \<Rightarrow> (Err e, k)
                  | Inr managed \<Rightarrow>
                      (case remove_external_ips A current managed k of
                         (Inl e, k) \<Rightarrow> (Err e, k)
                       | (Inr current, k) \<Rightarrow> remove_annotation A (sv_ns current) (sv_name current) k))"
  have body: "\<forall>c k res k'. ?body c k = (res, k') \<longrightarrow> sv k (service_key c) = Some c \<longrightarrow> lb_safe A sv dm k k' \<and>
      (res = Inr () \<longrightarrow> True \<longrightarrow> (\<exists>s'. sv k' (service_key c) = Some s' \<and> settled A c [] s'))"
    using cleanup_once_safe by blast
  have ok: "\<forall>c c'. lb_touch A c c' \<longrightarrow> True \<longrightarrow> True" by simp
  have "retry_on_conflict default_retry (\<lambda>k. case r_get (lb_services A) (sv_ns s0) (sv_name s0) k of
      (Inl e, k) \<Rightarrow> (if e = ApiNotFound then Ok () else Err (ApiFailed e), k)
    | (Inr current, k) \<Rightarrow> ?body current k) k = (res, k')"
    using assms False by (simp add: cleanup_service_def)
  from retried_service [OF refl body ok this] show ?thesis by blast
qed

end

section \<open>DaemonSets\<close>

text \<open>An object of the controller is there under a key.\<close>

definition has_owned :: "('k \<Rightarrow> string \<times> string \<Rightarrow> daemon_set option) \<Rightarrow> 'k \<Rightarrow> string \<times> string \<Rightarrow> bool" where
  "has_owned dm k q \<longleftrightarrow> (\<exists>d. dm k q = Some d \<and> lb_owned d)"

text \<open>Objects of the controller stay, others stay as they are, and Services are only touched.\<close>

definition lb_grows :: "'k lb_api \<Rightarrow> ('k \<Rightarrow> string \<times> string \<Rightarrow> service option) \<Rightarrow> ('k \<Rightarrow> string \<times> string \<Rightarrow> daemon_set option)
    \<Rightarrow> 'k \<Rightarrow> 'k \<Rightarrow> bool" where
  "lb_grows A sv dm k k' \<longleftrightarrow> lb_safe A sv dm k k' \<and> (\<forall>q. has_owned dm k q \<longrightarrow> has_owned dm k' q)"

lemma lb_grows_same: "lb_safe A sv dm k k' \<Longrightarrow> dm k' = dm k \<Longrightarrow> lb_grows A sv dm k k'"
  by (simp add: lb_grows_def has_owned_def)

lemma lb_grows_trans: "lb_grows A sv dm k k' \<Longrightarrow> lb_grows A sv dm k' k'' \<Longrightarrow> lb_grows A sv dm k k''"
  unfolding lb_grows_def using lb_safe_trans [of A sv dm k k' k''] by blast

lemma lb_grows_refl: "lb_grows A sv dm k k"
  by (intro lb_grows_same lb_safe_refl) simp

lemma lb_safe_ds:
  assumes "sv k' = sv k" "dm k' = (dm k)(q := new)" "\<And>d. dm k q = Some d \<Longrightarrow> lb_owned d"
  shows "lb_safe A sv dm k k'"
proof -
  have "rel_option (lb_touch A) x x" for x by (rule option.rel_refl) (rule lb_touch_refl)
  with assms show ?thesis by (auto simp: lb_safe_def)
qed

context lb_server
begin

lemma daemon_sets_keep': "r_get (lb_daemon_sets A) ns n k = (res, k') \<Longrightarrow> sv k' = sv k \<and> dm k' = dm k"
  "r_list (lb_daemon_sets A) p k = (res', k') \<Longrightarrow> sv k' = sv k \<and> dm k' = dm k"
  using DS.reads daemon_sets_keep(1,2) by (metis snd_conv)+

lemma owned_by_labels: "ds_ns c = lb_namespace \<Longrightarrow> value_at (ds_labels c) lb_managed_by = ''casos'' \<Longrightarrow>
    value_at (ds_labels c) lb_component = ''service-lb'' \<Longrightarrow> lb_owned c"
  by (auto simp: lb_owned_def value_at_def split: option.splits)

lemma create_or_update_effect:
  assumes "create_or_update A desired k = (res, k')" and own: "lb_owned desired"
  shows "lb_grows A sv dm k k' \<and> (res = Inr () \<longrightarrow> has_owned dm k' (ds_key desired))"
proof -
  let ?q = "ds_key desired"
  obtain res1 k1 where g: "r_get (lb_daemon_sets A) (ds_ns desired) (ds_name desired) k = (res1, k1)" by force
  note same = daemon_sets_keep' (1) [OF g]
  have kk1: "lb_grows A sv dm k k1" using same by (intro lb_grows_same lb_safe_same) simp_all
  have own': "lb_owned o'" if "ds_key o' = ?q" "ds_main o' = ds_main d'" "ds_labels d' lb_managed_by = Some ''casos''"
    "ds_labels d' lb_component = Some ''service-lb''" for o' d'
    using that own by (simp add: lb_owned_def ds_main_def)
  have put: "lb_grows A sv dm k k2 \<and> has_owned dm k2 ?q"
    if "sv k2 = sv k1" "dm k2 = (dm k1)(?q \<mapsto> o')" "lb_owned o'" "\<And>d. dm k1 ?q = Some d \<Longrightarrow> lb_owned d" for k2 o'
  proof -
    have "lb_safe A sv dm k1 k2" by (rule lb_safe_ds [OF that(1,2,4)])
    moreover have "has_owned dm k1 q \<Longrightarrow> has_owned dm k2 q" for q using that(2,3) by (auto simp: has_owned_def)
    ultimately have "lb_grows A sv dm k1 k2" by (simp add: lb_grows_def)
    with kk1 have "lb_grows A sv dm k k2" by (rule lb_grows_trans)
    with that(2,3) show ?thesis by (simp add: has_owned_def)
  qed
  show ?thesis
  proof (cases res1)
    case (Inl e)
    show ?thesis
    proof (cases "e = ApiNotFound")
      case False
      with assms(1) g Inl kk1 show ?thesis by (auto simp: create_or_update_def)
    next
      case True
      then have none: "dm k1 ?q = None" using SV.get_missing DS.get_missing g Inl same by simp
      obtain res2 k2 where c: "r_create (lb_daemon_sets A) desired k1 = (res2, k2)" by force
      have r: "k' = k2" "res = Inr () \<Longrightarrow> \<exists>o'. res2 = Inr o'"
        using assms(1) g Inl True c by (auto simp: create_or_update_def split: sum.splits)
      have s2: "sv k2 = sv k1" using daemon_sets_keep(3) [of desired k1] c by simp
      show ?thesis
      proof (cases "dm k2 = dm k1 \<and> (\<forall>o'. res2 \<noteq> Inr o')")
        case True
        then have "lb_grows A sv dm k1 k2" using s2 by (intro lb_grows_same lb_safe_same) simp_all
        then have "lb_grows A sv dm k k2" by (rule lb_grows_trans [OF kk1])
        with True r show ?thesis by auto
      next
        case False
        then obtain o' where o': "ds_key o' = ?q" "ds_main o' = ds_main desired" "dm k2 = (dm k1)(?q \<mapsto> o')"
          using DS.create_effect [OF c] by blast
        have "ds_labels desired lb_managed_by = Some ''casos''" "ds_labels desired lb_component = Some ''service-lb''"
          using own by (simp_all add: lb_owned_def)
        then have "lb_owned o'" by (rule own' [OF o'(1,2)])
        from put [OF s2 o'(3) this] none r show ?thesis by simp
      qed
    qed
  next
    case (Inr c)
    have c: "dm k1 ?q = Some c" using DS.get_ok g Inr same by simp
    then have ckey: "ds_key c = ?q" by (rule DS.stored_key)
    show ?thesis
    proof (cases "value_at (ds_labels c) lb_managed_by = ''casos'' \<and> value_at (ds_labels c) lb_component = ''service-lb'' \<and>
        (\<forall>key \<in> set [lb_service_name, lb_service_namespace, lb_service_uid].
           value_at (ds_labels c) key = value_at (ds_labels desired) key)")
      case False
      then have "k' = k1 \<and> res \<noteq> Inr ()" using assms(1) g Inr by (auto simp: create_or_update_def split: if_splits)
      with kk1 show ?thesis by simp
    next
      case True
      have "ds_ns c = lb_namespace" using ckey own by (simp add: lb_owned_def)
      then have cown: "lb_owned c" using True by (intro owned_by_labels) simp_all
      define d where "d = desired\<lparr>ds_labels := ds_labels c ++ ds_labels desired, ds_annotations := ds_annotations c ++ ds_annotations desired\<rparr>"
      show ?thesis
      proof (cases "ds_labels c = ds_labels d \<and> ds_annotations c = ds_annotations d \<and> lb_same_spec A c d")
        case same_spec: True
        then have "k' = k1" using assms(1) g Inr True by (auto simp: create_or_update_def Let_def d_def split: if_splits)
        with kk1 c cown show ?thesis by (auto simp: has_owned_def)
      next
        case differs: False
        obtain res2 k2 where u: "r_update (lb_daemon_sets A) (d\<lparr>ds_version := ds_version c\<rparr>) k1 = (res2, k2)" by force
        have r: "k' = k2" "res = Inr () \<Longrightarrow> \<exists>o'. res2 = Inr o'"
          using assms(1) g Inr True differs u
          by (auto simp: create_or_update_def Let_def d_def [symmetric] split: if_splits sum.splits)
        have s2: "sv k2 = sv k1" using daemon_sets_keep(4) u by (metis snd_conv)
        show ?thesis
        proof (cases "dm k2 = dm k1 \<and> (\<forall>o'. res2 \<noteq> Inr o')")
          case True
          then have "lb_grows A sv dm k1 k2" using s2 by (intro lb_grows_same lb_safe_same) simp_all
          then have "lb_grows A sv dm k k2" by (rule lb_grows_trans [OF kk1])
          with True r show ?thesis by auto
        next
          case False
          then obtain o' where o': "ds_key o' = ds_key d" "ds_main o' = ds_main d" "dm k2 = (dm k1)(ds_key d \<mapsto> o')"
            using DS.update_effect [OF u] by (auto simp: ds_main_def)
          have dkey: "ds_key d = ?q" by (simp add: d_def)
          have "lb_owned o'" using own o' dkey by (intro own' [of o' d]) (simp_all add: lb_owned_def d_def)
          moreover have "lb_owned d'" if "dm k1 ?q = Some d'" for d' using that c cown by simp
          ultimately show ?thesis using put [of k2 o'] s2 o'(3) dkey r by simp
        qed
      qed
    qed
  qed
qed

lemma list_daemon_sets_ok:
  assumes "list_daemon_sets A k = (res, k')"
  shows "sv k' = sv k \<and> dm k' = dm k" and "res = Inr ds \<Longrightarrow> set ds = {d. lb_owned d \<and> dm k (ds_key d) = Some d}"
proof -
  obtain r where l: "r_list (lb_daemon_sets A) lb_owned k = (r, k')" "res = (case r of Inl e \<Rightarrow> Err (ApiFailed e) | Inr ds \<Rightarrow> Ok ds)"
    using assms by (auto simp: list_daemon_sets_def split: prod.splits sum.splits)
  then show "sv k' = sv k \<and> dm k' = dm k" using daemon_sets_keep' (2) by blast
  show "res = Inr ds \<Longrightarrow> set ds = {d. lb_owned d \<and> dm k (ds_key d) = Some d}"
    using l DS.list_ok by (auto split: sum.splits)
qed

text \<open>Deleting objects of the controller: they go, or an error is reported; nothing else changes.\<close>

lemma delete_daemon_sets_effect:
  assumes "delete_daemon_sets A ds k = (errs, k')" and "\<And>d d'. d \<in> set ds \<Longrightarrow> dm k (ds_key d) = Some d' \<Longrightarrow> lb_owned d'"
  shows "sv k' = sv k \<and> lb_safe A sv dm k k' \<and> (\<forall>q. dm k' q = dm k q \<or> dm k' q = None \<and> q \<in> ds_key ` set ds) \<and>
    (errs = [] \<longrightarrow> (\<forall>d \<in> set ds. dm k' (ds_key d) = None))"
  using assms
proof (induction ds arbitrary: k errs)
  case Nil
  then show ?case by (simp add: lb_safe_refl)
next
  case (Cons d ds)
  obtain res k1 where del: "r_delete (lb_daemon_sets A) (ds_ns d) (ds_name d) k = (res, k1)" by force
  obtain errs1 where rest: "delete_daemon_sets A ds k1 = (errs1, k')"
    and none_err: "errs = [] \<Longrightarrow> errs1 = [] \<and> (res = Inr () \<or> res = Inl ApiNotFound)"
    using Cons.prems(1) del by (auto split: prod.splits sum.splits if_splits)
  have s1: "sv k1 = sv k" using daemon_sets_keep(5) [of "ds_ns d" "ds_name d" k] del by simp
  have dels: "dm k1 = dm k \<and> res \<noteq> Inr () \<or> dm k1 = (dm k)(ds_key d := None)"
    and none: "res = Inl ApiNotFound \<Longrightarrow> dm k (ds_key d) = None"
    using DS.delete_effect [OF del] by auto
  have gone: "dm k1 (ds_key d) = None" if "errs = []"
    using none_err [OF that] dels none by auto
  have safe1: "lb_safe A sv dm k k1"
    using dels
  proof
    assume "dm k1 = dm k \<and> res \<noteq> Inr ()"
    with s1 show ?thesis by (intro lb_safe_same) simp_all
  next
    assume "dm k1 = (dm k)(ds_key d := None)"
    with s1 show ?thesis by (rule lb_safe_ds) (use Cons.prems(2) [of d] in simp)
  qed
  have pre: "lb_owned d'" if "e \<in> set ds" "dm k1 (ds_key e) = Some d'" for e d'
    using that Cons.prems(2) [of e d'] dels by (auto split: if_splits)
  have IH: "sv k' = sv k1 \<and> lb_safe A sv dm k1 k' \<and> (\<forall>q. dm k' q = dm k1 q \<or> dm k' q = None \<and> q \<in> ds_key ` set ds) \<and>
      (errs1 = [] \<longrightarrow> (\<forall>d \<in> set ds. dm k' (ds_key d) = None))"
    by (rule Cons.IH [OF rest]) (use pre in blast)
  have "lb_safe A sv dm k k'" using safe1 IH lb_safe_trans [of A sv dm k k1 k'] by blast
  moreover have "\<forall>q. dm k' q = dm k q \<or> dm k' q = None \<and> q \<in> ds_key ` set (d # ds)"
  proof
    fix q
    have "dm k1 q = dm k q \<or> q = ds_key d \<and> dm k1 q = None"
      using dels by (cases "q = ds_key d") (auto simp del: prod.inject)
    moreover have "dm k' q = dm k1 q \<or> dm k' q = None \<and> q \<in> ds_key ` set ds" using IH by blast
    ultimately show "dm k' q = dm k q \<or> dm k' q = None \<and> q \<in> ds_key ` set (d # ds)" by (elim disjE conjE) simp_all
  qed
  moreover have "\<forall>e \<in> set (d # ds). dm k' (ds_key e) = None" if "errs = []"
  proof
    fix e assume "e \<in> set (d # ds)"
    moreover have "dm k' (ds_key d) = None" using IH gone [OF that] by (metis (no_types, lifting))
    ultimately show "dm k' (ds_key e) = None" using IH none_err [OF that] by auto
  qed
  ultimately show ?case using IH s1 by simp
qed

section \<open>Rounds\<close>

lemma reads_keep':
  "lb_pods A pp k = (r1, k') \<Longrightarrow> sv k' = sv k \<and> dm k' = dm k"
  "lb_slices A ps k = (r2, k') \<Longrightarrow> sv k' = sv k \<and> dm k' = dm k"
  "lb_nodes A k = (r3, k') \<Longrightarrow> sv k' = sv k \<and> dm k' = dm k"
  using reads_keep by (metis snd_conv)+

lemma node_ips_keep: "ready_proxy_node_ips A s nodes k = (res, k') \<Longrightarrow> sv k' = sv k \<and> dm k' = dm k"
  by (auto simp: ready_proxy_node_ips_def ready_endpoint_nodes_def Let_def split: prod.splits sum.splits if_splits
      dest!: reads_keep')

lemma build_owned: "build_daemon_set sha s img = Inr d \<Longrightarrow> lb_owned d \<and> ds_key d = (lb_namespace, daemon_set_name sha s)"
  using build_daemon_set_cases [where sha = sha and s = s and img = img] by (simp add: lb_owned_def)

text \<open>Calls about Services leave the DaemonSets alone.\<close>

lemma retry_daemon_sets:
  assumes "\<And>k. dm (snd (fn k)) = dm k"
  shows "dm (snd (retry_on_conflict n fn k)) = dm k"
proof (induction n arbitrary: k)
  case (Suc n)
  obtain res k1 where f: "fn k = (res, k1)" by force
  then have "dm k1 = dm k" using assms [of k] by simp
  with f Suc show ?case by (simp split: sum.split)
qed (simp add: assms)

lemma remove_external_ips_daemon_sets: "dm (snd (remove_external_ips A s managed k)) = dm k"
  by (simp add: remove_external_ips_def Let_def services_keep)

lemma set_ingress_daemon_sets: "dm (snd (set_ingress A s new k)) = dm k"
  by (simp add: set_ingress_def services_keep)

lemma remove_annotation_daemon_sets: "dm (snd (remove_annotation A ns n k)) = dm k"
  unfolding remove_annotation_def
proof (rule retry_daemon_sets)
  fix k
  obtain res k1 where g: "r_get (lb_services A) ns n k = (res, k1)" by force
  then have "dm k1 = dm k" using services_keep' (1) by blast
  then show "dm (snd (case r_get (lb_services A) ns n k of
         (Inl e, k) \<Rightarrow> (Err (ApiFailed e), k)
       | (Inr current, k) \<Rightarrow>
           if sv_annotations current lb_managed_ips = None then (Ok (), k)
           else (case r_update (lb_services A)
               (current\<lparr>sv_annotations := (sv_annotations current)(lb_managed_ips := None)\<rparr>) k of
             (Inl e, k) \<Rightarrow> (Err (ApiFailed e), k) | (Inr _, k) \<Rightarrow> (Ok (), k)))) = dm k"
    using g by (cases res) (simp_all add: services_keep)
qed

lemmas service_calls_keep = remove_external_ips_daemon_sets set_ingress_daemon_sets remove_annotation_daemon_sets

lemma service_calls_keep':
  "remove_external_ips A s managed k = (r1, k') \<Longrightarrow> dm k' = dm k"
  "set_ingress A s new k = (r1, k') \<Longrightarrow> dm k' = dm k"
  "remove_annotation A ns n k = (r2, k') \<Longrightarrow> dm k' = dm k"
  using service_calls_keep by (metis snd_conv)+

lemma reconcile_service_daemon_sets: "dm (snd (reconcile_service A s ips k)) = dm k"
proof -
  have once: "dm (snd (reconcile_once A c ips k)) = dm k" for c k
    by (auto simp: reconcile_once_def Let_def service_calls_keep split: prod.split sum.split dest!: service_calls_keep')
  show ?thesis
    unfolding reconcile_service_def
    by (simp split: if_split) (intro impI retry_daemon_sets,
       auto simp: once split: prod.split sum.split dest!: services_keep')
qed

lemma cleanup_service_daemon_sets: "dm (snd (cleanup_service A s k)) = dm k"
  unfolding cleanup_service_def
  by (simp split: if_split) (intro impI retry_daemon_sets,
     auto simp: service_calls_keep split: prod.split sum.split dest!: services_keep' service_calls_keep')

lemma services_grow: "cleanup_service A s k = (res, k') \<Longrightarrow> lb_grows A sv dm k k'"
  "reconcile_service A s ips k = (res, k') \<Longrightarrow> lb_grows A sv dm k k'"
  using cleanup_service_effect [of s k res k'] cleanup_service_daemon_sets [of s k]
    reconcile_service_effect [of s ips k res k'] reconcile_service_daemon_sets [of s ips k]
  by (auto intro: lb_grows_same)

lemma round_of_service_effect:
  assumes "round_of_service A img nodes existing s k = (errs, k')"
  shows "lb_grows A sv dm k k' \<and> (errs = [] \<longrightarrow> lb_manages s \<longrightarrow> has_owned dm k' (lb_namespace, daemon_set_name (lb_sha A) s))"
proof (cases "lb_manages s")
  case False
  then show ?thesis
    using assms services_grow(1) lb_grows_refl by (auto simp: round_of_service_def split: if_splits prod.splits)
next
  case True
  show ?thesis
  proof (cases "build_daemon_set (lb_sha A) s img")
    case (Inl e)
    with assms True lb_grows_refl show ?thesis by (auto simp: round_of_service_def)
  next
    case (Inr d)
    obtain res1 k1 where c: "create_or_update A d k = (res1, k1)" by force
    note c1 = create_or_update_effect [OF c conjunct1 [OF build_owned [OF Inr]]]
    obtain res2 k2 where i: "ready_proxy_node_ips A s nodes k1 = (res2, k2)" by force
    have "lb_grows A sv dm k1 k2" using node_ips_keep [OF i] by (intro lb_grows_same lb_safe_same) simp_all
    then have k2: "lb_grows A sv dm k k2" using c1 lb_grows_trans [of A sv dm k k1 k2] by blast
    show ?thesis
    proof (cases "\<exists>u ips. res1 = Inr u \<and> res2 = Inr ips")
      case False
      then have "errs \<noteq> []" "k' = k1 \<or> k' = k2"
        using assms True Inr c i by (auto simp: round_of_service_def split: sum.splits)
      then show ?thesis using c1 k2 by auto
    next
      case ok: True
      then obtain u ips where "res1 = Inr ()" "res2 = Inr ips" by auto
      then obtain res3 where "reconcile_service A s ips k2 = (res3, k')"
        using assms True Inr c i by (auto simp: round_of_service_def split: prod.splits)
      then have "lb_grows A sv dm k2 k'" by (rule services_grow(2))
      then have "lb_grows A sv dm k k'" "lb_grows A sv dm k1 k'"
        using k2 \<open>lb_grows A sv dm k1 k2\<close> lb_grows_trans [of A sv dm _ k2 k'] by blast+
      then show ?thesis using c1 \<open>res1 = Inr ()\<close> build_owned [OF Inr] by (simp add: lb_grows_def)
    qed
  qed
qed

lemma round_of_services_effect:
  assumes "round_of_services A img nodes existing ss k = (errs, k')"
  shows "lb_grows A sv dm k k' \<and> (errs = [] \<longrightarrow>
    (\<forall>s \<in> set ss. lb_manages s \<longrightarrow> has_owned dm k' (lb_namespace, daemon_set_name (lb_sha A) s)))"
  using assms
proof (induction ss arbitrary: k errs)
  case Nil
  then show ?case by (simp add: lb_grows_refl)
next
  case (Cons s ss)
  obtain errs1 k1 where one: "round_of_service A img nodes existing s k = (errs1, k1)" by force
  obtain errs2 where rest: "round_of_services A img nodes existing ss k1 = (errs2, k')" and e: "errs = errs1 @ errs2"
    using Cons.prems one by (auto split: prod.splits)
  note a = round_of_service_effect [OF one] and b = Cons.IH [OF rest]
  have "lb_grows A sv dm k k'" using a b lb_grows_trans [of A sv dm k k1 k'] by blast
  with a b e show ?case by (auto simp: lb_grows_def)
qed

lemma cleanup_orphans_effect:
  assumes "cleanup_orphans A desired k = (errs, k')"
  shows "lb_safe A sv dm k k'" and "errs = [] \<Longrightarrow>
    (\<forall>d. lb_owned d \<and> dm k' (ds_key d) = Some d \<longrightarrow> ds_name d \<in> set desired) \<and>
    (\<forall>n \<in> set desired. has_owned dm k (lb_namespace, n) \<longrightarrow> has_owned dm k' (lb_namespace, n))"
proof -
  obtain res k1 where l: "list_daemon_sets A k = (res, k1)" by force
  note same = list_daemon_sets_ok(1) [OF l]
  have kk1: "lb_safe A sv dm k k1" using same by (intro lb_safe_same) simp_all
  have "lb_safe A sv dm k k' \<and> (errs = [] \<longrightarrow>
    (\<forall>d. lb_owned d \<and> dm k' (ds_key d) = Some d \<longrightarrow> ds_name d \<in> set desired) \<and>
    (\<forall>n \<in> set desired. has_owned dm k (lb_namespace, n) \<longrightarrow> has_owned dm k' (lb_namespace, n)))"
  proof (cases res)
    case (Inl e)
    with assms l kk1 show ?thesis by (auto simp: cleanup_orphans_def)
  next
    case (Inr ds)
    let ?ds = "filter (\<lambda>d. ds_name d \<notin> set desired) ds"
    have ds: "set ds = {d. lb_owned d \<and> dm k (ds_key d) = Some d}" by (rule list_daemon_sets_ok(2) [OF l Inr])
    have del: "delete_daemon_sets A ?ds k1 = (errs, k')" using assms l Inr by (simp add: cleanup_orphans_def)
    have eff: "sv k' = sv k1 \<and> lb_safe A sv dm k1 k' \<and> (\<forall>q. dm k' q = dm k1 q \<or> dm k' q = None \<and> q \<in> ds_key ` set ?ds) \<and>
      (errs = [] \<longrightarrow> (\<forall>d \<in> set ?ds. dm k' (ds_key d) = None))"
      by (rule delete_daemon_sets_effect [OF del]) (use same ds in auto)
    have "lb_safe A sv dm k k'" using kk1 eff lb_safe_trans [of A sv dm k k1 k'] by blast
    moreover have "ds_name d \<in> set desired" if "errs = []" "lb_owned d" "dm k' (ds_key d) = Some d" for d
    proof (rule ccontr)
      assume no: "ds_name d \<notin> set desired"
      have "dm k (ds_key d) = Some d" using eff same that(3) by (metis option.distinct(1))
      then have "d \<in> set ?ds" using ds that(2) no by simp
      with eff that show False by (metis option.distinct(1))
    qed
    moreover have "has_owned dm k' (lb_namespace, n)" if n: "n \<in> set desired" and h: "has_owned dm k (lb_namespace, n)" for n
    proof -
      have "(lb_namespace, n) \<notin> ds_key ` set ?ds" using n by auto
      then have "dm k' (lb_namespace, n) = dm k (lb_namespace, n)" using eff same by metis
      with h show ?thesis by (simp add: has_owned_def)
    qed
    ultimately show ?thesis by blast
  qed
  then show "lb_safe A sv dm k k'" and "errs = [] \<Longrightarrow>
    (\<forall>d. lb_owned d \<and> dm k' (ds_key d) = Some d \<longrightarrow> ds_name d \<in> set desired) \<and>
    (\<forall>n \<in> set desired. has_owned dm k (lb_namespace, n) \<longrightarrow> has_owned dm k' (lb_namespace, n))" by blast+
qed

lemma list_all_services_ok:
  assumes "list_all_services A k = (res, k')"
  shows "sv k' = sv k \<and> dm k' = dm k" and "res = Inr ss \<Longrightarrow> set ss = {s. sv k (service_key s) = Some s}"
proof -
  obtain r where l: "r_list (lb_services A) (\<lambda>_. True) k = (r, k')" "res = (case r of Inl e \<Rightarrow> Err (ApiFailed e) | Inr ds \<Rightarrow> Ok ds)"
    using assms by (auto simp: list_all_services_def split: prod.splits sum.splits)
  then show "sv k' = sv k \<and> dm k' = dm k" using services_keep' (2) by blast
  show "res = Inr ss \<Longrightarrow> set ss = {s. sv k (service_key s) = Some s}"
    using l SV.list_ok by (auto split: sum.splits)
qed

lemma reconcile_lb_effect:
  assumes "reconcile_lb A img k = (errs, k')"
  shows "lb_safe A sv dm k k'" and "errs = [] \<Longrightarrow>
    (\<forall>d. lb_owned d \<and> dm k' (ds_key d) = Some d \<longrightarrow>
       (\<exists>s. sv k (service_key s) = Some s \<and> lb_manages s \<and> ds_name d = daemon_set_name (lb_sha A) s)) \<and>
    (\<forall>s. sv k (service_key s) = Some s \<and> lb_manages s \<longrightarrow> has_owned dm k' (lb_namespace, daemon_set_name (lb_sha A) s))"
proof -
  let ?goal = "\<lambda>errs k'. lb_safe A sv dm k k' \<and> (errs = [] \<longrightarrow>
    (\<forall>d. lb_owned d \<and> dm k' (ds_key d) = Some d \<longrightarrow>
       (\<exists>s. sv k (service_key s) = Some s \<and> lb_manages s \<and> ds_name d = daemon_set_name (lb_sha A) s)) \<and>
    (\<forall>s. sv k (service_key s) = Some s \<and> lb_manages s \<longrightarrow> has_owned dm k' (lb_namespace, daemon_set_name (lb_sha A) s)))"
  define img' where "img' = (if trim_space img = [] then default_lb_image else img)"
  obtain r1 k1 where n: "lb_nodes A k = (r1, k1)" by force
  obtain r2 k2 where sl: "list_all_services A k1 = (r2, k2)" by force
  obtain r3 k3 where dl: "list_daemon_sets A k2 = (r3, k3)" by force
  have sv3: "sv k1 = sv k \<and> sv k2 = sv k \<and> sv k3 = sv k" and dm3: "dm k1 = dm k \<and> dm k2 = dm k \<and> dm k3 = dm k"
    using reads_keep' (3) [OF n] list_all_services_ok(1) [OF sl] list_daemon_sets_ok(1) [OF dl] by simp_all
  have safe: "lb_safe A sv dm k k1" "lb_safe A sv dm k k2" "lb_safe A sv dm k k3"
    using sv3 dm3 by (intro lb_safe_same; simp)+
  have "?goal errs k'"
  proof (cases "\<exists>nodes services ds. r1 = Inr nodes \<and> r2 = Inr services \<and> r3 = Inr ds")
    case False
    then have "errs \<noteq> [] \<and> (k' = k1 \<or> k' = k2 \<or> k' = k3)"
      using assms n sl dl by (auto simp: reconcile_lb_def Let_def split: sum.splits)
    with safe show ?thesis by blast
  next
    case True
    then obtain nodes services ds where r: "r1 = Inr nodes" "r2 = Inr services" "r3 = Inr ds" by blast
    obtain errs1 k4 where ro: "round_of_services A img' nodes (map ds_name ds) services k3 = (errs1, k4)" by force
    let ?desired = "map (daemon_set_name (lb_sha A)) (filter lb_manages services)"
    obtain errs2 where co: "cleanup_orphans A ?desired k4 = (errs2, k')" and e: "errs = errs1 @ errs2"
      using assms n sl dl r ro by (auto simp: reconcile_lb_def Let_def img'_def split: prod.splits)
    note a = round_of_services_effect [OF ro] and b = cleanup_orphans_effect [OF co]
    have ss: "set services = {s. sv k (service_key s) = Some s}" using list_all_services_ok(2) [OF sl r(2)] sv3 by simp
    have "lb_safe A sv dm k k'"
      using safe(3) a b(1) lb_safe_trans [of A sv dm k k3 k4] lb_safe_trans [of A sv dm k k4 k'] by (simp add: lb_grows_def)
    moreover have "\<exists>s. sv k (service_key s) = Some s \<and> lb_manages s \<and> ds_name d = daemon_set_name (lb_sha A) s"
      if "errs = []" "lb_owned d" "dm k' (ds_key d) = Some d" for d
    proof -
      have "ds_name d \<in> set ?desired" using b(2) e that by blast
      then show ?thesis using ss by auto
    qed
    moreover have "has_owned dm k' (lb_namespace, daemon_set_name (lb_sha A) s)"
      if "errs = []" "sv k (service_key s) = Some s" "lb_manages s" for s
    proof -
      have "s \<in> set services" using ss that by simp
      then show ?thesis using a b(2) e that by auto
    qed
    ultimately show ?thesis by blast
  qed
  then show "lb_safe A sv dm k k'" and "errs = [] \<Longrightarrow>
    (\<forall>d. lb_owned d \<and> dm k' (ds_key d) = Some d \<longrightarrow>
       (\<exists>s. sv k (service_key s) = Some s \<and> lb_manages s \<and> ds_name d = daemon_set_name (lb_sha A) s)) \<and>
    (\<forall>s. sv k (service_key s) = Some s \<and> lb_manages s \<longrightarrow> has_owned dm k' (lb_namespace, daemon_set_name (lb_sha A) s))"
    by blast+
qed

text \<open>Turning the controller off: as careful, and nothing of its own is left.\<close>

lemma cleanup_services_effect:
  "cleanup_services A ss k = (errs, k') \<Longrightarrow> lb_safe A sv dm k k' \<and> dm k' = dm k"
proof (induction ss arbitrary: k errs)
  case Nil
  then show ?case by (simp add: lb_safe_refl)
next
  case (Cons s ss)
  obtain res k1 where one: "cleanup_service A s k = (res, k1)" by force
  obtain errs2 where "cleanup_services A ss k1 = (errs2, k')"
    using Cons.prems one by (auto split: prod.splits)
  from Cons.IH [OF this] cleanup_service_effect [OF one] cleanup_service_daemon_sets [of s k] one
    lb_safe_trans [of A sv dm k k1 k']
  show ?case by simp
qed

lemma cleanup_lb_effect:
  assumes "cleanup_lb A k = (errs, k')"
  shows "lb_safe A sv dm k k' \<and> (errs = [] \<longrightarrow> (\<forall>q. \<not> has_owned dm k' q \<or> fst q \<noteq> lb_namespace))"
proof -
  obtain r1 k1 where dl: "list_daemon_sets A k = (r1, k1)" by force
  obtain r2 k2 where sl: "list_all_services A k1 = (r2, k2)" by force
  have sv2: "sv k1 = sv k \<and> sv k2 = sv k" and dm2: "dm k1 = dm k \<and> dm k2 = dm k"
    using list_all_services_ok(1) [OF sl] list_daemon_sets_ok(1) [OF dl] by simp_all
  have safe: "lb_safe A sv dm k k1" "lb_safe A sv dm k k2" using sv2 dm2 by (intro lb_safe_same; simp)+
  show ?thesis
  proof (cases "\<exists>services ds. r2 = Inr services \<and> r1 = Inr ds")
    case False
    then have "errs \<noteq> [] \<and> (k' = k1 \<or> k' = k2)"
      using assms sl dl by (auto simp: cleanup_lb_def Let_def split: sum.splits)
    with safe show ?thesis by blast
  next
    case True
    then obtain services ds where r: "r2 = Inr services" "r1 = Inr ds" by blast
    obtain errs1 k3 where cs: "cleanup_services A (filter (has_traces A (map ds_name ds)) services) k2 = (errs1, k3)"
      by force
    obtain errs2 where del: "delete_daemon_sets A ds k3 = (errs2, k')" and e: "errs = errs1 @ errs2"
      using assms sl dl r cs by (auto simp: cleanup_lb_def split: prod.splits)
    have ds: "set ds = {d. lb_owned d \<and> dm k (ds_key d) = Some d}" by (rule list_daemon_sets_ok(2) [OF dl r(2)])
    note c = cleanup_services_effect [OF cs]
    have eff: "sv k' = sv k3 \<and> lb_safe A sv dm k3 k' \<and> (\<forall>q. dm k' q = dm k3 q \<or> dm k' q = None \<and> q \<in> ds_key ` set ds) \<and>
      (errs2 = [] \<longrightarrow> (\<forall>d \<in> set ds. dm k' (ds_key d) = None))"
      by (rule delete_daemon_sets_effect [OF del]) (use dm2 c ds in auto)
    have "lb_safe A sv dm k k'"
      using safe(2) c eff lb_safe_trans [of A sv dm k k2 k3] lb_safe_trans [of A sv dm k k3 k'] by blast
    moreover have "\<not> has_owned dm k' q" if "errs = []" for q
    proof
      assume "has_owned dm k' q"
      then obtain d where d: "dm k' q = Some d" "lb_owned d" by (auto simp: has_owned_def)
      then have "dm k q = Some d" using eff c dm2 by (metis option.distinct(1))
      moreover from this have "ds_key d = q" by (rule DS.stored_key)
      ultimately have "d \<in> set ds" using d ds by simp
      with eff e that d \<open>ds_key d = q\<close> show False by (metis append_is_Nil_conv option.distinct(1))
    qed
    ultimately show ?thesis by blast
  qed
qed

end

section \<open>A cluster in memory\<close>

record lb_memory =
  mem_services :: "service kmem"
  mem_daemon_sets :: "daemon_set kmem"

definition lb_memory_api ::
  "pod list \<Rightarrow> endpoint_slice list \<Rightarrow> kube_node list \<Rightarrow> (string \<Rightarrow> string) \<Rightarrow> (string \<Rightarrow> string list option)
     \<Rightarrow> (daemon_set \<Rightarrow> daemon_set \<Rightarrow> bool) \<Rightarrow> lb_memory lb_api" where
  "lb_memory_api pods slices nodes sha decode same =
     \<lparr>lb_services = mem_resource mem_services (\<lambda>m k. k\<lparr>mem_services := m\<rparr>) (\<lambda>s. (sv_ns s, sv_name s))
        (\<lambda>s old. s\<lparr>sv_ingress := sv_ingress old\<rparr>)
        (\<lambda>s old. old\<lparr>sv_ns := sv_ns s, sv_name := sv_name s, sv_ingress := sv_ingress s\<rparr>),
      lb_daemon_sets = mem_resource mem_daemon_sets (\<lambda>m k. k\<lparr>mem_daemon_sets := m\<rparr>) (\<lambda>d. (ds_ns d, ds_name d))
        (\<lambda>d old. d) (\<lambda>d old. old\<lparr>ds_ns := ds_ns d, ds_name := ds_name d\<rparr>),
      lb_pods = (\<lambda>p k. (Inr (filter p pods), k)), lb_slices = (\<lambda>p k. (Inr (filter p slices), k)),
      lb_nodes = (\<lambda>k. (Inr nodes, k)), lb_sha = sha, lb_decode = decode, lb_same_spec = same\<rparr>"

abbreviation (input) memory_services :: "lb_memory \<Rightarrow> string \<times> string \<Rightarrow> service option" where
  "memory_services \<equiv> \<lambda>k. kobjects (\<lambda>s. (sv_ns s, sv_name s)) (mem_services k)"

abbreviation (input) memory_daemon_sets :: "lb_memory \<Rightarrow> string \<times> string \<Rightarrow> daemon_set option" where
  "memory_daemon_sets \<equiv> \<lambda>k. kobjects (\<lambda>d. (ds_ns d, ds_name d)) (mem_daemon_sets k)"

lemma mem_resource_other:
  assumes "\<And>m k. other (put m k) = other k"
  shows "other (snd (r_get (mem_resource get put key wm ws) ns n k)) = other k"
    "other (snd (r_list (mem_resource get put key wm ws) p k)) = other k"
    "other (snd (r_create (mem_resource get put key wm ws) obj k)) = other k"
    "other (snd (r_update (mem_resource get put key wm ws) obj k)) = other k"
    "other (snd (r_update_status (mem_resource get put key wm ws) obj k)) = other k"
    "other (snd (r_delete (mem_resource get put key wm ws) ns n k)) = other k"
  using assms by (simp_all add: mem_resource_def Let_def split: prod.splits option.splits api_error.splits)

interpretation lb_memory: lb_server "lb_memory_api pods slices nodes sha decode same" memory_services memory_daemon_sets
  for pods slices nodes sha decode same
proof (intro lb_server.intro lb_server_axioms.intro)
  show "kube_resource (lb_services (lb_memory_api pods slices nodes sha decode same)) memory_services
      (\<lambda>s. (sv_ns s, sv_name s)) service_main sv_ingress"
    unfolding lb_memory_api_def by simp (rule mem_resource_laws; simp add: service_main_def)
  show "kube_resource (lb_daemon_sets (lb_memory_api pods slices nodes sha decode same)) memory_daemon_sets
      (\<lambda>d. (ds_ns d, ds_name d)) ds_main (\<lambda>_. ())"
    unfolding lb_memory_api_def by simp (rule mem_resource_laws; simp add: ds_main_def)
qed (simp_all add: lb_memory_api_def mem_resource_other)

section \<open>What the load balancer promises\<close>

text \<open>A cluster to try it on: one Service with an address an earlier version put there.\<close>

definition sample_service :: service where
  "sample_service = \<lparr>sv_ns = ''default'', sv_name = ''web'', sv_uid = ''u1'', sv_version = ''7'',
     sv_annotations = [lb_managed_ips \<mapsto> ''10.0.0.9''], sv_deleting = False, sv_type = ''LoadBalancer'', sv_class = None,
     sv_ports = [\<lparr>sp_name = ''http'', sp_protocol = ''TCP'', sp_port = 80, sp_node_port = 30080\<rparr>],
     sv_source_ranges = [], sv_families = [''IPv4''], sv_traffic = [], sv_cluster_ip = ''10.96.0.5'',
     sv_cluster_ips = [], sv_external_ips = [''10.0.0.9'', ''192.0.2.1''], sv_ingress = []\<rparr>"

definition sample_cluster :: lb_memory where
  "sample_cluster = \<lparr>mem_services = \<lparr>kobjs = [sample_service], kfaults = []\<rparr>, mem_daemon_sets = \<lparr>kobjs = [], kfaults = []\<rparr>\<rparr>"

definition sample_lb_api :: "lb_memory lb_api" where
  "sample_lb_api = lb_memory_api [] [] [] (\<lambda>_. ''0123456789abcdef'') (\<lambda>t. Some [t]) (\<lambda>_ _. False)"

lemma sample_server: "lb_server sample_lb_api memory_services memory_daemon_sets"
  unfolding sample_lb_api_def by (rule lb_memory.lb_server_axioms)

lemmas sample_defs = sample_lb_api_def lb_memory_api_def sample_cluster_def sample_service_def mem_resource_def
  kobjects_def kput_def kfault_def lb_manages_def value_at_def lb_managed_ips_def lb_disabled_def

lemmas service_defs = reconcile_service_def reconcile_once_def remove_external_ips_def set_ingress_def
  remove_annotation_def managed_ips_def default_retry_def

lemma sample_settles:
  "fst (reconcile_service sample_lb_api sample_service [''192.0.2.7''] sample_cluster) = Inr ()"
  by (simp add: sample_defs service_defs eval_nat_numeral unique_strings_def ip_ingress_def Let_def)

lemma sample_round: "fst (reconcile_lb sample_lb_api ''proxy:1'' sample_cluster) = []"
proof -
  let ?sha = "\<lambda>_. ''0123456789abcdef''"
  have "\<not> isl (build_daemon_set ?sha sample_service ''proxy:1'')" by code_simp
  then obtain d where d: "build_daemon_set ?sha sample_service ''proxy:1'' = Inr d"
    by (cases "build_daemon_set ?sha sample_service ''proxy:1''") auto
  note key = lb_memory.build_owned [OF d]
  have "trim_space ''proxy:1'' \<noteq> []" by code_simp
  with d key show ?thesis
    by (simp add: reconcile_lb_def round_of_service_def list_all_services_def list_daemon_sets_def create_or_update_def
        cleanup_orphans_def ready_proxy_node_ips_def ready_proxy_addresses_def serving_addresses_def
        sample_defs service_defs eval_nat_numeral unique_strings_def error_list_def lb_namespace_def Let_def)
qed

text \<open>
  C14: a round of the load balancer and its cleanup, whatever call fails, never touch what users
  own: every Service stays, with nothing changed but its version, its status, the annotation of
  earlier versions and the external addresses that this annotation lists, and every DaemonSet
  that is not the controller's stays as it is.
\<close>

theorem lb_never_harms:
  assumes "lb_server A sv dm" and "run = reconcile_lb A img \<or> run = cleanup_lb A"
  shows "lb_safe A sv dm k (snd (run k))"
proof -
  note eff = lb_server.reconcile_lb_effect(1) [OF assms(1), of img k] lb_server.cleanup_lb_effect [OF assms(1), of k]
  show ?thesis using assms(2) eff by (metis prod.collapse)
qed

theorem lb_never_harms_witness:
  "lb_safe sample_lb_api memory_services memory_daemon_sets sample_cluster
     (snd (reconcile_lb sample_lb_api ''proxy:1'' sample_cluster))"
  by (rule lb_never_harms [OF sample_server, where img = "''proxy:1''"]) simp

text \<open>
  Reconciling a Service the controller manages, when it reports no error, leaves exactly the
  given addresses as its status, each once, with the addresses and the annotation of earlier
  versions removed and the rest of the Service as it was.
\<close>

theorem status_published:
  assumes "lb_server A sv dm" and "reconcile_service A s0 ips k = (Inr (), k')" and "\<not> sv_deleting s0"
    and "sv k (sv_ns s0, sv_name s0) = Some s" and "lb_manages s" and "\<not> sv_deleting s"
  shows "\<exists>s'. sv k' (sv_ns s0, sv_name s0) = Some s' \<and> settled A s (map ip_ingress (unique_strings ips)) s'"
  using lb_server.reconcile_service_effect [OF assms(1,2)] assms by blast

theorem status_published_witness:
  "\<exists>k' s'. reconcile_service sample_lb_api sample_service [''192.0.2.7''] sample_cluster = (Inr (), k') \<and>
     memory_services k' (''default'', ''web'') = Some s' \<and>
     settled sample_lb_api sample_service (map ip_ingress (unique_strings [''192.0.2.7''])) s'"
proof -
  have "fst (reconcile_service sample_lb_api sample_service [''192.0.2.7''] sample_cluster) = Inr ()"
    using sample_settles .
  then obtain k' where r: "reconcile_service sample_lb_api sample_service [''192.0.2.7''] sample_cluster = (Inr (), k')"
    by (metis prod.collapse)
  have "memory_services sample_cluster (sv_ns sample_service, sv_name sample_service) = Some sample_service"
    by (simp add: sample_cluster_def kobjects_def)
  moreover have "lb_manages sample_service" "\<not> sv_deleting sample_service" by (simp_all add: sample_defs)
  ultimately show ?thesis using status_published [OF sample_server r] r by (simp add: sample_service_def)
qed

text \<open>
  C15: after a round without an error the DaemonSets of the controller are exactly those of the
  Services it manages: none is missing and none is left over.
\<close>

theorem round_converges:
  assumes "lb_server A sv dm" and "reconcile_lb A img k = ([], k')"
  shows "{n. has_owned dm k' (lb_namespace, n)} =
    {daemon_set_name (lb_sha A) s |s. sv k (sv_ns s, sv_name s) = Some s \<and> lb_manages s}"
proof -
  note eff = lb_server.reconcile_lb_effect(2) [OF assms refl]
  have key: "ds_ns d = ns \<and> ds_name d = n" if "dm k' (ns, n) = Some d" for ns n d
    using kube_resource.stored_key [OF lb_server.axioms(2) [OF assms(1)] that] by simp
  show ?thesis
  proof (intro subset_antisym subsetI)
    fix n assume "n \<in> {n. has_owned dm k' (lb_namespace, n)}"
    then obtain d where d: "dm k' (lb_namespace, n) = Some d" "lb_owned d" by (auto simp: has_owned_def)
    with key [OF d(1)] obtain s where "sv k (sv_ns s, sv_name s) = Some s" "lb_manages s" "n = daemon_set_name (lb_sha A) s"
      using eff by metis
    then show "n \<in> {daemon_set_name (lb_sha A) s |s. sv k (sv_ns s, sv_name s) = Some s \<and> lb_manages s}" by blast
  qed (use eff in blast)
qed

theorem round_converges_witness:
  "\<exists>k'. reconcile_lb sample_lb_api ''proxy:1'' sample_cluster = ([], k') \<and>
     {n. has_owned memory_daemon_sets k' (lb_namespace, n)} =
     {daemon_set_name (lb_sha sample_lb_api) s |s. memory_services sample_cluster (sv_ns s, sv_name s) = Some s \<and> lb_manages s}"
proof -
  have "fst (reconcile_lb sample_lb_api ''proxy:1'' sample_cluster) = []"
    using sample_round .
  then obtain k' where "reconcile_lb sample_lb_api ''proxy:1'' sample_cluster = ([], k')" by (metis prod.collapse)
  with round_converges [OF sample_server this] show ?thesis by blast
qed

end
