(* ===== verification/Admission.thy ===== *)
theory Admission
  imports GoStrings "HOL-Library.Multiset"
begin

text \<open>
  The two webhooks of the API server: validating admission (server/admission.go), authorization
  (server/authorization.go), the record of refused requests (server/admission\_denials.go) and the
  enforcers behind them (object/casbin\_enforcer.go). The Casbin library, the decoding of JSON and
  \<open>%q\<close> are parameters. The order in which Go visits a map is an argument of each call that
  depends on it.
\<close>

section \<open>Refused requests\<close>

record denial =
  dn_subject :: string
  dn_namespace :: string
  dn_resource :: string
  dn_operation :: string
  dn_message :: string
  dn_count :: int
  dn_first :: int
  dn_last :: int

type_synonym denials = "(string \<times> denial) list"

definition max_denials :: nat where "max_denials = 512"

definition denial_key :: "string \<Rightarrow> string \<Rightarrow> string \<Rightarrow> string \<Rightarrow> string" where
  "denial_key subject ns res oper = subject @ [CHR 0x00] @ ns @ [CHR 0x00] @ res @ [CHR 0x00] @ oper"

fun oldest_key :: "string \<Rightarrow> int \<Rightarrow> denials \<Rightarrow> string" where
  "oldest_key key oldest [] = key"
| "oldest_key key oldest ((k, d) # ds) =
     (if key = [] \<or> dn_last d < oldest then oldest_key k (dn_last d) ds else oldest_key key oldest ds)"

definition evict_oldest :: "(denials \<Rightarrow> denials) \<Rightarrow> denials \<Rightarrow> denials" where
  "evict_oldest order ds = (let key = oldest_key [] 0 (order ds) in filter (\<lambda>(k, d). k \<noteq> key) ds)"

definition record_denial ::
  "int \<Rightarrow> (denials \<Rightarrow> denials) \<Rightarrow> string \<Rightarrow> string \<Rightarrow> string \<Rightarrow> string \<Rightarrow> string \<Rightarrow> denials \<Rightarrow> denials" where
  "record_denial now1 order subject ns res oper message ds =
     (if subject = [] then ds
      else
        (let key = denial_key subject ns res oper in
         if key \<in> fst ` set ds then
           map (\<lambda>(k, d). (k, if k = key then d\<lparr>dn_message := message, dn_count := dn_count d + 1, dn_last := now1\<rparr> else d)) ds
         else
           (if length ds \<ge> max_denials then evict_oldest order ds else ds) @
           [(key, \<lparr>dn_subject = subject, dn_namespace = ns, dn_resource = res, dn_operation = oper,
                   dn_message = message, dn_count = 1, dn_first = now1, dn_last = now1\<rparr>)]))"

definition denials_for :: "(denials \<Rightarrow> denials) \<Rightarrow> string \<Rightarrow> denials \<Rightarrow> denial list" where
  "denials_for order subject ds =
     sort_key (\<lambda>d. - dn_last d) (filter (\<lambda>d. dn_subject d = subject) (map snd (order ds)))"

definition list_denials :: "(denials \<Rightarrow> denials) \<Rightarrow> denials \<Rightarrow> denial list" where
  "list_denials order ds = sort_key (\<lambda>d. - dn_last d) (map snd (order ds))"

definition clear_denials :: "denials \<Rightarrow> denials" where "clear_denials ds = []"

section \<open>The enforcers\<close>

record casbin_rule =
  cr_scope :: string
  cr_ptype :: string
  cr_v0 :: string
  cr_v1 :: string
  cr_v2 :: string
  cr_v3 :: string
  cr_v4 :: string

definition policy_line :: "casbin_rule \<Rightarrow> string" where
  "policy_line r =
     (if cr_ptype r = ''p'' then
        (let eft = (if cr_v4 r = [] then ''allow'' else cr_v4 r) in
         ''p, '' @ cr_v0 r @ '', '' @ cr_v1 r @ '', '' @ cr_v2 r @ '', '' @ cr_v3 r @ '', '' @ eft)
      else ''g, '' @ cr_v0 r @ '', '' @ cr_v1 r)"

text \<open>What is used of Casbin: an enforcer from the lines of a policy, and its decision.\<close>

record 'e casbin =
  cb_new :: "string list \<Rightarrow> string + 'e"
  cb_enforce :: "'e \<Rightarrow> string \<Rightarrow> string \<Rightarrow> string \<Rightarrow> string \<Rightarrow> bool \<times> string option"

record 'e enforcers =
  en_admission :: "'e option"
  en_authorization :: "'e option"

definition scoped_reload :: "'e casbin \<Rightarrow> string + casbin_rule list \<Rightarrow> 'e option \<Rightarrow> string option \<times> 'e option" where
  "scoped_reload C rules old =
     (case rules of
        Inl e \<Rightarrow> (Some e, old)
      | Inr rs \<Rightarrow> (case cb_new C (map policy_line rs) of Inl e \<Rightarrow> (Some e, old) | Inr e \<Rightarrow> (None, Some e)))"

definition scoped_enforce ::
  "'e casbin \<Rightarrow> 'e option \<Rightarrow> string \<Rightarrow> string \<Rightarrow> string \<Rightarrow> string \<Rightarrow> bool \<times> string option" where
  "scoped_enforce C enf user ns res act = (case enf of None \<Rightarrow> (True, None) | Some e \<Rightarrow> cb_enforce C e user ns res act)"

definition reload_enforcer ::
  "'e casbin \<Rightarrow> (string \<Rightarrow> string + casbin_rule list) \<Rightarrow> string \<Rightarrow> 'e enforcers \<Rightarrow> string option \<times> 'e enforcers" where
  "reload_enforcer C rules_of scope es =
     (if scope = ''admission'' then
        (let (err, e) = scoped_reload C (rules_of scope) (en_admission es) in (err, es\<lparr>en_admission := e\<rparr>))
      else if scope = ''authorization'' then
        (let (err, e) = scoped_reload C (rules_of scope) (en_authorization es) in (err, es\<lparr>en_authorization := e\<rparr>))
      else (None, es))"

definition reload_all :: "'e casbin \<Rightarrow> (string \<Rightarrow> string + casbin_rule list) \<Rightarrow> 'e enforcers \<Rightarrow> string option \<times> 'e enforcers" where
  "reload_all C rules_of es =
     (let (err, es) = reload_enforcer C rules_of ''admission'' es in
      if err \<noteq> None then (err, es) else reload_enforcer C rules_of ''authorization'' es)"

section \<open>The webhooks\<close>

definition pseudo_groups :: "string list" where
  "pseudo_groups = [''system:authenticated'', ''system:unauthenticated'']"

definition is_reserved_identity :: "string \<Rightarrow> string list \<Rightarrow> bool" where
  "is_reserved_identity user groups \<longleftrightarrow>
     has_prefix user ''system:'' \<or> list_ex (\<lambda>g. has_prefix g ''system:'' \<and> g \<notin> set pseudo_groups) groups"

definition is_system_user :: "string \<Rightarrow> string list \<Rightarrow> bool" where
  "is_system_user user groups \<longleftrightarrow> has_prefix user ''system:'' \<or> list_ex (\<lambda>g. has_prefix g ''system:'') groups"

text \<open>What a handler does: refuse the request with a status, fail on a nil pointer, or answer.\<close>

datatype 'a handled = Refused int | Panics | Answered 'a

record admission_request =
  ar_uid :: string
  ar_user :: string
  ar_groups :: "string list"
  ar_namespace :: string
  ar_resource :: string
  ar_operation :: string
  ar_object :: string

record admission_answer =
  aa_uid :: string
  aa_allowed :: bool
  aa_message :: "string option"

record 'e webhooks =
  wh_enforcers :: "'e enforcers"
  wh_denials :: denials

definition namespace_or_any :: "string \<Rightarrow> string" where
  "namespace_or_any ns = (if ns = [] then ''*'' else ns)"

definition denial_message :: "(string \<Rightarrow> string) \<Rightarrow> string \<Rightarrow> string \<Rightarrow> string \<Rightarrow> string \<Rightarrow> string option \<Rightarrow> string" where
  "denial_message quoted user ns res oper err =
     (case err of
        Some e \<Rightarrow> ''Casbin admission policy could not be evaluated: '' @ e
      | None \<Rightarrow> ''denied by Casbin admission policy: no allow rule matches sub='' @ quoted user @ '' ns='' @ quoted ns
          @ '' resource='' @ quoted res @ '' action='' @ quoted oper)"

text \<open>The answer to a decoded request, the state after it, and the pod handed to the scanner.\<close>

definition admission_review ::
  "'e casbin \<Rightarrow> (string \<Rightarrow> string) \<Rightarrow> int \<Rightarrow> (denials \<Rightarrow> denials) \<Rightarrow> admission_request \<Rightarrow> 'e webhooks
     \<Rightarrow> admission_answer \<times> 'e webhooks \<times> string option" where
  "admission_review C quoted now1 order req st =
     (let ns = namespace_or_any (ar_namespace req);
          (allowed, err) = (if is_reserved_identity (ar_user req) (ar_groups req) then (True, None)
             else scoped_enforce C (en_admission (wh_enforcers st)) (ar_user req) ns (ar_resource req) (ar_operation req));
          answer = \<lparr>aa_uid = ar_uid req, aa_allowed = (allowed \<and> err = None), aa_message = None\<rparr>
      in
      if \<not> allowed \<or> err \<noteq> None then
        (let msg = denial_message quoted (ar_user req) ns (ar_resource req) (ar_operation req) err in
         (answer\<lparr>aa_message := Some msg\<rparr>,
          st\<lparr>wh_denials := record_denial now1 order (ar_user req) ns (ar_resource req) (ar_operation req) msg (wh_denials st)\<rparr>,
          None))
      else (answer, st,
        if ar_resource req = ''pods'' \<and> (ar_operation req = ''CREATE'' \<or> ar_operation req = ''UPDATE'')
        then Some (ar_object req) else None))"

definition admission_handler ::
  "'e casbin \<Rightarrow> (string \<Rightarrow> string) \<Rightarrow> (string \<Rightarrow> string + admission_request option) \<Rightarrow> int \<Rightarrow> (denials \<Rightarrow> denials)
     \<Rightarrow> string \<Rightarrow> string \<Rightarrow> 'e webhooks \<Rightarrow> admission_answer handled \<times> 'e webhooks \<times> string option" where
  "admission_handler C quoted decode now1 order meth body st =
     (if meth \<noteq> ''POST'' then (Refused 405, st, None)
      else case decode body of
        Inl e \<Rightarrow> (Refused 400, st, None)
      | Inr None \<Rightarrow> (Panics, st, None)
      | Inr (Some req) \<Rightarrow>
          (let (answer, st, scan) = admission_review C quoted now1 order req st in (Answered answer, st, scan)))"

record access_review =
  ac_user :: string
  ac_groups :: "string list"
  ac_non_resource :: bool
  ac_attributes :: "(string \<times> string \<times> string) option"

record access_status =
  as_allowed :: bool
  as_denied :: bool
  as_reason :: string

definition authorize :: "'e casbin \<Rightarrow> 'e enforcers \<Rightarrow> access_review \<Rightarrow> access_status handled" where
  "authorize C es review =
     (if ac_non_resource review \<or> is_system_user (ac_user review) (ac_groups review)
      then Answered \<lparr>as_allowed = True, as_denied = False, as_reason = []\<rparr>
      else case ac_attributes review of
        None \<Rightarrow> Panics
      | Some (ns, res, verb) \<Rightarrow>
          (case scoped_enforce C (en_authorization es) (ac_user review) (namespace_or_any ns) res verb of
             (allowed, Some e) \<Rightarrow> Answered \<lparr>as_allowed = False, as_denied = False, as_reason = []\<rparr>
           | (allowed, None) \<Rightarrow> Answered \<lparr>as_allowed = allowed, as_denied = (\<not> allowed),
               as_reason = (if allowed then [] else ''denied by Casbin admission policy'')\<rparr>))"

definition authorization_handler ::
  "'e casbin \<Rightarrow> (string \<Rightarrow> string + access_review) \<Rightarrow> string \<Rightarrow> string \<Rightarrow> 'e enforcers \<Rightarrow> access_status handled" where
  "authorization_handler C decode meth body es =
     (if meth \<noteq> ''POST'' then Refused 405
      else case decode body of Inl e \<Rightarrow> Refused 400 | Inr review \<Rightarrow> authorize C es review)"

section \<open>The table of denials\<close>

definition reorders :: "('a list \<Rightarrow> 'a list) \<Rightarrow> bool" where
  "reorders order \<longleftrightarrow> (\<forall>xs. mset (order xs) = mset xs)"

lemma reorders_set: "reorders order \<Longrightarrow> set (order xs) = set xs"
  unfolding reorders_def by (metis set_mset_mset)

definition good_entry :: "string \<times> denial \<Rightarrow> bool" where
  "good_entry e \<longleftrightarrow> (case e of (k, d) \<Rightarrow>
     k = denial_key (dn_subject d) (dn_namespace d) (dn_resource d) (dn_operation d) \<and> dn_subject d \<noteq> [] \<and> 1 \<le> dn_count d)"

definition good_table :: "denials \<Rightarrow> bool" where
  "good_table ds \<longleftrightarrow> length ds \<le> max_denials \<and> distinct (map fst ds) \<and> list_all good_entry ds"

lemma denial_key_nonempty [simp]: "denial_key s ns r oper \<noteq> []"
  by (simp add: denial_key_def)

lemma good_key: "good_entry (k, d) \<Longrightarrow> k \<noteq> []"
  by (auto simp: good_entry_def)

text \<open>The scan finds an entry that no other is older than.\<close>

lemma oldest_key_found:
  "key \<noteq> [] \<Longrightarrow> \<forall>(k, d) \<in> set ds. k \<noteq> [] \<Longrightarrow>
   (oldest_key key t ds = key \<and> (\<forall>(k, d) \<in> set ds. t \<le> dn_last d)) \<or>
   (\<exists>d. (oldest_key key t ds, d) \<in> set ds \<and> dn_last d < t \<and> (\<forall>(k', d') \<in> set ds. dn_last d \<le> dn_last d'))"
proof (induction ds arbitrary: key t)
  case (Cons e ds)
  obtain k d where e: "e = (k, d)" by force
  have ds: "\<forall>(k, d) \<in> set ds. k \<noteq> []" and k: "k \<noteq> []" using Cons.prems(2) e by auto
  show ?case
  proof (cases "dn_last d < t")
    case True
    have step: "oldest_key key t (e # ds) = oldest_key k (dn_last d) ds" using True e Cons.prems(1) by simp
    from Cons.IH [OF k ds, of "dn_last d"] show ?thesis
    proof (elim disjE conjE exE)
      assume "oldest_key k (dn_last d) ds = k" "\<forall>(k, d') \<in> set ds. dn_last d \<le> dn_last d'"
      then show ?thesis using True by (intro disjI2 exI [of _ d]) (simp add: step e)
    next
      fix d2
      assume "(oldest_key k (dn_last d) ds, d2) \<in> set ds" "dn_last d2 < dn_last d" "\<forall>(k', d') \<in> set ds. dn_last d2 \<le> dn_last d'"
      then show ?thesis using True by (intro disjI2 exI [of _ d2]) (simp add: step e)
    qed
  next
    case False
    have step: "oldest_key key t (e # ds) = oldest_key key t ds" using False e Cons.prems(1) by simp
    from Cons.IH [OF Cons.prems(1) ds, of t] show ?thesis
    proof (elim disjE conjE exE)
      assume "oldest_key key t ds = key" "\<forall>(k, d) \<in> set ds. t \<le> dn_last d"
      then show ?thesis using False Cons.prems(1) by (simp add: step e)
    next
      fix d2
      assume "(oldest_key key t ds, d2) \<in> set ds" "dn_last d2 < t" "\<forall>(k', d') \<in> set ds. dn_last d2 \<le> dn_last d'"
      then show ?thesis using False Cons.prems(1) by (intro disjI2 exI [of _ d2]) (simp add: step e)
    qed
  qed
qed simp

lemma oldest_key_oldest:
  assumes "ds \<noteq> []" and "\<forall>(k, d) \<in> set ds. k \<noteq> []"
  shows "\<exists>d. (oldest_key [] 0 ds, d) \<in> set ds \<and> (\<forall>(k', d') \<in> set ds. dn_last d \<le> dn_last d')"
proof -
  obtain k d rest where ds: "ds = (k, d) # rest" using assms(1) by (cases ds) auto
  have "k \<noteq> []" "\<forall>(k, d) \<in> set rest. k \<noteq> []" using assms(2) ds by auto
  from oldest_key_found [OF this, of "dn_last d"] show ?thesis unfolding ds by fastforce
qed

lemma filter_key_length:
  "distinct (map fst ds) \<Longrightarrow> (k, d) \<in> set ds \<Longrightarrow> length (filter (\<lambda>(k', d'). k' \<noteq> k) ds) = length ds - 1"
proof (induction ds)
  case (Cons e ds)
  obtain a b where e: "e = (a, b)" by force
  show ?case
  proof (cases "a = k")
    case True
    then have "filter (\<lambda>(k', d'). k' \<noteq> k) ds = ds" using Cons.prems(1) e by (intro filter_True) force
    then show ?thesis using True e by simp
  next
    case False
    then have "(k, d) \<in> set ds" using Cons.prems(2) e by simp
    then show ?thesis using Cons False e by (cases ds) simp_all
  qed
qed simp

lemma evict_one:
  assumes good: "good_table ds" and "ds \<noteq> []" and order: "reorders order"
  obtains k d where "(k, d) \<in> set ds" "\<forall>(k', d') \<in> set ds. dn_last d \<le> dn_last d'"
    "evict_oldest order ds = filter (\<lambda>(k', d'). k' \<noteq> k) ds" "length (evict_oldest order ds) = length ds - 1"
proof -
  have "set (order ds) = set ds" by (rule reorders_set [OF order])
  moreover have "order ds \<noteq> []" using calculation assms(2) by auto
  moreover have "\<forall>(k, d) \<in> set ds. k \<noteq> []" using good good_key by (auto simp: good_table_def list_all_iff)
  ultimately obtain d where d: "(oldest_key [] 0 (order ds), d) \<in> set ds" "\<forall>(k', d') \<in> set ds. dn_last d \<le> dn_last d'"
    using oldest_key_oldest [of "order ds"] by auto
  moreover have "evict_oldest order ds = filter (\<lambda>(k', d'). k' \<noteq> oldest_key [] 0 (order ds)) ds"
    by (simp add: evict_oldest_def Let_def)
  ultimately show thesis
    using that filter_key_length [of ds "oldest_key [] 0 (order ds)" d] good by (simp add: good_table_def)
qed

lemma fst_bump [simp]: "fst \<circ> (\<lambda>(k, d). (k, g k d)) = fst"
  by auto

lemma fst_bump_image [simp]: "fst ` (\<lambda>(k, d). (k, g k d)) ` S = fst ` S"
  by (simp add: image_comp)

lemma good_bump:
  "list_all good_entry ds \<Longrightarrow>
   list_all good_entry (map (\<lambda>(k, d). (k, if k = q then d\<lparr>dn_message := m, dn_count := dn_count d + 1, dn_last := t\<rparr> else d)) ds)"
  by (induction ds) (auto simp: good_entry_def split: if_splits)

lemma record_denial_keeps_good:
  assumes good: "good_table ds" and order: "reorders order"
  shows "good_table (record_denial now1 order subject ns res oper message ds)"
proof (cases "subject = [] \<or> denial_key subject ns res oper \<in> fst ` set ds")
  case True
  with good show ?thesis
    unfolding record_denial_def Let_def good_table_def by (auto simp: good_bump)
next
  case False
  define ds' where "ds' = (if length ds \<ge> max_denials then evict_oldest order ds else ds)"
  have sub: "set ds' \<subseteq> set ds" "distinct (map fst ds')"
    using good by (auto simp: ds'_def evict_oldest_def Let_def good_table_def distinct_map_filter)
  have "length ds' < max_denials"
  proof (cases "length ds \<ge> max_denials")
    case True
    then have "ds \<noteq> []" by (auto simp: max_denials_def)
    then obtain k d where "length (evict_oldest order ds) = length ds - 1" using evict_one [OF good _ order] by metis
    with True good show ?thesis by (simp add: ds'_def good_table_def max_denials_def)
  qed (simp add: ds'_def)
  moreover have "denial_key subject ns res oper \<notin> fst ` set ds'" using False sub by blast
  ultimately show ?thesis
    using False sub good by (auto simp: record_denial_def Let_def ds'_def [symmetric] good_table_def good_entry_def list_all_iff)
qed

text \<open>What is dropped to make room is an entry that no other is older than.\<close>

lemma record_denial_keeps_newer:
  assumes good: "good_table ds" and order: "reorders order"
    and mem: "(k, d) \<in> set ds" and newer: "(k', d') \<in> set ds" "dn_last d' < dn_last d"
  shows "k \<in> fst ` set (record_denial now1 order subject ns res oper message ds)"
proof (cases "subject = [] \<or> denial_key subject ns res oper \<in> fst ` set ds \<or> length ds < max_denials")
  case True
  then show ?thesis using rev_image_eqI [OF mem, of k fst] by (auto simp: record_denial_def Let_def)
next
  case False
  have "ds \<noteq> []" using mem by auto
  then obtain k0 d0 where e: "(k0, d0) \<in> set ds" "\<forall>(k', d') \<in> set ds. dn_last d0 \<le> dn_last d'"
    "evict_oldest order ds = filter (\<lambda>(k', d'). k' \<noteq> k0) ds"
    using evict_one [OF good _ order] by metis
  have "k \<noteq> k0"
  proof
    assume "k = k0"
    then have "d = d0" using e(1) mem good by (auto simp: good_table_def dest: eq_key_imp_eq_value)
    with e(2) newer show False by force
  qed
  with False mem e(3) show ?thesis by (force simp: record_denial_def Let_def)
qed

text \<open>Calls in the order of the lock.\<close>

datatype denial_call =
    Denied (call_time: int) (call_order: "denials \<Rightarrow> denials") string string string string string
  | Cleared

fun denial_step :: "denial_call \<Rightarrow> denials \<Rightarrow> denials" where
  "denial_step (Denied t order s ns r oper m) ds = record_denial t order s ns r oper m ds"
| "denial_step Cleared ds = clear_denials ds"

fun fair_call :: "denial_call \<Rightarrow> bool" where
  "fair_call (Denied t order s ns r oper m) = reorders order"
| "fair_call Cleared = True"

lemma run_good:
  assumes "list_all fair_call cs"
  shows "good_table (fold denial_step cs [])"
proof -
  have "good_table ds \<Longrightarrow> list_all fair_call cs \<Longrightarrow> good_table (fold denial_step cs ds)" for ds
  proof (induction cs arbitrary: ds)
    case (Cons c cs)
    have "good_table (denial_step c ds)"
      using Cons.prems record_denial_keeps_good [of ds] by (cases c) (simp_all add: clear_denials_def good_table_def)
    then show ?case using Cons.IH Cons.prems(2) by simp
  qed simp
  from this [of "[]"] assms show ?thesis by (simp add: good_table_def)
qed

text \<open>
  Whatever is refused and whenever the table is cleared, at most 512 refusals are kept, one
  per subject, namespace, resource and operation, each with a count and a subject; and to make
  room for a new one only an entry that no other is older than is dropped.
\<close>

theorem denials_bounded:
  assumes "list_all fair_call (c # cs)" and "ds = fold denial_step cs []"
  shows "length ds \<le> 512 \<and> distinct (map fst ds) \<and> list_all good_entry ds \<and>
    (c \<noteq> Cleared \<longrightarrow> (\<forall>(k, d) \<in> set ds. \<forall>(k', d') \<in> set ds. dn_last d' < dn_last d \<longrightarrow> k \<in> fst ` set (denial_step c ds)))"
proof -
  have good: "good_table ds" using run_good [of cs] assms by simp
  then have "(k, d) \<in> set ds \<Longrightarrow> (k', d') \<in> set ds \<Longrightarrow> dn_last d' < dn_last d \<Longrightarrow> c \<noteq> Cleared \<Longrightarrow>
      k \<in> fst ` set (denial_step c ds)" for k d k' d'
    using assms(1) record_denial_keeps_newer [OF good] by (cases c) auto
  with good show ?thesis unfolding good_table_def max_denials_def by blast
qed

theorem denials_bounded_witness:
  "length (fold denial_step [Denied 5 rev ''alice'' ''*'' ''pods'' ''CREATE'' ''no''] []) \<le> 512"
  using denials_bounded [of Cleared "[Denied 5 rev ''alice'' ''*'' ''pods'' ''CREATE'' ''no'']", OF _ refl]
  by (simp add: reorders_def)

section \<open>The table against a log\<close>

text \<open>
  The abstract view: the refusals since the last time the table was cleared, in order. While
  they have at most 512 keys, the table holds for each key exactly their summary.
\<close>

record refusal =
  rf_time :: int
  rf_key :: string
  rf_fields :: "string \<times> string \<times> string \<times> string"
  rf_message :: string

fun log_step :: "denial_call \<Rightarrow> refusal list \<Rightarrow> refusal list" where
  "log_step (Denied t order s ns r oper m) l =
     (if s = [] then l
      else l @ [\<lparr>rf_time = t, rf_key = denial_key s ns r oper, rf_fields = (s, ns, r, oper), rf_message = m\<rparr>])"
| "log_step Cleared l = []"

definition refusal_summary :: "refusal list \<Rightarrow> denial option" where
  "refusal_summary es =
     (if es = [] then None
      else let (s, ns, r, oper) = rf_fields (hd es) in
        Some \<lparr>dn_subject = s, dn_namespace = ns, dn_resource = r, dn_operation = oper, dn_message = rf_message (last es),
              dn_count = int (length es), dn_first = rf_time (hd es), dn_last = rf_time (last es)\<rparr>)"

definition of_key :: "string \<Rightarrow> refusal list \<Rightarrow> refusal list" where
  "of_key k = filter (\<lambda>e. rf_key e = k)"

definition few_keys :: "refusal list \<Rightarrow> bool" where
  "few_keys l \<longleftrightarrow> card (rf_key ` set l) \<le> max_denials"

definition matches_log :: "denials \<Rightarrow> refusal list \<Rightarrow> bool" where
  "matches_log ds l \<longleftrightarrow> distinct (map fst ds) \<and> fst ` set ds = rf_key ` set l \<and> (\<forall>k. map_of ds k = refusal_summary (of_key k l))"

lemma of_key_snoc: "of_key k (l @ [e]) = of_key k l @ (if rf_key e = k then [e] else [])"
  by (simp add: of_key_def)

lemma of_key_empty: "of_key k l = [] \<longleftrightarrow> k \<notin> rf_key ` set l"
  by (auto simp: of_key_def filter_empty_conv)

lemma refusal_summary_snoc:
  "refusal_summary (es @ [e]) = (case refusal_summary es of
     None \<Rightarrow> refusal_summary [e]
   | Some d \<Rightarrow> Some (d\<lparr>dn_message := rf_message e, dn_count := dn_count d + 1, dn_last := rf_time e\<rparr>))"
  by (auto simp: refusal_summary_def split: prod.splits)

lemma map_of_map_key: "map_of (map (\<lambda>(k, d). (k, if k = q then f d else d)) ds) k = (if k = q then map_option f (map_of ds k) else map_of ds k)"
  by (induction ds) auto

lemma record_matches_log:
  assumes m: "matches_log ds l" and few: "few_keys (l @ [e])" and "s \<noteq> []"
    and e: "e = \<lparr>rf_time = t, rf_key = denial_key s ns r oper, rf_fields = (s, ns, r, oper), rf_message = msg\<rparr>"
  shows "matches_log (record_denial t order s ns r oper msg ds) (l @ [e])"
proof (cases "rf_key e \<in> fst ` set ds")
  case True
  let ?f = "\<lambda>d. d\<lparr>dn_message := msg, dn_count := dn_count d + 1, dn_last := t\<rparr>"
  have r: "record_denial t order s ns r oper msg ds = map (\<lambda>(k, d). (k, if k = rf_key e then ?f d else d)) ds"
    using True e \<open>s \<noteq> []\<close> by (simp add: record_denial_def)
  have "map_of (record_denial t order s ns r oper msg ds) k = refusal_summary (of_key k (l @ [e]))" for k
  proof (cases "k = rf_key e")
    case same: True
    then obtain d where "map_of ds k = Some d" using True by (metis domIff dom_map_of_conv_image_fst option.exhaust)
    then show ?thesis using m same e by (simp add: r map_of_map_key matches_log_def of_key_snoc refusal_summary_snoc)
  next
    case False
    then show ?thesis using m by (simp add: r map_of_map_key matches_log_def of_key_snoc)
  qed
  moreover have "rf_key ` set (l @ [e]) = rf_key ` set l" using m True by (auto simp: matches_log_def)
  ultimately show ?thesis using m by (simp add: matches_log_def r)
next
  case False
  have "length ds = card (rf_key ` set l)" using m by (metis distinct_card length_map list.set_map matches_log_def)
  moreover have "rf_key ` set (l @ [e]) = insert (rf_key e) (rf_key ` set l)" by auto
  ultimately have "length ds < max_denials"
    using few False m by (simp add: few_keys_def matches_log_def)
  then have r: "record_denial t order s ns r oper msg ds = ds @ [(rf_key e, the (refusal_summary [e]))]"
    using False e \<open>s \<noteq> []\<close> by (simp add: record_denial_def refusal_summary_def)
  have "of_key (rf_key e) l = []" using False m by (simp add: of_key_empty matches_log_def)
  moreover have "refusal_summary [e] = Some (the (refusal_summary [e]))" by (simp add: refusal_summary_def split: prod.split)
  moreover have "map_of ds (rf_key e) = None" using False by (simp add: map_of_eq_None_iff)
  ultimately have "map_of (ds @ [(rf_key e, the (refusal_summary [e]))]) k = refusal_summary (of_key k (l @ [e]))" for k
    using m by (cases "k = rf_key e") (simp_all add: matches_log_def of_key_snoc map_add_def split: option.split)
  then show ?thesis using m False by (auto simp: matches_log_def r)
qed

lemma run_matches_log:
  assumes "few_keys (fold log_step cs [])"
  shows "matches_log (fold denial_step cs []) (fold log_step cs [])"
  using assms
proof (induction cs rule: rev_induct)
  case Nil
  then show ?case by (simp add: matches_log_def of_key_def refusal_summary_def)
next
  case (snoc c cs)
  show ?case
  proof (cases c)
    case (Denied t order s ns r oper m)
    show ?thesis
    proof (cases "s = []")
      case True
      with snoc Denied show ?thesis by (simp add: record_denial_def)
    next
      case False
      let ?e = "\<lparr>rf_time = t, rf_key = denial_key s ns r oper, rf_fields = (s, ns, r, oper), rf_message = m\<rparr>"
      have few: "few_keys (fold log_step cs [] @ [?e])" using snoc.prems Denied False by simp
      have "card (rf_key ` set (fold log_step cs [])) \<le> card (rf_key ` set (fold log_step cs [] @ [?e]))"
        by (intro card_mono) auto
      then have "few_keys (fold log_step cs [])" using few unfolding few_keys_def by linarith
      from record_matches_log [OF snoc.IH [OF this] few False refl] show ?thesis using Denied False by simp
    qed
  next
    case Cleared
    then show ?thesis by (simp add: clear_denials_def matches_log_def of_key_def refusal_summary_def)
  qed
qed

text \<open>
  While the refusals since the table was last cleared have at most 512 keys, the table holds
  for every key the number of its refusals, the time of the first and of the last and the
  message of the last, and nothing else.
\<close>

theorem denials_summarise:
  assumes "few_keys (fold log_step cs [])"
  shows "map_of (fold denial_step cs []) k = refusal_summary (of_key k (fold log_step cs []))"
  using run_matches_log [OF assms] by (simp add: matches_log_def)

theorem denials_summarise_witness:
  "map_of (fold denial_step [Denied 3 rev ''alice'' ''*'' ''pods'' ''CREATE'' ''no'', Denied 9 rev ''alice'' ''*'' ''pods'' ''CREATE'' ''still no''] [])
     (denial_key ''alice'' ''*'' ''pods'' ''CREATE'') =
   Some \<lparr>dn_subject = ''alice'', dn_namespace = ''*'', dn_resource = ''pods'', dn_operation = ''CREATE'',
     dn_message = ''still no'', dn_count = 2, dn_first = 3, dn_last = 9\<rparr>"
  by (subst denials_summarise) (simp_all add: few_keys_def max_denials_def of_key_def refusal_summary_def)

section \<open>What the webhooks answer\<close>

definition agreed :: "'e casbin \<Rightarrow> 'e option \<Rightarrow> string \<Rightarrow> string \<Rightarrow> string \<Rightarrow> string \<Rightarrow> bool" where
  "agreed C enf user ns res act \<longleftrightarrow> scoped_enforce C enf user ns res act = (True, None)"

lemma recorded:
  assumes "good_table ds" and "reorders order" and "s \<noteq> []"
  shows "\<exists>d. (denial_key s ns r oper, d) \<in> set (record_denial t order s ns r oper m ds) \<and> dn_message d = m"
proof (cases "denial_key s ns r oper \<in> fst ` set ds")
  case True
  then obtain d where "(denial_key s ns r oper, d) \<in> set ds" by auto
  then have "(denial_key s ns r oper, d\<lparr>dn_message := m, dn_count := dn_count d + 1, dn_last := t\<rparr>)
      \<in> set (record_denial t order s ns r oper m ds)"
    using True assms(3) unfolding record_denial_def Let_def by (simp add: rev_image_eqI)
  then show ?thesis by (intro exI conjI, assumption) simp
next
  case False
  with assms(3) show ?thesis by (simp add: record_denial_def Let_def) (metis denial.select_convs(5))
qed

text \<open>
  C17: a request is admitted exactly when it comes from the cluster itself or the policy says so
  without an error: when the policy cannot be evaluated the answer is no. A refused request of a
  named subject is on record with the message of the answer, and the state does not change
  otherwise.
\<close>

theorem admission_decides:
  assumes "good_table (wh_denials st)" and "reorders order"
    and "admission_review C quoted now1 order req st = (answer, st', scan)"
  shows "aa_uid answer = ar_uid req \<and>
    (aa_allowed answer \<longleftrightarrow> is_reserved_identity (ar_user req) (ar_groups req) \<or>
       agreed C (en_admission (wh_enforcers st)) (ar_user req) (namespace_or_any (ar_namespace req)) (ar_resource req) (ar_operation req)) \<and>
    (if aa_allowed answer then st' = st
     else ar_user req = [] \<and> st' = st \<or>
       (\<exists>d. (denial_key (ar_user req) (namespace_or_any (ar_namespace req)) (ar_resource req) (ar_operation req), d)
           \<in> set (wh_denials st') \<and> aa_message answer = Some (dn_message d)))"
proof -
  define ns where "ns = namespace_or_any (ar_namespace req)"
  obtain allowed err where dec: "(if is_reserved_identity (ar_user req) (ar_groups req) then (True, None)
      else scoped_enforce C (en_admission (wh_enforcers st)) (ar_user req) ns (ar_resource req) (ar_operation req)) = (allowed, err)"
    by force
  have iff: "allowed \<and> err = None \<longleftrightarrow> is_reserved_identity (ar_user req) (ar_groups req) \<or>
      agreed C (en_admission (wh_enforcers st)) (ar_user req) ns (ar_resource req) (ar_operation req)"
    using dec by (auto simp: agreed_def split: if_splits)
  note dec' = dec [unfolded ns_def]
  define msg where "msg = denial_message quoted (ar_user req) ns (ar_resource req) (ar_operation req) err"
  show ?thesis
  proof (cases "allowed \<and> err = None")
    case True
    then have "aa_uid answer = ar_uid req" "aa_allowed answer" "st' = st"
      using assms(3) unfolding admission_review_def Let_def dec' by auto
    then show ?thesis using iff True by (simp add: ns_def)
  next
    case False
    then have a: "answer = \<lparr>aa_uid = ar_uid req, aa_allowed = False, aa_message = Some msg\<rparr>"
      "wh_denials st' = record_denial now1 order (ar_user req) ns (ar_resource req) (ar_operation req) msg (wh_denials st)"
      "ar_user req = [] \<Longrightarrow> st' = st"
      using assms(3) unfolding admission_review_def Let_def dec' msg_def ns_def
      by (simp_all split: if_splits) (auto simp: record_denial_def)
    have "ar_user req = [] \<or> (\<exists>d. (denial_key (ar_user req) ns (ar_resource req) (ar_operation req), d)
        \<in> set (wh_denials st') \<and> dn_message d = msg)"
      using recorded [OF assms(1,2)] unfolding a(2) by blast
    then show ?thesis using a iff False by (auto simp: ns_def)
  qed
qed

definition sample_review :: "admission_answer \<times> string list webhooks \<times> string option" where
  "sample_review = admission_review \<lparr>cb_new = Inr, cb_enforce = (\<lambda>_ _ _ _ _. (True, Some ''broken''))\<rparr> (\<lambda>s. s) 7 rev
     \<lparr>ar_uid = ''1'', ar_user = ''alice'', ar_groups = [''system:authenticated''], ar_namespace = [], ar_resource = ''pods'',
      ar_operation = ''CREATE'', ar_object = []\<rparr>
     \<lparr>wh_enforcers = \<lparr>en_admission = Some [''p, *, *, *, *, allow''], en_authorization = None\<rparr>, wh_denials = []\<rparr>"

theorem admission_decides_witness:
  "case sample_review of (answer, st', scan) \<Rightarrow> \<not> aa_allowed answer \<and>
     (\<exists>d. (denial_key ''alice'' ''*'' ''pods'' ''CREATE'', d) \<in> set (wh_denials st') \<and> aa_message answer = Some (dn_message d))"
proof -
  obtain answer st' scan where r: "sample_review = (answer, st', scan)" by (metis surj_pair)
  have "\<not> aa_allowed (fst sample_review)" by code_simp
  then have no: "\<not> aa_allowed answer" by (simp add: r)
  from admission_decides [OF _ _ r [unfolded sample_review_def]] no show ?thesis
    unfolding r by (simp add: good_table_def max_denials_def reorders_def namespace_or_any_def)
qed

text \<open>
  Authorization, by contrast, answers yes for anybody who is logged in, and no when the policy
  cannot be evaluated.
\<close>

lemma authenticated_is_allowed:
  "''system:authenticated'' \<in> set (ac_groups review) \<Longrightarrow>
   authorize C es review = Answered \<lparr>as_allowed = True, as_denied = False, as_reason = []\<rparr>"
  by (force simp: authorize_def is_system_user_def list_ex_iff has_prefix_def)

lemma authorize_fails_closed:
  "scoped_enforce C (en_authorization es) (ac_user review) (namespace_or_any ns) res verb = (b, Some e) \<Longrightarrow>
   ac_attributes review = Some (ns, res, verb) \<Longrightarrow>
   \<not> ac_non_resource review \<Longrightarrow> \<not> is_system_user (ac_user review) (ac_groups review) \<Longrightarrow>
   authorize C es review = Answered \<lparr>as_allowed = False, as_denied = False, as_reason = []\<rparr>"
  by (simp add: authorize_def)

end
