(* ===== verification/Manifests.thy ===== *)
theory Manifests
  imports GoStrings
begin

text \<open>
  The post renderer of Helm installs (store/image\_pull\_policy.go): it splits the rendered text
  into documents and fills in a pull policy where an image would be pulled always by default.
  The YAML decoder and encoder are parameters; a node keeps what they add to it (style, anchor,
  comments) in its last field.
\<close>

section \<open>Documents\<close>

fun lines_kept :: "string \<Rightarrow> string list" where
  "lines_kept [] = []"
| "lines_kept (c # cs) =
     (if c = newline then [c] # lines_kept cs
      else case lines_kept cs of [] \<Rightarrow> [[c]] | l # ls \<Rightarrow> (c # l) # ls)"

definition is_document_separator :: "string \<Rightarrow> bool" where
  "is_document_separator line0 \<longleftrightarrow>
     (let line = trim_right_set line0 [CHR 0x0D, newline] in
      has_prefix line ''---'' \<and>
      (length line = 3 \<or> line ! 3 = CHR '' '' \<or> line ! 3 = tab \<or> line ! 3 = CHR ''#''))"

fun collect_documents :: "string \<Rightarrow> string list \<Rightarrow> string list" where
  "collect_documents current [] = (if current = [] then [] else [current])"
| "collect_documents current (line # ls) =
     (if is_document_separator line \<and> current \<noteq> [] then current # collect_documents line ls
      else collect_documents (current @ line) ls)"

definition manifest_documents :: "string \<Rightarrow> string list" where
  "manifest_documents rendered = collect_documents [] (lines_kept rendered)"

definition leading_separator :: "string \<Rightarrow> string" where
  "leading_separator document =
     (let first = (case lines_kept document of [] \<Rightarrow> [] | l # _ \<Rightarrow> l) in if is_document_separator first then first else [])"

section \<open>Nodes\<close>

datatype yaml_kind = NoKind | DocumentNode | SequenceNode | MappingNode | ScalarNode | AliasNode

datatype 'r yaml = Node (yn_kind: yaml_kind) (yn_tag: string) (yn_text: string) (yn_content: "'r yaml list") (yn_rest: 'r)

definition scalar :: "'r \<Rightarrow> string \<Rightarrow> 'r yaml" where
  "scalar rest s = Node ScalarNode ''!!str'' s [] rest"

fun with_content :: "'r yaml \<Rightarrow> 'r yaml list \<Rightarrow> 'r yaml" where
  "with_content (Node k t s c r) c' = Node k t s c' r"

fun pair_value :: "string \<Rightarrow> 'r yaml list \<Rightarrow> 'r yaml option" where
  "pair_value key (k # v # rest) =
     (if yn_kind k = ScalarNode \<and> yn_text k = key then Some v else pair_value key rest)"
| "pair_value key _ = None"

definition mapping_value :: "'r yaml option \<Rightarrow> string \<Rightarrow> 'r yaml option" where
  "mapping_value m key =
     (case m of None \<Rightarrow> None
      | Some n \<Rightarrow> if yn_kind n \<noteq> MappingNode then None else pair_value key (yn_content n))"

definition scalar_value :: "'r yaml option \<Rightarrow> string" where
  "scalar_value n = (case n of None \<Rightarrow> [] | Some n \<Rightarrow> if yn_kind n = ScalarNode then yn_text n else [])"

fun nested_mapping :: "'r yaml \<Rightarrow> string list \<Rightarrow> 'r yaml option" where
  "nested_mapping n [] = Some n"
| "nested_mapping n (key # path) =
     (case mapping_value (Some n) key of
        None \<Rightarrow> None
      | Some v \<Rightarrow> if yn_kind v \<noteq> MappingNode then None else nested_mapping v path)"

text \<open>Go changes the node it has found in place: the same path, written.\<close>

fun put_pair :: "string \<Rightarrow> 'r yaml \<Rightarrow> 'r yaml list \<Rightarrow> 'r yaml list" where
  "put_pair key new (k # v # rest) =
     (if yn_kind k = ScalarNode \<and> yn_text k = key then k # new # rest else k # v # put_pair key new rest)"
| "put_pair key new rest = rest"

definition put_value :: "string \<Rightarrow> 'r yaml \<Rightarrow> 'r yaml \<Rightarrow> 'r yaml" where
  "put_value key new n = with_content n (put_pair key new (yn_content n))"

fun put_nested :: "string list \<Rightarrow> 'r yaml \<Rightarrow> 'r yaml \<Rightarrow> 'r yaml" where
  "put_nested [] new n = new"
| "put_nested (key # path) new n =
     (case mapping_value (Some n) key of None \<Rightarrow> n | Some v \<Rightarrow> put_value key (put_nested path new v) n)"

section \<open>Filling in the policy\<close>

definition index_or :: "nat option \<Rightarrow> int" where
  "index_or i = (case i of None \<Rightarrow> -1 | Some n \<Rightarrow> int n)"

definition uses_implicit_latest :: "string \<Rightarrow> bool" where
  "uses_implicit_latest img =
     (if contains img ''@'' then False
      else (let last_slash = index_or (last_index img CHR ''/''); last_colon = index_or (last_index img CHR '':'')
        in last_colon \<le> last_slash \<or> drop (nat (last_colon + 1)) img = ''latest''))"

definition patch_container :: "'r \<Rightarrow> 'r yaml \<Rightarrow> bool \<times> 'r yaml" where
  "patch_container rest c =
     (if yn_kind c \<noteq> MappingNode \<or> mapping_value (Some c) ''imagePullPolicy'' \<noteq> None then (False, c)
      else
        (let img = scalar_value (mapping_value (Some c) ''image'') in
         if img = [] \<or> \<not> uses_implicit_latest img then (False, c)
         else (True, with_content c (yn_content c @ [scalar rest ''imagePullPolicy'', scalar rest ''IfNotPresent'']))))"

definition patch_container_list :: "'r \<Rightarrow> string \<Rightarrow> 'r yaml \<Rightarrow> bool \<times> 'r yaml" where
  "patch_container_list rest key spec =
     (case mapping_value (Some spec) key of
        None \<Rightarrow> (False, spec)
      | Some cs \<Rightarrow>
          if yn_kind cs \<noteq> SequenceNode then (False, spec)
          else (let rs = map (patch_container rest) (yn_content cs)
            in (list_ex fst rs, put_value key (with_content cs (map snd rs)) spec)))"

definition patch_pod_spec :: "'r \<Rightarrow> 'r yaml \<Rightarrow> bool \<times> 'r yaml" where
  "patch_pod_spec rest spec =
     (let (b1, spec) = patch_container_list rest ''initContainers'' spec;
          (b2, spec) = patch_container_list rest ''containers'' spec;
          (b3, spec) = patch_container_list rest ''ephemeralContainers'' spec
      in (b1 \<or> b2 \<or> b3, spec))"

definition pod_spec_path :: "string \<Rightarrow> string list option" where
  "pod_spec_path kind =
     (if kind = ''Pod'' then Some [''spec'']
      else if kind \<in> set [''Deployment'', ''StatefulSet'', ''DaemonSet'', ''ReplicaSet'', ''ReplicationController'', ''Job'']
      then Some [''spec'', ''template'', ''spec'']
      else if kind = ''CronJob'' then Some [''spec'', ''jobTemplate'', ''spec'', ''template'', ''spec'']
      else None)"

definition patch_workload :: "'r \<Rightarrow> string list \<Rightarrow> 'r yaml \<Rightarrow> bool \<times> 'r yaml" where
  "patch_workload rest path root =
     (case nested_mapping root path of
        None \<Rightarrow> (False, root)
      | Some spec \<Rightarrow> (let (b, spec) = patch_pod_spec rest spec in (b, put_nested path spec root)))"

definition document_root :: "'r yaml \<Rightarrow> 'r yaml option" where
  "document_root n =
     (if yn_kind n = DocumentNode then (case yn_content n of [] \<Rightarrow> None | r # _ \<Rightarrow> Some r) else Some n)"

definition put_root :: "'r yaml \<Rightarrow> 'r yaml \<Rightarrow> 'r yaml" where
  "put_root new n = (if yn_kind n = DocumentNode then with_content n (new # tl (yn_content n)) else new)"

lemma pair_value_mem: "pair_value key cs = Some v \<Longrightarrow> v \<in> set cs"
  by (induction key cs rule: pair_value.induct) (auto split: if_splits)

lemma content_size: "v \<in> set (yn_content n) \<Longrightarrow> size v < size n"
  by (cases n) (auto dest: size_list_estimation' [where f = size, OF _ order_refl])

lemma root_size: "document_root n = Some r \<Longrightarrow> size r \<le> size n"
  using content_size [of r n] by (auto simp: document_root_def split: if_splits list.splits)

function patch_pull_policies :: "'r \<Rightarrow> 'r yaml \<Rightarrow> bool \<times> 'r yaml" where
  "patch_pull_policies rest document =
     (case document_root document of
        None \<Rightarrow> (False, document)
      | Some root \<Rightarrow>
          if yn_kind root \<noteq> MappingNode then (False, document)
          else (let kind = scalar_value (mapping_value (Some root) ''kind'') in
            if kind = ''List'' then
              (case mapping_value (Some root) ''items'' of
                 None \<Rightarrow> (False, document)
               | Some items \<Rightarrow>
                   if yn_kind items \<noteq> SequenceNode then (False, document)
                   else (let rs = map (patch_pull_policies rest) (yn_content items)
                     in (list_ex fst rs, put_root (put_value ''items'' (with_content items (map snd rs)) root) document)))
            else (case pod_spec_path kind of
                None \<Rightarrow> (False, document)
              | Some path \<Rightarrow> (let (b, root) = patch_workload rest path root in (b, put_root root document)))))"
  by pat_completeness auto
termination
proof (relation "measure (size \<circ> snd)", simp)
  fix rest :: 'r and document root items item :: "'r yaml" and kind
  assume "document_root document = Some root" "\<not> yn_kind root \<noteq> MappingNode"
    "mapping_value (Some root) ''items'' = Some items" "item \<in> set (yn_content items)"
  then have "size item < size items" "size items < size root" "size root \<le> size document"
    by (auto simp: mapping_value_def content_size root_size dest: pair_value_mem)
  then show "((rest, item), (rest, document)) \<in> measure (size \<circ> snd)" by simp
qed

declare patch_pull_policies.simps [simp del]

section \<open>The renderer\<close>

fun render_documents ::
  "(string \<Rightarrow> string + 'r yaml) \<Rightarrow> ('r yaml \<Rightarrow> string + string) \<Rightarrow> 'r \<Rightarrow> string list \<Rightarrow> (string, string) result" where
  "render_documents decode encode rest [] = Ok []"
| "render_documents decode encode rest (raw # docs) =
     (case decode raw of
        Inl e \<Rightarrow> Err e
      | Inr document \<Rightarrow>
          (let (changed, document) = patch_pull_policies rest document in
           case (if changed then map_sum id (\<lambda>text. leading_separator raw @ text) (encode document) else Inr raw) of
             Inl e \<Rightarrow> Err e
           | Inr text \<Rightarrow>
               (case render_documents decode encode rest docs of Inl e \<Rightarrow> Err e | Inr more \<Rightarrow> Ok (text @ more))))"

definition run_post_renderer ::
  "(string \<Rightarrow> string + 'r yaml) \<Rightarrow> ('r yaml \<Rightarrow> string + string) \<Rightarrow> 'r \<Rightarrow> string option \<Rightarrow> (string, string) result" where
  "run_post_renderer decode encode rest rendered =
     (case rendered of
        None \<Rightarrow> Ok []
      | Some text \<Rightarrow> render_documents decode encode rest (manifest_documents text))"

section \<open>Nothing is lost in splitting\<close>

lemma concat_lines_kept: "concat (lines_kept s) = s"
  by (induction s) (auto split: list.splits)

lemma lines_kept_nonempty: "l \<in> set (lines_kept s) \<Longrightarrow> l \<noteq> []"
  by (induction s arbitrary: l) (auto split: list.splits if_splits)

lemma concat_collect: "concat (collect_documents cur ls) = cur @ concat ls"
  by (induction cur ls rule: collect_documents.induct) auto

lemma collect_nonempty:
  "[] \<notin> set ls \<Longrightarrow> [] \<notin> set (collect_documents cur ls)"
  by (induction cur ls rule: collect_documents.induct) auto

text \<open>The first line of every document but the first is a separator.\<close>

definition starts_separated :: "string \<Rightarrow> bool" where
  "starts_separated d \<longleftrightarrow> (\<exists>l t. d = l @ t \<and> is_document_separator l)"

lemma collect_separated:
  "collect_documents cur ls = d # ds \<Longrightarrow> cur \<noteq> [] \<Longrightarrow> (\<exists>t. d = cur @ t) \<and> list_all starts_separated ds"
proof (induction cur ls arbitrary: d ds rule: collect_documents.induct)
  case (2 cur line ls)
  show ?case
  proof (cases "is_document_separator line")
    case True
    then have ds: "d = cur" "ds = collect_documents line ls" using 2 by auto
    have "line \<noteq> []" using True by (auto simp: is_document_separator_def trim_right_set_def has_prefix_def)
    then have "list_all starts_separated ds"
    proof (cases ds)
      case (Cons a rest)
      then have "(\<exists>t. a = line @ t) \<and> list_all starts_separated rest"
        using 2(1) [of a rest] True 2(4) \<open>line \<noteq> []\<close> ds by simp
      then show ?thesis using Cons True by (auto simp: starts_separated_def)
    qed simp
    then show ?thesis using ds by simp
  next
    case False
    then have "collect_documents (cur @ line) ls = d # ds" using 2(3) by simp
    then show ?thesis using 2(2) [of d ds] False 2(4) by auto
  qed
qed (auto split: if_splits)

text \<open>
  Splitting the rendered manifests loses nothing: the documents, one after the other, are
  the text, none is empty, and every one but the first starts with a separator line.
\<close>

theorem documents_lossless:
  "concat (manifest_documents text) = text \<and> [] \<notin> set (manifest_documents text) \<and>
   list_all starts_separated (tl (manifest_documents text))"
proof -
  have "list_all starts_separated (tl (collect_documents [] ls))" if "[] \<notin> set ls" for ls
    using that
  proof (cases ls)
    case (Cons l ls')
    then have "collect_documents [] ls = collect_documents l ls'" "l \<noteq> []" using that by auto
    then show ?thesis using collect_separated [of l ls'] by (cases "collect_documents l ls'") auto
  qed simp
  moreover have "[] \<notin> set (lines_kept text)" using lines_kept_nonempty by blast
  ultimately show ?thesis
    unfolding manifest_documents_def using collect_nonempty [of "lines_kept text" "[]"]
    by (simp add: concat_collect concat_lines_kept)
qed

section \<open>Reading back what was put\<close>

lemma with_content_fields [simp]:
  "yn_kind (with_content n c) = yn_kind n" "yn_text (with_content n c) = yn_text n" "yn_tag (with_content n c) = yn_tag n"
  "yn_content (with_content n c) = c" "yn_rest (with_content n c) = yn_rest n"
  by (cases n; simp)+

lemma with_content_same [simp]: "with_content n (yn_content n) = n" "with_content (with_content n c) d = with_content n d"
  by (cases n; simp)+

lemma pair_value_put: "pair_value key' (put_pair key new cs) =
    (if key' = key then map_option (\<lambda>_. new) (pair_value key cs) else pair_value key' cs)"
  by (induction key new cs rule: put_pair.induct) auto

lemma put_pair_same: "pair_value key cs = Some v \<Longrightarrow> put_pair key v cs = cs"
  by (induction key v cs rule: put_pair.induct) (auto split: if_splits)

lemma put_pair_twice: "put_pair key v (put_pair key w cs) = put_pair key v cs"
  by (induction key w cs rule: put_pair.induct) auto

lemma put_value_kind [simp]: "yn_kind (put_value key v n) = yn_kind n"
  by (simp add: put_value_def)

lemma mapping_value_put [simp]: "mapping_value (Some (put_value key new n)) key' =
    (if key' = key then map_option (\<lambda>_. new) (mapping_value (Some n) key) else mapping_value (Some n) key')"
  by (auto simp: mapping_value_def put_value_def pair_value_put)

lemma put_value_same: "mapping_value (Some n) key = Some v \<Longrightarrow> put_value key v n = n"
  by (auto simp: mapping_value_def put_value_def put_pair_same split: if_splits)

lemma put_value_twice [simp]: "put_value key v (put_value key w n) = put_value key v n"
  by (simp add: put_value_def put_pair_twice)

lemma nested_put:
  "nested_mapping n path = Some s \<Longrightarrow> yn_kind s' = yn_kind s \<Longrightarrow> nested_mapping (put_nested path s' n) path = Some s'"
proof (induction path arbitrary: n)
  case (Cons key path)
  then obtain v where v: "mapping_value (Some n) key = Some v" "yn_kind v = MappingNode" "nested_mapping v path = Some s"
    by (auto split: option.splits if_splits)
  have "yn_kind (put_nested path s' v) = MappingNode"
    using v Cons.prems(2) by (cases path) (auto split: option.splits)
  then show ?case using v Cons by simp
qed simp

lemma put_nested_same: "nested_mapping n path = Some s \<Longrightarrow> put_nested path s n = n"
  by (induction path arbitrary: n) (auto simp: put_value_same split: option.splits if_splits)

lemma put_nested_twice: "put_nested path s (put_nested path s' n) = put_nested path s n"
  by (induction path arbitrary: n) (auto split: option.splits)

lemma put_nested_kind: "nested_mapping n path = Some s \<Longrightarrow> yn_kind s' = yn_kind s \<Longrightarrow> yn_kind (put_nested path s' n) = yn_kind n"
  by (cases path) (auto split: option.splits)

lemma put_nested_other:
  "mapping_value (Some (put_nested (key # path) s n)) key' = mapping_value (Some n) key'" if "key' \<noteq> key"
  using that by (auto split: option.splits)

section \<open>Once is enough\<close>

text \<open>What the decoder delivers: the content of a mapping is keys and values in turn.\<close>

fun paired :: "'r yaml \<Rightarrow> bool" where
  "paired (Node k t s c r) \<longleftrightarrow> (k = MappingNode \<longrightarrow> even (length c)) \<and> list_all paired c"

lemma paired_content: "paired n \<Longrightarrow> c \<in> set (yn_content n) \<Longrightarrow> paired c"
  by (cases n) (auto simp: list_all_iff)

lemma paired_value: "paired n \<Longrightarrow> mapping_value (Some n) key = Some v \<Longrightarrow> paired v"
  using paired_content [of n v] by (auto simp: mapping_value_def dest: pair_value_mem split: if_splits)

lemma paired_nested: "paired n \<Longrightarrow> nested_mapping n path = Some s \<Longrightarrow> paired s"
  by (induction path arbitrary: n) (auto dest: paired_value split: option.splits if_splits)

lemma pair_value_append:
  "even (length cs) \<Longrightarrow> pair_value key (cs @ ds) = (case pair_value key cs of None \<Rightarrow> pair_value key ds | v \<Rightarrow> v)"
  by (induction key cs rule: pair_value.induct) auto

lemma patch_container_settles:
  "paired c \<Longrightarrow> \<not> fst (patch_container rest (snd (patch_container rest c)))"
  by (cases c) (auto simp: patch_container_def Let_def mapping_value_def pair_value_append scalar_def split: if_splits option.splits)

lemma patch_container_kept: "\<not> fst (patch_container rest c) \<Longrightarrow> snd (patch_container rest c) = c"
  by (auto simp: patch_container_def Let_def)

lemma map_snd_kept: "\<not> list_ex fst (map f xs) \<Longrightarrow> (\<And>x. x \<in> set xs \<Longrightarrow> \<not> fst (f x) \<Longrightarrow> snd (f x) = x) \<Longrightarrow> map snd (map f xs) = xs"
  by (induction xs) auto

lemma patch_list_kept: "\<not> fst (patch_container_list rest key s) \<Longrightarrow> snd (patch_container_list rest key s) = s"
  using map_snd_kept [of "patch_container rest"] patch_container_kept [of rest]
  by (auto simp: patch_container_list_def Let_def put_value_same split: option.splits if_splits)

lemma patch_list_cong: "mapping_value (Some s') key = mapping_value (Some s) key \<Longrightarrow>
    fst (patch_container_list rest key s') = fst (patch_container_list rest key s)"
  by (simp add: patch_container_list_def Let_def split: option.split)

lemma patch_list_other: "key' \<noteq> key \<Longrightarrow>
    mapping_value (Some (snd (patch_container_list rest key s))) key' = mapping_value (Some s) key'"
  by (auto simp: patch_container_list_def Let_def split: option.splits if_splits)

lemma patch_list_kind [simp]: "yn_kind (snd (patch_container_list rest key s)) = yn_kind s"
  by (auto simp: patch_container_list_def Let_def split: option.splits if_splits)

lemma patch_list_settles:
  assumes "paired s"
  shows "\<not> fst (patch_container_list rest key (snd (patch_container_list rest key s)))"
proof (cases "mapping_value (Some s) key")
  case (Some cs)
  have "\<not> fst (patch_container rest (snd (patch_container rest c)))" if "c \<in> set (yn_content cs)" for c
    by (rule patch_container_settles [OF paired_content [OF paired_value [OF assms Some] that]])
  with Some show ?thesis by (auto simp: patch_container_list_def Let_def list_ex_iff)
qed (simp add: patch_container_list_def)

definition pod_spec_lists :: "string list" where
  "pod_spec_lists = [''initContainers'', ''containers'', ''ephemeralContainers'']"

lemma patch_pod_spec_lists:
  "fst (patch_pod_spec rest s) \<longleftrightarrow> (\<exists>key \<in> set pod_spec_lists. fst (patch_container_list rest key s))"
proof -
  let ?p = "\<lambda>key s. snd (patch_container_list rest key s)"
  have "fst (patch_container_list rest ''containers'' (?p ''initContainers'' s)) = fst (patch_container_list rest ''containers'' s)"
    by (rule patch_list_cong) (simp add: patch_list_other)
  moreover have "fst (patch_container_list rest ''ephemeralContainers'' (?p ''containers'' (?p ''initContainers'' s)))
      = fst (patch_container_list rest ''ephemeralContainers'' s)"
    by (rule patch_list_cong) (simp add: patch_list_other)
  ultimately show ?thesis by (auto simp: patch_pod_spec_def pod_spec_lists_def split: prod.splits)
qed

lemma patch_pod_spec_snd: "snd (patch_pod_spec rest s) =
    snd (patch_container_list rest ''ephemeralContainers'' (snd (patch_container_list rest ''containers''
      (snd (patch_container_list rest ''initContainers'' s)))))"
  by (simp add: patch_pod_spec_def split: prod.split)

lemma patch_pod_spec_kept: "\<not> fst (patch_pod_spec rest s) \<Longrightarrow> snd (patch_pod_spec rest s) = s"
  unfolding patch_pod_spec_lists patch_pod_spec_snd by (simp add: pod_spec_lists_def patch_list_kept)

lemma patch_pod_spec_kind [simp]: "yn_kind (snd (patch_pod_spec rest s)) = yn_kind s"
  by (simp add: patch_pod_spec_snd)

lemma patch_list_value: "mapping_value (Some s') key = mapping_value (Some s) key \<Longrightarrow>
    mapping_value (Some (snd (patch_container_list rest key s'))) key = mapping_value (Some (snd (patch_container_list rest key s))) key"
  by (auto simp: patch_container_list_def Let_def split: option.splits)

lemma patch_pod_spec_value:
  assumes "key \<in> set pod_spec_lists"
  shows "mapping_value (Some (snd (patch_pod_spec rest s))) key = mapping_value (Some (snd (patch_container_list rest key s))) key"
  using assms unfolding patch_pod_spec_snd pod_spec_lists_def
  by (auto simp: patch_list_other intro!: patch_list_value)

lemma patch_pod_spec_settles: "paired s \<Longrightarrow> \<not> fst (patch_pod_spec rest (snd (patch_pod_spec rest s)))"
  using patch_list_cong [OF patch_pod_spec_value] patch_list_settles by (metis patch_pod_spec_lists)

lemma patch_workload_alt: "patch_workload rest path n =
    (case nested_mapping n path of None \<Rightarrow> (False, n)
     | Some s \<Rightarrow> (fst (patch_pod_spec rest s), put_nested path (snd (patch_pod_spec rest s)) n))"
  by (simp add: patch_workload_def case_prod_beta Let_def split: option.split)

lemma patch_workload_kept: "\<not> fst (patch_workload rest path n) \<Longrightarrow> snd (patch_workload rest path n) = n"
  by (auto simp: patch_workload_alt put_nested_same patch_pod_spec_kept split: option.splits)

lemma patch_workload_settles:
  assumes "paired n"
  shows "\<not> fst (patch_workload rest path (snd (patch_workload rest path n)))"
proof (cases "nested_mapping n path")
  case (Some s)
  let ?s' = "snd (patch_pod_spec rest s)"
  have "nested_mapping (put_nested path ?s' n) path = Some ?s'" by (rule nested_put [OF Some]) simp
  moreover have "\<not> fst (patch_pod_spec rest ?s')" by (rule patch_pod_spec_settles [OF paired_nested [OF assms Some]])
  ultimately show ?thesis using Some by (simp add: patch_workload_alt)
qed (simp add: patch_workload_alt)

lemma patch_workload_kind: "yn_kind (snd (patch_workload rest path n)) = yn_kind n"
  by (simp add: patch_workload_alt put_nested_kind split: option.split)

lemma pod_spec_path_head: "pod_spec_path kind = Some path \<Longrightarrow> \<exists>rest. path = ''spec'' # rest"
  by (auto simp: pod_spec_path_def split: if_splits)

lemma patch_workload_other:
  "key \<noteq> ''spec'' \<Longrightarrow> mapping_value (Some (snd (patch_workload rest (''spec'' # path) n))) key = mapping_value (Some n) key"
  by (simp add: patch_workload_alt put_nested_other del: nested_mapping.simps put_nested.simps split: option.split)

lemma root_put: "document_root n = Some r \<Longrightarrow> yn_kind r = MappingNode \<Longrightarrow> yn_kind r' = MappingNode \<Longrightarrow>
    document_root (put_root r' n) = Some r'"
  by (auto simp: document_root_def put_root_def split: if_splits list.splits)

lemma root_same: "document_root n = Some r \<Longrightarrow> put_root r n = n"
  by (cases n) (auto simp: document_root_def put_root_def split: if_splits list.splits)

lemma paired_root: "paired n \<Longrightarrow> document_root n = Some r \<Longrightarrow> paired r"
  using paired_content [of n r] by (auto simp: document_root_def split: if_splits list.splits)

text \<open>The four ways a document can go.\<close>

lemma patch_cases:
  obtains (none) "patch_pull_policies rest n = (False, n)"
  | (items) root items where "document_root n = Some root" "yn_kind root = MappingNode"
      "scalar_value (mapping_value (Some root) ''kind'') = ''List''" "mapping_value (Some root) ''items'' = Some items"
      "yn_kind items = SequenceNode"
      "patch_pull_policies rest n = (list_ex fst (map (patch_pull_policies rest) (yn_content items)),
         put_root (put_value ''items'' (with_content items (map snd (map (patch_pull_policies rest) (yn_content items)))) root) n)"
  | (workload) root path where "document_root n = Some root" "yn_kind root = MappingNode"
      "scalar_value (mapping_value (Some root) ''kind'') \<noteq> ''List''"
      "pod_spec_path (scalar_value (mapping_value (Some root) ''kind'')) = Some (''spec'' # path)"
      "patch_pull_policies rest n = (fst (patch_workload rest (''spec'' # path) root), put_root (snd (patch_workload rest (''spec'' # path) root)) n)"
proof (cases "document_root n")
  case None
  then show thesis by (intro none) (simp add: patch_pull_policies.simps)
next
  case (Some root)
  show thesis
  proof (cases "yn_kind root = MappingNode")
    case False
    with Some show thesis by (intro none) (simp add: patch_pull_policies.simps)
  next
    case map: True
    let ?kind = "scalar_value (mapping_value (Some root) ''kind'')"
    show thesis
    proof (cases "?kind = ''List''")
      case True
      show thesis
      proof (cases "mapping_value (Some root) ''items''")
        case None
        with Some map True show thesis by (intro none) (simp add: patch_pull_policies.simps)
      next
        case it: (Some items)
        show thesis
        proof (cases "yn_kind items = SequenceNode")
          case seq: True
          show thesis by (rule items [OF Some map True it seq])
            (simp add: patch_pull_policies.simps [of rest n] Some map True it seq Let_def)
        qed (use Some map True it in \<open>intro none, simp add: patch_pull_policies.simps\<close>)
      qed
    next
      case False
      show thesis
      proof (cases "pod_spec_path ?kind")
        case None
        with Some map False show thesis by (intro none) (simp add: patch_pull_policies.simps Let_def)
      next
        case p: (Some path)
        then obtain path' where path: "path = ''spec'' # path'" using pod_spec_path_head by blast
        show thesis by (rule workload [OF Some map False p [unfolded path]])
          (simp add: patch_pull_policies.simps [of rest n] Some map False p path case_prod_beta Let_def)
      qed
    qed
  qed
qed

lemma patch_kept: "\<not> fst (patch_pull_policies rest n) \<Longrightarrow> snd (patch_pull_policies rest n) = n"
proof (induction "size n" arbitrary: n rule: less_induct)
  case less
  show ?case
  proof (cases rest n rule: patch_cases)
    case (items root items)
    have "size c < size n" if "c \<in> set (yn_content items)" for c
      using that items root_size [of n root] content_size [of items root] content_size [of c items]
      by (auto simp: mapping_value_def dest!: pair_value_mem)
    then have "snd (patch_pull_policies rest c) = c" if "c \<in> set (yn_content items)" "\<not> fst (patch_pull_policies rest c)" for c
      using that less.hyps by blast
    then have "map snd (map (patch_pull_policies rest) (yn_content items)) = yn_content items"
      using items(6) less.prems by (intro map_snd_kept) auto
    then show ?thesis using items by (simp add: put_value_same root_same)
  next
    case (workload root path)
    then show ?thesis using less.prems by (simp add: patch_workload_kept root_same)
  qed simp
qed

lemma patch_settles: "paired n \<Longrightarrow> \<not> fst (patch_pull_policies rest (snd (patch_pull_policies rest n)))"
proof (induction "size n" arbitrary: n rule: less_induct)
  case less
  show ?case
  proof (cases rest n rule: patch_cases)
    case (items root items)
    have smaller: "size c < size n" if "c \<in> set (yn_content items)" for c
      using that items root_size [of n root] content_size [of items root] content_size [of c items]
      by (auto simp: mapping_value_def dest!: pair_value_mem)
    have "paired items" using paired_value [OF paired_root [OF less.prems items(1)] items(4)] .
    then have settled: "\<not> fst (patch_pull_policies rest (snd (patch_pull_policies rest c)))" if "c \<in> set (yn_content items)" for c
      using that smaller less.hyps paired_content by blast
    define rs where "rs = map (patch_pull_policies rest) (yn_content items)"
    define root' where "root' = put_value ''items'' (with_content items (map snd rs)) root"
    have k: "yn_kind root' = MappingNode" using items(2) by (simp add: root'_def)
    have r: "document_root (put_root root' n) = Some root'" by (rule root_put [OF items(1,2) k])
    have v: "mapping_value (Some root') ''kind'' = mapping_value (Some root) ''kind''"
      "mapping_value (Some root') ''items'' = Some (with_content items (map snd rs))"
      using items(4) by (simp_all add: root'_def)
    have n': "snd (patch_pull_policies rest n) = put_root root' n" using items(6) by (simp add: root'_def rs_def)
    have "fst (patch_pull_policies rest (put_root root' n)) = list_ex fst (map (patch_pull_policies rest) (map snd rs))"
      by (subst patch_pull_policies.simps) (simp add: r k v items(3,5) Let_def del: map_map)
    moreover have "\<not> list_ex fst (map (patch_pull_policies rest) (map snd rs))" using settled by (auto simp: list_ex_iff rs_def)
    ultimately show ?thesis unfolding n' by simp
  next
    case (workload root path)
    let ?root = "snd (patch_workload rest (''spec'' # path) root)"
    have k: "yn_kind ?root = MappingNode" using workload(2) by (simp add: patch_workload_kind)
    have r: "document_root (put_root ?root n) = Some ?root" by (rule root_put [OF workload(1,2) k])
    have kind: "mapping_value (Some ?root) ''kind'' = mapping_value (Some root) ''kind''"
      by (rule patch_workload_other) simp
    have "fst (patch_pull_policies rest (put_root ?root n)) = fst (patch_workload rest (''spec'' # path) ?root)"
      using workload(3,4) by (subst patch_pull_policies.simps) (simp add: r k kind Let_def case_prod_beta)
    moreover have "\<not> fst (patch_workload rest (''spec'' # path) ?root)"
      by (rule patch_workload_settles [OF paired_root [OF less.prems workload(1)]])
    ultimately show ?thesis using workload(5) by simp
  qed (simp)
qed

section \<open>What a patch may do\<close>

text \<open>
  One step gives one container without a policy, whose image would be pulled always by default,
  the policy \<open>IfNotPresent\<close>, somewhere in the document.
\<close>

inductive fill_step :: "'r \<Rightarrow> 'r yaml \<Rightarrow> 'r yaml \<Rightarrow> bool" for rest where
  here: "yn_kind c = MappingNode \<Longrightarrow> mapping_value (Some c) ''imagePullPolicy'' = None \<Longrightarrow>
     scalar_value (mapping_value (Some c) ''image'') \<noteq> [] \<Longrightarrow>
     uses_implicit_latest (scalar_value (mapping_value (Some c) ''image'')) \<Longrightarrow>
     fill_step rest c (with_content c (yn_content c @ [scalar rest ''imagePullPolicy'', scalar rest ''IfNotPresent'']))"
| inside: "fill_step rest c c' \<Longrightarrow> yn_content n = xs @ c # ys \<Longrightarrow> fill_step rest n (with_content n (xs @ c' # ys))"

abbreviation fills :: "'r \<Rightarrow> 'r yaml \<Rightarrow> 'r yaml \<Rightarrow> bool" where "fills rest \<equiv> (fill_step rest)\<^sup>*\<^sup>*"

lemma fills_inside:
  assumes "fills rest c c'" and "yn_content n = xs @ c # ys"
  shows "fills rest n (with_content n (xs @ c' # ys))"
  using assms(1)
proof (induction rule: rtranclp_induct)
  case base
  show ?case using with_content_same(1) [of n] assms(2) by simp
next
  case (step d d')
  have "fill_step rest (with_content n (xs @ d # ys)) (with_content (with_content n (xs @ d # ys)) (xs @ d' # ys))"
    by (rule fill_step.inside [OF step(2)]) simp
  with step.IH show ?case by simp
qed

lemma fills_list:
  "list_all2 (fills rest) cs cs' \<Longrightarrow> yn_content n = xs @ cs \<Longrightarrow> fills rest n (with_content n (xs @ cs'))"
proof (induction arbitrary: n xs rule: list_all2_induct)
  case Nil
  then show ?case using with_content_same(1) [of n] by simp
next
  case (Cons c cs c' cs')
  have "fills rest n (with_content n (xs @ c' # cs))" by (rule fills_inside [OF Cons.hyps(1) Cons.prems])
  moreover have "fills rest (with_content n (xs @ c' # cs)) (with_content (with_content n (xs @ c' # cs)) ((xs @ [c']) @ cs'))"
    by (rule Cons.IH) simp
  ultimately show ?case by simp
qed

lemma pair_value_split:
  "pair_value key cs = Some v \<Longrightarrow> \<exists>xs ys. cs = xs @ v # ys \<and> (\<forall>new. put_pair key new cs = xs @ new # ys)"
proof (induction key cs rule: pair_value.induct)
  case (1 key k w rest)
  show ?case
  proof (cases "yn_kind k = ScalarNode \<and> yn_text k = key")
    case True
    with 1(2) have "k # w # rest = [k] @ v # rest \<and> (\<forall>new. put_pair key new (k # w # rest) = [k] @ new # rest)" by simp
    then show ?thesis by blast
  next
    case False
    with 1 obtain xs ys where "rest = xs @ v # ys" "\<forall>new. put_pair key new rest = xs @ new # ys" by auto
    with False have "k # w # rest = (k # w # xs) @ v # ys \<and>
        (\<forall>new. put_pair key new (k # w # rest) = (k # w # xs) @ new # ys)" by auto
    then show ?thesis by blast
  qed
qed auto

lemma fills_put:
  assumes "mapping_value (Some n) key = Some v" and "fills rest v v'"
  shows "fills rest n (put_value key v' n)"
proof -
  have "pair_value key (yn_content n) = Some v" using assms(1) by (auto simp: mapping_value_def split: if_splits)
  then obtain xs ys where "yn_content n = xs @ v # ys" "put_pair key v' (yn_content n) = xs @ v' # ys"
    using pair_value_split by metis
  then show ?thesis using fills_inside [OF assms(2)] by (simp add: put_value_def)
qed

lemma fills_nested:
  "nested_mapping n path = Some s \<Longrightarrow> fills rest s s' \<Longrightarrow> fills rest n (put_nested path s' n)"
  by (induction path arbitrary: n) (auto intro: fills_put split: option.splits if_splits)

lemma fills_root: "document_root n = Some r \<Longrightarrow> fills rest r r' \<Longrightarrow> fills rest n (put_root r' n)"
  using fills_inside [of rest r r' n "[]"] by (auto simp: document_root_def put_root_def split: if_splits list.splits)

lemma fills_map: "(\<And>c. c \<in> set cs \<Longrightarrow> fills rest c (f c)) \<Longrightarrow> fills rest n (with_content n (map f cs))" if "yn_content n = cs"
  using fills_list [of rest cs "map f cs" n "[]"] that by (simp add: list_all2_conv_all_nth)

lemma patch_container_fills: "fills rest c (snd (patch_container rest c))"
  using fill_step.here [of c rest] by (auto simp: patch_container_def Let_def)

lemma patch_list_fills: "fills rest s (snd (patch_container_list rest key s))"
  by (auto simp: patch_container_list_def Let_def comp_def split: option.split
      intro!: fills_put fills_map [OF refl] patch_container_fills)

lemma patch_workload_fills: "fills rest n (snd (patch_workload rest path n))"
proof -
  have "fills rest s (snd (patch_pod_spec rest s))" for s
    unfolding patch_pod_spec_snd by (meson patch_list_fills rtranclp_trans)
  then show ?thesis by (auto simp: patch_workload_alt intro: fills_nested split: option.split)
qed

lemma patch_fills: "fills rest n (snd (patch_pull_policies rest n))"
proof (induction "size n" arbitrary: n rule: less_induct)
  case less
  show ?case
  proof (cases rest n rule: patch_cases)
    case (items root items)
    have "size c < size n" if "c \<in> set (yn_content items)" for c
      using that items root_size [of n root] content_size [of items root] content_size [of c items]
      by (auto simp: mapping_value_def dest!: pair_value_mem)
    then have "fills rest c (snd (patch_pull_policies rest c))" if "c \<in> set (yn_content items)" for c
      using that less.hyps by blast
    then have "fills rest items (with_content items (map (\<lambda>c. snd (patch_pull_policies rest c)) (yn_content items)))"
      by (rule fills_map [OF refl])
    from fills_root [OF items(1) fills_put [OF items(4) this]] show ?thesis using items(6) by (simp add: comp_def)
  next
    case (workload root path)
    from fills_root [OF workload(1) patch_workload_fills] show ?thesis using workload(5) by simp
  qed simp
qed

text \<open>
  C16: patching a document only ever gives the policy \<open>IfNotPresent\<close> to containers that have none
  and whose image would be pulled always by default; it reports a change exactly when it made
  one, and a second pass finds nothing to do.
\<close>

theorem patch_fills_once:
  assumes "paired document" and "patch_pull_policies rest document = (changed, patched)"
  shows "fills rest document patched \<and> (changed \<longleftrightarrow> patched \<noteq> document) \<and> patch_pull_policies rest patched = (False, patched)"
proof -
  have "\<not> fst (patch_pull_policies rest patched)" using patch_settles [OF assms(1), of rest] assms(2) by simp
  moreover from patch_kept [OF this] have "snd (patch_pull_policies rest patched) = patched" .
  moreover have "patched = document" if "\<not> changed" using patch_kept [of rest document] assms(2) that by simp
  ultimately show ?thesis using patch_fills [of rest document] assms(2) by (auto simp: prod_eq_iff)
qed

definition sample_pod :: "unit yaml" where
  "sample_pod = (let s = scalar (); m = (\<lambda>c. Node MappingNode ''!!map'' [] c ()) in
     m [s ''kind'', s ''Pod'', s ''spec'', m [s ''containers'', Node SequenceNode ''!!seq'' [] [m [s ''image'', s ''nginx'']] ()]])"

theorem patch_fills_once_witness:
  "\<exists>patched. patch_pull_policies () sample_pod = (True, patched) \<and> fills () sample_pod patched \<and>
     patch_pull_policies () patched = (False, patched)"
proof -
  obtain changed patched where p: "patch_pull_policies () sample_pod = (changed, patched)" by force
  have "fst (patch_pull_policies () sample_pod)" by code_simp
  then have "changed" by (simp add: p)
  moreover have "paired sample_pod" by code_simp
  ultimately show ?thesis using patch_fills_once [OF _ p] p by simp
qed

end
