(* ===== verification/Images.thy ===== *)
theory Images
  imports GoStrings GoConv "HOL-Library.List_Lexorder" "HOL-Library.Char_ord"
begin

text \<open>
  Image references and what a registry says about an image (store/image\_config.go). Parameters:
  HTTP, the parsing of URLs, and the decoding of JSON. A Go map of the decoded configuration is
  given as the list of its entries in the order Go visits them.
\<close>

section \<open>References\<close>

record image_ref =
  ir_host :: string
  ir_repo :: string
  ir_tag :: string
  ir_digest :: string

datatype ref_error = RefRequired | NoRepository string

definition docker_hub_registry_host :: string where "docker_hub_registry_host = ''registry-1.docker.io''"
definition docker_hub_mirror_host :: string where "docker_hub_mirror_host = ''docker.1ms.run''"

definition is_docker_hub_host :: "string \<Rightarrow> bool" where
  "is_docker_hub_host host \<longleftrightarrow> to_lower host \<in> set [''docker.io'', ''index.docker.io'', docker_hub_registry_host]"

definition names_host :: "string \<Rightarrow> bool" where
  "names_host candidate \<longleftrightarrow> list_ex (\<lambda>c. c \<in> set ''.:'') candidate \<or> candidate = ''localhost''"

definition split_tag :: "string \<Rightarrow> string \<times> string" where
  "split_tag s =
     (case last_index s CHR '':'' of
        Some i \<Rightarrow> if CHR ''/'' \<in> set (drop (i + 1) s) then (s, []) else (take i s, drop (i + 1) s)
      | None \<Rightarrow> (s, []))"

definition parse_image_ref :: "string \<Rightarrow> (ref_error, image_ref) result" where
  "parse_image_ref ref0 =
     (let ref = trim_space ref0 in
      if ref = [] then Err RefRequired
      else
        (let (name, suffix, found) = cut ref ''@'';
             (digest, ref) = (if found then (suffix, name) else ([], ref));
             (candidate, rest, found) = cut ref ''/'';
             (host, remainder) = (if found \<and> names_host candidate then (candidate, rest) else ([], ref));
             (remainder, tag) = split_tag remainder;
             host = (if host = [] then ''docker.io'' else host)
         in
         if remainder = [] then Err (NoRepository ref)
         else Ok \<lparr>ir_host = host,
                  ir_repo = (if is_docker_hub_host host \<and> CHR ''/'' \<notin> set remainder then ''library/'' @ remainder else remainder),
                  ir_tag = (if tag = [] \<and> digest = [] then ''latest'' else tag), ir_digest = digest\<rparr>))"

definition reference_name :: "image_ref \<Rightarrow> string" where
  "reference_name r =
     (if is_docker_hub_host (ir_host r) then trim_prefix (ir_repo r) ''library/'' else ir_host r @ ''/'' @ ir_repo r)"

definition format_image_ref :: "image_ref \<Rightarrow> string" where
  "format_image_ref r =
     (if ir_digest r \<noteq> [] then reference_name r @ ''@'' @ ir_digest r else reference_name r @ '':'' @ ir_tag r)"

definition split_image_ref :: "string \<Rightarrow> string \<times> string" where
  "split_image_ref ref =
     (case parse_image_ref ref of
        Inl _ \<Rightarrow> (trim_space ref, [])
      | Inr r \<Rightarrow> (reference_name r, if ir_digest r \<noteq> [] then ir_digest r else ir_tag r))"

definition parse_platform :: "string \<Rightarrow> string \<times> string" where
  "parse_platform platform =
     (let (os, arch, found) = cut (trim_space platform) ''/'' in
      if \<not> found \<or> os = [] \<or> arch = [] then (''linux'', ''amd64'') else (os, arch))"

definition registry_endpoint :: "string \<Rightarrow> string" where
  "registry_endpoint host = (if is_docker_hub_host host then docker_hub_registry_host else host)"

definition docker_hub_mirror :: "string \<Rightarrow> string" where
  "docker_hub_mirror setting = (if equal_fold (trim_space setting) ''never'' then [] else docker_hub_mirror_host)"

definition repository_display_name :: "string \<Rightarrow> string" where
  "repository_display_name repo = (case last_index repo CHR ''/'' of Some i \<Rightarrow> drop (i + 1) repo | None \<Rightarrow> repo)"

definition first_non_empty :: "string list \<Rightarrow> string" where
  "first_non_empty vs = (case find (\<lambda>v. trim_space v \<noteq> []) vs of Some v \<Rightarrow> v | None \<Rightarrow> [])"

section \<open>The configuration of an image\<close>

record image_port =
  ip_port :: int
  ip_protocol :: string

definition exposed_port :: "string \<Rightarrow> image_port option" where
  "exposed_port key =
     (let (spec, protocol, found) = cut key ''/'';
          protocol = (if found then protocol else ''tcp'')
      in case atoi (trim_space spec) of
           None \<Rightarrow> None
         | Some port \<Rightarrow> if port \<le> 0 \<or> port > 65535 then None else Some \<lparr>ip_port = port, ip_protocol = to_upper protocol\<rparr>)"

definition parse_exposed_ports :: "string list \<Rightarrow> image_port list" where
  "parse_exposed_ports keys = sort_key ip_port (List.map_filter exposed_port keys)"

definition base_env_names :: "string list" where
  "base_env_names = [''PATH'', ''HOME'', ''HOSTNAME'', ''TERM'', ''PWD'', ''SHLVL'', ''LANG'', ''LANGUAGE'', ''LC_ALL'',
     ''DEBIAN_FRONTEND'', ''GPG_KEYS'', ''GOPATH'', ''GOTOOLCHAIN'', ''PHPIZE_DEPS'']"

definition base_env_prefixes :: "string list" where
  "base_env_prefixes = [''PHP_'', ''PYTHON_'', ''NODE_'', ''NPM_CONFIG_'', ''YARN_'', ''RUBY_'', ''RUBYGEMS_'', ''GOLANG_'',
     ''JAVA_'', ''PERL_'', ''COMPOSER_'', ''APACHE_'', ''NGINX_'', ''OPENSSL_'']"

definition base_env_suffixes :: "string list" where
  "base_env_suffixes = [''_VERSION'', ''_SHA256'', ''_SHA512'', ''_MD5'', ''_ASC_URL'', ''_CFLAGS'', ''_CPPFLAGS'',
     ''_LDFLAGS'', ''_DEPS'', ''_LIBS'', ''_KEYS'', ''_APPS'']"

definition is_configurable_env :: "string \<Rightarrow> string \<Rightarrow> bool" where
  "is_configurable_env name val =
     (let upper = to_upper name in
      upper \<notin> set base_env_names \<and> \<not> list_ex (has_prefix upper) base_env_prefixes \<and>
      \<not> list_ex (has_suffix upper) base_env_suffixes \<and>
      length val \<le> 200 \<and> newline \<notin> set val \<and> tab \<notin> set val)"

record image_env =
  ie_name :: string
  ie_value :: string
  ie_configurable :: bool

definition parse_image_env :: "string list \<Rightarrow> image_env list" where
  "parse_image_env entries = List.map_filter (\<lambda>entry.
     let (name, val, found) = cut entry ''='' in
     if \<not> found \<or> name = [] then None
     else Some \<lparr>ie_name = name, ie_value = val, ie_configurable = is_configurable_env name val\<rparr>) entries"

record database_hint =
  dh_engine :: string
  dh_host_env :: string
  dh_port_env :: string
  dh_name_env :: string
  dh_user_env :: string
  dh_password_env :: string
  dh_name :: string
  dh_user :: string

definition database_host_suffixes :: "string list" where
  "database_host_suffixes = [''DB_HOST'', ''DATABASE_HOST'', ''MYSQL_HOST'', ''MARIADB_HOST'', ''POSTGRES_HOST'',
     ''POSTGRESQL_HOST'', ''PGHOST'']"

definition env_values :: "image_env list \<Rightarrow> string \<rightharpoonup> string" where
  "env_values env = map_of (rev (map (\<lambda>e. (to_upper (ie_name e), ie_value e)) env))"

definition pick_env :: "(string \<rightharpoonup> string) \<Rightarrow> string \<Rightarrow> string list \<Rightarrow> string" where
  "pick_env vals base candidates =
     (case find (\<lambda>c. vals (base @ c) \<noteq> None) candidates of Some c \<Rightarrow> base @ c | None \<Rightarrow> [])"

definition database_hint_of :: "(string \<rightharpoonup> string) \<Rightarrow> image_env \<Rightarrow> database_hint option" where
  "database_hint_of vals item =
     (let name = to_upper (ie_name item) in
      if \<not> list_ex (\<lambda>s. name = s \<or> has_suffix name (''_'' @ s)) database_host_suffixes then None
      else
        (let base = trim_suffix name ''HOST'';
             name_env = pick_env vals base [''NAME'', ''DATABASE'', ''DB''];
             user_env = pick_env vals base [''USER'', ''USERNAME''];
             password_env = pick_env vals base [''PASSWORD'', ''PASS'', ''PASSWD''];
             at = (\<lambda>k. case vals k of Some v \<Rightarrow> v | None \<Rightarrow> [])
         in if name_env = [] \<or> user_env = [] \<or> password_env = [] then None
            else Some \<lparr>dh_engine = (if contains base ''POSTGRES'' \<or> has_prefix base ''PG'' then ''postgres'' else ''mysql''),
                       dh_host_env = ie_name item, dh_port_env = pick_env vals base [''PORT''], dh_name_env = name_env,
                       dh_user_env = user_env, dh_password_env = password_env, dh_name = at name_env, dh_user = at user_env\<rparr>))"

fun first_hint :: "(string \<rightharpoonup> string) \<Rightarrow> image_env list \<Rightarrow> database_hint option" where
  "first_hint vals [] = None"
| "first_hint vals (item # items) =
     (case database_hint_of vals item of Some h \<Rightarrow> Some h | None \<Rightarrow> first_hint vals items)"

definition detect_database_hint :: "image_env list \<Rightarrow> database_hint option" where
  "detect_database_hint env = first_hint (env_values env) env"

record image_blob =
  ib_arch :: string
  ib_os :: string
  ib_user :: string
  ib_exposed :: "string list"
  ib_env :: "string list"
  ib_entrypoint :: "string list"
  ib_cmd :: "string list"
  ib_volumes :: "string list"
  ib_workdir :: string
  ib_labels :: "string \<rightharpoonup> string"

record image_config =
  im_image :: string
  im_registry :: string
  im_repository :: string
  im_tag :: string
  im_digest :: string
  im_platform :: string
  im_title :: string
  im_description :: string
  im_vendor :: string
  im_version :: string
  im_source :: string
  im_user :: string
  im_workdir :: string
  im_entrypoint :: "string list"
  im_cmd :: "string list"
  im_ports :: "image_port list"
  im_volumes :: "string list"
  im_env :: "image_env list"
  im_labels :: "string \<rightharpoonup> string"
  im_database :: "database_hint option"

definition build_image_config :: "image_blob \<Rightarrow> string \<Rightarrow> string \<Rightarrow> string \<Rightarrow> image_config" where
  "build_image_config blob host repo tag =
     (let label = (\<lambda>k. case ib_labels blob k of Some v \<Rightarrow> v | None \<Rightarrow> []);
          env = parse_image_env (ib_env blob)
      in \<lparr>im_image = [], im_registry = host, im_repository = repo, im_tag = tag, im_digest = [],
          im_platform = trim_set (ib_os blob @ ''/'' @ ib_arch blob) ''/'',
          im_title = first_non_empty [label ''org.opencontainers.image.title'', repository_display_name repo],
          im_description = first_non_empty [label ''org.opencontainers.image.description'', label ''org.label-schema.description''],
          im_vendor = first_non_empty [label ''org.opencontainers.image.vendor'', label ''maintainer''],
          im_version = label ''org.opencontainers.image.version'',
          im_source = first_non_empty [label ''org.opencontainers.image.url'', label ''org.opencontainers.image.source''],
          im_user = ib_user blob, im_workdir = ib_workdir blob, im_entrypoint = ib_entrypoint blob, im_cmd = ib_cmd blob,
          im_ports = parse_exposed_ports (ib_exposed blob), im_volumes = sort (ib_volumes blob),
          im_env = env, im_labels = ib_labels blob, im_database = detect_database_hint env\<rparr>)"

section \<open>The registry\<close>

record oci_descriptor =
  oc_digest :: string
  oc_platform :: "(string \<times> string) option"

record oci_manifest =
  mf_config :: string
  mf_manifests :: "oci_descriptor list"

fun select_platform :: "oci_descriptor list \<Rightarrow> string \<Rightarrow> string \<Rightarrow> oci_descriptor option \<Rightarrow> oci_descriptor option" where
  "select_platform [] os arch fallback = fallback"
| "select_platform (e # es) os arch fallback =
     (case oc_platform e of
        None \<Rightarrow> select_platform es os arch fallback
      | Some (eos, earch) \<Rightarrow>
          if eos = ''unknown'' \<or> earch = ''unknown'' then select_platform es os arch fallback
          else if eos = os \<and> earch = arch then Some e
          else select_platform es os arch (if fallback = None \<and> eos = os then Some e else fallback))"

datatype registry_error =
    BadRequest string | Unreachable string | ReadFailed string | NotThere | BadStatus int | RejectedPull
  | NoRealm | BadRealm | TokenFailed string | TokenStatus int | TokenUnreadable string | NoToken
  | ManifestUnreadable string | NoVariant | NoConfigBlob | ConfigUnreadable string

record response =
  rs_status :: int
  rs_challenge :: string
  rs_body :: "string + string"

text \<open>
  HTTP: a request has a URL, what it accepts and a token; there may be no answer. The token
  endpoint of a realm, with the service and the scope of the challenge, is \<open>hp\_token\_url\<close>,
  nothing when the realm is no usable URL.
\<close>

record 'k http =
  hp_request_ok :: "string \<Rightarrow> string option"
  hp_do :: "string \<Rightarrow> string \<Rightarrow> string \<Rightarrow> 'k \<Rightarrow> (string + response) \<times> 'k"
  hp_escape :: "string \<Rightarrow> string"
  hp_token_url :: "string \<Rightarrow> (string \<times> string) list \<Rightarrow> string option"
  hp_token :: "string \<Rightarrow> string + (string \<times> string)"
  hp_manifest :: "string \<Rightarrow> string + oci_manifest"
  hp_config :: "string \<Rightarrow> string + image_blob"

definition is_key_char :: "char \<Rightarrow> bool" where
  "is_key_char c \<longleftrightarrow> ascii_letter c \<or> c = CHR ''_''"

definition match_param :: "string \<Rightarrow> (string \<times> string \<times> string) option" where
  "match_param s =
     (let key = takeWhile is_key_char s; rest = dropWhile is_key_char s in
      if key \<noteq> [] \<and> has_prefix rest [CHR ''='', dquote] then
        (let (val, after, found) = cut (drop 2 rest) [dquote] in if found then Some (key, val, after) else None)
      else None)"

lemma match_param_shorter: "match_param s = Some (k, v, rest) \<Longrightarrow> length rest < length s"
proof -
  assume "match_param s = Some (k, v, rest)"
  then have "cut (drop 2 (dropWhile is_key_char s)) [dquote] = (v, rest, True)"
    by (auto simp: match_param_def Let_def split: if_splits prod.splits)
  from cut_found [OF this] have "length rest < length (drop 2 (dropWhile is_key_char s))" by simp
  also have "\<dots> \<le> length s" using length_dropWhile_le [of is_key_char s] by simp
  finally show ?thesis .
qed

function challenge_params :: "string \<Rightarrow> (string \<times> string) list" where
  "challenge_params s =
     (case match_param s of
        Some (k, v, rest) \<Rightarrow> (to_lower k, v) # challenge_params rest
      | None \<Rightarrow> (case s of [] \<Rightarrow> [] | _ # cs \<Rightarrow> challenge_params cs))"
  by pat_completeness auto
termination by (relation "measure length") (auto dest: match_param_shorter)

declare challenge_params.simps [simp del]

definition challenge_value :: "string \<Rightarrow> string \<Rightarrow> string" where
  "challenge_value challenge key = (case map_of (rev (challenge_params challenge)) key of Some v \<Rightarrow> v | None \<Rightarrow> [])"

definition fetch_registry_token :: "'k http \<Rightarrow> string \<Rightarrow> 'k \<Rightarrow> (registry_error, string) result \<times> 'k" where
  "fetch_registry_token H challenge k =
     (let realm = challenge_value challenge ''realm'' in
      if realm = [] then (Err NoRealm, k)
      else case hp_token_url H realm (filter (\<lambda>(p, v). v \<noteq> [])
             [(''service'', challenge_value challenge ''service''), (''scope'', challenge_value challenge ''scope'')]) of
        None \<Rightarrow> (Err BadRealm, k)
      | Some url \<Rightarrow>
          (case hp_request_ok H url of
             Some e \<Rightarrow> (Err (BadRequest e), k)
           | None \<Rightarrow>
              (case hp_do H url ''application/json'' [] k of
                 (Inl e, k) \<Rightarrow> (Err (TokenFailed e), k)
               | (Inr resp, k) \<Rightarrow>
                   (if rs_status resp \<noteq> 200 then Err (TokenStatus (rs_status resp))
                    else case (case rs_body resp of Inl e \<Rightarrow> Inl e | Inr body \<Rightarrow> hp_token H body) of
                      Inl e \<Rightarrow> Err (TokenUnreadable e)
                    | Inr (token, access) \<Rightarrow>
                        (let t = first_non_empty [token, access] in if t = [] then Err NoToken else Ok t), k))))"

definition answer_body :: "response \<Rightarrow> (registry_error, string) result" where
  "answer_body resp =
     (case rs_body resp of
        Inl e \<Rightarrow> Err (ReadFailed e)
      | Inr body \<Rightarrow> if rs_status resp = 404 then Err NotThere
          else if rs_status resp \<noteq> 200 then Err (BadStatus (rs_status resp)) else Ok body)"

text \<open>Two attempts at most: the second with the token the first was asked for.\<close>

fun registry_attempts ::
  "'k http \<Rightarrow> string \<Rightarrow> string \<Rightarrow> nat \<Rightarrow> nat \<Rightarrow> string \<Rightarrow> 'k \<Rightarrow> ((registry_error, string) result \<times> string) \<times> 'k" where
  "registry_attempts H url accept attempt 0 token k = ((Err RejectedPull, token), k)"
| "registry_attempts H url accept attempt (Suc left) token k =
     (case hp_request_ok H url of
        Some e \<Rightarrow> ((Err (BadRequest e), token), k)
      | None \<Rightarrow>
         (case hp_do H url accept token k of
            (Inl e, k) \<Rightarrow> ((Err (Unreachable e), token), k)
          | (Inr resp, k) \<Rightarrow>
              if rs_status resp = 401 \<and> attempt = 0 then
                (case fetch_registry_token H (rs_challenge resp) k of
                   (Inl e, k) \<Rightarrow> ((Err e, token), k)
                 | (Inr token, k) \<Rightarrow> registry_attempts H url accept (attempt + 1) left token k)
              else ((answer_body resp, token), k)))"

definition registry_get ::
  "'k http \<Rightarrow> string \<Rightarrow> string \<Rightarrow> string \<Rightarrow> string \<Rightarrow> string \<Rightarrow> 'k \<Rightarrow> ((registry_error, string) result \<times> string) \<times> 'k" where
  "registry_get H host repo path accept token k =
     registry_attempts H (''https://'' @ host @ ''/v2/'' @ repo @ ''/'' @ path) accept 0 2 token k"

definition manifest_accept :: string where
  "manifest_accept = join '', '' [''application/vnd.oci.image.index.v1+json'', ''application/vnd.oci.image.manifest.v1+json'',
     ''application/vnd.docker.distribution.manifest.list.v2+json'', ''application/vnd.docker.distribution.manifest.v2+json'']"

definition fetch_manifest ::
  "'k http \<Rightarrow> string \<Rightarrow> string \<Rightarrow> string \<Rightarrow> string \<Rightarrow> 'k \<Rightarrow> ((registry_error, oci_manifest) result \<times> string) \<times> 'k" where
  "fetch_manifest H host repo reference token k =
     (case registry_get H host repo (''manifests/'' @ hp_escape H reference) manifest_accept token k of
        ((Inl e, token), k) \<Rightarrow> ((Err e, token), k)
      | ((Inr body, token), k) \<Rightarrow>
          ((case hp_manifest H body of Inl e \<Rightarrow> Err (ManifestUnreadable e) | Inr m \<Rightarrow> Ok m, token), k))"

definition fetch_image_config ::
  "'k http \<Rightarrow> string \<Rightarrow> image_ref \<Rightarrow> string \<Rightarrow> string \<Rightarrow> 'k \<Rightarrow> (registry_error, image_config) result \<times> 'k" where
  "fetch_image_config H endpoint r os arch k =
     (case fetch_manifest H endpoint (ir_repo r) (if ir_digest r = [] then ir_tag r else ir_digest r) [] k of
        ((Inl e, token), k) \<Rightarrow> (Err e, k)
      | ((Inr manifest, token), k) \<Rightarrow>
          (case (if mf_manifests manifest = [] then ((Ok (manifest, ir_digest r), token), k)
                 else case select_platform (mf_manifests manifest) os arch None of
                   None \<Rightarrow> ((Err NoVariant, token), k)
                 | Some e \<Rightarrow>
                     (case fetch_manifest H endpoint (ir_repo r) (oc_digest e) token k of
                        ((Inl e, token), k) \<Rightarrow> ((Err e, token), k)
                      | ((Inr m, token), k) \<Rightarrow> ((Ok (m, oc_digest e), token), k))) of
             ((Inl e, token), k) \<Rightarrow> (Err e, k)
           | ((Inr (manifest, digest), token), k) \<Rightarrow>
               if mf_config manifest = [] then (Err NoConfigBlob, k)
               else
                 (case registry_get H endpoint (ir_repo r) (''blobs/'' @ hp_escape H (mf_config manifest)) [] token k of
                    ((Inl e, token), k) \<Rightarrow> (Err e, k)
                  | ((Inr blob, token), k) \<Rightarrow>
                      ((case hp_config H blob of
                          Inl e \<Rightarrow> Err (ConfigUnreadable e)
                        | Inr parsed \<Rightarrow>
                            Ok ((build_image_config parsed (ir_host r) (ir_repo r) (ir_tag r))\<lparr>im_digest := digest\<rparr>)), k))))"

fun try_endpoints ::
  "'k http \<Rightarrow> image_ref \<Rightarrow> string \<Rightarrow> string \<Rightarrow> string list \<Rightarrow> registry_error option \<Rightarrow> 'k
     \<Rightarrow> (registry_error option, image_config) result \<times> 'k" where
  "try_endpoints H r os arch [] err k = (Err err, k)"
| "try_endpoints H r os arch (e # es) err k =
     (case fetch_image_config H e r os arch k of
        (Inl err, k) \<Rightarrow> try_endpoints H r os arch es (Some err) k
      | (Inr c, k) \<Rightarrow> (Ok (c\<lparr>im_image := format_image_ref r\<rparr>), k))"

definition image_endpoints :: "string \<Rightarrow> string \<Rightarrow> string list" where
  "image_endpoints setting host =
     registry_endpoint host # (if is_docker_hub_host host \<and> docker_hub_mirror setting \<noteq> [] then [docker_hub_mirror setting] else [])"

text \<open>The cache of the store is asked first and filled last; both are parameters.\<close>

definition get_image_config ::
  "'k http \<Rightarrow> (string \<Rightarrow> 'k \<Rightarrow> image_config option) \<Rightarrow> (string \<Rightarrow> image_config \<Rightarrow> 'k \<Rightarrow> 'k) \<Rightarrow> string \<Rightarrow> string \<Rightarrow> string \<Rightarrow> 'k
     \<Rightarrow> (ref_error + registry_error option, image_config) result \<times> 'k" where
  "get_image_config H cached keep setting ref platform k =
     (case parse_image_ref ref of
        Inl e \<Rightarrow> (Err (Inl e), k)
      | Inr r \<Rightarrow>
          (let (os, arch) = parse_platform platform;
               key = ''image-config:'' @ ir_host r @ ''/'' @ ir_repo r @ '':'' @ ir_tag r @ ''@'' @ ir_digest r @ ''|'' @ os @ ''/'' @ arch
           in case cached key k of
                Some c \<Rightarrow> (Ok c, k)
              | None \<Rightarrow>
                  (case try_endpoints H r os arch (image_endpoints setting (ir_host r)) None k of
                     (Inl e, k) \<Rightarrow> (Err (Inr e), k)
                   | (Inr c, k) \<Rightarrow> (Ok c, keep key c k))))"

section \<open>References survive printing\<close>

definition hub_name :: "string \<Rightarrow> string \<Rightarrow> bool" where
  "hub_name repo name \<longleftrightarrow> name \<noteq> [] \<and>
     (repo = ''library/'' @ name \<and> CHR ''/'' \<notin> set name \<or>
      repo = name \<and> CHR ''/'' \<in> set name \<and> \<not> has_prefix name ''library/'' \<and>
        \<not> names_host (takeWhile (\<lambda>c. c \<noteq> CHR ''/'') name))"

lemma hub_name_chars: "hub_name repo name \<Longrightarrow> set name \<subseteq> set repo"
  unfolding hub_name_def by (metis order_refl set_append Un_upper2)

text \<open>The references that parsing is meant for.\<close>

definition canonical_ref :: "image_ref \<Rightarrow> bool" where
  "canonical_ref r \<longleftrightarrow>
     list_all visible (ir_host r @ ir_repo r @ ir_tag r @ ir_digest r) \<and> ir_repo r \<noteq> [] \<and>
     CHR ''@'' \<notin> set (ir_host r @ ir_repo r @ ir_tag r) \<and> CHR '':'' \<notin> set (ir_repo r @ ir_tag r) \<and>
     CHR ''/'' \<notin> set (ir_host r @ ir_tag r) \<and> (ir_digest r = [] \<longleftrightarrow> ir_tag r \<noteq> []) \<and>
     (if is_docker_hub_host (ir_host r) then ir_host r = ''docker.io'' \<and> hub_name (ir_repo r) (reference_name r)
      else names_host (ir_host r))"

lemma split_tag_tagged: "CHR '':'' \<notin> set tag \<Longrightarrow> CHR ''/'' \<notin> set tag \<Longrightarrow> split_tag (x @ CHR '':'' # tag) = (x, tag)"
  by (simp add: split_tag_def last_index_snoc)

lemma split_tag_plain: "CHR '':'' \<notin> set x \<Longrightarrow> split_tag x = (x, [])"
  using last_index_None [of x "CHR '':''"] by (simp add: split_tag_def)

lemma takeWhile_split: "c \<in> set s \<Longrightarrow> \<exists>b. s = takeWhile (\<lambda>x. x \<noteq> c) s @ c # b"
  by (induction s) auto

text \<open>The part before a digest: a name of the hub, or a host and a repository, and a tag or none.\<close>

definition parse_named :: "string \<Rightarrow> string \<Rightarrow> (ref_error, image_ref) result" where
  "parse_named ref digest =
     (let (candidate, rest, found) = cut ref ''/'';
          (host, remainder) = (if found \<and> names_host candidate then (candidate, rest) else ([], ref));
          (remainder, tag) = split_tag remainder;
          host = (if host = [] then ''docker.io'' else host)
      in
      if remainder = [] then Err (NoRepository ref)
      else Ok \<lparr>ir_host = host,
               ir_repo = (if is_docker_hub_host host \<and> CHR ''/'' \<notin> set remainder then ''library/'' @ remainder else remainder),
               ir_tag = (if tag = [] \<and> digest = [] then ''latest'' else tag), ir_digest = digest\<rparr>)"

lemma parse_image_ref_named: "parse_image_ref ref0 =
    (if trim_space ref0 = [] then Err RefRequired
     else let (name, suffix, found) = cut (trim_space ref0) ''@'' in
       parse_named (if found then name else trim_space ref0) (if found then suffix else []))"
  by (auto simp: parse_image_ref_def parse_named_def Let_def split: prod.split)

definition tagged :: "string \<Rightarrow> string" where "tagged tag = (if tag = [] then [] else CHR '':'' # tag)"

lemma split_tag_tagged': "CHR '':'' \<notin> set (x @ tag) \<Longrightarrow> CHR ''/'' \<notin> set tag \<Longrightarrow> split_tag (x @ tagged tag) = (x, tag)"
  by (simp add: tagged_def split_tag_tagged split_tag_plain)

lemma parse_named_hub:
  assumes "hub_name repo name" and "CHR '':'' \<notin> set (name @ tag)" "CHR ''/'' \<notin> set tag" and "digest = [] \<longleftrightarrow> tag \<noteq> []"
  shows "parse_named (name @ tagged tag) digest =
    Ok \<lparr>ir_host = ''docker.io'', ir_repo = repo, ir_tag = tag, ir_digest = digest\<rparr>"
proof -
  obtain candidate rest found where c: "cut (name @ tagged tag) ''/'' = (candidate, rest, found)" by (metis prod_cases3)
  have no: "\<not> (found \<and> names_host candidate)"
  proof (cases "CHR ''/'' \<in> set name")
    case True
    then obtain b where b: "name = takeWhile (\<lambda>x. x \<noteq> CHR ''/'') name @ CHR ''/'' # b" using takeWhile_split by metis
    have "CHR ''/'' \<notin> set (takeWhile (\<lambda>x. x \<noteq> CHR ''/'') name)" by (auto dest: set_takeWhileD)
    from cut_char [OF this, of "b @ tagged tag"] b c have "candidate = takeWhile (\<lambda>x. x \<noteq> CHR ''/'') name"
      by (metis append.assoc append_Cons prod.inject)
    then show ?thesis using assms(1) True by (auto simp: hub_name_def)
  next
    case False
    then have "CHR ''/'' \<notin> set (name @ tagged tag)" using assms(3) by (auto simp: tagged_def)
    from cut_none [OF this] c show ?thesis by simp
  qed
  have hub: "is_docker_hub_host ''docker.io''" by code_simp
  have "split_tag (name @ tagged tag) = (name, tag)" using assms by (intro split_tag_tagged') auto
  with no c hub assms(1,4) show ?thesis by (auto simp: parse_named_def Let_def hub_name_def)
qed

lemma parse_named_host:
  assumes "names_host host" "host \<noteq> []" "\<not> is_docker_hub_host host" "repo \<noteq> []"
    and "CHR ''/'' \<notin> set (host @ tag)" "CHR '':'' \<notin> set (repo @ tag)" and "digest = [] \<longleftrightarrow> tag \<noteq> []"
  shows "parse_named (host @ ''/'' @ repo @ tagged tag) digest = Ok \<lparr>ir_host = host, ir_repo = repo, ir_tag = tag, ir_digest = digest\<rparr>"
proof -
  have "cut (host @ ''/'' @ repo @ tagged tag) ''/'' = (host, repo @ tagged tag, True)" using assms(5) by simp
  moreover have "split_tag (repo @ tagged tag) = (repo, tag)" using assms(5,6) by (intro split_tag_tagged') auto
  ultimately show ?thesis using assms by (simp add: parse_named_def Let_def)
qed

text \<open>
  C18: a canonical image reference, printed the way the interface shows it, reads back as itself:
  the host and the \<open>library\<close> namespace that Docker Hub leaves out are put back, and the tag or the
  digest is the same.
\<close>

theorem image_ref_roundtrip:
  assumes "canonical_ref r"
  shows "parse_image_ref (format_image_ref r) = Ok r"
proof -
  note c = assms [unfolded canonical_ref_def]
  have fmt: "format_image_ref r = reference_name r @ tagged (ir_tag r) @ (if ir_digest r = [] then [] else CHR ''@'' # ir_digest r)"
    using c by (auto simp: format_image_ref_def tagged_def)
  have named: "parse_named (reference_name r @ tagged (ir_tag r)) (ir_digest r) = Ok r"
  proof (cases "is_docker_hub_host (ir_host r)")
    case True
    then have "set (reference_name r) \<subseteq> set (ir_repo r)" using c hub_name_chars by metis
    then have "CHR '':'' \<notin> set (reference_name r @ ir_tag r)" using c by auto
    with parse_named_hub [of "ir_repo r" "reference_name r" "ir_tag r" "ir_digest r"] True c show ?thesis by simp
  next
    case False
    have "ir_host r \<noteq> []" using c False by (auto simp: names_host_def)
    with parse_named_host [of "ir_host r" "ir_repo r" "ir_tag r" "ir_digest r"] False c
    show ?thesis by (simp add: reference_name_def)
  qed
  have name: "set (reference_name r) \<subseteq> set (ir_host r @ ''/'' @ ir_repo r)"
  proof (cases "is_docker_hub_host (ir_host r)")
    case True
    then show ?thesis using c hub_name_chars [of "ir_repo r" "reference_name r"] by auto
  qed (simp add: reference_name_def)
  have vis: "list_all visible (format_image_ref r)"
  proof -
    have "visible (CHR ''/'')" "visible (CHR '':'')" "visible (CHR ''@'')" by code_simp+
    with c name show ?thesis unfolding fmt tagged_def list_all_iff by auto
  qed
  have at: "CHR ''@'' \<notin> set (reference_name r @ tagged (ir_tag r))" using c name by (auto simp: tagged_def)
  have ne: "format_image_ref r \<noteq> []" using c by (auto simp: fmt tagged_def)
  show ?thesis
  proof (cases "ir_digest r = []")
    case True
    with at ne vis named show ?thesis
      by (simp add: parse_image_ref_named trim_space_visible fmt cut_none Let_def)
  next
    case False
    have "cut ((reference_name r @ tagged (ir_tag r)) @ CHR ''@'' # ir_digest r) ''@'' =
        (reference_name r @ tagged (ir_tag r), ir_digest r, True)" by (rule cut_char [OF at])
    with False ne vis named show ?thesis by (simp add: parse_image_ref_named trim_space_visible fmt Let_def)
  qed
qed

theorem image_ref_roundtrip_witness:
  "parse_image_ref (format_image_ref \<lparr>ir_host = ''docker.io'', ir_repo = ''library/nginx'', ir_tag = ''1.27'', ir_digest = []\<rparr>)
     = Ok \<lparr>ir_host = ''docker.io'', ir_repo = ''library/nginx'', ir_tag = ''1.27'', ir_digest = []\<rparr>"
  by (rule image_ref_roundtrip) code_simp

section \<open>The error that never is\<close>

lemma answer_not_rejected: "answer_body resp \<noteq> Err RejectedPull"
  by (simp add: answer_body_def split: sum.split)

lemma token_not_rejected: "fetch_registry_token H challenge k = (Inl e, k') \<Longrightarrow> e \<noteq> RejectedPull"
  by (auto simp: fetch_registry_token_def Let_def split: prod.splits sum.splits option.splits if_splits)

lemma second_attempt: "fst (fst (registry_attempts H url accept (Suc 0) (Suc 0) token k)) \<noteq> Err RejectedPull"
  using answer_not_rejected by (simp split: prod.split sum.split option.split)

lemma registry_get_never_rejects: "fst (fst (registry_get H host repo path accept token k)) \<noteq> Err RejectedPull"
proof -
  let ?url = "''https://'' @ host @ ''/v2/'' @ repo @ ''/'' @ path"
  obtain res k1 where d: "hp_do H ?url accept token k = (res, k1)" by force
  have get: "registry_get H host repo path accept token k = registry_attempts H ?url accept 0 (Suc (Suc 0)) token k"
    by (simp only: registry_get_def numeral_2_eq_2)
  note step = get registry_attempts.simps(2) [of H ?url accept 0 "Suc 0" token k]
  show ?thesis
  proof (cases "hp_request_ok H ?url")
    case (Some e)
    then show ?thesis unfolding step by simp
  next
    case None
    show ?thesis
    proof (cases res)
      case (Inl e)
      with None d show ?thesis unfolding step by simp
    next
      case (Inr resp)
      obtain tok k2 where t: "fetch_registry_token H (rs_challenge resp) k1 = (tok, k2)" by force
      show ?thesis
      proof (cases "rs_status resp = 401")
        case True
        have "fst (fst (case tok of Inl e \<Rightarrow> ((Err e, token), k2)
            | Inr token \<Rightarrow> registry_attempts H ?url accept (Suc 0) (Suc 0) token k2)) \<noteq> Err RejectedPull"
          using t by (cases tok) (auto simp: second_attempt dest: token_not_rejected simp del: registry_attempts.simps)
        with None d Inr t True show ?thesis unfolding step by (cases tok) (simp_all del: registry_attempts.simps)
      next
        case False
        with None d Inr show ?thesis unfolding step by (simp add: answer_not_rejected)
      qed
    qed
  qed
qed

end
