(* ===== verification/Databases.thy ===== *)
theory Databases
  imports Kube GoStrings GoConv
begin

text \<open>
  The databases CasOS knows how to run (controllers/database\_engine.go) and the tuning of their
  settings (controllers/database\_params.go). Parameters: the API server, the JSON of the two
  annotations, and \<open>%q\<close>.
\<close>

section \<open>Engines\<close>

record database_param =
  dp_key :: string
  dp_label :: string
  dp_kind :: string
  dp_default :: string
  dp_options :: "string list"
  dp_hint :: string

datatype env_var = SecretEnv string string string | PlainEnv string string

record database_engine =
  de_key :: string
  de_label :: string
  de_image :: string
  de_versions :: "string list"
  de_port :: int
  de_data_path :: string
  de_default_user :: string
  de_fixed_user :: bool
  de_has_name :: bool
  de_env :: "string \<Rightarrow> env_var list"
  de_run :: "string list \<Rightarrow> string list \<times> string list"
  de_flag :: "string \<Rightarrow> string \<Rightarrow> string list"
  de_params :: "database_param list"
  de_suffix :: string
  de_dump :: "string \<Rightarrow> string"
  de_restore :: "string \<Rightarrow> string"
  de_restart :: bool
  de_console :: "string list"
  de_uri :: "string \<Rightarrow> string \<Rightarrow> string \<Rightarrow> string \<Rightarrow> int \<Rightarrow> string"

definition in_quotes :: "string \<Rightarrow> string" where "in_quotes s = dquote # s @ [dquote]"

definition param :: "string \<Rightarrow> string \<Rightarrow> string \<Rightarrow> string \<Rightarrow> string list \<Rightarrow> string \<Rightarrow> database_param" where
  "param key lab kind def0 options hint =
     \<lparr>dp_key = key, dp_label = lab, dp_kind = kind, dp_default = def0, dp_options = options, dp_hint = hint\<rparr>"

definition server_run :: "string \<Rightarrow> string list \<Rightarrow> string list \<times> string list" where
  "server_run server flags = (if flags = [] then ([], []) else ([], server # flags))"

definition long_flag :: "string \<Rightarrow> string \<Rightarrow> string list" where
  "long_flag key val = [''--'' @ key @ ''='' @ val]"

definition postgresql_params :: "database_param list" where
  "postgresql_params = [param ''max_connections'' ''Maximum connections'' ''int'' ''100'' [] [],
        param ''shared_buffers'' ''Shared buffers'' ''size'' ''128MB'' [] ''Roughly a quarter of the memory limit.'',
        param ''work_mem'' ''Work memory per sort'' ''size'' ''4MB'' [] [],
        param ''effective_cache_size'' ''Effective cache size'' ''size'' ''4GB'' [] ''What the planner assumes the OS is caching.'',
        param ''log_min_duration_statement'' ''Log statements slower than (ms)'' ''int'' ''-1'' [] ''-1 turns slow-statement logging off.'']"

definition postgresql :: "(string \<Rightarrow> string) \<Rightarrow> database_engine" where
  "postgresql quoted =
     \<lparr>de_key = ''postgresql'', de_label = ''PostgreSQL'', de_image = ''postgres'',
      de_versions = [''17-alpine'', ''16-alpine'', ''15-alpine''], de_port = 5432, de_data_path = ''/var/lib/postgresql/data'',
      de_default_user = ''postgres'', de_fixed_user = False, de_has_name = True,
      de_env = (\<lambda>s. [SecretEnv ''POSTGRES_USER'' s ''username'', SecretEnv ''POSTGRES_PASSWORD'' s ''password'',
        SecretEnv ''POSTGRES_DB'' s ''database'', SecretEnv ''PGPASSWORD'' s ''password'',
        PlainEnv ''PGDATA'' ''/var/lib/postgresql/data/pgdata'']),
      de_run = server_run ''postgres'', de_flag = (\<lambda>key val. [''-c'', key @ ''='' @ val]),
      de_params = postgresql_params,
      de_suffix = ''.sql.gz'',
      de_dump = (\<lambda>path. ''pg_dump -U '' @ in_quotes ''$POSTGRES_USER'' @ '' -d '' @ in_quotes ''$POSTGRES_DB'' @ '' | gzip > '' @ quoted path),
      de_restore = (\<lambda>path. ''gunzip -c '' @ quoted path @ '' | psql -U '' @ in_quotes ''$POSTGRES_USER'' @ '' -d '' @ in_quotes ''$POSTGRES_DB''),
      de_restart = False,
      de_console = [''sh'', ''-c'', ''exec psql -U '' @ in_quotes ''$POSTGRES_USER'' @ '' -d '' @ in_quotes ''$POSTGRES_DB''],
      de_uri = (\<lambda>user password database host port.
        ''postgresql://'' @ user @ '':'' @ password @ ''@'' @ host @ '':'' @ itoa port @ ''/'' @ database)\<rparr>"

definition mysql_params :: "database_param list" where
  "mysql_params = [param ''max_connections'' ''Maximum connections'' ''int'' ''151'' [] [],
        param ''innodb_buffer_pool_size'' ''InnoDB buffer pool'' ''size'' ''128M'' [] ''The single setting that matters most for read speed.'',
        param ''max_allowed_packet'' ''Maximum packet size'' ''size'' ''64M'' [] [],
        param ''slow_query_log'' ''Slow query log'' ''enum'' ''OFF'' [''OFF'', ''ON''] [],
        param ''long_query_time'' ''Slow query threshold (s)'' ''int'' ''10'' [] []]"

definition mysql :: "(string \<Rightarrow> string) \<Rightarrow> database_engine" where
  "mysql quoted =
     \<lparr>de_key = ''mysql'', de_label = ''MySQL'', de_image = ''mysql'', de_versions = [''8.4'', ''8.0''], de_port = 3306,
      de_data_path = ''/var/lib/mysql'', de_default_user = ''root'', de_fixed_user = True, de_has_name = True,
      de_env = (\<lambda>s. [SecretEnv ''MYSQL_ROOT_PASSWORD'' s ''password'', SecretEnv ''MYSQL_DATABASE'' s ''database'']),
      de_run = server_run ''mysqld'', de_flag = long_flag,
      de_params = mysql_params,
      de_suffix = ''.sql.gz'',
      de_dump = (\<lambda>path. ''mysqldump -u root -p'' @ in_quotes ''$MYSQL_ROOT_PASSWORD'' @ '' --databases '' @ in_quotes ''$MYSQL_DATABASE''
        @ '' | gzip > '' @ quoted path),
      de_restore = (\<lambda>path. ''gunzip -c '' @ quoted path @ '' | mysql -u root -p'' @ in_quotes ''$MYSQL_ROOT_PASSWORD''),
      de_restart = False,
      de_console = [''sh'', ''-c'', ''exec mysql -u root -p'' @ in_quotes ''$MYSQL_ROOT_PASSWORD'' @ '' '' @ in_quotes ''$MYSQL_DATABASE''],
      de_uri = (\<lambda>user password database host port.
        ''mysql://'' @ user @ '':'' @ password @ ''@'' @ host @ '':'' @ itoa port @ ''/'' @ database)\<rparr>"

definition mongo_login :: string where
  "mongo_login = in_quotes ''$MONGO_INITDB_ROOT_USERNAME''"

definition mongo_password :: string where
  "mongo_password = in_quotes ''$MONGO_INITDB_ROOT_PASSWORD''"

definition mongodb_params :: "database_param list" where
  "mongodb_params = [
        param ''wiredTigerCacheSizeGB'' ''WiredTiger cache (GB)'' ''int'' ''0'' [] ''0 lets MongoDB size the cache from the memory it can see.'',
        param ''slowms'' ''Slow operation threshold (ms)'' ''int'' ''100'' [] [],
        param ''profile'' ''Profiling level'' ''enum'' ''0'' [''0'', ''1'', ''2''] ''0 off, 1 slow operations, 2 everything.'']"

definition mongodb :: "(string \<Rightarrow> string) \<Rightarrow> database_engine" where
  "mongodb quoted =
     \<lparr>de_key = ''mongodb'', de_label = ''MongoDB'', de_image = ''mongo'', de_versions = [''8'', ''7'', ''6''], de_port = 27017,
      de_data_path = ''/data/db'', de_default_user = ''root'', de_fixed_user = False, de_has_name = True,
      de_env = (\<lambda>s. [SecretEnv ''MONGO_INITDB_ROOT_USERNAME'' s ''username'', SecretEnv ''MONGO_INITDB_ROOT_PASSWORD'' s ''password'',
        SecretEnv ''MONGO_INITDB_DATABASE'' s ''database'']),
      de_run = server_run ''mongod'', de_flag = long_flag,
      de_params = mongodb_params,
      de_suffix = ''.archive.gz'',
      de_dump = (\<lambda>path. ''mongodump --username '' @ mongo_login @ '' --password '' @ mongo_password
        @ '' --authenticationDatabase admin --archive='' @ quoted path @ '' --gzip''),
      de_restore = (\<lambda>path. ''mongorestore --username '' @ mongo_login @ '' --password '' @ mongo_password
        @ '' --authenticationDatabase admin --archive='' @ quoted path @ '' --gzip --drop''),
      de_restart = False,
      de_console = [''sh'', ''-c'', ''exec mongosh -u '' @ mongo_login @ '' -p '' @ mongo_password @ '' --authenticationDatabase admin''],
      de_uri = (\<lambda>user password database host port. ''mongodb://'' @ user @ '':'' @ password @ ''@'' @ host @ '':'' @ itoa port @ ''/''
        @ database @ ''?authSource=admin'')\<rparr>"

definition redis_password :: string where
  "redis_password = in_quotes ''$REDIS_PASSWORD''"

definition redis_line :: string where
  "redis_line = ''exec redis-server --requirepass '' @ redis_password @ '' --appendonly yes''"

definition redis_run :: "string list \<Rightarrow> string list \<times> string list" where
  "redis_run flags = ([''sh'', ''-c'', redis_line @ (if flags \<noteq> [] then '' '' @ join '' '' flags else [])], [])"

definition redis_params :: "database_param list" where
  "redis_params = [param ''maxmemory'' ''Memory limit'' ''size'' ''0'' [] ''0 means no limit of its own.'',
        param ''maxmemory-policy'' ''What to drop when full'' ''enum'' ''noeviction'' [''noeviction'', ''allkeys-lru'', ''allkeys-lfu'',
          ''volatile-lru'', ''volatile-lfu'', ''volatile-ttl'', ''volatile-random'', ''allkeys-random''] [],
        param ''timeout'' ''Idle client timeout (s)'' ''int'' ''0'' [] []]"

definition redis :: "(string \<Rightarrow> string) \<Rightarrow> database_engine" where
  "redis quoted =
     \<lparr>de_key = ''redis'', de_label = ''Redis'', de_image = ''redis'', de_versions = [''7-alpine'', ''6-alpine''], de_port = 6379,
      de_data_path = ''/data'', de_default_user = ''default'', de_fixed_user = True, de_has_name = False,
      de_env = (\<lambda>s. [SecretEnv ''REDIS_PASSWORD'' s ''password'']),
      de_run = redis_run, de_flag = (\<lambda>key val. [''--'' @ key, val]),
      de_params = redis_params,
      de_suffix = ''.rdb.gz'',
      de_dump = (\<lambda>path. ''redis-cli -a '' @ redis_password @ '' --no-auth-warning SAVE && gzip -c /data/dump.rdb > '' @ quoted path),
      de_restore = (\<lambda>path. ''gunzip -c '' @ quoted path @ '' > /data/dump.rdb''),
      de_restart = True,
      de_console = [''sh'', ''-c'', ''exec redis-cli -a '' @ redis_password @ '' --no-auth-warning''],
      de_uri = (\<lambda>user password database host port. ''redis://:'' @ password @ ''@'' @ host @ '':'' @ itoa port)\<rparr>"

definition database_engine_order :: "string list" where
  "database_engine_order = [''postgresql'', ''mysql'', ''mongodb'', ''redis'']"

definition engine_by_key :: "(string \<Rightarrow> string) \<Rightarrow> string \<Rightarrow> database_engine option" where
  "engine_by_key quoted key =
     map_of [(''postgresql'', postgresql quoted), (''mysql'', mysql quoted), (''mongodb'', mongodb quoted), (''redis'', redis quoted)] key"

definition version_or_default :: "database_engine \<Rightarrow> string \<Rightarrow> string" where
  "version_or_default e version = (if version \<in> set (de_versions e) then version else hd (de_versions e))"

section \<open>Settings\<close>

datatype param_error = NotAValue string string | NotWhole string | NotASize string | NotAnOption string "string list"

definition is_letter :: "char \<Rightarrow> bool" where
  "is_letter c \<longleftrightarrow> ascii_letter c"

definition value_char :: "char \<Rightarrow> bool" where
  "value_char c \<longleftrightarrow> is_digit c \<or> is_letter c \<or> c \<in> set ''_.-''"

text \<open>\<open>^-?[0-9A-Za-z\_.-]\{1,32\}$\<close>; the class contains the dash.\<close>

definition param_value :: "string \<Rightarrow> bool" where
  "param_value v \<longleftrightarrow> v \<noteq> [] \<and> list_all value_char v \<and> (length v \<le> 32 \<or> length v = 33 \<and> hd v = CHR ''-'')"

definition size_value :: "string \<Rightarrow> bool" where
  "size_value v \<longleftrightarrow> takeWhile is_digit v \<noteq> [] \<and> length (dropWhile is_digit v) \<le> 2 \<and> list_all is_letter (dropWhile is_digit v)"

definition validate_param :: "database_param \<Rightarrow> string \<Rightarrow> param_error option" where
  "validate_param p v =
     (if \<not> param_value v then Some (NotAValue (dp_key p) v)
      else if dp_kind p = ''int'' then (if atoi v = None then Some (NotWhole (dp_key p)) else None)
      else if dp_kind p = ''size'' then (if \<not> size_value v then Some (NotASize (dp_key p)) else None)
      else if dp_kind p = ''enum'' then (if v \<notin> set (dp_options p) then Some (NotAnOption (dp_key p) (dp_options p)) else None)
      else None)"

fun param_flags ::
  "(string \<Rightarrow> string \<Rightarrow> string list) \<Rightarrow> database_param list \<Rightarrow> (string \<rightharpoonup> string) \<Rightarrow> (param_error, string list) result" where
  "param_flags flag [] vals = Ok []"
| "param_flags flag (p # ps) vals =
     (case vals (dp_key p) of
        None \<Rightarrow> param_flags flag ps vals
      | Some v \<Rightarrow>
          if v = [] \<or> v = dp_default p then param_flags flag ps vals
          else (case validate_param p v of
              Some e \<Rightarrow> Err e
            | None \<Rightarrow> (case param_flags flag ps vals of Inl e \<Rightarrow> Err e | Inr fs \<Rightarrow> Ok (flag (dp_key p) v @ fs))))"

record db_container =
  sc_name :: string
  sc_image :: string
  sc_command :: "string list"
  sc_args :: "string list"

definition apply_params ::
  "database_engine \<Rightarrow> (string \<rightharpoonup> string) \<Rightarrow> db_container \<Rightarrow> (param_error, db_container) result" where
  "apply_params e vals c =
     (case param_flags (de_flag e) (de_params e) vals of
        Inl err \<Rightarrow> Err err
      | Inr flags \<Rightarrow> (let (command, args) = de_run e flags in Ok (c\<lparr>sc_command := command, sc_args := args\<rparr>)))"

section \<open>The record of what was tuned\<close>

record param_change =
  pc_key :: string
  pc_from :: string
  pc_to :: string

record history_entry =
  he_at :: string
  he_changes :: "param_change list"

record stateful_set =
  ss_ns :: string
  ss_name :: string
  ss_labels :: "string \<rightharpoonup> string"
  ss_annotations :: "string \<rightharpoonup> string"
  ss_containers :: "db_container list"

text \<open>JSON objects of strings are lists of their members; what does not decode reads as far as it does.\<close>

record json_codec =
  js_params :: "(string \<times> string) list \<Rightarrow> string option"
  js_read_params :: "string \<Rightarrow> (string \<times> string) list"
  js_history :: "history_entry list \<Rightarrow> string option"
  js_read_history :: "string \<Rightarrow> history_entry list"

definition params_annotation :: string where "params_annotation = ''casos.io/db-params''"
definition history_annotation :: string where "history_annotation = ''casos.io/db-param-history''"
definition history_limit :: nat where "history_limit = 20"

definition text_at :: "(string \<rightharpoonup> string) \<Rightarrow> string \<Rightarrow> string" where
  "text_at m k = (case m k of None \<Rightarrow> [] | Some v \<Rightarrow> v)"

definition read_params :: "json_codec \<Rightarrow> stateful_set \<Rightarrow> string \<rightharpoonup> string" where
  "read_params J s =
     (let raw = text_at (ss_annotations s) params_annotation in
      if raw = [] then Map.empty else map_of (rev (js_read_params J raw)))"

definition read_history :: "json_codec \<Rightarrow> stateful_set \<Rightarrow> history_entry list" where
  "read_history J s =
     (let raw = text_at (ss_annotations s) history_annotation in if raw = [] then [] else js_read_history J raw)"

definition write_params :: "json_codec \<Rightarrow> (string \<times> string) list \<Rightarrow> history_entry list \<Rightarrow> stateful_set \<Rightarrow> stateful_set" where
  "write_params J vals history s =
     (let a = ss_annotations s;
          a = (case js_params J vals of Some t \<Rightarrow> a(params_annotation \<mapsto> t) | None \<Rightarrow> a);
          history = (if length history > history_limit then take history_limit history else history);
          a = (case js_history J history of Some t \<Rightarrow> a(history_annotation \<mapsto> t) | None \<Rightarrow> a)
      in s\<lparr>ss_annotations := a\<rparr>)"

definition effective_value :: "database_param \<Rightarrow> (string \<rightharpoonup> string) \<Rightarrow> string" where
  "effective_value p vals = (case vals (dp_key p) of Some v \<Rightarrow> if v \<noteq> [] then v else dp_default p | None \<Rightarrow> dp_default p)"

definition managed_by_label :: string where "managed_by_label = ''app.kubernetes.io/managed-by''"
definition engine_label :: string where "engine_label = ''casos.io/database-engine''"

definition owned_database :: "stateful_set \<Rightarrow> bool" where
  "owned_database s \<longleftrightarrow> text_at (ss_labels s) managed_by_label = ''casos'' \<and> text_at (ss_labels s) engine_label \<noteq> []"

section \<open>Configuring\<close>

text \<open>The loop over the settings: what to store, and what changes.\<close>

definition wanted_value :: "database_param \<Rightarrow> (string \<rightharpoonup> string) \<Rightarrow> string" where
  "wanted_value p requested = (case requested (dp_key p) of Some v \<Rightarrow> if v = [] then dp_default p else v | None \<Rightarrow> dp_default p)"

fun tune ::
  "database_param list \<Rightarrow> (string \<rightharpoonup> string) \<Rightarrow> (string \<rightharpoonup> string)
     \<Rightarrow> (param_error, (string \<times> string) list \<times> param_change list) result" where
  "tune [] requested previous = Ok ([], [])"
| "tune (p # ps) requested previous =
     (let v = wanted_value p requested in
      case validate_param p v of
        Some e \<Rightarrow> Err e
      | None \<Rightarrow>
          (case tune ps requested previous of
             Inl e \<Rightarrow> Err e
           | Inr (next, changes) \<Rightarrow>
               Ok ((if v \<noteq> dp_default p then [(dp_key p, v)] else []) @ next,
                   (if effective_value p previous \<noteq> v
                    then [\<lparr>pc_key = dp_key p, pc_from = effective_value p previous, pc_to = v\<rparr>] else []) @ changes)))"

datatype db_error =
    BodyUnreadable | NameMissing | DbApi api_error | NotOwned | UnknownEngine string | NoContainer | BadParam param_error

text \<open>What a request makes of a StatefulSet: the changes, and the object to write if there are any.\<close>

definition configured ::
  "(string \<Rightarrow> string) \<Rightarrow> json_codec \<Rightarrow> string \<Rightarrow> (string \<rightharpoonup> string) \<Rightarrow> stateful_set
     \<Rightarrow> (db_error, param_change list \<times> stateful_set) result" where
  "configured quoted J now1 requested s =
     (if \<not> owned_database s then Err NotOwned
      else case engine_by_key quoted (text_at (ss_labels s) engine_label) of
        None \<Rightarrow> Err (UnknownEngine (text_at (ss_labels s) engine_label))
      | Some e \<Rightarrow>
          (case ss_containers s of
             [] \<Rightarrow> Err NoContainer
           | c # cs \<Rightarrow>
               (case tune (de_params e) requested (read_params J s) of
                  Inl err \<Rightarrow> Err (BadParam err)
                | Inr (next, changes) \<Rightarrow>
                    if changes = [] then Ok ([], s)
                    else (case apply_params e (map_of next) c of
                        Inl err \<Rightarrow> Err (BadParam err)
                      | Inr c' \<Rightarrow>
                          Ok (changes, write_params J next (\<lparr>he_at = now1, he_changes = changes\<rparr> # read_history J s)
                            (s\<lparr>ss_containers := c' # cs\<rparr>))))))"

definition configure_database ::
  "(string \<Rightarrow> string) \<Rightarrow> (stateful_set, 'k) resource \<Rightarrow> json_codec \<Rightarrow> string
     \<Rightarrow> (string \<times> string \<times> (string \<rightharpoonup> string)) option \<Rightarrow> 'k \<Rightarrow> (db_error, nat) result \<times> 'k" where
  "configure_database quoted R J now1 body k =
     (case body of
        None \<Rightarrow> (Err BodyUnreadable, k)
      | Some (ns0, name, requested) \<Rightarrow>
          (let ns = (if ns0 = [] then ''default'' else ns0) in
           if name = [] then (Err NameMissing, k)
           else case r_get R ns name k of
             (Inl e, k) \<Rightarrow> (Err (DbApi e), k)
           | (Inr s, k) \<Rightarrow>
               (case configured quoted J now1 requested s of
                  Inl e \<Rightarrow> (Err e, k)
                | Inr (changes, s') \<Rightarrow>
                    if changes = [] then (Ok 0, k)
                    else (case r_update R s' k of
                        (Inl e, k) \<Rightarrow> (Err (DbApi e), k)
                      | (Inr _, k) \<Rightarrow> (Ok (length changes), k)))))"

definition shown_values :: "database_engine \<Rightarrow> (string \<rightharpoonup> string) \<Rightarrow> (string \<times> string) list" where
  "shown_values e stored = map (\<lambda>p. (dp_key p, effective_value p stored)) (de_params e)"

definition get_database_params ::
  "(string \<Rightarrow> string) \<Rightarrow> (stateful_set, 'k) resource \<Rightarrow> json_codec \<Rightarrow> string \<Rightarrow> string \<Rightarrow> 'k
     \<Rightarrow> (db_error, string \<times> database_param list \<times> (string \<times> string) list \<times> history_entry list) result \<times> 'k" where
  "get_database_params quoted R J ns0 name k =
     (case r_get R (if ns0 = [] then ''default'' else ns0) name k of
        (Inl e, k) \<Rightarrow> (Err (DbApi e), k)
      | (Inr s, k) \<Rightarrow>
          (if \<not> owned_database s then Err NotOwned
           else case engine_by_key quoted (text_at (ss_labels s) engine_label) of
             None \<Rightarrow> Err (UnknownEngine (text_at (ss_labels s) engine_label))
           | Some e \<Rightarrow> Ok (de_key e, de_params e, shown_values e (read_params J s), read_history J s), k))"

section \<open>What reaches the command line\<close>

text \<open>
  What a shell makes of a line, as POSIX has it, for lines of literal words and of variables in double quotes; None is a
  line that means more: a character outside quotes that the shell reads as anything but itself, or other quotes.
\<close>

datatype sh_mode = Between | In_word string | Opened string | Naming string string

definition sh_special :: "char \<Rightarrow> bool" where
  "sh_special c \<longleftrightarrow> c \<in> set (squote # dquote # ''|&;<>()$`*?[]#~=%!{} '') \<or> c \<in> {CHR 0x5C, CHR 0x09, CHR 0x0A}"

fun sh_words :: "(string \<Rightarrow> string) \<Rightarrow> sh_mode \<Rightarrow> string \<Rightarrow> string list option" where
  "sh_words env Between [] = Some []"
| "sh_words env (In_word w) [] = Some [w]"
| "sh_words env (Opened w) [] = None"
| "sh_words env (Naming w n) [] = None"
| "sh_words env Between (c # s) =
     (if c = CHR '' '' then sh_words env Between s
      else if c = dquote then sh_words env (Opened []) s
      else if sh_special c then None else sh_words env (In_word [c]) s)"
| "sh_words env (In_word w) (c # s) =
     (if c = CHR '' '' then map_option ((#) w) (sh_words env Between s)
      else if c = dquote then sh_words env (Opened w) s
      else if sh_special c then None else sh_words env (In_word (w @ [c])) s)"
| "sh_words env (Opened w) (c # s) = (if c = CHR ''$'' then sh_words env (Naming w []) s else None)"
| "sh_words env (Naming w n) (c # s) =
     (if c = dquote then (if n = [] then None else sh_words env (In_word (w @ env n)) s)
      else if ascii_letter c \<or> c = CHR ''_'' then sh_words env (Naming w (n @ [c])) s else None)"

text \<open>The words a container starts: through a shell, or the arguments of its image.\<close>

definition started_words :: "(string \<Rightarrow> string) \<Rightarrow> db_container \<Rightarrow> string list option" where
  "started_words env c =
     (case sc_command c of
        [] \<Rightarrow> Some (sc_args c)
      | [sh, opt, line] \<Rightarrow> if sh = ''sh'' \<and> opt = ''-c'' \<and> sc_args c = [] then sh_words env Between line else None
      | _ \<Rightarrow> None)"

text \<open>The words meant: the server of the engine, and the words of each setting in its syntax.\<close>

definition server_words :: "(string \<Rightarrow> string) \<Rightarrow> string \<Rightarrow> string list" where
  "server_words env key =
     (if key = ''redis'' then [''exec'', ''redis-server'', ''--requirepass'', env ''REDIS_PASSWORD'', ''--appendonly'', ''yes'']
      else if key = ''postgresql'' then [''postgres''] else if key = ''mysql'' then [''mysqld''] else [''mongod''])"

definition option_words :: "string \<Rightarrow> string \<times> string \<Rightarrow> string list" where
  "option_words key kv =
     (case kv of (k, v) \<Rightarrow>
        if key = ''redis'' then [''--'' @ k, v]
        else if key = ''postgresql'' then [''-c'', k @ ''='' @ v] else [''--'' @ k @ ''='' @ v])"

text \<open>The settings that are given a value other than their default.\<close>

definition given_options :: "database_param list \<Rightarrow> (string \<rightharpoonup> string) \<Rightarrow> (string \<times> string) list" where
  "given_options ps vals =
     List.map_filter (\<lambda>p. case vals (dp_key p) of None \<Rightarrow> None
       | Some v \<Rightarrow> if v = [] \<or> v = dp_default p then None else Some (dp_key p, v)) ps"

lemma engine_selects [simp]:
  "de_params (postgresql quoted) = postgresql_params" "de_params (mysql quoted) = mysql_params"
  "de_params (mongodb quoted) = mongodb_params" "de_params (redis quoted) = redis_params"
  "de_run (postgresql quoted) = server_run ''postgres''" "de_run (mysql quoted) = server_run ''mysqld''"
  "de_run (mongodb quoted) = server_run ''mongod''" "de_run (redis quoted) = redis_run"
  "de_flag (postgresql quoted) = (\<lambda>key val. [''-c'', key @ ''='' @ val])" "de_flag (mysql quoted) = long_flag"
  "de_flag (mongodb quoted) = long_flag" "de_flag (redis quoted) = (\<lambda>key val. [''--'' @ key, val])"
  by (simp_all only: postgresql_def mysql_def mongodb_def redis_def database_engine.select_convs)

lemma engine_cases:
  assumes "engine_by_key quoted key = Some e"
  obtains "key = ''postgresql''" "e = postgresql quoted" | "key = ''mysql''" "e = mysql quoted"
    | "key = ''mongodb''" "e = mongodb quoted" | "key = ''redis''" "e = redis quoted"
  using assms by (auto simp: engine_by_key_def split: if_splits)

lemma engine_keys:
  assumes "engine_by_key quoted key = Some e"
  shows "distinct (map dp_key (de_params e)) \<and> list_all (\<lambda>p. list_all value_char (dp_key p)) (de_params e)"
proof -
  have "list_all (\<lambda>ps. distinct (map dp_key ps) \<and> list_all (\<lambda>p. list_all value_char (dp_key p)) ps)
      [postgresql_params, mysql_params, mongodb_params, redis_params]" by code_simp
  note ok = this [simplified]
  show ?thesis by (rule engine_cases [OF assms]) (simp_all add: ok)
qed

lemma engine_flag:
  assumes "engine_by_key quoted key = Some e"
  shows "de_flag e k v = option_words key (k, v)"
  by (rule engine_cases [OF assms]) (simp_all add: option_words_def long_flag_def)

lemma validate_chars: "validate_param p v = None \<Longrightarrow> v \<noteq> [] \<and> list_all value_char v"
  by (auto simp: validate_param_def param_value_def split: if_splits)

lemma param_flags_words:
  "param_flags flag ps vals = Inr flags \<Longrightarrow> list_all (\<lambda>p. list_all value_char (dp_key p)) ps \<Longrightarrow>
    flags = concat (map (\<lambda>(k, v). flag k v) (given_options ps vals)) \<and>
    list_all (\<lambda>(k, v). list_all value_char k \<and> v \<noteq> [] \<and> list_all value_char v) (given_options ps vals)"
proof (induction ps arbitrary: flags)
  case (Cons p ps)
  then show ?case
    using validate_chars [of p]
    by (auto simp: given_options_def map_filter_simps split: option.splits if_splits sum.splits)
qed (simp add: given_options_def map_filter_simps)

lemma value_char_plain: "value_char c \<Longrightarrow> \<not> sh_special c"
  by (auto simp: value_char_def is_letter_def is_digit_def sh_special_def less_eq_char_def)

lemma sh_plain: "list_all (\<lambda>c. \<not> sh_special c) w \<Longrightarrow> sh_words env (In_word x) (w @ s) = sh_words env (In_word (x @ w)) s"
proof (induction w arbitrary: x)
  case (Cons c w)
  moreover have "sh_special (CHR '' '')" "sh_special dquote" by (simp_all add: sh_special_def)
  ultimately show ?case by auto
qed simp

lemma sh_join:
  "list_all (\<lambda>w. w \<noteq> [] \<and> list_all (\<lambda>c. \<not> sh_special c) w) ws \<Longrightarrow> ws \<noteq> [] \<Longrightarrow>
   sh_words env Between (join '' '' ws) = Some ws"
proof (induction ws rule: induct_list012)
  case (2 w)
  then obtain c w' where w: "w = c # w'" by (cases w) auto
  have "sh_special (CHR '' '')" "sh_special dquote" by (simp_all add: sh_special_def)
  then have "sh_words env Between (w @ []) = sh_words env (In_word w) []"
    using 2 w sh_plain [of w' env "[c]" "[]"] by auto
  then show ?case by simp
next
  case (3 w v ws)
  then obtain c w' where w: "w = c # w'" by (cases w) auto
  have "sh_special (CHR '' '')" "sh_special dquote" by (simp_all add: sh_special_def)
  then have "sh_words env Between (w @ s) = sh_words env (In_word w) s" for s
    using 3 w sh_plain [of w' env "[c]" s] by auto
  then show ?case using 3 by simp
qed simp

lemma redis_line_words:
  "sh_words env Between (redis_line @ s) =
     map_option ((@) [''exec'', ''redis-server'', ''--requirepass'', env ''REDIS_PASSWORD'', ''--appendonly''])
       (sh_words env (In_word ''yes'') s)"
proof -
  have l: "redis_line = ''exec redis-server --requirepass '' @ dquote # ''$REDIS_PASSWORD'' @ dquote # '' --appendonly yes''"
    by (simp add: redis_line_def redis_password_def in_quotes_def)
  show ?thesis
    unfolding l
    by (cases "sh_words env (In_word ''yes'') s") (simp_all add: sh_special_def)
qed

text \<open>
  C19: a container of a database starts exactly the words that are meant: the server of its engine, followed, setting by
  setting, by the words of each one that was given a value other than its default. For Redis these words come from a line
  a shell reads: nothing in the line is anything to the shell but a literal word, except the password of the environment
  in its quotes, which stays one word.
\<close>

theorem shell_words_harmless:
  assumes "engine_by_key quoted key = Some e" and "apply_params e vals c = Ok c'"
  shows "started_words env c' =
    Some (if key \<noteq> ''redis'' \<and> given_options (de_params e) vals = [] then []
          else server_words env key @ concat (map (option_words key) (given_options (de_params e) vals)))"
proof -
  let ?opts = "given_options (de_params e) vals" and ?ws = "concat (map (option_words key) (given_options (de_params e) vals))"
  obtain flags where f: "param_flags (de_flag e) (de_params e) vals = Inr flags"
      and c': "(sc_command c', sc_args c') = de_run e flags"
    using assms(2) by (auto simp: apply_params_def split: sum.splits prod.splits)
  have flags: "flags = ?ws" and opts: "list_all (\<lambda>(k, v). list_all value_char k \<and> v \<noteq> [] \<and> list_all value_char v) ?opts"
    using param_flags_words [OF f] engine_keys [OF assms(1)]
    by (simp_all add: engine_flag [OF assms(1)] case_prod_unfold)
  have none: "?ws = [] \<longleftrightarrow> ?opts = []" by (cases ?opts) (auto simp: option_words_def split: prod.splits)
  show ?thesis
  proof (rule engine_cases [OF assms(1)])
    assume r: "key = ''redis''" "e = redis quoted"
    have d: "\<not> sh_special (CHR ''-'')" by (simp add: sh_special_def)
    have "list_all (\<lambda>w. w \<noteq> [] \<and> list_all (\<lambda>c. \<not> sh_special c) w) ?ws"
      using opts value_char_plain d r(1) by (fastforce simp: list_all_iff option_words_def)
    then have words: "sh_words env (In_word ''yes'') (if flags \<noteq> [] then '' '' @ join '' '' flags else []) = Some (''yes'' # flags)"
      using sh_join [of flags env] by (simp add: flags [symmetric])
    have "started_words env c' = sh_words env Between (redis_line @ (if flags \<noteq> [] then '' '' @ join '' '' flags else []))"
      using c' r(2) by (simp add: redis_run_def started_words_def)
    also have "\<dots> = Some (server_words env key @ flags)"
      unfolding redis_line_words words using r(1) by (simp add: server_words_def)
    finally show ?thesis using r(1) by (simp add: flags)
  qed (use c' flags none in \<open>simp_all add: server_run_def started_words_def server_words_def split: if_splits\<close>)
qed

theorem shell_words_harmless_witness:
  "\<exists>c'. apply_params (redis (\<lambda>s. s)) [''timeout'' \<mapsto> ''30''] \<lparr>sc_name = ''database'', sc_image = ''redis:7'', sc_command = [], sc_args = []\<rparr>
      = Ok c' \<and> started_words (\<lambda>_. ''s; x'') c' =
        Some [''exec'', ''redis-server'', ''--requirepass'', ''s; x'', ''--appendonly'', ''yes'', ''--timeout'', ''30'']"
proof -
  let ?c = "\<lparr>sc_name = ''database'', sc_image = ''redis:7'', sc_command = [], sc_args = []\<rparr>"
  have "\<not> isl (apply_params (redis (\<lambda>s. s)) [''timeout'' \<mapsto> ''30''] ?c)" by code_simp
  then obtain c' where c': "apply_params (redis (\<lambda>s. s)) [''timeout'' \<mapsto> ''30''] ?c = Ok c'"
    by (cases "apply_params (redis (\<lambda>s. s)) [''timeout'' \<mapsto> ''30''] ?c") auto
  have e: "engine_by_key (\<lambda>s. s) ''redis'' = Some (redis (\<lambda>s. s))" by (simp add: engine_by_key_def)
  have "given_options (de_params (redis (\<lambda>s. s))) [''timeout'' \<mapsto> ''30''] = [(''timeout'', ''30'')]" by code_simp
  with shell_words_harmless [OF e c', of "\<lambda>_. ''s; x''"] c' show ?thesis by (simp add: server_words_def option_words_def)
qed

section \<open>What a configured database runs\<close>

text \<open>What is relied on of JSON: an object of plain strings reads back as itself.\<close>

definition json_faithful :: "json_codec \<Rightarrow> bool" where
  "json_faithful J \<longleftrightarrow> (\<forall>m. distinct (map fst m) \<and> list_all (\<lambda>(k, v). list_all value_char k \<and> list_all value_char v) m \<longrightarrow>
     (\<exists>t. js_params J m = Some t \<and> t \<noteq> [] \<and> map_of (rev (js_read_params J t)) = map_of m))"

definition tuned_flags :: "database_engine \<Rightarrow> (string \<rightharpoonup> string) \<Rightarrow> string list" where
  "tuned_flags e requested = concat (map (\<lambda>p. de_flag e (dp_key p) (wanted_value p requested))
     (filter (\<lambda>p. wanted_value p requested \<noteq> dp_default p) (de_params e)))"

definition wanted_list :: "database_param list \<Rightarrow> (string \<rightharpoonup> string) \<Rightarrow> (string \<times> string) list" where
  "wanted_list ps requested = map (\<lambda>p. (dp_key p, wanted_value p requested)) (filter (\<lambda>p. wanted_value p requested \<noteq> dp_default p) ps)"

lemma tune_ok:
  "tune ps requested previous = Inr (next, changes) \<Longrightarrow>
   next = wanted_list ps requested \<and> list_all (\<lambda>p. validate_param p (wanted_value p requested) = None) ps \<and>
   changes = map (\<lambda>p. \<lparr>pc_key = dp_key p, pc_from = effective_value p previous, pc_to = wanted_value p requested\<rparr>)
     (filter (\<lambda>p. effective_value p previous \<noteq> wanted_value p requested) ps)"
proof (induction ps arbitrary: "next" changes)
  case Nil
  then show ?case by (simp add: wanted_list_def)
next
  case (Cons p ps)
  obtain n cs where v: "validate_param p (wanted_value p requested) = None" and t: "tune ps requested previous = Inr (n, cs)"
    using Cons.prems by (auto simp: Let_def split: option.splits sum.splits)
  from Cons.IH [OF t] v t Cons.prems show ?case by (simp add: wanted_list_def Let_def split: if_splits)
qed

lemma wanted_list_lookup:
  assumes "distinct (map dp_key ps)" and "p \<in> set ps"
  shows "map_of (wanted_list ps requested) (dp_key p) =
    (if wanted_value p requested \<noteq> dp_default p then Some (wanted_value p requested) else None)"
  using assms
proof (induction ps)
  case (Cons q ps)
  have none: "map_of (wanted_list ps requested) (dp_key q) = None"
    using Cons.prems(1) by (auto simp: wanted_list_def map_of_eq_None_iff)
  show ?case
  proof (cases "p = q")
    case True
    with none show ?thesis by (simp add: wanted_list_def)
  next
    case False
    then have "p \<in> set ps" using Cons.prems(2) by simp
    moreover from this have "dp_key p \<noteq> dp_key q" using Cons.prems(1) by (metis distinct.simps(2) image_eqI list.set_map list.simps(9))
    ultimately show ?thesis using Cons by (simp add: wanted_list_def)
  qed
qed simp

lemma param_flags_wanted:
  assumes "\<And>p. p \<in> set ps \<Longrightarrow> vals (dp_key p) = (if wanted_value p requested \<noteq> dp_default p then Some (wanted_value p requested) else None)"
    and "list_all (\<lambda>p. validate_param p (wanted_value p requested) = None) ps"
  shows "param_flags flag ps vals = Ok (concat (map (\<lambda>p. flag (dp_key p) (wanted_value p requested))
     (filter (\<lambda>p. wanted_value p requested \<noteq> dp_default p) ps)))"
  using assms by (induction ps) (auto dest: validate_chars)

lemma read_written:
  assumes "js_params J m = Some t" and "t \<noteq> []" and "params_annotation \<noteq> history_annotation"
  shows "read_params J (write_params J m h s) = map_of (rev (js_read_params J t))"
  using assms by (auto simp: read_params_def write_params_def text_at_def Let_def split: option.split)

lemma wanted_list_ok:
  assumes "distinct (map dp_key ps)" and "list_all (\<lambda>p. list_all value_char (dp_key p)) ps"
    and "list_all (\<lambda>p. validate_param p (wanted_value p requested) = None) ps"
  shows "distinct (map fst (wanted_list ps requested)) \<and>
    list_all (\<lambda>(k, v). list_all value_char k \<and> list_all value_char v) (wanted_list ps requested)"
proof -
  have "list_all value_char (wanted_value p requested)" if "p \<in> set ps" for p
    using validate_chars [of p "wanted_value p requested"] assms(3) that by (simp add: list_all_iff)
  with assms(1,2) show ?thesis by (auto simp: wanted_list_def comp_def distinct_map_filter list_all_iff)
qed

lemma effective_wanted:
  assumes "distinct (map dp_key ps)" "p \<in> set ps" "validate_param p (wanted_value p requested) = None"
  shows "effective_value p (map_of (wanted_list ps requested)) = wanted_value p requested"
  using wanted_list_lookup [OF assms(1,2)] validate_chars [OF assms(3)] by (simp add: effective_value_def)

text \<open>
  When a request to configure a database is accepted, every setting of the engine reads back
  as what was asked for, or its default when nothing was; the container runs the engine with
  exactly the flags of the settings that are not at their default; and the change that is
  reported and recorded lists exactly the settings whose value was another one before.
\<close>

theorem configured_database_runs:
  assumes json: "json_faithful J" and conf: "configured quoted J now1 requested s = Ok (changes, s')"
  shows "\<exists>e c cs. engine_by_key quoted (text_at (ss_labels s) engine_label) = Some e \<and> ss_containers s = c # cs \<and>
    shown_values e (read_params J s') = map (\<lambda>p. (dp_key p, wanted_value p requested)) (de_params e) \<and>
    map pc_key changes = map dp_key (filter (\<lambda>p. effective_value p (read_params J s) \<noteq> wanted_value p requested) (de_params e)) \<and>
    (if changes = [] then s' = s
     else ss_containers s' = c\<lparr>sc_command := fst (de_run e (tuned_flags e requested)), sc_args := snd (de_run e (tuned_flags e requested))\<rparr> # cs)"
proof -
  obtain e c cs "next" where e: "engine_by_key quoted (text_at (ss_labels s) engine_label) = Some e" and c: "ss_containers s = c # cs"
    and t: "tune (de_params e) requested (read_params J s) = Inr (next, changes)"
    using conf by (auto simp: configured_def split: if_splits option.splits list.splits sum.splits)
  note keys = engine_keys [OF e] and tuned = tune_ok [OF t]
  have eff: "\<forall>p \<in> set (de_params e). effective_value p (map_of next) = wanted_value p requested"
    using effective_wanted keys tuned by (auto simp: list_all_iff)
  have keys': "map pc_key changes = map dp_key (filter (\<lambda>p. effective_value p (read_params J s) \<noteq> wanted_value p requested) (de_params e))"
    using tuned by (simp add: comp_def)
  show ?thesis
  proof (cases "changes = []")
    case True
    then have s': "s' = s" using conf e c t by (auto simp: configured_def split: if_splits)
    have "\<forall>p \<in> set (de_params e). effective_value p (read_params J s) = wanted_value p requested"
      using tuned True by (auto simp: filter_empty_conv)
    then show ?thesis using e c keys' True s' by (auto simp: shown_values_def)
  next
    case False
    have vals: "p \<in> set (de_params e) \<Longrightarrow> map_of next (dp_key p) =
        (if wanted_value p requested \<noteq> dp_default p then Some (wanted_value p requested) else None)" for p
      using wanted_list_lookup keys tuned by blast
    have "param_flags (de_flag e) (de_params e) (map_of next) = Ok (tuned_flags e requested)"
      using param_flags_wanted [of "de_params e" "map_of next" requested "de_flag e"] vals tuned by (simp add: tuned_flags_def)
    then have a: "apply_params e (map_of next) c =
        Ok (c\<lparr>sc_command := fst (de_run e (tuned_flags e requested)), sc_args := snd (de_run e (tuned_flags e requested))\<rparr>)"
      by (simp add: apply_params_def case_prod_beta Let_def)
    have s': "s' = write_params J next (\<lparr>he_at = now1, he_changes = changes\<rparr> # read_history J s) (s\<lparr>ss_containers :=
        c\<lparr>sc_command := fst (de_run e (tuned_flags e requested)), sc_args := snd (de_run e (tuned_flags e requested))\<rparr> # cs\<rparr>)"
      using conf e c t False a by (simp add: configured_def split: if_splits)
    have "distinct (map fst next) \<and> list_all (\<lambda>(k, v). list_all value_char k \<and> list_all value_char v) next"
      using wanted_list_ok keys tuned by blast
    then obtain t where t: "js_params J next = Some t" "t \<noteq> []" "map_of (rev (js_read_params J t)) = map_of next"
      using json unfolding json_faithful_def by blast
    have "params_annotation \<noteq> history_annotation" by code_simp
    from read_written [OF t(1,2) this] t(3) have "read_params J s' = map_of next" by (simp add: s')
    moreover have "ss_containers s' = c\<lparr>sc_command := fst (de_run e (tuned_flags e requested)), sc_args := snd (de_run e (tuned_flags e requested))\<rparr> # cs"
      by (simp add: s' write_params_def Let_def)
    ultimately show ?thesis using e c keys' eff False by (auto simp: shown_values_def)
  qed
qed

text \<open>A codec that keeps its word, and a database to tune.\<close>

fun pairs_of :: "string list \<Rightarrow> (string \<times> string) list" where
  "pairs_of (k # v # ws) = (k, v) # pairs_of ws"
| "pairs_of ws = []"

definition plain_codec :: json_codec where
  "plain_codec = \<lparr>js_params = (\<lambda>m. Some (''{'' @ join '','' (concat (map (\<lambda>(k, v). [k, v]) m)))),
     js_read_params = (\<lambda>t. pairs_of (split_on (CHR '','') (tl t))), js_history = (\<lambda>h. Some ''[]''), js_read_history = (\<lambda>t. [])\<rparr>"

lemma pairs_of_concat: "pairs_of (concat (map (\<lambda>(k, v). [k, v]) m)) = m"
  by (induction m) auto

lemma map_of_rev: "distinct (map fst m) \<Longrightarrow> map_of (rev m) = map_of m"
  by (rule map_of_inject_set [THEN iffD2]) (simp_all add: rev_map [symmetric])

lemma plain_codec_faithful: "json_faithful plain_codec"
proof -
  have "\<not> value_char (CHR '','')" by code_simp
  then have no: "list_all value_char w \<Longrightarrow> CHR '','' \<notin> set w" for w by (auto simp: list_all_iff)
  show ?thesis unfolding json_faithful_def
  proof (intro allI impI)
    fix m assume m: "distinct (map fst m) \<and> list_all (\<lambda>(k, v). list_all value_char k \<and> list_all value_char v) m"
    have "pairs_of (split_on (CHR '','') (join '','' (concat (map (\<lambda>(k, v). [k, v]) m)))) = m"
    proof (cases m)
      case (Cons kv m')
      have "\<forall>w \<in> set (concat (map (\<lambda>(k, v). [k, v]) m)). CHR '','' \<notin> set w" using m no by (auto simp: list_all_iff)
      moreover have "concat (map (\<lambda>(k, v). [k, v]) m) \<noteq> []" using Cons by (cases kv) simp
      ultimately show ?thesis by (simp add: split_on_join pairs_of_concat)
    qed simp
    with m show "\<exists>t. js_params plain_codec m = Some t \<and> t \<noteq> [] \<and> map_of (rev (js_read_params plain_codec t)) = map_of m"
      by (simp add: plain_codec_def map_of_rev)
  qed
qed

definition sample_database :: stateful_set where
  "sample_database = \<lparr>ss_ns = ''default'', ss_name = ''db'', ss_labels = [managed_by_label \<mapsto> ''casos'', engine_label \<mapsto> ''redis''],
     ss_annotations = Map.empty, ss_containers = [\<lparr>sc_name = ''database'', sc_image = ''redis:7'', sc_command = [], sc_args = []\<rparr>]\<rparr>"

theorem configured_database_runs_witness:
  "\<exists>changes s'. configured (\<lambda>s. s) plain_codec ''now'' [''timeout'' \<mapsto> ''30''] sample_database = Ok (changes, s') \<and>
     shown_values (redis (\<lambda>s. s)) (read_params plain_codec s') = [(''maxmemory'', ''0''), (''maxmemory-policy'', ''noeviction''), (''timeout'', ''30'')]"
proof -
  have "\<not> isl (configured (\<lambda>s. s) plain_codec ''now'' [''timeout'' \<mapsto> ''30''] sample_database)" by code_simp
  then obtain changes s' where c: "configured (\<lambda>s. s) plain_codec ''now'' [''timeout'' \<mapsto> ''30''] sample_database = Ok (changes, s')"
    by (cases "configured (\<lambda>s. s) plain_codec ''now'' [''timeout'' \<mapsto> ''30''] sample_database") auto
  have "engine_by_key (\<lambda>s. s) (text_at (ss_labels sample_database) engine_label) = Some (redis (\<lambda>s. s))"
    by (simp add: engine_by_key_def sample_database_def text_at_def engine_label_def)
  with configured_database_runs [OF plain_codec_faithful c]
  have "shown_values (redis (\<lambda>s. s)) (read_params plain_codec s') = map (\<lambda>p. (dp_key p, wanted_value p [''timeout'' \<mapsto> ''30''])) redis_params"
    by auto
  with c show ?thesis by (simp add: redis_params_def param_def wanted_value_def)
qed

end
