(* ===== verification/Compose.thy ===== *)
theory Compose
  imports Manifests AppGateway GoFloat GoConv "HOL-Library.List_Lexorder" "HOL-Library.Char_ord"
begin

text \<open>
  Planning a compose project (controllers/compose.go). Parameters: the YAML decoder, \<open>fmt.Sprint\<close>
  of the values no branch of \<open>composeString\<close> names, the check of a DNS label and of a quantity of
  Kubernetes, and the configuration. A decoded mapping is the list of its entries in the order Go
  visits them.
\<close>

section \<open>Values\<close>

datatype yval =
    YNil | YString string | YBool bool | YInt int | YFloat f64
  | YMap "(string \<times> yval) list" | YList "yval list" | YOther string

definition compose_map :: "yval \<Rightarrow> (string \<times> yval) list option" where
  "compose_map v = (case v of YMap m \<Rightarrow> Some m | _ \<Rightarrow> None)"

definition compose_list :: "yval \<Rightarrow> yval list option" where
  "compose_list v = (case v of YList l \<Rightarrow> Some l | _ \<Rightarrow> None)"

text \<open>Indexing a Go map, nil included: a missing key is nil.\<close>

definition at_key :: "(string \<times> yval) list option \<Rightarrow> string \<Rightarrow> yval" where
  "at_key m key = (case m of None \<Rightarrow> YNil | Some m \<Rightarrow> (case map_of m key of None \<Rightarrow> YNil | Some v \<Rightarrow> v))"

definition items_of :: "yval \<Rightarrow> yval list" where
  "items_of v = (case compose_list v of None \<Rightarrow> [] | Some l \<Rightarrow> l)"

fun compose_string :: "(yval \<Rightarrow> string) \<Rightarrow> yval \<Rightarrow> string" where
  "compose_string sprint YNil = []"
| "compose_string sprint (YString s) = s"
| "compose_string sprint (YBool b) = (if b then ''true'' else ''false'')"
| "compose_string sprint (YInt i) = itoa i"
| "compose_string sprint (YFloat f) = format_float f"
| "compose_string sprint v = sprint v"

section \<open>Variables\<close>

definition parse_dot_line :: "string \<Rightarrow> (string \<times> string) option" where
  "parse_dot_line line0 =
     (let line = trim_space line0 in
      if line = [] \<or> has_prefix line ''#'' then None
      else
        (let (key, val, ok) = cut (trim_prefix line ''export '') ''='' in
         if \<not> ok then None
         else
           (let val = trim_space val;
                val = (if length val \<ge> 2 \<and> (hd val = dquote \<or> hd val = squote) \<and> last val = hd val
                       then butlast (tl val) else val)
            in Some (trim_space key, val))))"

definition parse_dot_env :: "string \<Rightarrow> string \<rightharpoonup> string" where
  "parse_dot_env text = map_of (rev (List.map_filter parse_dot_line (split_on newline text)))"

definition name_start :: "char \<Rightarrow> bool" where
  "name_start c \<longleftrightarrow> ascii_letter c \<or> c = CHR ''_''"

definition name_char :: "char \<Rightarrow> bool" where
  "name_char c \<longleftrightarrow> name_start c \<or> is_digit c"

text \<open>What the pattern matches after a dollar sign: another one, or a name, an operator and its argument.\<close>

datatype variable = Dollar | Variable string string string

definition match_name :: "string \<Rightarrow> (string \<times> string) option" where
  "match_name s = (case s of c # _ \<Rightarrow> if name_start c then Some (takeWhile name_char s, dropWhile name_char s) else None | [] \<Rightarrow> None)"

definition match_operator_char :: "string \<Rightarrow> (string \<times> string) option" where
  "match_operator_char s =
     (case s of
        c # r \<Rightarrow>
          if c \<in> set ''-?+'' then Some ([c], r)
          else if c = CHR '':'' then (case r of d # r' \<Rightarrow> if d \<in> set ''-?+'' then Some ([c, d], r') else None | [] \<Rightarrow> None)
          else None
      | [] \<Rightarrow> None)"

definition match_braced :: "string \<Rightarrow> (variable \<times> string) option" where
  "match_braced s =
     (case match_name s of
        None \<Rightarrow> None
      | Some (name, r) \<Rightarrow>
          (case match_operator_char r of
             Some (oper, r') \<Rightarrow>
               (case dropWhile (\<lambda>c. c \<noteq> CHR ''}'') r' of
                  _ # rest \<Rightarrow> Some (Variable name oper (takeWhile (\<lambda>c. c \<noteq> CHR ''}'') r'), rest)
                | [] \<Rightarrow> None)
           | None \<Rightarrow> (case r of c # rest \<Rightarrow> if c = CHR ''}'' then Some (Variable name [] [], rest) else None | [] \<Rightarrow> None)))"

definition match_variable :: "string \<Rightarrow> (variable \<times> string) option" where
  "match_variable s =
     (case s of
        [] \<Rightarrow> None
      | c # r \<Rightarrow>
          if c = CHR ''$'' then Some (Dollar, r)
          else if c = CHR ''{'' then match_braced r
          else (case match_name s of None \<Rightarrow> None | Some (name, rest) \<Rightarrow> Some (Variable name [] [], rest)))"

definition variable_value :: "(string \<rightharpoonup> string) \<Rightarrow> variable \<Rightarrow> string \<times> string list" where
  "variable_value env m =
     (case m of
        Dollar \<Rightarrow> (''$'', [])
      | Variable name oper arg \<Rightarrow>
          (let val = (case env name of None \<Rightarrow> [] | Some v \<Rightarrow> v); unset = (env name = None); empty = (unset \<or> val = []) in
           if oper = '':-'' then (if empty then arg else val, [])
           else if oper = ''-'' then (if unset then arg else val, [])
           else if oper = '':+'' then (if empty then [] else arg, [])
           else if oper = ''+'' then (if unset then [] else arg, [])
           else if oper = '':?'' \<or> oper = ''?'' then
             (val, if oper = '':?'' \<and> empty \<or> oper = ''?'' \<and> unset then [name] else [])
           else (val, if unset then [name] else [])))"

lemma match_name_length: "match_name s = Some (n, r) \<Longrightarrow> length r \<le> length s"
proof -
  assume "match_name s = Some (n, r)"
  then have "r = dropWhile name_char s" by (auto simp: match_name_def split: list.splits if_splits)
  then show ?thesis by (simp add: length_dropWhile_le)
qed

lemma match_operator_length: "match_operator_char s = Some (oper, r) \<Longrightarrow> length r \<le> length s"
  by (auto simp: match_operator_char_def split: list.splits if_splits)

lemma match_braced_length: "match_braced s = Some (m, r) \<Longrightarrow> length r \<le> length s"
proof -
  assume m: "match_braced s = Some (m, r)"
  then obtain name r1 where n: "match_name s = Some (name, r1)" by (auto simp: match_braced_def split: option.splits)
  have "length r \<le> length r1"
  proof (cases "match_operator_char r1")
    case None
    with m n show ?thesis by (auto simp: match_braced_def split: list.splits if_splits)
  next
    case (Some or)
    obtain oper r2 where "or = (oper, r2)" by force
    with m n Some obtain c where d: "dropWhile (\<lambda>c. c \<noteq> CHR ''}'') r2 = c # r"
      by (auto simp: match_braced_def split: list.splits)
    have "length (c # r) \<le> length r2" unfolding d [symmetric] by (rule length_dropWhile_le)
    with match_operator_length Some \<open>or = (oper, r2)\<close> show ?thesis by fastforce
  qed
  with match_name_length [OF n] show ?thesis by simp
qed

lemma match_variable_length: "match_variable s = Some (m, r) \<Longrightarrow> length r \<le> length s"
  using match_braced_length match_name_length
  by (fastforce simp: match_variable_def split: list.splits if_splits option.splits)

function interpolate :: "(string \<rightharpoonup> string) \<Rightarrow> string \<Rightarrow> string \<times> string list" where
  "interpolate env [] = ([], [])"
| "interpolate env (c # s) =
     (if c = CHR ''$'' then
        (case match_variable s of
           Some (m, rest) \<Rightarrow>
             (let (val, missing) = variable_value env m; (out, more) = interpolate env rest in (val @ out, missing @ more))
         | None \<Rightarrow> (let (out, more) = interpolate env s in (c # out, more)))
      else (let (out, more) = interpolate env s in (c # out, more)))"
  by pat_completeness auto
termination by (relation "measure (length \<circ> snd)") (auto dest: match_variable_length)

fun interpolate_tree :: "(string \<rightharpoonup> string) \<Rightarrow> yval \<Rightarrow> yval \<times> string list" where
  "interpolate_tree env (YString s) = (let (out, missing) = interpolate env s in (YString out, missing))"
| "interpolate_tree env (YMap m) =
     (let rs = map (\<lambda>(k, v). (k, interpolate_tree env v)) m
      in (YMap (map (\<lambda>(k, r). (k, fst r)) rs), concat (map (\<lambda>(k, r). snd r) rs)))"
| "interpolate_tree env (YList l) =
     (let rs = map (interpolate_tree env) l in (YList (map fst rs), concat (map snd rs)))"
| "interpolate_tree env v = (v, [])"

section \<open>Commands, quantities, ports\<close>

definition rune_of :: "char \<Rightarrow> rune" where "rune_of c = of_char c"

text \<open>The state of the loop: the words so far, the current one, whether there is one, the quote (or 0), a backslash.\<close>

fun split_runes :: "string list \<Rightarrow> string \<Rightarrow> bool \<Rightarrow> rune \<Rightarrow> bool \<Rightarrow> rune list \<Rightarrow> string list" where
  "split_runes ws cur in_word quote escaped [] = (if in_word then ws @ [cur] else ws)"
| "split_runes ws cur in_word quote escaped (r # rs) =
     (if escaped then split_runes ws (cur @ encode_rune r) in_word quote False rs
      else if r = rune_of backslash \<and> quote \<noteq> rune_of squote then split_runes ws cur True quote True rs
      else if quote \<noteq> 0 then
        (if r = quote then split_runes ws cur in_word 0 False rs
         else split_runes ws (cur @ encode_rune r) in_word quote False rs)
      else if r = rune_of dquote \<or> r = rune_of squote then split_runes ws cur True r False rs
      else if r = rune_of (CHR '' '') \<or> r = rune_of tab \<or> r = rune_of newline then
        (if in_word then split_runes (ws @ [cur]) [] False 0 False rs else split_runes ws cur in_word 0 False rs)
      else split_runes ws (cur @ encode_rune r) True 0 False rs)"

definition split_command :: "string \<Rightarrow> string list" where
  "split_command line0 = split_runes [] [] False 0 False (decode_runes line0)"

definition compose_command :: "(yval \<Rightarrow> string) \<Rightarrow> yval \<Rightarrow> string list" where
  "compose_command sprint v =
     (case compose_list v of
        Some l \<Rightarrow> map (compose_string sprint) l
      | None \<Rightarrow> (let text = compose_string sprint v in if text \<noteq> [] then split_command text else []))"

text \<open>
  Case folding of the patterns with \<open>(?i)\<close>: beside the ASCII letters, the long s (U+017F) and the
  Kelvin sign (U+212A) match their letter.
\<close>

definition fold_case :: "string \<Rightarrow> string" where
  "fold_case s = to_lower (replace_all (replace_all s [CHR 0xE2, CHR 0x84, CHR 0xAA] ''k'') [CHR 0xC5, CHR 0xBF] ''s'')"

definition drop_spaces :: "string \<Rightarrow> string" where
  "drop_spaces = dropWhile (\<lambda>c. c \<in> {CHR 0x09, CHR 0x0A, CHR 0x0C, CHR 0x0D, CHR 0x20})"

definition match_memory :: "string \<Rightarrow> (string \<times> string) option" where
  "match_memory s =
     (let s = drop_spaces s;
          whole = takeWhile is_digit s; r = dropWhile is_digit s;
          (number, r) = (case r of
             c # r' \<Rightarrow> if c = CHR ''.'' \<and> takeWhile is_digit r' \<noteq> []
                      then (whole @ ''.'' @ takeWhile is_digit r', dropWhile is_digit r') else (whole, r)
           | [] \<Rightarrow> (whole, r));
          r = fold_case (drop_spaces r);
          (unit, r) = (case r of c # r' \<Rightarrow> if c \<in> set ''bkmgt'' then ([c], r') else ([], r) | [] \<Rightarrow> ([], r));
          r = (case r of c # r' \<Rightarrow> if c = CHR ''b'' then r' else r | [] \<Rightarrow> r)
      in if whole = [] \<or> drop_spaces r \<noteq> [] then None else Some (number, unit))"

definition memory_suffix :: "string \<Rightarrow> string" where
  "memory_suffix u = (if u = ''k'' then ''Ki'' else if u = ''m'' then ''Mi'' else if u = ''g'' then ''Gi'' else if u = ''t'' then ''Ti'' else [])"

definition compose_quantity :: "(string \<Rightarrow> bool) \<Rightarrow> string \<Rightarrow> bool \<Rightarrow> string option" where
  "compose_quantity quantity_ok val0 memory =
     (let val = trim_space val0 in
      if val = [] then None
      else
        (let val = (if memory then (case match_memory val of Some (n, u) \<Rightarrow> n @ memory_suffix u | None \<Rightarrow> val) else val)
         in if quantity_ok val then Some val else None))"

definition compose_port :: "string \<Rightarrow> int option" where
  "compose_port text =
     (case atoi (fst (cut (trim_space text) ''/'')) of
        None \<Rightarrow> None
      | Some port \<Rightarrow> if port < 1 \<or> port > 65535 then None else Some port)"

fun service_keys :: "'r yaml list \<Rightarrow> string list" where
  "service_keys (k # v # rest) = yn_text k # service_keys rest"
| "service_keys _ = []"

fun services_content :: "'r yaml list \<Rightarrow> 'r yaml list option" where
  "services_content (k # v # rest) = (if yn_text k = ''services'' then Some (yn_content v) else services_content rest)"
| "services_content _ = None"

definition service_names_in_order :: "'r yaml option \<Rightarrow> string list" where
  "service_names_in_order doc =
     (case doc of
        None \<Rightarrow> []
      | Some d \<Rightarrow> (case yn_content d of
           [] \<Rightarrow> []
         | root # _ \<Rightarrow> (case services_content (yn_content root) of None \<Rightarrow> [] | Some c \<Rightarrow> service_keys c)))"

text \<open>\<open>path.Ext\<close>.\<close>

definition path_ext :: "string \<Rightarrow> string" where
  "path_ext p =
     (let base = (case last_index p CHR ''/'' of None \<Rightarrow> p | Some i \<Rightarrow> drop (i + 1) p)
      in case last_index base CHR ''.'' of None \<Rightarrow> [] | Some i \<Rightarrow> drop i base)"

definition to_int32 :: "int \<Rightarrow> int" where
  "to_int32 n = (n + 2 ^ 31) mod 2 ^ 32 - 2 ^ 31"

text \<open>
  \<open>strings.ToLower\<close> of what must be a label: the two characters outside ASCII whose lower case is
  inside it are the dotted capital I (U+0130) and the Kelvin sign; any other keeps the label invalid.
\<close>

definition lower_label :: "string \<Rightarrow> string" where
  "lower_label s = to_lower (replace_all (replace_all s [CHR 0xE2, CHR 0x84, CHR 0xAA] ''k'') [CHR 0xC4, CHR 0xB0] ''i'')"

section \<open>Laws\<close>

lemma compose_port_bounds: "compose_port text = Some p \<Longrightarrow> 1 \<le> p \<and> p \<le> 65535"
  by (auto simp: compose_port_def split: option.splits if_splits)

text \<open>Text with its dollar signs doubled comes back as it was, whatever is set.\<close>

fun escape_dollars :: "string \<Rightarrow> string" where
  "escape_dollars [] = []"
| "escape_dollars (c # s) = (if c = CHR ''$'' then ''$$'' @ escape_dollars s else c # escape_dollars s)"

lemma interpolate_escaped: "interpolate env (escape_dollars s) = (s, [])"
  by (induction s) (auto simp: match_variable_def variable_value_def)

end
