(* ===== verification/ComposePlan.thy ===== *)
theory ComposePlan
  imports Compose GoRegexp
begin

text \<open>
  The plan of a compose project (controllers/compose.go): what \<open>planCompose\<close> makes of the decoded
  file, one request per service, and the shape every plan has. A warning is a constructor with what
  its text names; the environment of a service is the list of its assignments, the last one valid.
\<close>

section \<open>What is planned\<close>

datatype compose_warning =
    Profile_skipped string | Build_ignored string string | Env_file_unread string | Network_mode_ignored string
  | Not_supported string string | Port_range string string | Unreadable_port string string | Docker_socket string
  | File_left_out string string | Folder_is_empty string string string | User_not_numeric string string | No_gpu string

datatype compose_error =
    Compose_too_large | Not_yaml string | No_services | No_project_name | Bad_project_name string
  | Bad_service_name string | Built_from_source string | Has_no_image string | Nothing_to_deploy

record compose_service =
  cs_name :: string
  cs_image :: string
  cs_main :: bool
  cs_ports :: "int list"
  cs_url :: string
  cs_volumes :: "string list"
  cs_env_count :: nat
  cs_replicas :: int
  cs_gpu :: bool
  cs_published :: bool

record port_request =
  pq_name :: string
  pq_port :: int
  pq_protocol :: string

record compose_request =
  cr_namespace :: string
  cr_name :: string
  cr_image :: string
  cr_owner :: string
  cr_component :: string
  cr_replicas :: "int option"
  cr_ports :: "port_request list"
  cr_env :: "(string \<times> string) list"
  cr_volumes :: "(string \<times> string) list"
  cr_service_type :: string
  cr_cpu_limit :: "string option"
  cr_memory_limit :: "string option"
  cr_command :: "string list"
  cr_args :: "string list"
  cr_domains :: "(string \<times> int) list option"

record compose_extras =
  cx_working_dir :: string
  cx_run_as_user :: "int option"
  cx_run_as_group :: "int option"
  cx_gpu :: bool
  cx_tmpfs :: "string list"

record compose_plan =
  cp_project :: string
  cp_main :: string
  cp_services :: "compose_service list"
  cp_warnings :: "compose_warning list"
  cp_missing :: "string list"
  cp_requests :: "compose_request list"
  cp_extras :: "string \<rightharpoonup> compose_extras"

record compose_input =
  ci_project :: string
  ci_compose :: string
  ci_env :: string
  ci_domain :: string

record 'r compose_world =
  cw_decode :: "string \<Rightarrow> string + (string \<times> yval) list"
  cw_node :: "string \<Rightarrow> 'r yaml option"
  cw_sprint :: "yval \<Rightarrow> string"
  cw_label :: "string \<Rightarrow> bool"
  cw_quantity :: "string \<Rightarrow> bool"
  cw_gpu :: bool
  cw_http_port :: int

section \<open>One service\<close>

definition unsupported_keys :: "string list" where
  "unsupported_keys = [''privileged'', ''cap_add'', ''devices'', ''network_mode'', ''pid'', ''ipc'', ''extra_hosts'',
     ''sysctls'', ''security_opt'', ''configs'', ''secrets'', ''env_file'']"

definition unsupported_warnings :: "string \<Rightarrow> (string \<times> yval) list \<Rightarrow> compose_warning list" where
  "unsupported_warnings name service =
     List.map_filter (\<lambda>key.
       if at_key (Some service) key = YNil then None
       else Some (if key = ''env_file'' then Env_file_unread name
                  else if key = ''network_mode'' then Network_mode_ignored name
                  else Not_supported name key)) unsupported_keys"

definition compose_environment :: "(yval \<Rightarrow> string) \<Rightarrow> yval \<Rightarrow> (string \<times> string) list" where
  "compose_environment sprint v =
     (case compose_map v of
        Some m \<Rightarrow> map (\<lambda>(k, x). (k, compose_string sprint x)) m
      | None \<Rightarrow> map (\<lambda>item. let (key, val, _) = cut (compose_string sprint item) ''='' in (key, val)) (items_of v))"

definition add_port :: "int \<Rightarrow> bool \<Rightarrow> int list \<times> bool \<Rightarrow> int list \<times> bool" where
  "add_port port pub s = (let (ports, published) = s in (if port \<in> set ports then ports else ports @ [port], published \<or> pub))"

fun read_ports :: "(yval \<Rightarrow> string) \<Rightarrow> string \<Rightarrow> yval list \<Rightarrow> int list \<times> bool \<Rightarrow> (int list \<times> bool) \<times> compose_warning list" where
  "read_ports sprint name [] s = (s, [])"
| "read_ports sprint name (item # items) s =
     (case compose_map item of
        Some long \<Rightarrow>
          (case compose_port (compose_string sprint (at_key (Some long) ''target'')) of
             Some port \<Rightarrow> read_ports sprint name items
               (add_port port (compose_string sprint (at_key (Some long) ''published'') \<noteq> []) s)
           | None \<Rightarrow> read_ports sprint name items s)
      | None \<Rightarrow>
          (let spec = compose_string sprint item in
           if CHR ''-'' \<in> set spec then
             (let (s', ws) = read_ports sprint name items s in (s', Port_range name spec # ws))
           else
             (case compose_port (last (split_on CHR '':'' spec)) of
                None \<Rightarrow> (let (s', ws) = read_ports sprint name items s in (s', Unreadable_port name spec # ws))
              | Some port \<Rightarrow> read_ports sprint name items (add_port port True s))))"

fun read_expose :: "(yval \<Rightarrow> string) \<Rightarrow> yval list \<Rightarrow> int list \<times> bool \<Rightarrow> int list \<times> bool" where
  "read_expose sprint [] s = s"
| "read_expose sprint (item # items) s =
     (case compose_port (compose_string sprint item) of
        Some port \<Rightarrow> read_expose sprint items (add_port port False s)
      | None \<Rightarrow> read_expose sprint items s)"

definition volume_parts :: "(yval \<Rightarrow> string) \<Rightarrow> yval \<Rightarrow> string \<times> string \<times> string" where
  "volume_parts sprint item =
     (let (kind, source, target) =
        (case compose_map item of
           Some long \<Rightarrow> (compose_string sprint (at_key (Some long) ''type''), compose_string sprint (at_key (Some long) ''source''),
                         compose_string sprint (at_key (Some long) ''target''))
         | None \<Rightarrow> (case split_on CHR '':'' (compose_string sprint item) of
             [t] \<Rightarrow> ([], [], t) | s # t # _ \<Rightarrow> ([], s, t) | [] \<Rightarrow> ([], [], [])))
      in (if kind \<noteq> [] then kind
          else if source = [] then ''volume''
          else if has_prefix source ''/'' \<or> has_prefix source ''.'' \<or> has_prefix source ''~'' then ''bind''
          else ''volume'', source, target))"

text \<open>The volumes mounted, the targets in memory, the warnings.\<close>

definition read_volume ::
  "(yval \<Rightarrow> string) \<Rightarrow> string \<Rightarrow> string list \<times> string list \<times> compose_warning list \<Rightarrow> yval
     \<Rightarrow> string list \<times> string list \<times> compose_warning list" where
  "read_volume sprint name s item =
     (let (mounted, tmpfs, ws) = s; (kind, source, target) = volume_parts sprint item in
      if \<not> has_prefix target ''/'' \<or> target \<in> set mounted then s
      else if kind = ''tmpfs'' then (mounted, tmpfs @ [target], ws)
      else if kind = ''bind'' then
        (if has_suffix source ''docker.sock'' then (mounted, tmpfs, ws @ [Docker_socket name])
         else if path_ext source \<noteq> [] \<and> path_ext target \<noteq> [] then (mounted, tmpfs, ws @ [File_left_out name source])
         else (mounted @ [target], tmpfs, ws @ [Folder_is_empty name source target]))
      else (mounted @ [target], tmpfs, ws))"

definition compose_user :: "string \<Rightarrow> string \<Rightarrow> (int option \<times> int option) \<times> compose_warning list" where
  "compose_user name user =
     (if user = [] then ((None, None), [])
      else
        (let (uid, gid, _) = cut user '':'' in
         case atoi uid of
           None \<Rightarrow> ((None, None), [User_not_numeric name user])
         | Some u \<Rightarrow> ((Some u, atoi gid), [])))"

definition wants_gpu :: "(yval \<Rightarrow> string) \<Rightarrow> (string \<times> yval) list \<Rightarrow> (string \<times> yval) list option \<Rightarrow> bool" where
  "wants_gpu sprint service spec \<longleftrightarrow>
     compose_string sprint (at_key (Some service) ''runtime'') = ''nvidia'' \<or>
     list_ex (\<lambda>device. let d = compose_map device in
         compose_string sprint (at_key d ''driver'') = ''nvidia'' \<or>
         list_ex (\<lambda>c. compose_string sprint c = ''gpu'') (items_of (at_key d ''capabilities'')))
       (items_of (at_key (compose_map (at_key (compose_map (at_key spec ''resources'')) ''reservations'')) ''devices''))"

definition or_else :: "string \<Rightarrow> string \<Rightarrow> string" where
  "or_else a b = (if a = [] then b else a)"

text \<open>The variables by name: of several assignments the last.\<close>

definition env_vars :: "(string \<times> string) list \<Rightarrow> (string \<times> string) list" where
  "env_vars env = map (\<lambda>k. (k, the (map_of (rev env) k))) (sort (remdups (map fst env)))"

definition gpu_env :: "(string \<times> string) list \<Rightarrow> (string \<times> string) list" where
  "gpu_env env = env @ [(''NVIDIA_VISIBLE_DEVICES'', ''all'')] @
     (if ''NVIDIA_DRIVER_CAPABILITIES'' \<in> fst ` set env then [] else [(''NVIDIA_DRIVER_CAPABILITIES'', ''compute,utility'')])"

definition service_ports ::
  "(yval \<Rightarrow> string) \<Rightarrow> string \<Rightarrow> (string \<times> yval) list \<Rightarrow> (int list \<times> bool) \<times> compose_warning list" where
  "service_ports sprint name service =
     (let (s, ws) = read_ports sprint name (items_of (at_key (Some service) ''ports'')) ([], False)
      in (read_expose sprint (items_of (at_key (Some service) ''expose'')) s, ws))"

definition service_volumes ::
  "(yval \<Rightarrow> string) \<Rightarrow> string \<Rightarrow> (string \<times> yval) list \<Rightarrow> string list \<times> string list \<times> compose_warning list" where
  "service_volumes sprint name service =
     (let (volumes, tmpfs, ws) = foldl (read_volume sprint name) ([], [], []) (items_of (at_key (Some service) ''volumes''));
          more_tmpfs = at_key (Some service) ''tmpfs''
      in (volumes,
          tmpfs @ (case compose_list more_tmpfs of
              Some l \<Rightarrow> map (compose_string sprint) l
            | None \<Rightarrow> if compose_string sprint more_tmpfs \<noteq> [] then [compose_string sprint more_tmpfs] else []), ws))"

definition service_replicas :: "string \<Rightarrow> int option" where
  "service_replicas t = (case atoi t of Some n \<Rightarrow> if n \<ge> 0 then Some (to_int32 n) else None | None \<Rightarrow> None)"

definition plan_compose_service ::
  "'r compose_world \<Rightarrow> string \<Rightarrow> string \<Rightarrow> (string \<times> yval) list
     \<Rightarrow> compose_error + (compose_request \<times> compose_extras \<times> compose_service) \<times> compose_warning list" where
  "plan_compose_service w project name service =
     (let get = at_key (Some service); str = compose_string (cw_sprint w);
          image = trim_space (str (get ''image''))
      in if image = [] then Inl (if get ''build'' \<noteq> YNil then Built_from_source name else Has_no_image name)
      else
        (let ports = service_ports (cw_sprint w) name service;
             volumes = service_volumes (cw_sprint w) name service;
             user = compose_user name (str (get ''user''));
             spec = compose_map (get ''deploy'');
             replicas = service_replicas (or_else (str (at_key spec ''replicas'')) (str (get ''scale'')));
             limits = compose_map (at_key (compose_map (at_key spec ''resources'')) ''limits'');
             cpu = compose_quantity (cw_quantity w) (or_else (str (at_key limits ''cpus'')) (str (get ''cpus''))) False;
             memory = compose_quantity (cw_quantity w) (or_else (str (at_key limits ''memory'')) (str (get ''mem_limit''))) True;
             wants = wants_gpu (cw_sprint w) service spec; gpu = (wants \<and> cw_gpu w);
             env0 = compose_environment (cw_sprint w) (get ''environment'');
             env = env_vars (if gpu then gpu_env env0 else env0)
         in Inr ((\<lparr>cr_namespace = project, cr_name = name, cr_image = image, cr_owner = [], cr_component = [],
                    cr_replicas = replicas,
                    cr_ports = map (\<lambda>p. \<lparr>pq_name = CHR ''p'' # itoa p, pq_port = p, pq_protocol = ''TCP''\<rparr>) (fst (fst ports)),
                    cr_env = env, cr_volumes = map (\<lambda>t. (t, ''5Gi'')) (fst volumes),
                    cr_service_type = (if snd (fst ports) then ''NodePort'' else ''ClusterIP''),
                    cr_cpu_limit = cpu, cr_memory_limit = memory,
                    cr_command = compose_command (cw_sprint w) (get ''entrypoint''),
                    cr_args = compose_command (cw_sprint w) (get ''command''), cr_domains = None\<rparr>,
                  \<lparr>cx_working_dir = str (get ''working_dir''), cx_run_as_user = fst (fst user), cx_run_as_group = snd (fst user),
                    cx_gpu = gpu, cx_tmpfs = fst (snd volumes)\<rparr>,
                  \<lparr>cs_name = name, cs_image = image, cs_main = False, cs_ports = fst (fst ports), cs_url = [], cs_volumes = fst volumes,
                    cs_env_count = length env, cs_replicas = (case replicas of Some n \<Rightarrow> n | None \<Rightarrow> 1),
                    cs_gpu = gpu, cs_published = snd (fst ports)\<rparr>),
                 (if get ''build'' \<noteq> YNil then [Build_ignored name image] else []) @ unsupported_warnings name service @
                   snd ports @ snd (snd volumes) @ snd user @ (if wants \<and> \<not> cw_gpu w then [No_gpu name] else []))))"

section \<open>The project\<close>

text \<open>The pattern of the names of databases, which ignores case.\<close>

definition database_name :: "string \<Rightarrow> bool" where
  "database_name s \<longleftrightarrow>
     (let s = fold_case s in
      s = ''db'' \<or> list_ex (\<lambda>k. contains s k)
        [''postgres'', ''mysql'', ''mariadb'', ''redis'', ''mongo'', ''valkey'', ''memcached'', ''database'', ''cache''])"

definition pick_compose_main :: "string \<Rightarrow> compose_service list \<Rightarrow> string" where
  "pick_compose_main project services =
     (case find (\<lambda>s. cs_name s = project) services of
        Some s \<Rightarrow> cs_name s
      | None \<Rightarrow>
          (case find (\<lambda>s. cs_published s \<and> \<not> database_name (cs_name s) \<and> \<not> database_name (cs_image s)) services of
             Some s \<Rightarrow> cs_name s
           | None \<Rightarrow> (case find cs_published services of Some s \<Rightarrow> cs_name s | None \<Rightarrow> cs_name (hd services))))"

fun plan_names ::
  "'r compose_world \<Rightarrow> string \<Rightarrow> (string \<times> yval) list \<Rightarrow> string list
     \<Rightarrow> compose_error + (compose_request \<times> compose_extras \<times> compose_service) list \<times> compose_warning list" where
  "plan_names w project services [] = Inr ([], [])"
| "plan_names w project services (name # names) =
     (case compose_map (at_key (Some services) name) of
        None \<Rightarrow> plan_names w project services names
      | Some service \<Rightarrow>
          if \<not> cw_label w name then Inl (Bad_service_name name)
          else if items_of (at_key (Some service) ''profiles'') \<noteq> [] then
            (case plan_names w project services names of
               Inl e \<Rightarrow> Inl e | Inr (planned, ws) \<Rightarrow> Inr (planned, Profile_skipped name # ws))
          else
            (case plan_compose_service w project name service of
               Inl e \<Rightarrow> Inl e
             | Inr (p, ws) \<Rightarrow>
                 (case plan_names w project services names of
                    Inl e \<Rightarrow> Inl e | Inr (planned, ws2) \<Rightarrow> Inr (p # planned, ws @ ws2))))"

definition service_host :: "string \<Rightarrow> string \<Rightarrow> string \<Rightarrow> string" where
  "service_host project domain name =
     (if name = project then project @ ''.'' @ domain else name @ ''-'' @ project @ ''.'' @ domain)"

definition finish_service :: "'r compose_world \<Rightarrow> string \<Rightarrow> string \<Rightarrow> string \<Rightarrow> compose_service \<Rightarrow> compose_service" where
  "finish_service w project domain main s =
     (let s = s\<lparr>cs_main := (cs_name s = main)\<rparr>; host = service_host project domain (cs_name s) in
      if cs_published s \<and> cs_ports s \<noteq> []
      then s\<lparr>cs_url := ''http://'' @ host @
             (if is_app_gateway_host host \<and> cw_http_port w \<noteq> 80 then CHR '':'' # itoa (cw_http_port w) else [])\<rparr>
      else s)"

definition finish_request :: "string \<Rightarrow> string \<Rightarrow> string \<Rightarrow> compose_service \<Rightarrow> compose_request \<Rightarrow> compose_request" where
  "finish_request project domain main s r =
     (let r = (if cs_name s = main then r else r\<lparr>cr_owner := main, cr_component := cs_name s\<rparr>) in
      if cs_published s \<and> cs_ports s \<noteq> []
      then r\<lparr>cr_domains := Some [(service_host project domain (cs_name s), hd (cs_ports s))]\<rparr> else r)"

definition plan_compose :: "'r compose_world \<Rightarrow> compose_input \<Rightarrow> compose_error + compose_plan" where
  "plan_compose w input =
     (if length (ci_compose input) > 512 * 1024 then Inl Compose_too_large
      else
        (case cw_decode w (ci_compose input) of
           Inl e \<Rightarrow> Inl (Not_yaml e)
         | Inr doc \<Rightarrow>
             (let given = lower_label (trim_space (ci_project input));
                  project = or_else given (lower_label (compose_string (cw_sprint w) (at_key (Some doc) ''name'')))
              in
              case compose_map (at_key (Some doc) ''services'') of
                None \<Rightarrow> Inl No_services
              | Some services0 \<Rightarrow>
                  if services0 = [] then Inl No_services
                  else if project = [] then Inl No_project_name
                  else if \<not> cw_label w project then Inl (Bad_project_name project)
                  else
                    (let env = parse_dot_env (ci_env input);
                         missing = snd (interpolate_tree env (YMap doc));
                         services = (case compose_map (fst (interpolate_tree env (YMap services0))) of Some m \<Rightarrow> m | None \<Rightarrow> []);
                         listed = service_names_in_order (cw_node w (ci_compose input));
                         names = (if length listed \<noteq> length services then sort (map fst services) else listed)
                     in
                     case plan_names w project services names of
                       Inl e \<Rightarrow> Inl e
                     | Inr (planned, ws) \<Rightarrow>
                         if planned = [] then Inl Nothing_to_deploy
                         else
                           (let main = pick_compose_main project (map (\<lambda>(r, x, s). s) planned) in
                            Inr \<lparr>cp_project = project, cp_main = main,
                                 cp_services = map (\<lambda>(r, x, s). finish_service w project (ci_domain input) main s) planned,
                                 cp_warnings = ws, cp_missing = sort (remdups missing),
                                 cp_requests = map (\<lambda>(r, x, s). finish_request project (ci_domain input) main s r) planned,
                                 cp_extras = map_of (rev (map (\<lambda>(r, x, s). (cs_name s, x)) planned))\<rparr>)))))"

section \<open>Every plan\<close>

definition ports_ok :: "int list \<Rightarrow> bool" where
  "ports_ok ps \<longleftrightarrow> distinct ps \<and> list_all (\<lambda>p. 1 \<le> p \<and> p \<le> 65535) ps"

definition mounts_ok :: "string list \<Rightarrow> bool" where
  "mounts_ok vs \<longleftrightarrow> distinct vs \<and> list_all (\<lambda>v. has_prefix v ''/'') vs"

text \<open>What a service of the plan and its request have to do with each other, before and after the main service is known.\<close>

definition planned_ok :: "'r compose_world \<Rightarrow> string \<Rightarrow> compose_service \<Rightarrow> compose_request \<Rightarrow> bool" where
  "planned_ok w project s r \<longleftrightarrow>
     cw_label w (cs_name s) \<and> cr_name r = cs_name s \<and> cr_namespace r = project \<and>
     cr_image r = cs_image s \<and> cs_image s \<noteq> [] \<and>
     ports_ok (cs_ports s) \<and> map pq_port (cr_ports r) = cs_ports s \<and>
     cr_service_type r = (if cs_published s then ''NodePort'' else ''ClusterIP'') \<and>
     mounts_ok (cs_volumes s) \<and> map fst (cr_volumes r) = cs_volumes s \<and>
     sorted_wrt (<) (map fst (cr_env r)) \<and> length (cr_env r) = cs_env_count s \<and>
     cs_replicas s = (case cr_replicas r of Some n \<Rightarrow> n | None \<Rightarrow> 1) \<and> - (2 ^ 31) \<le> cs_replicas s \<and> cs_replicas s < 2 ^ 31"

definition owned_ok :: "compose_plan \<Rightarrow> string \<Rightarrow> compose_service \<Rightarrow> compose_request \<Rightarrow> bool" where
  "owned_ok p domain s r \<longleftrightarrow>
     cs_main s = (cs_name s = cp_main p) \<and>
     (cr_owner r, cr_component r) = (if cs_main s then ([], []) else (cp_main p, cs_name s)) \<and>
     cr_domains r = (if cs_published s \<and> cs_ports s \<noteq> []
       then Some [(service_host (cp_project p) domain (cs_name s), hd (cs_ports s))] else None) \<and>
     cp_extras p (cs_name s) \<noteq> None"

definition compose_plan_ok :: "'r compose_world \<Rightarrow> string \<Rightarrow> compose_plan \<Rightarrow> bool" where
  "compose_plan_ok w domain p \<longleftrightarrow>
     cw_label w (cp_project p) \<and> cp_services p \<noteq> [] \<and>
     list_all2 (\<lambda>s r. planned_ok w (cp_project p) s r \<and> owned_ok p domain s r) (cp_services p) (cp_requests p) \<and>
     cp_main p \<in> cs_name ` set (cp_services p) \<and>
     (cp_project p \<in> cs_name ` set (cp_services p) \<longrightarrow> cp_main p = cp_project p) \<and>
     sorted_wrt (<) (cp_missing p)"

lemma add_port_ok: "ports_ok (fst s) \<Longrightarrow> compose_port t = Some p \<Longrightarrow> ports_ok (fst (add_port p pub s))"
  using compose_port_bounds [of t p] by (auto simp: ports_ok_def add_port_def split: prod.splits)

lemma read_ports_ok: "ports_ok (fst s) \<Longrightarrow> ports_ok (fst (fst (read_ports sprint name items s)))"
proof (induction sprint name items s rule: read_ports.induct)
  case (2 sprint name item items s)
  show ?case
  proof (cases "compose_map item")
    case None
    with 2 show ?thesis
      by (cases "CHR ''-'' \<in> set (compose_string sprint item)";
          cases "compose_port (last (split_on CHR '':'' (compose_string sprint item)))")
        (simp_all add: Let_def split_beta add_port_ok)
  next
    case (Some long)
    with 2 show ?thesis
      by (cases "compose_port (compose_string sprint (at_key (Some long) ''target''))") (simp_all add: add_port_ok)
  qed
qed simp

lemma read_expose_ok: "ports_ok (fst s) \<Longrightarrow> ports_ok (fst (read_expose sprint items s))"
  by (induction sprint items s rule: read_expose.induct) (auto simp: add_port_ok split: option.splits)

lemma read_volume_ok: "mounts_ok (fst s) \<Longrightarrow> mounts_ok (fst (read_volume sprint name s item))"
  by (auto simp: read_volume_def mounts_ok_def split: prod.splits)

lemma read_volumes_ok: "mounts_ok (fst s) \<Longrightarrow> mounts_ok (fst (foldl (read_volume sprint name) s items))"
  by (induction items arbitrary: s) (simp_all add: read_volume_ok)

lemma sorted_distinct: "sorted_wrt (<) (sort (remdups xs :: 'a :: linorder list))"
  by (simp add: strict_sorted_iff)

lemma env_vars_sorted: "sorted_wrt (<) (map fst (env_vars env))"
  by (simp add: env_vars_def sorted_distinct comp_def)

lemma to_int32_bounds: "- (2 ^ 31) \<le> to_int32 n \<and> to_int32 n < 2 ^ 31"
  by (simp add: to_int32_def)

lemma service_ports_ok: "ports_ok (fst (fst (service_ports sprint name service)))"
  by (simp add: service_ports_def split_beta Let_def read_expose_ok read_ports_ok ports_ok_def [of "[]"])

lemma service_volumes_ok: "mounts_ok (fst (service_volumes sprint name service))"
  by (simp add: service_volumes_def split_beta Let_def read_volumes_ok mounts_ok_def [of "[]"])

lemma service_replicas_bounds:
  "- (2 ^ 31) \<le> (case service_replicas t of Some n \<Rightarrow> n | None \<Rightarrow> 1) \<and>
   (case service_replicas t of Some n \<Rightarrow> n | None \<Rightarrow> 1) < 2 ^ 31"
  using to_int32_bounds by (auto simp: service_replicas_def split: option.splits)

lemma plan_compose_service_ok:
  assumes p: "plan_compose_service w project name service = Inr ((r, x, s), ws)" and l: "cw_label w name"
  shows "planned_ok w project s r \<and> cr_owner r = [] \<and> cr_component r = [] \<and> cr_domains r = None"
proof -
  have i: "trim_space (compose_string (cw_sprint w) (at_key (Some service) ''image'')) \<noteq> []"
    using p by (auto simp: plan_compose_service_def Let_def)
  note p [unfolded plan_compose_service_def Let_def if_not_P [OF i] sum.inject prod.inject]
  then show ?thesis
    by (elim conjE, hypsubst)
      (simp add: planned_ok_def l i service_ports_ok service_volumes_ok service_replicas_bounds [simplified] env_vars_sorted comp_def)
qed

lemma plan_names_ok:
  "plan_names w project services names = Inr (planned, ws) \<Longrightarrow> (r, x, s) \<in> set planned \<Longrightarrow>
   planned_ok w project s r \<and> cr_owner r = [] \<and> cr_component r = [] \<and> cr_domains r = None"
proof (induction w project services names arbitrary: planned ws rule: plan_names.induct)
  case (2 w project services name names)
  show ?case
  proof (cases "compose_map (at_key (Some services) name)")
    case None
    with 2 show ?thesis by simp
  next
    case (Some service)
    show ?thesis
    proof (cases "items_of (at_key (Some service) ''profiles'') = []")
      case False
      with 2(4,5) Some obtain ws' where "cw_label w name" "plan_names w project services names = Inr (planned, ws')"
        by (auto split: if_splits sum.splits)
      from 2(2) [OF Some _ False this(2) 2(5)] this(1) show ?thesis by simp
    next
      case True
      with 2(4) Some obtain r0 x0 s0 ws0 planned' ws' where l: "cw_label w name"
        and p: "plan_compose_service w project name service = Inr ((r0, x0, s0), ws0)"
        and n: "plan_names w project services names = Inr (planned', ws')" and pl: "planned = (r0, x0, s0) # planned'"
        by (auto split: if_splits sum.splits)
      from 2(5) pl have "(r, x, s) = (r0, x0, s0) \<or> (r, x, s) \<in> set planned'" by simp
      with plan_compose_service_ok [OF p l] 2(3) [OF Some _ _ p refl n] l True show ?thesis by auto
    qed
  qed
qed simp

lemma pick_compose_main_in: "ss \<noteq> [] \<Longrightarrow> pick_compose_main project ss \<in> cs_name ` set ss"
  by (auto simp: pick_compose_main_def find_Some_iff split: option.splits)

lemma pick_compose_main_project: "project \<in> cs_name ` set ss \<Longrightarrow> pick_compose_main project ss = project"
  by (auto simp: pick_compose_main_def find_Some_iff find_None_iff split: option.splits)

lemma finish_service_name: "cs_name (finish_service w project domain main s) = cs_name s"
  by (simp add: finish_service_def Let_def)

text \<open>
  C20: whatever is pasted and whatever the decoders answer, a compose plan is well formed: the project
  and every service is named by a label; each request is for its service, in the project's namespace,
  with an image; the ports are distinct and between 1 and 65535 and a service is a NodePort exactly when
  it publishes; every volume is at a path of its own from the root; the number of replicas fits 32 bits;
  the variables are sorted by distinct names; one of the planned services is the main one, the one named
  as the project if there is one, and exactly the others belong to it; a published service with a port
  has its own domain, and no other has one.
\<close>

theorem compose_plan_well_formed:
  assumes "plan_compose w input = Inr p"
  shows "compose_plan_ok w (ci_domain input) p"
proof -
  obtain project planned ws missing where
    l: "cw_label w project" and ne: "planned \<noteq> []" and
    ok: "\<And>r x s. (r, x, s) \<in> set planned \<Longrightarrow>
           planned_ok w project s r \<and> cr_owner r = [] \<and> cr_component r = [] \<and> cr_domains r = None" and
    p: "p = (let main = pick_compose_main project (map (\<lambda>(r, x, s). s) planned) in
        \<lparr>cp_project = project, cp_main = main,
         cp_services = map (\<lambda>(r, x, s). finish_service w project (ci_domain input) main s) planned,
         cp_warnings = ws, cp_missing = sort (remdups missing),
         cp_requests = map (\<lambda>(r, x, s). finish_request project (ci_domain input) main s r) planned,
         cp_extras = map_of (rev (map (\<lambda>(r, x, s). (cs_name s, x)) planned))\<rparr>)"
    using assms plan_names_ok
    by (auto simp: plan_compose_def Let_def split: if_splits sum.splits option.splits) blast+
  let ?main = "cp_main p"
  have names: "cs_name ` set (cp_services p) = cs_name ` set (map (\<lambda>(r, x, s). s) planned)"
    by (simp add: p Let_def image_image split_beta finish_service_name)
  have main: "?main = pick_compose_main project (map (\<lambda>(r, x, s). s) planned)" and
    proj: "cp_project p = project" by (simp_all add: p Let_def)
  have extras: "cp_extras p (cs_name s) \<noteq> None" if "(r, x, s) \<in> set planned" for r x s
  proof -
    have "cs_name s \<in> fst ` set (rev (map (\<lambda>(r, x, s). (cs_name s, x)) planned))" using that by force
    then have "map_of (rev (map (\<lambda>(r, x, s). (cs_name s, x)) planned)) (cs_name s) \<noteq> None"
      by (simp only: map_of_eq_None_iff not_not)
    then show ?thesis by (simp add: p Let_def)
  qed
  have one: "planned_ok w project (finish_service w project (ci_domain input) ?main s) (finish_request project (ci_domain input) ?main s r) \<and>
      owned_ok p (ci_domain input) (finish_service w project (ci_domain input) ?main s) (finish_request project (ci_domain input) ?main s r)"
    if "(r, x, s) \<in> set planned" for r x s
    using ok [OF that] extras [OF that]
    by (cases "cs_published s \<and> cs_ports s \<noteq> []")
      (auto simp: finish_service_def finish_request_def planned_ok_def owned_ok_def proj Let_def)
  have "list_all2 (\<lambda>s r. planned_ok w project s r \<and> owned_ok p (ci_domain input) s r) (cp_services p) (cp_requests p)"
    using one by (simp add: list_all2_conv_all_nth main p Let_def split_beta) (metis nth_mem prod.collapse)
  moreover have "?main \<in> cs_name ` set (cp_services p)"
    unfolding names main by (rule pick_compose_main_in) (use ne in simp)
  moreover have "?main = project" if "project \<in> cs_name ` set (cp_services p)"
    unfolding main by (rule pick_compose_main_project) (use that names in simp)
  moreover have "cp_services p \<noteq> []" "sorted_wrt (<) (cp_missing p)"
    using ne by (simp_all add: p Let_def sorted_distinct)
  ultimately show ?thesis using l by (simp add: compose_plan_ok_def proj)
qed

definition compose_example :: "unit compose_world" where
  "compose_example =
     \<lparr>cw_decode = (\<lambda>_. Inr [(''services'', YMap
        [(''web'', YMap [(''image'', YString ''nginx:${TAG:-1.27}''), (''ports'', YList [YString ''8080:80'', YInt 443]),
            (''volumes'', YList [YString ''data:/data'', YString ''./conf.yml:/etc/conf.yml''])]),
         (''db'', YMap [(''image'', YString ''postgres''), (''environment'', YMap [(''PASSWORD'', YString ''$SECRET'')])])])]),
      cw_node = (\<lambda>_. None), cw_sprint = (\<lambda>_. []), cw_label = rfc1123_label, cw_quantity = (\<lambda>_. True),
      cw_gpu = False, cw_http_port = 9000\<rparr>"

definition compose_example_input :: compose_input where
  "compose_example_input = \<lparr>ci_project = '' Shop'', ci_compose = ''...'', ci_env = [], ci_domain = ''localhost''\<rparr>"

theorem compose_plan_well_formed_witness:
  "case plan_compose compose_example compose_example_input of
     Inl e \<Rightarrow> False
   | Inr p \<Rightarrow> map (\<lambda>s. (cs_name s, cs_ports s, cs_url s, cs_volumes s)) (cp_services p) =
         [(''db'', [], [], []), (''web'', [80, 443], ''http://web-shop.localhost:9000'', [''/data''])] \<and>
       cp_missing p = [''SECRET''] \<and> cp_main p = ''web'' \<and> compose_plan_ok compose_example ''localhost'' p"
proof -
  have "case plan_compose compose_example compose_example_input of
     Inl e \<Rightarrow> False
   | Inr p \<Rightarrow> map (\<lambda>s. (cs_name s, cs_ports s, cs_url s, cs_volumes s)) (cp_services p) =
         [(''db'', [], [], []), (''web'', [80, 443], ''http://web-shop.localhost:9000'', [''/data''])] \<and>
       cp_missing p = [''SECRET''] \<and> cp_main p = ''web''"
    by code_simp
  with compose_plan_well_formed [of compose_example compose_example_input] show ?thesis
    by (auto simp: compose_example_input_def split: sum.splits)
qed

end
