(* ===== verification/HelmValues.thy ===== *)
theory HelmValues
  imports GoStrings "HOL-Library.List_Lexorder" "HOL-Library.Char_ord"
begin

text \<open>
  The values of a Helm chart (store/helm\_install\_values.go): merging overrides into values, the
  overrides that lead from one tree to another, and the rewriting of Bitnami's images. A Go map is
  the list of its entries sorted by key, so that equal maps are equal lists; Go visits them in any
  order, and the results below do not depend on it (of several errors, the model reports the first
  by key). A number is what Go holds, by its type and digits.
\<close>

section \<open>Trees of values\<close>

datatype hval =
    VNull | VBool bool | VInt int | VInt32 int | VNumber string | VStr string | VStrs "string list"
  | VMap "(string \<times> hval) list" | VList "hval list"

type_synonym hmap = "(string \<times> hval) list"

definition keys_sorted :: "(string \<times> 'v) list \<Rightarrow> bool" where
  "keys_sorted m \<longleftrightarrow> sorted_wrt (<) (map fst m)"

fun canon :: "hval \<Rightarrow> bool" where
  "canon (VMap m) \<longleftrightarrow> keys_sorted m \<and> list_all (\<lambda>(k, v). canon v) m"
| "canon (VList l) \<longleftrightarrow> list_all canon l"
| "canon _ \<longleftrightarrow> True"

fun put :: "string \<Rightarrow> 'v \<Rightarrow> (string \<times> 'v) list \<Rightarrow> (string \<times> 'v) list" where
  "put k v [] = [(k, v)]"
| "put k v ((k', v') # m) =
     (if k < k' then (k, v) # (k', v') # m else if k = k' then (k, v) # m else (k', v') # put k v m)"

text \<open>A literal of Go.\<close>

definition obj :: "(string \<times> hval) list \<Rightarrow> hmap" where
  "obj entries = foldl (\<lambda>m (k, v). put k v m) [] entries"

text \<open>The assertion \<open>v.(map[string]interface{})\<close>.\<close>

fun as_map :: "hval \<Rightarrow> hmap option" where "as_map (VMap m) = Some m" | "as_map _ = None"

lemma as_map_Some [simp]: "as_map v = Some m \<longleftrightarrow> v = VMap m" "Some m = as_map v \<longleftrightarrow> v = VMap m"
  by (cases v; auto)+

definition map_or_empty :: "hval option \<Rightarrow> hmap" where
  "map_or_empty v = (case v of Some (VMap m) \<Rightarrow> m | _ \<Rightarrow> [])"

definition string_at :: "hmap \<Rightarrow> string \<Rightarrow> string option" where
  "string_at m key = (case map_of m key of Some (VStr s) \<Rightarrow> Some s | _ \<Rightarrow> None)"

definition or_null :: "hval option \<Rightarrow> hval" where
  "or_null v = (case v of None \<Rightarrow> VNull | Some x \<Rightarrow> x)"

lemma map_of_put [simp]: "map_of (put k v m) k' = (if k' = k then Some v else map_of m k')"
  by (induction k v m rule: put.induct) auto

lemma keys_put [simp]: "fst ` set (put k v m) = insert k (fst ` set m)"
  by (induction k v m rule: put.induct) auto

lemma keys_sorted_Cons: "keys_sorted ((k, v) # m) \<longleftrightarrow> (\<forall>k' \<in> fst ` set m. k < k') \<and> keys_sorted m"
  by (auto simp: keys_sorted_def)

lemma keys_sorted_put: "keys_sorted m \<Longrightarrow> keys_sorted (put k v m)"
  by (induction k v m rule: put.induct) (auto simp: keys_sorted_Cons keys_sorted_def [of "[]"])

lemma keys_sorted_obj: "keys_sorted (obj entries)"
proof -
  have "keys_sorted m \<Longrightarrow> keys_sorted (foldl (\<lambda>m (k, v). put k v m) m entries)" for m
    by (induction entries arbitrary: m) (auto simp: keys_sorted_put)
  then show ?thesis by (simp add: obj_def keys_sorted_def)
qed

lemma map_of_None_below: "\<forall>k' \<in> fst ` set m. k < k' \<Longrightarrow> map_of m (k :: string) = None"
  by (force simp: map_of_eq_None_iff)

lemma keys_sorted_ext: "keys_sorted a \<Longrightarrow> keys_sorted b \<Longrightarrow> map_of a = map_of b \<Longrightarrow> a = b"
proof (induction a arbitrary: b)
  case Nil
  then show ?case by (cases b) (auto simp: fun_eq_iff split: if_splits)
next
  case (Cons e a)
  obtain k v where e: "e = (k, v)" by force
  have "dom (map_of b) = fst ` set b" by (simp add: dom_map_of_conv_image_fst)
  have "map_of b k = Some v" using Cons.prems(3) e by (metis map_of_Cons_code(2))
  then obtain k' v' b' where b: "b = (k', v') # b'" by (cases b) auto
  have "k' \<in> fst ` set (e # a)" using Cons.prems(3) b by (metis dom_map_of_conv_image_fst fst_conv image_insert insert_iff list.simps(15))
  moreover have "k \<in> fst ` set b" using \<open>map_of b k = Some v\<close> by (metis domI dom_map_of_conv_image_fst)
  ultimately have k: "k' = k" using Cons.prems(1,2) e b by (fastforce simp: keys_sorted_Cons dest: less_trans)
  have v: "v' = v" using \<open>map_of b k = Some v\<close> b k by simp
  have "map_of a = map_of b'"
  proof
    fix x
    have "map_of (e # a) x = map_of b x" using Cons.prems(3) by (rule fun_cong)
    moreover have "map_of a k = None" "map_of b' k = None"
      using Cons.prems(1,2) e b k by (auto simp: keys_sorted_Cons intro!: map_of_None_below)
    ultimately show "map_of a x = map_of b' x" using e b k by (auto split: if_splits)
  qed
  with Cons e b k v show ?case by (simp add: keys_sorted_Cons)
qed

section \<open>Copies, differences, merges\<close>

fun clone_value :: "hval \<Rightarrow> hval" where
  "clone_value (VMap m) = VMap (map (\<lambda>(k, v). (k, clone_value v)) m)"
| "clone_value (VList l) = VList (map clone_value l)"
| "clone_value v = v"

definition clone_values :: "hmap \<Rightarrow> hmap" where
  "clone_values m = map (\<lambda>(k, v). (k, clone_value v)) m"

function changed_values :: "hmap \<Rightarrow> hmap \<Rightarrow> hmap" where
  "changed_values before [] = []"
| "changed_values before ((key, after_value) # after) =
     (let changes = changed_values before after in
      case map_of before key of
        None \<Rightarrow> (key, clone_value after_value) # changes
      | Some before_value \<Rightarrow>
          (case (as_map before_value, as_map after_value) of
             (Some before_map, Some after_map) \<Rightarrow>
               (let nested = changed_values before_map after_map in if nested \<noteq> [] then (key, VMap nested) # changes else changes)
           | _ \<Rightarrow> if before_value \<noteq> after_value then (key, clone_value after_value) # changes else changes))"
  by pat_completeness auto
termination by (relation "measure (\<lambda>(b, a). size_list (size_prod (\<lambda>_. 0) size) a)") auto

text \<open>Merging fails where the overrides have a map and the target something else, with the path to it.\<close>

function merge_overrides :: "hmap \<Rightarrow> hmap \<Rightarrow> string list \<Rightarrow> string list + hmap" where
  "merge_overrides target [] path = Inr target"
| "merge_overrides target ((key, override) # overrides) path =
     (case as_map override of
        None \<Rightarrow> merge_overrides (put key (clone_value override) target) overrides path
      | Some override_map \<Rightarrow>
          (let existing = or_null (map_of target key); existing = (if existing = VNull then VMap [] else existing) in
           case as_map existing of
             None \<Rightarrow> Inl (path @ [key])
           | Some target_map \<Rightarrow>
               (case merge_overrides target_map override_map (path @ [key]) of
                  Inl e \<Rightarrow> Inl e
                | Inr merged \<Rightarrow> merge_overrides (put key (VMap merged) target) overrides path)))"
  by pat_completeness auto
termination by (relation "measure (\<lambda>(t, os, p). size_list (size_prod (\<lambda>_. 0) size) os)") auto

lemma clone_value_id [simp]: "clone_value v = v"
  by (induction v) (auto intro!: map_idI)

lemma clone_values_id [simp]: "clone_values m = m"
  by (auto simp: clone_values_def intro!: map_idI)

lemma keys_sorted_Nil [simp]: "keys_sorted []"
  by (simp add: keys_sorted_def)

lemma canon_Cons: "canon (VMap ((k, v) # m)) \<longleftrightarrow> (\<forall>k' \<in> fst ` set m. k < k') \<and> canon v \<and> canon (VMap m)"
  by (auto simp: keys_sorted_Cons)

text \<open>Merging into entries that all come first appends.\<close>

lemma put_last: "\<forall>k' \<in> fst ` set m. k' < k \<Longrightarrow> put k v m = m @ [(k, v)]"
  by (induction m) (auto dest: less_asym)

lemma merge_appends:
  "canon (VMap overrides) \<Longrightarrow> \<forall>k \<in> fst ` set target. \<forall>k' \<in> fst ` set overrides. k < k' \<Longrightarrow>
   merge_overrides target overrides path = Inr (target @ overrides)"
proof (induction target overrides path rule: merge_overrides.induct)
  case (2 target key override overrides path)
  have new: "map_of target key = None"
    using 2(5) by (force simp: map_of_eq_None_iff)
  have put: "put key v target = target @ [(key, v)]" for v using 2(5) by (intro put_last) auto
  have rest: "canon override" "canon (VMap overrides)" "\<forall>k' \<in> fst ` set overrides. key < k'"
    using 2(4) by (auto simp: keys_sorted_Cons)
  have lt: "\<forall>k \<in> fst ` set (target @ [(key, v)]). \<forall>k' \<in> fst ` set overrides. k < k'" for v
    using 2(5) rest(3) by auto
  show ?case
  proof (cases "as_map override")
    case None
    then show ?thesis using 2(1) [OF None] put lt rest(2) by simp
  next
    case (Some om)
    have m: "merge_overrides [] om (path @ [key]) = Inr om"
      using 2(2) [OF Some refl refl] rest(1) new Some by (simp add: or_null_def)
    then show ?thesis using 2(3) [OF Some refl refl _ m] new Some put lt rest(2) by (simp add: or_null_def)
  qed
qed simp

text \<open>
  One tree extends another when no key is lost and a map only stands where there was a map or nothing.
\<close>

function extends :: "hmap \<Rightarrow> hmap \<Rightarrow> bool" where
  "extends before [] \<longleftrightarrow> True"
| "extends before ((key, v) # after) \<longleftrightarrow> extends before after \<and>
     (case as_map v of
        None \<Rightarrow> True
      | Some after_map \<Rightarrow>
          (let old = or_null (map_of before key) in
           case as_map old of
             Some before_map \<Rightarrow> list_all (\<lambda>(k, v). map_of after_map k \<noteq> None) before_map \<and> extends before_map after_map
           | None \<Rightarrow> old = VNull))"
  by pat_completeness auto
termination by (relation "measure (\<lambda>(b, a). size_list (size_prod (\<lambda>_. 0) size) a)") auto

definition grows_into :: "hmap \<Rightarrow> hmap \<Rightarrow> bool" where
  "grows_into before after \<longleftrightarrow> list_all (\<lambda>(k, v). map_of after k \<noteq> None) before \<and> extends before after"

lemma merge_changes:
  "canon (VMap before) \<Longrightarrow> canon (VMap after) \<Longrightarrow> extends before after \<Longrightarrow>
   keys_sorted target \<Longrightarrow> \<forall>k \<in> fst ` set after. map_of target k = map_of before k \<Longrightarrow>
   \<exists>t. merge_overrides target (changed_values before after) path = Inr t \<and> keys_sorted t \<and>
     (\<forall>k. map_of t k = (case map_of after k of None \<Rightarrow> map_of target k | Some v \<Rightarrow> Some v))"
proof (induction before after arbitrary: target path rule: changed_values.induct)
  case (2 before key v after)
  have after: "canon v" "canon (VMap after)" "\<forall>k' \<in> fst ` set after. key < k'" "map_of after key = None"
    using 2(4) by (auto simp: keys_sorted_Cons intro!: map_of_None_below)
  have step: "\<exists>t. merge_overrides (put key v target) (changed_values before after) path = Inr t \<and> keys_sorted t \<and>
      (\<forall>k. map_of t k = (case map_of ((key, v) # after) k of None \<Rightarrow> map_of target k | Some v \<Rightarrow> Some v))"
  proof -
    have "\<forall>k \<in> fst ` set after. map_of (put key v target) k = map_of before k" using 2(7) after(3) by auto
    from 2(1) [OF 2(3) after(2) _ keys_sorted_put [OF 2(6)] this] 2(5) obtain t where
      "merge_overrides (put key v target) (changed_values before after) path = Inr t" "keys_sorted t"
      "\<forall>k. map_of t k = (case map_of after k of None \<Rightarrow> map_of (put key v target) k | Some v \<Rightarrow> Some v)" by auto
    then show ?thesis using after(4) by (auto split: option.splits)
  qed
  have same: "\<exists>t. merge_overrides target (changed_values before after) path = Inr t \<and> keys_sorted t \<and>
      (\<forall>k. map_of t k = (case map_of ((key, v) # after) k of None \<Rightarrow> map_of target k | Some v \<Rightarrow> Some v))"
    if "map_of before key = Some v"
  proof -
    have "\<forall>k \<in> fst ` set after. map_of target k = map_of before k" using 2(7) by auto
    from 2(1) [OF 2(3) after(2) _ 2(6) this] 2(5) obtain t where
      "merge_overrides target (changed_values before after) path = Inr t" "keys_sorted t"
      "\<forall>k. map_of t k = (case map_of after k of None \<Rightarrow> map_of target k | Some v \<Rightarrow> Some v)" by auto
    moreover have "map_of target key = Some v" using 2(7) that by simp
    ultimately show ?thesis using after(4) by (auto split: option.splits)
  qed
  have target: "map_of target key = map_of before key" using 2(7) by simp
  show ?case
  proof (cases "map_of before key")
    case None
    show ?thesis
    proof (cases "as_map v")
      case (Some am)
      have "merge_overrides [] am (path @ [key]) = Inr am" using merge_appends [of am "[]"] after(1) Some by simp
      then show ?thesis using None Some step target by (simp add: or_null_def)
    qed (use None step in simp)
  next
    case (Some old)
    show ?thesis
    proof (cases "as_map v")
      case None
      then show ?thesis using Some step same by (cases "old = v"; cases "as_map old") (simp_all add: Let_def)
    next
      case v: (Some am)
      show ?thesis
      proof (cases "as_map old")
        case None
        with 2(5) v Some have n: "old = VNull" by (auto simp: or_null_def)
        have "merge_overrides [] am (path @ [key]) = Inr am" using merge_appends [of am "[]"] after(1) v by simp
        then show ?thesis using Some v n step target by (simp add: or_null_def)
      next
        case old: (Some bm)
        have "canon (VMap bm)" using 2(3) Some old by (fastforce simp: list_all_iff dest: map_of_SomeD)
        moreover have e: "extends bm am" "list_all (\<lambda>(k, v). map_of am k \<noteq> None) bm"
          using 2(5) v Some old by (auto simp: or_null_def)
        ultimately obtain t where t: "merge_overrides bm (changed_values bm am) (path @ [key]) = Inr t" "keys_sorted t"
          "\<forall>k. map_of t k = (case map_of am k of None \<Rightarrow> map_of bm k | Some v \<Rightarrow> Some v)"
          using 2(2) [OF refl Some refl, of bm am bm "path @ [key]"] old v after(1) by auto
        have "map_of bm k = None" if "map_of am k = None" for k
          using e(2) that by (force simp: list_all_iff map_of_eq_None_iff)
        then have "map_of t k = map_of am k" for k using t(3) by (cases "map_of am k") auto
        then have "map_of t = map_of am" by (rule ext)
        with t(2) after(1) v have am: "t = am" by (intro keys_sorted_ext) simp_all
        show ?thesis
        proof (cases "changed_values bm am = []")
          case True
          with t(1) am have "bm = am" by simp
          with True Some old v have eq: "changed_values before ((key, v) # after) = changed_values before after" by simp
          show ?thesis unfolding eq by (rule same) (use Some old v \<open>bm = am\<close> in simp)
        next
          case False
          with t(1) am Some old v step target show ?thesis by (simp add: or_null_def)
        qed
      qed
    qed
  qed
qed simp

section \<open>Bitnami's images\<close>

record adjustments =
  legacy_images :: bool
  tomcat_webapps :: bool

datatype values_error =
    Must_be_map "string list" | Coalesce_failed string | No_randomness string | Rejected string
  | Unparsable string | Unprintable string | Apply_adapter string values_error | Validate_adapter string string

definition merged_into :: "hmap \<Rightarrow> hmap \<Rightarrow> values_error + hmap" where
  "merged_into target overrides = (case merge_overrides target overrides [] of Inl p \<Rightarrow> Inl (Must_be_map p) | Inr m \<Rightarrow> Inr m)"

text \<open>\<open>chartutil.CoalesceValues\<close> is a field of the chart: what Helm makes of the values given.\<close>

record chart =
  ch_name :: string
  ch_values :: hmap
  ch_coalesce :: "hmap \<Rightarrow> string + hmap"

definition custom_global_registry :: "hmap \<Rightarrow> bool" where
  "custom_global_registry vals \<longleftrightarrow>
     (case string_at (map_or_empty (map_of vals ''global'')) ''imageRegistry'' of
        None \<Rightarrow> False
      | Some r \<Rightarrow> to_lower (trim_space r) \<notin> {[], ''docker.io'', ''registry-1.docker.io''})"

definition explicit_opt_out :: "hmap \<Rightarrow> hmap \<Rightarrow> bool \<Rightarrow> bool" where
  "explicit_opt_out vals defaults is_overrides \<longleftrightarrow>
     (case map_of (map_or_empty (map_of (map_or_empty (map_of vals ''global'')) ''security'')) ''allowInsecureImages'' of
        Some (VBool False) \<Rightarrow>
          is_overrides \<or>
          map_of (map_or_empty (map_of (map_or_empty (map_of defaults ''global'')) ''security'')) ''allowInsecureImages''
            \<noteq> Some (VBool False)
      | _ \<Rightarrow> False)"

definition apply_tomcat :: "string \<Rightarrow> hmap \<Rightarrow> hmap \<Rightarrow> hmap \<Rightarrow> bool \<Rightarrow> hmap \<times> bool" where
  "apply_tomcat chart_name vals explicit defaults is_overrides =
     (let key = ''tomcatInstallDefaultWebapps'' in
      if \<not> equal_fold (trim_space chart_name) ''tomcat'' then (vals, False)
      else if (case map_of explicit key of None \<Rightarrow> False | Some v \<Rightarrow> is_overrides \<or> map_of defaults key \<noteq> Some v) then (vals, False)
      else if map_of vals key = Some (VBool False) then (put key (VBool True) vals, True)
      else (vals, False))"

definition bitnami_repo :: "string \<Rightarrow> bool" where
  "bitnami_repo repo_url \<longleftrightarrow>
     (let normalized = to_lower (trim_right_set (trim_space repo_url) ''/'') in
      normalized = ''https://charts.bitnami.com/bitnami'' \<or>
      has_prefix (normalized @ ''/'') ''oci://registry-1.docker.io/bitnamicharts/'' \<or>
      has_prefix (normalized @ ''/'') ''oci://docker.io/bitnamicharts/'')"

definition explicit_location :: "hval \<Rightarrow> hval \<Rightarrow> bool \<Rightarrow> bool" where
  "explicit_location v default_value is_overrides \<longleftrightarrow>
     (case as_map v of
        None \<Rightarrow> False
      | Some explicit \<Rightarrow>
          if is_overrides then map_of explicit ''registry'' \<noteq> None \<or> map_of explicit ''repository'' \<noteq> None
          else list_ex (\<lambda>key. case map_of explicit key of
                 None \<Rightarrow> False | Some x \<Rightarrow> map_of (map_or_empty (Some default_value)) key \<noteq> Some x)
               [''registry'', ''repository'', ''tag'', ''digest''])"

definition image_key :: "string \<Rightarrow> bool" where
  "image_key key \<longleftrightarrow> has_suffix (to_lower (trim_space key)) ''image''"

definition has_version :: "hmap \<Rightarrow> bool" where
  "has_version vals \<longleftrightarrow>
     (case string_at vals ''digest'' of Some d \<Rightarrow> trim_space d \<noteq> [] | None \<Rightarrow> False) \<or>
     (case string_at vals ''tag'' of Some t \<Rightarrow> trim_space t \<noteq> [] | None \<Rightarrow> False)"

definition bitnami_prefixes :: "string list" where
  "bitnami_prefixes = [''bitnami/'', ''docker.io/bitnami/'', ''registry-1.docker.io/bitnami/'',
     ''bitnamilegacy/'', ''docker.io/bitnamilegacy/'', ''registry-1.docker.io/bitnamilegacy/'']"

definition bitnami_image :: "string \<Rightarrow> string option" where
  "bitnami_image repository =
     (case find (has_prefix repository) bitnami_prefixes of None \<Rightarrow> None | Some p \<Rightarrow> Some (trim_prefix repository p))"

definition rewrite_repository :: "hmap \<Rightarrow> hmap \<times> bool" where
  "rewrite_repository vals =
     (case string_at vals ''repository'' of
        None \<Rightarrow> (vals, False)
      | Some repository \<Rightarrow>
          if \<not> has_version vals then (vals, False)
          else
            (let registry = to_lower (trim_space (case string_at vals ''registry'' of None \<Rightarrow> [] | Some r \<Rightarrow> r)) in
             if registry \<notin> {[], ''docker.io'', ''registry-1.docker.io''} then (vals, False)
             else
               (case bitnami_image repository of
                  None \<Rightarrow> (vals, False)
                | Some name \<Rightarrow>
                    (let wanted = ''bitnamilegacy/'' @ name in
                     if registry = ''docker.io'' \<and> repository = wanted then (vals, False)
                     else (put ''repository'' (VStr wanted) (put ''registry'' (VStr ''docker.io'') vals), True)))))"

definition nth_or_null :: "hval list \<Rightarrow> nat \<Rightarrow> hval" where
  "nth_or_null l i = (if i < length l then l ! i else VNull)"

definition items :: "hval \<Rightarrow> hval list" where
  "items v = (case v of VList l \<Rightarrow> l | _ \<Rightarrow> [])"

text \<open>
  The code rewrites a map before it visits the children; the children that are rewritten are maps and
  lists, and rewriting a repository reads and writes strings only, so the order makes no difference.
\<close>

function (sequential) rewrite_legacy :: "bool \<Rightarrow> bool \<Rightarrow> hval \<Rightarrow> hval \<Rightarrow> hval \<Rightarrow> hval \<times> bool" where
  "rewrite_legacy is_overrides image_values (VMap m) explicit default_value =
     (let rs = map (\<lambda>(key, child). (key, rewrite_legacy is_overrides (image_key key) child
                 (or_null (map_of (map_or_empty (Some explicit)) key))
                 (or_null (map_of (map_or_empty (Some default_value)) key)))) m;
          children = map (\<lambda>(key, r). (key, fst r)) rs; changed = list_ex (\<lambda>(key, r). snd r) rs
      in if image_values \<and> \<not> explicit_location explicit default_value is_overrides
         then (let (m', c) = rewrite_repository children in (VMap m', c \<or> changed))
         else (VMap children, changed))"
| "rewrite_legacy is_overrides image_values (VList l) explicit default_value =
     (let rs = map (\<lambda>(i, child). rewrite_legacy is_overrides image_values child
                 (nth_or_null (items explicit) i) (nth_or_null (items default_value) i)) (enumerate 0 l)
      in (VList (map fst rs), list_ex snd rs))"
| "rewrite_legacy is_overrides image_values v explicit default_value = (v, False)"
  by pat_completeness auto
termination
proof (relation "measure (\<lambda>(_, _, v, _, _). size v)")
  fix l :: "hval list" and x i and y :: hval and a b d e
  assume "x \<in> set (enumerate 0 l)" "(i, y) = x"
  then have "y \<in> set l" by (auto simp: in_set_enumerate_eq)
  then have "size y \<le> size_list size l" by (simp add: size_list_estimation')
  then show "((a, b, y, nth_or_null (items d) i, nth_or_null (items e) i), a, b, VList l, d, e)
      \<in> measure (\<lambda>(_, _, v, _, _). size v)" by simp
qed (auto simp: less_Suc_eq_le intro: size_list_estimation')

definition ensure_put_message :: "string list \<Rightarrow> nat \<Rightarrow> values_error" where
  "ensure_put_message path n = Must_be_map (take (Suc n) path)"

text \<open>\<open>ensureHelmValuesPath\<close>, with what is done to the map it returns; \<open>n\<close> counts the keys passed.\<close>

fun at_values_path :: "string list \<Rightarrow> nat \<Rightarrow> string list \<Rightarrow> (hmap \<Rightarrow> hmap) \<Rightarrow> hmap \<Rightarrow> values_error + hmap" where
  "at_values_path path n [] f current = Inr (f current)"
| "at_values_path path n (key # ks) f current =
     (let existing = or_null (map_of current key); existing = (if existing = VNull then VMap [] else existing) in
      case as_map existing of
        None \<Rightarrow> Inl (ensure_put_message path n)
      | Some m \<Rightarrow>
          (case at_values_path path (Suc n) ks f m of
             Inl e \<Rightarrow> Inl e | Inr m' \<Rightarrow> Inr (put key (VMap m') current)))"

definition ensure_values_path :: "hmap \<Rightarrow> string list \<Rightarrow> (hmap \<Rightarrow> hmap) \<Rightarrow> values_error + hmap" where
  "ensure_values_path root path f = at_values_path path 0 path f root"

definition legacy_rewritten :: "hmap \<Rightarrow> hmap \<Rightarrow> hmap \<Rightarrow> bool \<Rightarrow> hmap \<times> bool" where
  "legacy_rewritten before input defaults is_overrides =
     (if \<not> custom_global_registry before \<and> \<not> explicit_opt_out input defaults is_overrides
      then (let (v, c) = rewrite_legacy is_overrides False (VMap before) (VMap input) (VMap defaults)
            in (map_or_empty (Some v), c))
      else (before, False))"

definition apply_bitnami :: "chart \<Rightarrow> hmap \<Rightarrow> hmap \<Rightarrow> bool \<Rightarrow> values_error + hmap \<times> adjustments" where
  "apply_bitnami ch vals input is_overrides =
     (case ch_coalesce ch (clone_values input) of
        Inl e \<Rightarrow> Inl (Coalesce_failed e)
      | Inr before \<Rightarrow>
          (case ch_coalesce ch [] of
             Inl e \<Rightarrow> Inl (Coalesce_failed e)
           | Inr defaults \<Rightarrow>
               (let (patched, legacy) = legacy_rewritten (clone_values before) input defaults is_overrides;
                    (patched, tomcat) = apply_tomcat (ch_name ch) patched input defaults is_overrides;
                    adj = \<lparr>legacy_images = legacy, tomcat_webapps = tomcat\<rparr>
                in
                if \<not> legacy \<and> \<not> tomcat then Inr (vals, adj)
                else
                  (case (if legacy then ensure_values_path patched [''global'', ''security''] (put ''allowInsecureImages'' (VBool True))
                         else Inr patched) of
                     Inl e \<Rightarrow> Inl e
                   | Inr patched \<Rightarrow>
                       (case merged_into vals (changed_values before patched) of
                          Inl e \<Rightarrow> Inl e | Inr m \<Rightarrow> Inr (m, adj))))))"

definition adjustment_warnings :: "adjustments \<Rightarrow> string list" where
  "adjustment_warnings adj =
     (if legacy_images adj then [''Bitnami legacy image fallback is enabled: images use docker.io/bitnamilegacy from the frozen snapshot and global.security.allowInsecureImages=true; review these values before installation''] else []) @
     (if tomcat_webapps adj then [''CasOS enables Tomcat default webapps unless tomcatInstallDefaultWebapps is explicitly set''] else [])"

text \<open>\<open>GetHelmValueOverrides\<close>: the boolean is whether a baseline was given.\<close>

definition helm_value_overrides ::
  "(string \<Rightarrow> string + hmap) \<Rightarrow> (hmap \<Rightarrow> string + string) \<Rightarrow> string \<Rightarrow> string \<Rightarrow> values_error + string \<times> bool" where
  "helm_value_overrides parse marshal values_yaml baseline_yaml =
     (if trim_space baseline_yaml = [] then Inr (values_yaml, False)
      else
        (case parse values_yaml of
           Inl e \<Rightarrow> Inl (Unparsable e)
         | Inr vals \<Rightarrow>
             (case parse baseline_yaml of
                Inl e \<Rightarrow> Inl (Unparsable e)
              | Inr baseline \<Rightarrow>
                  (case marshal (changed_values baseline vals) of
                     Inl e \<Rightarrow> Inl (Unprintable e) | Inr text \<Rightarrow> Inr (text, True)))))"

section \<open>What the operations guarantee\<close>

text \<open>Rewriting the images again changes nothing.\<close>

lemma string_at_put [simp]: "string_at (put k v m) k' = (if k' = k then (case v of VStr s \<Rightarrow> Some s | _ \<Rightarrow> None) else string_at m k')"
  by (simp add: string_at_def)

lemma bitnami_image_legacy: "bitnami_image (''bitnamilegacy/'' @ name) = Some name"
  by (simp add: bitnami_image_def bitnami_prefixes_def has_prefix_def trim_prefix_def)

lemma rewrite_repository_cases:
  "rewrite_repository vals = (vals, False) \<or>
   (\<exists>name. has_version vals \<and> rewrite_repository vals =
      (put ''repository'' (VStr (''bitnamilegacy/'' @ name)) (put ''registry'' (VStr ''docker.io'') vals), True))"
  unfolding rewrite_repository_def Let_def
  by (simp only: split: option.split if_split) blast

lemma has_version_put: "k \<notin> {''digest'', ''tag''} \<Longrightarrow> has_version (put k v m) = has_version m"
  by (auto simp: has_version_def)

lemma docker_io_plain: "to_lower (trim_space ''docker.io'') = ''docker.io''"
  by code_simp

lemma rewrite_repository_done:
  assumes "rewrite_repository vals = (vals', c)"
  shows "rewrite_repository vals' = (vals', False)"
  using rewrite_repository_cases [of vals]
proof
  assume "\<exists>name. has_version vals \<and> rewrite_repository vals =
      (put ''repository'' (VStr (''bitnamilegacy/'' @ name)) (put ''registry'' (VStr ''docker.io'') vals), True)"
  then obtain name where v: "has_version vals"
    and e: "vals' = put ''repository'' (VStr (''bitnamilegacy/'' @ name)) (put ''registry'' (VStr ''docker.io'') vals)"
    using assms by auto
  have "has_version vals'" using v by (simp add: e has_version_put)
  moreover have "string_at vals' ''repository'' = Some (''bitnamilegacy/'' @ name)" "string_at vals' ''registry'' = Some ''docker.io''"
    by (simp_all add: e)
  ultimately show ?thesis
    unfolding rewrite_repository_def by (simp add: bitnami_image_legacy docker_io_plain del: append_Cons append.simps)
qed (use assms in simp)

lemma set_putD: "x \<in> set (put k v m) \<Longrightarrow> x = (k, v) \<or> x \<in> set m"
  by (induction k v m rule: put.induct) (auto split: if_splits)

lemma set_rewrite_repository:
  "(k, v) \<in> set (fst (rewrite_repository vals)) \<Longrightarrow> (k, v) \<in> set vals \<or> (\<exists>s. v = VStr s)"
  using rewrite_repository_cases [of vals] by (elim disjE exE conjE) (auto dest!: set_putD)

lemma rewrite_map_done:
  assumes "\<And>k child. (k, child) \<in> set m \<Longrightarrow>
      rewrite_legacy is_overrides (image_key k) child (or_null (map_of (map_or_empty (Some e)) k))
        (or_null (map_of (map_or_empty (Some d)) k)) = (child, False)"
    and "img \<and> \<not> explicit_location e d is_overrides \<Longrightarrow> rewrite_repository m = (m, False)"
  shows "rewrite_legacy is_overrides img (VMap m) e d = (VMap m, False)"
proof -
  have "map (\<lambda>(key, child). (key, rewrite_legacy is_overrides (image_key key) child
      (or_null (map_of (map_or_empty (Some e)) key)) (or_null (map_of (map_or_empty (Some d)) key)))) m
    = map (\<lambda>(key, child). (key, child, False)) m"
    using assms(1) by (auto intro!: map_cong)
  note eq = this
  have "map (\<lambda>(key, r). (key, fst r)) (map (\<lambda>(key, child). (key, child, False)) m) = m"
    "list_ex (\<lambda>(key, r). snd r) (map (\<lambda>(key, child). (key, child, False)) m) = False"
    by (auto simp: list_ex_iff intro!: map_idI)
  then show ?thesis
    unfolding rewrite_legacy.simps(1) Let_def eq using assms(2) by (auto simp: comp_def)
qed

lemma rewrite_legacy_done:
  "rewrite_legacy is_overrides img v e d = (v', c) \<Longrightarrow> rewrite_legacy is_overrides img v' e d = (v', False)"
proof (induction is_overrides img v e d arbitrary: v' c rule: rewrite_legacy.induct)
  case (1 is_overrides img m e d)
  define child where "child = (\<lambda>k x. rewrite_legacy is_overrides (image_key k) x
      (or_null (map_of (map_or_empty (Some e)) k)) (or_null (map_of (map_or_empty (Some d)) k)))"
  define m1 where "m1 = map (\<lambda>(k, x). (k, fst (child k x))) m"
  have m1: "rewrite_legacy is_overrides (image_key k) x (or_null (map_of (map_or_empty (Some e)) k))
      (or_null (map_of (map_or_empty (Some d)) k)) = (x, False)" if kx: "(k, x) \<in> set m1" for k x
  proof -
    obtain y where y: "(k, y) \<in> set m" "x = fst (child k y)" using kx unfolding m1_def by auto
    obtain c where "child k y = (x, c)" using y(2) by (metis prod.collapse)
    with 1(1) [OF y(1) refl] show ?thesis by (auto simp: child_def)
  qed
  have v': "v' = VMap (if img \<and> \<not> explicit_location e d is_overrides then fst (rewrite_repository m1) else m1)"
    using 1(2) by (auto simp: Let_def m1_def child_def comp_def case_prod_unfold split: if_splits)
  show ?case
    unfolding v'
  proof (rule rewrite_map_done)
    fix k x
    assume "(k, x) \<in> set (if img \<and> \<not> explicit_location e d is_overrides then fst (rewrite_repository m1) else m1)"
    then have "(k, x) \<in> set m1 \<or> (\<exists>s. x = VStr s)" using set_rewrite_repository by (auto split: if_splits)
    then show "rewrite_legacy is_overrides (image_key k) x (or_null (map_of (map_or_empty (Some e)) k))
      (or_null (map_of (map_or_empty (Some d)) k)) = (x, False)" using m1 by auto
  next
    assume "img \<and> \<not> explicit_location e d is_overrides"
    then show "rewrite_repository (if img \<and> \<not> explicit_location e d is_overrides then fst (rewrite_repository m1) else m1) =
        (if img \<and> \<not> explicit_location e d is_overrides then fst (rewrite_repository m1) else m1, False)"
      using rewrite_repository_done [OF prod.collapse [symmetric]] by simp
  qed
next
  case (2 is_overrides img l e d)
  define child where "child = (\<lambda>i x. rewrite_legacy is_overrides img x (nth_or_null (items e) i) (nth_or_null (items d) i))"
  have v': "v' = VList (map (\<lambda>(i, x). fst (child i x)) (enumerate 0 l))"
    using 2(2) by (auto simp: Let_def child_def comp_def case_prod_unfold)
  have one: "child i (fst (child i x)) = (fst (child i x), False)" if "(i, x) \<in> set (enumerate 0 l)" for i x
    using 2(1) [OF that refl, of "fst (child i x)" "snd (child i x)"] by (simp add: child_def)
  have "map (\<lambda>(i, x). child i x) (enumerate 0 (map (\<lambda>(i, x). fst (child i x)) (enumerate 0 l)))
    = map (\<lambda>(i, x). (fst (child i x), False)) (enumerate 0 l)"
    using one by (intro nth_equalityI) (auto simp: nth_enumerate_eq in_set_enumerate_eq)
  then show ?case
    unfolding v' by (simp add: Let_def child_def comp_def case_prod_unfold list_ex_iff)
qed auto

end
