(* ===== verification/HelmAdapters.thy ===== *)
theory HelmAdapters
  imports HelmValues GoNet
begin

text \<open>
  The adapters of the app store (store/adapters.go): per chart, the values CasOS sets unless the user
  did, what it reads from the cluster, and what an upgrade keeps. Parameters: the randomness of a
  generated key, what Helm coalesces (a field of the chart), the installed release.
\<close>

section \<open>Paths\<close>

fun helm_value_at :: "hmap \<Rightarrow> string list \<Rightarrow> hval" where
  "helm_value_at vals [] = VNull"
| "helm_value_at vals [key] = or_null (map_of vals key)"
| "helm_value_at vals (key # path) =
     (case map_of vals key of Some (VMap next) \<Rightarrow> helm_value_at next path | _ \<Rightarrow> VNull)"

definition helm_map_at :: "hmap \<Rightarrow> string list \<Rightarrow> hmap" where
  "helm_map_at vals path = map_or_empty (Some (helm_value_at vals path))"

fun value_patch :: "string list \<Rightarrow> hval \<Rightarrow> hmap" where
  "value_patch [] v = []"
| "value_patch [key] v = [(key, v)]"
| "value_patch (key # path) v = [(key, VMap (value_patch path v))]"

definition value_is_true :: "hval \<Rightarrow> bool" where
  "value_is_true v = (case v of VBool b \<Rightarrow> b | VStr s \<Rightarrow> equal_fold (trim_space s) ''true'' | _ \<Rightarrow> False)"

definition value_is_false :: "hval \<Rightarrow> bool" where
  "value_is_false v = (case v of VBool b \<Rightarrow> \<not> b | VStr s \<Rightarrow> equal_fold (trim_space s) ''false'' | _ \<Rightarrow> False)"

definition trimmed_string :: "hval \<Rightarrow> string" where
  "trimmed_string v = (case v of VStr s \<Rightarrow> trim_space s | _ \<Rightarrow> [])"

section \<open>The cluster\<close>

text \<open>
  A function that is nil, or that answers nil, is None; a service port without a node port of the
  release is missing from the last list.
\<close>

record cluster =
  cl_node_ips :: "string list option"
  cl_used_ports :: "int list option"
  cl_release_ports :: "(int \<times> int) list"
  cl_release :: string
  cl_namespace :: string

definition no_cluster :: cluster where
  "no_cluster = \<lparr>cl_node_ips = None, cl_used_ports = None, cl_release_ports = [], cl_release = [], cl_namespace = []\<rparr>"

definition first_node_ip :: "cluster \<Rightarrow> string" where
  "first_node_ip c =
     (case cl_node_ips c of
        None \<Rightarrow> []
      | Some ips \<Rightarrow> (case find (\<lambda>ip. ip \<noteq> []) ips of None \<Rightarrow> [] | Some ip \<Rightarrow> ip))"

definition node_port_range :: "int list" where "node_port_range = [30000..32767]"

definition reserve_node_port :: "cluster \<Rightarrow> int \<Rightarrow> int" where
  "reserve_node_port c service_port =
     (let assigned = (case map_of (cl_release_ports c) service_port of None \<Rightarrow> 0 | Some p \<Rightarrow> p) in
      if assigned \<noteq> 0 then assigned
      else
        (case cl_used_ports c of
           None \<Rightarrow> 0
         | Some used \<Rightarrow> (case find (\<lambda>p. p \<notin> set used) node_port_range of None \<Rightarrow> 0 | Some p \<Rightarrow> p)))"

lemma find_upto:
  "find P [a..b :: int] = None \<Longrightarrow> a \<le> x \<Longrightarrow> x \<le> b \<Longrightarrow> \<not> P x"
  "find P [a..b] = Some q \<Longrightarrow> a \<le> q \<and> q \<le> b \<and> P q"
  "find P [a..b] = Some q \<Longrightarrow> a \<le> x \<Longrightarrow> x < q \<Longrightarrow> \<not> P x"
proof -
  show "find P [a..b] = None \<Longrightarrow> a \<le> x \<Longrightarrow> x \<le> b \<Longrightarrow> \<not> P x" by (auto simp: find_None_iff)
  show "find P [a..b] = Some q \<Longrightarrow> a \<le> q \<and> q \<le> b \<and> P q" by (auto simp: find_Some_iff nth_upto)
  assume "find P [a..b] = Some q" and x: "a \<le> x" "x < q"
  then obtain i where i: "i < length [a..b]" "q = [a..b] ! i" "\<And>j. j < i \<Longrightarrow> \<not> P ([a..b] ! j)" by (auto simp: find_Some_iff)
  then have "nat (x - a) < i" using x by (auto simp: nth_upto)
  from i(3) [OF this] i(1,2) x show "\<not> P x" by (auto simp: nth_upto)
qed

section \<open>Hosts\<close>

definition name_override :: "chart option \<Rightarrow> hmap \<Rightarrow> string \<Rightarrow> string" where
  "name_override ch vals key =
     (let sources = vals # (case ch of None \<Rightarrow> [] | Some c \<Rightarrow> [ch_values c]);
          overrides = map (\<lambda>source. trimmed_string (helm_value_at source [key])) sources
      in case find (\<lambda>s. s \<noteq> []) overrides of None \<Rightarrow> [] | Some s \<Rightarrow> s)"

definition dns_name :: "string \<Rightarrow> string" where
  "dns_name name = trim_suffix (if length name > 63 then take 63 name else name) ''-''"

definition adapter_key :: "chart \<Rightarrow> string" where
  "adapter_key ch = to_lower (trim_space (ch_name ch))"

text \<open>The loops that skip what was seen before: the first of equal names stays.\<close>

fun add_unseen :: "string list \<Rightarrow> string list \<Rightarrow> string list" where
  "add_unseen seen [] = seen"
| "add_unseen seen (x # xs) = add_unseen (if x = [] \<or> x \<in> set seen then seen else seen @ [x]) xs"

definition release_service_names :: "cluster \<Rightarrow> chart option \<Rightarrow> hmap \<Rightarrow> string list" where
  "release_service_names c ch vals =
     (let fullname = name_override ch vals ''fullnameOverride'';
          name0 = name_override ch vals ''nameOverride'';
          name = (if name0 = [] then (case ch of None \<Rightarrow> [] | Some h \<Rightarrow> adapter_key h) else name0);
          names = cl_release c #
            (if fullname \<noteq> [] then [fullname]
             else if name \<noteq> [] \<and> \<not> contains (cl_release c) name then [cl_release c @ ''-'' @ name] else [])
      in add_unseen [] (map dns_name names))"

definition in_cluster_hosts :: "cluster \<Rightarrow> chart option \<Rightarrow> hmap \<Rightarrow> string list" where
  "in_cluster_hosts c ch vals =
     (if cl_release c = [] \<or> cl_namespace c = [] then []
      else map (\<lambda>name. name @ ''.'' @ cl_namespace c @ ''.svc.cluster.local'') (release_service_names c ch vals))"

definition value_hosts :: "hmap \<Rightarrow> string list \<Rightarrow> string list" where
  "value_hosts vals path =
     (case helm_value_at vals path of
        VStr s \<Rightarrow> [s]
      | VStrs ss \<Rightarrow> ss
      | VList l \<Rightarrow> List.map_filter (\<lambda>v. case v of VStr s \<Rightarrow> Some s | _ \<Rightarrow> None) l
      | _ \<Rightarrow> [])"

definition reachable_hosts :: "chart option \<Rightarrow> hmap \<Rightarrow> string list list \<Rightarrow> cluster \<Rightarrow> string list" where
  "reachable_hosts ch vals sources c =
     add_unseen [] (map trim_space
       (concat (map (\<lambda>path. value_hosts vals path @ (case ch of None \<Rightarrow> [] | Some h \<Rightarrow> value_hosts (ch_values h) path)) sources)
        @ ''localhost'' # in_cluster_hosts c ch vals @ (case cl_node_ips c of None \<Rightarrow> [] | Some ips \<Rightarrow> ips)))"

definition host_string_list :: "string list \<Rightarrow> hval" where
  "host_string_list hosts = VList (map VStr hosts)"

record host_binding =
  hb_path :: "string list"
  hb_sources :: "string list list"
  hb_render :: "(string list \<Rightarrow> hval) option"

fun apply_host_bindings :: "chart option \<Rightarrow> hmap \<Rightarrow> host_binding list \<Rightarrow> cluster \<Rightarrow> values_error + hmap" where
  "apply_host_bindings ch vals [] c = Inr vals"
| "apply_host_bindings ch vals (b # bs) c =
     (case hb_render b of
        None \<Rightarrow> apply_host_bindings ch vals bs c
      | Some render \<Rightarrow>
          (let hosts = reachable_hosts ch vals (hb_sources b) c in
           if hb_path b = [] \<or> hosts = [] then apply_host_bindings ch vals bs c
           else
             (case merged_into vals (value_patch (hb_path b) (render hosts)) of
                Inl e \<Rightarrow> Inl e
              | Inr vals' \<Rightarrow> apply_host_bindings ch vals' bs c)))"

end
