(* ===== verification/HelmCatalog.thy ===== *)
theory HelmCatalog
  imports HelmAdapters
begin

text \<open>
  The registry of adapters (store/adapters.go) and how it is applied, with the preparation of the
  values of an install (store/helm\_install\_values.go).
\<close>

section \<open>Patches\<close>

definition node_port_service :: hmap where
  "node_port_service = obj [(''service'', VMap (obj [(''type'', VStr ''NodePort'')]))]"

definition node_port_map :: hval where "node_port_map = VMap (obj [(''type'', VStr ''NodePort'')])"

definition kafka_patches :: hmap where
  "kafka_patches = obj [(''controller'', VMap (obj [(''replicaCount'', VInt 1)])), (''service'', node_port_map)]"

definition mysql_patches :: hmap where
  "mysql_patches = obj [(''architecture'', VStr ''standalone''), (''primary'', VMap (obj [(''service'', node_port_map)]))]"

definition airflow_patches :: hmap where
  "airflow_patches = value_patch [''apiServer'', ''service''] node_port_map"

definition elasticsearch_patches :: hmap where
  "elasticsearch_patches = obj [(''replicas'', VInt 1), (''minimumMasterNodes'', VInt 1), (''antiAffinity'', VStr ''soft''), (''service'', node_port_map)]"

definition cilium_patches :: hmap where
  "cilium_patches = value_patch [''operator''] (VMap (obj [(''replicas'', VInt 1)]))"

definition elasticsearch_cluster_patch :: "cluster \<Rightarrow> hmap" where
  "elasticsearch_cluster_patch c = (if cl_release c = [] then [] else obj [(''clusterName'', VStr (cl_release c))])"

definition mongodb_patches :: hmap where
  "mongodb_patches = obj [(''architecture'', VStr ''standalone''), (''service'', node_port_map)]"

definition gitlab_runner_validation :: "hmap \<Rightarrow> cluster \<Rightarrow> string option" where
  "gitlab_runner_validation vals _ =
     (if trimmed_string (or_null (map_of vals ''gitlabUrl'')) = [] then Some ''GitLab Runner requires gitlabUrl before installation''
      else if trimmed_string (or_null (map_of vals ''runnerToken'')) = [] \<and>
              trimmed_string (or_null (map_of vals ''runnerRegistrationToken'')) = [] \<and>
              trimmed_string (helm_value_at vals [''runners'', ''secret'']) = []
      then Some ''GitLab Runner requires runnerToken, runnerRegistrationToken, or runners.secret before installation''
      else None)"

definition gitlab_runner_warning :: "hmap \<Rightarrow> string" where
  "gitlab_runner_warning vals =
     (if gitlab_runner_validation vals no_cluster = None then []
      else ''GitLab Runner is an agent, not a web app: set gitlabUrl and a runner token (or runners.secret) before installing; it intentionally has no browser Access URL'')"

definition aws_lb_validation :: "hmap \<Rightarrow> cluster \<Rightarrow> string option" where
  "aws_lb_validation vals _ =
     (if trimmed_string (or_null (map_of vals ''clusterName'')) = []
      then Some ''AWS Load Balancer Controller requires clusterName and AWS/EKS credentials before installation'' else None)"

definition external_dns_warning :: "hmap \<Rightarrow> string" where
  "external_dns_warning vals =
     (let provider = trimmed_string (or_null (map_of vals ''provider''));
          provider = (if provider = [] then ''the selected DNS provider'' else provider)
      in ''ExternalDNS is a controller, not a web app: configure credentials and zones for '' @ provider @
         '' before installing; its HTTP service only exposes metrics'')"

definition cilium_validation :: "hmap \<Rightarrow> cluster \<Rightarrow> string option" where
  "cilium_validation _ c =
     (if cl_namespace c \<noteq> ''kube-system''
      then Some ''Cilium is a cluster CNI, not a regular app; install it in kube-system as a planned replacement for the existing CNI''
      else None)"

definition argo_cd_patches :: hmap where
  "argo_cd_patches = value_patch [''server'', ''service''] node_port_map"

definition cert_manager_patches :: hmap where
  "cert_manager_patches = value_patch [''crds''] (VMap (obj [(''enabled'', VBool True)]))"

definition metrics_server_patches :: hmap where
  "metrics_server_patches = obj [(''args'', VList [VStr ''--kubelet-insecure-tls''])]"

definition vault_patches :: hmap where
  "vault_patches =
     (let patches = value_patch [''server'', ''service''] node_port_map in
      case map_of patches ''server'' of
        Some (VMap server) \<Rightarrow> put ''server'' (VMap (put ''dev'' (VMap (obj [(''enabled'', VBool True)])) server)) patches
      | _ \<Rightarrow> patches)"

definition vault_warning :: "hmap \<Rightarrow> string" where
  "vault_warning vals =
     (if \<not> value_is_true (helm_value_at vals [''server'', ''dev'', ''enabled'']) then []
      else ''CasOS starts Vault in dev mode so it comes up unsealed and the web UI is usable right away; dev mode keeps everything in memory and every restart loses all secrets, so turn it off and initialise Vault yourself before storing anything real'')"

definition harbor_expose :: "int \<Rightarrow> string \<Rightarrow> hmap" where
  "harbor_expose http_port external_url =
     (let port = (if http_port > 0 then VInt32 http_port else VNull);
          patches = obj [(''expose'', VMap (obj
            [(''type'', VStr ''nodePort''), (''tls'', VMap (obj [(''enabled'', VBool False)])),
             (''nodePort'', VMap (obj [(''ports'', VMap (obj
               [(''http'', VMap (obj [(''nodePort'', port)])), (''https'', VMap (obj [(''nodePort'', VNull)]))]))]))]))]
      in if external_url \<noteq> [] then put ''externalURL'' (VStr external_url) patches else patches)"

definition harbor_patches :: hmap where "harbor_patches = harbor_expose 0 []"

definition harbor_cluster_patch :: "cluster \<Rightarrow> hmap" where
  "harbor_cluster_patch c =
     (let host = first_node_ip c in
      if host = [] then []
      else
        (let port = reserve_node_port c 80 in
         if port = 0 then [] else harbor_expose port (''http://'' @ join_host_port host (itoa port))))"

definition jenkins_patches :: hmap where
  "jenkins_patches = value_patch [''controller''] (VMap (obj [(''serviceType'', VStr ''NodePort''), (''nodePort'', VNull)]))"

definition longhorn_patches :: hmap where
  "longhorn_patches =
     put ''defaultSettings'' (VMap (obj [(''deletingConfirmationFlag'', VBool True)]))
       (value_patch [''service'', ''ui''] (VMap (obj [(''type'', VStr ''NodePort''), (''nodePort'', VNull)])))"

definition gitlab_patches :: hmap where
  "gitlab_patches = obj
     [(''installCertmanager'', VBool False),
      (''global'', VMap (obj
        [(''gatewayApi'', VMap (obj [(''configureCertmanager'', VBool False)])),
         (''ingress'', VMap (obj [(''configureCertmanager'', VBool False)]))]))]"

definition gitlab_warning :: "hmap \<Rightarrow> string" where
  "gitlab_warning vals =
     (if trimmed_string (helm_value_at vals [''global'', ''psql'', ''host'']) \<noteq> [] then []
      else ''GitLab'' @ [CHR 0x27] @ ''s chart no longer bundles PostgreSQL or Redis: set global.psql.host, global.psql.password.secret and global.redis.host to servers you already run, and configure object storage for the registry, or this install will fail before it creates anything'')"

definition prometheus_exporter_patch :: hmap where
  "prometheus_exporter_patch = obj
     [(''prometheus-node-exporter'', VMap (obj
        [(''hostRootFsMount'', VMap (obj [(''enabled'', VBool False)])), (''hostNetwork'', VBool False), (''hostPID'', VBool False)]))]"

definition prometheus_patches :: hmap where
  "prometheus_patches = put ''server'' (VMap (obj [(''service'', node_port_map)])) prometheus_exporter_patch"

definition kube_prometheus_patches :: hmap where
  "kube_prometheus_patches =
     put ''prometheus'' (VMap (obj [(''service'', node_port_map)]))
       (put ''grafana'' (VMap (obj [(''service'', node_port_map)])) prometheus_exporter_patch)"

definition kubernetes_dashboard_patches :: hmap where
  "kubernetes_dashboard_patches = value_patch [''kong'', ''proxy''] node_port_map"

definition ingress_nginx_patches :: hmap where
  "ingress_nginx_patches = value_patch [''controller'', ''service''] node_port_map"

definition redis_patches :: hmap where
  "redis_patches = obj [(''architecture'', VStr ''standalone''), (''master'', VMap (obj [(''service'', node_port_map)]))]"

definition postgresql_patches :: hmap where
  "postgresql_patches = value_patch [''primary'', ''service''] node_port_map"

definition traefik_patches :: hmap where
  "traefik_patches = obj
     [(''ingressClass'', VMap (obj [(''enabled'', VBool True), (''isDefaultClass'', VBool False), (''name'', VStr ''traefik-app'')])),
      (''providers'', VMap (obj
        [(''kubernetesCRD'', VMap (obj [(''ingressClass'', VStr ''traefik-app'')])),
         (''kubernetesIngress'', VMap (obj [(''ingressClass'', VStr ''traefik-app'')]))])),
      (''service'', VMap (obj [(''spec'', node_port_map)]))]"

definition loki_patches :: hmap where
  "loki_patches = obj
     [(''deploymentMode'', VStr ''SingleBinary''),
      (''loki'', VMap (obj
        [(''commonConfig'', VMap (obj [(''replication_factor'', VInt 1)])),
         (''schemaConfig'', VMap (obj
           [(''configs'', VList [VMap (obj
              [(''from'', VStr ''2024-04-01''), (''store'', VStr ''tsdb''), (''object_store'', VStr ''filesystem''),
               (''schema'', VStr ''v13''),
               (''index'', VMap (obj [(''prefix'', VStr ''loki_index_''), (''period'', VStr ''24h'')]))])])])),
         (''storage'', VMap (obj [(''type'', VStr ''filesystem'')]))])),
      (''singleBinary'', VMap (obj [(''replicas'', VInt 1)])),
      (''backend'', VMap (obj [(''replicas'', VInt 0)])),
      (''read'', VMap (obj [(''replicas'', VInt 0)])),
      (''write'', VMap (obj [(''replicas'', VInt 0)])),
      (''gateway'', VMap (obj [(''service'', node_port_map)]))]"

definition n8n_env_vars_path :: "hmap \<Rightarrow> string list" where
  "n8n_env_vars_path explicit =
     (if helm_map_at explicit [''main'', ''extraEnvVars''] = [] \<and> helm_map_at explicit [''extraEnvVars''] \<noteq> []
      then [''extraEnvVars''] else [''main'', ''extraEnvVars''])"

definition n8n_patch :: "chart \<Rightarrow> hmap \<Rightarrow> hmap" where
  "n8n_patch ch explicit =
     (let main = helm_map_at (ch_values ch) [''main''] in
      if map_of main ''extraEnvVars'' \<noteq> None
      then value_patch (n8n_env_vars_path explicit) (VMap (obj [(''N8N_SECURE_COOKIE'', VStr ''false'')]))
      else if map_of main ''extraEnv'' \<noteq> None
      then value_patch [''main'', ''extraEnv'', ''N8N_SECURE_COOKIE''] (VMap (obj [(''value'', VStr ''false'')]))
      else [])"

definition n8n_cookie_paths :: "string list list" where
  "n8n_cookie_paths = [[''main'', ''extraEnvVars'', ''N8N_SECURE_COOKIE''], [''extraEnvVars'', ''N8N_SECURE_COOKIE''],
     [''main'', ''extraEnv'', ''N8N_SECURE_COOKIE'', ''value'']]"

definition n8n_warning :: "hmap \<Rightarrow> string" where
  "n8n_warning vals =
     (if list_ex (\<lambda>path. value_is_false (helm_value_at vals path)) n8n_cookie_paths
      then ''CasOS sets N8N_SECURE_COOKIE=false so the n8n web UI opens over the plain-HTTP node address; the session cookie is then not marked Secure and travels in the clear, so set it back to true once n8n is fronted by HTTPS''
      else [])"

definition superset_bootstrap_script :: string where
  "superset_bootstrap_script = join [newline]
     [''#!/bin/bash'',
      ''if ! python -c '' @ [CHR 0x27] @ ''import psycopg2'' @ [CHR 0x27] @ '' >/dev/null 2>&1; then'',
      ''  /usr/local/bin/python3 -m pip install --no-cache-dir --disable-pip-version-check --timeout 15 --retries 1 --target /tmp/pgdrivers ''
        @ [CHR 0x27] @ ''psycopg2-binary==2.9.10'' @ [CHR 0x27] @ '' || true'',
      ''fi'',
      ''export PYTHONPATH=/tmp/pgdrivers${PYTHONPATH:+:${PYTHONPATH}}'']"

definition superset_patches :: hmap where
  "superset_patches =
     put ''bootstrapScript'' (VStr superset_bootstrap_script)
       (obj [(''service'', VMap (put ''nodePort'' (VMap (obj [(''http'', VNull)])) (map_or_empty (map_of node_port_service ''service''))))])"

definition superset_preserved :: "string list list" where
  "superset_preserved = [[''extraSecretEnv'', ''SUPERSET_SECRET_KEY''], [''configOverrides'', ''secret'']]"

definition superset_key_set :: "hmap \<Rightarrow> bool" where
  "superset_key_set vals \<longleftrightarrow>
     (case string_at (map_or_empty (map_of vals ''configOverrides'')) ''secret'' of Some s \<Rightarrow> trim_space s \<noteq> [] | None \<Rightarrow> False)"

text \<open>\<open>rand.Read\<close> gives 24 bytes or an error.\<close>

definition hex_char :: "nat \<Rightarrow> char" where "hex_char n = ''0123456789abcdef'' ! n"

definition hex_encode :: "string \<Rightarrow> string" where
  "hex_encode s = concat (map (\<lambda>c. let n = of_char c :: nat in [hex_char (n div 16), hex_char (n mod 16)]) s)"

definition superset_key_patch :: "(string + string) \<Rightarrow> hmap \<Rightarrow> values_error + hmap" where
  "superset_key_patch random explicit =
     (if superset_key_set explicit then Inr []
      else
        (case random of
           Inl e \<Rightarrow> Inl (No_randomness e)
         | Inr bytes \<Rightarrow> Inr (obj [(''extraSecretEnv'', VMap (obj [(''SUPERSET_SECRET_KEY'', VStr (hex_encode bytes))]))])))"

section \<open>The registry\<close>

record adapter =
  ad_patches :: hmap
  ad_validate :: "(hmap \<Rightarrow> cluster \<Rightarrow> string option) option"
  ad_chart_patch :: "(chart \<Rightarrow> hmap \<Rightarrow> hmap) option"
  ad_warning :: "(hmap \<Rightarrow> string) option"
  ad_generated :: "((string + string) \<Rightarrow> hmap \<Rightarrow> values_error + hmap) option"
  ad_cluster_patch :: "(cluster \<Rightarrow> hmap) option"
  ad_bindings :: "host_binding list"
  ad_preserved :: "string list list"

definition patching :: "hmap \<Rightarrow> adapter" where
  "patching patches =
     \<lparr>ad_patches = patches, ad_validate = None, ad_chart_patch = None, ad_warning = None, ad_generated = None,
      ad_cluster_patch = None, ad_bindings = [], ad_preserved = []\<rparr>"

definition nextcloud_binding :: "host_binding list" where
  "nextcloud_binding =
     [\<lparr>hb_path = [''nextcloud'', ''trustedDomains''],
       hb_sources = [[''nextcloud'', ''host''], [''nextcloud'', ''trustedDomains''], [''httpRoute'', ''hostnames'']],
       hb_render = Some host_string_list\<rparr>]"

definition adapter_registry :: "(string \<times> adapter) list" where
  "adapter_registry =
     [(''argo-cd'', patching argo_cd_patches),
      (''cert-manager'', patching cert_manager_patches),
      (''grafana'', patching node_port_service),
      (''ingress-nginx'', patching ingress_nginx_patches),
      (''kube-prometheus-stack'', patching kube_prometheus_patches),
      (''kubernetes-dashboard'', patching kubernetes_dashboard_patches),
      (''loki'', patching loki_patches),
      (''metrics-server'', patching metrics_server_patches),
      (''pgadmin4'', patching node_port_service),
      (''postgresql'', patching postgresql_patches),
      (''prometheus'', patching prometheus_patches),
      (''redis'', patching redis_patches),
      (''traefik'', patching traefik_patches),
      (''vault'', (patching vault_patches)\<lparr>ad_warning := Some vault_warning\<rparr>),
      (''harbor'', (patching harbor_patches)\<lparr>ad_cluster_patch := Some harbor_cluster_patch\<rparr>),
      (''keycloak'', patching node_port_service),
      (''jenkins'', patching jenkins_patches),
      (''longhorn'', patching longhorn_patches),
      (''rabbitmq'', patching node_port_service),
      (''gitlab'', (patching gitlab_patches)\<lparr>ad_warning := Some gitlab_warning\<rparr>),
      (''n8n'', (patching node_port_service)\<lparr>ad_chart_patch := Some n8n_patch, ad_warning := Some n8n_warning\<rparr>),
      (''superset'', (patching superset_patches)\<lparr>ad_generated := Some superset_key_patch, ad_preserved := superset_preserved\<rparr>),
      (''nextcloud'', (patching node_port_service)\<lparr>ad_bindings := nextcloud_binding\<rparr>),
      (''gitlab-runner'', (patching [])\<lparr>ad_validate := Some gitlab_runner_validation, ad_warning := Some gitlab_runner_warning\<rparr>),
      (''aws-load-balancer-controller'', (patching [])\<lparr>ad_validate := Some aws_lb_validation\<rparr>),
      (''kafka'', patching kafka_patches),
      (''external-dns'', (patching [])\<lparr>ad_warning := Some external_dns_warning\<rparr>),
      (''mysql'', patching mysql_patches),
      (''airflow'', patching airflow_patches),
      (''elasticsearch'', (patching elasticsearch_patches)\<lparr>ad_cluster_patch := Some elasticsearch_cluster_patch\<rparr>),
      (''cilium'', (patching cilium_patches)\<lparr>ad_validate := Some cilium_validation\<rparr>),
      (''mongodb'', patching mongodb_patches)]"

definition adapter_of :: "chart \<Rightarrow> adapter option" where
  "adapter_of ch = map_of adapter_registry (adapter_key ch)"

end
