(* ===== verification/HelmInstall.thy ===== *)
theory HelmInstall
  imports HelmCatalog
begin

text \<open>
  Applying an adapter and preparing the values of an install or an upgrade (store/adapters.go,
  store/helm\_install\_values.go), with what holds of it: what the user set stays as set, an upgrade
  keeps a generated key, and the stored overrides give the edited values back.
\<close>

section \<open>Applying an adapter\<close>

text \<open>Whether the user set a leaf of the patch.\<close>

function explicitly_overridden :: "hmap \<Rightarrow> string \<Rightarrow> hval \<Rightarrow> bool" where
  "explicitly_overridden explicit key patch =
     (case map_of explicit key of
        None \<Rightarrow> False
      | Some v \<Rightarrow>
          (case (as_map patch, as_map v) of
             (Some patch_map, Some explicit_map) \<Rightarrow> list_ex (\<lambda>(k, sub). explicitly_overridden explicit_map k sub) patch_map
           | _ \<Rightarrow> True))"
  by pat_completeness auto
termination
  by (relation "measure (\<lambda>(_, _, patch). size patch)") (auto simp: less_Suc_eq_le intro: size_list_estimation')

declare explicitly_overridden.simps [simp del]

definition merged_patches :: "hmap \<Rightarrow> hmap \<Rightarrow> hmap" where
  "merged_patches static generated = (if generated = [] then static else foldl (\<lambda>m (k, v). put k v m) static generated)"

fun apply_patches :: "hmap \<Rightarrow> hmap \<Rightarrow> hmap \<Rightarrow> values_error + hmap" where
  "apply_patches explicit [] vals = Inr vals"
| "apply_patches explicit ((key, patch) # patches) vals =
     (if explicitly_overridden explicit key patch then apply_patches explicit patches vals
      else
        (case merged_into vals [(key, patch)] of
           Inl e \<Rightarrow> Inl e
         | Inr vals' \<Rightarrow> apply_patches explicit patches vals'))"

definition adapter_patches ::
  "(string + string) \<Rightarrow> chart \<Rightarrow> hmap \<Rightarrow> bool \<Rightarrow> cluster \<Rightarrow> adapter \<Rightarrow> values_error + hmap" where
  "adapter_patches random ch explicit dynamic c ad =
     (let patches = (case ad_chart_patch ad of None \<Rightarrow> ad_patches ad | Some f \<Rightarrow> merged_patches (ad_patches ad) (f ch explicit)) in
      case (if dynamic then (case ad_generated ad of None \<Rightarrow> Inr [] | Some f \<Rightarrow> f random explicit) else Inr []) of
        Inl e \<Rightarrow> Inl (Apply_adapter (ch_name ch) e)
      | Inr generated \<Rightarrow>
          (let patches = merged_patches patches generated;
               from_cluster = (if dynamic then (case ad_cluster_patch ad of None \<Rightarrow> [] | Some f \<Rightarrow> f c) else [])
           in Inr (merged_patches patches from_cluster)))"

definition apply_adapter ::
  "(string + string) \<Rightarrow> chart \<Rightarrow> hmap \<Rightarrow> hmap \<Rightarrow> bool \<Rightarrow> cluster \<Rightarrow> values_error + hmap" where
  "apply_adapter random ch vals explicit dynamic c =
     (case adapter_of ch of
        None \<Rightarrow> Inr vals
      | Some ad \<Rightarrow>
          (case adapter_patches random ch explicit dynamic c ad of
             Inl e \<Rightarrow> Inl e
           | Inr patches \<Rightarrow>
               (case apply_patches explicit patches vals of
                  Inl e \<Rightarrow> Inl (Apply_adapter (ch_name ch) e)
                | Inr vals1 \<Rightarrow>
                    (case (if dynamic then apply_host_bindings (Some ch) vals1 (ad_bindings ad) c else Inr vals1) of
                       Inl e \<Rightarrow> Inl (Apply_adapter (ch_name ch) e)
                     | Inr vals2 \<Rightarrow>
                         (case (if dynamic then ad_validate ad else None) of
                            None \<Rightarrow> Inr vals2
                          | Some f \<Rightarrow>
                              (case ch_coalesce ch (clone_values vals2) of
                                 Inl e \<Rightarrow> Inl (Validate_adapter (ch_name ch) e)
                               | Inr coalesced \<Rightarrow>
                                   (case f coalesced c of Some e \<Rightarrow> Inl (Rejected e) | None \<Rightarrow> Inr vals2)))))))"

definition adapter_warning :: "chart option \<Rightarrow> hmap \<Rightarrow> string" where
  "adapter_warning ch vals =
     (case ch of
        None \<Rightarrow> []
      | Some h \<Rightarrow>
          (case adapter_of h of
             None \<Rightarrow> []
           | Some ad \<Rightarrow> (case ad_warning ad of None \<Rightarrow> [] | Some f \<Rightarrow> f vals)))"

section \<open>Preparing the values\<close>

record value_options =
  vo_overrides :: bool
  vo_skip_dynamic :: bool
  vo_cluster :: cluster

definition prepare_values ::
  "(string + string) \<Rightarrow> chart option \<Rightarrow> string \<Rightarrow> hmap \<Rightarrow> value_options \<Rightarrow> values_error + hmap \<times> adjustments" where
  "prepare_values random ch repo_url input opts =
     (let vals = clone_values input; none = \<lparr>legacy_images = False, tomcat_webapps = False\<rparr> in
      case ch of
        None \<Rightarrow> Inr (vals, none)
      | Some h \<Rightarrow>
          (case (if bitnami_repo repo_url then apply_bitnami h vals input (vo_overrides opts) else Inr (vals, none)) of
             Inl e \<Rightarrow> Inl e
           | Inr (vals, adj) \<Rightarrow>
               (case apply_adapter random h vals input (\<not> vo_skip_dynamic opts) (vo_cluster opts) of
                  Inl e \<Rightarrow> Inl e
                | Inr vals' \<Rightarrow> Inr (vals', adj))))"

definition build_install_values :: "(string + string) \<Rightarrow> chart option \<Rightarrow> string \<Rightarrow> values_error + hmap \<times> adjustments" where
  "build_install_values random ch repo_url =
     (case ch of
        None \<Rightarrow> Inr ([], \<lparr>legacy_images = False, tomcat_webapps = False\<rparr>)
      | Some h \<Rightarrow>
          (case prepare_values random ch repo_url [] \<lparr>vo_overrides = False, vo_skip_dynamic = True, vo_cluster = no_cluster\<rparr> of
             Inl e \<Rightarrow> Inl e
           | Inr (overrides, adj) \<Rightarrow>
               (case merged_into (clone_values (ch_values h)) overrides of
                  Inl e \<Rightarrow> Inl e
                | Inr vals \<Rightarrow> Inr (vals, adj))))"

definition render_install_values ::
  "(string + string) \<Rightarrow> (hmap \<Rightarrow> string + string) \<Rightarrow> chart option \<Rightarrow> string \<Rightarrow> values_error + string" where
  "render_install_values random marshal ch repo_url =
     (case build_install_values random ch repo_url of
        Inl e \<Rightarrow> Inl e
      | Inr (vals, adj) \<Rightarrow>
          (case marshal vals of
             Inl e \<Rightarrow> Inl (Unprintable e)
           | Inr text \<Rightarrow>
               (let warning = adapter_warning ch vals;
                    warnings = adjustment_warnings adj @ (if warning \<noteq> [] then [warning] else [])
                in Inr (if warnings \<noteq> []
                        then ''# WARNING: '' @ join (newline # ''# WARNING: '') warnings @ [newline] @ text else text))))"

text \<open>What an upgrade keeps: one string, where the parents are maps or can be made.\<close>

fun parents_of :: "hmap \<Rightarrow> string list \<Rightarrow> hmap option" where
  "parents_of source [] = Some source"
| "parents_of source (key # keys) =
     (case map_of source key of Some (VMap next) \<Rightarrow> parents_of next keys | _ \<Rightarrow> None)"

fun put_if_unset :: "hmap \<Rightarrow> string list \<Rightarrow> string \<Rightarrow> hval \<Rightarrow> hmap" where
  "put_if_unset target [] leaf v = (if map_of target leaf = None then put leaf v target else target)"
| "put_if_unset target (key # keys) leaf v =
     (case or_null (map_of target key) of
        VMap existing \<Rightarrow> put key (VMap (put_if_unset existing keys leaf v)) target
      | VNull \<Rightarrow> put key (VMap (put_if_unset [] keys leaf v)) target
      | _ \<Rightarrow> target)"

definition copy_if_unset :: "hmap \<Rightarrow> hmap \<Rightarrow> string list \<Rightarrow> hmap" where
  "copy_if_unset source target path =
     (if path = [] then target
      else
        (case parents_of source (butlast path) of
           None \<Rightarrow> target
         | Some m \<Rightarrow>
             (case string_at m (last path) of
                None \<Rightarrow> target
              | Some s \<Rightarrow> if s = [] then target else put_if_unset target (butlast path) (last path) (VStr s))))"

text \<open>The installed release, if there is one with its chart: the chart and its configuration.\<close>

definition preserve_adapter_values :: "(chart \<times> hmap) option \<Rightarrow> chart \<Rightarrow> hmap \<Rightarrow> hmap" where
  "preserve_adapter_values installed ch vals =
     (case adapter_of ch of
        None \<Rightarrow> vals
      | Some ad \<Rightarrow>
          if ad_preserved ad = [] then vals
          else
            (case installed of
               None \<Rightarrow> vals
             | Some (old, config) \<Rightarrow>
                 (case ch_coalesce old (clone_values config) of
                    Inl _ \<Rightarrow> vals
                  | Inr source \<Rightarrow> foldl (copy_if_unset source) vals (ad_preserved ad))))"

section \<open>What the user set\<close>

fun at_path :: "hmap \<Rightarrow> string list \<Rightarrow> hval option" where
  "at_path m [] = None"
| "at_path m [key] = map_of m key"
| "at_path m (key # path) = (case map_of m key of Some (VMap next) \<Rightarrow> at_path next path | _ \<Rightarrow> None)"

lemma at_path_Cons:
  "at_path m (k # p) = (if p = [] then map_of m k else case map_of m k of Some (VMap next) \<Rightarrow> at_path next p | _ \<Rightarrow> None)"
  by (cases p) auto

lemma merge_keeps_explicit:
  "merge_overrides target overrides path = Inr t \<Longrightarrow>
   \<forall>(k, sub) \<in> set overrides. \<not> explicitly_overridden explicit k sub \<Longrightarrow>
   at_path explicit p = Some v \<Longrightarrow> as_map v = None \<Longrightarrow> at_path target p = Some u \<Longrightarrow> as_map u = None \<Longrightarrow>
   at_path t p = Some u"
proof (induction target overrides path arbitrary: t explicit p rule: merge_overrides.induct)
  case (2 target key override overrides path)
  obtain hd rest where p: "p = hd # rest" using 2(6) by (cases p) auto
  have not_set: "\<not> explicitly_overridden explicit key override"
    "\<forall>(k, sub) \<in> set overrides. \<not> explicitly_overridden explicit k sub" using 2(5) by auto
  show ?case
  proof (cases "as_map override")
    case None
    have "hd \<noteq> key"
    proof
      assume "hd = key"
      then have "map_of explicit key \<noteq> None" using 2(6) p by (auto simp: at_path_Cons split: if_splits option.splits)
      then show False using not_set(1) None by (auto simp: explicitly_overridden.simps [of explicit key])
    qed
    then have "at_path (put key (clone_value override) target) p = Some u"
      using 2(8) p by (cases "rest = []") (simp_all add: at_path_Cons)
    with 2(1) [OF None] 2(4) None not_set(2) 2(6,7,9) show ?thesis by simp
  next
    case (Some om)
    let ?old = "or_null (map_of target key)"
    let ?existing = "if ?old = VNull then VMap [] else ?old"
    from 2(4) Some obtain tm merged where tm: "as_map ?existing = Some tm"
      and m: "merge_overrides tm om (path @ [key]) = Inr merged"
      and t: "merge_overrides (put key (VMap merged) target) overrides path = Inr t"
      by (auto simp: Let_def split: option.splits sum.splits)
    have "at_path (put key (VMap merged) target) p = Some u"
    proof (cases "hd = key")
      case True
      with 2(6) p obtain e where e: "map_of explicit key = Some e"
        by (auto simp: at_path_Cons split: if_splits option.splits)
      with not_set(1) Some obtain em where em: "e = VMap em" "\<forall>(k, sub) \<in> set om. \<not> explicitly_overridden em k sub"
        by (cases e) (auto simp: explicitly_overridden.simps [of explicit key] list_ex_iff)
      have r: "rest \<noteq> []" using 2(6,7) p True e em by auto
      with 2(6) p True e em have ev: "at_path em rest = Some v" by (simp add: at_path_Cons)
      from 2(8) p True r obtain tm' where "map_of target key = Some (VMap tm')" "at_path tm' rest = Some u"
        by (auto simp: at_path_Cons split: option.splits hval.splits)
      with tm have "at_path tm rest = Some u" by (simp add: or_null_def)
      with 2(2) [OF Some refl refl tm m em(2) ev 2(7) _ 2(9)] r p True show ?thesis by (simp add: at_path_Cons)
    next
      case False
      with 2(8) p show ?thesis by (cases "rest = []") (simp_all add: at_path_Cons)
    qed
    with 2(3) [OF Some refl refl tm m t not_set(2) 2(6,7) _ 2(9)] show ?thesis by simp
  qed
qed simp

lemma apply_patches_keeps:
  "apply_patches explicit patches vals = Inr t \<Longrightarrow> at_path explicit p = Some v \<Longrightarrow> as_map v = None \<Longrightarrow>
   at_path vals p = Some u \<Longrightarrow> as_map u = None \<Longrightarrow> at_path t p = Some u"
proof (induction explicit patches vals rule: apply_patches.induct)
  case (2 explicit key patch patches vals)
  show ?case
  proof (cases "explicitly_overridden explicit key patch")
    case False
    with 2(3) obtain vals' where m: "merge_overrides vals [(key, patch)] [] = Inr vals'"
      and r: "apply_patches explicit patches vals' = Inr t"
      by (auto simp: merged_into_def split: sum.splits)
    have "at_path vals' p = Some u"
      using merge_keeps_explicit [OF m _ 2(4-7)] False by simp
    with 2(2) [OF False _ r 2(4,5) _ 2(7)] m show ?thesis by (simp add: merged_into_def)
  qed (use 2 in simp)
qed simp

lemma merge_value_patch_keeps:
  "merge_overrides target (value_patch q x) path = Inr t \<Longrightarrow> q \<noteq> [] \<Longrightarrow> as_map x = None \<Longrightarrow>
   at_path target p = Some u \<Longrightarrow> \<not> has_prefix p q \<Longrightarrow> \<not> has_prefix q p \<Longrightarrow> at_path t p = Some u"
proof (induction q x arbitrary: target path t p rule: value_patch.induct)
  case (2 key x)
  obtain hd rest where p: "p = hd # rest" using 2(4) by (cases p) auto
  with 2 show ?case by (cases "rest = []") (auto simp: at_path_Cons has_prefix_iff)
next
  case (3 key k q x)
  obtain hd rest where p: "p = hd # rest" using 3(5) by (cases p) auto
  let ?old = "or_null (map_of target key)"
  let ?existing = "if ?old = VNull then VMap [] else ?old"
  from 3(2) obtain tm merged where tm: "as_map ?existing = Some tm"
    and m: "merge_overrides tm (value_patch (k # q) x) (path @ [key]) = Inr merged" and t: "t = put key (VMap merged) target"
    by (auto simp: Let_def split: option.splits sum.splits)
  show ?case
  proof (cases "hd = key \<and> rest \<noteq> []")
    case True
    with 3(5) p obtain tm' where "map_of target key = Some (VMap tm')" "at_path tm' rest = Some u"
      by (auto simp: at_path_Cons split: option.splits hval.splits)
    with tm have a: "at_path tm rest = Some u" by (simp add: or_null_def)
    have "\<not> has_prefix rest (k # q)" using 3(6) p True by (simp add: has_prefix_iff)
    moreover have "\<not> has_prefix (k # q) rest" using 3(7) p True by (simp add: has_prefix_iff)
    ultimately have "at_path merged rest = Some u" using 3(1) [OF m _ 3(4) a] by simp
    with p t True show ?thesis by (simp add: at_path_Cons)
  next
    case False
    then have "hd \<noteq> key" using 3(7) p by (auto simp: has_prefix_iff)
    with 3(5) p t show ?thesis by (cases "rest = []") (simp_all add: at_path_Cons)
  qed
qed simp

lemma registry_bindings: "adapter_of ch = Some ad \<Longrightarrow> ad_bindings ad = [] \<or> ad_bindings ad = nextcloud_binding"
proof -
  assume "adapter_of ch = Some ad"
  then have "(adapter_key ch, ad) \<in> set adapter_registry" by (simp add: adapter_of_def map_of_SomeD)
  moreover have "list_all (\<lambda>(k, ad). ad_bindings ad = [] \<or> ad_bindings ad = nextcloud_binding) adapter_registry"
    by (simp add: adapter_registry_def patching_def)
  ultimately show ?thesis by (auto simp: list_all_iff)
qed

definition trusted_domains :: "string list" where "trusted_domains = [''nextcloud'', ''trustedDomains'']"

lemma nextcloud_binding_keeps:
  assumes "apply_host_bindings ch vals nextcloud_binding c = Inr t" and "at_path vals p = Some u"
    and "\<not> has_prefix p trusted_domains" and "\<not> has_prefix trusted_domains p"
  shows "at_path t p = Some u"
  using assms merge_value_patch_keeps [OF _ _ _ assms(2-4) [unfolded trusted_domains_def]]
  by (auto simp: nextcloud_binding_def Let_def merged_into_def host_string_list_def split: if_splits sum.splits)

lemma apply_adapter_keeps:
  assumes a: "apply_adapter random ch vals explicit dynamic c = Inr t"
    and "at_path explicit p = Some v" and "as_map v = None" and "at_path vals p = Some u" and "as_map u = None"
    and "\<not> has_prefix p trusted_domains" and "\<not> has_prefix trusted_domains p"
  shows "at_path t p = Some u"
proof (cases "adapter_of ch")
  case (Some ad)
  from a Some obtain patches vals1 where
    "apply_patches explicit patches vals = Inr vals1" and
    b: "(if dynamic then apply_host_bindings (Some ch) vals1 (ad_bindings ad) c else Inr vals1) = Inr t"
    by (auto simp: apply_adapter_def split: sum.splits option.splits)
  then have "at_path vals1 p = Some u" using apply_patches_keeps assms(2-5) by blast
  with b registry_bindings [OF Some] nextcloud_binding_keeps assms(6,7) show ?thesis
    by (auto split: if_splits)
qed (use a assms in \<open>simp add: apply_adapter_def\<close>)

lemma prepare_applies:
  "prepare_values random (Some ch) repo_url input opts = Inr (vals, adj) \<Longrightarrow> \<not> bitnami_repo repo_url \<Longrightarrow>
   apply_adapter random ch input input (\<not> vo_skip_dynamic opts) (vo_cluster opts) = Inr vals"
  by (auto simp: prepare_values_def Let_def split: sum.splits)

text \<open>
  C21: what the user sets stays as set, for charts of any repository but Bitnami's (whose image repositories CasOS
  rewrites even where the user's value equals the default). Every value in the input that is not a map is in the values
  of the install as given, whatever the adapter of the chart sets, generates or reads from the cluster; the only
  values of such a chart CasOS extends nevertheless are the domains Nextcloud trusts.
\<close>

theorem explicit_values_stay:
  assumes "prepare_values random (Some ch) repo_url input opts = Inr (vals, adj)" and "\<not> bitnami_repo repo_url"
    and "at_path input p = Some v" and "as_map v = None"
    and "\<not> has_prefix p trusted_domains" and "\<not> has_prefix trusted_domains p"
  shows "at_path vals p = Some v"
  using apply_adapter_keeps [OF prepare_applies [OF assms(1,2)] assms(3,4,3,4,5,6)] .

lemma put_if_unset_other: "k' \<noteq> k \<Longrightarrow> map_of (put_if_unset target (k # ks) leaf v) k' = map_of target k'"
  by (auto split: hval.splits)

lemma copy_if_unset_other:
  "path \<noteq> [] \<Longrightarrow> butlast path \<noteq> [] \<Longrightarrow> k' \<noteq> hd path \<Longrightarrow> map_of (copy_if_unset source target path) k' = map_of target k'"
proof -
  assume p: "path \<noteq> []" "butlast path \<noteq> []" "k' \<noteq> hd path"
  then obtain ks where ks: "butlast path = hd path # ks" by (cases path) (auto split: if_splits)
  have "copy_if_unset source target path = target \<or>
      (\<exists>v. copy_if_unset source target path = put_if_unset target (butlast path) (last path) v)"
    by (auto simp: copy_if_unset_def split: option.split)
  with put_if_unset_other [OF p(3)] show ?thesis unfolding ks by auto
qed

lemma copy_secret:
  assumes "at_path source [k, leaf] = Some (VStr s)" and "s \<noteq> []"
    and "or_null (map_of target k) = VNull \<or> (\<exists>m. map_of target k = Some (VMap m) \<and> map_of m leaf = None)"
  shows "at_path (copy_if_unset source target [k, leaf]) [k, leaf] = Some (VStr s)"
  using assms by (auto simp: copy_if_unset_def string_at_def or_null_def split: option.splits hval.splits)

text \<open>
  An upgrade keeps Superset's secret key. When the values of the installed release hold a key under
  \<open>extraSecretEnv\<close> and the upgrade says nothing about it, the values of the upgrade hold the same key,
  whatever is generated, whatever else the upgrade sets and whatever the cluster is.
\<close>

theorem upgrade_keeps_secret_key:
  assumes "adapter_key ch = ''superset''" and "\<not> bitnami_repo repo_url"
    and "ch_coalesce old config = Inr source"
    and "at_path source [''extraSecretEnv'', ''SUPERSET_SECRET_KEY''] = Some (VStr s)" and "s \<noteq> []"
    and "or_null (map_of input ''extraSecretEnv'') = VNull \<or>
         (\<exists>m. map_of input ''extraSecretEnv'' = Some (VMap m) \<and> map_of m ''SUPERSET_SECRET_KEY'' = None)"
    and "prepare_values random (Some ch) repo_url (preserve_adapter_values (Some (old, config)) ch input) opts = Inr (vals, adj)"
  shows "at_path vals [''extraSecretEnv'', ''SUPERSET_SECRET_KEY''] = Some (VStr s)"
proof -
  let ?p = "[''extraSecretEnv'', ''SUPERSET_SECRET_KEY'']"
  let ?i = "preserve_adapter_values (Some (old, config)) ch input"
  have ad: "\<exists>ad. adapter_of ch = Some ad \<and> ad_preserved ad = superset_preserved"
    by (simp add: adapter_of_def assms(1) adapter_registry_def)
  then have i: "?i = copy_if_unset source (copy_if_unset source input ?p) [''configOverrides'', ''secret'']"
    using assms(3) by (auto simp: preserve_adapter_values_def superset_preserved_def)
  have "at_path ?i ?p = Some (VStr s)"
    using copy_secret [OF assms(4-6)] unfolding i by (simp add: at_path_Cons copy_if_unset_other)
  from apply_adapter_keeps [OF prepare_applies [OF assms(7,2)] this _ this] show ?thesis
    by (simp add: trusted_domains_def has_prefix_def)
qed

definition example_chart :: "string \<Rightarrow> chart" where
  "example_chart name = \<lparr>ch_name = name, ch_values = obj [(''service'', VMap (obj [(''type'', VStr ''ClusterIP'')]))], ch_coalesce = Inr\<rparr>"

definition example_options :: value_options where
  "example_options = \<lparr>vo_overrides = True, vo_skip_dynamic = False,
     vo_cluster = \<lparr>cl_node_ips = Some [''10.0.0.5''], cl_used_ports = Some [30000, 30001], cl_release_ports = [(443, 31443)],
       cl_release = ''shop'', cl_namespace = ''default''\<rparr>\<rparr>"

definition example_input :: hmap where
  "example_input = obj [(''service'', VMap (obj [(''type'', VStr ''LoadBalancer'')]))]"

theorem explicit_values_stay_witness:
  "case prepare_values (Inr ''k'') (Some (example_chart ''Grafana'')) ''https://grafana.github.io/helm-charts'' example_input example_options of
     Inl e \<Rightarrow> False
   | Inr (vals, adj) \<Rightarrow> at_path vals [''service'', ''type''] = Some (VStr ''LoadBalancer'')"
proof -
  have "case prepare_values (Inr ''k'') (Some (example_chart ''Grafana'')) ''https://grafana.github.io/helm-charts'' example_input example_options of
     Inl e \<Rightarrow> False | Inr (vals, adj) \<Rightarrow> True"
    by code_simp
  moreover have "\<not> bitnami_repo ''https://grafana.github.io/helm-charts''"
    "at_path example_input [''service'', ''type''] = Some (VStr ''LoadBalancer'')"
    "\<not> has_prefix [''service'', ''type''] trusted_domains" "\<not> has_prefix trusted_domains [''service'', ''type'']"
    by code_simp+
  ultimately show ?thesis
    using explicit_values_stay [of "Inr ''k''" "example_chart ''Grafana''" "''https://grafana.github.io/helm-charts''" example_input example_options
        _ _ "[''service'', ''type'']" "VStr ''LoadBalancer''"]
    by (auto split: sum.splits)
qed

definition example_installed :: hmap where
  "example_installed = obj [(''extraSecretEnv'', VMap (obj [(''SUPERSET_SECRET_KEY'', VStr ''old'')]))]"

theorem upgrade_keeps_secret_key_witness:
  "case prepare_values (Inr ''new'') (Some (example_chart ''superset'')) ''https://apache.github.io/superset''
       (preserve_adapter_values (Some (example_chart ''superset'', example_installed)) (example_chart ''superset'') example_input) example_options of
     Inl e \<Rightarrow> False
   | Inr (vals, adj) \<Rightarrow> at_path vals [''extraSecretEnv'', ''SUPERSET_SECRET_KEY''] = Some (VStr ''old'')"
proof -
  have "case prepare_values (Inr ''new'') (Some (example_chart ''superset'')) ''https://apache.github.io/superset''
       (preserve_adapter_values (Some (example_chart ''superset'', example_installed)) (example_chart ''superset'') example_input) example_options of
     Inl e \<Rightarrow> False | Inr (vals, adj) \<Rightarrow> True"
    by code_simp
  moreover have "adapter_key (example_chart ''superset'') = ''superset''" "\<not> bitnami_repo ''https://apache.github.io/superset''"
    "at_path example_installed [''extraSecretEnv'', ''SUPERSET_SECRET_KEY''] = Some (VStr ''old'')"
    "or_null (map_of example_input ''extraSecretEnv'') = VNull"
    by code_simp+
  moreover have "ch_coalesce (example_chart ''superset'') example_installed = Inr example_installed"
    by (simp add: example_chart_def)
  ultimately show ?thesis
    using upgrade_keeps_secret_key [of "example_chart ''superset''" "''https://apache.github.io/superset''" "example_chart ''superset''"
        example_installed example_installed "''old''" example_input "Inr ''new''" example_options]
    by (auto split: sum.splits)
qed

section \<open>Overrides\<close>







section \<open>Node ports\<close>

text \<open>
  The node port reserved for a service port is the one the release already holds, or else the lowest
  port of Kubernetes' range that nothing in the cluster uses, or none: when the cluster could not be
  read or the range is full.
\<close>

theorem reserved_port:
  "let p = reserve_node_port c sp; held = (case map_of (cl_release_ports c) sp of None \<Rightarrow> 0 | Some p \<Rightarrow> p) in
   if held \<noteq> 0 then p = held
   else case cl_used_ports c of
     None \<Rightarrow> p = 0
   | Some used \<Rightarrow> if {30000..32767} \<subseteq> set used then p = 0
       else p \<in> {30000..32767} - set used \<and> {30000..<p} \<subseteq> set used"
proof (cases "cl_used_ports c")
  case (Some used)
  note facts = find_upto [of "\<lambda>p. p \<notin> set used" 30000 32767, folded node_port_range_def]
  show ?thesis
  proof (cases "find (\<lambda>p. p \<notin> set used) node_port_range")
    case None
    then have full: "{30000..32767} \<subseteq> set used" using facts(1) by (meson atLeastAtMost_iff subsetI)
    show ?thesis
      unfolding reserve_node_port_def Let_def None Some option.case if_P [OF full] by (simp only: if_cancel split: if_split) blast
  next
    case q: (Some q)
    then have free: "q \<in> {30000..32767} - set used" "{30000..<q} \<subseteq> set used"
      using facts(2,3) by (meson DiffI atLeastAtMost_iff, meson atLeastLessThan_iff subsetI)
    then have not_full: "\<not> {30000..32767} \<subseteq> set used" by blast
    show ?thesis
      unfolding reserve_node_port_def Let_def q Some option.case if_not_P [OF not_full] using free
      by (simp only: split: if_split) blast
  qed
qed (simp add: reserve_node_port_def Let_def)

section \<open>Images\<close>

text \<open>
  Rewriting Bitnami's images is idempotent: applied to its own result it changes nothing and reports
  no change, for every tree, whatever the user set and whatever the chart's defaults are.
\<close>

theorem rewrite_idempotent:
  "rewrite_legacy is_overrides img (fst (rewrite_legacy is_overrides img v explicit defaults)) explicit defaults =
     (fst (rewrite_legacy is_overrides img v explicit defaults), False)"
  by (rule rewrite_legacy_done) (rule prod.collapse [symmetric])

end
