(* ===== verification/Monitor.thy ===== *)
theory Monitor
  imports GoStrings GoConv "HOL-Library.List_Lexorder" "HOL-Library.Char_ord" "HOL-Library.Product_Lexorder"
begin

text \<open>
  The health checks and issues of the monitor (object/monitor.go). The parameters are what the API
  server lists, or its errors. A time is its nanoseconds since the epoch, None the zero time; a shown
  time is its seconds, None the empty text, so that comparing shown times is comparing their seconds.
  Where Go sorts unstably, equal entries keep their order here.
\<close>

section \<open>What is looked at\<close>

record cstatus =
  ct_name :: string
  ct_ready :: bool
  ct_waiting :: "string option"
  ct_terminated :: "string option"

record mpod =
  pd_namespace :: string
  pd_name :: string
  pd_phase :: string
  pd_reason :: string
  pd_init :: "cstatus list"
  pd_statuses :: "cstatus list"
  pd_containers :: "string list"

record mnode =
  nd_name :: string
  nd_conditions :: "(string \<times> string) list"

record mpvc =
  vc_namespace :: string
  vc_name :: string
  vc_phase :: string

type_synonym mtime = "int option"

record kevent =
  ke_namespace :: string
  ke_kind :: string
  ke_object_namespace :: string
  ke_name :: string
  ke_uid :: string
  ke_object_version :: string
  ke_reason :: string
  ke_type :: string
  ke_message :: string
  ke_count :: int
  ke_first :: mtime
  ke_event :: mtime
  ke_last :: mtime
  ke_created :: mtime
  ke_component :: string
  ke_host :: string
  ke_controller :: string
  ke_instance :: string

record monitor_event =
  me_namespace :: string
  me_kind :: string
  me_name :: string
  me_reason :: string
  me_type :: string
  me_message :: string
  me_count :: int
  me_first :: mtime
  me_event :: mtime
  me_last :: mtime
  me_source :: string
  me_controller :: string
  me_instance :: string
  me_uid :: string
  me_version :: string

record issue =
  is_id :: string
  is_severity :: string
  is_kind :: string
  is_namespace :: string
  is_name :: string
  is_reason :: string
  is_message :: string
  is_suggestion :: string
  is_seen :: mtime
  is_event_count :: nat
  is_events :: "monitor_event list"

record health_check =
  hc_id :: string
  hc_name :: string
  hc_category :: string
  hc_status :: string
  hc_severity :: string
  hc_message :: string
  hc_suggestion :: string
  hc_kind :: string
  hc_namespace :: string
  hc_object :: string
  hc_checked :: mtime

record snapshot =
  sn_checked :: mtime
  sn_api_error :: "string option"
  sn_nodes :: "string + mnode list"
  sn_pods :: "string + mpod list"
  sn_system :: "string + mpod list"
  sn_pvcs :: "string + mpvc list"
  sn_events :: "string + kevent list"

definition listed :: "string + 'a list \<Rightarrow> 'a list" where
  "listed r = (case r of Inl _ \<Rightarrow> [] | Inr xs \<Rightarrow> xs)"

section \<open>Times and events\<close>

definition shown_time :: "mtime \<Rightarrow> mtime" where
  "shown_time t = map_option (\<lambda>n. n div 1000000000) t"

definition event_sort_time :: "kevent \<Rightarrow> mtime" where
  "event_sort_time e =
     (if ke_last e \<noteq> None then ke_last e else if ke_event e \<noteq> None then ke_event e
      else if ke_first e \<noteq> None then ke_first e else ke_created e)"

text \<open>The zero time comes before every other; warnings come first, then the newest.\<close>

definition time_key :: "mtime \<Rightarrow> int \<times> int" where
  "time_key t = (case t of None \<Rightarrow> (1, 0) | Some n \<Rightarrow> (0, - n))"

definition sort_events :: "kevent list \<Rightarrow> kevent list" where
  "sort_events es = sort_key (\<lambda>e. (if ke_type e = ''Warning'' then 0 else 1 :: nat, time_key (event_sort_time e))) es"

definition event_source :: "kevent \<Rightarrow> string" where
  "event_source e = join ''/'' ((if ke_component e \<noteq> [] then [ke_component e] else []) @ (if ke_host e \<noteq> [] then [ke_host e] else []))"

definition to_monitor_event :: "kevent \<Rightarrow> monitor_event" where
  "to_monitor_event e =
     \<lparr>me_namespace = ke_namespace e, me_kind = ke_kind e, me_name = ke_name e, me_reason = ke_reason e, me_type = ke_type e,
      me_message = ke_message e, me_count = ke_count e, me_first = shown_time (ke_first e), me_event = shown_time (ke_event e),
      me_last = shown_time (ke_last e), me_source = event_source e, me_controller = ke_controller e, me_instance = ke_instance e,
      me_uid = ke_uid e, me_version = ke_object_version e\<rparr>"

definition event_display_time :: "monitor_event \<Rightarrow> mtime" where
  "event_display_time e = (if me_last e \<noteq> None then me_last e else if me_event e \<noteq> None then me_event e else me_first e)"

definition limit_events :: "'a list \<Rightarrow> nat \<Rightarrow> 'a list" where
  "limit_events es n = (if n = 0 \<or> length es \<le> n then es else take n es)"

definition event_limit :: "int \<Rightarrow> int" where
  "event_limit n = (if n \<le> 0 then 100 else if n > 500 then 500 else n)"

definition tail_lines :: "int \<Rightarrow> int" where
  "tail_lines n = (if n \<le> 0 then 100 else if n > 100 then 100 else n)"

definition of_object :: "string \<Rightarrow> string \<Rightarrow> string \<Rightarrow> kevent \<Rightarrow> bool" where
  "of_object kind namespace name e \<longleftrightarrow> equal_fold (ke_kind e) kind \<and> ke_name e = name \<and> (namespace = [] \<or> ke_object_namespace e = namespace)"

definition related_events :: "kevent list \<Rightarrow> string \<Rightarrow> string \<Rightarrow> string \<Rightarrow> monitor_event list" where
  "related_events es kind namespace name = map to_monitor_event (filter (of_object kind namespace name) es)"

section \<open>Pods and nodes\<close>

definition node_ready :: "mnode \<Rightarrow> bool" where
  "node_ready n = (case map_of (nd_conditions n) ''Ready'' of None \<Rightarrow> False | Some s \<Rightarrow> s = ''True'')"

definition first_reason :: "(cstatus \<Rightarrow> string option) \<Rightarrow> mpod \<Rightarrow> string" where
  "first_reason reason p =
     (case find (\<lambda>s. reason s \<noteq> None \<and> reason s \<noteq> Some []) (pd_init p @ pd_statuses p) of
        None \<Rightarrow> [] | Some s \<Rightarrow> the (reason s))"

definition first_waiting_reason :: "mpod \<Rightarrow> string" where "first_waiting_reason = first_reason ct_waiting"

definition first_terminated_reason :: "mpod \<Rightarrow> string" where "first_terminated_reason = first_reason ct_terminated"

definition abnormal_reason :: "string \<Rightarrow> bool" where
  "abnormal_reason r \<longleftrightarrow> r \<in> set [''CrashLoopBackOff'', ''ImagePullBackOff'', ''ErrImagePull'', ''CreateContainerConfigError'',
     ''RunContainerError'', ''CreateContainerError'', ''InvalidImageName'', ''OOMKilled'', ''Evicted'']"

definition critical_reason :: "string \<Rightarrow> bool" where
  "critical_reason r \<longleftrightarrow> r \<in> set [''CrashLoopBackOff'', ''CreateContainerConfigError'', ''RunContainerError'', ''CreateContainerError'',
     ''Failed'', ''Unknown'', ''OOMKilled'', ''Evicted'']"

text \<open>The reason and whether it is critical, for an abnormal pod.\<close>

definition detect_abnormal :: "mpod \<Rightarrow> (string \<times> bool) option" where
  "detect_abnormal p =
     (if pd_phase p = ''Pending'' then
        (let reason = (if first_waiting_reason p \<noteq> [] then first_waiting_reason p
                       else if pd_reason p = [] then ''Pending'' else pd_reason p)
         in Some (reason, critical_reason reason))
      else if pd_phase p = ''Failed'' then Some (if pd_reason p = [] then ''Failed'' else pd_reason p, True)
      else if pd_phase p = ''Unknown'' then Some (''Unknown'', True)
      else if first_waiting_reason p \<noteq> [] \<and> abnormal_reason (first_waiting_reason p)
      then Some (first_waiting_reason p, critical_reason (first_waiting_reason p))
      else if first_terminated_reason p \<noteq> [] \<and> abnormal_reason (first_terminated_reason p)
      then Some (first_terminated_reason p, critical_reason (first_terminated_reason p))
      else None)"

definition pod_suggestion :: "string \<Rightarrow> string" where
  "pod_suggestion sample =
     (if contains sample ''ImagePullBackOff'' \<or> contains sample ''ErrImagePull'' \<or> contains sample ''InvalidImageName''
      then ''Check image name, registry access, imagePullSecrets, and network connectivity.''
      else if contains sample ''CrashLoopBackOff''
      then ''Check container logs, command args, environment variables, and mounted configuration.''
      else if contains sample ''CreateContainerConfigError'' \<or> contains sample ''RunContainerError'' \<or> contains sample ''CreateContainerError''
      then ''Check container command, environment variables, secrets, config maps, and mounted volumes.''
      else if contains sample ''Pending''
      then ''Check scheduling constraints, node capacity, image pulls, and PVC binding status.''
      else ''Check pod events, container logs, image configuration, and node health.'')"

definition pod_available :: "mpod \<Rightarrow> bool" where
  "pod_available p \<longleftrightarrow> pd_phase p \<in> {''Running'', ''Succeeded''} \<and>
     list_all (\<lambda>s. ct_ready s \<or> pd_phase p = ''Succeeded'') (pd_statuses p)"

definition system_component :: "string \<Rightarrow> string" where
  "system_component pod_name =
     (let name = to_lower pod_name in
      case find (contains name) [''coredns'', ''kube-proxy'', ''metrics-server'', ''flannel'', ''calico'', ''cilium''] of
        None \<Rightarrow> [] | Some c \<Rightarrow> c)"

definition event_suggestion :: "string \<Rightarrow> string" where
  "event_suggestion reason =
     (if reason = ''FailedScheduling'' then ''Check node capacity, taints and tolerations, affinity rules, and pending PVCs.''
      else if reason = ''FailedMount'' then ''Check referenced Secrets, ConfigMaps, PVCs, volume permissions, and storage plugin events.''
      else if reason = ''BackOff'' then ''Check container logs, image pull status, command args, and recent pod restarts.''
      else if reason = ''Unhealthy'' then ''Check readiness and liveness probes, container ports, and application startup logs.''
      else ''Inspect the related object events, configuration, and logs.'')"

definition pressure_conditions :: "mnode \<Rightarrow> string list" where
  "pressure_conditions n = map fst (filter (\<lambda>(t, s). s = ''True'' \<and>
     t \<in> {''MemoryPressure'', ''DiskPressure'', ''PIDPressure'', ''NetworkUnavailable''}) (nd_conditions n))"

section \<open>Issues\<close>

definition severity_rank :: "string \<Rightarrow> nat" where
  "severity_rank s = (if s = ''critical'' then 3 else if s = ''warning'' then 2 else if s = ''info'' then 1 else 0)"

definition issue_id :: "string \<Rightarrow> string \<Rightarrow> string \<Rightarrow> string \<Rightarrow> string" where
  "issue_id kind namespace name reason =
     replace_all (join '':'' [to_lower kind, to_lower namespace, to_lower name, to_lower reason]) '' '' ''-''"

definition object_name :: "string \<Rightarrow> string \<Rightarrow> string" where
  "object_name namespace name = (if namespace = [] then name else namespace @ ''/'' @ name)"

definition new_issue :: "string \<Rightarrow> string \<Rightarrow> string \<Rightarrow> string \<Rightarrow> string \<Rightarrow> string \<Rightarrow> string \<Rightarrow> mtime \<Rightarrow> issue" where
  "new_issue severity kind namespace name reason msg suggestion seen =
     \<lparr>is_id = issue_id kind namespace name reason, is_severity = (if severity = [] then ''warning'' else severity), is_kind = kind,
      is_namespace = namespace, is_name = name, is_reason = reason, is_message = msg, is_suggestion = suggestion,
      is_seen = seen, is_event_count = 0, is_events = []\<rparr>"

definition dated_issue :: "snapshot \<Rightarrow> issue \<Rightarrow> issue" where
  "dated_issue sn i =
     (let i = (if is_seen i = None then i\<lparr>is_seen := sn_checked sn\<rparr> else i);
          es = related_events (listed (sn_events sn)) (is_kind i) (is_namespace i) (is_name i)
      in if es \<noteq> [] then i\<lparr>is_event_count := length es, is_events := limit_events es 3, is_seen := event_display_time (hd es)\<rparr> else i)"

text \<open>An issue of an id that is there replaces it if it is more severe.\<close>

definition more_severe :: "issue \<Rightarrow> issue \<Rightarrow> issue" where
  "more_severe i x = (if is_id x = is_id i \<and> severity_rank (is_severity i) > severity_rank (is_severity x) then i else x)"

definition add_issue :: "snapshot \<Rightarrow> issue list \<Rightarrow> issue \<Rightarrow> issue list" where
  "add_issue sn issues i0 =
     (let i = dated_issue sn i0 in
      if \<exists>x \<in> set issues. is_id x = is_id i
      then map (more_severe i) issues
      else issues @ [i])"

definition find_issue :: "issue list \<Rightarrow> string \<Rightarrow> string \<Rightarrow> string \<Rightarrow> issue option" where
  "find_issue issues kind namespace name =
     foldl (\<lambda>selected i.
       if \<not> equal_fold (is_kind i) kind \<or> is_name i \<noteq> name \<or> (namespace \<noteq> [] \<and> is_namespace i \<noteq> namespace) then selected
       else (case selected of
           None \<Rightarrow> Some i
         | Some s \<Rightarrow> if severity_rank (is_severity i) > severity_rank (is_severity s) then Some i else Some s)) None issues"

definition api_issues :: "snapshot \<Rightarrow> issue list" where
  "api_issues sn =
     (case sn_api_error sn of
        None \<Rightarrow> []
      | Some e \<Rightarrow> [new_issue ''warning'' ''Cluster'' [] ''Kubernetes API'' ''APIServerUnreachable''
          (''Kubernetes API health probe failed: '' @ e)
          ''Check the CasOS apiserver startup status, admin REST config, certificates, and local network connectivity.'' (sn_checked sn)])"

definition list_failed :: "snapshot \<Rightarrow> string \<Rightarrow> string \<Rightarrow> string \<Rightarrow> string \<Rightarrow> string \<Rightarrow> issue" where
  "list_failed sn kind namespace reason msg suggestion =
     new_issue ''warning'' kind namespace ''List'' reason msg suggestion (sn_checked sn)"

definition node_issues :: "snapshot \<Rightarrow> issue list" where
  "node_issues sn =
     (case sn_nodes sn of
        Inl e \<Rightarrow> [list_failed sn ''Node'' [] ''ListFailed'' (''Unable to list nodes: '' @ e) ''Check Kubernetes API access and node list permissions.'']
      | Inr nodes \<Rightarrow> concat (map (\<lambda>n.
          (if node_ready n then []
           else [new_issue ''critical'' ''Node'' [] (nd_name n) ''NotReady'' (''Node '' @ nd_name n @ '' is not Ready.'')
             ''Check kubelet status, node network connectivity, container runtime, and disk pressure.'' (sn_checked sn)]) @
          map (\<lambda>c. new_issue ''warning'' ''Node'' [] (nd_name n) c (''Node '' @ nd_name n @ '' reports '' @ c @ ''.'')
             ''Check node disk, memory, PID usage, network plugin status, and recent kubelet events.'' (sn_checked sn))
            (pressure_conditions n)) nodes))"

definition pod_issue :: "snapshot \<Rightarrow> mpod \<Rightarrow> issue option" where
  "pod_issue sn p =
     (case detect_abnormal p of
        None \<Rightarrow> None
      | Some (reason, critical) \<Rightarrow> Some (new_issue (if critical then ''critical'' else ''warning'') ''Pod'' (pd_namespace p) (pd_name p) reason
          (''Pod '' @ object_name (pd_namespace p) (pd_name p) @ '' is abnormal: '' @ reason @ ''.'') (pod_suggestion reason) (sn_checked sn)))"

definition pod_issues :: "snapshot \<Rightarrow> issue list" where
  "pod_issues sn =
     (case sn_pods sn of
        Inl e \<Rightarrow> [list_failed sn ''Pod'' [] ''ListFailed'' (''Unable to list pods: '' @ e) ''Check Kubernetes API access and pod list permissions.'']
      | Inr pods \<Rightarrow> List.map_filter (pod_issue sn) pods)"

definition system_issues :: "snapshot \<Rightarrow> issue list" where
  "system_issues sn =
     (case sn_system sn of
        Inl e \<Rightarrow> [list_failed sn ''Pod'' ''kube-system'' ''SystemComponentListFailed'' (''Unable to list kube-system pods: '' @ e)
          ''Check Kubernetes API access and kube-system pod permissions.'']
      | Inr pods \<Rightarrow> map (\<lambda>p. new_issue ''critical'' ''Pod'' (pd_namespace p) (pd_name p) ''CoreDNSUnavailable''
            (''CoreDNS pod '' @ object_name (pd_namespace p) (pd_name p) @ '' is not available.'')
            ''Check coredns pods, kube-system events, and the cluster DNS service.'' (sn_checked sn))
          (filter (\<lambda>p. system_component (pd_name p) = ''coredns'' \<and> \<not> pod_available p) pods))"

definition pvc_issues :: "snapshot \<Rightarrow> issue list" where
  "pvc_issues sn =
     (case sn_pvcs sn of
        Inl e \<Rightarrow> [list_failed sn ''PersistentVolumeClaim'' [] ''ListFailed'' (''Unable to list PVCs: '' @ e) ''Check Kubernetes API access and PVC list permissions.'']
      | Inr pvcs \<Rightarrow> map (\<lambda>v. new_issue (if vc_phase v = ''Lost'' then ''critical'' else ''warning'') ''PersistentVolumeClaim''
            (vc_namespace v) (vc_name v) (vc_phase v) (''PVC '' @ object_name (vc_namespace v) (vc_name v) @ '' is '' @ vc_phase v @ ''.'')
            ''Check whether a default StorageClass exists and whether the requested storage can be provisioned.'' (sn_checked sn))
          (filter (\<lambda>v. vc_phase v \<noteq> ''Bound'') pvcs))"

definition event_issue :: "kevent \<Rightarrow> issue" where
  "event_issue e =
     new_issue ''warning'' (ke_kind e) (ke_object_namespace e) (ke_name e) (ke_reason e)
       (''Warning event on '' @ ke_kind e @ '' '' @ object_name (ke_object_namespace e) (ke_name e) @ '': '' @ ke_message e @ ''.'')
       (event_suggestion (ke_reason e)) (shown_time (ke_last e))"

fun add_event_issues :: "snapshot \<Rightarrow> issue list \<Rightarrow> kevent list \<Rightarrow> issue list" where
  "add_event_issues sn issues [] = issues"
| "add_event_issues sn issues (e # es) =
     (if ke_type e \<noteq> ''Warning'' \<or> ke_name e = [] \<or> find_issue issues (ke_kind e) (ke_object_namespace e) (ke_name e) \<noteq> None
      then add_event_issues sn issues es
      else
        (let issues' = add_issue sn issues (event_issue e) in
         if length issues' \<ge> 50 then issues' else add_event_issues sn issues' es))"

definition issue_key :: "issue \<Rightarrow> nat \<times> (int \<times> int) \<times> string" where
  "issue_key i = (3 - severity_rank (is_severity i), time_key (is_seen i), is_id i)"

definition found_issues :: "snapshot \<Rightarrow> issue list" where
  "found_issues sn = foldl (add_issue sn) [] (api_issues sn @ node_issues sn @ pod_issues sn @ system_issues sn @ pvc_issues sn)"

definition build_issues :: "snapshot \<Rightarrow> issue list" where
  "build_issues sn = sort_key issue_key (add_event_issues sn (found_issues sn) (listed (sn_events sn)))"

section \<open>What the issues say\<close>

lemma new_issue_fields [simp]:
  "is_id (new_issue sv k ns n r m sg t) = issue_id k ns n r"
  "is_severity (new_issue sv k ns n r m sg t) = (if sv = [] then ''warning'' else sv)"
  by (simp_all add: new_issue_def)

lemma dated_issue_fields [simp]:
  "is_id (dated_issue sn i) = is_id i" "is_severity (dated_issue sn i) = is_severity i"
  "is_kind (dated_issue sn i) = is_kind i" "is_namespace (dated_issue sn i) = is_namespace i" "is_name (dated_issue sn i) = is_name i"
  by (simp_all add: dated_issue_def Let_def)

text \<open>The invariant of the list: no id twice. An issue reported is there with at least its severity.\<close>

definition reported :: "issue list \<Rightarrow> issue \<Rightarrow> bool" where
  "reported issues i \<longleftrightarrow> (\<exists>x \<in> set issues. is_id x = is_id i \<and> severity_rank (is_severity i) \<le> severity_rank (is_severity x))"

lemma more_severe_id [simp]: "is_id (more_severe i x) = is_id x"
  by (simp add: more_severe_def)

lemma more_severe_rank:
  "severity_rank (is_severity x) \<le> severity_rank (is_severity (more_severe i x))"
  "is_id x = is_id i \<Longrightarrow> severity_rank (is_severity i) \<le> severity_rank (is_severity (more_severe i x))"
  by (auto simp: more_severe_def)

lemma add_issue_distinct: "distinct (map is_id issues) \<Longrightarrow> distinct (map is_id (add_issue sn issues i))"
  by (auto simp: add_issue_def Let_def comp_def)

lemma add_issue_reports: "reported (add_issue sn issues i) i"
proof (cases "\<exists>x \<in> set issues. is_id x = is_id i")
  case True
  then obtain x where "x \<in> set issues" "is_id x = is_id i" by blast
  then show ?thesis
    using more_severe_rank(2) [of x "dated_issue sn i"] by (auto simp: reported_def add_issue_def Let_def intro!: bexI [of _ x])
qed (simp add: reported_def add_issue_def Let_def)

lemma add_issue_keeps: "reported issues i \<Longrightarrow> reported (add_issue sn issues j) i"
proof -
  assume "reported issues i"
  then obtain x where x: "x \<in> set issues" "is_id x = is_id i" "severity_rank (is_severity i) \<le> severity_rank (is_severity x)"
    by (auto simp: reported_def)
  then show ?thesis
    using more_severe_rank(1) [of x "dated_issue sn j"]
    by (cases "\<exists>x \<in> set issues. is_id x = is_id j") (auto simp: reported_def add_issue_def Let_def intro!: bexI [of _ x] order_trans [OF x(3)])
qed

lemma add_issues:
  "distinct (map is_id issues) \<Longrightarrow> distinct (map is_id (foldl (add_issue sn) issues is))"
  "reported issues i \<or> i \<in> set is \<Longrightarrow> reported (foldl (add_issue sn) issues is) i"
  by (induction "is" arbitrary: issues) (auto simp: add_issue_distinct add_issue_keeps add_issue_reports)

lemma add_event_issues:
  "distinct (map is_id issues) \<Longrightarrow> distinct (map is_id (add_event_issues sn issues es))"
  "reported issues i \<Longrightarrow> reported (add_event_issues sn issues es) i"
  by (induction sn issues es rule: add_event_issues.induct) (simp_all add: Let_def add_issue_distinct add_issue_keeps)

lemma sorted_issues: "sorted_wrt (\<lambda>a b. issue_key a \<le> issue_key b) (build_issues sn)"
  by (simp add: build_issues_def sorted_sort_key flip: sorted_wrt_map)

lemma issues_distinct: "distinct (map is_id (build_issues sn))"
proof -
  let ?is = "add_event_issues sn (found_issues sn) (listed (sn_events sn))"
  have "distinct (map is_id ?is)" by (simp add: found_issues_def add_event_issues(1) add_issues(1))
  then have "distinct ?is" "inj_on is_id (set ?is)" by (simp_all add: distinct_map)
  then show ?thesis by (simp add: build_issues_def distinct_map)
qed

lemma issues_reported: "i \<in> set (api_issues sn @ node_issues sn @ pod_issues sn @ system_issues sn @ pvc_issues sn) \<Longrightarrow> reported (build_issues sn) i"
proof -
  assume "i \<in> set (api_issues sn @ node_issues sn @ pod_issues sn @ system_issues sn @ pvc_issues sn)"
  then have "reported (found_issues sn) i" unfolding found_issues_def by (intro add_issues(2)) simp
  then show ?thesis unfolding build_issues_def reported_def using add_event_issues(2) [unfolded reported_def] by simp
qed

end
