(* ===== verification/MonitorChecks.thy ===== *)
theory MonitorChecks
  imports Monitor
begin

text \<open>
  The checks, the summary and the diagnosis of the monitor (object/monitor.go), with what they
  guarantee. Parameters: what the API server answers, and whether the database does.
\<close>

section \<open>Checks\<close>

definition new_check :: "string \<Rightarrow> string \<Rightarrow> string \<Rightarrow> mtime \<Rightarrow> health_check" where
  "new_check check_id name category checked =
     \<lparr>hc_id = check_id, hc_name = name, hc_category = category, hc_status = ''healthy'', hc_severity = ''info'', hc_message = [],
      hc_suggestion = ''No action required.'', hc_kind = [], hc_namespace = [], hc_object = [], hc_checked = checked\<rparr>"

definition unknown_check :: "health_check \<Rightarrow> string \<Rightarrow> string \<Rightarrow> health_check" where
  "unknown_check c msg suggestion =
     c\<lparr>hc_status := ''unknown'', hc_severity := ''warning'', hc_message := msg, hc_suggestion := suggestion\<rparr>"

definition graded :: "string \<Rightarrow> string \<Rightarrow> string \<Rightarrow> health_check \<Rightarrow> health_check" where
  "graded status msg suggestion c = c\<lparr>hc_status := status, hc_severity := status, hc_message := msg, hc_suggestion := suggestion\<rparr>"

definition fine :: "string \<Rightarrow> health_check \<Rightarrow> health_check" where
  "fine msg c = c\<lparr>hc_message := msg, hc_suggestion := ''No action required.''\<rparr>"

definition limit_strings :: "string list \<Rightarrow> nat \<Rightarrow> string list" where
  "limit_strings xs n = (if length xs \<le> n then xs else take n xs @ [''+'' @ itoa (int (length xs) - int n) @ '' more''])"

definition count_of :: "'a list \<Rightarrow> string" where "count_of xs = itoa (int (length xs))"

definition check_api :: "snapshot \<Rightarrow> health_check" where
  "check_api sn =
     (let c = new_check ''kubernetes-api'' ''Kubernetes API Server Connectivity'' ''cluster'' (sn_checked sn) in
      case sn_api_error sn of
        Some e \<Rightarrow> unknown_check c (''Kubernetes API is not reachable: '' @ e)
          ''Check the CasOS apiserver startup status, admin REST config, certificates, and local network connectivity.''
      | None \<Rightarrow> fine ''Kubernetes API is reachable.'' c)"

definition check_node_ready :: "snapshot \<Rightarrow> health_check" where
  "check_node_ready sn =
     (let c = (new_check ''node-ready'' ''Node Ready Check'' ''node'' (sn_checked sn))\<lparr>hc_kind := ''Node''\<rparr> in
      case sn_nodes sn of
        Inl e \<Rightarrow> unknown_check c (''Unable to list nodes: '' @ e) ''Check Kubernetes API access and node list permissions.''
      | Inr nodes \<Rightarrow>
          if nodes = [] then graded ''critical'' ''No nodes are registered in the cluster.''
            ''Start kubelet on at least one machine and verify it can reach the CasOS apiserver.'' c
          else
            (let ready = filter node_ready nodes; not_ready = map nd_name (filter (\<lambda>n. \<not> node_ready n) nodes);
                 counts = count_of ready @ ''/'' @ count_of nodes @ '' nodes are Ready''
             in if not_ready = [] then fine (counts @ ''.'') c
                else
                  (let c = graded (if ready = [] then ''critical'' else ''warning'')
                         (counts @ '', NotReady nodes: '' @ join '', '' not_ready @ ''.'')
                         ''Check kubelet status, node network connectivity, container runtime, and disk pressure.'' c
                   in case not_ready of [n] \<Rightarrow> c\<lparr>hc_object := n\<rparr> | _ \<Rightarrow> c)))"

definition check_node_pressure :: "snapshot \<Rightarrow> health_check" where
  "check_node_pressure sn =
     (let c = (new_check ''node-pressure'' ''Node Pressure Check'' ''node'' (sn_checked sn))\<lparr>hc_kind := ''Node''\<rparr> in
      case sn_nodes sn of
        Inl e \<Rightarrow> unknown_check c (''Unable to list node conditions: '' @ e) ''Check Kubernetes API access and node list permissions.''
      | Inr nodes \<Rightarrow>
          (let pressure = concat (map (\<lambda>n. map (\<lambda>t. nd_name n @ '':'' @ t) (pressure_conditions n)) nodes)
           in if pressure = [] then fine ''No node pressure conditions are active.'' c
              else graded ''warning'' (''Node pressure detected: '' @ join '', '' (limit_strings pressure 8) @ ''.'')
                ''Check node disk, memory, PID usage, network plugin status, and recent kubelet events.'' c))"

definition pod_with_reason :: "string \<Rightarrow> string \<Rightarrow> string \<Rightarrow> string" where
  "pod_with_reason namespace name reason = namespace @ ''/'' @ name @ ''('' @ reason @ '')''"

definition check_pods :: "snapshot \<Rightarrow> health_check" where
  "check_pods sn =
     (let c = (new_check ''pod-abnormal'' ''Pod Abnormal Status Check'' ''pod'' (sn_checked sn))\<lparr>hc_kind := ''Pod''\<rparr> in
      case sn_pods sn of
        Inl e \<Rightarrow> unknown_check c (''Unable to list pods: '' @ e) ''Check Kubernetes API access and pod list permissions.''
      | Inr pods \<Rightarrow>
          (let bad = filter (\<lambda>p. detect_abnormal p \<noteq> None) pods;
               abnormal = map (\<lambda>p. pod_with_reason (pd_namespace p) (pd_name p) (fst (the (detect_abnormal p)))) bad
           in case bad of
                [] \<Rightarrow> fine ''No abnormal pods found.'' c
              | related # _ \<Rightarrow>
                  (graded (if list_ex (\<lambda>p. snd (the (detect_abnormal p))) bad then ''critical'' else ''warning'')
                    (count_of abnormal @ '' abnormal pods found: '' @ join '', '' (limit_strings abnormal 8) @ ''.'')
                    (pod_suggestion (hd abnormal)) c)\<lparr>hc_namespace := pd_namespace related, hc_object := pd_name related\<rparr>))"

definition check_system :: "snapshot \<Rightarrow> health_check" where
  "check_system sn =
     (let c = (new_check ''system-components'' ''System Component Check'' ''system'' (sn_checked sn))\<lparr>hc_kind := ''Pod''\<rparr> in
      case sn_system sn of
        Inl e \<Rightarrow> unknown_check c (''Unable to list kube-system pods: '' @ e) ''Check Kubernetes API access and kube-system pod permissions.''
      | Inr pods \<Rightarrow>
          (let recognized = filter (\<lambda>p. system_component (pd_name p) \<noteq> []) pods;
               coredns = filter (\<lambda>p. system_component (pd_name p) = ''coredns'') recognized;
               bad = filter (\<lambda>p. \<not> pod_available p) recognized;
               abnormal = map (\<lambda>p. pod_with_reason (pd_namespace p) (pd_name p)
                 (case detect_abnormal p of None \<Rightarrow> pd_phase p | Some (reason, _) \<Rightarrow> reason)) bad
           in if recognized = [] then
                unknown_check c ''No known kube-system component pods were found.''
                  ''Verify cluster DNS, kube-proxy, and network plugin components if this cluster is expected to run workloads.''
              else if abnormal = [] then fine (count_of recognized @ '' kube-system component pods look healthy.'') c
              else
                (let dns_down = (coredns \<noteq> [] \<and> list_all (\<lambda>p. \<not> pod_available p) coredns) in
                 graded (if dns_down then ''critical'' else ''warning'')
                   (''Abnormal system components: '' @ join '', '' (limit_strings abnormal 8) @ ''.'')
                   (if dns_down then ''Check coredns pods, kube-system events, and the cluster DNS service.''
                    else ''Check kube-system pod logs, related events, and node networking.'') c)))"

definition check_pvcs :: "snapshot \<Rightarrow> health_check" where
  "check_pvcs sn =
     (let c = (new_check ''pvc-bound'' ''PVC Bound Check'' ''storage'' (sn_checked sn))\<lparr>hc_kind := ''PersistentVolumeClaim''\<rparr> in
      case sn_pvcs sn of
        Inl e \<Rightarrow> unknown_check c (''Unable to list PVCs: '' @ e) ''Check Kubernetes API access and PVC list permissions.''
      | Inr pvcs \<Rightarrow>
          if pvcs = [] then fine ''No PVCs found.'' c
          else
            (let not_bound = map (\<lambda>v. pod_with_reason (vc_namespace v) (vc_name v) (vc_phase v)) (filter (\<lambda>v. vc_phase v \<noteq> ''Bound'') pvcs)
             in if not_bound = [] then fine (count_of pvcs @ ''/'' @ count_of pvcs @ '' PVCs are Bound.'') c
                else graded ''warning'' (count_of not_bound @ ''/'' @ count_of pvcs @ '' PVCs are not Bound: '' @ join '', '' (limit_strings not_bound 8) @ ''.'')
                  ''Check whether a default StorageClass exists and whether the requested storage can be provisioned.'' c))"

definition check_events :: "snapshot \<Rightarrow> health_check" where
  "check_events sn =
     (let c = (new_check ''warning-events'' ''Kubernetes Warning Event Check'' ''event'' (sn_checked sn))\<lparr>hc_kind := ''Event''\<rparr> in
      case sn_events sn of
        Inl e \<Rightarrow> unknown_check c (''Unable to list Kubernetes events: '' @ e) ''Check Kubernetes API access and event list permissions.''
      | Inr events \<Rightarrow>
          (let warnings = map (\<lambda>e. object_name (ke_object_namespace e) (ke_name e) @ '':'' @ ke_reason e) (filter (\<lambda>e. ke_type e = ''Warning'') events)
           in if warnings = [] then fine ''No Warning events found in the recent Kubernetes event window.'' c
              else graded ''warning'' (count_of warnings @ '' Warning events found: '' @ join '', '' (limit_strings warnings 8) @ ''.'')
                ''Open the event center, inspect the newest Warning events, and check the related object logs or configuration.'' c))"

definition check_service :: "string option \<Rightarrow> snapshot \<Rightarrow> health_check" where
  "check_service ping sn =
     (let c = new_check ''casos-service'' ''CasOS Backend and Database Check'' ''casos'' (sn_checked sn) in
      case ping of
        Some e \<Rightarrow> graded ''critical'' (''CasOS backend is alive, but database ping failed: '' @ e)
          ''Check database service reachability, credentials, and CasOS database configuration.'' c
      | None \<Rightarrow> fine ''CasOS backend is alive and database ping succeeded.'' c)"

definition build_checks :: "string option \<Rightarrow> snapshot \<Rightarrow> health_check list" where
  "build_checks ping sn =
     [check_api sn, check_node_ready sn, check_node_pressure sn, check_pods sn, check_system sn, check_pvcs sn, check_events sn, check_service ping sn]"

section \<open>The summary\<close>

record monitor_summary =
  sm_status :: string
  sm_nodes :: nat
  sm_nodes_ready :: nat
  sm_pods :: nat
  sm_pods_running :: nat
  sm_pods_abnormal :: nat
  sm_warnings :: nat
  sm_critical_checks :: nat
  sm_warning_checks :: nat
  sm_checked :: mtime

definition count_if :: "('a \<Rightarrow> bool) \<Rightarrow> 'a list \<Rightarrow> nat" where "count_if p xs = length (filter p xs)"

definition build_summary :: "snapshot \<Rightarrow> health_check list \<Rightarrow> monitor_summary" where
  "build_summary sn checks =
     (let nodes = listed (sn_nodes sn); pods = listed (sn_pods sn);
          critical = count_if (\<lambda>c. hc_status c = ''critical'') checks; warning = count_if (\<lambda>c. hc_status c = ''warning'') checks
      in \<lparr>sm_status = (if critical > 0 then ''critical'' else if warning > 0 then ''warning''
                       else if list_ex (\<lambda>c. hc_status c = ''unknown'') checks then ''unknown'' else ''healthy''),
          sm_nodes = length nodes, sm_nodes_ready = count_if node_ready nodes, sm_pods = length pods,
          sm_pods_running = count_if (\<lambda>p. pd_phase p = ''Running'') pods, sm_pods_abnormal = count_if (\<lambda>p. detect_abnormal p \<noteq> None) pods,
          sm_warnings = count_if (\<lambda>e. ke_type e = ''Warning'') (listed (sn_events sn)),
          sm_critical_checks = critical, sm_warning_checks = warning, sm_checked = sn_checked sn\<rparr>)"

section \<open>The server\<close>

text \<open>
  What the client answers: the version, the lists (of the pods of a namespace, all for the empty name;
  of the warnings; of the events of a namespace with their limit; of an object), a pod, a log.
\<close>

record client =
  cl_version :: "string option"
  cl_nodes :: "string + mnode list"
  cl_pods :: "string \<Rightarrow> string + mpod list"
  cl_pvcs :: "string + mpvc list"
  cl_warnings :: "string + kevent list"
  cl_events :: "string \<Rightarrow> int \<Rightarrow> string + kevent list"
  cl_object_events :: "string \<Rightarrow> string \<Rightarrow> string \<Rightarrow> int \<Rightarrow> string + kevent list"
  cl_pod :: "string \<Rightarrow> string \<Rightarrow> string + mpod"
  cl_log :: "string \<Rightarrow> string \<Rightarrow> string \<Rightarrow> int \<Rightarrow> bool \<Rightarrow> string + string"

definition list_warning_events :: "client \<Rightarrow> string + kevent list" where
  "list_warning_events cl = (case cl_warnings cl of Inl e \<Rightarrow> Inl e | Inr es \<Rightarrow> Inr (take 500 (sort_events es)))"

definition list_monitor_events :: "client \<Rightarrow> string \<Rightarrow> int \<Rightarrow> string + kevent list" where
  "list_monitor_events cl namespace limit =
     (case cl_events cl namespace (event_limit limit) of Inl e \<Rightarrow> Inl e | Inr es \<Rightarrow> Inr (sort_events es))"

definition list_object_events :: "client \<Rightarrow> string \<Rightarrow> string \<Rightarrow> string \<Rightarrow> int \<Rightarrow> string + kevent list" where
  "list_object_events cl kind namespace name limit =
     (case cl_object_events cl kind namespace name (event_limit limit) of Inl e \<Rightarrow> Inl e | Inr es \<Rightarrow> Inr (sort_events es))"

definition load_snapshot :: "client \<Rightarrow> mtime \<Rightarrow> snapshot" where
  "load_snapshot cl now =
     (let nodes = cl_nodes cl;
          api_error = (case cl_version cl of Some e \<Rightarrow> Some e | None \<Rightarrow> (case nodes of Inl e \<Rightarrow> Some e | Inr _ \<Rightarrow> None))
      in \<lparr>sn_checked = shown_time now, sn_api_error = api_error, sn_nodes = nodes, sn_pods = cl_pods cl [],
          sn_system = cl_pods cl ''kube-system'', sn_pvcs = cl_pvcs cl, sn_events = list_warning_events cl\<rparr>)"

text \<open>Without a client the lists are empty and there is no error for them.\<close>

definition load_monitor_snapshot :: "string + client \<Rightarrow> mtime \<Rightarrow> snapshot" where
  "load_monitor_snapshot cfg now =
     (case cfg of
        Inl e \<Rightarrow> \<lparr>sn_checked = shown_time now, sn_api_error = Some e, sn_nodes = Inr [], sn_pods = Inr [], sn_system = Inr [],
           sn_pvcs = Inr [], sn_events = Inr []\<rparr>
      | Inr cl \<Rightarrow> load_snapshot cl now)"

definition monitor_overview :: "string + client \<Rightarrow> string option \<Rightarrow> mtime \<Rightarrow> monitor_summary \<times> health_check list" where
  "monitor_overview cfg ping now =
     (let sn = load_monitor_snapshot cfg now; checks = build_checks ping sn in (build_summary sn checks, checks))"

definition monitor_events :: "string + client \<Rightarrow> string \<Rightarrow> int \<Rightarrow> string + monitor_event list" where
  "monitor_events cfg namespace limit =
     (case cfg of
        Inl e \<Rightarrow> Inl e
      | Inr cl \<Rightarrow> (case list_monitor_events cl namespace limit of Inl e \<Rightarrow> Inl e | Inr es \<Rightarrow> Inr (map to_monitor_event es)))"

definition monitor_issues :: "string + client \<Rightarrow> mtime \<Rightarrow> string + issue list" where
  "monitor_issues cfg now = (case cfg of Inl e \<Rightarrow> Inl e | Inr cl \<Rightarrow> Inr (build_issues (load_snapshot cl now)))"

section \<open>Diagnosis\<close>

record log_preview =
  lp_container :: string
  lp_previous :: bool
  lp_lines :: int
  lp_content :: string
  lp_error :: string

definition log_container :: "mpod \<Rightarrow> string \<Rightarrow> string" where
  "log_container p preferred =
     (if preferred \<noteq> [] then preferred
      else
        (case find (\<lambda>s. ct_waiting s \<noteq> None \<or> ct_terminated s \<noteq> None) (pd_init p @ pd_statuses p) of
           Some s \<Rightarrow> ct_name s
         | None \<Rightarrow> (case pd_containers p of c # _ \<Rightarrow> c | [] \<Rightarrow> [])))"

definition read_pod_log :: "client \<Rightarrow> string \<Rightarrow> string \<Rightarrow> string \<Rightarrow> int \<Rightarrow> bool \<Rightarrow> log_preview" where
  "read_pod_log cl namespace name container n previous =
     (let p = \<lparr>lp_container = container, lp_previous = previous, lp_lines = n, lp_content = [], lp_error = []\<rparr> in
      case cl_log cl namespace name container n previous of
        Inl e \<Rightarrow> p\<lparr>lp_error := e\<rparr> | Inr text \<Rightarrow> p\<lparr>lp_content := text\<rparr>)"

definition pod_log_preview :: "client \<Rightarrow> string \<Rightarrow> string \<Rightarrow> string \<Rightarrow> int \<Rightarrow> bool \<Rightarrow> log_preview list" where
  "pod_log_preview cl namespace0 name container n include_previous =
     (let namespace = (if namespace0 = [] then ''default'' else namespace0) in
      case cl_pod cl namespace name of
        Inl e \<Rightarrow> [\<lparr>lp_container = container, lp_previous = False, lp_lines = n, lp_content = [], lp_error = e\<rparr>]
      | Inr p \<Rightarrow>
          (let chosen = log_container p container in
           if chosen = [] then [\<lparr>lp_container = [], lp_previous = False, lp_lines = n, lp_content = [], lp_error = ''pod has no containers''\<rparr>]
           else read_pod_log cl namespace name chosen n False #
                (if include_previous then [read_pod_log cl namespace name chosen n True] else [])))"

definition split_suggestion :: "string \<Rightarrow> string list" where
  "split_suggestion suggestion =
     (let parts = map (\<lambda>p. p @ ''.'') (filter (\<lambda>p. p \<noteq> []) (map trim_space (split_on (CHR ''.'') suggestion)))
      in if parts = [] \<and> suggestion \<noteq> [] then [suggestion] else parts)"

record ai_context =
  ai_issue :: string
  ai_object :: "(string \<times> string) list"
  ai_signals :: "string list"
  ai_evidence :: "string list"
  ai_actions :: "string list"

definition show_bool :: "bool \<Rightarrow> string" where "show_bool b = (if b then ''true'' else ''false'')"

definition build_ai_context :: "issue \<Rightarrow> monitor_event list \<Rightarrow> log_preview list \<Rightarrow> ai_context" where
  "build_ai_context i events logs =
     \<lparr>ai_issue = is_message i,
      ai_object = [(''kind'', is_kind i), (''namespace'', is_namespace i), (''name'', is_name i), (''reason'', is_reason i), (''severity'', is_severity i)],
      ai_signals = is_message i # (if is_event_count i > 0 then [itoa (int (is_event_count i)) @ '' related Kubernetes events found.''] else []),
      ai_evidence = map (\<lambda>e. ''Event '' @ me_type e @ ''/'' @ me_reason e @ '': '' @ me_message e) (limit_events events 5) @
        map (\<lambda>l. ''Log preview '' @ lp_container l @ '' previous='' @ show_bool (lp_previous l) @
          (if lp_error l \<noteq> [] then '' failed: '' @ lp_error l
           else '' contains '' @ itoa (int (length (lp_content l))) @ '' bytes.'')) logs,
      ai_actions = split_suggestion (is_suggestion i)\<rparr>"

definition monitor_diagnosis ::
  "string + client \<Rightarrow> mtime \<Rightarrow> string \<Rightarrow> string \<Rightarrow> string \<Rightarrow> string \<Rightarrow> int \<Rightarrow> bool
     \<Rightarrow> string + issue \<times> monitor_event list \<times> log_preview list \<times> ai_context" where
  "monitor_diagnosis cfg now kind namespace name container n include_previous =
     (case cfg of
        Inl e \<Rightarrow> Inl e
      | Inr cl \<Rightarrow>
          if kind = [] \<or> name = [] then Inl ''kind and name are required''
          else
            (let sn = load_snapshot cl now;
                 i = (case find_issue (build_issues sn) kind namespace name of
                   Some i \<Rightarrow> i
                 | None \<Rightarrow> new_issue ''info'' kind namespace name ''NoActiveIssue''
                     (''No active monitor issue was found for '' @ kind @ '' '' @ object_name namespace name @ ''.'') ''No action required.'' (sn_checked sn));
                 events = map to_monitor_event (listed (list_object_events cl kind namespace name 50));
                 i = (if events \<noteq> [] then i\<lparr>is_event_count := length events, is_events := limit_events events 3, is_seen := event_display_time (hd events)\<rparr> else i);
                 logs = (if equal_fold kind ''Pod'' then pod_log_preview cl namespace name container (tail_lines n) include_previous else [])
             in Inr (i, events, logs, build_ai_context i events logs)))"

section \<open>What they guarantee\<close>

lemma node_issue_in:
  "n \<in> set (listed (sn_nodes sn)) \<Longrightarrow> \<not> node_ready n \<Longrightarrow>
   \<exists>i \<in> set (node_issues sn). is_id i = issue_id ''Node'' [] (nd_name n) ''NotReady'' \<and> is_severity i = ''critical''"
  by (cases "sn_nodes sn") (auto simp: node_issues_def listed_def intro!: bexI [of _ n])

lemma in_map_filter: "x \<in> set xs \<Longrightarrow> f x = Some y \<Longrightarrow> y \<in> set (List.map_filter f xs)"
  by (force simp: List.map_filter_def)

lemma pod_issue_in:
  assumes "p \<in> set (listed (sn_pods sn))" and "detect_abnormal p = Some (reason, crit)"
  shows "\<exists>i \<in> set (pod_issues sn). is_id i = issue_id ''Pod'' (pd_namespace p) (pd_name p) reason \<and>
     is_severity i = (if crit then ''critical'' else ''warning'')"
proof -
  obtain pods where "sn_pods sn = Inr pods" "p \<in> set pods" using assms(1) by (cases "sn_pods sn") (auto simp: listed_def)
  moreover obtain i where "pod_issue sn p = Some i" "is_id i = issue_id ''Pod'' (pd_namespace p) (pd_name p) reason"
    "is_severity i = (if crit then ''critical'' else ''warning'')"
    using assms(2) by (simp add: pod_issue_def)
  ultimately show ?thesis using in_map_filter [of p pods "pod_issue sn" i] by (auto simp: pod_issues_def)
qed

lemma pvc_issue_in:
  "v \<in> set (listed (sn_pvcs sn)) \<Longrightarrow> vc_phase v \<noteq> ''Bound'' \<Longrightarrow>
   \<exists>i \<in> set (pvc_issues sn). is_id i = issue_id ''PersistentVolumeClaim'' (vc_namespace v) (vc_name v) (vc_phase v)"
  by (cases "sn_pvcs sn") (auto simp: pvc_issues_def listed_def intro!: bexI [of _ v])

text \<open>
  Nothing that is wrong is missing from the issues, none of them is twice there, and the worst come
  first. Every node that is not ready and every abnormal pod of a snapshot is reported, as critical where
  the check says so; so is every claim that is not bound; the ids are distinct; and the issues are in
  order of severity, then of time with the newest first, then of their ids.
\<close>

theorem issues_report_everything:
  "distinct (map is_id (build_issues sn)) \<and>
   sorted_wrt (\<lambda>a b. issue_key a \<le> issue_key b) (build_issues sn) \<and>
   list_all (\<lambda>n. node_ready n \<or>
     list_ex (\<lambda>i. is_id i = issue_id ''Node'' [] (nd_name n) ''NotReady'' \<and> is_severity i = ''critical'') (build_issues sn)) (listed (sn_nodes sn)) \<and>
   list_all (\<lambda>p. case detect_abnormal p of
       None \<Rightarrow> True
     | Some (reason, critical) \<Rightarrow> list_ex (\<lambda>i. is_id i = issue_id ''Pod'' (pd_namespace p) (pd_name p) reason \<and>
         severity_rank (is_severity i) \<ge> (if critical then 3 else 2)) (build_issues sn)) (listed (sn_pods sn)) \<and>
   list_all (\<lambda>v. vc_phase v = ''Bound'' \<or>
     list_ex (\<lambda>i. is_id i = issue_id ''PersistentVolumeClaim'' (vc_namespace v) (vc_name v) (vc_phase v)) (build_issues sn)) (listed (sn_pvcs sn))"
proof -
  have critical: "is_severity i = ''critical''" if "3 \<le> severity_rank (is_severity i)" for i :: issue
    using that by (auto simp: severity_rank_def split: if_splits)
  have found: "\<exists>x \<in> set (build_issues sn). is_id x = is_id i \<and> severity_rank (is_severity i) \<le> severity_rank (is_severity x)"
    if "i \<in> set (node_issues sn) \<or> i \<in> set (pod_issues sn) \<or> i \<in> set (pvc_issues sn)" for i
    by (rule issues_reported [of i sn, unfolded reported_def]) (use that in auto)
  have nodes: "\<exists>i \<in> set (build_issues sn). is_id i = issue_id ''Node'' [] (nd_name n) ''NotReady'' \<and> is_severity i = ''critical''"
    if "n \<in> set (listed (sn_nodes sn))" "\<not> node_ready n" for n
  proof -
    from node_issue_in [OF that] obtain i where i: "i \<in> set (node_issues sn)"
      "is_id i = issue_id ''Node'' [] (nd_name n) ''NotReady''" "is_severity i = ''critical''" by blast
    from found [of i] i obtain x where "x \<in> set (build_issues sn)" "is_id x = is_id i"
      "severity_rank (is_severity i) \<le> severity_rank (is_severity x)" by blast
    moreover from this i have "is_severity x = ''critical''" by (intro critical) (simp add: severity_rank_def)
    ultimately show ?thesis using i by auto
  qed
  have pods: "\<exists>i \<in> set (build_issues sn). is_id i = issue_id ''Pod'' (pd_namespace p) (pd_name p) reason \<and>
      severity_rank (is_severity i) \<ge> (if crit then 3 else 2)"
    if "p \<in> set (listed (sn_pods sn))" "detect_abnormal p = Some (reason, crit)" for p reason crit
  proof -
    from pod_issue_in [OF that] obtain i where i: "i \<in> set (pod_issues sn)"
      "is_id i = issue_id ''Pod'' (pd_namespace p) (pd_name p) reason" "is_severity i = (if crit then ''critical'' else ''warning'')" by blast
    then have "severity_rank (is_severity i) = (if crit then 3 else 2)" by (simp add: severity_rank_def)
    with found [of i] i show ?thesis by auto
  qed
  have claims: "\<exists>i \<in> set (build_issues sn). is_id i = issue_id ''PersistentVolumeClaim'' (vc_namespace v) (vc_name v) (vc_phase v)"
    if "v \<in> set (listed (sn_pvcs sn))" "vc_phase v \<noteq> ''Bound''" for v
    using pvc_issue_in [OF that] found by metis
  show ?thesis
    unfolding list_all_iff list_ex_iff
  proof (intro conjI ballI)
    show "distinct (map is_id (build_issues sn))" by (rule issues_distinct)
    show "sorted_wrt (\<lambda>a b. issue_key a \<le> issue_key b) (build_issues sn)" by (rule sorted_issues)
  next
    fix n
    assume n: "n \<in> set (listed (sn_nodes sn))"
    show "node_ready n \<or> (\<exists>i \<in> set (build_issues sn). is_id i = issue_id ''Node'' [] (nd_name n) ''NotReady'' \<and> is_severity i = ''critical'')"
      using nodes [OF n] by (cases "node_ready n") simp_all
  next
    fix p
    assume p: "p \<in> set (listed (sn_pods sn))"
    show "case detect_abnormal p of None \<Rightarrow> True | Some (reason, crit) \<Rightarrow>
        \<exists>i \<in> set (build_issues sn). is_id i = issue_id ''Pod'' (pd_namespace p) (pd_name p) reason \<and> (if crit then 3 else 2) \<le> severity_rank (is_severity i)"
      proof (cases "detect_abnormal p")
      case (Some d)
      with pods [OF p, of "fst d" "snd d"] show ?thesis by (simp add: case_prod_beta)
    qed simp
  next
    fix v
    assume v: "v \<in> set (listed (sn_pvcs sn))"
    show "vc_phase v = ''Bound'' \<or> (\<exists>i \<in> set (build_issues sn). is_id i = issue_id ''PersistentVolumeClaim'' (vc_namespace v) (vc_name v) (vc_phase v))"
      using claims [OF v] by (cases "vc_phase v = ''Bound''") simp_all
  qed
qed

lemma no_abnormal: "filter (\<lambda>p. detect_abnormal p \<noteq> None) pods = [] \<longleftrightarrow> list_all (\<lambda>p. detect_abnormal p = None) pods"
  by (auto simp add: filter_empty_conv list_all_iff simp del: not_None_eq)

lemma check_pods_healthy:
  "hc_status (check_pods sn) = ''healthy'' \<longleftrightarrow>
     (case sn_pods sn of Inl _ \<Rightarrow> False | Inr pods \<Rightarrow> list_all (\<lambda>p. detect_abnormal p = None) pods)"
proof (cases "sn_pods sn")
  case (Inl e)
  then show ?thesis by (simp add: check_pods_def unknown_check_def new_check_def)
next
  case (Inr pods)
  show ?thesis
    by (cases "filter (\<lambda>p. detect_abnormal p \<noteq> None) pods")
      (simp_all add: Inr check_pods_def Let_def graded_def fine_def new_check_def flip: no_abnormal)
qed

lemma count_if_pos: "0 < count_if p xs \<longleftrightarrow> list_ex p xs"
  by (induction xs) (auto simp: count_if_def)

lemma healthy_summary:
  "list_all (\<lambda>c. hc_status c \<in> {''healthy'', ''warning'', ''critical'', ''unknown''}) cs \<Longrightarrow>
   sm_status (build_summary sn cs) = ''healthy'' \<longleftrightarrow> list_all (\<lambda>c. hc_status c = ''healthy'') cs"
  unfolding build_summary_def Let_def count_if_pos by (induction cs) auto

text \<open>
  C23: the overview is healthy exactly when everything that is checked is: the server answers every
  list, there is a node and every node is ready and without pressure, no pod is abnormal, there are
  system components and all of them are available, every claim is bound, there is no warning, and the
  database answers.
\<close>

theorem healthy_means_healthy:
  "sm_status (build_summary sn (build_checks ping sn)) = ''healthy'' \<longleftrightarrow>
     sn_api_error sn = None \<and> ping = None \<and>
     (case sn_nodes sn of Inl _ \<Rightarrow> False | Inr nodes \<Rightarrow> nodes \<noteq> [] \<and> list_all (\<lambda>n. node_ready n \<and> pressure_conditions n = []) nodes) \<and>
     (case sn_pods sn of Inl _ \<Rightarrow> False | Inr pods \<Rightarrow> list_all (\<lambda>p. detect_abnormal p = None) pods) \<and>
     (case sn_system sn of Inl _ \<Rightarrow> False | Inr pods \<Rightarrow>
        (let known = filter (\<lambda>p. system_component (pd_name p) \<noteq> []) pods in known \<noteq> [] \<and> list_all pod_available known)) \<and>
     (case sn_pvcs sn of Inl _ \<Rightarrow> False | Inr pvcs \<Rightarrow> list_all (\<lambda>v. vc_phase v = ''Bound'') pvcs) \<and>
     (case sn_events sn of Inl _ \<Rightarrow> False | Inr events \<Rightarrow> list_all (\<lambda>e. ke_type e \<noteq> ''Warning'') events)"
proof -
  note unfold = new_check_def unknown_check_def graded_def fine_def Let_def
  have "list_all (\<lambda>c. hc_status c \<in> {''healthy'', ''warning'', ''critical'', ''unknown''}) (build_checks ping sn)"
    unfolding build_checks_def list.pred_inject
    by (intro conjI TrueI; simp add: unfold check_api_def check_node_ready_def check_node_pressure_def check_pods_def check_system_def
      check_pvcs_def check_events_def check_service_def split: option.split sum.split list.split)
  then have summary: "sm_status (build_summary sn (build_checks ping sn)) = ''healthy'' \<longleftrightarrow> list_all (\<lambda>c. hc_status c = ''healthy'') (build_checks ping sn)"
    by (rule healthy_summary)
  have api: "hc_status (check_api sn) = ''healthy'' \<longleftrightarrow> sn_api_error sn = None"
    by (simp add: check_api_def unfold split: option.splits)
  have ready: "hc_status (check_node_ready sn) = ''healthy'' \<longleftrightarrow>
      (case sn_nodes sn of Inl _ \<Rightarrow> False | Inr nodes \<Rightarrow> nodes \<noteq> [] \<and> list_all node_ready nodes)"
    by (auto simp: check_node_ready_def unfold list_all_iff filter_empty_conv split: sum.splits list.splits)
  have pressure: "hc_status (check_node_pressure sn) = ''healthy'' \<longleftrightarrow>
      (case sn_nodes sn of Inl _ \<Rightarrow> False | Inr nodes \<Rightarrow> list_all (\<lambda>n. pressure_conditions n = []) nodes)"
    by (auto simp: check_node_pressure_def unfold list_all_iff split: sum.splits)
  have pods: "hc_status (check_pods sn) = ''healthy'' \<longleftrightarrow>
      (case sn_pods sn of Inl _ \<Rightarrow> False | Inr pods \<Rightarrow> list_all (\<lambda>p. detect_abnormal p = None) pods)"
    by (rule check_pods_healthy)
  have system: "hc_status (check_system sn) = ''healthy'' \<longleftrightarrow>
      (case sn_system sn of Inl _ \<Rightarrow> False | Inr pods \<Rightarrow>
        (let known = filter (\<lambda>p. system_component (pd_name p) \<noteq> []) pods in known \<noteq> [] \<and> list_all pod_available known))"
    by (auto simp: check_system_def unfold list_all_iff filter_empty_conv split: sum.splits)
  have pvcs: "hc_status (check_pvcs sn) = ''healthy'' \<longleftrightarrow>
      (case sn_pvcs sn of Inl _ \<Rightarrow> False | Inr pvcs \<Rightarrow> list_all (\<lambda>v. vc_phase v = ''Bound'') pvcs)"
    by (auto simp: check_pvcs_def unfold list_all_iff filter_empty_conv split: sum.splits)
  have events: "hc_status (check_events sn) = ''healthy'' \<longleftrightarrow>
      (case sn_events sn of Inl _ \<Rightarrow> False | Inr events \<Rightarrow> list_all (\<lambda>e. ke_type e \<noteq> ''Warning'') events)"
    by (auto simp: check_events_def unfold list_all_iff filter_empty_conv split: sum.splits)
  have service: "hc_status (check_service ping sn) = ''healthy'' \<longleftrightarrow> ping = None"
    by (simp add: check_service_def unfold split: option.splits)
  have nodes: "(case sn_nodes sn of Inl _ \<Rightarrow> False | Inr nodes \<Rightarrow> nodes \<noteq> [] \<and> list_all (\<lambda>n. node_ready n \<and> pressure_conditions n = []) nodes) \<longleftrightarrow>
      (case sn_nodes sn of Inl _ \<Rightarrow> False | Inr nodes \<Rightarrow> nodes \<noteq> [] \<and> list_all node_ready nodes) \<and>
      (case sn_nodes sn of Inl _ \<Rightarrow> False | Inr nodes \<Rightarrow> list_all (\<lambda>n. pressure_conditions n = []) nodes)"
    by (cases "sn_nodes sn") (auto simp: list_all_iff)
  show ?thesis
    unfolding summary unfolding build_checks_def list.pred_inject(2) api ready pressure pods system pvcs events service nodes
    by (simp only: list.pred_inject(1) simp_thms) blast
qed

end
