(* ===== verification/HelmDownload.thy ===== *)
theory HelmDownload
  imports Prelude GoStrings GoConv "HOL-Library.AList" "HOL-Library.Word"
begin

text \<open>
  Fetching charts and indexes (store/helm_download.go): the cache of what was fetched, bounded in time,
  entries and bytes, the requests with their retries, and the same retries for a registry. A byte string
  is a \<^typ>\<open>string\<close>, a time a number of nanoseconds. The entries of the cache are listed in one of the
  orders in which the code may range over its map. The network, the gzip decoder, the clock and the
  context are parameters.
\<close>

section \<open>The cache\<close>

record cache_entry =
  ce_data :: string
  ce_etag :: string
  ce_modified :: string
  ce_access :: "64 word"
  ce_expires :: int

record artifact_cache =
  ac_entries :: "(string \<times> cache_entry) list"
  ac_ttl :: int
  ac_max_entries :: int
  ac_max_bytes :: int
  ac_used :: int
  ac_seq :: "64 word"

definition new_artifact_cache :: "int \<Rightarrow> int \<Rightarrow> int \<Rightarrow> artifact_cache" where
  "new_artifact_cache ttl entries bytes =
     \<lparr>ac_entries = [], ac_ttl = ttl, ac_max_entries = entries, ac_max_bytes = bytes, ac_used = 0, ac_seq = 0\<rparr>"

definition default_artifact_cache :: artifact_cache where
  "default_artifact_cache = new_artifact_cache (15 * 60 * 1000000000) 32 (128 * 1024 * 1024)"

definition cache_on :: "artifact_cache \<Rightarrow> bool" where
  "cache_on c \<longleftrightarrow> \<not> (ac_ttl c \<le> 0 \<or> ac_max_entries c \<le> 0 \<or> ac_max_bytes c \<le> 0)"

definition size_of :: "cache_entry \<Rightarrow> int" where "size_of e = int (length (ce_data e))"

definition delete_locked :: "string \<Rightarrow> cache_entry \<Rightarrow> artifact_cache \<Rightarrow> artifact_cache" where
  "delete_locked key e c = c\<lparr>ac_entries := AList.delete key (ac_entries c), ac_used := ac_used c - size_of e\<rparr>"

definition touch :: "string \<Rightarrow> cache_entry \<Rightarrow> artifact_cache \<Rightarrow> cache_entry \<times> artifact_cache" where
  "touch key e c =
     (let n = ac_seq c + 1; e' = e\<lparr>ce_access := n\<rparr>
      in (e', c\<lparr>ac_entries := AList.update key e' (ac_entries c), ac_seq := n\<rparr>))"

definition get_entry :: "string \<Rightarrow> int \<Rightarrow> artifact_cache \<Rightarrow> cache_entry option \<times> artifact_cache" where
  "get_entry key now c =
     (if \<not> cache_on c then (None, c)
      else
        (case map_of (ac_entries c) key of
           None \<Rightarrow> (None, c)
         | Some e \<Rightarrow>
             if now > ce_expires e then (None, delete_locked key e c)
             else (let (e', c') = touch key e c in (Some e', c'))))"

definition get_data :: "string \<Rightarrow> int \<Rightarrow> artifact_cache \<Rightarrow> string option \<times> artifact_cache" where
  "get_data key now c = (case get_entry key now c of (e, c') \<Rightarrow> (map_option ce_data e, c'))"

definition drop_expired :: "int \<Rightarrow> artifact_cache \<Rightarrow> artifact_cache" where
  "drop_expired now c = foldl (\<lambda>c (k, e). if now > ce_expires e then delete_locked k e c else c) c (ac_entries c)"

definition drop_key :: "string \<Rightarrow> artifact_cache \<Rightarrow> artifact_cache" where
  "drop_key key c = (case map_of (ac_entries c) key of None \<Rightarrow> c | Some e \<Rightarrow> delete_locked key e c)"

definition no_entry :: cache_entry where
  "no_entry = \<lparr>ce_data = [], ce_etag = [], ce_modified = [], ce_access = 0, ce_expires = 0\<rparr>"

definition older :: "string \<times> cache_entry \<Rightarrow> string \<times> cache_entry \<Rightarrow> string \<times> cache_entry" where
  "older best x = (if fst best = [] \<or> ce_access (snd x) < ce_access (snd best) then x else best)"

definition least_recent :: "(string \<times> cache_entry) list \<Rightarrow> string \<times> cache_entry" where
  "least_recent es = foldl older ([], no_entry) es"

lemma foldl_older_in: "foldl older b es = b \<or> foldl older b es \<in> set es"
proof (induction es arbitrary: b)
  case (Cons x es)
  have "older b x = b \<or> older b x = x" by (simp add: older_def)
  then show ?case using Cons.IH [of "older b x"] by auto
qed simp

lemma least_recent_in: "least_recent es = ([], no_entry) \<or> least_recent es \<in> set es"
  unfolding least_recent_def by (rule foldl_older_in)

function make_room :: "int \<Rightarrow> artifact_cache \<Rightarrow> artifact_cache" where
  "make_room n c =
     (if int (length (ac_entries c)) \<ge> ac_max_entries c \<or> ac_used c + n > ac_max_bytes c
      then (let (key, e) = least_recent (ac_entries c) in
            if key = [] then c else make_room n (delete_locked key e c))
      else c)"
  by auto
termination
proof (relation "measure (\<lambda>(n, c). length (ac_entries c))", goal_cases)
  case (2 n c p key e)
  then have "(key, e) \<in> set (ac_entries c)"
    using least_recent_in [of "ac_entries c"] by (cases "least_recent (ac_entries c)") auto
  then show ?case
    by (auto simp: delete_locked_def AList.delete_eq intro: length_filter_less)
qed simp

declare make_room.simps [simp del]

definition put_with_metadata :: "string \<Rightarrow> string \<Rightarrow> string \<Rightarrow> string \<Rightarrow> int \<Rightarrow> artifact_cache \<Rightarrow> artifact_cache" where
  "put_with_metadata key data etag modified now c =
     (if \<not> cache_on c \<or> int (length data) > ac_max_bytes c then c
      else
        (let c1 = make_room (int (length data)) (drop_key key (drop_expired now c));
             n = ac_seq c1 + 1;
             e = \<lparr>ce_data = data, ce_etag = etag, ce_modified = modified, ce_access = n, ce_expires = now + ac_ttl c1\<rparr>
         in c1\<lparr>ac_entries := AList.update key e (ac_entries c1), ac_used := ac_used c1 + int (length data), ac_seq := n\<rparr>))"

definition put_data :: "string \<Rightarrow> string \<Rightarrow> int \<Rightarrow> artifact_cache \<Rightarrow> artifact_cache" where
  "put_data key data now c = put_with_metadata key data [] [] now c"

definition refresh :: "string \<Rightarrow> int \<Rightarrow> artifact_cache \<Rightarrow> artifact_cache" where
  "refresh key now c =
     (case map_of (ac_entries c) key of
        None \<Rightarrow> c
      | Some e \<Rightarrow>
          (let n = ac_seq c + 1 in
           c\<lparr>ac_entries := AList.update key (e\<lparr>ce_access := n, ce_expires := now + ac_ttl c\<rparr>) (ac_entries c), ac_seq := n\<rparr>))"

section \<open>Errors\<close>

text \<open>
  Of an error, what the code asks with \<^verbatim>\<open>errors.Is\<close> and \<^verbatim>\<open>errors.As\<close>: a deadline, an end of file,
  a network error with its timeout and temporary answers, a network operation, the status of an HTTP
  answer and that of a registry. Wrapping keeps all of it.
\<close>

record derror =
  er_text :: string
  er_deadline :: bool
  er_eof :: bool
  er_net :: "(bool \<times> bool) option"
  er_op :: bool
  er_status :: "int option"
  er_registry :: "int option"

definition plain_error :: "string \<Rightarrow> derror" where
  "plain_error m = \<lparr>er_text = m, er_deadline = False, er_eof = False, er_net = None, er_op = False, er_status = None, er_registry = None\<rparr>"

definition status_error :: "int \<Rightarrow> derror" where
  "status_error n = (plain_error (''HTTP '' @ itoa n))\<lparr>er_status := Some n\<rparr>"

definition wrapped :: "string \<Rightarrow> derror \<Rightarrow> derror" where
  "wrapped m e = e\<lparr>er_text := m @ '': '' @ er_text e\<rparr>"

definition retryable_status :: "int \<Rightarrow> bool" where
  "retryable_status n \<longleftrightarrow> n = 408 \<or> n = 429 \<or> (n \<ge> 500 \<and> n < 600)"

definition net_retryable :: "derror \<Rightarrow> bool" where
  "net_retryable e = (case er_net e of Some (timeout, temporary) \<Rightarrow> timeout \<or> temporary | None \<Rightarrow> False)"

definition retryable_download :: "derror \<Rightarrow> bool" where
  "retryable_download e =
     (if er_deadline e \<or> er_eof e then True
      else if net_retryable e then True
      else case er_status e of Some n \<Rightarrow> retryable_status n | None \<Rightarrow> False)"

definition retryable_registry :: "derror \<Rightarrow> bool" where
  "retryable_registry e =
     (if er_eof e then True
      else if net_retryable e then True
      else if er_op e then True
      else case er_registry e of Some n \<Rightarrow> retryable_status n | None \<Rightarrow> False)"

section \<open>One request\<close>

text \<open>A body is what arrives and the error it ends with, if any.\<close>

type_synonym reply_body = "string \<times> derror option"

record artifact_response =
  rs_status :: int
  rs_encoding :: string
  rs_etag :: string
  rs_modified :: string
  rs_body :: reply_body

record web =
  wb_request :: "string \<Rightarrow> derror option"
  wb_do :: "nat \<Rightarrow> string \<Rightarrow> (string \<times> string) list \<Rightarrow> derror + artifact_response"
  wb_gzip_open :: "reply_body \<Rightarrow> derror option"
  wb_gzip_read :: "reply_body \<Rightarrow> derror + string"
  wb_cancelled :: "nat \<Rightarrow> bool"
  wb_wait :: "nat \<Rightarrow> derror option"
  wb_time :: "nat \<Rightarrow> int"

record download =
  dn_data :: string
  dn_etag :: string
  dn_modified :: string
  dn_not_modified :: bool

definition read_body :: "web \<Rightarrow> artifact_response \<Rightarrow> derror + string" where
  "read_body w r =
     (if equal_fold (rs_encoding r) ''gzip'' then
        (case wb_gzip_open w (rs_body r) of
           Some e \<Rightarrow> Inl (wrapped ''decompress gzip response'' e)
         | None \<Rightarrow> wb_gzip_read w (rs_body r))
      else (case rs_body r of (data, Some e) \<Rightarrow> Inl e | (data, None) \<Rightarrow> Inr data))"

definition request_headers :: "cache_entry option \<Rightarrow> (string \<times> string) list" where
  "request_headers cached =
     [(''User-Agent'', ''Helm/3.21.2''), (''Accept-Encoding'', ''gzip'')] @
     (case cached of
        None \<Rightarrow> []
      | Some e \<Rightarrow>
          (if ce_etag e \<noteq> [] then [(''If-None-Match'', ce_etag e)] else []) @
          (if ce_modified e \<noteq> [] then [(''If-Modified-Since'', ce_modified e)] else []))"

definition download_once :: "web \<Rightarrow> string \<Rightarrow> cache_entry option \<Rightarrow> nat \<Rightarrow> derror + download" where
  "download_once w url cached n =
     (case wb_request w url of
        Some e \<Rightarrow> Inl e
      | None \<Rightarrow>
          (case wb_do w n url (request_headers cached) of
             Inl e \<Rightarrow> Inl e
           | Inr r \<Rightarrow>
               if rs_status r = 304 then Inr \<lparr>dn_data = [], dn_etag = [], dn_modified = [], dn_not_modified = True\<rparr>
               else if rs_status r \<noteq> 200 then Inl (status_error (rs_status r))
               else
                 (case read_body w r of
                    Inl e \<Rightarrow> Inl e
                  | Inr data \<Rightarrow> Inr \<lparr>dn_data = data, dn_etag = rs_etag r, dn_modified = rs_modified r, dn_not_modified = False\<rparr>)))"

section \<open>Retries\<close>

definition wait_retry :: "web \<Rightarrow> int \<Rightarrow> nat \<Rightarrow> derror option" where
  "wait_retry w delay n = (if delay \<le> 0 then None else wb_wait w n)"

definition answered :: "string \<Rightarrow> cache_entry option \<Rightarrow> int \<Rightarrow> download \<Rightarrow> artifact_cache option \<Rightarrow> (derror + string) \<times> artifact_cache option" where
  "answered url cached now r c =
     (if dn_not_modified r then
        (case cached of
           None \<Rightarrow> (Inl (plain_error ''HTTP 304 without cached data''), c)
         | Some e \<Rightarrow> (Inr (ce_data e), map_option (refresh url now) c))
      else (Inr (dn_data r), map_option (put_with_metadata url (dn_data r) (dn_etag r) (dn_modified r) now) c))"

fun try_download ::
  "web \<Rightarrow> string \<Rightarrow> cache_entry option \<Rightarrow> int list \<Rightarrow> nat \<Rightarrow> artifact_cache option \<Rightarrow> (derror + string) \<times> artifact_cache option" where
  "try_download w url cached [] n c =
     (case download_once w url cached n of Inr r \<Rightarrow> answered url cached (wb_time w n) r c | Inl e \<Rightarrow> (Inl e, c))"
| "try_download w url cached (d # ds) n c =
     (case download_once w url cached n of
        Inr r \<Rightarrow> answered url cached (wb_time w n) r c
      | Inl e \<Rightarrow>
          if wb_cancelled w n \<or> \<not> retryable_download e then (Inl e, c)
          else (case wait_retry w d n of Some e' \<Rightarrow> (Inl e', c) | None \<Rightarrow> try_download w url cached ds (Suc n) c))"

definition download_with ::
  "web \<Rightarrow> int list \<Rightarrow> bool \<Rightarrow> string \<Rightarrow> int \<Rightarrow> artifact_cache option \<Rightarrow> (derror + string) \<times> artifact_cache option" where
  "download_with w delays revalidate url now c =
     (case c of
        None \<Rightarrow> try_download w url None delays 0 None
      | Some k \<Rightarrow>
          (case get_entry url now k of
             (None, k') \<Rightarrow> try_download w url None delays 0 (Some k')
           | (Some e, k') \<Rightarrow>
               if \<not> revalidate then (Inr (ce_data e), Some k')
               else try_download w url (Some e) delays 0 (Some k')))"

definition download_delays :: "int list" where
  "download_delays = [1000000000, 3 * 1000000000]"

definition download_artifact :: "web \<Rightarrow> string \<Rightarrow> int \<Rightarrow> artifact_cache \<Rightarrow> (derror + string) \<times> artifact_cache option" where
  "download_artifact w url now c = download_with w download_delays False url now (Some c)"

definition download_index :: "web \<Rightarrow> string \<Rightarrow> int \<Rightarrow> artifact_cache \<Rightarrow> (derror + string) \<times> artifact_cache option" where
  "download_index w url now c = download_with w download_delays True url now (Some c)"

text \<open>A registry operation answers at its \<^term>\<open>n\<close>-th attempt.\<close>

fun retry_registry :: "web \<Rightarrow> (nat \<Rightarrow> derror option) \<Rightarrow> int list \<Rightarrow> nat \<Rightarrow> derror option" where
  "retry_registry w op [] n = op n"
| "retry_registry w op (d # ds) n =
     (case op n of
        None \<Rightarrow> None
      | Some e \<Rightarrow>
          if \<not> retryable_registry e then Some e
          else (case wait_retry w d n of Some e' \<Rightarrow> Some e' | None \<Rightarrow> retry_registry w op ds (Suc n)))"

definition retry_oci :: "web \<Rightarrow> (nat \<Rightarrow> derror option) \<Rightarrow> derror option" where
  "retry_oci w op = retry_registry w op [500 * 1000000, 1500 * 1000000] 0"

section \<open>The bounds of the cache\<close>

definition total :: "(string \<times> cache_entry) list \<Rightarrow> int" where
  "total es = (\<Sum>x\<leftarrow>es. size_of (snd x))"

definition cache_ok :: "artifact_cache \<Rightarrow> bool" where
  "cache_ok c \<longleftrightarrow> distinct (map fst (ac_entries c)) \<and> [] \<notin> set (map fst (ac_entries c)) \<and> ac_used c = total (ac_entries c)"

definition within_limits :: "artifact_cache \<Rightarrow> bool" where
  "within_limits c \<longleftrightarrow> int (length (ac_entries c)) \<le> ac_max_entries c \<and> total (ac_entries c) \<le> ac_max_bytes c"

definition same_limits :: "artifact_cache \<Rightarrow> artifact_cache \<Rightarrow> bool" where
  "same_limits c d \<longleftrightarrow> ac_ttl c = ac_ttl d \<and> ac_max_entries c = ac_max_entries d \<and> ac_max_bytes c = ac_max_bytes d"

lemma same_limits_trans: "same_limits c d \<Longrightarrow> same_limits d e \<Longrightarrow> same_limits c e"
  by (simp add: same_limits_def)

lemma same_limits_on: "same_limits c d \<Longrightarrow> cache_on c = cache_on d"
  by (simp add: same_limits_def cache_on_def)

lemma total_simps [simp]: "total [] = 0" "total (x # es) = size_of (snd x) + total es" "total (xs @ ys) = total xs + total ys"
  by (simp_all add: total_def)

lemma size_nonneg [simp]: "0 \<le> size_of e"
  by (simp add: size_of_def)

lemma total_nonneg [simp]: "0 \<le> total es"
  by (induction es) auto

lemma delete_absent: "k \<notin> fst ` set es \<Longrightarrow> AList.delete k es = es"
  by (induction es) auto

lemma total_delete: "distinct (map fst es) \<Longrightarrow> (k, e) \<in> set es \<Longrightarrow> total (AList.delete k es) = total es - size_of e"
proof (induction es)
  case (Cons x es)
  then show ?case by (cases x) (auto simp: delete_absent image_iff)
qed simp

lemma total_delete_le: "total (AList.delete k es) \<le> total es"
  by (induction es) (auto simp: add_increasing)

lemma length_delete_le: "length (AList.delete k es) \<le> length es"
  by (induction es) auto

lemma update_absent: "k \<notin> fst ` set es \<Longrightarrow> AList.update k e es = es @ [(k, e)]"
  by (induction es) auto

lemma update_present:
  "map_of es k = Some e \<Longrightarrow> size_of e' = size_of e \<Longrightarrow>
   map fst (AList.update k e' es) = map fst es \<and> length (AList.update k e' es) = length es \<and> total (AList.update k e' es) = total es"
  by (induction es) (auto split: if_splits)

lemma delete_locked_subset: "set (ac_entries (delete_locked k e c)) \<subseteq> set (ac_entries c)"
  by (auto simp: delete_locked_def AList.delete_eq)

lemma delete_locked_ok:
  "cache_ok c \<Longrightarrow> (k, e) \<in> set (ac_entries c) \<Longrightarrow> cache_ok (delete_locked k e c)"
  using subsetD [OF delete_locked_subset]
  by (fastforce simp: cache_ok_def delete_locked_def total_delete distinct_delete)

lemma delete_locked_limits [simp]: "same_limits (delete_locked k e c) c"
  by (simp add: same_limits_def delete_locked_def)

lemma delete_locked_within: "within_limits c \<Longrightarrow> within_limits (delete_locked k e c)"
  using total_delete_le [of k "ac_entries c"] length_delete_le [of k "ac_entries c"]
  by (simp add: within_limits_def delete_locked_def)

text \<open>What dropping entries keeps.\<close>

definition thinned :: "artifact_cache \<Rightarrow> artifact_cache \<Rightarrow> bool" where
  "thinned c d \<longleftrightarrow> same_limits d c \<and> ac_seq d = ac_seq c \<and> set (ac_entries d) \<subseteq> set (ac_entries c) \<and>
     (cache_ok c \<longrightarrow> cache_ok d) \<and> (within_limits c \<longrightarrow> within_limits d)"

lemma thinned_refl [simp]: "thinned c c"
  by (simp add: thinned_def same_limits_def)

lemma thinned_trans: "thinned c d \<Longrightarrow> thinned d e \<Longrightarrow> thinned c e"
  by (auto simp: thinned_def intro: same_limits_trans)

lemma thinned_delete: "(k, e) \<in> set (ac_entries c) \<Longrightarrow> thinned c (delete_locked k e c)"
  unfolding thinned_def
  by (intro conjI impI delete_locked_subset delete_locked_limits delete_locked_ok delete_locked_within)
    (simp_all add: delete_locked_def)

lemma thinned_expired: "distinct (map fst (ac_entries c)) \<Longrightarrow> thinned c (drop_expired now c)"
proof -
  have "thinned c (foldl (\<lambda>c (k, e). if now > ce_expires e then delete_locked k e c else c) c es)"
    if "distinct (map fst es)" "set es \<subseteq> set (ac_entries c)" for es c
    using that
  proof (induction es arbitrary: c)
    case (Cons x es)
    obtain k e where x: "x = (k, e)" by (cases x)
    let ?c = "if now > ce_expires e then delete_locked k e c else c"
    from Cons.prems x have "thinned c ?c" by (auto intro: thinned_delete)
    moreover from Cons.prems x have "set es \<subseteq> set (ac_entries ?c)"
      by (auto simp: delete_locked_def AList.delete_eq image_iff)
    ultimately show ?case using Cons x by (auto intro: thinned_trans)
  qed simp
  then show "distinct (map fst (ac_entries c)) \<Longrightarrow> thinned c (drop_expired now c)" by (simp add: drop_expired_def)
qed

lemma drop_expired_limits [simp]: "same_limits (drop_expired now c) c"
proof -
  have "same_limits (foldl (\<lambda>c (k, e). if now > ce_expires e then delete_locked k e c else c) d es) c" if "same_limits d c" for d es
    using that
  proof (induction es arbitrary: d)
    case (Cons x es)
    then show ?case by (cases x) (auto intro: same_limits_trans [OF delete_locked_limits])
  qed simp
  then show ?thesis by (simp add: drop_expired_def same_limits_def)
qed

lemma thinned_key: "thinned c (drop_key key c)"
  by (auto simp: drop_key_def dest: map_of_SomeD intro: thinned_delete split: option.split)

lemma drop_key_absent: "key \<notin> fst ` set (ac_entries (drop_key key c))"
  by (auto simp: drop_key_def delete_locked_def AList.delete_eq map_of_eq_None_iff split: option.split)

lemma thinned_room: "thinned c (make_room n c)"
proof (induction n c rule: make_room.induct)
  case (1 n c)
  obtain k e where l: "least_recent (ac_entries c) = (k, e)" by fastforce
  then have "thinned c (delete_locked k e c)" if "k \<noteq> []"
    using least_recent_in [of "ac_entries c"] that by (auto intro: thinned_delete)
  then show ?case
    using 1 l by (subst make_room.simps) (auto simp: Let_def intro: thinned_trans)
qed

lemma make_room_fits:
  "cache_ok c \<Longrightarrow> 0 < ac_max_entries c \<Longrightarrow> n \<le> ac_max_bytes c \<Longrightarrow>
   int (length (ac_entries (make_room n c))) < ac_max_entries c \<and> ac_used (make_room n c) + n \<le> ac_max_bytes c"
proof (induction n c rule: make_room.induct)
  case (1 n c)
  obtain k e where l: "least_recent (ac_entries c) = (k, e)" by fastforce
  show ?case
  proof (cases "int (length (ac_entries c)) \<ge> ac_max_entries c \<or> ac_used c + n > ac_max_bytes c")
    case True
    with 1 have "ac_entries c \<noteq> []" by (auto simp: cache_ok_def)
    then obtain x es where es: "ac_entries c = x # es" by (cases "ac_entries c") auto
    have "k \<noteq> []"
    proof
      assume "k = []"
      with 1 l es have "fst x \<noteq> []" "[] \<notin> fst ` set es" "least_recent (x # es) = ([], e)" by (auto simp: cache_ok_def image_iff)
      moreover have "fst (foldl older x es) \<in> fst ` set (x # es)"
        using foldl_older_in [of x es] by auto
      ultimately show False by (auto simp: least_recent_def older_def)
    qed
    then have m: "(k, e) \<in> set (ac_entries c)" using least_recent_in [of "ac_entries c"] l by auto
    moreover from m have "thinned c (delete_locked k e c)" by (rule thinned_delete)
    ultimately show ?thesis
      using 1 l True \<open>k \<noteq> []\<close> by (subst (1 2) make_room.simps) (auto simp: Let_def thinned_def same_limits_def)
  next
    case False
    then show ?thesis by (subst (1 2) make_room.simps) simp
  qed
qed


text \<open>The operations on the cache, and what they keep.\<close>

definition kept :: "artifact_cache \<Rightarrow> artifact_cache \<Rightarrow> bool" where
  "kept c d \<longleftrightarrow> same_limits d c \<and> (cache_ok c \<longrightarrow> cache_ok d \<and> (within_limits c \<longrightarrow> within_limits d))"

lemma thinned_kept: "thinned c d \<Longrightarrow> kept c d"
  by (simp add: thinned_def kept_def)

lemma kept_updated:
  assumes "map_of (ac_entries c) key = Some e" "size_of e' = size_of e"
  shows "kept c (c\<lparr>ac_entries := AList.update key e' (ac_entries c), ac_seq := n\<rparr>)"
  using update_present [OF assms] by (simp add: kept_def cache_ok_def within_limits_def same_limits_def del: size_nonneg)

lemma kept_get: "kept c (snd (get_entry key now c))"
proof (cases "map_of (ac_entries c) key")
  case None
  then show ?thesis by (simp add: get_entry_def thinned_kept)
next
  case (Some e)
  then have "kept c (delete_locked key e c)" by (intro thinned_kept thinned_delete) (rule map_of_SomeD)
  moreover have "kept c (snd (touch key e c))"
    using kept_updated [OF Some] by (simp add: touch_def Let_def size_of_def)
  ultimately show ?thesis
    using Some thinned_kept [OF thinned_refl] by (simp add: get_entry_def split: prod.split) (metis snd_conv)
qed

lemma kept_refresh: "kept c (refresh key now c)"
  by (auto simp: refresh_def Let_def size_of_def thinned_kept split: option.split intro!: kept_updated)

text \<open>What is written takes the room that was made for it.\<close>

definition roomy :: "string \<Rightarrow> string \<Rightarrow> int \<Rightarrow> artifact_cache \<Rightarrow> artifact_cache" where
  "roomy key data now c = make_room (int (length data)) (drop_key key (drop_expired now c))"

lemma roomy:
  assumes "cache_ok c"
  shows "thinned c (roomy key data now c)" "key \<notin> fst ` set (ac_entries (roomy key data now c))"
    "cache_on c \<Longrightarrow> int (length data) \<le> ac_max_bytes c \<Longrightarrow>
     int (length (ac_entries (roomy key data now c))) < ac_max_entries c \<and> ac_used (roomy key data now c) + int (length data) \<le> ac_max_bytes c"
proof -
  let ?d = "drop_key key (drop_expired now c)"
  have d: "thinned c ?d"
    using assms by (intro thinned_trans [OF thinned_expired thinned_key]) (simp add: cache_ok_def)
  then show "thinned c (roomy key data now c)" unfolding roomy_def by (rule thinned_trans) (rule thinned_room)
  have "set (ac_entries (roomy key data now c)) \<subseteq> set (ac_entries ?d)"
    using thinned_room [of ?d "int (length data)"] by (simp add: thinned_def roomy_def)
  then show "key \<notin> fst ` set (ac_entries (roomy key data now c))" using drop_key_absent [of key "drop_expired now c"] by blast
  from d assms have "cache_ok ?d" "ac_max_entries ?d = ac_max_entries c" "ac_max_bytes ?d = ac_max_bytes c"
    by (simp_all add: thinned_def same_limits_def)
  then show "cache_on c \<Longrightarrow> int (length data) \<le> ac_max_bytes c \<Longrightarrow>
     int (length (ac_entries (roomy key data now c))) < ac_max_entries c \<and> ac_used (roomy key data now c) + int (length data) \<le> ac_max_bytes c"
    using make_room_fits [of ?d "int (length data)"] by (simp add: roomy_def cache_on_def)
qed

lemma put_entries:
  assumes "cache_ok c" "cache_on c" "int (length data) \<le> ac_max_bytes c"
  shows "ac_entries (put_with_metadata key data etag modified now c) =
    ac_entries (roomy key data now c) @
      [(key, \<lparr>ce_data = data, ce_etag = etag, ce_modified = modified, ce_access = ac_seq (roomy key data now c) + 1, ce_expires = now + ac_ttl c\<rparr>)]"
  using assms roomy [OF assms(1), of key data now]
  by (simp add: put_with_metadata_def Let_def update_absent thinned_def same_limits_def flip: roomy_def)

lemma put_limits: "same_limits (put_with_metadata key data etag modified now c) c"
proof -
  have "same_limits (make_room (int (length data)) (drop_key key (drop_expired now c))) (drop_expired now c)"
    using thinned_trans [OF thinned_key thinned_room] by (simp add: thinned_def)
  then show ?thesis
    using drop_expired_limits [of now c] by (auto simp: put_with_metadata_def Let_def same_limits_def)
qed

lemma kept_put:
  assumes "key \<noteq> []"
  shows "kept c (put_with_metadata key data etag modified now c)"
proof (cases "cache_on c \<and> int (length data) \<le> ac_max_bytes c")
  case True
  let ?r = "roomy key data now c"
  let ?p = "put_with_metadata key data etag modified now c"
  have limits: "same_limits ?p ?r" "ac_used ?p = ac_used ?r + int (length data)"
    using True by (simp_all add: put_with_metadata_def Let_def same_limits_def flip: roomy_def)
  show ?thesis
  proof (cases "cache_ok c")
    case ok: True
    note r = roomy [OF ok, where key = key and data = data and now = now]
    from r(1) ok have "cache_ok ?r" "same_limits ?r c" by (simp_all add: thinned_def)
    with True r limits assms put_entries [OF ok, of data key etag modified now] show ?thesis
      by (auto simp: kept_def cache_ok_def within_limits_def size_of_def same_limits_def)
  next
    case False
    with put_limits show ?thesis by (simp add: kept_def)
  qed
next
  case False
  then show ?thesis by (auto simp: put_with_metadata_def thinned_kept)
qed

datatype cache_op = Op_Get string int | Op_Put string string string string int | Op_Refresh string int

fun op_key :: "cache_op \<Rightarrow> string" where
  "op_key (Op_Get k _) = k"
| "op_key (Op_Put k _ _ _ _) = k"
| "op_key (Op_Refresh k _) = k"

fun run_op :: "artifact_cache \<Rightarrow> cache_op \<Rightarrow> artifact_cache" where
  "run_op c (Op_Get k now) = snd (get_entry k now c)"
| "run_op c (Op_Put k d etag modified now) = put_with_metadata k d etag modified now c"
| "run_op c (Op_Refresh k now) = refresh k now c"

lemma run_op_kept: "op_key x \<noteq> [] \<Longrightarrow> kept c (run_op c x)"
  by (cases x) (simp_all add: kept_get kept_put kept_refresh)

lemma runs_kept: "list_all (\<lambda>x. op_key x \<noteq> []) ops \<Longrightarrow> kept c (foldl run_op c ops)"
proof (induction ops arbitrary: c)
  case (Cons x ops)
  then show ?case using run_op_kept [of x c] Cons.IH [of "run_op c x"] by (simp add: kept_def same_limits_def)
qed (simp add: thinned_kept)

text \<open>
  C24: the cache of the fetched charts and indexes keeps its bounds whatever is looked up, stored and
  refreshed, in whatever order and at whatever times: no more than 32 entries, no more than 128 MiB, and
  the number of bytes it counts is the number it holds.
\<close>

theorem cache_bounded:
  assumes "list_all (\<lambda>x. op_key x \<noteq> []) ops"
  shows "(let c = foldl run_op default_artifact_cache ops in
    length (ac_entries c) \<le> 32 \<and> (\<Sum>x\<leftarrow>ac_entries c. length (ce_data (snd x))) \<le> 134217728 \<and>
    ac_used c = int (\<Sum>x\<leftarrow>ac_entries c. length (ce_data (snd x))) \<and> distinct (map fst (ac_entries c)))"
proof -
  have t: "total es = int (\<Sum>x\<leftarrow>es. length (ce_data (snd x)))" for es
    by (induction es) (auto simp: size_of_def)
  have "cache_ok default_artifact_cache" "within_limits default_artifact_cache"
    by (simp_all add: cache_ok_def within_limits_def default_artifact_cache_def new_artifact_cache_def)
  with runs_kept [OF assms, of default_artifact_cache] show ?thesis
    by (simp add: kept_def cache_ok_def within_limits_def same_limits_def Let_def default_artifact_cache_def new_artifact_cache_def t)
qed

theorem cache_bounded_witness:
  "length (ac_entries (foldl run_op default_artifact_cache [Op_Put ''https://a'' ''chart'' [] [] 0, Op_Get ''https://a'' 5])) \<le> 32"
  using cache_bounded [of "[Op_Put ''https://a'' ''chart'' [] [] 0, Op_Get ''https://a'' 5]"] by (simp add: Let_def)

section \<open>What a download returns\<close>

lemma put_then_get:
  assumes "cache_ok c" "cache_on c" "int (length data) \<le> ac_max_bytes c" "later \<le> now + ac_ttl c"
  shows "map_option ce_data (fst (get_entry key later (put_with_metadata key data etag modified now c))) = Some data"
proof -
  have "cache_on (put_with_metadata key data etag modified now c)"
    using put_limits assms(2) same_limits_on by blast
  moreover have "map_of (ac_entries (put_with_metadata key data etag modified now c)) key =
      Some \<lparr>ce_data = data, ce_etag = etag, ce_modified = modified, ce_access = ac_seq (roomy key data now c) + 1, ce_expires = now + ac_ttl c\<rparr>"
    using roomy(2) [OF assms(1), of key data now, folded map_of_eq_None_iff]
    by (simp add: put_entries [OF assms(1-3)] map_add_def)
  ultimately show ?thesis
    using assms(4) by (simp add: get_entry_def touch_def Let_def)
qed

text \<open>The entry of the cache a download may use.\<close>

definition usable :: "artifact_cache \<Rightarrow> string \<Rightarrow> int \<Rightarrow> cache_entry option" where
  "usable c url now =
     (if \<not> cache_on c then None
      else (case map_of (ac_entries c) url of Some e \<Rightarrow> if now > ce_expires e then None else Some e | None \<Rightarrow> None))"

text \<open>An attempt that fails with what may pass, with a caller that goes on.\<close>

definition passes :: "web \<Rightarrow> string \<Rightarrow> nat \<Rightarrow> bool" where
  "passes w url n \<longleftrightarrow>
     (case download_once w url None n of
        Inl e \<Rightarrow> retryable_download e \<and> \<not> wb_cancelled w n \<and> wb_wait w n = None
      | Inr _ \<Rightarrow> False)"

lemma get_entry_usable:
  "map_option ce_data (fst (get_entry url now c)) = map_option ce_data (usable c url now)"
  "map_option ce_etag (fst (get_entry url now c)) = map_option ce_etag (usable c url now)"
  "map_option ce_modified (fst (get_entry url now c)) = map_option ce_modified (usable c url now)"
  by (auto simp: get_entry_def usable_def touch_def Let_def split: option.split)

section \<open>Where an answer comes from\<close>

text \<open>
  The cache is one for the process and the downloads run side by side: each looks into the cache when it starts and stores
  what it heard when it is answered, with the cache as it is by then. Charts pulled from a registry share the cache, under
  keys of their own. A download is its network, its address, whether it revalidates, when it looked, the entry it got, and
  its answer.
\<close>

record fetch =
  fe_web :: web
  fe_url :: string
  fe_revalidate :: bool
  fe_now :: int
  fe_got :: "cache_entry option"
  fe_answer :: "(derror + string) option"

datatype fetch_step = Look web string bool int | Hear nat | Read_pull string int | Store_pull string string int

fun download_step :: "artifact_cache \<times> fetch list \<Rightarrow> fetch_step \<Rightarrow> artifact_cache \<times> fetch list" where
  "download_step (c, fs) (Look w url again now) =
     (case get_entry url now c of (got, c') \<Rightarrow>
        (c', fs @ [\<lparr>fe_web = w, fe_url = url, fe_revalidate = again, fe_now = now, fe_got = got,
           fe_answer = (case got of Some e \<Rightarrow> if again then None else Some (Inr (ce_data e)) | None \<Rightarrow> None)\<rparr>]))"
| "download_step (c, fs) (Hear i) =
     (if i < length fs \<and> fe_answer (fs ! i) = None then
        (case try_download (fe_web (fs ! i)) (fe_url (fs ! i)) (fe_got (fs ! i)) download_delays 0 (Some c) of (r, c') \<Rightarrow>
           (case c' of None \<Rightarrow> c | Some k \<Rightarrow> k, fs[i := (fs ! i)\<lparr>fe_answer := Some r\<rparr>]))
      else (c, fs))"
| "download_step (c, fs) (Read_pull ref now) = (snd (get_data (''oci-chart:'' @ ref) now c), fs)"
| "download_step (c, fs) (Store_pull ref data now) = (put_data (''oci-chart:'' @ ref) data now c, fs)"

text \<open>A download that nothing comes between is \<open>download\<close>.\<close>

lemma alone_is_download:
  assumes "download_with w download_delays again url now (Some c) = (r, Some c')"
  shows "foldl download_step (c, fs) [Look w url again now, Hear (length fs)] =
    (c', fs @ [\<lparr>fe_web = w, fe_url = url, fe_revalidate = again, fe_now = now, fe_got = fst (get_entry url now c), fe_answer = Some r\<rparr>])"
  using assms by (cases "get_entry url now c") (auto simp: download_with_def split: option.splits if_splits)

text \<open>What the server of a download sent for its address, in one of its three requests, and when it was heard of.\<close>

definition asked :: "fetch \<Rightarrow> nat \<Rightarrow> (string \<times> string) list \<Rightarrow> artifact_response \<Rightarrow> bool" where
  "asked f m headers r \<longleftrightarrow> m \<le> 2 \<and> wb_do (fe_web f) m (fe_url f) headers = Inr r"

definition sent :: "fetch \<Rightarrow> string \<Rightarrow> string \<Rightarrow> string \<Rightarrow> bool" where
  "sent f data etag modified \<longleftrightarrow> (\<exists>m r. asked f m (request_headers (fe_got f)) r \<and> rs_status r = 200 \<and>
     read_body (fe_web f) r = Inr data \<and> rs_etag r = etag \<and> rs_modified r = modified)"

definition heard_at :: "fetch \<Rightarrow> int \<Rightarrow> bool" where
  "heard_at f t \<longleftrightarrow> (\<exists>m r. asked f m (request_headers (fe_got f)) r \<and> rs_status r \<in> {200, 304} \<and> wb_time (fe_web f) m = t)"

text \<open>The server says that the file with this tag and date has not changed.\<close>

definition confirmed :: "fetch \<Rightarrow> string \<Rightarrow> string \<Rightarrow> bool" where
  "confirmed f etag modified \<longleftrightarrow> (\<exists>m r. asked f m ([(''User-Agent'', ''Helm/3.21.2''), (''Accept-Encoding'', ''gzip'')] @
     (if etag \<noteq> [] then [(''If-None-Match'', etag)] else []) @ (if modified \<noteq> [] then [(''If-Modified-Since'', modified)] else [])) r \<and>
     rs_status r = 304)"

text \<open>An entry that holds what an earlier download was sent, with the time it stays fresh counted from an answer.\<close>

definition backed :: "int \<Rightarrow> fetch list \<Rightarrow> nat \<Rightarrow> string \<Rightarrow> cache_entry \<Rightarrow> bool" where
  "backed ttl fs n url e \<longleftrightarrow>
     (\<exists>j < n. fe_url (fs ! j) = url \<and> sent (fs ! j) (ce_data e) (ce_etag e) (ce_modified e)) \<and>
     (\<exists>k < n. fe_url (fs ! k) = url \<and> (\<exists>t. heard_at (fs ! k) t \<and> ce_expires e = t + ttl))"

text \<open>Every entry satisfies a predicate that does not ask when it was used.\<close>

definition entries_ok :: "(string \<Rightarrow> cache_entry \<Rightarrow> bool) \<Rightarrow> artifact_cache \<Rightarrow> bool" where
  "entries_ok P c \<longleftrightarrow> (\<forall>(k, e) \<in> set (ac_entries c). P k e)"

definition ignores_use :: "(string \<Rightarrow> cache_entry \<Rightarrow> bool) \<Rightarrow> bool" where
  "ignores_use P \<longleftrightarrow> (\<forall>k e n. P k e \<longrightarrow> P k (e\<lparr>ce_access := n\<rparr>))"

lemma set_update: "set (AList.update k v l) \<subseteq> insert (k, v) (set l)"
  by (induction l) auto

lemma entries_ok_subset: "set (ac_entries d) \<subseteq> set (ac_entries c) \<Longrightarrow> entries_ok P c \<Longrightarrow> entries_ok P d"
  by (auto simp: entries_ok_def)

lemma drop_expired_subset: "set (ac_entries (drop_expired now c)) \<subseteq> set (ac_entries c)"
proof -
  have "set (ac_entries (foldl (\<lambda>c (k, e). if now > ce_expires e then delete_locked k e c else c) c es)) \<subseteq> set (ac_entries c)" for es c
  proof (induction es arbitrary: c)
    case (Cons x es)
    obtain k e where x: "x = (k, e)" by (cases x)
    have "set (ac_entries (if now > ce_expires e then delete_locked k e c else c)) \<subseteq> set (ac_entries c)"
      using delete_locked_subset by simp
    then show ?case using Cons [of "if now > ce_expires e then delete_locked k e c else c"] x by auto
  qed simp
  then show ?thesis by (simp add: drop_expired_def)
qed

lemma entries_ok_get:
  assumes "entries_ok P c" "ignores_use P" "get_entry key now c = (got, c')"
  shows "entries_ok P c' \<and> ac_ttl c' = ac_ttl c \<and> (\<forall>e. got = Some e \<longrightarrow> P key e \<and> now \<le> ce_expires e)"
proof (cases "map_of (ac_entries c) key")
  case None
  then show ?thesis using assms(1,3) by (auto simp: get_entry_def split: if_splits)
next
  case (Some e)
  then have e: "P key e" using assms(1) map_of_SomeD by (fastforce simp: entries_ok_def)
  then have "P key (e\<lparr>ce_access := n\<rparr>)" for n using assms(2) by (simp add: ignores_use_def)
  moreover have "entries_ok P (c\<lparr>ac_entries := AList.update key (e\<lparr>ce_access := n\<rparr>) (ac_entries c), ac_seq := n\<rparr>)" for n
    using assms(1) calculation set_update [of key "e\<lparr>ce_access := n\<rparr>" "ac_entries c"] by (auto simp: entries_ok_def)
  ultimately show ?thesis
    using assms(1,3) Some entries_ok_subset [OF delete_locked_subset, of P c key e]
    by (auto simp: get_entry_def touch_def Let_def delete_locked_def split: if_splits)
qed

lemma entries_ok_put:
  assumes "entries_ok P c" "\<And>n. P key \<lparr>ce_data = data, ce_etag = etag, ce_modified = modified, ce_access = n, ce_expires = now + ac_ttl c\<rparr>"
  shows "entries_ok P (put_with_metadata key data etag modified now c) \<and> ac_ttl (put_with_metadata key data etag modified now c) = ac_ttl c"
proof -
  let ?r = "make_room (int (length data)) (drop_key key (drop_expired now c))"
  have "set (ac_entries ?r) \<subseteq> set (ac_entries c)"
    using thinned_trans [OF thinned_key thinned_room] drop_expired_subset [of now c] by (fastforce simp: thinned_def)
  then have r: "entries_ok P ?r" using assms(1) by (rule entries_ok_subset)
  have ttl: "ac_ttl ?r = ac_ttl c"
    using thinned_trans [OF thinned_key thinned_room] drop_expired_limits [of now c] by (simp add: thinned_def same_limits_def)
  show ?thesis
    using assms r ttl set_update [of key _ "ac_entries ?r"]
    by (auto simp: put_with_metadata_def Let_def entries_ok_def) blast
qed

lemma entries_ok_refresh:
  assumes "entries_ok P c" "ignores_use P" "\<And>e. P key e \<Longrightarrow> P key (e\<lparr>ce_expires := now + ac_ttl c\<rparr>)"
  shows "entries_ok P (refresh key now c) \<and> ac_ttl (refresh key now c) = ac_ttl c"
proof (cases "map_of (ac_entries c) key")
  case (Some e)
  then have "P key e" using assms(1) map_of_SomeD by (fastforce simp: entries_ok_def)
  let ?e = "e\<lparr>ce_access := ac_seq c + 1, ce_expires := now + ac_ttl c\<rparr>"
  have "P key (e\<lparr>ce_access := ac_seq c + 1\<rparr>)" using \<open>P key e\<close> assms(2) by (simp add: ignores_use_def)
  from assms(3) [OF this] have e: "P key ?e" by simp
  have r: "refresh key now c = c\<lparr>ac_entries := AList.update key ?e (ac_entries c), ac_seq := ac_seq c + 1\<rparr>"
    using Some by (simp add: refresh_def Let_def)
  show ?thesis
    unfolding r using assms(1) e set_update [of key ?e "ac_entries c"] by (auto simp: entries_ok_def)
qed (use assms(1) in \<open>simp add: refresh_def\<close>)


text \<open>A download that is answered heard from its server, and stores what it heard.\<close>

lemma try_download_heard:
  "try_download w url cached ds n c = (r, c') \<Longrightarrow>
   isl r \<and> c' = c \<or> (\<exists>m d. n \<le> m \<and> m \<le> n + length ds \<and> download_once w url cached m = Inr d \<and>
     (r, c') = answered url cached (wb_time w m) d c)"
proof (induction w url cached ds n c rule: try_download.induct)
  case (1 w url cached n c)
  then show ?case by (cases "download_once w url cached n") (auto intro!: exI [of _ n])
next
  case (2 w url cached d ds n c)
  show ?case
  proof (cases "download_once w url cached n")
    case (Inr x)
    with 2(2) show ?thesis by (auto intro!: exI [of _ n])
  next
    case (Inl e)
    show ?thesis
    proof (cases "wb_cancelled w n \<or> \<not> retryable_download e \<or> wait_retry w d n \<noteq> None")
      case True
      then show ?thesis using 2(2) Inl by (auto split: option.splits if_splits)
    next
      case False
      then have "try_download w url cached ds (Suc n) c = (r, c')" using 2(2) Inl by simp
      with 2(1) [OF Inl _ _ ] False have "isl r \<and> c' = c \<or> (\<exists>m d. Suc n \<le> m \<and> m \<le> Suc n + length ds \<and>
          download_once w url cached m = Inr d \<and> (r, c') = answered url cached (wb_time w m) d c)" by simp
      then show ?thesis by (metis Suc_leD add_Suc add_Suc_right length_Cons)
    qed
  qed
qed

lemma once_heard:
  assumes "download_once (fe_web f) (fe_url f) (fe_got f) m = Inr d" "m \<le> 2"
  shows "heard_at f (wb_time (fe_web f) m)" "\<not> dn_not_modified d \<Longrightarrow> sent f (dn_data d) (dn_etag d) (dn_modified d)"
    "dn_not_modified d \<Longrightarrow> fe_got f = Some e \<Longrightarrow> confirmed f (ce_etag e) (ce_modified e)"
  using assms
  by (auto simp: download_once_def heard_at_def sent_def confirmed_def asked_def request_headers_def split: option.splits sum.splits if_splits)

text \<open>What is true of the cache and of the downloads at any moment.\<close>

definition truthful :: "int \<Rightarrow> fetch list \<Rightarrow> nat \<Rightarrow> bool" where
  "truthful ttl fs i \<longleftrightarrow>
     (\<forall>data. fe_answer (fs ! i) = Some (Inr data) \<longrightarrow>
        (\<exists>etag modified. sent (fs ! i) data etag modified) \<or>
        (\<exists>j < i. \<exists>etag modified. fe_url (fs ! j) = fe_url (fs ! i) \<and> sent (fs ! j) data etag modified \<and>
           (if fe_revalidate (fs ! i) then confirmed (fs ! i) etag modified
            else \<exists>k < i. fe_url (fs ! k) = fe_url (fs ! i) \<and> (\<exists>t. heard_at (fs ! k) t \<and> fe_now (fs ! i) \<le> t + ttl))))"

definition own_key :: "string \<Rightarrow> bool" where "own_key k \<longleftrightarrow> has_prefix k ''oci-chart:''"

definition fetches_ok :: "int \<Rightarrow> artifact_cache \<times> fetch list \<Rightarrow> bool" where
  "fetches_ok ttl s \<longleftrightarrow> ac_ttl (fst s) = ttl \<and>
     entries_ok (\<lambda>k e. own_key k \<or> backed ttl (snd s) (length (snd s)) k e) (fst s) \<and>
     (\<forall>i < length (snd s). \<not> own_key (fe_url (snd s ! i)) \<longrightarrow>
        (\<forall>e. fe_got (snd s ! i) = Some e \<longrightarrow> backed ttl (snd s) i (fe_url (snd s ! i)) e \<and> fe_now (snd s ! i) \<le> ce_expires e) \<and>
        (fe_answer (snd s ! i) = None \<longrightarrow> fe_got (snd s ! i) = None \<or> fe_revalidate (snd s ! i)) \<and>
        truthful ttl (snd s) i)"

lemma backed_ignores: "ignores_use (\<lambda>k e. own_key k \<or> backed ttl fs n k e)"
  by (auto simp: ignores_use_def backed_def)

lemma sent_answer [simp]: "sent (f\<lparr>fe_answer := a\<rparr>) = sent f" "heard_at (f\<lparr>fe_answer := a\<rparr>) = heard_at f"
  "confirmed (f\<lparr>fe_answer := a\<rparr>) = confirmed f"
  by (auto simp: fun_eq_iff sent_def heard_at_def confirmed_def asked_def)

text \<open>Answers written down change nothing of what was sent and heard.\<close>

lemma answer_at: "i < length fs \<Longrightarrow> fs[i := (fs ! i)\<lparr>fe_answer := a\<rparr>] ! j =
    (fs ! j)\<lparr>fe_answer := if i = j then a else fe_answer (fs ! j)\<rparr>"
  by (cases "i = j") simp_all

lemma backed_answer: "i < length fs \<Longrightarrow> backed ttl (fs[i := (fs ! i)\<lparr>fe_answer := a\<rparr>]) n k e = backed ttl fs n k e"
  unfolding backed_def answer_at by simp

lemma truthful_answer:
  "i < length fs \<Longrightarrow> j \<noteq> i \<Longrightarrow> truthful ttl (fs[i := (fs ! i)\<lparr>fe_answer := a\<rparr>]) j = truthful ttl fs j"
  unfolding truthful_def answer_at by simp

lemma backed_append: "n \<le> length fs \<Longrightarrow> backed ttl (fs @ gs) n k e = backed ttl fs n k e"
  unfolding backed_def by (rule conj_cong; rule ex_cong) (auto simp: nth_append)

lemma backed_more: "backed ttl fs n k e \<Longrightarrow> n \<le> n' \<Longrightarrow> backed ttl fs n' k e"
  unfolding backed_def by (blast intro: order.strict_trans2)

lemma truthful_append: "i < length fs \<Longrightarrow> truthful ttl (fs @ gs) i = truthful ttl fs i"
  unfolding truthful_def by (simp add: nth_append) (smt (verit) order.strict_trans)

lemma look_ok:
  assumes "fetches_ok ttl (c, fs)"
  shows "fetches_ok ttl (download_step (c, fs) (Look w url again now))"
proof -
  let ?P = "\<lambda>k e. own_key k \<or> backed ttl fs (length fs) k e"
  obtain got c' where g: "get_entry url now c = (got, c')" by fastforce
  let ?f = "\<lparr>fe_web = w, fe_url = url, fe_revalidate = again, fe_now = now, fe_got = got,
     fe_answer = (case got of Some e \<Rightarrow> if again then None else Some (Inr (ce_data e)) | None \<Rightarrow> None)\<rparr>"
  have "entries_ok ?P c" "ac_ttl c = ttl" using assms by (simp_all add: fetches_ok_def)
  from entries_ok_get [OF this(1) backed_ignores g] this(2)
  have c': "entries_ok ?P c'" "ac_ttl c' = ttl" "\<And>e. got = Some e \<Longrightarrow> ?P url e \<and> now \<le> ce_expires e" by auto
  have "entries_ok (\<lambda>k e. own_key k \<or> backed ttl (fs @ [?f]) (length (fs @ [?f])) k e) c'"
    using c'(1) backed_more [of ttl "fs @ [?f]" "length fs"] by (auto simp: entries_ok_def backed_append)
  moreover have "\<not> own_key (fe_url ((fs @ [?f]) ! i)) \<longrightarrow>
      (\<forall>e. fe_got ((fs @ [?f]) ! i) = Some e \<longrightarrow> backed ttl (fs @ [?f]) i (fe_url ((fs @ [?f]) ! i)) e \<and> fe_now ((fs @ [?f]) ! i) \<le> ce_expires e) \<and>
      (fe_answer ((fs @ [?f]) ! i) = None \<longrightarrow> fe_got ((fs @ [?f]) ! i) = None \<or> fe_revalidate ((fs @ [?f]) ! i)) \<and>
      truthful ttl (fs @ [?f]) i" if "i < Suc (length fs)" for i
  proof (cases "i = length fs")
    case False
    then show ?thesis using that assms by (simp add: fetches_ok_def nth_append backed_append truthful_append)
  next
    case True
    have "truthful ttl (fs @ [?f]) i" if own: "\<not> own_key url"
      unfolding truthful_def
    proof (intro allI impI disjI2)
      fix data assume "fe_answer ((fs @ [?f]) ! i) = Some (Inr data)"
      then obtain e where e: "got = Some e" "\<not> again" "data = ce_data e" using True by (auto split: option.splits if_splits)
      from c'(3) [OF e(1)] own obtain j k t where "j < i" "fe_url (fs ! j) = url" "sent (fs ! j) (ce_data e) (ce_etag e) (ce_modified e)"
        "k < i" "fe_url (fs ! k) = url" "heard_at (fs ! k) t" "ce_expires e = t + ttl" "now \<le> ce_expires e"
        by (auto simp: backed_def True)
      then show "\<exists>j < i. \<exists>etag modified. fe_url ((fs @ [?f]) ! j) = fe_url ((fs @ [?f]) ! i) \<and> sent ((fs @ [?f]) ! j) data etag modified \<and>
         (if fe_revalidate ((fs @ [?f]) ! i) then confirmed ((fs @ [?f]) ! i) etag modified
          else \<exists>k < i. fe_url ((fs @ [?f]) ! k) = fe_url ((fs @ [?f]) ! i) \<and>
            (\<exists>t. heard_at ((fs @ [?f]) ! k) t \<and> fe_now ((fs @ [?f]) ! i) \<le> t + ttl))"
        using e True by (intro exI [of _ j] conjI exI [of _ "ce_etag e"] exI [of _ "ce_modified e"]) (auto simp: nth_append intro!: exI [of _ k])
    qed
    then show ?thesis using True c'(3) by (auto simp: backed_append split: option.split)
  qed
  ultimately show ?thesis using g c'(2) by (simp add: fetches_ok_def)
qed

lemma hear_ok:
  assumes "fetches_ok ttl (c, fs)"
  shows "fetches_ok ttl (download_step (c, fs) (Hear i))"
proof (cases "i < length fs \<and> fe_answer (fs ! i) = None")
  case True
  let ?P = "\<lambda>k e. own_key k \<or> backed ttl fs (length fs) k e"
  let ?f = "fs ! i"
  obtain r c' where t: "try_download (fe_web ?f) (fe_url ?f) (fe_got ?f) download_delays 0 (Some c) = (r, c')" by fastforce
  let ?k = "case c' of None \<Rightarrow> c | Some k \<Rightarrow> k"
  let ?fs = "fs[i := ?f\<lparr>fe_answer := Some r\<rparr>]"
  have c: "entries_ok ?P c" "ac_ttl c = ttl" using assms by (simp_all add: fetches_ok_def)
  have heard: "(entries_ok ?P ?k \<and> ac_ttl ?k = ttl) \<and> (\<not> own_key (fe_url ?f) \<longrightarrow> truthful ttl ?fs i)"
  proof (cases "isl r \<and> c' = Some c")
    case True
    then show ?thesis using c \<open>i < length fs \<and> _\<close> by (auto simp: truthful_def)
  next
    case False
    then obtain m d where m: "m \<le> 2" "download_once (fe_web ?f) (fe_url ?f) (fe_got ?f) m = Inr d"
      "(r, c') = answered (fe_url ?f) (fe_got ?f) (wb_time (fe_web ?f) m) d (Some c)"
      using try_download_heard [OF t] by (auto simp: download_delays_def numeral_2_eq_2)
    note once = once_heard [OF m(2,1)]
    let ?t = "wb_time (fe_web ?f) m"
    have late: "?P (fe_url ?f) (e\<lparr>ce_expires := ?t + ac_ttl c\<rparr>)" if "?P (fe_url ?f) e" for e
      using that once(1) True c(2) by (auto simp: backed_def)
    show ?thesis
    proof (cases "dn_not_modified d")
      case new: False
      then have rc: "r = Inr (dn_data d)" "c' = Some (put_with_metadata (fe_url ?f) (dn_data d) (dn_etag d) (dn_modified d) ?t c)"
        using m(3) by (simp_all add: answered_def)
      have "?P (fe_url ?f) \<lparr>ce_data = dn_data d, ce_etag = dn_etag d, ce_modified = dn_modified d, ce_access = n, ce_expires = ?t + ac_ttl c\<rparr>" for n
        using once(1,2) new True c(2) by (auto simp: backed_def)
      from entries_ok_put [OF c(1) this] rc c(2) once(2) [OF new] True show ?thesis
        by (auto simp: truthful_def)
    next
      case same: True
      show ?thesis
      proof (cases "fe_got ?f")
        case None
        then show ?thesis using m(3) same c True by (auto simp: answered_def truthful_def)
      next
        case (Some e)
        then have rc: "r = Inr (ce_data e)" "c' = Some (refresh (fe_url ?f) ?t c)"
          using m(3) same by (simp_all add: answered_def)
        have "truthful ttl ?fs i" if own: "\<not> own_key (fe_url ?f)"
        proof -
          have "backed ttl fs i (fe_url ?f) e" "fe_revalidate ?f"
            using assms own Some True by (auto simp: fetches_ok_def)
          moreover from this(1) obtain j where "j < i" "fe_url (fs ! j) = fe_url ?f" "sent (fs ! j) (ce_data e) (ce_etag e) (ce_modified e)"
            by (auto simp: backed_def)
          moreover have "confirmed ?f (ce_etag e) (ce_modified e)" using once(3) [OF same Some] .
          ultimately show ?thesis
            unfolding truthful_def answer_at [OF conjunct1 [OF True]] using rc by auto
        qed
        with entries_ok_refresh [OF c(1) backed_ignores late] rc c(2) show ?thesis by simp
      qed
    qed
  qed
  have "download_step (c, fs) (Hear i) = (?k, ?fs)" using True t by simp
  moreover have "entries_ok (\<lambda>k e. own_key k \<or> backed ttl ?fs (length ?fs) k e) ?k"
    using heard True by (simp add: backed_answer)
  moreover have "\<not> own_key (fe_url (?fs ! j)) \<longrightarrow>
      (\<forall>e. fe_got (?fs ! j) = Some e \<longrightarrow> backed ttl ?fs j (fe_url (?fs ! j)) e \<and> fe_now (?fs ! j) \<le> ce_expires e) \<and>
      (fe_answer (?fs ! j) = None \<longrightarrow> fe_got (?fs ! j) = None \<or> fe_revalidate (?fs ! j)) \<and> truthful ttl ?fs j" if "j < length fs" for j
    using assms heard True that by (cases "j = i") (auto simp: fetches_ok_def answer_at backed_answer truthful_answer)
  ultimately show ?thesis using heard by (simp add: fetches_ok_def)
next
  case False
  then have "download_step (c, fs) (Hear i) = (c, fs)" by (simp only: download_step.simps if_False)
  then show ?thesis using assms by simp
qed

lemma pull_ok:
  assumes "fetches_ok ttl (c, fs)"
  shows "fetches_ok ttl (download_step (c, fs) (Read_pull ref now))" "fetches_ok ttl (download_step (c, fs) (Store_pull ref data now))"
proof -
  let ?P = "\<lambda>k e. own_key k \<or> backed ttl fs (length fs) k e"
  have c: "entries_ok ?P c" using assms by (simp add: fetches_ok_def)
  obtain got c' where g: "get_entry (''oci-chart:'' @ ref) now c = (got, c')" by fastforce
  show "fetches_ok ttl (download_step (c, fs) (Read_pull ref now))"
    using entries_ok_get [OF c backed_ignores g] g assms by (simp add: fetches_ok_def get_data_def)
  have "own_key (''oci-chart:'' @ ref)" by (simp add: own_key_def has_prefix_def)
  then show "fetches_ok ttl (download_step (c, fs) (Store_pull ref data now))"
    using entries_ok_put [OF c, of "''oci-chart:'' @ ref" data "[]" "[]" now] assms by (simp add: fetches_ok_def put_data_def)
qed

lemma downloads_ok: "fetches_ok ttl (foldl download_step (new_artifact_cache ttl n b, []) steps)"
proof (induction steps rule: rev_induct)
  case Nil
  show ?case by (simp add: fetches_ok_def entries_ok_def new_artifact_cache_def)
next
  case (snoc x steps)
  then show ?case
    by (cases x; cases "foldl download_step (new_artifact_cache ttl n b, []) steps") (simp_all only: foldl_append foldl.simps look_ok hear_ok pull_ok)
qed

text \<open>
  C25: however the downloads of a process run side by side with each other and with what is pulled from registries, a
  download that returns a file returns the very bytes its server sent, read to the end, for this address: in answer to one
  of its own requests, at most three; or in answer to an earlier download of the same address. An earlier file is
  returned as an index only when the server has now confirmed it by the tag and the date it came with; as a chart,
  without asking, only within the time to live of an answer of the server for that address. The addresses are those that
  are not the key of a pulled chart.
\<close>

theorem download_truthful:
  assumes "foldl download_step (new_artifact_cache ttl entries bytes, []) steps = (c, fs)" "i < length fs"
    and "\<not> has_prefix (fe_url (fs ! i)) ''oci-chart:''" "fe_answer (fs ! i) = Some (Inr data)"
  shows "(\<exists>etag modified. sent (fs ! i) data etag modified) \<or>
    (\<exists>j < i. \<exists>etag modified. fe_url (fs ! j) = fe_url (fs ! i) \<and> sent (fs ! j) data etag modified \<and>
       (if fe_revalidate (fs ! i) then confirmed (fs ! i) etag modified
        else \<exists>k < i. fe_url (fs ! k) = fe_url (fs ! i) \<and> (\<exists>t. heard_at (fs ! k) t \<and> fe_now (fs ! i) \<le> t + ttl)))"
proof -
  have "truthful ttl fs i"
    using downloads_ok [of ttl entries bytes steps] assms(1-3) by (simp add: fetches_ok_def own_key_def)
  with assms(4) show ?thesis by (simp add: truthful_def)
qed

text \<open>
  A download survives what passes. When the first attempts fail with errors that may pass, no more than
  two of them, the caller does not give up, and the next attempt is answered with a new file, then that
  file is returned; it is in the cache, and until it expires the same download is answered from there
  whatever the network does by then.
\<close>

theorem download_recovers:
  assumes "cache_ok c" "cache_on c" "usable c url now = None" "k \<le> 2"
    and "list_all (passes w url) [0..<k]"
    and "download_once w url None k = Inr r" "\<not> dn_not_modified r" "int (length (dn_data r)) \<le> ac_max_bytes c"
  shows "\<exists>c'. download_artifact w url now c = (Inr (dn_data r), Some c') \<and>
    (later \<le> wb_time w k + ac_ttl c \<longrightarrow> fst (download_artifact w' url later c') = Inr (dn_data r))"
proof -
  obtain g where g: "get_entry url now c = (None, g)" "kept c g"
    using get_entry_usable(1) [of url now c] assms(3) kept_get [of c url now] by (cases "get_entry url now c") auto
  let ?put = "put_with_metadata url (dn_data r) (dn_etag r) (dn_modified r) (wb_time w k) g"
  have "try_download w url None ds n (Some g) = (Inr (dn_data r), Some ?put)"
    if "n \<le> k" "k \<le> n + length ds" for ds n
    using that
  proof (induction ds arbitrary: n)
    case Nil
    then have "n = k" by simp
    with assms show ?case by (simp add: answered_def)
  next
    case (Cons d ds)
    show ?case
    proof (cases "n = k")
      case True
      with assms show ?thesis by (simp add: answered_def)
    next
      case False
      with Cons.prems assms(5) have "passes w url n" by (simp add: list_all_iff)
      then obtain e where "download_once w url None n = Inl e" "retryable_download e" "\<not> wb_cancelled w n" "wb_wait w n = None"
        by (auto simp: passes_def split: sum.splits)
      with Cons False show ?thesis by (simp add: wait_retry_def)
    qed
  qed
  from this [of 0 download_delays] g assms(4) have "download_artifact w url now c = (Inr (dn_data r), Some ?put)"
    by (simp add: download_artifact_def download_with_def download_delays_def)
  moreover have "fst (download_artifact w' url later ?put) = Inr (dn_data r)" if "later \<le> wb_time w k + ac_ttl c"
  proof -
    from g assms have "cache_ok g" "cache_on g" "ac_max_bytes g = ac_max_bytes c" "ac_ttl g = ac_ttl c"
      by (auto simp: kept_def same_limits_def cache_on_def)
    with put_then_get [of g "dn_data r" later "wb_time w k" url "dn_etag r" "dn_modified r"] assms(8) that
    show ?thesis by (auto simp: download_artifact_def download_with_def split: option.split prod.split)
  qed
  ultimately show ?thesis by blast
qed

text \<open>A network that fails once with status 503 and then answers.\<close>

definition shaky_web :: web where
  "shaky_web = \<lparr>wb_request = (\<lambda>_. None),
     wb_do = (\<lambda>n _ _. Inr \<lparr>rs_status = (if n = 0 then 503 else 200), rs_encoding = [], rs_etag = ''v1'', rs_modified = [], rs_body = (''index'', None)\<rparr>),
     wb_gzip_open = (\<lambda>_. None), wb_gzip_read = (\<lambda>b. Inr (fst b)), wb_cancelled = (\<lambda>_. False), wb_wait = (\<lambda>_. None), wb_time = (\<lambda>_. 7)\<rparr>"

lemmas shaky_simps = download_once_def shaky_web_def read_body_def equal_fold_def to_lower_def status_error_def plain_error_def
  retryable_download_def net_retryable_def retryable_status_def

lemma new_cache_ok: "cache_ok default_artifact_cache \<and> cache_on default_artifact_cache \<and> usable default_artifact_cache url now = None"
  by (simp add: cache_ok_def cache_on_def usable_def default_artifact_cache_def new_artifact_cache_def)

theorem download_recovers_witness:
  "fst (download_artifact shaky_web ''https://a/index.yaml'' 0 default_artifact_cache) = Inr ''index''"
proof -
  have "download_once shaky_web ''https://a/index.yaml'' None 1 =
      Inr \<lparr>dn_data = ''index'', dn_etag = ''v1'', dn_modified = [], dn_not_modified = False\<rparr>"
    by (simp add: shaky_simps)
  moreover have "list_all (passes shaky_web ''https://a/index.yaml'') [0..<1]"
    by (simp add: passes_def shaky_simps)
  moreover have "int (length ''index'') \<le> ac_max_bytes default_artifact_cache"
    by (simp add: default_artifact_cache_def new_artifact_cache_def)
  ultimately show ?thesis
    using download_recovers [of default_artifact_cache "''https://a/index.yaml''" 0 1 shaky_web] new_cache_ok by fastforce
qed

text \<open>Two downloads of a chart, the second from the cache.\<close>

lemma shaky_run:
  "\<exists>c. foldl download_step (new_artifact_cache 10 2 100, [])
     [Look shaky_web ''https://a/c.tgz'' False 0, Hear 0, Look shaky_web ''https://a/c.tgz'' False 9] =
   (c, [\<lparr>fe_web = shaky_web, fe_url = ''https://a/c.tgz'', fe_revalidate = False, fe_now = 0, fe_got = None, fe_answer = Some (Inr ''index'')\<rparr>,
        \<lparr>fe_web = shaky_web, fe_url = ''https://a/c.tgz'', fe_revalidate = False, fe_now = 9,
         fe_got = Some \<lparr>ce_data = ''index'', ce_etag = ''v1'', ce_modified = [], ce_access = 2, ce_expires = 17\<rparr>, fe_answer = Some (Inr ''index'')\<rparr>])"
  by (simp add: get_entry_def touch_def cache_on_def new_artifact_cache_def download_delays_def answered_def wait_retry_def
    put_with_metadata_def drop_expired_def drop_key_def make_room.simps Let_def shaky_simps)

theorem download_truthful_witness:
  "(\<exists>fs. fe_url (fs ! 0) = ''https://a/c.tgz'' \<and> length fs = 2 \<and>
     ((\<exists>etag modified. sent (fs ! 1) ''index'' etag modified) \<or>
      (\<exists>etag modified. sent (fs ! 0) ''index'' etag modified \<and> (\<exists>t. heard_at (fs ! 0) t \<and> 9 \<le> t + 10))))"
proof -
  obtain c fs where run: "foldl download_step (new_artifact_cache 10 2 100, [])
     [Look shaky_web ''https://a/c.tgz'' False 0, Hear 0, Look shaky_web ''https://a/c.tgz'' False 9] = (c, fs)"
    and fs: "fs = [\<lparr>fe_web = shaky_web, fe_url = ''https://a/c.tgz'', fe_revalidate = False, fe_now = 0, fe_got = None, fe_answer = Some (Inr ''index'')\<rparr>,
        \<lparr>fe_web = shaky_web, fe_url = ''https://a/c.tgz'', fe_revalidate = False, fe_now = 9,
         fe_got = Some \<lparr>ce_data = ''index'', ce_etag = ''v1'', ce_modified = [], ce_access = 2, ce_expires = 17\<rparr>, fe_answer = Some (Inr ''index'')\<rparr>]"
    using shaky_run by blast
  from download_truthful [OF run, of 1 "''index''"] show ?thesis
    by (intro exI [of _ fs]) (auto simp: fs has_prefix_def)
qed

end
