(* ===== verification/HelmCompat.thy ===== *)
theory HelmCompat
  imports HelmValues GoConv
begin

text \<open>
  Whether a rendered chart fits the cluster (store/helm\_compatibility.go,
  store/kubernetes\_resource\_adapter.go): the custom resources a chart brings, the documents it
  renders, the storage it asks for, and the errors with their codes. A document is a map of values. The
  decoder of a text into documents (with the error it ends with), Helm's dry runs, the mapper and the
  lookups of the API server are parameters; the calls to the server are numbered, since a later one may
  answer otherwise.
\<close>

section \<open>Errors\<close>

type_synonym gvk = "string \<times> string \<times> string"

definition no_gvk :: gvk where "no_gvk = ([], [], [])"

text \<open>
  Of an error, its text and what the code asks of it: the answers of \<^verbatim>\<open>meta.IsNoMatchError\<close>, of the groups
  of \<^verbatim>\<open>apierrors\<close>, of the network and discovery errors, whether Helm's store has no such release, and the
  compatibility error that \<^verbatim>\<open>errors.As\<close> finds in it.
\<close>

record failure =
  fl_text :: string
  fl_no_match :: bool
  fl_forbidden :: bool
  fl_conflict :: bool
  fl_missing :: bool
  fl_unavailable :: bool
  fl_network :: bool
  fl_discovery :: bool
  fl_no_release :: bool
  fl_compat :: "(string \<times> gvk) option"

definition plain :: "string \<Rightarrow> failure" where
  "plain m = \<lparr>fl_text = m, fl_no_match = False, fl_forbidden = False, fl_conflict = False, fl_missing = False,
     fl_unavailable = False, fl_network = False, fl_discovery = False, fl_no_release = False, fl_compat = None\<rparr>"

definition wrap_error :: "string \<Rightarrow> failure \<Rightarrow> failure" where
  "wrap_error m e = e\<lparr>fl_text := m @ '': '' @ fl_text e\<rparr>"

text \<open>What the library says: a kind as a text, the group and version of an \<^verbatim>\<open>apiVersion\<close>, a field of another type, a quoted text.\<close>

record klib =
  kl_gvk_text :: "gvk \<Rightarrow> string"
  kl_parse_gv :: "string \<Rightarrow> failure + string \<times> string"
  kl_accessor :: "string \<Rightarrow> hval \<Rightarrow> failure"
  kl_quote :: "string \<Rightarrow> string"

definition compat_error :: "klib \<Rightarrow> string \<Rightarrow> gvk \<Rightarrow> failure \<Rightarrow> failure" where
  "compat_error lib code gvk e =
     e\<lparr>fl_text := (if gvk = no_gvk then code @ '': '' @ fl_text e else code @ '' for '' @ kl_gvk_text lib gvk @ '': '' @ fl_text e),
       fl_compat := Some (code, gvk)\<rparr>"

definition compat_info :: "klib \<Rightarrow> failure \<Rightarrow> (string \<times> string) option" where
  "compat_info lib e =
     map_option (\<lambda>(code, gvk). (code, if gvk = no_gvk then [] else kl_gvk_text lib gvk)) (fl_compat e)"

definition unregistered_kind :: "failure \<Rightarrow> bool" where
  "unregistered_kind e =
     list_ex (contains (to_lower (fl_text e)))
       [''unable to recognize'', ''no matches for kind'', ''ensure crds are installed first'']"

definition classified :: "klib \<Rightarrow> gvk \<Rightarrow> failure \<Rightarrow> string \<Rightarrow> failure" where
  "classified lib gvk e fallback =
     compat_error lib
       (if fl_no_match e then ''RESOURCE_NOT_SERVED''
        else if fl_forbidden e then ''FORBIDDEN_BY_RBAC''
        else if fl_conflict e then ''CONFLICT''
        else if fl_missing e then ''RESOURCE_NOT_FOUND''
        else if fl_unavailable e then ''API_UNAVAILABLE''
        else if fl_discovery e then ''DISCOVERY_FAILED''
        else if fl_network e then ''API_UNAVAILABLE''
        else fallback) gvk e"

definition classify_resource :: "klib \<Rightarrow> gvk \<Rightarrow> failure \<Rightarrow> failure" where
  "classify_resource lib gvk e = classified lib gvk e ''API_UNAVAILABLE''"

definition classify_dry_run :: "klib \<Rightarrow> gvk \<Rightarrow> failure \<Rightarrow> failure" where
  "classify_dry_run lib gvk e =
     (if unregistered_kind e then compat_error lib ''RESOURCE_NOT_SERVED'' gvk e
      else classified lib gvk e ''HELM_DRY_RUN_FAILED'')"

section \<open>The custom resources of a chart\<close>

record crd_definition =
  cd_name :: string
  cd_group :: string
  cd_kind :: string
  cd_served :: "string list"

definition str_at :: "hmap \<Rightarrow> string \<Rightarrow> string" where
  "str_at m key = (case string_at m key of Some s \<Rightarrow> s | None \<Rightarrow> [])"

definition blank :: "string \<Rightarrow> bool" where "blank s \<longleftrightarrow> trim_space s = []"

definition elements :: "hval option \<Rightarrow> hval list" where
  "elements v = (case v of Some (VList l) \<Rightarrow> l | _ \<Rightarrow> [])"

definition served_version :: "hval \<Rightarrow> string option" where
  "served_version item =
     (let version = map_or_empty (Some item); name = str_at version ''name'' in
      if \<not> blank name \<and> map_of version ''served'' = Some (VBool True) then Some name else None)"

definition parse_crd :: "klib \<Rightarrow> hmap \<Rightarrow> failure + crd_definition" where
  "parse_crd lib document =
     (let kind = str_at document ''kind'' in
      if kind \<noteq> ''CustomResourceDefinition'' then Inl (plain (''expected CustomResourceDefinition, got '' @ kl_quote lib kind))
      else
        (let name = str_at (map_or_empty (map_of document ''metadata'')) ''name'';
             spec = map_or_empty (map_of document ''spec'');
             kind = str_at (map_or_empty (map_of spec ''names'')) ''kind'';
             group = str_at spec ''group''
         in if blank name \<or> blank kind \<or> blank group
            then Inl (plain ''metadata.name, spec.names.kind, and spec.group are required'')
            else
              (let versions = List.map_filter served_version (elements (map_of spec ''versions''));
                   versions = (if versions = [] \<and> \<not> blank (str_at spec ''version'') then [str_at spec ''version''] else versions)
               in if versions = [] then Inl (plain ''at least one served spec version is required'')
                  else Inr \<lparr>cd_name = name, cd_group = group, cd_kind = kind, cd_served = versions\<rparr>)))"

type_synonym decoder = "string \<Rightarrow> hmap list \<times> failure option"

type_synonym crds = "(gvk \<times> crd_definition) list"

definition add_crd :: "crd_definition \<Rightarrow> crds \<Rightarrow> crds" where
  "add_crd d crds = foldl (\<lambda>m v. ((cd_group d, v, cd_kind d), d) # m) crds (cd_served d)"

fun add_documents :: "klib \<Rightarrow> string \<Rightarrow> hmap list \<Rightarrow> crds \<Rightarrow> failure + crds" where
  "add_documents lib file [] crds = Inr crds"
| "add_documents lib file (d # ds) crds =
     (if d = [] then add_documents lib file ds crds
      else
        (case parse_crd lib d of
           Inl e \<Rightarrow> Inl (wrap_error (''parse CRD file '' @ file) e)
         | Inr def \<Rightarrow> add_documents lib file ds (add_crd def crds)))"

text \<open>A file of the chart's CRDs: its name, and its data unless the file is missing.\<close>

fun crd_definitions :: "klib \<Rightarrow> decoder \<Rightarrow> (string \<times> string option) list \<Rightarrow> crds \<Rightarrow> failure + crds" where
  "crd_definitions lib decode [] crds = Inr crds"
| "crd_definitions lib decode ((file, data) # files) crds =
     (case data of
        None \<Rightarrow> Inl (plain (''CRD file '' @ file @ '' is missing''))
      | Some text \<Rightarrow>
          (case decode text of
             (documents, ended) \<Rightarrow>
               (case add_documents lib file documents crds of
                  Inl e \<Rightarrow> Inl e
                | Inr crds' \<Rightarrow>
                    (case ended of
                       Some e \<Rightarrow> Inl (wrap_error (''decode CRD file '' @ file) e)
                     | None \<Rightarrow> crd_definitions lib decode files crds'))))"

section \<open>The documents of a manifest\<close>

text \<open>The \<open>n\<close>-th question to the context, the mapper and the API server.\<close>

record kapi =
  ka_ctx :: "nat \<Rightarrow> failure option"
  ka_mapping :: "nat \<Rightarrow> gvk \<Rightarrow> failure option"
  ka_crd :: "nat \<Rightarrow> string \<Rightarrow> failure + hmap option"

definition not_served :: "klib \<Rightarrow> gvk \<Rightarrow> string \<Rightarrow> failure" where
  "not_served lib gvk m = compat_error lib ''RESOURCE_NOT_SERVED'' gvk (plain m)"

definition validate_existing_crd :: "klib \<Rightarrow> gvk \<Rightarrow> hmap option \<Rightarrow> failure option" where
  "validate_existing_crd lib gvk existing =
     (case existing of
        None \<Rightarrow> Some (not_served lib gvk ''existing CustomResourceDefinition is empty'')
      | Some object \<Rightarrow>
          (case parse_crd lib object of
             Inl e \<Rightarrow> Some (compat_error lib ''INVALID_MANIFEST'' gvk
                (wrap_error (''parse existing CRD '' @ str_at (map_or_empty (map_of object ''metadata'')) ''name'') e))
           | Inr d \<Rightarrow>
               (case gvk of
                  (grp, version, kind) \<Rightarrow>
                    if cd_group d \<noteq> grp then
                      Some (not_served lib gvk (''existing CustomResourceDefinition has group '' @ kl_quote lib (cd_group d)))
                    else if cd_kind d \<noteq> kind then
                      Some (not_served lib gvk (''existing CustomResourceDefinition has kind '' @ kl_quote lib (cd_kind d)))
                    else if version \<notin> set (cd_served d) then
                      Some (not_served lib gvk (''existing CustomResourceDefinition does not serve version '' @ version))
                    else None)))"

definition validate_chart_crd :: "klib \<Rightarrow> kapi \<Rightarrow> gvk \<Rightarrow> crd_definition \<Rightarrow> nat \<Rightarrow> failure option" where
  "validate_chart_crd lib api gvk d n =
     (case ka_crd api n (cd_name d) of
        Inl e \<Rightarrow> if fl_missing e then None else Some (classify_resource lib gvk e)
      | Inr existing \<Rightarrow> validate_existing_crd lib gvk existing)"

definition validate_kind :: "klib \<Rightarrow> kapi \<Rightarrow> crds \<Rightarrow> gvk \<Rightarrow> nat \<Rightarrow> failure option \<times> nat" where
  "validate_kind lib api crds gvk n =
     (let unmatched = (\<lambda>e n.
        (if fl_no_match e then
           (case map_of crds gvk of
              None \<Rightarrow> (Some (compat_error lib ''RESOURCE_NOT_SERVED'' gvk e), n)
            | Some d \<Rightarrow> (validate_chart_crd lib api gvk d n, Suc n))
         else (Some (classify_resource lib gvk e), n)))
      in
        case ka_mapping api n gvk of
          None \<Rightarrow> (None, Suc n)
        | Some e \<Rightarrow>
            if fl_no_match e then
              (case ka_ctx api (Suc n) of
                 Some e' \<Rightarrow> (Some (classify_resource lib gvk e'), n + 2)
               | None \<Rightarrow>
                   (case ka_mapping api (n + 2) gvk of
                      None \<Rightarrow> (None, n + 3)
                    | Some e2 \<Rightarrow> unmatched e2 (n + 3)))
            else unmatched e (Suc n))"

definition invalid :: "klib \<Rightarrow> failure \<Rightarrow> failure" where
  "invalid lib e = compat_error lib ''INVALID_MANIFEST'' no_gvk e"

definition nested_string :: "klib \<Rightarrow> hmap \<Rightarrow> string \<Rightarrow> failure + string" where
  "nested_string lib m key =
     (case map_of m key of None \<Rightarrow> Inr [] | Some (VStr s) \<Rightarrow> Inr s | Some v \<Rightarrow> Inl (kl_accessor lib key v))"

definition nested_slice :: "klib \<Rightarrow> hmap \<Rightarrow> string \<Rightarrow> failure + hval list" where
  "nested_slice lib m key =
     (case map_of m key of None \<Rightarrow> Inr [] | Some (VList l) \<Rightarrow> Inr l | Some v \<Rightarrow> Inl (kl_accessor lib key v))"

definition document_gvk :: "klib \<Rightarrow> hmap \<Rightarrow> string \<Rightarrow> failure + gvk" where
  "document_gvk lib document kind =
     (case nested_string lib document ''apiVersion'' of
        Inl e \<Rightarrow> Inl (invalid lib (wrap_error ''read apiVersion'' e))
      | Inr v \<Rightarrow>
          (let version = trim_space v in
           if version = [] \<or> kind = [] then Inl (invalid lib (plain ''apiVersion and kind are required''))
           else
             (case kl_parse_gv lib version of
                Inl e \<Rightarrow> Inl (invalid lib (wrap_error (''parse apiVersion '' @ kl_quote lib version) e))
              | Inr (grp, ver) \<Rightarrow> Inr (grp, ver, kind))))"

lemma nested_slice_size: "nested_slice lib m key = Inr l \<Longrightarrow> m \<noteq> [] \<Longrightarrow> size_list size l < size_list (size_prod (\<lambda>_. 0) size) m"
proof -
  assume s: "nested_slice lib m key = Inr l" and "m \<noteq> []"
  show ?thesis
  proof (cases "map_of m key")
    case None
    with s \<open>m \<noteq> []\<close> show ?thesis by (cases m) (auto simp: nested_slice_def)
  next
    case (Some v)
    with s have v: "v = VList l" by (auto simp: nested_slice_def split: hval.splits)
    from Some have "(key, v) \<in> set m" by (rule map_of_SomeD)
    then have "size_prod (\<lambda>_. 0) size (key, v) \<le> size_list (size_prod (\<lambda>_. 0) size) m"
      by (intro size_list_estimation') auto
    with v show ?thesis by simp
  qed
qed

function (sequential) validate_document :: "klib \<Rightarrow> kapi \<Rightarrow> crds \<Rightarrow> hmap \<Rightarrow> nat \<Rightarrow> failure option \<times> nat"
  and validate_items :: "klib \<Rightarrow> kapi \<Rightarrow> crds \<Rightarrow> hval list \<Rightarrow> nat \<Rightarrow> failure option \<times> nat" where
  "validate_document lib api crds document n =
     (case ka_ctx api n of
        Some e \<Rightarrow> (Some (classify_resource lib no_gvk e), Suc n)
      | None \<Rightarrow>
          (case nested_string lib document ''kind'' of
             Inl e \<Rightarrow> (Some (invalid lib (wrap_error ''read kind'' e)), Suc n)
           | Inr k \<Rightarrow>
               if trim_space k = ''List'' then
                 (case nested_slice lib document ''items'' of
                    Inl e \<Rightarrow> (Some (invalid lib (wrap_error ''decode List items'' e)), Suc n)
                  | Inr objs \<Rightarrow> validate_items lib api crds objs (Suc n))
               else
                 (case document_gvk lib document (trim_space k) of
                    Inl e \<Rightarrow> (Some e, Suc n)
                  | Inr gvk \<Rightarrow> validate_kind lib api crds gvk (Suc n))))"
| "validate_items lib api crds [] n = (None, n)"
| "validate_items lib api crds (item # objs) n =
     (case as_map item of
        None \<Rightarrow> (Some (invalid lib (plain ''List item is not a Kubernetes object'')), n)
      | Some object \<Rightarrow>
          (case validate_document lib api crds object n of
             (Some e, n') \<Rightarrow> (Some e, n')
           | (None, n') \<Rightarrow> validate_items lib api crds objs n'))"
  by pat_completeness auto
termination
proof (relation "measure (\<lambda>x. case x of Inl (_, _, _, d, _) \<Rightarrow> 2 * size_list (size_prod (\<lambda>_. 0) size) d
    | Inr (_, _, _, objs, _) \<Rightarrow> Suc (2 * size_list size objs))", goal_cases)
  case (2 lib api crds document n k objs)
  then have "document \<noteq> []" by (auto simp: nested_string_def trim_space_Nil)
  with nested_slice_size 2 show ?case by fastforce
qed auto

declare validate_document.simps [simp del] validate_items.simps [simp del]

text \<open>The documents of a manifest, with the error its decoder ends with.\<close>

fun validate_manifest :: "klib \<Rightarrow> kapi \<Rightarrow> crds \<Rightarrow> hmap list \<Rightarrow> failure option \<Rightarrow> nat \<Rightarrow> failure option" where
  "validate_manifest lib api crds [] ended n =
     (case ka_ctx api n of
        Some e \<Rightarrow> Some (classify_resource lib no_gvk e)
      | None \<Rightarrow> map_option (\<lambda>e. invalid lib (wrap_error ''decode rendered Helm manifest'' e)) ended)"
| "validate_manifest lib api crds (d # ds) ended n =
     (case ka_ctx api n of
        Some e \<Rightarrow> Some (classify_resource lib no_gvk e)
      | None \<Rightarrow>
          if d = [] then validate_manifest lib api crds ds ended (Suc n)
          else
            (case validate_document lib api crds d (Suc n) of
               (Some e, _) \<Rightarrow> Some e
             | (None, n') \<Rightarrow> validate_manifest lib api crds ds ended n'))"

section \<open>Storage\<close>

definition storage_class_empty :: "hmap \<Rightarrow> bool" where
  "storage_class_empty spec =
     (if spec = [] then False
      else
        (case map_of spec ''storageClassName'' of
           None \<Rightarrow> True
         | Some VNull \<Rightarrow> True
         | Some (VStr s) \<Rightarrow> blank s
         | Some _ \<Rightarrow> True))"

definition document_needs_class :: "hmap \<Rightarrow> bool" where
  "document_needs_class document =
     (let kind = str_at document ''kind''; spec = map_or_empty (map_of document ''spec'') in
      if kind = ''PersistentVolumeClaim'' then storage_class_empty spec
      else if kind = ''StatefulSet'' then
        list_ex (\<lambda>claim. storage_class_empty (map_or_empty (map_of (map_or_empty (Some claim)) ''spec'')))
          (elements (map_of spec ''volumeClaimTemplates''))
      else False)"

definition needs_default_class :: "decoder \<Rightarrow> string \<Rightarrow> bool" where
  "needs_default_class decode manifest = list_ex document_needs_class (fst (decode manifest))"

definition default_class :: "(string \<times> string) list \<Rightarrow> bool" where
  "default_class annotations \<longleftrightarrow>
     map_of annotations ''storageclass.kubernetes.io/is-default-class'' = Some ''true'' \<or>
     map_of annotations ''storageclass.beta.kubernetes.io/is-default-class'' = Some ''true''"

text \<open>
  The storage classes by their annotations, or the error of building the client or of listing them; None where there is
  no configuration to ask with.
\<close>

definition validate_storage :: "decoder \<Rightarrow> (failure + (string \<times> string) list list) option \<Rightarrow> string \<Rightarrow> failure option" where
  "validate_storage decode classes manifest =
     (if \<not> needs_default_class decode manifest then None
      else
        (case classes of
           None \<Rightarrow> None
         | Some (Inl e) \<Rightarrow> Some (wrap_error ''check default StorageClass'' e)
         | Some (Inr cs) \<Rightarrow>
             if list_ex default_class cs then None
             else Some (plain (''this chart creates persistent storage without naming a StorageClass, but the cluster has '' @
               ''no default StorageClass; mark one as default before installing''))))"

section \<open>A chart and the cluster\<close>

definition installable :: "string \<Rightarrow> bool" where
  "installable type \<longleftrightarrow> \<not> equal_fold (trim_space type) ''library''"

text \<open>The chart: its name, the type of its metadata unless that is missing, its CRD files.\<close>

record chart_info =
  ci_name :: string
  ci_type :: "string option"
  ci_crds :: "(string \<times> string option) list"

text \<open>
  The cluster as the check sees it: whether the namespace exists, Helm's dry run against the server or on the
  client alone, the storage classes, and building the mapper.
\<close>

record target =
  tg_namespace :: "failure + bool"
  tg_dry_run :: "bool \<Rightarrow> failure + string"
  tg_upgrade_run :: "string \<Rightarrow> failure + string"
  tg_classes :: "(failure + (string \<times> string) list list) option"
  tg_adapter :: "failure option"
  tg_api :: kapi

definition validate_gvks :: "klib \<Rightarrow> decoder \<Rightarrow> target \<Rightarrow> string \<Rightarrow> crds \<Rightarrow> failure option" where
  "validate_gvks lib decode t manifest crds =
     (case tg_adapter t of
        Some e \<Rightarrow> Some (classify_resource lib no_gvk e)
      | None \<Rightarrow> (case decode manifest of (documents, ended) \<Rightarrow> validate_manifest lib (tg_api t) crds documents ended 0))"

definition validate_chart :: "klib \<Rightarrow> decoder \<Rightarrow> target \<Rightarrow> chart_info \<Rightarrow> failure option" where
  "validate_chart lib decode t ch =
     (case ci_type ch of
        None \<Rightarrow> Some (plain ''chart metadata is missing'')
      | Some type \<Rightarrow>
          if \<not> installable type then Some (plain (''chart '' @ ci_name ch @ '' is a library chart and cannot be installed as an application''))
          else
            (case crd_definitions lib decode (ci_crds ch) [] of
               Inl e \<Rightarrow> Some (wrap_error (''read chart '' @ ci_name ch @ '' CRDs'') (invalid lib e))
             | Inr crds \<Rightarrow>
                 (case tg_namespace t of
                    Inl e \<Rightarrow> Some e
                  | Inr present \<Rightarrow>
                      (case tg_dry_run t present of
                         Inr manifest \<Rightarrow>
                           (case validate_storage decode (tg_classes t) manifest of
                              Some e \<Rightarrow> Some e
                            | None \<Rightarrow> if present then None else validate_gvks lib decode t manifest crds)
                       | Inl e \<Rightarrow>
                           if present \<and> unregistered_kind e then
                             (case tg_dry_run t False of
                                Inl e2 \<Rightarrow> Some (wrap_error (''render chart '' @ ci_name ch @ '' with client dry-run'') (classify_dry_run lib no_gvk e2))
                              | Inr manifest \<Rightarrow>
                                  (case validate_gvks lib decode t manifest crds of
                                     Some e2 \<Rightarrow> Some (wrap_error (''chart '' @ ci_name ch @ '' is not compatible with the target cluster'') e2)
                                   | None \<Rightarrow> validate_storage decode (tg_classes t) manifest))
                           else Some (wrap_error (''render chart '' @ ci_name ch @ '' for compatibility check'') (classify_dry_run lib no_gvk e))))))"

definition validate_release :: "klib \<Rightarrow> decoder \<Rightarrow> target \<Rightarrow> string \<Rightarrow> chart_info option \<Rightarrow> failure option" where
  "validate_release lib decode t release ch =
     (case Option.bind ch (\<lambda>c. map_option (Pair c) (ci_type c)) of
        None \<Rightarrow> Some (plain ''chart metadata is missing'')
      | Some (c, type) \<Rightarrow>
          if \<not> installable type then Some (plain (''chart '' @ ci_name c @ '' is a library chart and cannot be installed as an application''))
          else
            (case tg_upgrade_run t ''server'' of
               Inr _ \<Rightarrow> None
             | Inl e \<Rightarrow>
                 if unregistered_kind e then
                   (case tg_upgrade_run t ''client'' of
                      Inl e2 \<Rightarrow> Some (wrap_error (''render Helm release '' @ release @ '' with client dry-run'') (classify_dry_run lib no_gvk e2))
                    | Inr manifest \<Rightarrow>
                        map_option (wrap_error (''Helm release '' @ release @ '' is not compatible with the target cluster''))
                          (validate_gvks lib decode t manifest []))
                 else Some (wrap_error (''render Helm release '' @ release @ '' for compatibility check'') (classify_dry_run lib no_gvk e))))"

text \<open>The versions of a release: the last one, and one by its number with its chart.\<close>

definition validate_rollback ::
  "klib \<Rightarrow> decoder \<Rightarrow> target \<Rightarrow> failure + int \<Rightarrow> (int \<Rightarrow> failure + chart_info option) \<Rightarrow> string \<Rightarrow> int \<Rightarrow> failure option" where
  "validate_rollback lib decode t last_version get release revision =
     (case last_version of
        Inl e \<Rightarrow> Some (wrap_error (''read current Helm release '' @ release) e)
      | Inr version \<Rightarrow>
          (let wanted = (if revision = 0 then version - 1 else revision) in
           if wanted \<le> 0 then Some (plain (''release '' @ release @ '' has no prior revision to roll back to''))
           else
             (case get wanted of
                Inl e \<Rightarrow> Some (wrap_error (''read Helm release '' @ release @ '' revision '' @ itoa wanted) e)
              | Inr ch \<Rightarrow> validate_release lib decode t release ch)))"


section \<open>What is accepted\<close>

text \<open>The objects a document is made of: itself, or those of its items when it is a list.\<close>

definition kind_of :: "klib \<Rightarrow> hmap \<Rightarrow> string" where
  "kind_of lib d = (case nested_string lib d ''kind'' of Inl _ \<Rightarrow> [] | Inr k \<Rightarrow> trim_space k)"

inductive rendered :: "klib \<Rightarrow> hmap \<Rightarrow> hmap \<Rightarrow> bool" for lib where
  itself: "kind_of lib d \<noteq> ''List'' \<Longrightarrow> rendered lib d d"
| item: "kind_of lib d = ''List'' \<Longrightarrow> VMap x \<in> set (elements (map_of d ''items'')) \<Longrightarrow> rendered lib x y \<Longrightarrow> rendered lib d y"

inductive_cases renderedE: "rendered lib d x"

text \<open>
  The server knows the kind, or the chart brings it and no other resource definition of that name contradicts: none is
  there, or the one that is has that group and kind and serves that version.
\<close>

definition serves_kind :: "klib \<Rightarrow> gvk \<Rightarrow> hmap \<Rightarrow> bool" where
  "serves_kind lib gvk object \<longleftrightarrow>
     (\<exists>d. parse_crd lib object = Inr d \<and> gvk \<in> {cd_group d} \<times> set (cd_served d) \<times> {cd_kind d})"

definition fits :: "klib \<Rightarrow> kapi \<Rightarrow> crds \<Rightarrow> hmap \<Rightarrow> bool" where
  "fits lib api crds x \<longleftrightarrow>
     (\<exists>gvk. document_gvk lib x (kind_of lib x) = Inr gvk \<and>
       ((\<exists>m. ka_mapping api m gvk = None) \<or>
        (\<exists>d m. map_of crds gvk = Some d \<and>
           (case ka_crd api m (cd_name d) of
              Inl e \<Rightarrow> fl_missing e
            | Inr existing \<Rightarrow> (\<exists>object. existing = Some object \<and> serves_kind lib gvk object)))))"

lemma existing_crd_None:
  "validate_existing_crd lib gvk existing = None \<longleftrightarrow> (\<exists>object. existing = Some object \<and> serves_kind lib gvk object)"
  by (auto simp: validate_existing_crd_def serves_kind_def split: option.splits sum.splits prod.splits)

lemma chart_crd_None:
  "validate_chart_crd lib api gvk d m = None \<longleftrightarrow>
     (case ka_crd api m (cd_name d) of
        Inl e \<Rightarrow> fl_missing e
      | Inr existing \<Rightarrow> (\<exists>object. existing = Some object \<and> serves_kind lib gvk object))"
  by (simp add: validate_chart_crd_def existing_crd_None split: sum.split)

lemma validate_kind_fits:
  assumes "validate_kind lib api crds gvk n = (None, n')" "document_gvk lib x (kind_of lib x) = Inr gvk"
  shows "fits lib api crds x"
proof (cases "\<exists>m. ka_mapping api m gvk = None")
  case False
  then obtain e1 e2 where "ka_mapping api n gvk = Some e1" "ka_mapping api (n + 2) gvk = Some e2" by fastforce
  with assms(1) have "\<exists>d m. map_of crds gvk = Some d \<and> validate_chart_crd lib api gvk d m = None"
    by (auto simp: validate_kind_def split: option.splits if_splits)
  then show ?thesis
    using assms(2) unfolding fits_def chart_crd_None by blast
qed (use assms(2) in \<open>auto simp: fits_def\<close>)

lemma items_validated:
  "validate_items lib api crds l n = (None, n') \<Longrightarrow> VMap x \<in> set l \<Longrightarrow> \<exists>m m'. validate_document lib api crds x m = (None, m')"
proof (induction l arbitrary: n)
  case (Cons y l)
  from Cons.prems(1) obtain o1 m where y: "as_map y = Some o1" "validate_document lib api crds o1 n = (None, m)"
    "validate_items lib api crds l m = (None, n')"
    by (auto simp: validate_items.simps split: option.splits prod.splits)
  with Cons show ?case by (cases "y = VMap x") auto
qed simp

lemma document_fits: "rendered lib d x \<Longrightarrow> validate_document lib api crds d n = (None, n') \<Longrightarrow> fits lib api crds x"
proof (induction arbitrary: n n' rule: rendered.induct)
  case (itself d)
  then obtain k where k: "nested_string lib d ''kind'' = Inr k" "trim_space k \<noteq> ''List''"
    by (auto simp: kind_of_def validate_document.simps split: option.splits sum.splits)
  with itself obtain gvk m where "document_gvk lib d (trim_space k) = Inr gvk" "validate_kind lib api crds gvk m = (None, n')"
    by (auto simp: validate_document.simps split: option.splits sum.splits)
  with k show ?case by (intro validate_kind_fits) (auto simp: kind_of_def)
next
  case (item d x y)
  then obtain k where k: "nested_string lib d ''kind'' = Inr k" "trim_space k = ''List''"
    by (auto simp: kind_of_def split: sum.splits)
  with item.prems obtain l m where l: "nested_slice lib d ''items'' = Inr l" "validate_items lib api crds l m = (None, n')"
    by (auto simp: validate_document.simps split: option.splits sum.splits)
  then have "l = elements (map_of d ''items'')"
    by (auto simp: nested_slice_def elements_def split: option.splits hval.splits)
  with l item.hyps(2) items_validated obtain a b where "validate_document lib api crds x a = (None, b)" by blast
  then show ?case by (rule item.IH)
qed

text \<open>
  C26: a manifest that is accepted asks for nothing the cluster lacks. Every object in it, those inside lists
  included, has a kind the API server serves, or one the chart defines itself, and then the resource
  definition of that name is not there yet or serves that very group, kind and version; and the manifest
  was read to its end.
\<close>

theorem accepted_manifest_fits:
  assumes "validate_manifest lib api crds documents ended n = None"
  shows "ended = None \<and> (d \<in> set documents \<and> d \<noteq> [] \<and> rendered lib d x \<longrightarrow> fits lib api crds x)"
  using assms
proof (induction documents arbitrary: n)
  case (Cons y ds)
  show ?case
  proof (cases "y = []")
    case True
    with Cons.prems have "validate_manifest lib api crds ds ended (Suc n) = None" by (auto split: option.splits)
    from Cons.IH [OF this] True show ?thesis by auto
  next
    case False
    with Cons.prems obtain m where v: "validate_document lib api crds y (Suc n) = (None, m)" "validate_manifest lib api crds ds ended m = None"
      by (auto split: option.splits prod.splits)
    with Cons.IH [OF v(2)] document_fits [OF _ v(1)] show ?thesis by auto
  qed
qed (auto split: option.splits)

definition demo_lib :: klib where
  "demo_lib = \<lparr>kl_gvk_text = (\<lambda>(g, v, k). g @ ''/'' @ v @ '', Kind='' @ k),
     kl_parse_gv = (\<lambda>s. case split_on CHR ''/'' s of [v] \<Rightarrow> Inr ([], v) | [g, v] \<Rightarrow> Inr (g, v) | _ \<Rightarrow> Inl (plain s)),
     kl_accessor = (\<lambda>k _. plain k), kl_quote = (\<lambda>s. dquote # s @ [dquote])\<rparr>"

definition demo_api :: kapi where
  "demo_api = \<lparr>ka_ctx = (\<lambda>_. None),
     ka_mapping = (\<lambda>_ gvk. if gvk = ([], ''v1'', ''Service'') then None else Some ((plain ''no match'')\<lparr>fl_no_match := True\<rparr>)),
     ka_crd = (\<lambda>_ _. Inl ((plain ''not found'')\<lparr>fl_missing := True\<rparr>))\<rparr>"

definition demo_object :: hmap where
  "demo_object = [(''apiVersion'', VStr ''example.org/v1''), (''kind'', VStr ''Database'')]"

definition demo_crds :: crds where
  "demo_crds = add_crd \<lparr>cd_name = ''databases.example.org'', cd_group = ''example.org'', cd_kind = ''Database'', cd_served = [''v1'']\<rparr> []"

theorem accepted_manifest_fits_witness: "fits demo_lib demo_api demo_crds demo_object"
proof -
  have trim: "trim_space ''Database'' = ''Database''" "trim_space ''example.org/v1'' = ''example.org/v1''" by code_simp+
  have "validate_manifest demo_lib demo_api demo_crds [demo_object] None 0 = None"
    by (simp add: validate_document.simps nested_string_def demo_object_def demo_api_def demo_lib_def demo_crds_def trim
      document_gvk_def Let_def validate_kind_def add_crd_def validate_chart_crd_def plain_def)
  moreover have "rendered demo_lib demo_object demo_object"
    by (rule itself) (simp add: kind_of_def nested_string_def demo_object_def trim)
  ultimately show ?thesis
    using accepted_manifest_fits [of demo_lib demo_api demo_crds "[demo_object]" None 0 demo_object demo_object]
    by (simp add: demo_object_def)
qed

end
