(* ===== verification/HelmDiagnostics.thy ===== *)
theory HelmDiagnostics
  imports GoStrings GoConv "HOL-Library.AList" "HOL-Library.Multiset"
begin

text \<open>
  What is said of a release that is not ready (store/helm.go, store/helm\_container\_logs.go): a line for
  each workload, service, pod, condition and container, the last log lines of what crashed, and the
  recent events. What the API server lists, and how a time, a selector and a port print, are parameters.
  The code ranges over its maps of names and events in any order: the names are listed in one of them,
  and events of one instant keep theirs.
\<close>

section \<open>Texts\<close>

text \<open>\<^verbatim>\<open>strings.Fields\<close>: what lies between white space.\<close>

function fields_from :: "string \<Rightarrow> string \<Rightarrow> string list" where
  "fields_from acc s =
     (if s = [] then (if acc = [] then [] else [acc])
      else
        (case find (has_prefix s) space_encodings of
           Some w \<Rightarrow> (if acc = [] then [] else [acc]) @ fields_from [] (drop (length w) s)
         | None \<Rightarrow> fields_from (acc @ [hd s]) (tl s)))"
  by pat_completeness auto
termination
  by (relation "measure (\<lambda>(acc, s). length s)")
    (auto simp: find_Some_iff dest: spaces_invisible [OF nth_mem])

declare fields_from.simps [simp del]

definition white_fields :: "string \<Rightarrow> string list" where "white_fields s = fields_from [] s"

definition empty_dash :: "string \<Rightarrow> string" where
  "empty_dash value = (if trim_space value = [] then ''-'' else value)"

definition one_line :: "string \<Rightarrow> nat \<Rightarrow> string" where
  "one_line s n =
     (let line = join '' '' (white_fields s) in
      if line = [] then ''-''
      else if length line \<le> n then line
      else if n \<le> 3 then take n line
      else take (n - 3) line @ ''...'')"

definition message_len :: nat where "message_len = 240"

definition event_len :: nat where "event_len = 360"

definition max_events :: nat where "max_events = 20"

section \<open>What is listed\<close>

record dcondition =
  dc_type :: string
  dc_status :: string
  dc_reason :: string
  dc_message :: string

record dterminated =
  dt_reason :: string
  dt_exit :: int
  dt_signal :: int
  dt_finished :: "int option"
  dt_message :: string

record dstate =
  ds_waiting :: "(string \<times> string) option"
  ds_running :: "int option option"
  ds_terminated :: "dterminated option"

record dcontainer =
  dk_name :: string
  dk_ready :: bool
  dk_restarts :: int
  dk_state :: dstate
  dk_last :: dstate

record dpod =
  dp_name :: string
  dp_phase :: string
  dp_node :: string
  dp_ip :: string
  dp_reason :: string
  dp_message :: string
  dp_conditions :: "dcondition list"
  dp_init :: "dcontainer list"
  dp_statuses :: "dcontainer list"
  dp_containers :: nat

record dworkload =
  dw_name :: string
  dw_replicas :: "int option"
  dw_ready :: int
  dw_available :: int
  dw_updated :: int
  dw_observed :: int
  dw_generation :: int
  dw_conditions :: "dcondition list"

record dport =
  do_protocol :: string
  do_port :: int
  do_target :: string
  do_node_port :: int

record dservice =
  dv_name :: string
  dv_type :: string
  dv_ip :: string
  dv_ports :: "dport list"
  dv_selector :: "(string \<times> string) list"

record devent =
  de_uid :: string
  de_namespace :: string
  de_kind :: string
  de_name :: string
  de_type :: string
  de_reason :: string
  de_message :: string
  de_count :: int
  de_last :: "int option"
  de_time :: "int option"
  de_first :: "int option"
  de_created :: "int option"

text \<open>Times as RFC 3339, to the second and to the nanosecond.\<close>

record dclock =
  dl_seconds :: "int option \<Rightarrow> string"
  dl_nanos :: "int option \<Rightarrow> string"

text \<open>
  The server: the lists for the release, the events of an object, and the log of a container: an error,
  or its lines with the error that ends it.
\<close>

record dserver =
  dr_client :: "string option"
  dr_selector :: "string \<Rightarrow> string"
  dr_deployments :: "string \<Rightarrow> string + dworkload list"
  dr_replica_sets :: "string \<Rightarrow> string + dworkload list"
  dr_services :: "string \<Rightarrow> string + dservice list"
  dr_pods :: "string \<Rightarrow> string + dpod list"
  dr_events :: "string \<Rightarrow> string \<Rightarrow> string + devent list"
  dr_log :: "string \<Rightarrow> string \<Rightarrow> string \<Rightarrow> bool \<Rightarrow> string + string list \<times> string option"

section \<open>Containers and pods\<close>

definition state_text :: "dclock \<Rightarrow> dstate \<Rightarrow> string" where
  "state_text ck s =
     (case ds_waiting s of
        Some (reason, message) \<Rightarrow> ''waiting reason='' @ empty_dash reason @ '' message='' @ one_line message message_len
      | None \<Rightarrow>
          (case ds_running s of
             Some t \<Rightarrow> ''running startedAt='' @ dl_seconds ck t
           | None \<Rightarrow>
               (case ds_terminated s of
                  Some t \<Rightarrow> ''terminated reason='' @ empty_dash (dt_reason t) @ '' exitCode='' @ itoa (dt_exit t) @
                    '' signal='' @ itoa (dt_signal t) @ '' finishedAt='' @ dl_seconds ck (dt_finished t) @
                    '' message='' @ one_line (dt_message t) message_len
                | None \<Rightarrow> ''none'')))"

definition truth :: "bool \<Rightarrow> string" where "truth b = (if b then ''true'' else ''false'')"

definition container_lines :: "dclock \<Rightarrow> string \<Rightarrow> dcontainer \<Rightarrow> string list" where
  "container_lines ck kind s =
     (let last_state = state_text ck (dk_last s) in
      [''    '' @ kind @ '' '' @ dk_name s @ '': ready='' @ truth (dk_ready s) @ '' restarts='' @ itoa (dk_restarts s) @
         '' state='' @ state_text ck (dk_state s)] @
      (if last_state \<noteq> ''none'' then [''      lastState='' @ last_state] else []))"

definition ready_containers :: "dpod \<Rightarrow> nat" where
  "ready_containers p = length (filter dk_ready (dp_statuses p))"

text \<open>Restarts are counted in 32 bits.\<close>

definition wrap32 :: "int \<Rightarrow> int" where
  "wrap32 i = (i + 2 ^ 31) mod 2 ^ 32 - 2 ^ 31"

definition restart_count :: "dpod \<Rightarrow> int" where
  "restart_count p = foldl (\<lambda>n s. wrap32 (n + dk_restarts s)) 0 (dp_init p @ dp_statuses p)"

definition condition_line :: "dcondition \<Rightarrow> string" where
  "condition_line c =
     ''    condition '' @ dc_type c @ ''='' @ dc_status c @ '' reason='' @ empty_dash (dc_reason c) @
     '' message='' @ one_line (dc_message c) message_len"

definition pod_lines :: "dclock \<Rightarrow> dpod \<Rightarrow> string list" where
  "pod_lines ck p =
     [''  Pod '' @ dp_name p @ '': phase='' @ dp_phase p @ '' ready='' @ itoa (int (ready_containers p)) @ ''/'' @
        itoa (int (dp_containers p)) @ '' restarts='' @ itoa (restart_count p) @ '' node='' @ empty_dash (dp_node p) @
        '' podIP='' @ empty_dash (dp_ip p) @ '' reason='' @ empty_dash (dp_reason p) @
        '' message='' @ one_line (dp_message p) message_len] @
     map condition_line (dp_conditions p) @
     concat (map (container_lines ck ''init container'') (dp_init p)) @
     concat (map (container_lines ck ''container'') (dp_statuses p))"

section \<open>Workloads and services\<close>

definition desired_replicas :: "dworkload \<Rightarrow> int" where
  "desired_replicas w = (case dw_replicas w of Some n \<Rightarrow> n | None \<Rightarrow> 1)"

definition deployment_lines :: "dworkload \<Rightarrow> string list" where
  "deployment_lines w =
     [''  Deployment '' @ dw_name w @ '': ready='' @ itoa (dw_ready w) @ ''/'' @ itoa (desired_replicas w) @
        '' available='' @ itoa (dw_available w) @ '' updated='' @ itoa (dw_updated w) @
        '' observedGeneration='' @ itoa (dw_observed w) @ '' generation='' @ itoa (dw_generation w)] @
     map condition_line (dw_conditions w)"

definition replica_set_lines :: "dworkload \<Rightarrow> string list" where
  "replica_set_lines w =
     [''  ReplicaSet '' @ dw_name w @ '': ready='' @ itoa (dw_ready w) @ ''/'' @ itoa (desired_replicas w) @
        '' available='' @ itoa (dw_available w) @
        '' observedGeneration='' @ itoa (dw_observed w) @ '' generation='' @ itoa (dw_generation w)] @
     map condition_line (dw_conditions w)"

definition port_text :: "dport \<Rightarrow> string" where
  "port_text p =
     (let t = do_protocol p @ ''/'' @ itoa (do_port p) @ ''->'' @ do_target p in
      if do_node_port p \<noteq> 0 then t @ '' nodePort='' @ itoa (do_node_port p) else t)"

text \<open>A map prints with its keys in order: the selector lists its entries so.\<close>

definition service_lines :: "dservice \<Rightarrow> string list" where
  "service_lines v =
     [''  Service '' @ dv_name v @ '': type='' @ dv_type v @ '' clusterIP='' @ dv_ip v @
        '' ports=['' @ join '', '' (map port_text (dv_ports v)) @ ''] selector=map['' @
        join '' '' (map (\<lambda>(k, x). k @ '':'' @ x) (dv_selector v)) @ '']'']"

section \<open>Logs\<close>

definition failed_log_source :: "dcontainer \<Rightarrow> bool option" where
  "failed_log_source s =
     (case ds_waiting (dk_state s) of
        Some (reason, _) \<Rightarrow>
          if reason \<in> {''CrashLoopBackOff'', ''RunContainerError'', ''CreateContainerConfigError''} then Some (dk_restarts s > 0)
          else (case ds_terminated (dk_state s) of Some t \<Rightarrow> if dt_exit t \<noteq> 0 then Some False else None | None \<Rightarrow> None)
      | None \<Rightarrow> (case ds_terminated (dk_state s) of Some t \<Rightarrow> if dt_exit t \<noteq> 0 then Some False else None | None \<Rightarrow> None))"

definition keep_last :: "nat \<Rightarrow> string list \<Rightarrow> string \<Rightarrow> string list" where
  "keep_last n kept line =
     (let kept = kept @ [line] in if length kept > n then tl kept else kept)"

definition log_tail :: "string + string list \<times> string option \<Rightarrow> string + string" where
  "log_tail stream =
     (case stream of
        Inl e \<Rightarrow> Inl e
      | Inr (ls, ended) \<Rightarrow>
          (let kept = foldl (keep_last 12) [] (filter (\<lambda>l. trim_space l \<noteq> []) (map (\<lambda>l. trim_right_set l [CHR 0x0D]) ls)) in
           if ended \<noteq> None \<and> kept = [] then Inl (the ended) else Inr (join [newline] kept)))"

text \<open>The lines for one pod: of its first container whose log says something, or cannot be read.\<close>

fun pod_log_lines :: "(string \<Rightarrow> bool \<Rightarrow> string + string list \<times> string option) \<Rightarrow> string \<Rightarrow> dcontainer list \<Rightarrow> string list option" where
  "pod_log_lines log pod [] = None"
| "pod_log_lines log pod (s # ss) =
     (case failed_log_source s of
        None \<Rightarrow> pod_log_lines log pod ss
      | Some previous \<Rightarrow>
          (case log_tail (log (dk_name s) previous) of
             Inl e \<Rightarrow> Some [''    could not read the log of container '' @ dk_name s @ '' in '' @ pod @ '': '' @ one_line e message_len]
           | Inr tail \<Rightarrow>
               if tail = [] then pod_log_lines log pod ss
               else Some ((''    last log lines of container '' @ dk_name s @ '' in '' @ pod @ '':'') #
                 map (\<lambda>l. ''      '' @ one_line l message_len) (split_on newline tail))))"

fun log_lines :: "(string \<Rightarrow> string \<Rightarrow> bool \<Rightarrow> string + string list \<times> string option) \<Rightarrow> nat \<Rightarrow> dpod list \<Rightarrow> string list" where
  "log_lines log reported [] = []"
| "log_lines log reported (p # ps) =
     (if reported \<ge> 3 then []
      else
        (case pod_log_lines (log (dp_name p)) (dp_name p) (dp_init p @ dp_statuses p) of
           None \<Rightarrow> log_lines log reported ps
         | Some ls \<Rightarrow> ls @ log_lines log (Suc reported) ps))"

section \<open>Events\<close>

definition devent_time :: "devent \<Rightarrow> int option" where
  "devent_time e =
     (if de_last e \<noteq> None then de_last e else if de_time e \<noteq> None then de_time e
      else if de_first e \<noteq> None then de_first e else de_created e)"

text \<open>The zero time is before every other.\<close>

definition instant :: "int option \<Rightarrow> int \<times> int" where
  "instant t = (case t of None \<Rightarrow> (0, 0) | Some n \<Rightarrow> (1, n))"

definition earlier :: "devent \<Rightarrow> devent \<Rightarrow> bool" where
  "earlier a b \<longleftrightarrow> fst (instant (devent_time a)) < fst (instant (devent_time b)) \<or>
     fst (instant (devent_time a)) = fst (instant (devent_time b)) \<and> snd (instant (devent_time a)) < snd (instant (devent_time b))"

fun insert_event :: "devent \<Rightarrow> devent list \<Rightarrow> devent list" where
  "insert_event e [] = [e]"
| "insert_event e (x # xs) = (if earlier e x then e # x # xs else x # insert_event e xs)"

definition sorted_events :: "devent list \<Rightarrow> devent list" where
  "sorted_events es = foldl (\<lambda>xs e. insert_event e xs) [] es"

definition event_key :: "dclock \<Rightarrow> devent \<Rightarrow> string" where
  "event_key ck e =
     (if de_uid e \<noteq> [] then de_uid e
      else de_namespace e @ ''/'' @ de_kind e @ ''/'' @ de_name e @ ''/'' @ de_type e @ ''/'' @ de_reason e @ ''/'' @
        dl_nanos ck (devent_time e))"

definition event_line :: "dclock \<Rightarrow> devent \<Rightarrow> string" where
  "event_line ck e =
     ''    '' @ dl_seconds ck (devent_time e) @ '' '' @ de_type e @ '' '' @ de_reason e @ '' '' @ de_kind e @ ''/'' @ de_name e @
     '' count='' @ itoa (de_count e) @ '' message='' @ one_line (de_message e) event_len"

fun gather_events ::
  "dclock \<Rightarrow> (string \<Rightarrow> string + devent list) \<Rightarrow> string list \<Rightarrow> string list \<times> (string \<times> devent) list \<Rightarrow> string list \<times> (string \<times> devent) list" where
  "gather_events ck list [] acc = acc"
| "gather_events ck list (name # names) (lines, found) =
     (case list name of
        Inl e \<Rightarrow> gather_events ck list names (lines @ [''  list events for '' @ name @ '' failed: '' @ e], found)
      | Inr es \<Rightarrow> gather_events ck list names (lines, foldl (\<lambda>m e. AList.update (event_key ck e) e m) found es))"

definition event_lines :: "dclock \<Rightarrow> (string \<Rightarrow> string + devent list) \<Rightarrow> string \<Rightarrow> string list \<Rightarrow> string list" where
  "event_lines ck list release names =
     (case gather_events ck list names ([], []) of
        (lines, found) \<Rightarrow>
          (let matched = sorted_events (filter (\<lambda>e. de_name e \<in> set names \<or> contains (de_message e) release) (map snd found)) in
           if matched = [] then lines @ [''  no related events found'']
           else lines @ [''  recent related events:''] @ map (event_line ck) (drop (length matched - max_events) matched)))"

section \<open>The release\<close>

definition listed_lines :: "string \<Rightarrow> ('a \<Rightarrow> string list) \<Rightarrow> string + 'a list \<Rightarrow> string list" where
  "listed_lines kind f r =
     (case r of
        Inl e \<Rightarrow> [''  list '' @ kind @ '' failed: '' @ e]
      | Inr [] \<Rightarrow> [''  no '' @ kind @ '' found for release'']
      | Inr xs \<Rightarrow> concat (map f xs))"

definition names_in :: "('a \<Rightarrow> string) \<Rightarrow> string + 'a list \<Rightarrow> string list" where
  "names_in f r = (case r of Inl _ \<Rightarrow> [] | Inr xs \<Rightarrow> filter (\<lambda>n. n \<noteq> []) (map f xs))"

definition release_diagnostics :: "dclock \<Rightarrow> dserver \<Rightarrow> string \<Rightarrow> string \<Rightarrow> string list" where
  "release_diagnostics ck sv release namespace0 =
     (case dr_client sv of
        Some e \<Rightarrow> [''Helm release diagnostics unavailable: '' @ e]
      | None \<Rightarrow>
          (let namespace = (if namespace0 = [] then ''default'' else namespace0);
               deployments = dr_deployments sv namespace; sets = dr_replica_sets sv namespace;
               services = dr_services sv namespace; pods = dr_pods sv namespace;
               names = remdups (release # names_in dw_name deployments @ names_in dw_name sets @
                 names_in dv_name services @ names_in dp_name pods)
           in [''Helm release diagnostics for '' @ namespace @ ''/'' @ release @ '':'',
               ''  selector: '' @ dr_selector sv release] @
              listed_lines ''deployments'' deployment_lines deployments @
              listed_lines ''replicasets'' replica_set_lines sets @
              listed_lines ''services'' service_lines services @
              listed_lines ''pods'' (pod_lines ck) pods @
              (case pods of Inl _ \<Rightarrow> [] | Inr ps \<Rightarrow> log_lines (dr_log sv namespace) 0 ps) @
              event_lines ck (dr_events sv namespace) release names))"

definition with_diagnostics :: "dclock \<Rightarrow> dserver \<Rightarrow> string \<Rightarrow> string \<Rightarrow> string option \<Rightarrow> string option" where
  "with_diagnostics ck sv release namespace err =
     (case err of
        None \<Rightarrow> None
      | Some e \<Rightarrow>
          (let ls = release_diagnostics ck sv release namespace in
           if ls = [] then Some e else Some (e @ newline # join [newline] ls)))"


section \<open>One line each, the latest events\<close>

lemma fields_from_single: "newline \<notin> set acc \<Longrightarrow> \<forall>w \<in> set (fields_from acc s). newline \<notin> set w \<and> w \<noteq> []"
proof (induction acc s rule: fields_from.induct)
  case (1 acc s)
  show ?case
  proof (cases "s = []")
    case True
    with 1(3) show ?thesis by (subst fields_from.simps) simp
  next
    case False
    then obtain c t where s: "s = c # t" by (cases s) auto
    show ?thesis
    proof (cases "find (has_prefix s) space_encodings")
      case None
      moreover have "[newline] \<in> set space_encodings" by (simp add: space_encodings_def)
      ultimately have "\<not> has_prefix s [newline]" by (auto simp: find_None_iff)
      then have "c \<noteq> newline" by (simp add: s)
      with 1(1) [OF False None] 1(3) None False s show ?thesis by (subst fields_from.simps) simp
    next
      case (Some w)
      with 1(2) [OF False Some] 1(3) False show ?thesis by (subst fields_from.simps) simp
    qed
  qed
qed

lemma one_line_single: "newline \<notin> set (one_line s n)" and one_line_length: "0 < n \<Longrightarrow> length (one_line s n) \<le> n"
proof -
  have "newline \<notin> set (join sep ws)" if "newline \<notin> set sep" "\<forall>w \<in> set ws. newline \<notin> set w" for sep and ws :: "string list"
    using that by (induction sep ws rule: join.induct) auto
  then have "newline \<notin> set (join '' '' (white_fields s))"
    using fields_from_single [of "[]" s] by (simp add: white_fields_def)
  then show "newline \<notin> set (one_line s n)"
    by (auto simp: one_line_def Let_def dest: in_set_takeD)
  show "0 < n \<Longrightarrow> length (one_line s n) \<le> n"
    by (auto simp: one_line_def Let_def)
qed

lemma mset_insert_event: "mset (insert_event e xs) = add_mset e (mset xs)"
  by (induction xs) auto

lemma sorted_insert_event: "sorted_wrt (\<lambda>a b. \<not> earlier b a) xs \<Longrightarrow> sorted_wrt (\<lambda>a b. \<not> earlier b a) (insert_event e xs)"
proof (induction xs)
  case (Cons x xs)
  have "set (insert_event e xs) = insert e (set xs)"
    using mset_insert_event [of e xs] by (metis set_mset_add_mset_insert set_mset_mset)
  with Cons show ?case by (auto simp: earlier_def)
qed simp

lemma sorted_events: "sorted_wrt (\<lambda>a b. \<not> earlier b a) (sorted_events es)" "mset (sorted_events es) = mset es"
proof -
  have "sorted_wrt (\<lambda>a b. \<not> earlier b a) (foldl (\<lambda>xs e. insert_event e xs) xs es) \<and>
      mset (foldl (\<lambda>xs e. insert_event e xs) xs es) = mset xs + mset es"
    if "sorted_wrt (\<lambda>a b. \<not> earlier b a) xs" for xs
    using that by (induction es arbitrary: xs) (simp_all add: sorted_insert_event mset_insert_event)
  from this [of "[]"] show "sorted_wrt (\<lambda>a b. \<not> earlier b a) (sorted_events es)" "mset (sorted_events es) = mset es"
    by (simp_all add: sorted_events_def)
qed

end
