(* ===== verification/GoDuration.thy ===== *)
theory GoDuration
  imports GoFloat
begin

text \<open>
  Durations of Go's \<^verbatim>\<open>time\<close>, in nanoseconds: \<^verbatim>\<open>ParseDuration\<close> with its whole grammar and its bounds, and
  the text of a whole number of seconds. An error of the parser is the part of its text before the quoted
  input; a rejected unit is quoted too.
\<close>

datatype duration_error = Invalid_duration | Missing_unit | Unknown_unit string

definition unit_ns :: "string \<Rightarrow> nat option" where
  "unit_ns u =
     map_of [(''ns'', 1), (''us'', 1000), ([CHR 0xC2, CHR 0xB5] @ ''s'', 1000), ([CHR 0xCE, CHR 0xBC] @ ''s'', 1000),
       (''ms'', 1000000), (''s'', 1000000000), (''m'', 60000000000), (''h'', 3600000000000)] u"

text \<open>Digits at the front, until the value is beyond \<open>2^63\<close>: then None.\<close>

fun leading_int :: "nat \<Rightarrow> string \<Rightarrow> (nat \<times> string) option" where
  "leading_int x [] = Some (x, [])"
| "leading_int x (c # s) =
     (if \<not> is_digit c then Some (x, c # s)
      else if x > 2 ^ 63 div 10 then None
      else (let y = x * 10 + digit_val c in if y > 2 ^ 63 then None else leading_int y s))"

text \<open>Digits of a fraction with the number of those that count; the rest are skipped once it is too long.\<close>

fun leading_fraction :: "nat \<Rightarrow> nat \<Rightarrow> bool \<Rightarrow> string \<Rightarrow> nat \<times> nat \<times> string" where
  "leading_fraction x k over [] = (x, k, [])"
| "leading_fraction x k over (c # s) =
     (if \<not> is_digit c then (x, k, c # s)
      else if over then leading_fraction x k True s
      else if x > (2 ^ 63 - 1) div 10 then leading_fraction x k True s
      else (let y = x * 10 + digit_val c in
            if y > 2 ^ 63 then leading_fraction x k True s else leading_fraction y (Suc k) False s))"

definition f_times :: "f64 \<Rightarrow> f64 \<Rightarrow> f64" where
  "f_times a b =
     (case (a, b) of
        (F_Fin s m e, F_Fin t n f) \<Rightarrow>
          if 0 \<le> e + f then f_make (s \<noteq> t) (m * n * 2 ^ nat (e + f)) 1 else f_make (s \<noteq> t) (m * n) (2 ^ nat (- (e + f)))
      | _ \<Rightarrow> F_NaN)"

definition fraction_ns :: "nat \<Rightarrow> nat \<Rightarrow> nat \<Rightarrow> nat" where
  "fraction_ns f k ns =
     (case f_trunc (f_times (f_of_int (int f)) (f_make False ns (10 ^ k))) of Some i \<Rightarrow> nat i | None \<Rightarrow> 0)"

definition unit_end :: "char \<Rightarrow> bool" where "unit_end c \<longleftrightarrow> c = CHR ''.'' \<or> is_digit c"

text \<open>One number with its unit.\<close>

definition scan_part :: "string \<Rightarrow> duration_error + nat \<times> string" where
  "scan_part s =
     (if s = [] \<or> \<not> unit_end (hd s) then Inl Invalid_duration
      else
        (case leading_int 0 s of
           None \<Rightarrow> Inl Invalid_duration
         | Some (v, s1) \<Rightarrow>
             (let pre = length s1 \<noteq> length s;
                  (f, k, s2) = (if s1 \<noteq> [] \<and> hd s1 = CHR ''.'' then leading_fraction 0 0 False (tl s1) else (0, 0, s1));
                  post = (s1 \<noteq> [] \<and> hd s1 = CHR ''.'' \<and> length s2 \<noteq> length (tl s1));
                  u = takeWhile (\<lambda>c. \<not> unit_end c) s2
              in if \<not> pre \<and> \<not> post then Inl Invalid_duration
                 else if u = [] then Inl Missing_unit
                 else
                   (case unit_ns u of
                      None \<Rightarrow> Inl (Unknown_unit u)
                    | Some ns \<Rightarrow>
                        if v > 2 ^ 63 div ns then Inl Invalid_duration
                        else
                          (let w = v * ns + (if f > 0 then fraction_ns f k ns else 0) in
                           if f > 0 \<and> w > 2 ^ 63 then Inl Invalid_duration
                           else Inr (w, drop (length u) s2))))))"

lemma leading_int_length: "leading_int x s = Some (v, t) \<Longrightarrow> length t \<le> length s"
  by (induction x s rule: leading_int.induct) (auto simp: Let_def split: if_splits)

lemma leading_fraction_length: "leading_fraction x k over s = (f, k', t) \<Longrightarrow> length t \<le> length s"
proof (induction x k over s rule: leading_fraction.induct)
  case (2 x k over c s)
  then show ?case by (auto simp: Let_def split: if_splits intro: le_SucI)
qed simp

lemma scan_part_shorter: "scan_part s = Inr (n, t) \<Longrightarrow> length t < length s"
proof -
  assume a: "scan_part s = Inr (n, t)"
  then obtain v s1 where s1: "leading_int 0 s = Some (v, s1)"
    by (auto simp: scan_part_def split: if_splits option.splits)
  obtain f k s2 where s2: "(if s1 \<noteq> [] \<and> hd s1 = CHR ''.'' then leading_fraction 0 0 False (tl s1) else (0, 0, s1)) = (f, k, s2)"
    by (metis prod_cases3)
  let ?u = "takeWhile (\<lambda>c. \<not> unit_end c) s2"
  have "length s2 \<le> length s1"
  proof (cases "s1 \<noteq> [] \<and> hd s1 = CHR ''.''")
    case True
    with s2 leading_fraction_length [of 0 0 False "tl s1" f k s2] show ?thesis by auto
  next
    case False
    with s2 show ?thesis by (simp split: if_splits)
  qed
  with leading_int_length [OF s1] have "length s2 \<le> length s" by simp
  moreover from a s1 s2 have "?u \<noteq> []" "t = drop (length ?u) s2"
    by (auto simp: scan_part_def Let_def split: if_splits option.splits)
  ultimately show ?thesis by (cases s2) auto
qed

function scan_parts :: "nat \<Rightarrow> string \<Rightarrow> duration_error + nat" where
  "scan_parts d s =
     (if s = [] then Inr d
      else
        (case scan_part s of
           Inl e \<Rightarrow> Inl e
         | Inr (n, t) \<Rightarrow> if d + n > 2 ^ 63 then Inl Invalid_duration else scan_parts (d + n) t))"
  by pat_completeness auto
termination by (relation "measure (\<lambda>(d, s). length s)") (auto dest: scan_part_shorter)

declare scan_parts.simps [simp del]

definition parse_duration :: "string \<Rightarrow> duration_error + int" where
  "parse_duration s =
     (let neg = (s \<noteq> [] \<and> hd s = CHR ''-''); t = (if s \<noteq> [] \<and> (hd s = CHR ''-'' \<or> hd s = CHR ''+'') then tl s else s) in
      if t = ''0'' then Inr 0
      else if t = [] then Inl Invalid_duration
      else
        (case scan_parts 0 t of
           Inl e \<Rightarrow> Inl e
         | Inr d \<Rightarrow> if neg then Inr (- int d) else if d > 2 ^ 63 - 1 then Inl Invalid_duration else Inr (int d)))"

text \<open>\<^verbatim>\<open>Round(time.Second)\<close> and the text of the result, for what is not negative.\<close>

definition round_second :: "int \<Rightarrow> int" where
  "round_second d = (let r = d mod 1000000000 in if r + r < 1000000000 then d - r else d + 1000000000 - r)"

definition show_seconds :: "int \<Rightarrow> string" where
  "show_seconds d =
     (let n = d div 1000000000; h = n div 3600; m = n div 60 mod 60; s = n mod 60 in
      (if h > 0 then itoa h @ ''h'' else []) @ (if n \<ge> 60 then itoa m @ ''m'' else []) @ itoa s @ ''s'')"

end
