(* ===== verification/HelmGuards.thy ===== *)
theory HelmGuards
  imports HelmCompat HelmDiagnostics GoDuration Manifests
begin

text \<open>
  What surrounds an install or an uninstall: the timeouts, the check of the nodes before it
  (store/helm\_install.go, store/helm\_preflight.go), the watch that ends a hopeless wait
  (store/helm\_failfast.go), the cleanup of what failed, the volumes an uninstall may delete
  (store/helm\_uninstall\_data.go), and the images of a manifest (store/helm\_images.go,
  store/helm\_image\_warnings.go). Helm's actions, the API server, YAML, the configuration and how an error
  prints are parameters.
\<close>

section \<open>Timeouts\<close>

definition seconds :: "int \<Rightarrow> int" where "seconds n = n * 1000000000"

definition default_install_timeout :: int where "default_install_timeout = seconds (20 * 60)"

definition install_deadline :: "int \<Rightarrow> int" where
  "install_deadline timeout = seconds (2 * 60) + seconds (2 * 60) + timeout + seconds 15"

definition duration_text :: "(string \<Rightarrow> string) \<Rightarrow> string \<Rightarrow> duration_error \<Rightarrow> string" where
  "duration_text quote raw e =
     (case e of
        Invalid_duration \<Rightarrow> ''time: invalid duration '' @ quote raw
      | Missing_unit \<Rightarrow> ''time: missing unit in duration '' @ quote raw
      | Unknown_unit u \<Rightarrow> ''time: unknown unit '' @ quote u @ '' in duration '' @ quote raw)"

definition parse_install_timeout :: "(string \<Rightarrow> string) \<Rightarrow> string \<Rightarrow> string + int" where
  "parse_install_timeout quote raw0 =
     (let raw = trim_space raw0 in
      if raw = [] then Inr default_install_timeout
      else
        (case parse_duration raw of
           Inl e \<Rightarrow> Inl (''invalid helmInstallTimeout '' @ quote raw @ '': '' @ duration_text quote raw e)
         | Inr timeout \<Rightarrow> if timeout \<le> 0 then Inl ''helmInstallTimeout must be greater than zero'' else Inr timeout))"

definition uninstall_timeout :: "(string \<Rightarrow> string) \<Rightarrow> string \<Rightarrow> string \<Rightarrow> int" where
  "uninstall_timeout quote uninstall_raw install_raw =
     (case parse_install_timeout quote uninstall_raw of
        Inr timeout \<Rightarrow> timeout
      | Inl _ \<Rightarrow> (case parse_install_timeout quote install_raw of Inl _ \<Rightarrow> default_install_timeout | Inr timeout \<Rightarrow> timeout))"

section \<open>The nodes\<close>

text \<open>A condition: its type, its status, and since when, None the zero time.\<close>

record hnode =
  hn_unschedulable :: bool
  hn_conditions :: "(string \<times> string \<times> int option) list"

definition node_readiness :: "hnode \<Rightarrow> bool \<times> int option" where
  "node_readiness n =
     (case find (\<lambda>(t, _). t = ''Ready'') (hn_conditions n) of
        None \<Rightarrow> (False, None)
      | Some (_, status, since) \<Rightarrow> (status = ''True'', since))"

definition settle_grace :: int where "settle_grace = seconds (2 * 60)"

definition settling_node :: "int \<Rightarrow> int option \<Rightarrow> bool" where
  "settling_node now since = (case since of None \<Rightarrow> True | Some t \<Rightarrow> now - t < settle_grace)"

definition nodes_text :: "int \<Rightarrow> int \<Rightarrow> string" where
  "nodes_text cordoned not_ready =
     ''no Kubernetes node can run this app ('' @ itoa cordoned @ '' cordoned, '' @ itoa not_ready @
     '' not ready); uncordon or repair a worker node before installing''"

fun scan_nodes :: "int \<Rightarrow> int \<Rightarrow> int \<Rightarrow> bool \<Rightarrow> hnode list \<Rightarrow> string \<times> bool" where
  "scan_nodes now cordoned not_ready settling [] = (nodes_text cordoned not_ready, settling)"
| "scan_nodes now cordoned not_ready settling (n # ns) =
     (if hn_unschedulable n then scan_nodes now (cordoned + 1) not_ready settling ns
      else
        (case node_readiness n of
           (ready, since) \<Rightarrow>
             if ready then ([], False)
             else scan_nodes now cordoned (not_ready + 1) (settling \<or> settling_node now since) ns))"

definition node_problem :: "hnode list \<Rightarrow> int \<Rightarrow> string \<times> bool" where
  "node_problem nodes now =
     (if nodes = [] then
        (''no Kubernetes nodes are registered, so this app has nowhere to run; add a worker node before installing'', False)
      else scan_nodes now 0 0 False nodes)"

text \<open>The nodes, or the error of the client or the list: the warning and the refusal.\<close>

definition validate_nodes :: "string + hnode list \<Rightarrow> int \<Rightarrow> string option \<times> string option" where
  "validate_nodes nodes now =
     (case nodes of
        Inl e \<Rightarrow> (Some (''skipped the node preflight check: '' @ e), None)
      | Inr ns \<Rightarrow>
          (case node_problem ns now of
             (problem, settling) \<Rightarrow>
               if problem = [] then (None, None)
               else if settling then (Some problem, None)
               else (None, Some problem)))"

section \<open>Failing fast\<close>

definition restart_threshold :: int where "restart_threshold = 3"

definition crash_reason :: "dpod \<Rightarrow> dcontainer \<Rightarrow> string option" where
  "crash_reason p s =
     (case ds_waiting (dk_state s) of
        None \<Rightarrow> None
      | Some (reason, _) \<Rightarrow>
          if reason \<noteq> ''CrashLoopBackOff'' \<or> dk_restarts s < restart_threshold then None
          else Some (''container '' @ dk_name s @ '' in pod '' @ dp_name p @ '' has restarted '' @ itoa (dk_restarts s) @
            '' times and is in CrashLoopBackOff, so the install stopped waiting for it''))"

definition fail_fast_reason :: "dpod list \<Rightarrow> string" where
  "fail_fast_reason pods =
     (case List.map_filter (\<lambda>(p, s). crash_reason p s) (concat (map (\<lambda>p. map (Pair p) (dp_init p @ dp_statuses p)) pods)) of
        [] \<Rightarrow> [] | r # _ \<Rightarrow> r)"

text \<open>The lists of the pods, tick by tick until the watch is stopped; one that failed is skipped.\<close>

fun watch_reason :: "(string + dpod list) list \<Rightarrow> string" where
  "watch_reason [] = []"
| "watch_reason (Inl _ # ticks) = watch_reason ticks"
| "watch_reason (Inr pods # ticks) = (if fail_fast_reason pods \<noteq> [] then fail_fast_reason pods else watch_reason ticks)"

definition with_fail_fast :: "failure option \<Rightarrow> string \<Rightarrow> failure option" where
  "with_fail_fast err reason =
     (if err = None \<or> reason = [] then err else Some (plain reason))"

section \<open>Cleaning up\<close>

record hrelease =
  rl_name :: string
  rl_version :: int
  rl_status :: "string option"

definition should_cleanup :: "hrelease option \<Rightarrow> hrelease option \<Rightarrow> bool" where
  "should_cleanup failed current =
     (case (failed, current) of
        (Some f, Some c) \<Rightarrow>
          rl_status f = Some ''failed'' \<and> rl_status c \<noteq> None \<and> rl_name f = rl_name c \<and> rl_version f = rl_version c \<and>
          rl_status c \<in> {Some ''failed'', Some ''pending-install''}
      | _ \<Rightarrow> False)"

text \<open>Helm's store and its uninstall action, on a state of the cluster.\<close>

record 'w helm_store_api =
  hs_last :: "string \<Rightarrow> 'w \<Rightarrow> failure + hrelease"
  hs_uninstall :: "string \<Rightarrow> int \<Rightarrow> 'w \<Rightarrow> failure option \<times> 'w"

definition cleanup_failed :: "'w helm_store_api \<Rightarrow> string \<Rightarrow> int \<Rightarrow> hrelease option \<Rightarrow> 'w \<Rightarrow> failure option \<times> 'w" where
  "cleanup_failed api release timeout failed w =
     (case failed of
        None \<Rightarrow> (None, w)
      | Some f \<Rightarrow>
          if rl_status f \<noteq> Some ''failed'' then (None, w)
          else
            (case hs_last api release w of
               Inl e \<Rightarrow> (if fl_no_release e then None else Some (wrap_error ''verify failed Helm release before cleanup'' e), w)
             | Inr current \<Rightarrow>
                 if \<not> should_cleanup failed (Some current) then (None, w)
                 else
                   (case hs_uninstall api release timeout w of
                      (Some e, w') \<Rightarrow> (if fl_no_release e then None else Some e, w')
                    | (None, w') \<Rightarrow> (None, w'))))"

definition finish_failed :: "(failure \<Rightarrow> 'w \<Rightarrow> failure \<times> 'w) option \<Rightarrow> ('w \<Rightarrow> failure option \<times> 'w) \<Rightarrow> failure \<Rightarrow> 'w \<Rightarrow> failure \<times> 'w" where
  "finish_failed diagnose cleanup err w =
     (case (case diagnose of None \<Rightarrow> (err, w) | Some d \<Rightarrow> d err w) of
        (e, w1) \<Rightarrow>
          (case cleanup w1 of
             (Some c, w2) \<Rightarrow> (e\<lparr>fl_text := ''Helm install failed: '' @ fl_text e @ newline # ''Cleanup warning: '' @ fl_text c\<rparr>, w2)
           | (None, w2) \<Rightarrow> (wrap_error ''Helm install failed'' e, w2)))"

section \<open>The volumes of a release\<close>

definition claim_labels :: "string list" where
  "claim_labels = [''app.kubernetes.io/instance'', ''release'', ''app'']"

text \<open>The claims of the namespace with a label of a value, by their names; and deleting one.\<close>

record 'w claim_api =
  cm_client :: "string option"
  cm_list :: "string \<Rightarrow> string \<Rightarrow> 'w \<Rightarrow> string + string list"
  cm_delete :: "string \<Rightarrow> 'w \<Rightarrow> failure option \<times> 'w"

fun gather_claims :: "'w claim_api \<Rightarrow> string \<Rightarrow> 'w \<Rightarrow> string list \<Rightarrow> string list \<Rightarrow> string + string list" where
  "gather_claims api release w seen [] = Inr seen"
| "gather_claims api release w seen (label # labels) =
     (case cm_list api label release w of
        Inl e \<Rightarrow> Inl (''list the claims of release '' @ release @ '': '' @ e)
      | Inr names \<Rightarrow> gather_claims api release w (uniq_onto seen names) labels)"

definition release_claims :: "'w claim_api \<Rightarrow> string \<Rightarrow> 'w \<Rightarrow> string + string list" where
  "release_claims api release w =
     (case cm_client api of
        Some e \<Rightarrow> Inl (''list the claims of release '' @ release @ '': '' @ e)
      | None \<Rightarrow> (case gather_claims api release w [] claim_labels of Inl e \<Rightarrow> Inl e | Inr names \<Rightarrow> Inr (sort names)))"

fun delete_each :: "'w claim_api \<Rightarrow> string list \<Rightarrow> string list \<Rightarrow> 'w \<Rightarrow> string list \<times> 'w" where
  "delete_each api failed [] w = (failed, w)"
| "delete_each api failed (name # names) w =
     (case cm_delete api name w of
        (None, w') \<Rightarrow> delete_each api failed names w'
      | (Some e, w') \<Rightarrow>
          delete_each api (if fl_missing e then failed else failed @ [name @ '' ('' @ fl_text e @ '')'']) names w')"

definition delete_claims :: "'w claim_api \<Rightarrow> string list \<Rightarrow> 'w \<Rightarrow> failure option \<times> 'w" where
  "delete_claims api names w =
     (if names = [] then (None, w)
      else
        (case cm_client api of
           Some e \<Rightarrow> (Some (plain (''delete the claims of the uninstalled release: '' @ e)), w)
         | None \<Rightarrow>
             (case delete_each api [] names w of
                (failed, w') \<Rightarrow>
                  (if failed = [] then None
                   else Some (plain (''the app was uninstalled but these volumes could not be deleted: ['' @ join '' '' failed @ '']'')), w'))))"

definition uninstall_release ::
  "'w helm_store_api \<Rightarrow> 'w claim_api \<Rightarrow> failure option \<Rightarrow> string \<Rightarrow> int \<Rightarrow> bool \<Rightarrow> 'w \<Rightarrow> failure option \<times> 'w" where
  "uninstall_release api claims config_error release timeout delete_data w =
     (case config_error of
        Some e \<Rightarrow> (Some e, w)
      | None \<Rightarrow>
          (case (if delete_data then release_claims claims release w else Inr []) of
             Inl e \<Rightarrow> (Some (plain e), w)
           | Inr names \<Rightarrow>
               (case hs_uninstall api release timeout w of
                  (Some e, w') \<Rightarrow> (Some e, w')
                | (None, w') \<Rightarrow> if \<not> delete_data then (None, w') else delete_claims claims names w')))"

section \<open>Images\<close>

definition container_images :: "'r yaml \<Rightarrow> string \<Rightarrow> string list" where
  "container_images spec key =
     (case mapping_value (Some spec) key of
        None \<Rightarrow> []
      | Some cs \<Rightarrow>
          if yn_kind cs \<noteq> SequenceNode then []
          else filter (\<lambda>i. i \<noteq> [])
            (map (\<lambda>c. scalar_value (mapping_value (Some c) ''image'')) (filter (\<lambda>c. yn_kind c = MappingNode) (yn_content cs))))"

function document_images :: "'r yaml \<Rightarrow> string list" where
  "document_images document =
     (case document_root document of
        None \<Rightarrow> []
      | Some root \<Rightarrow>
          if yn_kind root \<noteq> MappingNode then []
          else if scalar_value (mapping_value (Some root) ''kind'') = ''List'' then
            (case mapping_value (Some root) ''items'' of
               None \<Rightarrow> []
             | Some l \<Rightarrow> if yn_kind l \<noteq> SequenceNode then [] else concat (map document_images (yn_content l)))
          else
            (case pod_spec_path (scalar_value (mapping_value (Some root) ''kind'')) of
               None \<Rightarrow> []
             | Some path \<Rightarrow>
                 (case nested_mapping root path of
                    None \<Rightarrow> []
                  | Some spec \<Rightarrow> concat (map (container_images spec) [''initContainers'', ''containers'', ''ephemeralContainers'']))))"
  by pat_completeness auto

termination
proof (relation "measure size", simp)
  fix document root l item :: "'r yaml"
  assume "document_root document = Some root" "\<not> yn_kind root \<noteq> MappingNode"
    "mapping_value (Some root) ''items'' = Some l" "item \<in> set (yn_content l)"
  then have "size item < size l" "size l < size root" "size root \<le> size document"
    by (auto simp: mapping_value_def content_size root_size dest: pair_value_mem)
  then show "(item, document) \<in> measure size" by simp
qed

declare document_images.simps [simp del]

text \<open>A document that does not parse is left out.\<close>

definition manifest_images :: "(string \<Rightarrow> string + 'r yaml) \<Rightarrow> string \<Rightarrow> string list" where
  "manifest_images decode manifest =
     concat (map (\<lambda>raw. case decode raw of Inl _ \<Rightarrow> [] | Inr d \<Rightarrow> document_images d) (manifest_documents manifest))"

definition unique_images :: "string list \<Rightarrow> string list" where
  "unique_images images = uniq_onto [] (filter (\<lambda>i. i \<noteq> []) images)"

text \<open>The reporter, nil or a function, and what the dry run on the client renders.\<close>

definition image_warnings ::
  "(string \<Rightarrow> string + 'r yaml) \<Rightarrow> (string list \<Rightarrow> string list) option \<Rightarrow> (failure + string) \<Rightarrow> string list" where
  "image_warnings decode report manifest =
     (case report of
        None \<Rightarrow> []
      | Some f \<Rightarrow>
          (case manifest of
             Inl _ \<Rightarrow> []
           | Inr text \<Rightarrow>
               (let images = unique_images (manifest_images decode text) in if images = [] then [] else f images)))"

section \<open>What the guards promise\<close>

lemma scan_nodes_result:
  "scan_nodes now cordoned not_ready settling ns =
     (if list_ex (\<lambda>n. \<not> hn_unschedulable n \<and> fst (node_readiness n)) ns then ([], False)
      else (nodes_text (cordoned + int (length (filter hn_unschedulable ns)))
              (not_ready + int (length (filter (\<lambda>n. \<not> hn_unschedulable n) ns))),
            settling \<or> list_ex (\<lambda>n. \<not> hn_unschedulable n \<and> settling_node now (snd (node_readiness n))) ns))"
  by (induction ns arbitrary: cordoned not_ready settling) (auto simp: ac_simps split: prod.split)

lemma nodes_text_nonempty [simp]: "nodes_text a b \<noteq> []"
  by (simp add: nodes_text_def)

text \<open>
  An install is refused for its nodes exactly when waiting cannot help: the list of the nodes was read,
  no node that may be scheduled on is ready, and none of those became unready less than two minutes ago or
  has yet to report. In all other cases the install goes on, at most with a warning.
\<close>

theorem refused_for_nodes:
  "snd (validate_nodes nodes now) \<noteq> None \<longleftrightarrow>
     (case nodes of
        Inl _ \<Rightarrow> False
      | Inr ns \<Rightarrow> list_all (\<lambda>n. hn_unschedulable n \<or> \<not> fst (node_readiness n) \<and>
          (case snd (node_readiness n) of None \<Rightarrow> False | Some since \<Rightarrow> now - since \<ge> 120000000000)) ns)"
proof (cases nodes)
  case (Inr ns)
  have "settling_node now since \<longleftrightarrow> \<not> (case since of None \<Rightarrow> False | Some t \<Rightarrow> now - t \<ge> 120000000000)" for since
    by (auto simp: settling_node_def settle_grace_def seconds_def split: option.split)
  with Inr show ?thesis
    by (auto simp: validate_nodes_def node_problem_def scan_nodes_result list_ex_iff list_all_iff split: if_splits)
qed (simp add: validate_nodes_def)

text \<open>
  C0: cleaning up removes nothing but the install that failed. The cluster changes only when Helm's last
  release of that name is the very release that failed, of the same version, and is still failed or
  pending; then it is uninstalled, once.
\<close>

theorem cleanup_only_failed:
  "snd (cleanup_failed api release timeout failed w) = w \<or>
   (\<exists>f c. failed = Some f \<and> hs_last api release w = Inr c \<and> rl_status f = Some ''failed'' \<and>
      rl_name c = rl_name f \<and> rl_version c = rl_version f \<and> rl_status c \<in> {Some ''failed'', Some ''pending-install''} \<and>
      snd (cleanup_failed api release timeout failed w) = snd (hs_uninstall api release timeout w))"
  by (auto simp: cleanup_failed_def should_cleanup_def split: option.splits sum.splits prod.splits)

lemma gather_claims_in:
  "gather_claims api release w seen labels = Inr names \<Longrightarrow>
   set names = set seen \<union> (\<Union>l \<in> set labels. case cm_list api l release w of Inl _ \<Rightarrow> {} | Inr ns \<Rightarrow> set ns)"
  by (induction api release w seen labels rule: gather_claims.induct) (auto split: sum.splits)

section \<open>What an uninstall deletes\<close>

text \<open>
  What the code relies on of the claims of a namespace: deleting one leaves the others as they are; without an error, or
  with the error that there is none, it is not there (any more, or but for its finalizers); an error may hide a deletion.
\<close>

locale claim_server =
  fixes C :: "'w claim_api" and live :: "'w \<Rightarrow> string \<Rightarrow> bool"
  assumes delete_other: "m \<noteq> n \<Longrightarrow> live (snd (cm_delete C n w)) m = live w m"
    and delete_done: "cm_delete C n w = (None, w') \<Longrightarrow> \<not> live w' n"
    and delete_missing: "cm_delete C n w = (Some e, w') \<Longrightarrow> fl_missing e \<Longrightarrow> \<not> live w' n"
    and delete_only: "live (snd (cm_delete C n w)) n \<Longrightarrow> live w n"
begin

lemma delete_each_spec:
  assumes "delete_each C failed names w = (failed', w')"
  shows "set failed \<subseteq> set failed' \<and> (\<forall>n. live w' n \<longrightarrow> live w n) \<and> (\<forall>n. n \<notin> set names \<longrightarrow> live w' n = live w n) \<and>
    (\<forall>n \<in> set names. live w' n \<longrightarrow> (\<exists>text. n @ '' ('' @ text \<in> set failed'))"
  using assms
proof (induction names arbitrary: failed w)
  case (Cons name names)
  obtain e w1 where d: "cm_delete C name w = (e, w1)" by force
  have other: "live w1 m = live w m" if "m \<noteq> name" for m using delete_other [OF that, of w] d by simp
  have only: "live w m" if "live w1 m" for m using that other delete_only [of name w] d by (cases "m = name") auto
  show ?case
  proof (cases e)
    case None
    from Cons.IH [of failed w1] Cons.prems d None
    have ih: "set failed \<subseteq> set failed'" "\<forall>n. live w' n \<longrightarrow> live w1 n" "\<forall>n. n \<notin> set names \<longrightarrow> live w' n = live w1 n"
      "\<forall>n \<in> set names. live w' n \<longrightarrow> (\<exists>text. n @ '' ('' @ text \<in> set failed')" by simp_all
    have gone: "\<not> live w1 name" using delete_done d None by simp
    show ?thesis
    proof (intro conjI allI ballI impI)
      fix n assume "n \<in> set (name # names)" "live w' n"
      then have "n \<in> set names" using gone ih(2) by auto
      then show "\<exists>text. n @ '' ('' @ text \<in> set failed'" using ih(4) \<open>live w' n\<close> by blast
    next
      fix n assume "n \<notin> set (name # names)"
      then show "live w' n = live w n" using ih(3) other [of n] by simp
    qed (use ih(1,2) only in blast)+
  next
    case (Some x)
    let ?f = "if fl_missing x then failed else failed @ [name @ '' ('' @ fl_text x @ '')'']"
    from Cons.IH [of ?f w1] Cons.prems d Some
    have ih: "set ?f \<subseteq> set failed'" "\<forall>n. live w' n \<longrightarrow> live w1 n" "\<forall>n. n \<notin> set names \<longrightarrow> live w' n = live w1 n"
      "\<forall>n \<in> set names. live w' n \<longrightarrow> (\<exists>text. n @ '' ('' @ text \<in> set failed')" by simp_all
    have told: "\<exists>text. name @ '' ('' @ text \<in> set failed'" if "live w' name"
    proof -
      have "live w1 name" using that ih(2) by blast
      then have "\<not> fl_missing x" using delete_missing d Some by blast
      then have "name @ '' ('' @ (fl_text x @ '')'') \<in> set failed'" using ih(1) by simp
      then show ?thesis by blast
    qed
    have sub: "set failed \<subseteq> set failed'" using ih(1) by (simp split: if_splits)
    show ?thesis
    proof (intro conjI allI ballI impI)
      fix n assume n: "n \<in> set (name # names)" "live w' n"
      show "\<exists>text. n @ '' ('' @ text \<in> set failed'"
      proof (cases "n = name")
        case True
        then show ?thesis using told n(2) by simp
      next
        case False
        then show ?thesis using ih(4) n by simp
      qed
    next
      fix n assume "n \<notin> set (name # names)"
      then show "live w' n = live w n" using ih(3) other [of n] by simp
    qed (use sub ih(2) only in blast)+
  qed
qed simp

end

text \<open>The claims a label of the release names, and whether they can be listed.\<close>

definition listed_claim :: "'w claim_api \<Rightarrow> string \<Rightarrow> 'w \<Rightarrow> string \<Rightarrow> bool" where
  "listed_claim api release w n \<longleftrightarrow>
     list_ex (\<lambda>l. case cm_list api l release w of Inl _ \<Rightarrow> False | Inr ns \<Rightarrow> n \<in> set ns) [''app.kubernetes.io/instance'', ''release'', ''app'']"

definition listing_fails :: "'w claim_api \<Rightarrow> string \<Rightarrow> 'w \<Rightarrow> bool" where
  "listing_fails api release w \<longleftrightarrow>
     cm_client api \<noteq> None \<or> list_ex (\<lambda>l. isl (cm_list api l release w)) [''app.kubernetes.io/instance'', ''release'', ''app'']"

lemma gather_claims_fails:
  "(\<exists>e. gather_claims api release w seen labels = Inl e) \<longleftrightarrow> list_ex (\<lambda>l. isl (cm_list api l release w)) labels"
  by (induction api release w seen labels rule: gather_claims.induct) (auto split: sum.splits)

lemma release_claims_cases:
  "if listing_fails api release w then \<exists>e. release_claims api release w = Inl e
   else cm_client api = None \<and> (\<exists>names. release_claims api release w = Inr names \<and> (\<forall>n. n \<in> set names \<longleftrightarrow> listed_claim api release w n))"
proof (cases "listing_fails api release w")
  case True
  then show ?thesis
    using gather_claims_fails [of api release w "[]" claim_labels]
    by (auto simp: listing_fails_def release_claims_def claim_labels_def split: option.split sum.split)
next
  case False
  then obtain ns where ns: "gather_claims api release w [] claim_labels = Inr ns" "cm_client api = None"
    using gather_claims_fails [of api release w "[]" claim_labels]
    by (cases "gather_claims api release w [] claim_labels") (auto simp: listing_fails_def claim_labels_def)
  then have "n \<in> set ns \<longleftrightarrow> listed_claim api release w n" for n
    using gather_claims_in [OF ns(1)]
    by (auto simp: listed_claim_def claim_labels_def split: sum.splits)
  then show ?thesis using False ns by (simp add: release_claims_def)
qed

lemma join_has: "x \<in> set xs \<Longrightarrow> \<exists>u v. join sep xs = u @ x @ v"
proof (induction sep xs rule: join.induct)
  case (3 sep x' y zs)
  show ?case
  proof (cases "x = x'")
    case True
    then show ?thesis by (intro exI [of _ "[]"] exI [of _ "sep @ join sep (y # zs)"]) simp
  next
    case False
    then obtain u v where "join sep (y # zs) = u @ x @ v" using 3 by auto
    then show ?thesis by (intro exI [of _ "x' @ sep @ u"] exI [of _ v]) simp
  qed
qed (auto intro: exI [of _ "[]"])

text \<open>
  C27: what an uninstall does to the volumes. When the claims cannot be listed it fails and nothing is touched, Helm's
  release neither; when Helm fails to remove the release, or no data is to be deleted, nothing happens but what Helm did.
  Otherwise, after Helm removed the release, every claim that carried the name of the release in one of the three labels
  before is gone, unless the error of the uninstall names it, and every other claim is as Helm left it.
\<close>

theorem uninstall_deletes_own:
  assumes "claim_server C live" and "uninstall_release api C config_error release timeout delete_data w = (res, w')"
    and "hs_uninstall api release timeout w = (u, w1)"
  shows "if config_error \<noteq> None \<or> delete_data \<and> listing_fails C release w then res \<noteq> None \<and> w' = w
    else if u \<noteq> None \<or> \<not> delete_data then res = u \<and> w' = w1
    else (\<forall>n. \<not> listed_claim C release w n \<longrightarrow> live w' n = live w1 n) \<and>
      (\<forall>n. listed_claim C release w n \<and> live w' n \<longrightarrow> (\<exists>e. res = Some e \<and> contains (fl_text e) n))"
proof (cases "config_error = None \<and> delete_data \<and> \<not> listing_fails C release w \<and> u = None")
  case False
  show ?thesis
  proof (cases "config_error = None")
    case no_error: True
    show ?thesis
    proof (cases "delete_data")
      case data: True
      show ?thesis
      proof (cases "listing_fails C release w")
        case True
        then obtain e where "release_claims C release w = Inl e" using release_claims_cases [of C release w] by auto
        then show ?thesis using True data no_error assms(2) by (auto simp: uninstall_release_def)
      next
        case listed: False
        then obtain names where "release_claims C release w = Inr names" using release_claims_cases [of C release w] by auto
        then show ?thesis using False listed data no_error assms(2,3) by (auto simp: uninstall_release_def split: option.splits)
      qed
    qed (use no_error assms(2,3) in \<open>auto simp: uninstall_release_def split: option.splits\<close>)
  qed (use assms(2) in \<open>auto simp: uninstall_release_def\<close>)
next
  case True
  then obtain names where names: "release_claims C release w = Inr names" "\<forall>n. n \<in> set names \<longleftrightarrow> listed_claim C release w n"
    "cm_client C = None"
    using release_claims_cases [of C release w] by auto
  then have d: "delete_claims C names w1 = (res, w')" using True assms(2,3) by (simp add: uninstall_release_def)
  obtain failed v where e: "delete_each C [] names w1 = (failed, v)" by force
  note spec = claim_server.delete_each_spec [OF assms(1) e]
  have "names = [] \<or> (if failed = [] then None
      else Some (plain (''the app was uninstalled but these volumes could not be deleted: ['' @ join '' '' failed @ '']''))) = res \<and> w' = v"
    using d e names(3) by (simp add: delete_claims_def split: if_splits)
  moreover have "failed = [] \<and> v = w1 \<and> w' = w1" if "names = []" using that d e by (simp add: delete_claims_def)
  ultimately have v: "w' = v" and shown: "failed \<noteq> [] \<Longrightarrow> res =
      Some (plain (''the app was uninstalled but these volumes could not be deleted: ['' @ join '' '' failed @ '']''))"
    by (auto split: if_splits)
  have "\<exists>x. res = Some x \<and> contains (fl_text x) n" if n: "n \<in> set names" "live w' n" for n
  proof -
    obtain rest where f: "n @ '' ('' @ rest \<in> set failed" using spec n v by auto
    then obtain a b where "join '' '' failed = a @ (n @ '' ('' @ rest) @ b" using join_has by blast
    moreover obtain x where x: "res = Some x" "fl_text x =
      ''the app was uninstalled but these volumes could not be deleted: ['' @ join '' '' failed @ '']''"
      using shown f by (force simp: plain_def)
    ultimately have "fl_text x = (''the app was uninstalled but these volumes could not be deleted: ['' @ a) @ n @
        ('' ('' @ rest @ b @ '']'')" by simp
    then have "contains (fl_text x) n" unfolding contains_iff by blast
    then show ?thesis using x(1) by blast
  qed
  then show ?thesis using spec v names(2) True by auto
qed

text \<open>A namespace in memory: its claims with their labels, and those that refuse to be deleted.\<close>

record claim_space =
  cs_claims :: "(string \<times> (string \<times> string) list) list"
  cs_stuck :: "string list"

definition memory_claims :: "claim_space claim_api" where
  "memory_claims =
     \<lparr>cm_client = None,
      cm_list = (\<lambda>l r w. Inr (map fst (filter (\<lambda>(n, ls). map_of ls l = Some r) (cs_claims w)))),
      cm_delete = (\<lambda>n w.
        if n \<in> set (cs_stuck w) then (Some (plain ''no answer''), w)
        else if n \<notin> fst ` set (cs_claims w) then (Some ((plain ''not found'')\<lparr>fl_missing := True\<rparr>), w)
        else (None, w\<lparr>cs_claims := filter (\<lambda>(m, _). m \<noteq> n) (cs_claims w)\<rparr>))\<rparr>"

interpretation claims_in_memory: claim_server memory_claims "\<lambda>w n. n \<in> fst ` set (cs_claims w)"
  by unfold_locales (force simp: memory_claims_def plain_def split: if_splits)+

definition demo_helm :: "claim_space helm_store_api" where
  "demo_helm = \<lparr>hs_last = (\<lambda>r w. Inr \<lparr>rl_name = r, rl_version = 1, rl_status = Some ''failed''\<rparr>), hs_uninstall = (\<lambda>_ _ w. (None, w))\<rparr>"

definition demo_space :: claim_space where
  "demo_space = \<lparr>cs_claims = [(''data-db'', [(''release'', ''db'')]), (''wal-db'', [(''app'', ''db'')]), (''data-other'', [(''app'', ''web'')])],
     cs_stuck = [''wal-db'']\<rparr>"

theorem uninstall_deletes_own_witness:
  "let w' = snd (uninstall_release demo_helm memory_claims None ''db'' 5 True demo_space)
   in ''data-db'' \<notin> fst ` set (cs_claims w') \<and> ''data-other'' \<in> fst ` set (cs_claims w')"
proof -
  obtain res w' where r: "uninstall_release demo_helm memory_claims None ''db'' 5 True demo_space = (res, w')" by fastforce
  have "hs_uninstall demo_helm ''db'' 5 demo_space = (None, demo_space)" by (simp add: demo_helm_def)
  note spec = uninstall_deletes_own [OF claims_in_memory.claim_server_axioms r this]
  have l: "\<not> listing_fails memory_claims ''db'' demo_space" by code_simp
  have d: "listed_claim memory_claims ''db'' demo_space ''data-db''" "\<not> listed_claim memory_claims ''db'' demo_space ''data-other''"
    "''data-other'' \<in> fst ` set (cs_claims demo_space)" by code_simp+
  have "\<not> (\<exists>e. res = Some e \<and> contains (fl_text e) ''data-db'')"
  proof -
    have "case fst (uninstall_release demo_helm memory_claims None ''db'' 5 True demo_space) of
        None \<Rightarrow> True | Some e \<Rightarrow> \<not> contains (fl_text e) ''data-db''" by code_simp
    then show ?thesis using r by (auto split: option.splits)
  qed
  with spec l d r show ?thesis by auto
qed

end
