(* ===== verification/HelmProgress.thy ===== *)
theory HelmProgress
  imports HelmDiagnostics GoDuration
begin

text \<open>
  What a reader sees while Helm works: the filter that drops repeated log lines and the reporter of what a
  release still waits for (store/helm\_progress.go), the progress of a chart's download
  (store/helm\_chart\_progress.go) and the stream of a chart's values (store/helm\_values\_stream.go). Times
  are nanoseconds, given with each call.
\<close>

section \<open>Repeated lines\<close>

record throttle =
  th_window :: int
  th_sent :: "(string \<times> int) list"

definition repeat_max :: nat where "repeat_max = 512"

definition new_throttle :: throttle where
  "new_throttle = \<lparr>th_window = 60 * 1000000000, th_sent = []\<rparr>"

definition prune :: "int \<Rightarrow> throttle \<Rightarrow> throttle" where
  "prune now t =
     (let kept = filter (\<lambda>(m, s). now - s < th_window t) (th_sent t)
      in t\<lparr>th_sent := (if length kept \<ge> repeat_max then [] else kept)\<rparr>)"

definition allow :: "string \<Rightarrow> int \<Rightarrow> throttle \<Rightarrow> bool \<times> throttle" where
  "allow m now t =
     (if m = [] then (True, t)
      else if (case map_of (th_sent t) m of Some s \<Rightarrow> now - s < th_window t | None \<Rightarrow> False) then (False, t)
      else
        (let t' = (if length (th_sent t) \<ge> repeat_max then prune now t else t)
         in (True, t'\<lparr>th_sent := AList.update m now (th_sent t')\<rparr>)))"

fun allow_all :: "throttle \<Rightarrow> (string \<times> int) list \<Rightarrow> bool list \<times> throttle" where
  "allow_all t [] = ([], t)"
| "allow_all t ((m, now) # xs) =
     (case allow m now t of (b, t') \<Rightarrow> (case allow_all t' xs of (bs, t'') \<Rightarrow> (b # bs, t'')))"

text \<open>The lines that were let through, each with its time.\<close>

definition let_through :: "bool list \<Rightarrow> 'a list \<Rightarrow> 'a list" where
  "let_through bs xs = map snd (filter fst (zip bs xs))"

definition remembers :: "throttle \<Rightarrow> (string \<times> int) list \<Rightarrow> bool" where
  "remembers t past \<longleftrightarrow> set (th_sent t) \<subseteq> set past \<and> length (th_sent t) \<le> repeat_max"

lemma length_update_le: "length (AList.update k v xs) \<le> Suc (length xs)"
  by (induction xs) auto

lemma set_update_le: "set (AList.update k v xs) \<subseteq> insert (k, v) (set xs)"
  by (induction xs) auto

lemma prune_remembers:
  "th_window (prune now t) = th_window t" "set (th_sent (prune now t)) \<subseteq> set (th_sent t)" "length (th_sent (prune now t)) < repeat_max"
  by (auto simp: prune_def Let_def repeat_max_def)

lemma allow_step:
  assumes "remembers t past" "allow m now t = (b, t')"
  shows "th_window t' = th_window t" "remembers t' (if b then past @ [(m, now)] else past)"
    "\<not> b \<Longrightarrow> \<exists>s. (m, s) \<in> set past \<and> now - s < th_window t"
proof -
  let ?r = "if length (th_sent t) \<ge> repeat_max then prune now t else t"
  have r: "th_window ?r = th_window t" "set (th_sent ?r) \<subseteq> set past" "length (th_sent ?r) < repeat_max"
    using assms(1) prune_remembers [of now t] by (auto simp: remembers_def)
  let ?u = "?r\<lparr>th_sent := AList.update m now (th_sent ?r)\<rparr>"
  consider (empty) "m = []" "b" "t' = t"
    | (repeat) s where "map_of (th_sent t) m = Some s" "now - s < th_window t" "\<not> b" "t' = t"
    | (new) "b" "t' = ?u"
  proof (cases "m = []")
    case True
    with assms(2) have "b" "t' = t" by (simp_all add: allow_def)
    with True show thesis by (intro that(1))
  next
    case False
    show thesis
    proof (cases "\<exists>s. map_of (th_sent t) m = Some s \<and> now - s < th_window t")
      case True
      then obtain s where "map_of (th_sent t) m = Some s" "now - s < th_window t" by blast
      moreover from this assms(2) False have "\<not> b" "t' = t" by (simp_all add: allow_def)
      ultimately show thesis by (rule that(2))
    next
      case old: False
      then have "\<not> (case map_of (th_sent t) m of Some s \<Rightarrow> now - s < th_window t | None \<Rightarrow> False)"
        by (auto split: option.splits)
      with assms(2) False have "(b, t') = (True, ?u)" unfolding allow_def Let_def by simp
      then show thesis by (intro that(3)) simp_all
    qed
  qed
  then show "th_window t' = th_window t" "remembers t' (if b then past @ [(m, now)] else past)"
    "\<not> b \<Longrightarrow> \<exists>s. (m, s) \<in> set past \<and> now - s < th_window t"
  proof (atomize(full), cases)
    case empty
    with assms(1) show "th_window t' = th_window t \<and> remembers t' (if b then past @ [(m, now)] else past) \<and>
      (\<not> b \<longrightarrow> (\<exists>s. (m, s) \<in> set past \<and> now - s < th_window t))" by (auto simp: remembers_def)
  next
    case repeat
    with assms(1) map_of_SomeD [OF repeat(1)] show "th_window t' = th_window t \<and>
      remembers t' (if b then past @ [(m, now)] else past) \<and> (\<not> b \<longrightarrow> (\<exists>s. (m, s) \<in> set past \<and> now - s < th_window t))"
      by (auto simp: remembers_def)
  next
    case new
    with r length_update_le [of m now "th_sent ?r"] set_update_le [of m now "th_sent ?r"]
    show "th_window t' = th_window t \<and> remembers t' (if b then past @ [(m, now)] else past) \<and>
      (\<not> b \<longrightarrow> (\<exists>s. (m, s) \<in> set past \<and> now - s < th_window t))" by (auto simp: remembers_def)
  qed
qed

lemma allow_all_remembers:
  "remembers t past \<Longrightarrow> allow_all t xs = (bs, t') \<Longrightarrow>
   length bs = length xs \<and> length (th_sent t') \<le> repeat_max \<and>
   (\<forall>i < length xs. \<not> bs ! i \<longrightarrow> (\<exists>s. (fst (xs ! i), s) \<in> set (past @ let_through (take i bs) (take i xs)) \<and> snd (xs ! i) - s < th_window t))"
proof (induction t xs arbitrary: past bs rule: allow_all.induct)
  case (2 t m now xs)
  obtain b t1 where a: "allow m now t = (b, t1)" by force
  obtain bs1 t2 where r: "allow_all t1 xs = (bs1, t2)" by force
  from 2(3) a r have bs: "bs = b # bs1" "t' = t2" by simp_all
  note step = allow_step [OF 2(2) a]
  let ?past = "if b then past @ [(m, now)] else past"
  have thru: "set (past @ let_through (take (Suc j) bs) (take (Suc j) ((m, now) # xs))) = set (?past @ let_through (take j bs1) (take j xs))" for j
    by (auto simp: bs let_through_def)
  from 2(1) [OF a [symmetric] step(2)] r bs(2) have ih:
    "length bs1 = length xs" "length (th_sent t') \<le> repeat_max"
    "\<And>j. j < length xs \<Longrightarrow> \<not> bs1 ! j \<Longrightarrow> \<exists>s. (fst (xs ! j), s) \<in> set (?past @ let_through (take j bs1) (take j xs)) \<and> snd (xs ! j) - s < th_window t1"
    by simp_all
  have "\<exists>s. (fst (((m, now) # xs) ! i), s) \<in> set (past @ let_through (take i bs) (take i ((m, now) # xs))) \<and> snd (((m, now) # xs) ! i) - s < th_window t"
    if "i < length ((m, now) # xs)" "\<not> bs ! i" for i
  proof (cases i)
    case 0
    with that step(3) bs show ?thesis by auto
  next
    case (Suc j)
    with that bs ih(3) [of j] obtain s where
      "(fst (xs ! j), s) \<in> set (?past @ let_through (take j bs1) (take j xs))" "snd (xs ! j) - s < th_window t1" by auto
    with Suc thru [of j] step(1) show ?thesis by auto
  qed
  with ih bs show ?case by simp
qed (simp add: remembers_def)

text \<open>
  The filter of the log hides only repeats: a line it drops was let through, word for word, less than a
  minute before; and it never remembers more than 512 lines.
\<close>

theorem throttle_hides_repeats:
  assumes "allow_all new_throttle xs = (bs, t)"
  shows "length (th_sent t) \<le> 512 \<and>
    (i < length xs \<and> \<not> bs ! i \<longrightarrow>
      (\<exists>s. (fst (xs ! i), s) \<in> set (let_through (take i bs) (take i xs)) \<and> snd (xs ! i) - s < 60 * 1000000000))"
  using allow_all_remembers [OF _ assms, of "[]"] by (auto simp: remembers_def new_throttle_def repeat_max_def)

theorem throttle_hides_repeats_witness:
  "\<exists>s. (''a'', s) \<in> set (let_through [True] [(''a'', 0)]) \<and> 5 - s < (60 * 1000000000 :: int)"
  using throttle_hides_repeats [of "[(''a'', 0), (''a'', 5)]" "[True, False]" "\<lparr>th_window = 60 * 1000000000, th_sent = [(''a'', 0)]\<rparr>" 1]
  by (simp add: allow_def new_throttle_def repeat_max_def)

section \<open>What a release waits for\<close>

definition diagnostics_heading :: "string \<Rightarrow> bool" where
  "diagnostics_heading line \<longleftrightarrow> has_prefix line ''Helm release diagnostics'' \<or> has_prefix line ''  selector: ''"

fun fresh_lines :: "string list \<Rightarrow> string list \<Rightarrow> string list" where
  "fresh_lines reported [] = []"
| "fresh_lines reported (l # ls) =
     (if diagnostics_heading l \<or> l \<in> set reported then fresh_lines reported ls else l # fresh_lines (l # reported) ls)"

text \<open>The rounds until the reporter is stopped: how long it has waited, and what it finds.\<close>

fun report_rounds :: "string \<Rightarrow> string \<Rightarrow> string list \<Rightarrow> (int \<times> string list) list \<Rightarrow> string list list" where
  "report_rounds namespace release reported [] = []"
| "report_rounds namespace release reported ((elapsed, found) # rounds) =
     (let new = fresh_lines reported found in
      ((''still waiting for '' @ namespace @ ''/'' @ release @ '' to become ready ('' @ show_seconds (round_second elapsed) @ '' elapsed)'') # new)
      # report_rounds namespace release (new @ reported) rounds)"

lemma fresh_lines: "distinct (fresh_lines reported ls) \<and> set (fresh_lines reported ls) = {l \<in> set ls. \<not> diagnostics_heading l} - set reported"
  by (induction reported ls rule: fresh_lines.induct) auto

text \<open>C0: the reporter says each thing once, and all of it: over all rounds, the lines under the headings are
  exactly the diagnostics found in some round, without repeats.\<close>

theorem reporter_says_news_once:
  "distinct (concat (map tl (report_rounds namespace release [] rounds))) \<and>
   set (concat (map tl (report_rounds namespace release [] rounds))) =
     {l \<in> set (concat (map snd rounds)). \<not> diagnostics_heading l}"
proof -
  have "distinct (concat (map tl (report_rounds namespace release reported rounds))) \<and>
    set (concat (map tl (report_rounds namespace release reported rounds))) =
      {l \<in> set (concat (map snd rounds)). \<not> diagnostics_heading l} - set reported" for reported
  proof (induction rounds arbitrary: reported)
    case (Cons r rounds)
    obtain e found where "r = (e, found)" by (cases r)
    with Cons.IH [of "fresh_lines reported found @ reported"] fresh_lines [of reported found] show ?case
      by (auto simp: Let_def)
  qed simp
  from this [of "[]"] show ?thesis by simp
qed

section \<open>The progress of a download\<close>

record load_progress =
  lo_stage :: string
  lo_loaded :: int
  lo_total :: int
  lo_host :: string

record progress_reader =
  pr_stage :: string
  pr_host :: string
  pr_total :: int
  pr_loaded :: int
  pr_last :: int
  pr_sent :: "load_progress list"

definition progress_interval :: int where "progress_interval = 250 * 1000000"

definition emit :: "int \<Rightarrow> progress_reader \<Rightarrow> progress_reader" where
  "emit now r = r\<lparr>pr_last := now,
     pr_sent := pr_sent r @ [\<lparr>lo_stage = pr_stage r, lo_loaded = pr_loaded r, lo_total = pr_total r, lo_host = pr_host r\<rparr>]\<rparr>"

definition new_progress_reader :: "string \<Rightarrow> string \<Rightarrow> int \<Rightarrow> int \<Rightarrow> progress_reader" where
  "new_progress_reader stage host n now =
     emit now \<lparr>pr_stage = stage, pr_host = host, pr_total = (if n < 0 then 0 else n), pr_loaded = 0, pr_last = 0, pr_sent = []\<rparr>"

text \<open>The clock is read to decide and again to report.\<close>

definition write_chunk :: "string \<Rightarrow> int \<times> int \<Rightarrow> progress_reader \<Rightarrow> progress_reader" where
  "write_chunk chunk clocks r =
     (let r' = r\<lparr>pr_loaded := pr_loaded r + int (length chunk)\<rparr>
      in if fst clocks - pr_last r \<ge> progress_interval then emit (snd clocks) r' else r')"

definition read_through :: "(string \<times> int \<times> int) list \<Rightarrow> int \<Rightarrow> progress_reader \<Rightarrow> progress_reader" where
  "read_through chunks finished r = emit finished (foldl (\<lambda>r (chunk, clocks). write_chunk chunk clocks r) r chunks)"

text \<open>C0: the progress of a download is truthful: it starts at zero, never goes back, and ends with the
  number of bytes that were read.\<close>

theorem progress_truthful:
  "let loads = map lo_loaded (pr_sent (read_through chunks finished (new_progress_reader stage host n now)))
   in hd loads = 0 \<and> sorted loads \<and> last loads = int (length (concat (map fst chunks)))"
proof -
  have "\<exists>more. map lo_loaded (pr_sent (foldl (\<lambda>r (chunk, clocks). write_chunk chunk clocks r) r chunks)) = map lo_loaded (pr_sent r) @ more \<and>
      sorted more \<and> (\<forall>x \<in> set more. pr_loaded r \<le> x \<and> x \<le> pr_loaded r + int (length (concat (map fst chunks)))) \<and>
      pr_loaded (foldl (\<lambda>r (chunk, clocks). write_chunk chunk clocks r) r chunks) = pr_loaded r + int (length (concat (map fst chunks)))" for r
  proof (induction chunks arbitrary: r)
    case (Cons c chunks)
    obtain chunk clocks where c: "c = (chunk, clocks)" by (cases c)
    let ?r = "write_chunk chunk clocks r"
    from Cons.IH [of ?r] obtain more where more:
      "map lo_loaded (pr_sent (foldl (\<lambda>r (chunk, clocks). write_chunk chunk clocks r) ?r chunks)) = map lo_loaded (pr_sent ?r) @ more"
      "sorted more" "\<forall>x \<in> set more. pr_loaded ?r \<le> x \<and> x \<le> pr_loaded ?r + int (length (concat (map fst chunks)))"
      "pr_loaded (foldl (\<lambda>r (chunk, clocks). write_chunk chunk clocks r) ?r chunks) = pr_loaded ?r + int (length (concat (map fst chunks)))"
      by blast
    have r: "pr_loaded ?r = pr_loaded r + int (length chunk)"
      "map lo_loaded (pr_sent ?r) = map lo_loaded (pr_sent r) \<or> map lo_loaded (pr_sent ?r) = map lo_loaded (pr_sent r) @ [pr_loaded ?r]"
      by (simp_all add: write_chunk_def emit_def Let_def)
    from r(2) show ?case
    proof
      assume "map lo_loaded (pr_sent ?r) = map lo_loaded (pr_sent r)"
      with more r(1) c show ?thesis by (intro exI [of _ more]) auto
    next
      assume "map lo_loaded (pr_sent ?r) = map lo_loaded (pr_sent r) @ [pr_loaded ?r]"
      with more r(1) c show ?thesis by (intro exI [of _ "pr_loaded ?r # more"]) auto
    qed
  qed simp
  from this [of "new_progress_reader stage host n now"] obtain more where
    "map lo_loaded (pr_sent (foldl (\<lambda>r (chunk, clocks). write_chunk chunk clocks r) (new_progress_reader stage host n now) chunks)) = 0 # more"
    "sorted more" "\<forall>x \<in> set more. 0 \<le> x \<and> x \<le> int (length (concat (map fst chunks)))"
    "pr_loaded (foldl (\<lambda>r (chunk, clocks). write_chunk chunk clocks r) (new_progress_reader stage host n now) chunks) = int (length (concat (map fst chunks)))"
    by (auto simp: new_progress_reader_def emit_def)
  then show ?thesis by (simp add: read_through_def emit_def Let_def sorted_append)
qed

section \<open>The stream of a chart's values\<close>

datatype stream_event = Progress load_progress | Done string | Failed string

text \<open>The channel with its buffer, what the client has taken from it, and where the goroutine is.\<close>

datatype stream_phase = Loading | Ended

record collector =
  co_queue :: "stream_event list"
  co_taken :: "stream_event list"
  co_closed :: bool
  co_phase :: stream_phase
  co_cancelled :: bool

definition stream_buffer :: nat where "stream_buffer = 8"

definition new_collector :: collector where
  "new_collector = \<lparr>co_queue = [], co_taken = [], co_closed = False, co_phase = Loading, co_cancelled = False\<rparr>"

definition collector_report :: "load_progress \<Rightarrow> collector \<Rightarrow> collector" where
  "collector_report p c =
     (if co_closed c \<or> length (co_queue c) \<ge> stream_buffer then c else c\<lparr>co_queue := co_queue c @ [Progress p]\<rparr>)"

definition collector_send :: "stream_event \<Rightarrow> collector \<Rightarrow> collector" where
  "collector_send e c = (if co_closed c then c else c\<lparr>co_queue := co_queue c @ [e]\<rparr>)"

definition collector_close :: "collector \<Rightarrow> collector" where
  "collector_close c = (if co_closed c then c else c\<lparr>co_closed := True\<rparr>)"

definition terminal :: "(string + string) \<Rightarrow> stream_event" where
  "terminal result = (case result of Inl e \<Rightarrow> Failed e | Inr vals \<Rightarrow> Done vals)"

text \<open>
  The steps: loading reports, the client takes, and when loading has ended with a result, the terminal event is
  sent once there is room, or given up when the client has left; then the channel is closed.
\<close>

inductive stream_step :: "collector \<Rightarrow> collector \<Rightarrow> bool" where
  report: "co_phase c = Loading \<Longrightarrow> stream_step c (collector_report p c)"
| take_one: "co_queue c = e # q \<Longrightarrow> stream_step c (c\<lparr>co_queue := q, co_taken := co_taken c @ [e]\<rparr>)"
| finish: "co_phase c = Loading \<Longrightarrow> length (co_queue c) < stream_buffer \<Longrightarrow>
    stream_step c ((collector_send (terminal result) c)\<lparr>co_phase := Ended\<rparr>)"
| give_up: "co_phase c = Loading \<Longrightarrow> stream_step c (c\<lparr>co_phase := Ended, co_cancelled := True\<rparr>)"
| close_it: "co_phase c = Ended \<Longrightarrow> stream_step c (collector_close c)"

definition is_progress :: "stream_event \<Rightarrow> bool" where
  "is_progress e = (case e of Progress _ \<Rightarrow> True | _ \<Rightarrow> False)"

definition stream_ok :: "collector \<Rightarrow> bool" where
  "stream_ok c \<longleftrightarrow> length (co_queue c) \<le> stream_buffer \<and> (co_closed c \<or> co_cancelled c \<longrightarrow> co_phase c = Ended) \<and>
     (let es = co_taken c @ co_queue c in
      if co_phase c = Loading \<or> co_cancelled c then list_all is_progress es
      else es \<noteq> [] \<and> list_all is_progress (butlast es) \<and> \<not> is_progress (last es))"

lemma stream_step_ok: "stream_step c d \<Longrightarrow> stream_ok c \<Longrightarrow> stream_ok d"
  by (induction rule: stream_step.induct)
    (auto simp: stream_ok_def collector_report_def collector_send_def collector_close_def terminal_def is_progress_def Let_def
      butlast_append split: if_splits sum.splits)

text \<open>
  The stream of a chart's values never holds more than eight events; it carries progress, then exactly one
  result, done or failed, unless the client left, and nothing after it.
\<close>

theorem stream_one_result:
  assumes "stream_step\<^sup>*\<^sup>* new_collector c"
  shows "length (co_queue c) \<le> 8 \<and>
    (co_closed c \<and> \<not> co_cancelled c \<longrightarrow>
      (\<exists>es e. co_taken c @ co_queue c = es @ [e] \<and> list_all is_progress es \<and> \<not> is_progress e))"
proof -
  have "stream_ok new_collector" by (simp add: stream_ok_def new_collector_def)
  with assms have "stream_ok c" by (induction rule: rtranclp_induct) (auto intro: stream_step_ok)
  show ?thesis
  proof (intro conjI impI)
    show "length (co_queue c) \<le> 8" using \<open>stream_ok c\<close> by (simp add: stream_ok_def stream_buffer_def)
  next
    let ?es = "co_taken c @ co_queue c"
    assume "co_closed c \<and> \<not> co_cancelled c"
    with \<open>stream_ok c\<close> have "?es \<noteq> []" "list_all is_progress (butlast ?es)" "\<not> is_progress (last ?es)"
      by (simp_all only: stream_ok_def Let_def) auto
    then show "\<exists>es e. ?es = es @ [e] \<and> list_all is_progress es \<and> \<not> is_progress e"
      by (intro exI [of _ "butlast ?es"] exI [of _ "last ?es"]) (simp del: butlast_append last_append)
  qed
qed

theorem stream_one_result_witness:
  "\<forall>p. \<exists>es e. [Progress p, Done ''v''] = es @ [e] \<and> list_all is_progress es \<and> \<not> is_progress e"
proof
  fix p
  let ?c1 = "collector_report p new_collector"
  let ?c2 = "(collector_send (terminal (Inr ''v'')) ?c1)\<lparr>co_phase := Ended\<rparr>"
  have "stream_step new_collector ?c1" by (rule report) (simp add: new_collector_def)
  moreover have "stream_step ?c1 ?c2"
    by (rule finish) (simp_all add: collector_report_def new_collector_def stream_buffer_def)
  moreover have "stream_step ?c2 (collector_close ?c2)" by (rule close_it) simp
  ultimately have "stream_step\<^sup>*\<^sup>* new_collector (collector_close ?c2)" 
    by (rule converse_rtranclp_into_rtranclp [OF _ converse_rtranclp_into_rtranclp [OF _ r_into_rtranclp]])
  from stream_one_result [OF this] show "\<exists>es e. [Progress p, Done ''v''] = es @ [e] \<and> list_all is_progress es \<and> \<not> is_progress e"
    by (simp add: collector_close_def collector_send_def collector_report_def new_collector_def terminal_def stream_buffer_def)
qed

end
