(* ===== verification/HelmPipeline.thy ===== *)
theory HelmPipeline
  imports HelmInstall HelmGuards HelmProgress
begin

text \<open>
  An install and an upgrade from the first check to the recorded outcome (store/helm.go): the steps in their
  order, the events a client sees, the lines and the outcome the task keeps. The state is the database behind
  the lifecycle and the cluster with everything else outside; what acts on them is a parameter, in two
  records. A run of Helm gives the lines logged meanwhile, in the order they were logged, its error, the
  release it left, and why the watch ended it. The history of the calls is kept with the state.
\<close>

section \<open>What it works with\<close>

record stream_message =
  se_type :: string
  se_message :: string
  se_error :: "(string \<times> string) option"

text \<open>The interface \<open>HelmInstallLifecycle\<close>, on the database.\<close>

record 'd install_lifecycle =
  lf_start :: "'d \<Rightarrow> failure option \<times> 'd"
  lf_mark :: "'d \<Rightarrow> failure option \<times> 'd"
  lf_record :: "string \<Rightarrow> 'd \<Rightarrow> failure option \<times> 'd"
  lf_finish :: "failure option \<Rightarrow> 'd \<Rightarrow> failure option \<times> 'd"

record run_result =
  rr_lines :: "string list"
  rr_error :: "failure option"
  rr_release :: "hrelease option"
  rr_reason :: string

record 'k install_env =
  en_lib :: klib
  en_decode :: decoder
  en_yaml :: "string \<Rightarrow> string + unit yaml"
  en_parse :: "string \<Rightarrow> string + hmap"
  en_marshal :: "hmap \<Rightarrow> string + string"
  en_values_text :: "values_error \<Rightarrow> string"
  en_random :: "string + string"
  en_timeout :: "string + int"
  en_report :: "(string list \<Rightarrow> string list) option"
  en_now :: "'k \<Rightarrow> int"
  en_config :: "'k \<Rightarrow> failure option \<times> 'k"
  en_nodes :: "'k \<Rightarrow> string + hnode list"
  en_load :: "'k \<Rightarrow> (failure + chart \<times> chart_info) \<times> 'k"
  en_installed :: "'k \<Rightarrow> (chart \<times> hmap) option"
  en_cluster :: "'k \<Rightarrow> cluster"
  en_capabilities :: "'k \<Rightarrow> string list \<times> 'k"
  en_target :: "hmap \<Rightarrow> 'k \<Rightarrow> target"
  en_rendered :: "hmap \<Rightarrow> 'k \<Rightarrow> failure + string"
  en_run :: "chart \<Rightarrow> hmap \<Rightarrow> 'k \<Rightarrow> run_result \<times> 'k"
  en_diagnostics :: "'k \<Rightarrow> string list"
  en_store :: "'k helm_store_api"
  en_readiness :: "'k \<Rightarrow> failure option \<times> 'k"
  en_deliver :: "stream_message \<Rightarrow> 'k \<Rightarrow> bool \<times> 'k"

datatype call = Started | Marked | Recorded string | Ran | Finished "failure option" "failure option"

record ('d, 'k) stream =
  sm_tasks :: 'd
  sm_cluster :: 'k
  sm_throttle :: throttle
  sm_events :: "stream_message list"
  sm_calls :: "call list"

definition new_stream :: "'d \<Rightarrow> 'k \<Rightarrow> ('d, 'k) stream" where
  "new_stream d k = \<lparr>sm_tasks = d, sm_cluster = k, sm_throttle = new_throttle, sm_events = [], sm_calls = []\<rparr>"

text \<open>A call on the database, noted; a call on the rest.\<close>

definition on_tasks :: "('d \<Rightarrow> 'a \<times> 'd) \<Rightarrow> ('a \<Rightarrow> call) \<Rightarrow> ('d, 'k) stream \<Rightarrow> 'a \<times> ('d, 'k) stream" where
  "on_tasks f note st = (case f (sm_tasks st) of (r, d) \<Rightarrow> (r, st\<lparr>sm_tasks := d, sm_calls := sm_calls st @ [note r]\<rparr>))"

definition on_cluster :: "('k \<Rightarrow> 'a \<times> 'k) \<Rightarrow> ('d, 'k) stream \<Rightarrow> 'a \<times> ('d, 'k) stream" where
  "on_cluster f st = (case f (sm_cluster st) of (r, k) \<Rightarrow> (r, st\<lparr>sm_cluster := k\<rparr>))"

section \<open>Events\<close>

definition deliver :: "'k install_env \<Rightarrow> stream_message \<Rightarrow> ('d, 'k) stream \<Rightarrow> ('d, 'k) stream" where
  "deliver en ev st =
     (case on_cluster (en_deliver en ev) st of
        (sent, st') \<Rightarrow> if sent then st'\<lparr>sm_events := sm_events st' @ [ev]\<rparr> else st')"

definition persisted_message :: "stream_message \<Rightarrow> string" where
  "persisted_message ev =
     (if se_type ev = ''error'' then ''ERROR: '' @ se_message ev
      else if se_type ev = ''warning'' then ''WARNING: '' @ se_message ev
      else se_message ev)"

definition send :: "'d install_lifecycle \<Rightarrow> 'k install_env \<Rightarrow> stream_message \<Rightarrow> ('d, 'k) stream \<Rightarrow> ('d, 'k) stream" where
  "send lf en ev st =
     (let (passes, t) = (if se_type ev = ''log'' then allow (se_message ev) (en_now en (sm_cluster st)) (sm_throttle st)
                         else (True, sm_throttle st));
          st = st\<lparr>sm_throttle := t\<rparr>
      in if \<not> passes then st
         else
           (let line = persisted_message ev;
                st = (if line \<noteq> [] then snd (on_tasks (lf_record lf line) (\<lambda>_. Recorded line) st) else st)
            in deliver en ev st))"

definition send_text :: "'d install_lifecycle \<Rightarrow> 'k install_env \<Rightarrow> string \<Rightarrow> string \<Rightarrow> ('d, 'k) stream \<Rightarrow> ('d, 'k) stream" where
  "send_text lf en type m st = send lf en \<lparr>se_type = type, se_message = m, se_error = None\<rparr> st"

definition send_all :: "'d install_lifecycle \<Rightarrow> 'k install_env \<Rightarrow> string \<Rightarrow> string list \<Rightarrow> ('d, 'k) stream \<Rightarrow> ('d, 'k) stream" where
  "send_all lf en type ms st = foldl (\<lambda>st m. send_text lf en type m st) st ms"

definition error_event :: "klib \<Rightarrow> failure \<Rightarrow> stream_message" where
  "error_event lib e = \<lparr>se_type = ''error'', se_message = fl_text e, se_error = compat_info lib e\<rparr>"

definition done_event :: stream_message where
  "done_event = \<lparr>se_type = ''done'', se_message = [], se_error = None\<rparr>"

definition call_finish :: "'d install_lifecycle \<Rightarrow> failure option \<Rightarrow> ('d, 'k) stream \<Rightarrow> failure option \<times> ('d, 'k) stream" where
  "call_finish lf outcome st = on_tasks (lf_finish lf outcome) (Finished outcome) st"

definition finish_with_error :: "'d install_lifecycle \<Rightarrow> 'k install_env \<Rightarrow> failure \<Rightarrow> ('d, 'k) stream \<Rightarrow> ('d, 'k) stream" where
  "finish_with_error lf en e st = snd (call_finish lf (Some e) (send lf en (error_event (en_lib en) e) st))"

definition finish_done :: "'d install_lifecycle \<Rightarrow> 'k install_env \<Rightarrow> ('d, 'k) stream \<Rightarrow> ('d, 'k) stream" where
  "finish_done lf en st =
     (case call_finish lf None st of
        (Some e, st') \<Rightarrow> send lf en (error_event (en_lib en) e) st'
      | (None, st') \<Rightarrow> deliver en done_event st')"

section \<open>The steps\<close>

text \<open>A step that may fail ends the operation with its error.\<close>

definition attempt ::
  "'d install_lifecycle \<Rightarrow> 'k install_env \<Rightarrow> (('d, 'k) stream \<Rightarrow> (failure + 'a) \<times> ('d, 'k) stream) \<Rightarrow>
   ('a \<Rightarrow> ('d, 'k) stream \<Rightarrow> ('d, 'k) stream) \<Rightarrow> ('d, 'k) stream \<Rightarrow> ('d, 'k) stream" where
  "attempt lf en f k st =
     (case f st of (Inl e, st') \<Rightarrow> finish_with_error lf en e st' | (Inr a, st') \<Rightarrow> k a st')"

definition checked :: "failure option \<times> 's \<Rightarrow> (failure + unit) \<times> 's" where
  "checked r = (case r of (Some e, s) \<Rightarrow> (Inl e, s) | (None, s) \<Rightarrow> (Inr (), s))"

definition node_check :: "'k install_env \<Rightarrow> 'k \<Rightarrow> string list \<times> failure option" where
  "node_check en k =
     (case validate_nodes (en_nodes en k) (en_now en k) of
        (warning, refusal) \<Rightarrow> (case warning of None \<Rightarrow> [] | Some w \<Rightarrow> [w], map_option plain refusal))"

definition parse_values :: "'k install_env \<Rightarrow> string \<Rightarrow> failure + hmap" where
  "parse_values en yaml =
     (if trim_space yaml = [] then Inr []
      else (case en_parse en yaml of Inl e \<Rightarrow> Inl (plain (''parse values: '' @ e)) | Inr vals \<Rightarrow> Inr vals))"

text \<open>The values the user gave, and those of the install with the adjustments made.\<close>

definition given_values :: "'k install_env \<Rightarrow> string \<Rightarrow> string \<Rightarrow> failure + hmap \<times> bool" where
  "given_values en values_yaml baseline_yaml =
     (case helm_value_overrides (en_parse en) (en_marshal en) values_yaml baseline_yaml of
        Inl e \<Rightarrow> Inl (plain (en_values_text en e))
      | Inr (text, is_overrides) \<Rightarrow>
          (case parse_values en text of Inl e \<Rightarrow> Inl e | Inr vals \<Rightarrow> Inr (vals, is_overrides)))"

definition prepared :: "'k install_env \<Rightarrow> chart \<Rightarrow> string \<Rightarrow> hmap \<Rightarrow> bool \<Rightarrow> cluster \<Rightarrow> failure + hmap \<times> string list" where
  "prepared en ch repo_url vals is_overrides c =
     (case prepare_values (en_random en) (Some ch) repo_url vals
             \<lparr>vo_overrides = is_overrides, vo_skip_dynamic = False, vo_cluster = c\<rparr> of
        Inl e \<Rightarrow> Inl (plain (en_values_text en e))
      | Inr (vals', adj) \<Rightarrow> Inr (vals', adjustment_warnings adj))"

text \<open>What the chart would run, and what is known of its images.\<close>

definition known_images :: "'k install_env \<Rightarrow> hmap \<Rightarrow> 'k \<Rightarrow> string list" where
  "known_images en vals k = image_warnings (en_yaml en) (en_report en) (en_rendered en vals k)"

section \<open>An install\<close>

text \<open>The end of an install that Helm ended with an error: the diagnostics, the cleanup, the outcome.\<close>

definition install_failed ::
  "'d install_lifecycle \<Rightarrow> 'k install_env \<Rightarrow> string \<Rightarrow> int \<Rightarrow> run_result \<Rightarrow> failure \<Rightarrow> ('d, 'k) stream \<Rightarrow> ('d, 'k) stream" where
  "install_failed lf en release timeout r e st =
     (case finish_failed
             (Some (\<lambda>err st. (err, send_all lf en ''log'' (en_diagnostics en (sm_cluster st)) st)))
             (on_cluster (cleanup_failed (en_store en) release timeout (rr_release r)))
             (the (with_fail_fast (Some e) (rr_reason r))) st of
        (err, st') \<Rightarrow> finish_with_error lf en err st')"

definition run_helm :: "'d install_lifecycle \<Rightarrow> 'k install_env \<Rightarrow> chart \<Rightarrow> hmap \<Rightarrow> ('d, 'k) stream \<Rightarrow> run_result \<times> ('d, 'k) stream" where
  "run_helm lf en ch vals st =
     (case on_cluster (en_run en ch vals) (st\<lparr>sm_calls := sm_calls st @ [Ran]\<rparr>) of
        (r, st') \<Rightarrow> (r, send_all lf en ''log'' (rr_lines r) st'))"

definition readiness_warning :: "failure option \<Rightarrow> string list" where
  "readiness_warning e =
     (case e of None \<Rightarrow> []
      | Some x \<Rightarrow> [''Helm operation succeeded, but some access-path resources are not ready yet: '' @ fl_text x])"

definition install_helm ::
  "'d install_lifecycle \<Rightarrow> 'k install_env \<Rightarrow> string \<Rightarrow> int \<Rightarrow> chart \<Rightarrow> hmap \<Rightarrow> ('d, 'k) stream \<Rightarrow> ('d, 'k) stream" where
  "install_helm lf en release timeout ch vals st =
     (case run_helm lf en ch vals st of
        (r, st1) \<Rightarrow>
          (case rr_error r of
             Some e \<Rightarrow> install_failed lf en release timeout r e st1
           | None \<Rightarrow>
               (case on_cluster (en_readiness en) st1 of
                  (w, st2) \<Rightarrow> finish_done lf en (send_all lf en ''warning'' (readiness_warning w) st2))))"

definition check_chart ::
  "'d install_lifecycle \<Rightarrow> 'k install_env \<Rightarrow> chart_info \<Rightarrow> hmap \<Rightarrow> ('d, 'k) stream \<Rightarrow> (failure + string list) \<times> ('d, 'k) stream" where
  "check_chart lf en ci vals st =
     (case on_cluster (en_capabilities en) st of
        (ls, st1) \<Rightarrow>
          (let st2 = send_all lf en ''log'' ls st1 in
           case validate_chart (en_lib en) (en_decode en) (en_target en vals (sm_cluster st2)) ci of
             Some e \<Rightarrow> (Inl e, st2)
           | None \<Rightarrow> (Inr (known_images en vals (sm_cluster st2)), st2)))"

definition install_stream ::
  "'d install_lifecycle \<Rightarrow> 'k install_env \<Rightarrow> string \<Rightarrow> string \<Rightarrow> string \<Rightarrow> string \<Rightarrow> ('d, 'k) stream \<Rightarrow> ('d, 'k) stream" where
  "install_stream lf en release repo_url values_yaml baseline_yaml =
     attempt lf en (\<lambda>st. checked (on_tasks (lf_start lf) (\<lambda>_. Started) st)) (\<lambda>_.
     attempt lf en (\<lambda>st. (map_sum plain (\<lambda>x. x) (en_timeout en), st)) (\<lambda>timeout.
     attempt lf en (\<lambda>st. checked (on_cluster (en_config en) st)) (\<lambda>_.
     attempt lf en (\<lambda>st. case node_check en (sm_cluster st) of
         (warnings, refusal) \<Rightarrow> checked (refusal, send_all lf en ''warning'' warnings st)) (\<lambda>_.
     attempt lf en (on_cluster (en_load en)) (\<lambda>(ch, ci).
     attempt lf en (\<lambda>st. (given_values en values_yaml baseline_yaml, st)) (\<lambda>(input, is_overrides).
     attempt lf en (\<lambda>st. (prepared en ch repo_url input is_overrides (en_cluster en (sm_cluster st)), st)) (\<lambda>(vals, warnings) st.
     attempt lf en (check_chart lf en ci vals) (\<lambda>image_warnings st.
     attempt lf en (\<lambda>st. checked (on_tasks (lf_mark lf) (\<lambda>_. Marked) st)) (\<lambda>_.
     install_helm lf en release timeout ch vals)
     (send_all lf en ''warning'' image_warnings st)) (send_all lf en ''warning'' warnings st))))))))"

section \<open>An upgrade\<close>

definition upgrade_release ::
  "'d install_lifecycle \<Rightarrow> 'k install_env \<Rightarrow> string \<Rightarrow> string \<Rightarrow> string \<Rightarrow> string \<Rightarrow> ('d, 'k) stream \<Rightarrow> ('d, 'k) stream" where
  "upgrade_release lf en release repo_url values_yaml baseline_yaml =
     attempt lf en (\<lambda>st. checked (on_cluster (en_config en) st)) (\<lambda>_.
     attempt lf en (on_cluster (en_load en)) (\<lambda>(ch, ci).
     attempt lf en (\<lambda>st. (given_values en values_yaml baseline_yaml, st)) (\<lambda>(input, is_overrides).
     attempt lf en (\<lambda>st. (prepared en ch repo_url (preserve_adapter_values (en_installed en (sm_cluster st)) ch input) is_overrides
         (en_cluster en (sm_cluster st)), st)) (\<lambda>(vals, warnings) st.
     attempt lf en (\<lambda>st. case on_cluster (en_capabilities en) st of
         (ls, st1) \<Rightarrow> (let st2 = send_all lf en ''log'' ls st1 in
            checked (validate_release (en_lib en) (en_decode en) (en_target en vals (sm_cluster st2)) release (Some ci), st2))) (\<lambda>_ st.
     case run_helm lf en ch vals st of
        (r, st1) \<Rightarrow>
          (case rr_error r of
             Some e \<Rightarrow> finish_with_error lf en e (send_all lf en ''log'' (en_diagnostics en (sm_cluster st1)) st1)
           | None \<Rightarrow>
               (case on_cluster (en_readiness en) st1 of
                  (w, st2) \<Rightarrow> finish_done lf en (send_all lf en ''warning'' (readiness_warning w) st2))))
     (send_all lf en ''warning'' warnings st)))))"

definition upgrade_stream ::
  "'d install_lifecycle \<Rightarrow> 'k install_env \<Rightarrow> string \<Rightarrow> string \<Rightarrow> string \<Rightarrow> string \<Rightarrow> ('d, 'k) stream \<Rightarrow> ('d, 'k) stream" where
  "upgrade_stream lf en release repo_url values_yaml baseline_yaml =
     attempt lf en (\<lambda>st. checked (on_tasks (lf_start lf) (\<lambda>_. Started) st)) (\<lambda>_.
     attempt lf en (\<lambda>st. checked (on_tasks (lf_mark lf) (\<lambda>_. Marked) st)) (\<lambda>_.
     upgrade_release lf en release repo_url values_yaml baseline_yaml))"


section \<open>Every operation has one outcome\<close>

text \<open>The calls before the outcome: nothing is finished, and Helm did not run before the mark.\<close>

definition open_calls :: "call list \<Rightarrow> bool" where
  "open_calls cs \<longleftrightarrow> (\<forall>e r. Finished e r \<notin> set cs) \<and> (Ran \<in> set cs \<longrightarrow> Marked \<in> set (takeWhile (\<lambda>c. c \<noteq> Ran) cs))"

text \<open>What an operation relies on of the lifecycle: an invariant of the database, and what a confirmed outcome means.\<close>

locale outcome_lifecycle =
  fixes lf :: "'d install_lifecycle" and inv :: "'d \<Rightarrow> bool" and outcome :: "failure option \<Rightarrow> 'd \<Rightarrow> bool"
  assumes start_inv: "inv d \<Longrightarrow> inv (snd (lf_start lf d))"
    and mark_inv: "inv d \<Longrightarrow> inv (snd (lf_mark lf d))"
    and record_inv: "inv d \<Longrightarrow> inv (snd (lf_record lf m d))"
    and finish_outcome: "inv d \<Longrightarrow> lf_finish lf e d = (None, d') \<Longrightarrow> outcome e d'"
begin

definition running :: "('d, 'k) stream \<Rightarrow> bool" where
  "running st \<longleftrightarrow> inv (sm_tasks st) \<and> open_calls (sm_calls st) \<and> (\<forall>ev \<in> set (sm_events st). se_type ev \<noteq> ''done'')"

definition ended :: "('d, 'k) stream \<Rightarrow> bool" where
  "ended st \<longleftrightarrow> (\<exists>before e r after. sm_calls st = before @ [Finished e r] @ map Recorded after \<and> open_calls before \<and>
     (e = None \<longrightarrow> Ran \<in> set before) \<and> (done_event \<in> set (sm_events st) \<longrightarrow> e = None \<and> r = None) \<and>
     (r = None \<longrightarrow> outcome e (sm_tasks st)))"

lemma open_calls_append:
  "open_calls cs \<Longrightarrow> \<forall>c \<in> set ds. (case c of Finished _ _ \<Rightarrow> False | Ran \<Rightarrow> False | _ \<Rightarrow> True) \<Longrightarrow> open_calls (cs @ ds)"
  by (cases "Ran \<in> set cs") (auto simp: open_calls_def takeWhile_append1 takeWhile_append2 split: call.splits)

text \<open>What sending leaves alone.\<close>

definition sent_from :: "('d, 'k) stream \<Rightarrow> ('d, 'k) stream \<Rightarrow> bool" where
  "sent_from st st' \<longleftrightarrow> (inv (sm_tasks st) \<longrightarrow> inv (sm_tasks st')) \<and>
     (\<exists>ms. sm_calls st' = sm_calls st @ map Recorded ms) \<and>
     (\<exists>evs. sm_events st' = sm_events st @ evs \<and> (\<forall>ev \<in> set evs. se_type ev \<noteq> ''done''))"

lemma sent_from_refl [simp]: "sent_from st st"
  by (simp add: sent_from_def)

lemma sent_from_trans: "sent_from a b \<Longrightarrow> sent_from b c \<Longrightarrow> sent_from a c"
  unfolding sent_from_def by (elim conjE exE, intro conjI) (simp, metis append.assoc map_append, metis UnE append.assoc set_append)

lemma deliver_fields:
  "sm_tasks (deliver en ev st) = sm_tasks st" "sm_calls (deliver en ev st) = sm_calls st"
  "sm_events (deliver en ev st) = sm_events st \<or> sm_events (deliver en ev st) = sm_events st @ [ev]"
  by (auto simp: deliver_def on_cluster_def split: prod.split)

lemma on_cluster_fields:
  "on_cluster f st = (r, st') \<Longrightarrow> sm_tasks st' = sm_tasks st \<and> sm_calls st' = sm_calls st \<and> sm_events st' = sm_events st"
  by (auto simp: on_cluster_def split: prod.splits)

lemma send_sent: "se_type ev \<noteq> ''done'' \<Longrightarrow> sent_from st (send lf en ev st)"
proof -
  assume ev: "se_type ev \<noteq> ''done''"
  obtain passes t where t: "(if se_type ev = ''log'' then allow (se_message ev) (en_now en (sm_cluster st)) (sm_throttle st) else (True, sm_throttle st)) = (passes, t)"
    by (metis prod.exhaust)
  let ?st = "st\<lparr>sm_throttle := t\<rparr>"
  let ?line = "persisted_message ev"
  let ?rec = "if ?line \<noteq> [] then snd (on_tasks (lf_record lf ?line) (\<lambda>_. Recorded ?line) ?st) else ?st"
  have r: "inv (sm_tasks st) \<longrightarrow> inv (sm_tasks ?rec)" "\<exists>ms. sm_calls ?rec = sm_calls st @ map Recorded ms" "sm_events ?rec = sm_events st"
    using record_inv [of "sm_tasks st" ?line]
    by (auto simp: on_tasks_def split: prod.split intro: exI [of _ "[?line]"])
  have "send lf en ev st = (if \<not> passes then ?st else deliver en ev ?rec)"
    by (simp only: send_def t Let_def prod.case)
  moreover have "sent_from st ?st" by (simp add: sent_from_def)
  moreover have "sent_from st (deliver en ev ?rec)"
    using r deliver_fields [of en ev ?rec] ev unfolding sent_from_def
    by (metis append_Nil2 empty_iff empty_set set_ConsD)
  ultimately show ?thesis by simp
qed

lemma send_all_sent: "type \<noteq> ''done'' \<Longrightarrow> sent_from st (send_all lf en type ms st)"
proof (induction ms arbitrary: st)
  case (Cons m ms)
  have "sent_from st (send_text lf en type m st)" by (simp add: send_text_def send_sent Cons.prems)
  with Cons show ?case by (simp add: send_all_def) (blast intro: sent_from_trans)
qed (simp add: send_all_def)

lemma sent_running: "sent_from st st' \<Longrightarrow> running st \<Longrightarrow> running st'"
  by (auto simp: sent_from_def running_def intro!: open_calls_append)

lemma cluster_running: "on_cluster f st = (r, st') \<Longrightarrow> running st \<Longrightarrow> running st'"
  by (drule on_cluster_fields) (simp add: running_def)

text \<open>The three ways to end.\<close>

lemma finish_with_error_ended: "running st \<Longrightarrow> ended (finish_with_error lf en e st)"
proof -
  assume st: "running st"
  let ?st = "send lf en (error_event (en_lib en) e) st"
  have "sent_from st ?st" by (rule send_sent) (simp add: error_event_def)
  then have "running ?st" using st by (rule sent_running)
  moreover obtain r d where f: "lf_finish lf (Some e) (sm_tasks ?st) = (r, d)" by force
  moreover from f \<open>running ?st\<close> have "outcome (Some e) d" if "r = None"
    using that finish_outcome by (auto simp: running_def)
  ultimately show ?thesis
    unfolding finish_with_error_def call_finish_def on_tasks_def ended_def running_def
    by (intro exI [of _ "sm_calls ?st"] exI [of _ "Some e"] exI [of _ r] exI [of _ "[]"]) (auto simp: done_event_def)
qed

lemma finish_done_ended: "running st \<Longrightarrow> Ran \<in> set (sm_calls st) \<Longrightarrow> ended (finish_done lf en st)"
proof -
  assume st: "running st" and ran: "Ran \<in> set (sm_calls st)"
  obtain r d where f: "lf_finish lf None (sm_tasks st) = (r, d)" by force
  let ?st = "st\<lparr>sm_tasks := d, sm_calls := sm_calls st @ [Finished None r]\<rparr>"
  have c: "call_finish lf None st = (r, ?st)" by (simp add: call_finish_def on_tasks_def f)
  show ?thesis
  proof (cases r)
    case None
    with f st have "outcome None d" using finish_outcome by (auto simp: running_def)
    with c None st ran deliver_fields [of en done_event ?st] show ?thesis
      unfolding finish_done_def ended_def running_def
      by (intro exI [of _ "sm_calls st"] exI [of _ None] exI [of _ "[]"]) simp
  next
    case (Some e)
    have "sent_from ?st (send lf en (error_event (en_lib en) e) ?st)" by (rule send_sent) (simp add: error_event_def)
    then obtain ms evs where "sm_calls (send lf en (error_event (en_lib en) e) ?st) = sm_calls ?st @ map Recorded ms"
      "sm_events (send lf en (error_event (en_lib en) e) ?st) = sm_events st @ evs" "\<forall>ev \<in> set evs. se_type ev \<noteq> ''done''"
      by (auto simp: sent_from_def)
    with c Some st ran show ?thesis
      unfolding finish_done_def ended_def running_def
      by (intro exI [of _ "sm_calls st"] exI [of _ None] exI [of _ r] exI [of _ ms]) (auto simp: done_event_def)
  qed
qed

lemma attempt_ended:
  assumes "running st" "\<And>r st'. f st = (r, st') \<Longrightarrow> running st'" "\<And>a st'. f st = (Inr a, st') \<Longrightarrow> ended (k a st')"
  shows "ended (attempt lf en f k st)"
  using assms finish_with_error_ended by (auto simp: attempt_def split: prod.split sum.split)

lemma checked_eq: "checked (r, s) = (case r of Some e \<Rightarrow> Inl e | None \<Rightarrow> Inr (), s)"
  by (simp add: checked_def split: option.split)

lemma start_running: "on_tasks (lf_start lf) (\<lambda>_. Started) st = (r, st') \<Longrightarrow> running st \<Longrightarrow> running st'"
  using start_inv [of "sm_tasks st"] by (auto simp: on_tasks_def running_def split: prod.splits intro!: open_calls_append)

lemma mark_running: "on_tasks (lf_mark lf) (\<lambda>_. Marked) st = (r, st') \<Longrightarrow> running st \<Longrightarrow> running st' \<and> Marked \<in> set (sm_calls st')"
  using mark_inv [of "sm_tasks st"] by (auto simp: on_tasks_def running_def split: prod.splits intro!: open_calls_append)

lemma run_helm_running:
  assumes "run_helm lf en ch vals st = (r, st')" "running st" "Marked \<in> set (sm_calls st)"
  shows "running st' \<and> Ran \<in> set (sm_calls st')"
proof -
  let ?st = "st\<lparr>sm_calls := sm_calls st @ [Ran]\<rparr>"
  obtain r1 st1 where o: "on_cluster (en_run en ch vals) ?st = (r1, st1)" by force
  have "open_calls (sm_calls st @ [Ran])"
  proof (cases "Ran \<in> set (sm_calls st)")
    case True
    with assms(2) show ?thesis by (auto simp: running_def open_calls_def takeWhile_append1)
  next
    case False
    then have "takeWhile (\<lambda>c. c \<noteq> Ran) (sm_calls st @ [Ran]) = sm_calls st" by (subst takeWhile_append2) auto
    with assms(2,3) show ?thesis by (auto simp: running_def open_calls_def)
  qed
  with assms(2) have "running ?st" by (simp add: running_def)
  with o have "running st1" "Ran \<in> set (sm_calls st1)" using cluster_running on_cluster_fields [OF o] by auto
  moreover have "sent_from st1 (send_all lf en ''log'' (rr_lines r1) st1)" by (rule send_all_sent) simp
  ultimately show ?thesis
    using assms(1) o sent_running by (auto simp: run_helm_def sent_from_def)
qed

lemma warnings_running: "running st \<Longrightarrow> running (send_all lf en ''warning'' ms st)"
  by (rule sent_running [OF send_all_sent]) simp_all

lemma logs_running: "running st \<Longrightarrow> running (send_all lf en ''log'' ms st)"
  by (rule sent_running [OF send_all_sent]) simp_all

lemma warnings_calls: "c \<in> set (sm_calls st) \<Longrightarrow> c \<in> set (sm_calls (send_all lf en ''warning'' ms st))"
  using send_all_sent [of "''warning''" st en ms] by (auto simp: sent_from_def)

lemma install_failed_ended: "running st \<Longrightarrow> ended (install_failed lf en release timeout r e st)"
  unfolding install_failed_def finish_failed_def
  by (auto split: prod.split option.split intro!: finish_with_error_ended dest!: cluster_running intro: logs_running)

lemma completed_ended:
  "running st \<Longrightarrow> Ran \<in> set (sm_calls st) \<Longrightarrow>
   ended (case on_cluster (en_readiness en) st of (w, st2) \<Rightarrow> finish_done lf en (send_all lf en ''warning'' (readiness_warning w) st2))"
proof -
  assume st: "running st" "Ran \<in> set (sm_calls st)"
  obtain w st2 where o: "on_cluster (en_readiness en) st = (w, st2)" by force
  with st have "running st2" "Ran \<in> set (sm_calls st2)" using cluster_running on_cluster_fields [OF o] by auto
  with o show ?thesis by (simp add: finish_done_ended warnings_running warnings_calls)
qed

lemma install_helm_ended:
  assumes "running st" "Marked \<in> set (sm_calls st)"
  shows "ended (install_helm lf en release timeout ch vals st)"
proof -
  obtain r st1 where "run_helm lf en ch vals st = (r, st1)" by force
  with run_helm_running [OF this assms] completed_ended install_failed_ended show ?thesis
    by (cases "rr_error r") (auto simp: install_helm_def)
qed

lemma check_chart_running: "check_chart lf en ci vals st = (r, st') \<Longrightarrow> running st \<Longrightarrow> running st'"
  by (auto simp: check_chart_def Let_def split: prod.splits option.splits dest!: cluster_running intro: logs_running)

text \<open>Steps that keep an operation running, before the mark and after it.\<close>

definition keeps :: "(('d, 'k) stream \<Rightarrow> 'a \<times> ('d, 'k) stream) \<Rightarrow> bool" where
  "keeps f \<longleftrightarrow> (\<forall>st r st'. f st = (r, st') \<longrightarrow> running st \<longrightarrow> running st' \<and> set (sm_calls st) \<subseteq> set (sm_calls st'))"

definition ready :: "('d, 'k) stream \<Rightarrow> bool" where
  "ready st \<longleftrightarrow> running st \<and> Marked \<in> set (sm_calls st)"

lemma sent_keeps: "sent_from st st' \<Longrightarrow> running st \<Longrightarrow> running st' \<and> set (sm_calls st) \<subseteq> set (sm_calls st')"
  using sent_running [of st st'] by (auto simp: sent_from_def)

lemma keeps_checked: "keeps f \<Longrightarrow> keeps (\<lambda>st. checked (f st))"
  by (fastforce simp: keeps_def checked_def split: prod.splits option.splits)

lemma keeps_cluster: "keeps (on_cluster f)"
  unfolding keeps_def using cluster_running on_cluster_fields by (metis order_refl)

lemma keeps_pure: "keeps (\<lambda>st. (g st, st))"
  by (simp add: keeps_def)

lemma keeps_start: "keeps (\<lambda>st. on_tasks (lf_start lf) (\<lambda>_. Started) st)"
  unfolding keeps_def
proof (intro allI impI conjI)
  fix st r st'
  assume s: "on_tasks (lf_start lf) (\<lambda>_. Started) st = (r, st')"
  show "running st'" if "running st" using s that by (rule start_running)
  show "set (sm_calls st) \<subseteq> set (sm_calls st')" using s by (auto simp: on_tasks_def split: prod.splits)
qed

lemma keeps_nodes: "keeps (\<lambda>st. case node_check en (sm_cluster st) of (warnings, refusal) \<Rightarrow> checked (refusal, send_all lf en ''warning'' warnings st))"
  unfolding keeps_def
proof (intro allI impI)
  fix st r st'
  assume s: "(case node_check en (sm_cluster st) of (warnings, refusal) \<Rightarrow> checked (refusal, send_all lf en ''warning'' warnings st)) = (r, st')"
    and st: "running st"
  obtain warnings refusal where n: "node_check en (sm_cluster st) = (warnings, refusal)" by force
  with s have "st' = send_all lf en ''warning'' warnings st" by (simp add: checked_def split: option.splits)
  then show "running st' \<and> set (sm_calls st) \<subseteq> set (sm_calls st')" using sent_keeps [OF send_all_sent st] by simp
qed

lemma capabilities_keeps:
  assumes "on_cluster f st = (ls, st1)" "running st"
  shows "running (send_all lf en ''log'' ls st1) \<and> set (sm_calls st) \<subseteq> set (sm_calls (send_all lf en ''log'' ls st1))"
  using sent_keeps [OF send_all_sent, of "''log''" st1 en ls] cluster_running [OF assms] on_cluster_fields [OF assms(1)] by simp

lemma keeps_logged:
  assumes "\<And>st. snd (g st) = st"
  shows "keeps (\<lambda>st. case on_cluster f st of (ls, st1) \<Rightarrow> g (send_all lf en ''log'' ls st1))"
  unfolding keeps_def
proof (intro allI impI)
  fix st r st'
  assume s: "(case on_cluster f st of (ls, st1) \<Rightarrow> g (send_all lf en ''log'' ls st1)) = (r, st')" and st: "running st"
  obtain ls st1 where o: "on_cluster f st = (ls, st1)" by force
  with s have "g (send_all lf en ''log'' ls st1) = (r, st')" by simp
  with assms have "st' = send_all lf en ''log'' ls st1" by (metis snd_conv)
  then show "running st' \<and> set (sm_calls st) \<subseteq> set (sm_calls st')" using capabilities_keeps [OF o st] by simp
qed

lemma keeps_check_chart: "keeps (check_chart lf en ci vals)"
  unfolding check_chart_def Let_def by (rule keeps_logged) (simp split: option.split)

lemma keeps_check_release:
  "keeps (\<lambda>st. case on_cluster f st of (ls, st1) \<Rightarrow> (let st2 = send_all lf en ''log'' ls st1 in checked (g st2, st2)))"
  unfolding Let_def by (rule keeps_logged) (simp add: checked_def split: option.split)

lemmas keeps_steps = keeps_checked keeps_start keeps_nodes keeps_check_chart keeps_check_release keeps_cluster keeps_pure

lemma attempt_running:
  assumes "running st" "keeps f" "\<And>a st'. running st' \<Longrightarrow> ended (k a st')"
  shows "ended (attempt lf en f k st)"
  using assms(1) assms(2)[unfolded keeps_def] by (intro attempt_ended assms) blast+

lemma attempt_ready:
  assumes "ready st" "keeps f" "\<And>a st'. ready st' \<Longrightarrow> ended (k a st')"
  shows "ended (attempt lf en f k st)"
  using assms(1) assms(2)[unfolded keeps_def] unfolding ready_def
  by (intro attempt_ended assms(3)) (auto simp: ready_def)

lemma attempt_mark:
  assumes "running st" "\<And>a st'. ready st' \<Longrightarrow> ended (k a st')"
  shows "ended (attempt lf en (\<lambda>st. checked (on_tasks (lf_mark lf) (\<lambda>_. Marked) st)) k st)"
  using assms(1) mark_running
  by (intro attempt_ended assms(2)) (fastforce simp: checked_def ready_def split: prod.splits option.splits)+

lemma ended_case: "(\<And>x y. p = (x, y) \<Longrightarrow> ended (f x y st)) \<Longrightarrow> ended ((case p of (x, y) \<Rightarrow> f x y) st)"
  by (cases p) simp

lemma ready_warnings: "ready st \<Longrightarrow> ready (send_all lf en ''warning'' ms st)"
  by (simp add: ready_def warnings_running warnings_calls)

lemma install_ready: "ready st \<Longrightarrow> ended (install_helm lf en release timeout ch vals st)"
  by (simp add: ready_def install_helm_ended)

lemma install_stream_ended: "running st \<Longrightarrow> ended (install_stream lf en release repo_url values_yaml baseline_yaml st)"
  unfolding install_stream_def
  by (assumption | rule attempt_mark | rule attempt_running | rule keeps_steps | rule ended_case | rule warnings_running | rule install_ready)+

lemma upgrade_run_ended:
  assumes "ready st"
  shows "ended (case run_helm lf en ch vals st of
     (r, st1) \<Rightarrow>
       (case rr_error r of
          Some e \<Rightarrow> finish_with_error lf en e (send_all lf en ''log'' (en_diagnostics en (sm_cluster st1)) st1)
        | None \<Rightarrow>
            (case on_cluster (en_readiness en) st1 of
               (w, st2) \<Rightarrow> finish_done lf en (send_all lf en ''warning'' (readiness_warning w) st2))))"
proof -
  obtain r st1 where run: "run_helm lf en ch vals st = (r, st1)" by force
  with assms run_helm_running [OF run] have st1: "running st1" "Ran \<in> set (sm_calls st1)" by (simp_all add: ready_def)
  show ?thesis
  proof (cases "rr_error r")
    case None
    with run completed_ended [OF st1] show ?thesis by simp
  next
    case (Some e)
    with run show ?thesis by (simp add: finish_with_error_ended [OF logs_running [OF st1(1)]])
  qed
qed

lemma upgrade_release_ended: "ready st \<Longrightarrow> ended (upgrade_release lf en release repo_url values_yaml baseline_yaml st)"
  unfolding upgrade_release_def
  by (assumption | rule attempt_ready | rule keeps_steps | rule ended_case | rule ready_warnings | rule upgrade_run_ended)+

lemma upgrade_stream_ended: "running st \<Longrightarrow> ended (upgrade_stream lf en release repo_url values_yaml baseline_yaml st)"
  unfolding upgrade_stream_def
  by (rule attempt_running, assumption, rule keeps_steps, rule keeps_start, rule attempt_mark, assumption, erule upgrade_release_ended)

end

interpretation any_lifecycle: outcome_lifecycle lf "\<lambda>_. True" "\<lambda>_ _. True" for lf
  by unfold_locales simp_all

lemma any_running: "any_lifecycle.running (new_stream d k)"
  by (simp add: any_lifecycle.running_def new_stream_def open_calls_def)

text \<open>The one outcome: what comes before it and after it, and what the client may have been told.\<close>

definition one_outcome :: "('d, 'k) stream \<Rightarrow> bool" where
  "one_outcome st \<longleftrightarrow> (\<exists>before e r after. sm_calls st = before @ [Finished e r] @ map Recorded after \<and> open_calls before \<and>
     (e = None \<longrightarrow> Ran \<in> set before) \<and> (done_event \<in> set (sm_events st) \<longrightarrow> e = None \<and> r = None))"

text \<open>
  C28: an install or upgrade, however it goes, calls \<open>Finish\<close> exactly once; before that it runs Helm only after
  the phase was marked, after it only lines are recorded; success is recorded only when Helm ran; the client
  is told \<open>done\<close> only when success was to be recorded and \<open>Finish\<close> confirmed it.
\<close>

theorem one_outcome_each:
  "list_all (\<lambda>run. one_outcome (run lf en release repo_url values_yaml baseline_yaml (new_stream d k)))
     [install_stream, upgrade_stream]"
  using any_lifecycle.install_stream_ended [OF any_running, of lf en release repo_url values_yaml baseline_yaml d k]
    any_lifecycle.upgrade_stream_ended [OF any_running, of lf en release repo_url values_yaml baseline_yaml d k]
  by (simp add: any_lifecycle.ended_def one_outcome_def)

end
