(* ===== verification/HelmOperation.thy ===== *)
theory HelmOperation
  imports HelmPipeline HelmRecorder
begin

text \<open>
  The recorder (object/helm_operation_recorder.go) as the lifecycle of an install or upgrade (store/helm.go):
  what the task's row says when the client is told that the operation is done.

  The state is the recorder, the database and the result \<open>finish.Do\<close> keeps. The other goroutines run between
  the calls: \<open>sched n\<close> is what they do during the \<open>n\<close>-th call, some steps of the recorder.
\<close>

section \<open>The lifecycle of a task\<close>

record 'db operation =
  op_calls :: nat
  op_rec :: recorder
  op_db :: 'db
  op_finish :: "failure option option"

definition new_operation :: "'db \<Rightarrow> 'db operation" where
  "new_operation db = \<lparr>op_calls = 0, op_rec = new_recorder, op_db = db, op_finish = None\<rparr>"

record 'db recorder_env =
  re_store :: "'db helm_store"
  re_task :: int
  re_clock :: "nat \<Rightarrow> nat \<Rightarrow> int"
  re_sched :: "nat \<Rightarrow> recorder \<times> 'db \<Rightarrow> recorder \<times> 'db"
  re_full :: "nat \<Rightarrow> bool"
  re_cancelled :: "helm_error \<Rightarrow> bool"
  re_told :: "bool \<Rightarrow> helm_error \<Rightarrow> failure"

text \<open>A call on the record of the tasks, the others running first.\<close>

definition on_record ::
  "'db recorder_env \<Rightarrow> ((nat \<Rightarrow> int) \<Rightarrow> 'db \<Rightarrow> (helm_error, unit) result \<times> 'db) \<Rightarrow> 'db operation \<Rightarrow> failure option \<times> 'db operation" where
  "on_record re f st =
     (let n = op_calls st; (r, db) = re_sched re n (op_rec st, op_db st); (res, db) = f (re_clock re n) db
      in (case res of Inl e \<Rightarrow> Some (re_told re False e) | Inr _ \<Rightarrow> None,
          st\<lparr>op_calls := n + 1, op_rec := r, op_db := db\<rparr>))"

definition start_loading :: "'db recorder_env \<Rightarrow> 'db operation \<Rightarrow> failure option \<times> 'db operation" where
  "start_loading re = on_record re (\<lambda>now. start_helm_task (re_store re) (re_task re) ph_loading (now 0))"

definition mark_installing :: "'db recorder_env \<Rightarrow> 'db operation \<Rightarrow> failure option \<times> 'db operation" where
  "mark_installing re = on_record re (\<lambda>now. update_helm_phase (re_store re) (re_task re) ph_installing (now 0))"

text \<open>A line is handed over unless the recorder is closed; it may find the queue full for too long.\<close>

definition record_log :: "'db recorder_env \<Rightarrow> string \<Rightarrow> 'db operation \<Rightarrow> failure option \<times> 'db operation" where
  "record_log re line st =
     (let n = op_calls st; r = op_rec st in
      if gate_closed r then (Some (plain ''Helm operation recorder is closed''), st\<lparr>op_calls := n + 1\<rparr>)
      else
        (let (r, db) = re_sched re n (r\<lparr>writers := writers r @ [log_entry (re_task re) line (re_clock re n 0)]\<rparr>, op_db st)
         in (if re_full re n then Some (plain ''Helm operation log queue is full'') else None,
             st\<lparr>op_calls := n + 1, op_rec := r, op_db := db\<rparr>)))"

text \<open>The first \<open>Finish\<close> closes the gate, lets the worker end, and records; later calls repeat its result.\<close>

definition finish_operation :: "'db recorder_env \<Rightarrow> failure option \<Rightarrow> 'db operation \<Rightarrow> failure option \<times> 'db operation" where
  "finish_operation re e st =
     (case op_finish st of
        Some res \<Rightarrow> (res, st)
      | None \<Rightarrow>
          (let n = op_calls st;
               (r, db) = re_sched re n ((op_rec st)\<lparr>gate_closed := True\<rparr>, op_db st);
               (res, db) = recorder_finish (re_store re) (re_cancelled re) (re_task re) (e = None)
                 (case e of None \<Rightarrow> [] | Some x \<Rightarrow> fl_text x) (re_clock re n) db;
               res = map_option (re_told re (batch_failed r)) res
           in (res, st\<lparr>op_calls := n + 1, op_rec := r, op_db := db, op_finish := Some res\<rparr>)))"

definition recorder_lifecycle :: "'db recorder_env \<Rightarrow> 'db operation install_lifecycle" where
  "recorder_lifecycle re =
     \<lparr>lf_start = start_loading re, lf_mark = mark_installing re, lf_record = record_log re, lf_finish = finish_operation re\<rparr>"

lemma finish_again: "snd (finish_operation re e' (snd (finish_operation re e st))) = snd (finish_operation re e st) \<and>
    fst (finish_operation re e' (snd (finish_operation re e st))) = fst (finish_operation re e st)"
  by (auto simp: finish_operation_def Let_def split: option.split prod.split)

section \<open>It is one\<close>

definition fair_sched :: "'db recorder_env \<Rightarrow> bool" where
  "fair_sched re \<longleftrightarrow> (\<forall>n s. (rec_step (re_store re) (re_task re))\<^sup>*\<^sup>* s (re_sched re n s))"

definition operation_ok :: "(string \<Rightarrow> string) \<Rightarrow> ('db \<Rightarrow> helm_task list) \<Rightarrow> 'db operation \<Rightarrow> bool" where
  "operation_ok sha tc st \<longleftrightarrow> tasks_ok sha (tc (op_db st)) \<and> op_finish st = None"

definition operation_outcome :: "('db \<Rightarrow> helm_task list) \<Rightarrow> int \<Rightarrow> failure option \<Rightarrow> 'db operation \<Rightarrow> bool" where
  "operation_outcome tc tid e st \<longleftrightarrow>
     row_outcome (tc (op_db st)) tid (e = None) (case e of None \<Rightarrow> [] | Some x \<Rightarrow> fl_text x)"

context helm_engine
begin

lemma flush_ok: "tasks_ok sha (tc db) \<Longrightarrow> tasks_ok sha (tc (snd (flush (\<lambda>ls. add_helm_logs S tid ls now) r db)))"
  using steps_ok [OF add_logs_steps] by (auto simp: flush_def Let_def split: prod.split) (metis snd_conv)

lemma rec_step_tasks: "rec_step S tid s s' \<Longrightarrow> tasks_ok sha (tc (snd s)) \<Longrightarrow> tasks_ok sha (tc (snd s'))"
proof (induction rule: rec_step.induct)
  case (receive r now db)
  then show ?case using flush_ok by (auto simp: receive_def Let_def split: list.split)
next
  case (heartbeat r db now)
  then show ?case using tasks_ok_step [OF touch_step] by simp
next
  case (stop r now db r' db')
  then show ?case using flush_ok [of sha db tid now r] by simp
qed (auto intro: flush_ok)

lemma rec_steps_tasks: "(rec_step S tid)\<^sup>*\<^sup>* s s' \<Longrightarrow> tasks_ok sha (tc (snd s)) \<Longrightarrow> tasks_ok sha (tc (snd s'))"
  by (induction rule: rtranclp_induct) (auto intro: rec_step_tasks)

lemma sched_tasks: "fair_sched re \<Longrightarrow> re_store re = S \<Longrightarrow> tasks_ok sha (tc db) \<Longrightarrow> re_sched re n (r, db) = (r', db') \<Longrightarrow>
    tasks_ok sha (tc db')"
  unfolding fair_sched_def using rec_steps_tasks by (metis snd_conv)

lemma on_record_ok:
  assumes "fair_sched re" "re_store re = S" "operation_ok sha tc st" "\<And>now db. task_step sha (tc db) (tc (snd (f now db)))"
  shows "operation_ok sha tc (snd (on_record re f st))"
proof -
  obtain r db where s: "re_sched re (op_calls st) (op_rec st, op_db st) = (r, db)" by force
  with assms sched_tasks have "tasks_ok sha (tc db)" unfolding operation_ok_def by blast
  with assms(4) tasks_ok_step have "tasks_ok sha (tc (snd (f (re_clock re (op_calls st)) db)))" by blast
  with s assms(3) show ?thesis
    by (cases "f (re_clock re (op_calls st)) db") (simp add: on_record_def operation_ok_def Let_def)
qed

lemma record_log_ok:
  assumes "fair_sched re" "re_store re = S" "operation_ok sha tc st"
  shows "operation_ok sha tc (snd (record_log re line st))"
  using assms sched_tasks by (auto simp: record_log_def operation_ok_def Let_def split: prod.split)

lemma recorder_is_lifecycle:
  assumes "fair_sched re" "re_store re = S" "0 < re_task re"
  shows "outcome_lifecycle (recorder_lifecycle re) (operation_ok sha tc) (operation_outcome tc (re_task re))"
proof
  fix st assume ok: "operation_ok sha tc st"
  show "operation_ok sha tc (snd (lf_start (recorder_lifecycle re) st))"
    using on_record_ok [OF assms(1,2) ok] start_step by (simp add: recorder_lifecycle_def start_loading_def assms(2))
  show "operation_ok sha tc (snd (lf_mark (recorder_lifecycle re) st))"
    using on_record_ok [OF assms(1,2) ok] phase_step by (simp add: recorder_lifecycle_def mark_installing_def assms(2))
next
  fix m st assume "operation_ok sha tc st"
  then show "operation_ok sha tc (snd (lf_record (recorder_lifecycle re) m st))"
    using record_log_ok [OF assms(1,2)] by (simp add: recorder_lifecycle_def)
next
  fix e st st'
  assume ok: "operation_ok sha tc st" and f: "lf_finish (recorder_lifecycle re) e st = (None, st')"
  let ?msg = "case e of None \<Rightarrow> [] | Some x \<Rightarrow> fl_text x"
  obtain r db where s: "re_sched re (op_calls st) ((op_rec st)\<lparr>gate_closed := True\<rparr>, op_db st) = (r, db)" by force
  obtain res db' where fin: "recorder_finish S (re_cancelled re) (re_task re) (e = None) ?msg (re_clock re (op_calls st)) db = (res, db')"
    by force
  from f s fin ok have "res = None" and db': "op_db st' = db'"
    by (auto simp: recorder_lifecycle_def finish_operation_def operation_ok_def Let_def assms(2))
  from ok have "tasks_ok sha (tc (op_db st))" by (simp add: operation_ok_def)
  then have "tasks_ok sha (tc db)" using s by (rule sched_tasks [OF assms(1,2)])
  note store = helm_outcome_store [OF assms(3), of "e = None" ?msg "re_clock re (op_calls st)" sha]
  have "row_outcome (tc db') (re_task re) (e = None) ?msg"
    using fin \<open>res = None\<close> unfolding recorder_finish_def
    by (intro outcome_store.retry_outcome [OF store \<open>tasks_ok sha (tc db)\<close>]) (auto simp: finish_attempts_def)
  with db' show "operation_outcome tc (re_task re) e st'" by (simp add: operation_outcome_def)
qed

end

section \<open>What the client is told is what the record says\<close>

definition quiet_env :: "int \<Rightarrow> helm_mem recorder_env" where
  "quiet_env tid =
     \<lparr>re_store = mem_store, re_task = tid, re_clock = (\<lambda>n k. int n), re_sched = (\<lambda>n s. s), re_full = (\<lambda>_. False),
      re_cancelled = (\<lambda>_. False), re_told = (\<lambda>_ _. plain ''finish'')\<rparr>"

lemma quiet_fair: "fair_sched (quiet_env tid)"
  by (simp add: fair_sched_def quiet_env_def)

interpretation recorder_lifecycle_memory: outcome_lifecycle "recorder_lifecycle (quiet_env 1)"
  "operation_ok sha (\<lambda>db. mrows (m_tasks db))" "operation_outcome (\<lambda>db. mrows (m_tasks db)) 1" for sha
  using helm_memory.recorder_is_lifecycle [OF quiet_fair, of 1 sha] by (simp add: quiet_env_def)

text \<open>
  C29: the task of an install or upgrade and what the client is told agree: the outcome given to \<open>Finish\<close> is what
  the task's row holds unless \<open>Finish\<close> reports an error, and a client told \<open>done\<close> finds the task succeeded, in
  every engine that keeps its contract, whatever the recorder's worker does meanwhile.
\<close>

theorem outcome_recorded:
  assumes "helm_engine S tc lc" and "tasks_ok sha (tc db)" and "fair_sched re" and "re_store re = S" and "0 < re_task re"
    and "run \<in> {install_stream, upgrade_stream}"
    and "st = run (recorder_lifecycle re) en release repo_url values_yaml baseline_yaml (new_stream (new_operation db) k)"
  shows "\<exists>e r. Finished e r \<in> set (sm_calls st) \<and> (r = None \<longrightarrow> operation_outcome tc (re_task re) e (sm_tasks st)) \<and>
     (done_event \<in> set (sm_events st) \<longrightarrow> row_outcome (tc (op_db (sm_tasks st))) (re_task re) True [])"
proof -
  note lc = helm_engine.recorder_is_lifecycle [OF assms(1,3,4,5), of sha]
  have "outcome_lifecycle.running (operation_ok sha tc) (new_stream (new_operation db) k)"
    using assms(2) by (simp add: outcome_lifecycle.running_def [OF lc] new_stream_def new_operation_def open_calls_def operation_ok_def)
  then have "outcome_lifecycle.ended (operation_outcome tc (re_task re)) st"
    using assms(6,7) outcome_lifecycle.install_stream_ended [OF lc] outcome_lifecycle.upgrade_stream_ended [OF lc] by auto
  then obtain before e r after where "sm_calls st = before @ [Finished e r] @ map Recorded after"
    and "done_event \<in> set (sm_events st) \<longrightarrow> e = None \<and> r = None" and "r = None \<longrightarrow> operation_outcome tc (re_task re) e (sm_tasks st)"
    unfolding outcome_lifecycle.ended_def [OF lc] by blast
  then show ?thesis by (intro exI [of _ e] exI [of _ r]) (auto simp: operation_outcome_def)
qed

text \<open>An engine in memory, a chart that installs at once.\<close>

definition demo_env :: "unit install_env" where
  "demo_env =
     \<lparr>en_lib = \<lparr>kl_gvk_text = (\<lambda>_. []), kl_parse_gv = (\<lambda>s. Inr ([], s)), kl_accessor = (\<lambda>_ _. plain []), kl_quote = (\<lambda>s. s)\<rparr>,
      en_decode = (\<lambda>_. ([], None)), en_yaml = (\<lambda>_. Inl ''no''), en_parse = (\<lambda>_. Inr []), en_marshal = (\<lambda>_. Inr []),
      en_values_text = (\<lambda>_. []), en_random = Inr ''r'', en_timeout = Inr 1, en_report = None, en_now = (\<lambda>_. 0),
      en_config = (\<lambda>k. (None, k)),
      en_nodes = (\<lambda>_. Inr [\<lparr>hn_unschedulable = False, hn_conditions = [(''Ready'', ''True'', None)]\<rparr>]),
      en_load = (\<lambda>k. (Inr (\<lparr>ch_name = ''c'', ch_values = [], ch_coalesce = Inr\<rparr>,
         \<lparr>ci_name = ''c'', ci_type = Some [], ci_crds = []\<rparr>), k)),
      en_installed = (\<lambda>_. None), en_cluster = (\<lambda>_. no_cluster), en_capabilities = (\<lambda>k. ([], k)),
      en_target = (\<lambda>_ _. \<lparr>tg_namespace = Inr True, tg_dry_run = (\<lambda>_. Inr []), tg_upgrade_run = (\<lambda>_. Inr []), tg_classes = Some (Inr []),
         tg_adapter = None, tg_api = \<lparr>ka_ctx = (\<lambda>_. None), ka_mapping = (\<lambda>_ _. None), ka_crd = (\<lambda>_ _. Inr None)\<rparr>\<rparr>),
      en_rendered = (\<lambda>_ _. Inr []),
      en_run = (\<lambda>_ _ k. (\<lparr>rr_lines = [''creating 1 resource(s)''], rr_error = None, rr_release = None, rr_reason = []\<rparr>, k)),
      en_diagnostics = (\<lambda>_. []), en_store = \<lparr>hs_last = (\<lambda>_ _. Inl (plain [])), hs_uninstall = (\<lambda>_ _ k. (None, k))\<rparr>,
      en_readiness = (\<lambda>k. (None, k)), en_deliver = (\<lambda>_ k. (True, k))\<rparr>"

definition demo_task :: helm_mem where
  "demo_task = empty_mem\<lparr>m_tasks := \<lparr>mrows =
     [(new_task (\<lambda>_. ''k'') ''o'' ''install'' ''r'' ''n'' ''c'' [] [] 1)\<lparr>ht_id := 1\<rparr>], mnext = 1, mfaults = []\<rparr>\<rparr>"

definition demo_run :: "(helm_mem operation, unit) stream" where
  "demo_run = install_stream (recorder_lifecycle (quiet_env 1)) demo_env ''r'' [] [] [] (new_stream (new_operation demo_task) ())"

lemma demo_run_done: "done_event \<in> set (sm_events demo_run)"
  by code_simp

theorem outcome_recorded_witness:
  "done_event \<in> set (sm_events demo_run) \<and>
   (\<exists>t \<in> set (mrows (m_tasks (op_db (sm_tasks demo_run)))). ht_id t = 1 \<and> terminal_outcome True [] t)"
proof -
  have "tasks_ok (\<lambda>_. ''k'') (mrows (m_tasks demo_task))"
    by (simp add: demo_task_def tasks_ok_def task_ok_def unique_keys_def active_task_def new_task_def helm_active_key_def
        is_supported_helm_operation_def map_filter_simps)
  from outcome_recorded [where run = install_stream and re = "quiet_env 1" and db = demo_task, OF mem_store_engine this quiet_fair _ _ _ demo_run_def] demo_run_done show ?thesis
    by (auto simp: quiet_env_def row_outcome_def)
qed

end
