(* ===== verification/GoUrl.thy ===== *)
theory GoUrl
  imports GoNet GoStrings "HOL-Library.AList"
begin

text \<open>
  The part of Go's package net/url that the Helm code calls: \<open>Parse\<close>, \<open>String\<close>, \<open>Query\<close> and
  \<open>Values.Encode\<close>. Parameter: the host rules (\<open>parseHost\<close>: brackets, ports, zones), which Go releases change.
\<close>

section \<open>Escaping\<close>

datatype url_part = Part_Path | Part_User | Part_Query | Part_Fragment | Part_Host

definition should_escape :: "url_part \<Rightarrow> char \<Rightarrow> bool" where
  "should_escape m c =
     (if ascii_letter c \<or> is_digit c then False
      else if m = Part_Host \<and> c \<in> set (squote # dquote # ''!$&()*+,;=:[]<>'') then False
      else if c \<in> set ''-_.~'' then False
      else if c \<in> set ''$&+,/:;=?@'' then
        (case m of
           Part_Path \<Rightarrow> c = CHR ''?''
         | Part_User \<Rightarrow> c \<in> set ''@/?:''
         | Part_Query \<Rightarrow> True
         | Part_Fragment \<Rightarrow> False
         | Part_Host \<Rightarrow> True)
      else if m = Part_Fragment \<and> c \<in> set ''!()*'' then False
      else True)"

definition upper_hex :: "nat \<Rightarrow> char" where "upper_hex n = ''0123456789ABCDEF'' ! n"

definition escape_char :: "url_part \<Rightarrow> char \<Rightarrow> string" where
  "escape_char m c =
     (if c = CHR '' '' \<and> m = Part_Query then ''+''
      else if should_escape m c then (let n = of_char c :: nat in [CHR ''%'', upper_hex (n div 16), upper_hex (n mod 16)])
      else [c])"

definition escape :: "url_part \<Rightarrow> string \<Rightarrow> string" where
  "escape m s = concat (map (escape_char m) s)"

fun unescape :: "url_part \<Rightarrow> string \<Rightarrow> string option" where
  "unescape m [] = Some []"
| "unescape m (c # s) =
     (if c = CHR ''%'' then
        (case s of
           a # b # t \<Rightarrow>
             (case (hex_value a, hex_value b) of
                (Some x, Some y) \<Rightarrow> map_option ((#) (char_of (16 * x + y))) (unescape m t)
              | _ \<Rightarrow> None)
         | _ \<Rightarrow> None)
      else if c = CHR ''+'' \<and> m = Part_Query then map_option ((#) (CHR '' '')) (unescape m s)
      else map_option ((#) c) (unescape m s))"

section \<open>Parsing\<close>

record url =
  ur_scheme :: string
  ur_opaque :: string
  ur_user :: "(string \<times> string option) option"
  ur_host :: string
  ur_path :: string
  ur_raw_path :: string
  ur_omit_host :: bool
  ur_force_query :: bool
  ur_query :: string
  ur_fragment :: string
  ur_raw_fragment :: string

definition no_url :: url where
  "no_url = \<lparr>ur_scheme = [], ur_opaque = [], ur_user = None, ur_host = [], ur_path = [], ur_raw_path = [],
     ur_omit_host = False, ur_force_query = False, ur_query = [], ur_fragment = [], ur_raw_fragment = []\<rparr>"

definition control_byte :: "char \<Rightarrow> bool" where
  "control_byte c \<longleftrightarrow> (of_char c :: nat) < 32 \<or> c = CHR 0x7F"

text \<open>\<open>getScheme\<close>: None is a missing scheme before a colon.\<close>

fun scheme_from :: "string \<Rightarrow> string \<Rightarrow> string \<Rightarrow> (string \<times> string) option" where
  "scheme_from whole acc [] = Some ([], whole)"
| "scheme_from whole acc (c # s) =
     (if ascii_letter c then scheme_from whole (acc @ [c]) s
      else if is_digit c \<or> c \<in> set ''+-.'' then
        (if acc = [] then Some ([], whole) else scheme_from whole (acc @ [c]) s)
      else if c = CHR '':'' then (if acc = [] then None else Some (acc, s))
      else Some ([], whole))"

definition get_scheme :: "string \<Rightarrow> (string \<times> string) option" where
  "get_scheme raw = scheme_from raw [] raw"

definition userinfo_char :: "char \<Rightarrow> bool" where
  "userinfo_char c \<longleftrightarrow> ascii_letter c \<or> is_digit c \<or> c \<in> set (squote # ''-._:~!$&()*+,;=%@'')"

type_synonym host_rules = "string \<Rightarrow> string \<Rightarrow> string option"

definition parse_userinfo :: "string \<Rightarrow> (string \<times> string option) option" where
  "parse_userinfo s =
     (if \<not> list_all userinfo_char s then None
      else if CHR '':'' \<notin> set s then map_option (\<lambda>u. (u, None)) (unescape Part_User s)
      else (case cut s '':'' of (name, password, _) \<Rightarrow>
        (case unescape Part_User name of
           None \<Rightarrow> None
         | Some u \<Rightarrow> map_option (\<lambda>p. (u, Some p)) (unescape Part_User password))))"

definition parse_authority :: "host_rules \<Rightarrow> string \<Rightarrow> string \<Rightarrow> ((string \<times> string option) option \<times> string) option" where
  "parse_authority hp scheme authority =
     (case last_index authority (CHR ''@'') of
        None \<Rightarrow> map_option (\<lambda>h. (None, h)) (hp scheme authority)
      | Some i \<Rightarrow>
          (case hp scheme (drop (i + 1) authority) of
             None \<Rightarrow> None
           | Some h \<Rightarrow> map_option (\<lambda>u. (Some u, h)) (parse_userinfo (take i authority))))"

definition set_path :: "string \<Rightarrow> url \<Rightarrow> url option" where
  "set_path p u =
     (case unescape Part_Path p of
        None \<Rightarrow> None
      | Some path \<Rightarrow> Some (u\<lparr>ur_path := path, ur_raw_path := if p = escape Part_Path path then [] else p\<rparr>))"

definition set_fragment :: "string \<Rightarrow> url \<Rightarrow> url option" where
  "set_fragment f u =
     (case unescape Part_Fragment f of
        None \<Rightarrow> None
      | Some frag \<Rightarrow> Some (u\<lparr>ur_fragment := frag, ur_raw_fragment := if f = escape Part_Fragment frag then [] else f\<rparr>))"

definition take_query :: "string \<Rightarrow> string \<times> string \<times> bool" where
  "take_query rest =
     (if has_suffix rest ''?'' \<and> count_list rest (CHR ''?'') = 1 then (butlast rest, [], True)
      else (case cut rest ''?'' of (a, q, _) \<Rightarrow> (a, q, False)))"

definition parse_hierarchy :: "host_rules \<Rightarrow> string \<Rightarrow> url \<Rightarrow> url option" where
  "parse_hierarchy hp rest u =
     (if \<not> has_prefix rest ''/'' \<and> ur_scheme u \<noteq> [] then Some (u\<lparr>ur_opaque := rest\<rparr>)
      else if \<not> has_prefix rest ''/'' \<and> CHR '':'' \<in> set (fst (cut rest ''/'')) then None
      else if (ur_scheme u \<noteq> [] \<or> \<not> has_prefix rest ''///'') \<and> has_prefix rest ''//'' then
        (let authority = takeWhile (\<lambda>c. c \<noteq> CHR ''/'') (drop 2 rest);
             path = dropWhile (\<lambda>c. c \<noteq> CHR ''/'') (drop 2 rest)
         in case parse_authority hp (ur_scheme u) authority of
              None \<Rightarrow> None
            | Some (user, host) \<Rightarrow> set_path path (u\<lparr>ur_user := user, ur_host := host\<rparr>))
      else if ur_scheme u \<noteq> [] \<and> has_prefix rest ''/'' then set_path rest (u\<lparr>ur_omit_host := True\<rparr>)
      else set_path rest u)"

definition parse_before_fragment :: "host_rules \<Rightarrow> string \<Rightarrow> url option" where
  "parse_before_fragment hp raw =
     (if list_ex control_byte raw then None
      else if raw = ''*'' then Some (no_url\<lparr>ur_path := ''*''\<rparr>)
      else (case get_scheme raw of
              None \<Rightarrow> None
            | Some (scheme, rest) \<Rightarrow>
                (case take_query rest of (hier, query, force) \<Rightarrow>
                   parse_hierarchy hp hier
                     (no_url\<lparr>ur_scheme := to_lower scheme, ur_query := query, ur_force_query := force\<rparr>))))"

definition url_parse :: "host_rules \<Rightarrow> string \<Rightarrow> url option" where
  "url_parse hp raw =
     (case cut raw ''#'' of (body, frag, _) \<Rightarrow>
        (case parse_before_fragment hp body of
           None \<Rightarrow> None
         | Some u \<Rightarrow> if frag = [] then Some u else set_fragment frag u))"

section \<open>Printing\<close>

definition valid_encoded :: "url_part \<Rightarrow> string \<Rightarrow> bool" where
  "valid_encoded m s = list_all (\<lambda>c. c \<in> set (squote # ''!$&()*+,;=:@[]%'') \<or> \<not> should_escape m c) s"

definition escaped_path :: "url \<Rightarrow> string" where
  "escaped_path u =
     (if ur_raw_path u \<noteq> [] \<and> valid_encoded Part_Path (ur_raw_path u)
         \<and> unescape Part_Path (ur_raw_path u) = Some (ur_path u) then ur_raw_path u
      else if ur_path u = ''*'' then ''*''
      else escape Part_Path (ur_path u))"

definition escaped_fragment :: "url \<Rightarrow> string" where
  "escaped_fragment u =
     (if ur_raw_fragment u \<noteq> [] \<and> valid_encoded Part_Fragment (ur_raw_fragment u)
         \<and> unescape Part_Fragment (ur_raw_fragment u) = Some (ur_fragment u) then ur_raw_fragment u
      else escape Part_Fragment (ur_fragment u))"

definition userinfo_string :: "string \<times> string option \<Rightarrow> string" where
  "userinfo_string ui =
     (case ui of (name, password) \<Rightarrow>
        (if name = [] \<and> (password = None \<or> password = Some []) then []
         else escape Part_User name @
           (case password of None \<Rightarrow> [] | Some p \<Rightarrow> CHR '':'' # escape Part_User p)))"

definition url_front :: "url \<Rightarrow> string" where
  "url_front u =
     (if ur_scheme u = [] then [] else ur_scheme u @ '':'') @
     (if ur_scheme u = [] \<and> ur_host u = [] \<and> ur_user u = None then []
      else if ur_omit_host u \<and> ur_host u = [] \<and> ur_user u = None then []
      else
        (if ur_host u \<noteq> [] \<or> ur_path u \<noteq> [] \<or> ur_user u \<noteq> None then ''//'' else []) @
        (case ur_user u of None \<Rightarrow> [] | Some ui \<Rightarrow> userinfo_string ui @ ''@'') @
        escape Part_Host (ur_host u))"

definition url_middle :: "url \<Rightarrow> string" where
  "url_middle u =
     (if ur_opaque u \<noteq> [] then (if ur_scheme u = [] then [] else ur_scheme u @ '':'') @ ur_opaque u
      else
        (let path = escaped_path u;
             front = url_front u @ (if path \<noteq> [] \<and> hd path \<noteq> CHR ''/'' \<and> ur_host u \<noteq> [] then ''/'' else [])
         in front @ (if front = [] \<and> CHR '':'' \<in> set (fst (cut path ''/'')) then ''./'' else []) @ path))"

definition url_string :: "url \<Rightarrow> string" where
  "url_string u =
     url_middle u @
     (if ur_force_query u \<or> ur_query u \<noteq> [] then CHR ''?'' # ur_query u else []) @
     (if ur_fragment u \<noteq> [] then CHR ''#'' # escaped_fragment u else [])"

section \<open>Queries\<close>

text \<open>A query is its keys with their values in order of arrival. \<open>Query()\<close> drops what it cannot read.\<close>

type_synonym query_values = "(string \<times> string list) list"

definition add_value :: "string \<Rightarrow> string \<Rightarrow> query_values \<Rightarrow> query_values" where
  "add_value k v m = AList.update k ((case map_of m k of None \<Rightarrow> [] | Some vs \<Rightarrow> vs) @ [v]) m"

definition read_pair :: "string \<Rightarrow> (string \<times> string) option" where
  "read_pair part =
     (if CHR '';'' \<in> set part \<or> part = [] then None
      else (case cut part ''='' of (key, value, _) \<Rightarrow>
        (case (unescape Part_Query key, unescape Part_Query value) of
           (Some k, Some v) \<Rightarrow> Some (k, v)
         | _ \<Rightarrow> None)))"

definition parse_query :: "string \<Rightarrow> query_values" where
  "parse_query q =
     foldl (\<lambda>m part. case read_pair part of None \<Rightarrow> m | Some (k, v) \<Rightarrow> add_value k v m) [] (split_on (CHR ''&'') q)"

definition encode_values :: "query_values \<Rightarrow> string" where
  "encode_values m =
     join ''&'' (concat (map (\<lambda>(k, vs). map (\<lambda>v. escape Part_Query k @ ''='' @ escape Part_Query v) vs) (sort_key fst m)))"

section \<open>Addresses that differ in their user information\<close>

lemma index_of_skip: "c \<notin> set a \<Longrightarrow> index_of (a @ s) [c] = map_option (\<lambda>i. length a + i) (index_of s [c])"
  by (cases "index_of s [c]"; induction a) auto

lemma cut_skip: "c \<notin> set a \<Longrightarrow> cut (a @ s) [c] = (case cut s [c] of (x, y, b) \<Rightarrow> (a @ x, y, b))"
  by (auto simp: cut_def index_of_skip split: option.splits)

lemma last_index_skip:
  "last_index (a @ s) c = (case last_index s c of Some i \<Rightarrow> Some (length a + i) | None \<Rightarrow> last_index a c)"
  by (induction a) (auto split: option.splits)

text \<open>A byte that is no hexadecimal digit cuts the escapes of a text in two.\<close>

lemma unescape_user_between:
  assumes "hex_value c = None" "c \<noteq> CHR ''%''"
  shows "unescape Part_User (a @ c # b) = None \<longleftrightarrow> unescape Part_User a = None \<or> unescape Part_User b = None"
proof (induction a rule: length_induct)
  case (1 a)
  show ?case
  proof (cases a)
    case Nil
    then show ?thesis using assms by simp
  next
    case (Cons x s)
    show ?thesis
    proof (cases "x = CHR ''%''")
      case False
      then show ?thesis using 1 Cons by simp
    next
      case True
      show ?thesis
      proof (cases "\<exists>y z t. s = y # z # t")
        case long: True
        then obtain y z t where "s = y # z # t" by blast
        moreover have "unescape Part_User (t @ c # b) = None \<longleftrightarrow> unescape Part_User t = None \<or> unescape Part_User b = None"
          using 1 Cons calculation by simp
        ultimately show ?thesis using Cons True by (simp split: option.splits)
      next
        case False
        then consider "s = []" | y where "s = [y]" by (cases s; cases "tl s") auto
        then show ?thesis
        proof cases
          case 1
          then show ?thesis using Cons True assms(1) by (cases b) simp_all
        next
          case (2 y)
          then show ?thesis using Cons True assms(1) by (cases "hex_value y") simp_all
        qed
      qed
    qed
  qed
qed

lemma parse_userinfo_ok:
  "parse_userinfo s = None \<longleftrightarrow> \<not> list_all userinfo_char s \<or> unescape Part_User s = None"
proof (cases "CHR '':'' \<in> set s")
  case True
  then obtain a b where s: "s = a @ CHR '':'' # b" "CHR '':'' \<notin> set a" by (meson split_list_first)
  have h: "hex_value (CHR '':'') = None" by code_simp
  show ?thesis
    using unescape_user_between [OF h, of a b] s by (auto simp: parse_userinfo_def split: option.splits)
qed (auto simp: parse_userinfo_def)

text \<open>A user information that can be read, with any escapes.\<close>

definition plain_userinfo :: "string \<Rightarrow> bool" where
  "plain_userinfo ui \<longleftrightarrow> ui \<noteq> [] \<and> parse_userinfo ui \<noteq> None"

definition no_delimiter :: "string \<Rightarrow> bool" where
  "no_delimiter s \<longleftrightarrow> CHR ''/'' \<notin> set s \<and> CHR ''?'' \<notin> set s \<and> CHR ''#'' \<notin> set s"

lemma userinfo_then:
  "parse_userinfo (ui @ CHR ''@'' # t) = None \<longleftrightarrow> parse_userinfo ui = None \<or> parse_userinfo t = None"
proof -
  have h: "hex_value (CHR ''@'') = None" by code_simp
  have c: "userinfo_char (CHR ''@'')" by (simp add: userinfo_char_def)
  show ?thesis using unescape_user_between [OF h, of ui t] c by (auto simp: parse_userinfo_ok)
qed

definition scheme_text :: "string \<Rightarrow> bool" where
  "scheme_text s \<longleftrightarrow> s \<noteq> [] \<and> ascii_letter (hd s) \<and> list_all (\<lambda>c. ascii_letter c \<or> is_digit c \<or> c \<in> set ''+-.'') s"

text \<open>Two addresses that agree but for who the user is.\<close>

definition other_user :: "url \<Rightarrow> url \<Rightarrow> bool" where
  "other_user u v \<longleftrightarrow> u\<lparr>ur_user := None\<rparr> = v\<lparr>ur_user := None\<rparr> \<and> ur_user u \<noteq> None \<and> ur_user v \<noteq> None"

lemma plain_userinfo_avoids:
  assumes "plain_userinfo ui"
  shows "no_delimiter ui" "\<not> list_ex control_byte ui" "ui \<noteq> []"
proof -
  have w: "userinfo_char c \<Longrightarrow> c \<noteq> CHR ''/'' \<and> c \<noteq> CHR ''?'' \<and> c \<noteq> CHR ''#'' \<and> \<not> control_byte c" for c
    by (auto simp: userinfo_char_def control_byte_def is_digit_def less_eq_char_def)
  have "list_all userinfo_char ui" using assms by (auto simp: plain_userinfo_def parse_userinfo_ok)
  then show "no_delimiter ui" "\<not> list_ex control_byte ui" "ui \<noteq> []"
    using assms w unfolding plain_userinfo_def no_delimiter_def list_all_iff list_ex_iff by blast+
qed

lemma scheme_from_all:
  assumes "list_all (\<lambda>c. ascii_letter c \<or> is_digit c \<or> c \<in> set ''+-.'') s" "acc @ s \<noteq> []" "acc = [] \<Longrightarrow> ascii_letter (hd s)"
  shows "scheme_from w acc (s @ CHR '':'' # r) = Some (acc @ s, r)"
  using assms
proof (induction s arbitrary: acc)
  case Nil
  then show ?case by (simp add: is_digit_def)
next
  case (Cons c s)
  then have "scheme_from w (acc @ [c]) (s @ CHR '':'' # r) = Some ((acc @ [c]) @ s, r)"
    by (intro Cons.IH) auto
  with Cons.prems show ?case by auto
qed

lemma get_scheme_text: "scheme_text s \<Longrightarrow> get_scheme (s @ CHR '':'' # r) = Some (s, r)"
  unfolding get_scheme_def scheme_text_def using scheme_from_all [of s "[]" "s @ CHR '':'' # r" r] by simp

lemma scheme_text_avoids:
  assumes "scheme_text s"
  shows "CHR ''#'' \<notin> set s" "CHR ''@'' \<notin> set s" "CHR ''?'' \<notin> set s" "CHR ''/'' \<notin> set s" "\<not> list_ex control_byte s" "s \<noteq> []"
    "CHR '':'' \<notin> set s" "to_lower s \<noteq> []"
proof -
  have w: "ascii_letter c \<or> is_digit c \<or> c \<in> set ''+-.'' \<Longrightarrow>
      c \<noteq> CHR ''#'' \<and> c \<noteq> CHR ''@'' \<and> c \<noteq> CHR ''?'' \<and> c \<noteq> CHR ''/'' \<and> c \<noteq> CHR '':'' \<and> \<not> control_byte c" for c
    by (auto simp: control_byte_def is_digit_def less_eq_char_def)
  show "CHR ''#'' \<notin> set s" "CHR ''@'' \<notin> set s" "CHR ''?'' \<notin> set s" "CHR ''/'' \<notin> set s" "\<not> list_ex control_byte s" "s \<noteq> []"
    "CHR '':'' \<notin> set s"
    using assms w unfolding scheme_text_def list_all_iff list_ex_iff by blast+
  then show "to_lower s \<noteq> []" by (simp add: to_lower_def)
qed

lemma take_query_skip:
  assumes "CHR ''?'' \<notin> set p"
  shows "take_query (p @ r) = (case take_query r of (h, q, f) \<Rightarrow> (p @ h, q, f))"
proof (cases "r = []")
  case True
  then show ?thesis using assms by (auto simp: take_query_def has_suffix_iff cut_none)
next
  case False
  then have "has_suffix (p @ r) ''?'' \<longleftrightarrow> has_suffix r ''?''"
    by (cases r rule: rev_cases) (auto simp: has_suffix_iff)
  then show ?thesis
    using assms False by (auto simp: take_query_def cut_skip count_notin butlast_append split: prod.splits)
qed

lemma authority_user:
  "parse_authority hp sch (u @ CHR ''@'' # x) =
    (case last_index x (CHR ''@'') of
       None \<Rightarrow> (case hp sch x of None \<Rightarrow> None | Some h \<Rightarrow> map_option (\<lambda>v. (Some v, h)) (parse_userinfo u))
     | Some j \<Rightarrow> (case hp sch (drop (j + 1) x) of None \<Rightarrow> None
                  | Some h \<Rightarrow> map_option (\<lambda>v. (Some v, h)) (parse_userinfo (u @ CHR ''@'' # take j x))))"
  by (auto simp: parse_authority_def last_index_skip split: option.splits)

lemma authority_unreadable: "parse_userinfo u = None \<Longrightarrow> parse_authority hp sch (u @ CHR ''@'' # x) = None"
  by (auto simp: authority_user userinfo_then split: option.splits)

lemma parse_authority_user:
  assumes "plain_userinfo ui" "plain_userinfo uj"
  shows "rel_option (\<lambda>(a, h) (b, k). h = k \<and> a \<noteq> None \<and> b \<noteq> None)
           (parse_authority hp sch (ui @ CHR ''@'' # x)) (parse_authority hp sch (uj @ CHR ''@'' # x))"
proof -
  have pair: "rel_option (\<lambda>(a, h) (b, k). h = k \<and> a \<noteq> None \<and> b \<noteq> None)
      (map_option (\<lambda>v. (Some v, h)) p) (map_option (\<lambda>v. (Some v, h)) q)" if "p = None \<longleftrightarrow> q = None" for p q and h :: string
    using that by (cases p; cases q) auto
  show ?thesis
  proof (cases "last_index x (CHR ''@'')")
    case None
    have "parse_userinfo ui = None \<longleftrightarrow> parse_userinfo uj = None" using assms by (auto simp: plain_userinfo_def)
    from pair [OF this] None show ?thesis by (cases "hp sch x") (simp_all add: authority_user)
  next
    case (Some j)
    have "parse_userinfo (ui @ CHR ''@'' # take j x) = None \<longleftrightarrow> parse_userinfo (uj @ CHR ''@'' # take j x) = None"
      using assms unfolding plain_userinfo_def userinfo_then by (metis (full_types))
    from pair [OF this] Some show ?thesis by (cases "hp sch (drop (j + 1) x)") (simp_all add: authority_user)
  qed
qed

lemma other_user_fragment: "other_user u v \<Longrightarrow> rel_option other_user (set_fragment f u) (set_fragment f v)"
  by (cases u; cases v; cases "unescape Part_Fragment f") (auto simp: other_user_def set_fragment_def)

text \<open>An address with a user is its authority, what follows it, and the fragment.\<close>

lemma parse_with_user:
  assumes sch: "scheme_text sch" and u: "no_delimiter u" "\<not> list_ex control_byte u"
    and x: "cut x ''#'' = (b, fr, ok)" "take_query b = (h, q, f)"
  shows "url_parse hp (sch @ ''://'' @ u @ CHR ''@'' # x) =
    (case (if list_ex control_byte b then None
           else case parse_authority hp (to_lower sch) (u @ CHR ''@'' # takeWhile (\<lambda>c. c \<noteq> CHR ''/'') h) of
                  None \<Rightarrow> None
                | Some (user, host) \<Rightarrow> set_path (dropWhile (\<lambda>c. c \<noteq> CHR ''/'') h)
                    (no_url\<lparr>ur_scheme := to_lower sch, ur_query := q, ur_force_query := f, ur_user := user, ur_host := host\<rparr>)) of
       None \<Rightarrow> None
     | Some w \<Rightarrow> if fr = [] then Some w else set_fragment fr w)"
proof -
  note S = scheme_text_avoids [OF sch]
  have cb: "\<not> control_byte (CHR '':'')" "\<not> control_byte (CHR ''/'')" "\<not> control_byte (CHR ''@'')" by code_simp+
  have g: "get_scheme (sch @ ''://'' @ u @ CHR ''@'' # b) = Some (sch, ''//'' @ u @ CHR ''@'' # b)"
    using get_scheme_text [OF sch, of "''//'' @ u @ CHR ''@'' # b"] by simp
  have t: "take_query (''//'' @ u @ CHR ''@'' # b) = (''//'' @ u @ CHR ''@'' # h, q, f)"
    using take_query_skip [of "''//'' @ u @ ''@''" b] u(1) x(2) by (simp add: no_delimiter_def)
  have "sch @ ''://'' @ u @ CHR ''@'' # b \<noteq> ''*''" by (cases sch) auto
  moreover have "takeWhile (\<lambda>c. c \<noteq> CHR ''/'') (u @ CHR ''@'' # h) = u @ CHR ''@'' # takeWhile (\<lambda>c. c \<noteq> CHR ''/'') h"
    "dropWhile (\<lambda>c. c \<noteq> CHR ''/'') (u @ CHR ''@'' # h) = dropWhile (\<lambda>c. c \<noteq> CHR ''/'') h"
    using u(1) by (auto simp: takeWhile_append dropWhile_append no_delimiter_def)
  ultimately have before: "parse_before_fragment hp (sch @ ''://'' @ u @ CHR ''@'' # b) =
      (if list_ex control_byte b then None
       else case parse_authority hp (to_lower sch) (u @ CHR ''@'' # takeWhile (\<lambda>c. c \<noteq> CHR ''/'') h) of
              None \<Rightarrow> None
            | Some (user, host) \<Rightarrow> set_path (dropWhile (\<lambda>c. c \<noteq> CHR ''/'') h)
                (no_url\<lparr>ur_scheme := to_lower sch, ur_query := q, ur_force_query := f, ur_user := user, ur_host := host\<rparr>))"
    using S u(2) cb g t unfolding parse_before_fragment_def by (simp add: parse_hierarchy_def)
  show ?thesis
    unfolding before [symmetric]
    using cut_skip [of "CHR ''#''" "sch @ ''://'' @ u @ ''@''" x] S(1) u(1) x(1) by (simp add: url_parse_def no_delimiter_def)
qed

lemma parse_unreadable:
  assumes "scheme_text sch" "no_delimiter ui" "parse_userinfo ui = None"
  shows "url_parse hp (sch @ ''://'' @ ui @ CHR ''@'' # x) = None"
proof -
  obtain b fr ok where x: "cut x ''#'' = (b, fr, ok)" by (cases "cut x ''#''") auto
  obtain h q f where b: "take_query b = (h, q, f)" by (cases "take_query b") auto
  show ?thesis
  proof (cases "list_ex control_byte ui")
    case True
    have "CHR ''#'' \<notin> set (sch @ ''://'' @ ui @ ''@'')" using scheme_text_avoids(1) [OF assms(1)] assms(2) by (simp add: no_delimiter_def)
    from cut_skip [OF this, of x] True x show ?thesis by (simp add: url_parse_def parse_before_fragment_def)
  next
    case False
    from parse_with_user [OF assms(1,2) this x b] show ?thesis by (simp add: authority_unreadable [OF assms(3)])
  qed
qed

lemma parse_user:
  assumes "plain_userinfo ui" "plain_userinfo uj" and sch: "scheme_text sch"
  shows "rel_option other_user (url_parse hp (sch @ ''://'' @ ui @ CHR ''@'' # x)) (url_parse hp (sch @ ''://'' @ uj @ CHR ''@'' # x))"
proof -
  obtain b fr ok where x: "cut x ''#'' = (b, fr, ok)" by (cases "cut x ''#''") auto
  obtain h q f where b: "take_query b = (h, q, f)" by (cases "take_query b") auto
  let ?a = "\<lambda>u. u @ CHR ''@'' # takeWhile (\<lambda>c. c \<noteq> CHR ''/'') h"
  let ?s = "\<lambda>r. case r of None \<Rightarrow> None | Some (user, host) \<Rightarrow> set_path (dropWhile (\<lambda>c. c \<noteq> CHR ''/'') h)
      (no_url\<lparr>ur_scheme := to_lower sch, ur_query := q, ur_force_query := f, ur_user := user, ur_host := host\<rparr>)"
  have "rel_option other_user (?s (parse_authority hp (to_lower sch) (?a ui))) (?s (parse_authority hp (to_lower sch) (?a uj)))"
    using parse_authority_user [OF assms(1,2), of hp "to_lower sch" "takeWhile (\<lambda>c. c \<noteq> CHR ''/'') h"]
    by (auto simp: rel_option_iff other_user_def set_path_def split: option.splits prod.splits)
  moreover have fragment: "rel_option other_user u v \<Longrightarrow> rel_option other_user
      (case u of None \<Rightarrow> None | Some w \<Rightarrow> if fr = [] then Some w else set_fragment fr w)
      (case v of None \<Rightarrow> None | Some w \<Rightarrow> if fr = [] then Some w else set_fragment fr w)" for u v
    by (cases u; cases v) (simp_all add: other_user_fragment)
  ultimately show ?thesis
    unfolding parse_with_user [OF sch plain_userinfo_avoids(1,2) [OF assms(1)] x b] parse_with_user [OF sch plain_userinfo_avoids(1,2) [OF assms(2)] x b]
    by (intro fragment) simp
qed

section \<open>Addresses that differ in their query\<close>

lemma take_query_at: "CHR ''?'' \<notin> set b \<Longrightarrow> q \<noteq> [] \<Longrightarrow> take_query (b @ CHR ''?'' # q) = (b, q, False)"
  by (cases q rule: rev_cases) (auto simp: take_query_def has_suffix_iff count_notin)

text \<open>What comes after the question mark does not decide the scheme.\<close>

lemma scheme_before_query:
  "(\<forall>q. scheme_from (w q) acc (b @ CHR ''?'' # q) = None) \<or>
   (\<forall>q. scheme_from (w q) acc (b @ CHR ''?'' # q) = Some ([], w q)) \<or>
   (\<exists>s b'. set b' \<subseteq> set b \<and> (\<forall>q. scheme_from (w q) acc (b @ CHR ''?'' # q) = Some (s, b' @ CHR ''?'' # q)))"
proof (induction b arbitrary: acc)
  case Nil
  have "\<not> is_digit (CHR ''?'')" by code_simp
  then show ?case by simp
next
  case (Cons c b)
  consider "ascii_letter c \<or> (is_digit c \<or> c \<in> set ''+-.'') \<and> acc \<noteq> []" | "\<not> ascii_letter c" "(is_digit c \<or> c \<in> set ''+-.'') \<longrightarrow> acc = []"
    by blast
  then show ?case
  proof cases
    case 1
    then have "scheme_from v acc ((c # b) @ r) = scheme_from v (acc @ [c]) (b @ r)" for v r by auto
    with Cons [of "acc @ [c]"] show ?thesis by (auto intro: subset_insertI2)
  next
    case 2
    then show ?thesis by (cases "c = CHR '':''") (auto simp: is_digit_def)
  qed
qed

lemma hierarchy_query: "parse_hierarchy hp h (u\<lparr>ur_query := q\<rparr>) = map_option (ur_query_update (\<lambda>_. q)) (parse_hierarchy hp h u)"
  by (auto simp: parse_hierarchy_def set_path_def Let_def option.map_comp o_def split: option.splits prod.splits)

lemma fragment_query: "set_fragment f (u\<lparr>ur_query := q\<rparr>) = map_option (ur_query_update (\<lambda>_. q)) (set_fragment f u)"
  by (auto simp: set_fragment_def split: option.splits)

lemma before_fragment_query:
  assumes b: "CHR ''?'' \<notin> set b"
    and q: "q \<noteq> []" "r \<noteq> []" "\<not> list_ex control_byte q" "\<not> list_ex control_byte r"
  shows "(parse_before_fragment hp (b @ CHR ''?'' # q) = None \<and> parse_before_fragment hp (b @ CHR ''?'' # r) = None) \<or>
    (\<exists>u. parse_before_fragment hp (b @ CHR ''?'' # q) = Some (u\<lparr>ur_query := q\<rparr>) \<and>
         parse_before_fragment hp (b @ CHR ''?'' # r) = Some (u\<lparr>ur_query := r\<rparr>))"
proof (cases "list_ex control_byte b")
  case True
  then show ?thesis by (simp add: parse_before_fragment_def)
next
  case False
  have cq: "\<not> control_byte (CHR ''?'')" by code_simp
  have star: "b @ CHR ''?'' # x \<noteq> ''*''" for x by (cases b) auto
  have e: "no_url\<lparr>ur_scheme := s, ur_query := x, ur_force_query := False\<rparr> =
      no_url\<lparr>ur_scheme := s, ur_force_query := False, ur_query := x\<rparr>" for s x
    by (simp add: no_url_def)
  have hier: "(parse_hierarchy hp h (no_url\<lparr>ur_scheme := s, ur_query := q, ur_force_query := False\<rparr>) = None \<and>
        parse_hierarchy hp h (no_url\<lparr>ur_scheme := s, ur_query := r, ur_force_query := False\<rparr>) = None) \<or>
      (\<exists>u. parse_hierarchy hp h (no_url\<lparr>ur_scheme := s, ur_query := q, ur_force_query := False\<rparr>) = Some (u\<lparr>ur_query := q\<rparr>) \<and>
        parse_hierarchy hp h (no_url\<lparr>ur_scheme := s, ur_query := r, ur_force_query := False\<rparr>) = Some (u\<lparr>ur_query := r\<rparr>))" for h s
    unfolding e using hierarchy_query [of hp h _ "no_url\<lparr>ur_scheme := s, ur_force_query := False\<rparr>"]
    by (cases "parse_hierarchy hp h (no_url\<lparr>ur_scheme := s, ur_force_query := False\<rparr>)") auto
  from scheme_before_query [of "\<lambda>x. b @ CHR ''?'' # x" "[]" b] consider
      "\<And>x. get_scheme (b @ CHR ''?'' # x) = None"
    | "\<And>x. get_scheme (b @ CHR ''?'' # x) = Some ([], b @ CHR ''?'' # x)"
    | s b' where "set b' \<subseteq> set b" "\<And>x. get_scheme (b @ CHR ''?'' # x) = Some (s, b' @ CHR ''?'' # x)"
    unfolding get_scheme_def by blast
  then show ?thesis
  proof cases
    case 1
    then show ?thesis using star by (simp add: parse_before_fragment_def)
  next
    case 2
    then show ?thesis
      using hier [of b "to_lower []"] take_query_at [OF b q(1)] take_query_at [OF b q(2)] q False cq star
      by (simp add: parse_before_fragment_def)
  next
    case (3 s b')
    then have "CHR ''?'' \<notin> set b'" using b by blast
    then show ?thesis
      using hier [of b' "to_lower s"] 3(2) q False cq star by (simp add: parse_before_fragment_def take_query_at)
  qed
qed

lemma cut_fragment: "CHR ''#'' \<notin> set s \<Longrightarrow> f = [] \<or> hd f = CHR ''#'' \<Longrightarrow> cut (s @ f) ''#'' = (s, drop 1 f, f \<noteq> [])"
  by (cases f) (auto simp: cut_none)

lemma parse_query_swapped:
  assumes "CHR ''?'' \<notin> set b" "CHR ''#'' \<notin> set b" "CHR ''#'' \<notin> set q" "CHR ''#'' \<notin> set r"
    and "q \<noteq> []" "r \<noteq> []" "\<not> list_ex control_byte q" "\<not> list_ex control_byte r"
    and f: "f = [] \<or> hd f = CHR ''#''"
  shows "(url_parse hp (b @ CHR ''?'' # q @ f) = None \<and> url_parse hp (b @ CHR ''?'' # r @ f) = None) \<or>
    (\<exists>u. url_parse hp (b @ CHR ''?'' # q @ f) = Some (u\<lparr>ur_query := q\<rparr>) \<and> url_parse hp (b @ CHR ''?'' # r @ f) = Some (u\<lparr>ur_query := r\<rparr>))"
proof -
  have cut: "cut (b @ CHR ''?'' # x @ f) ''#'' = (b @ CHR ''?'' # x, drop 1 f, f \<noteq> [])" if "CHR ''#'' \<notin> set x" for x
    using cut_fragment [of "b @ CHR ''?'' # x" f] that assms(2) f by simp
  from before_fragment_query [OF assms(1,5,6,7,8), of hp] show ?thesis
  proof (elim disjE exE conjE)
    fix u
    assume "parse_before_fragment hp (b @ CHR ''?'' # q) = Some (u\<lparr>ur_query := q\<rparr>)"
      "parse_before_fragment hp (b @ CHR ''?'' # r) = Some (u\<lparr>ur_query := r\<rparr>)"
    then show ?thesis
      by (cases "set_fragment (drop 1 f) u") (auto simp: url_parse_def cut [OF assms(3)] cut [OF assms(4)] fragment_query)
  qed (simp add: url_parse_def cut [OF assms(3)] cut [OF assms(4)])
qed

section \<open>Queries read\<close>

text \<open>Values that agree on every key a predicate does not name.\<close>

definition agree_but :: "(string \<Rightarrow> bool) \<Rightarrow> query_values \<Rightarrow> query_values \<Rightarrow> bool" where
  "agree_but p = list_all2 (\<lambda>(a, x) (b, y). a = b \<and> (x = y \<or> p a))"

lemma agree_refl: "agree_but p m m"
  by (auto simp: agree_but_def intro: list_all2_refl)

lemma agree_lookup: "agree_but p m n \<Longrightarrow> (map_of m k = None \<longleftrightarrow> map_of n k = None) \<and> (p k \<or> map_of m k = map_of n k)"
  unfolding agree_but_def by (induction m n rule: list_all2_induct) auto

lemma agree_update: "agree_but p m n \<Longrightarrow> x = y \<or> p k \<Longrightarrow> agree_but p (AList.update k x m) (AList.update k y n)"
  unfolding agree_but_def by (induction m n rule: list_all2_induct) auto

lemma agree_add: "agree_but p m n \<Longrightarrow> v = w \<or> p k \<Longrightarrow> agree_but p (add_value k v m) (add_value k w n)"
  unfolding add_value_def using agree_lookup [of p m n k] by (intro agree_update) auto

lemma agree_foldl:
  "agree_but p m n \<Longrightarrow>
   agree_but p (foldl (\<lambda>m part. case read_pair part of None \<Rightarrow> m | Some (k, v) \<Rightarrow> add_value k v m) m qs)
     (foldl (\<lambda>m part. case read_pair part of None \<Rightarrow> m | Some (k, v) \<Rightarrow> add_value k v m) n qs)"
  by (induction qs arbitrary: m n) (auto intro: agree_add split: option.splits)

lemma agree_queries:
  assumes "\<forall>t \<in> set (ps @ qs). CHR ''&'' \<notin> set t" "CHR ''&'' \<notin> set x" "CHR ''&'' \<notin> set y"
    and "read_pair x = Some (k, v)" "read_pair y = Some (k, w)" "p k"
  shows "agree_but p (parse_query (join ''&'' (ps @ x # qs))) (parse_query (join ''&'' (ps @ y # qs)))"
proof -
  have "split_on (CHR ''&'') (join ''&'' (ps @ z # qs)) = ps @ z # qs" if "CHR ''&'' \<notin> set z" for z
    using assms(1) that by (intro split_on_join) auto
  then show ?thesis
    using assms by (auto simp: parse_query_def intro!: agree_foldl agree_add agree_refl)
qed

end
