(* ===== verification/HelmRedact.thy ===== *)
theory HelmRedact
  imports GoUrl HelmDownload
begin

text \<open>
  What the Helm store shows of a repository address (store/helm.go): its identity without user, query and fragment,
  and addresses in error messages with their credentials replaced, also where the address does not parse.
\<close>

section \<open>Repository identity\<close>

definition repository_identity :: "host_rules \<Rightarrow> string \<Rightarrow> string" where
  "repository_identity hp raw =
     (if trim_space raw = [] then []
      else (case url_parse hp (trim_space raw) of
              None \<Rightarrow> []
            | Some u \<Rightarrow>
                if ur_host u = [] then []
                else if to_lower (ur_scheme u) \<notin> {''http'', ''https'', ''oci''} then []
                else trim_space (url_string (u\<lparr>ur_scheme := to_lower (ur_scheme u), ur_user := None, ur_query := [],
                       ur_force_query := False, ur_fragment := []\<rparr>))))"

text \<open>The annotations of a chart; None is a chart without metadata. A nil map and an empty one print alike.\<close>

definition repo_url_annotation :: string where
  "repo_url_annotation = ''casos.org/helm-repository-url''"

definition set_chart_repo_url :: "host_rules \<Rightarrow> string \<Rightarrow> (string \<rightharpoonup> string) option \<Rightarrow> (string \<rightharpoonup> string) option" where
  "set_chart_repo_url hp repo =
     map_option (\<lambda>a. let r = repository_identity hp repo in if r = [] then a(repo_url_annotation := None) else a(repo_url_annotation \<mapsto> r))"

definition chart_repo_url :: "host_rules \<Rightarrow> (string \<rightharpoonup> string) option \<Rightarrow> string" where
  "chart_repo_url hp meta =
     (case meta of
        None \<Rightarrow> []
      | Some a \<Rightarrow> repository_identity hp (case a repo_url_annotation of None \<Rightarrow> [] | Some r \<Rightarrow> r))"

section \<open>Credentials in an address\<close>

definition credential_keys :: "string list" where
  "credential_keys =
     [''access_key'', ''accesskey'', ''access_token'', ''apikey'', ''api_key'', ''api_secret'', ''app_key'', ''app_secret'',
      ''auth'', ''auth_token'', ''cert'', ''client_secret'', ''credential'', ''key'', ''password'', ''passwd'', ''private_key'',
      ''refresh_token'', ''sas_token'', ''secret'', ''secret_key'', ''secretkey'', ''session_token'', ''shared_access_key'',
      ''sign'', ''signature'', ''token'']"

definition is_credential_key :: "string \<Rightarrow> bool" where
  "is_credential_key key \<longleftrightarrow> to_lower key \<in> set credential_keys"

definition redact_part :: "string \<Rightarrow> string" where
  "redact_part part =
     (case cut part ''='' of (key, value, ok) \<Rightarrow>
        if \<not> ok \<or> value = [] \<or> \<not> is_credential_key key then part else key @ ''=REDACTED'')"

definition redacted_parts :: "string \<Rightarrow> string list" where
  "redacted_parts query = map redact_part (split_on (CHR ''&'') query)"

definition redact_query_text :: "string \<Rightarrow> string" where
  "redact_query_text raw =
     (case index_of raw ''?'' of
        None \<Rightarrow> raw
      | Some i \<Rightarrow>
          (let rest = drop (i + 1) raw;
               query = takeWhile (\<lambda>c. c \<noteq> CHR ''#'') rest;
               tail = dropWhile (\<lambda>c. c \<noteq> CHR ''#'') rest
           in take (i + 1) raw @ join ''&'' (redacted_parts query) @ tail))"

definition looks_like_host_port :: "string \<Rightarrow> bool" where
  "looks_like_host_port value =
     (case cut value '':'' of (host, port, ok) \<Rightarrow>
        ok \<and> host \<noteq> [] \<and> port \<noteq> [] \<and> list_all is_digit port
        \<and> list_all (\<lambda>c. ascii_letter c \<or> is_digit c \<or> c = CHR ''-'' \<or> c = CHR ''.'') host)"

fun last_index_of :: "'a list \<Rightarrow> 'a list \<Rightarrow> nat option" where
  "last_index_of s p =
     (case s of
        [] \<Rightarrow> if p = [] then Some 0 else None
      | c # t \<Rightarrow>
          (case last_index_of t p of
             Some i \<Rightarrow> Some (Suc i)
           | None \<Rightarrow> if has_prefix s p then Some 0 else None))"

declare last_index_of.simps [simp del]

text \<open>
  \<open>fallbackRedactCredentialSegment\<close>. The offsets are those of the address, the text they cut is the one whose
  query was already shortened or lengthened: None is the slice panic, where an offset lies beyond that text.
\<close>

definition redact_segment :: "string \<Rightarrow> string option" where
  "redact_segment raw =
     (let redacted = redact_query_text raw in
      case index_of raw ''@'' of
        None \<Rightarrow> Some redacted
      | Some at \<Rightarrow>
          if at = 0 then Some redacted
          else
            (let start = (case last_index_of (take at raw) ''://'' of Some i \<Rightarrow> i + 3 | None \<Rightarrow> 0);
                 candidate = drop start (take at raw)
             in if candidate = [] \<or> list_ex (\<lambda>c. c \<in> set ''/?#'') candidate then Some redacted
                else if looks_like_host_port candidate then Some redacted
                else if length redacted < start \<or> length redacted < at then None
                else Some (take start redacted @ ''REDACTED'' @ drop at redacted)))"

definition parse_for_redaction :: "host_rules \<Rightarrow> string \<Rightarrow> url option \<times> bool" where
  "parse_for_redaction hp raw =
     (if contains raw ''://'' then (url_parse hp raw, False) else (url_parse hp (''redact://'' @ raw), True))"

definition redact_values :: "query_values \<Rightarrow> query_values" where
  "redact_values m = map (\<lambda>(k, vs). if is_credential_key k then (k, [''REDACTED'']) else (k, vs)) m"

definition redact_parsed :: "url \<Rightarrow> url" where
  "redact_parsed u =
     (let u' = (if ur_user u \<noteq> None then u\<lparr>ur_user := Some (''REDACTED'', None)\<rparr> else u) in
      if ur_query u' \<noteq> [] then u'\<lparr>ur_query := encode_values (redact_values (parse_query (ur_query u')))\<rparr> else u')"

definition redact_url :: "host_rules \<Rightarrow> string \<Rightarrow> string option" where
  "redact_url hp raw =
     (if raw = [] then Some raw
      else (case parse_for_redaction hp raw of
              (None, _) \<Rightarrow> redact_segment raw
            | (Some u, added) \<Rightarrow>
                Some (let s = url_string (redact_parsed u) in if added then trim_prefix s ''redact://'' else s)))"

section \<open>Errors shown\<close>

definition redaction_candidates :: "host_rules \<Rightarrow> string \<Rightarrow> string list" where
  "redaction_candidates hp raw =
     (if raw = [] then []
      else (case parse_for_redaction hp raw of
              (None, _) \<Rightarrow> [raw]
            | (Some u, added) \<Rightarrow>
                (let n = (if added then trim_prefix (url_string u) ''redact://'' else url_string u) in
                 if n \<noteq> raw then [raw, n] else [raw])))"

fun redact_all :: "host_rules \<Rightarrow> string list \<Rightarrow> string \<Rightarrow> string option" where
  "redact_all hp [] message = Some message"
| "redact_all hp (v # vs) message =
     (case redact_url hp v of None \<Rightarrow> None | Some r \<Rightarrow> redact_all hp vs (replace_all message v r))"

text \<open>The candidates, longest first (an insertion sort for so few). What the error wraps stays.\<close>

definition sanitize_error :: "host_rules \<Rightarrow> derror \<Rightarrow> string list \<Rightarrow> derror option" where
  "sanitize_error hp e raws =
     map_option (\<lambda>m. e\<lparr>er_text := m\<rparr>)
       (redact_all hp (sort_key (\<lambda>v. - int (length v)) (uniq_onto [] (concat (map (redaction_candidates hp) raws)))) (er_text e))"

section \<open>Passwords do not show\<close>

lemma last_index_of_none: "c \<in> set p \<Longrightarrow> c \<notin> set s \<Longrightarrow> last_index_of s p = None"
proof (induction s)
  case Nil
  then show ?case by (auto simp: last_index_of.simps)
next
  case (Cons a s)
  then have "\<not> has_prefix (a # s) p" by (auto simp: has_prefix_iff) (metis in_set_conv_decomp set_ConsD append_Cons append_assoc)
  with Cons show ?case by (simp add: last_index_of.simps [of "a # s"])
qed

lemma last_index_of_scheme:
  assumes "CHR ''/'' \<notin> set u"
  shows "last_index_of (s @ ''://'' @ u) ''://'' = Some (length s)"
proof (induction s)
  case Nil
  have "last_index_of u ''://'' = None" using assms by (intro last_index_of_none [of "CHR ''/''"]) auto
  then have "last_index_of (''//'' @ u) ''://'' = None" by (simp add: last_index_of.simps)
  then show ?case by (simp add: last_index_of.simps [of "CHR '':'' # _"])
next
  case (Cons c s)
  then show ?case by (simp add: last_index_of.simps [of "c # _"])
qed

lemma redact_query_skip:
  assumes "CHR ''?'' \<notin> set p"
  shows "redact_query_text (p @ r) = p @ redact_query_text r"
  using assms by (cases "index_of r ''?''") (auto simp: redact_query_text_def index_of_skip Let_def)

lemma redact_segment_at:
  assumes "CHR ''@'' \<notin> set p" "p \<noteq> []" "last_index_of p ''://'' = Some i" "i + 3 \<le> length p"
    and "redact_query_text (p @ CHR ''@'' # x) = p @ CHR ''@'' # y"
    and "drop (i + 3) p \<noteq> []" "\<not> list_ex (\<lambda>c. c \<in> set ''/?#'') (drop (i + 3) p)" "\<not> looks_like_host_port (drop (i + 3) p)"
  shows "redact_segment (p @ CHR ''@'' # x) = Some (take (i + 3) p @ ''REDACTED@'' @ y)"
proof -
  have "index_of (p @ CHR ''@'' # x) ''@'' = Some (length p)"
    using index_of_skip [of "CHR ''@''" p "CHR ''@'' # x"] assms(1) by simp
  then show ?thesis
    unfolding redact_segment_def assms(5) Let_def using assms by simp
qed

lemma redact_segment_user:
  assumes sch: "scheme_text sch" and ui: "ui \<noteq> []" "no_delimiter ui" "CHR ''@'' \<notin> set ui" and port: "\<not> looks_like_host_port ui"
  shows "redact_segment (sch @ ''://'' @ ui @ CHR ''@'' # x) = Some (sch @ ''://REDACTED@'' @ redact_query_text x)"
proof -
  note S = scheme_text_avoids [OF sch] and U = ui(2) [unfolded no_delimiter_def]
  let ?p = "sch @ ''://'' @ ui"
  have q: "redact_query_text (?p @ CHR ''@'' # x) = ?p @ CHR ''@'' # redact_query_text x"
    using redact_query_skip [of "?p @ ''@''" x] S U by simp
  have l: "last_index_of ?p ''://'' = Some (length sch)" using last_index_of_scheme U by simp
  have d: "drop (length sch + 3) ?p = ui" "take (length sch + 3) ?p = sch @ ''://''" "\<not> list_ex (\<lambda>c. c \<in> set ''/?#'') ui"
    using U by (auto simp: list_ex_iff)
  have "redact_segment (?p @ CHR ''@'' # x) = Some (take (length sch + 3) ?p @ ''REDACTED@'' @ redact_query_text x)"
    using S ui q l d(1,3) port by (intro redact_segment_at) simp_all
  then show ?thesis unfolding d(2) by simp
qed

lemma redact_other_user: "other_user u v \<Longrightarrow> redact_parsed u = redact_parsed v"
  by (cases u; cases v) (auto simp: other_user_def redact_parsed_def Let_def)

lemma redacted_is_plain: "plain_userinfo ''REDACTED''" "\<not> looks_like_host_port ''REDACTED''"
  by code_simp+

lemma redacted_is_user: "''REDACTED'' \<noteq> []" "no_delimiter ''REDACTED''" "CHR ''@'' \<notin> set ''REDACTED''"
  by (simp_all add: no_delimiter_def)

text \<open>
  C37: An address in an error message does not tell who logs in. Whatever stands between the scheme and an @, with no
  slash, question mark or number sign in it, the text shown is one that does not depend on it: the one for the user
  REDACTED when it can be read as user information, and otherwise that user before the rest with its tokens redacted. So
  in every address that parses, with any path, query and fragment; and also in one that does not parse, unless an @
  stands in it or it reads as host:port.
\<close>

theorem redaction_hides_login:
  assumes "scheme_text sch" "ui \<noteq> []" "no_delimiter ui"
    and "CHR ''@'' \<notin> set ui \<and> \<not> looks_like_host_port ui \<or>
      parse_userinfo ui \<noteq> None \<and> url_parse hp (sch @ ''://REDACTED@'' @ x) \<noteq> None"
  shows "redact_url hp (sch @ ''://'' @ ui @ ''@'' @ x) =
    (if parse_userinfo ui \<noteq> None then redact_url hp (sch @ ''://REDACTED@'' @ x)
     else Some (sch @ ''://REDACTED@'' @ redact_query_text x))"
proof -
  have c: "contains (sch @ ''://'' @ y) ''://''" for y by (auto simp: contains_iff)
  note shown = c [of "ui @ CHR ''@'' # x"] c [of "''REDACTED@'' @ x"]
  show ?thesis
  proof (cases "parse_userinfo ui")
    case None
    then have "redact_segment (sch @ ''://'' @ ui @ CHR ''@'' # x) = Some (sch @ ''://REDACTED@'' @ redact_query_text x)"
      using assms by (intro redact_segment_user) simp_all
    then show ?thesis using None shown parse_unreadable [OF assms(1,3) None, of hp x] by (simp add: redact_url_def parse_for_redaction_def)
  next
    case (Some who)
    then have plain: "plain_userinfo ui" using assms(2) by (simp add: plain_userinfo_def)
    have r: "rel_option other_user (url_parse hp (sch @ ''://'' @ ui @ CHR ''@'' # x)) (url_parse hp (sch @ ''://REDACTED@'' @ x))"
      using parse_user [OF plain redacted_is_plain(1) assms(1), of hp x] by simp
    show ?thesis
    proof (cases "url_parse hp (sch @ ''://REDACTED@'' @ x)")
      case None
      then have "url_parse hp (sch @ ''://'' @ ui @ CHR ''@'' # x) = None" using r by simp
      moreover have "CHR ''@'' \<notin> set ui" "\<not> looks_like_host_port ui" using assms(4) None by simp_all
      ultimately show ?thesis
        using None Some shown redact_segment_user [OF assms(1-3)]
          redact_segment_user [OF assms(1) redacted_is_user redacted_is_plain(2), of x]
        by (simp add: redact_url_def parse_for_redaction_def)
    next
      case (Some v)
      then obtain u where "url_parse hp (sch @ ''://'' @ ui @ CHR ''@'' # x) = Some u" "other_user u v"
        using r by (auto simp: option_rel_Some2)
      then show ?thesis
        using Some \<open>parse_userinfo ui = Some who\<close> shown redact_other_user [of u v]
        by (simp add: redact_url_def parse_for_redaction_def)
    qed
  qed
qed

theorem redaction_hides_login_witness:
  "redact_url (\<lambda>_. Some) (''https'' @ ''://'' @ ''bob:s3cr%40t'' @ ''@'' @ ''charts.example.com/p?page=2#top'')
     = Some ''https://REDACTED@charts.example.com/p?page=2#top'' \<and>
   redact_url (\<lambda>_. Some) (''https'' @ ''://'' @ ''bob:s3cret 100%'' @ ''@'' @ ''charts.example.com/%zz?token=abc'')
     = Some ''https://REDACTED@charts.example.com/%zz?token=REDACTED''"
proof -
  have a: "scheme_text ''https''" "no_delimiter ''bob:s3cr%40t''" "\<not> looks_like_host_port ''bob:s3cr%40t''"
    "no_delimiter ''bob:s3cret 100%''" "\<not> looks_like_host_port ''bob:s3cret 100%''"
    "parse_userinfo ''bob:s3cr%40t'' \<noteq> None" "parse_userinfo ''bob:s3cret 100%'' = None" by code_simp+
  have "redact_url (\<lambda>_. Some) (''https'' @ ''://REDACTED@'' @ ''charts.example.com/p?page=2#top'')
      = Some ''https://REDACTED@charts.example.com/p?page=2#top''"
    "redact_query_text ''charts.example.com/%zz?token=abc'' = ''charts.example.com/%zz?token=REDACTED''"
    by code_simp+
  then show ?thesis
    using redaction_hides_login [of "''https''" "''bob:s3cr%40t''" "\<lambda>_. Some" "''charts.example.com/p?page=2#top''"]
      redaction_hides_login [of "''https''" "''bob:s3cret 100%''" "\<lambda>_. Some" "''charts.example.com/%zz?token=abc''"] a
    by simp
qed

section \<open>Tokens do not show\<close>











text \<open>
  Without the hypotheses it is not so. The offsets of a second address, cut from a text whose query got shorter,
  lie beyond it (a panic), or show its password when the query got longer. Of an address that does not parse, a numeric
  password reads as a port, one with a slash is taken for a path, and what follows the @ of a user stays.
\<close>

lemma fallback_breaks:
  "redact_url (\<lambda>_. Some) ''https://h/%zz?token=0123456789abcdef&u=x://bob:pw@y'' = None"
  "redact_url (\<lambda>_. Some) ''https://h/%zz?token=a&u=x://bob:pw@y'' = Some ''https://h/%zz?token=REDACTEDREDACTED/bob:pw@y''"
  "redact_url (\<lambda>_. Some) ''https://admin:1234@h/%zz'' = Some ''https://admin:1234@h/%zz''"
  "redact_url (\<lambda>_. Some) ''https://bob:p/w@h/%zz'' = Some ''https://bob:p/w@h/%zz''"
  "redact_url (\<lambda>_. Some) ''https://bob@corp:pw@h/%zz'' = Some ''https://REDACTED@corp:pw@h/%zz''"
  by code_simp+

end
