(* ===== verification/Settings.thy ===== *)
theory Settings
  imports GoConv GoStrings
begin

text \<open>
  How settings are read (conf/conf.go): the environment before app.conf, blank values as defaults, booleans and
  integers, and the database the settings name. Parameters: the environment, the parsed app.conf, the operating system.
\<close>

record settings =
  se_env :: "string \<Rightarrow> string option"
  se_file :: "string \<Rightarrow> string"
  se_os :: string

definition app_default :: "string \<Rightarrow> string \<Rightarrow> string" where
  "app_default name key =
     (if key = ''staticBaseUrl'' then ''https://cdn.casbin.org''
      else if key = ''logConfig'' then
        ''{'' @ [dquote] @ ''filename'' @ [dquote] @ '': '' @ [dquote] @ ''logs/'' @ name @ ''.log'' @ [dquote] @ '', '' @ [dquote]
          @ ''maxdays'' @ [dquote] @ '':99999, '' @ [dquote] @ ''perm'' @ [dquote] @ '':'' @ [dquote] @ ''0770'' @ [dquote] @ ''}''
      else [])"

definition config_string :: "settings \<Rightarrow> string \<Rightarrow> string" where
  "config_string S key =
     (case se_env S key of
        Some v \<Rightarrow> v
      | None \<Rightarrow>
          if se_file S key \<noteq> [] then se_file S key
          else app_default (case se_env S ''appname'' of Some v \<Rightarrow> v | None \<Rightarrow> se_file S ''appname'') key)"

definition config_string_or :: "settings \<Rightarrow> string \<Rightarrow> string \<Rightarrow> string" where
  "config_string_or S key preset =
     (let v = trim_space (config_string S key) in if v = [] then preset else v)"

text \<open>\<open>strconv.ParseBool\<close>.\<close>

definition parse_bool :: "string \<Rightarrow> bool option" where
  "parse_bool s =
     (if s \<in> {''1'', ''t'', ''T'', ''true'', ''TRUE'', ''True''} then Some True
      else if s \<in> {''0'', ''f'', ''F'', ''false'', ''FALSE'', ''False''} then Some False else None)"

definition config_bool_or :: "settings \<Rightarrow> string \<Rightarrow> bool \<Rightarrow> bool" where
  "config_bool_or S key preset =
     (let v = trim_space (config_string S key) in
      if v = [] then preset
      else if to_lower v \<in> {''yes'', ''y'', ''on''} then True
      else if to_lower v \<in> {''no'', ''n'', ''off''} then False
      else (case parse_bool v of None \<Rightarrow> preset | Some b \<Rightarrow> b))"

definition config_int_or :: "settings \<Rightarrow> string \<Rightarrow> int \<Rightarrow> int" where
  "config_int_or S key preset =
     (let v = trim_space (config_string S key) in
      if v = [] then preset else (case atoi v of None \<Rightarrow> preset | Some n \<Rightarrow> n))"

text \<open>\<open>GetConfigInt\<close> panics on what is no number.\<close>

definition config_int :: "settings \<Rightarrow> string \<Rightarrow> int option" where
  "config_int S key = atoi (config_string S key)"

definition config_bool :: "settings \<Rightarrow> string \<Rightarrow> bool" where
  "config_bool S key = config_bool_or S key False"

definition is_demo_mode :: "settings \<Rightarrow> bool" where
  "is_demo_mode S = config_bool_or S ''isDemoMode'' False"

definition config_batch_size :: "settings \<Rightarrow> int" where
  "config_batch_size S = (case atoi (config_string S ''batchSize'') of None \<Rightarrow> 100 | Some n \<Rightarrow> n)"

definition data_source_name :: "settings \<Rightarrow> string" where
  "data_source_name S =
     (let name = config_string S ''dataSourceName'' in
      if se_env S ''RUNNING_IN_DOCKER'' = Some ''true'' then
        replace_all name ''localhost'' (if se_os S = ''linux'' then ''172.17.0.1'' else ''host.docker.internal'')
      else name)"

definition driver_name :: "settings \<Rightarrow> string" where
  "driver_name S =
     (let d = to_lower (config_string_or S ''driverName'' ''sqlite'') in if d = ''sqlite3'' then ''sqlite'' else d)"

text \<open>\<open>path_join\<close> is \<open>filepath.Join\<close> of the data directory and a name.\<close>

definition resolve_data_source :: "(string \<Rightarrow> string \<Rightarrow> string) \<Rightarrow> string \<Rightarrow> string \<Rightarrow> string \<Rightarrow> string" where
  "resolve_data_source path_join driver name dir =
     (if driver = ''sqlite'' \<and> trim_space name = [] then path_join dir ''casos.db'' else name)"

definition database_source :: "(string \<Rightarrow> string \<Rightarrow> string) \<Rightarrow> settings \<Rightarrow> string \<Rightarrow> string" where
  "database_source path_join S dir = resolve_data_source path_join (driver_name S) (data_source_name S) dir"

definition language_of :: "string \<Rightarrow> string" where
  "language_of l =
     (if l = [] \<or> l = ''*'' then ''en'' else if length l \<noteq> 2 \<or> l = ''nu'' then ''en'' else l)"

end
