(* ===== verification/HelmRepo.thy ===== *)
theory HelmRepo
  imports HelmRedact HelmCompat HelmAdapters Settings
begin

text \<open>
  Where a chart comes from (store/helm.go): the index of a repository, OCI references with their tags, the newest tag,
  pulls with their cache and mirror, the load of a chart with its fall back to another address; and what the cluster
  tells the install adapters. Parameters: the web and the registries (per address and attempt), the archive loader, the
  index decoder, the versions of Masterminds/semver, the host rules of net/url, the quoting of fmt.
\<close>

section \<open>What the cluster tells\<close>

record hosted_service =
  hs_namespace :: string
  hs_labels :: "string \<rightharpoonup> string"
  hs_ports :: "(int \<times> int) list"

definition cluster_used_ports :: "hosted_service list option \<Rightarrow> int list option" where
  "cluster_used_ports services =
     map_option (\<lambda>ss. uniq_onto [] (filter (\<lambda>n. n \<noteq> 0) (map snd (concat (map hs_ports ss))))) services"

definition assign_port :: "(int \<times> int) list \<Rightarrow> int \<times> int \<Rightarrow> (int \<times> int) list" where
  "assign_port assigned p =
     (case p of (port, node_port) \<Rightarrow>
        if node_port \<noteq> 0 \<and> (map_of assigned port = None \<or> map_of assigned port = Some 0) then AList.update port node_port assigned else assigned)"

definition release_assigned_ports :: "hosted_service list option \<Rightarrow> string \<Rightarrow> string \<Rightarrow> (int \<times> int) list" where
  "release_assigned_ports services release ns =
     foldl assign_port []
       (concat (map hs_ports
         (filter (\<lambda>s. (ns = [] \<or> hs_namespace s = ns)
             \<and> (case hs_labels s ''app.kubernetes.io/instance'' of None \<Rightarrow> [] | Some l \<Rightarrow> l) = release)
           (case services of None \<Rightarrow> [] | Some ss \<Rightarrow> ss))))"

text \<open>A node is its addresses with their types. None is a list call that failed; no address found is a nil slice too.\<close>

definition cluster_node_ips :: "(string \<times> string) list list option \<Rightarrow> string list option" where
  "cluster_node_ips nodes =
     (case nodes of
        None \<Rightarrow> None
      | Some ns \<Rightarrow>
          (let ips = uniq_onto [] (map snd (filter (\<lambda>(type, a). (type = ''InternalIP'' \<or> type = ''ExternalIP'') \<and> a \<noteq> []) (concat ns)))
           in if ips = [] then None else Some ips))"

definition new_cluster_context ::
  "hosted_service list option \<Rightarrow> (string \<times> string) list list option \<Rightarrow> string \<Rightarrow> string \<Rightarrow> cluster" where
  "new_cluster_context services nodes release ns =
     \<lparr>cl_node_ips = cluster_node_ips nodes, cl_used_ports = cluster_used_ports services,
      cl_release_ports = release_assigned_ports services release ns, cl_release = release, cl_namespace = ns\<rparr>"

section \<open>The version of the cluster\<close>

record kube_version =
  kv_version :: string
  kv_major :: string
  kv_minor :: string

text \<open>A semantic version of k8s.io/apimachinery: its numbers, its prerelease, its text.\<close>

record semantic =
  sm_major :: nat
  sm_minor :: nat
  sm_patch :: nat
  sm_prerelease :: string
  sm_text :: string

definition keep_prerelease :: "string \<Rightarrow> bool" where
  "keep_prerelease pre \<longleftrightarrow> pre = [] \<or> has_prefix pre ''alpha'' \<or> has_prefix pre ''beta'' \<or> has_prefix pre ''rc''"

definition normalize_kube_version ::
  "(string \<Rightarrow> semantic option) \<Rightarrow> (string \<Rightarrow> kube_version option) \<Rightarrow> string \<Rightarrow> string \<Rightarrow> string \<Rightarrow> kube_version" where
  "normalize_kube_version semantic helm git major minor =
     (let v = fst (cut git ''+'') in
      case semantic v of
        Some m \<Rightarrow>
          \<lparr>kv_version = (if keep_prerelease (sm_prerelease m) then ''v'' @ sm_text m
             else ''v'' @ itoa (int (sm_major m)) @ ''.'' @ itoa (int (sm_minor m)) @ ''.'' @ itoa (int (sm_patch m))),
           kv_major = itoa (int (sm_major m)), kv_minor = itoa (int (sm_minor m))\<rparr>
      | None \<Rightarrow>
          (case helm v of
             Some k \<Rightarrow> k
           | None \<Rightarrow>
               \<lparr>kv_version = v,
                kv_major = (if atoi major = None then ''0'' else major),
                kv_minor = (if atoi minor = None then ''0'' else minor)\<rparr>))"

section \<open>OCI references\<close>

definition is_oci_repo :: "string \<Rightarrow> bool" where
  "is_oci_repo repo \<longleftrightarrow> has_prefix repo ''oci://''"

definition oci_tag_char :: "char \<Rightarrow> bool" where
  "oci_tag_char c \<longleftrightarrow> is_digit c \<or> ascii_letter c \<or> c = CHR ''_''"

definition is_oci_tag :: "string \<Rightarrow> bool" where
  "is_oci_tag tag \<longleftrightarrow>
     tag \<noteq> [] \<and> length tag \<le> 128 \<and> oci_tag_char (hd tag)
     \<and> list_all (\<lambda>c. oci_tag_char c \<or> c = CHR ''.'' \<or> c = CHR ''-'') (tl tag)"

definition split_oci_tag :: "string \<Rightarrow> string \<times> string" where
  "split_oci_tag ref =
     (if contains ref ''@'' then (ref, [])
      else
        (case (last_index ref (CHR ''/''), last_index ref (CHR '':'')) of
           (Some slash, Some colon) \<Rightarrow>
             if colon \<le> slash then (ref, [])
             else
               (let tag = drop (colon + 1) ref;
                    name = drop (slash + 1) (take colon ref)
                in if CHR '':'' \<in> set name \<or> \<not> is_oci_tag tag then (ref, []) else (take colon ref, tag))
         | _ \<Rightarrow> (ref, [])))"

definition resolve_oci_ref :: "string \<Rightarrow> string \<Rightarrow> string \<times> string" where
  "resolve_oci_ref repo version =
     (case split_oci_tag (trim_prefix repo ''oci://'') of (ref, tagged) \<Rightarrow> (ref, if version \<noteq> [] then version else tagged))"

definition docker_hub_oci_mirror :: "settings \<Rightarrow> string \<Rightarrow> string" where
  "docker_hub_oci_mirror S repo =
     (if equal_fold (trim_space (config_string_or S ''imageRegistryMirror'' ''auto'')) ''never'' then []
      else
        (case cut (trim_prefix (trim_space repo) ''oci://'') ''/'' of (host, path, ok) \<Rightarrow>
           if \<not> ok \<or> path = [] then []
           else if to_lower host \<in> {''docker.io'', ''registry-1.docker.io''} then ''oci://docker.1ms.run/'' @ path
           else []))"

text \<open>\<open>sort.SliceStable\<close> by descending version, as an insertion that keeps equal versions in their order.\<close>

fun insert_newest :: "('v \<Rightarrow> 'v \<Rightarrow> bool) \<Rightarrow> string \<times> 'v \<Rightarrow> (string \<times> 'v) list \<Rightarrow> (string \<times> 'v) list" where
  "insert_newest gt x [] = [x]"
| "insert_newest gt x (y # ys) = (if gt (snd x) (snd y) then x # y # ys else y # insert_newest gt x ys)"

definition versioned_tags :: "(string \<Rightarrow> 'v option) \<Rightarrow> string list \<Rightarrow> (string \<times> 'v) list" where
  "versioned_tags parse tags = List.map_filter (\<lambda>t. map_option (Pair t) (parse t)) tags"

definition latest_oci_tag :: "(string \<Rightarrow> 'v option) \<Rightarrow> ('v \<Rightarrow> 'v \<Rightarrow> bool) \<Rightarrow> string list \<Rightarrow> string" where
  "latest_oci_tag parse gt tags =
     (case foldl (\<lambda>sorted x. insert_newest gt x sorted) [] (versioned_tags parse tags) of [] \<Rightarrow> [] | (t, _) # _ \<Rightarrow> t)"

section \<open>What a load works with\<close>

record chart_meta =
  cm_name :: string
  cm_version :: string
  cm_app_version :: string
  cm_description :: string
  cm_icon :: string
  cm_keywords :: "string list"
  cm_type :: string

text \<open>A chart loaded, with the archive it was read from; a pull is the archive with what the registry says of it.\<close>

record loaded_chart =
  lc_meta :: "chart_meta option"
  lc_archive :: string

record pulled =
  pl_data :: string
  pl_meta :: "chart_meta option"

record index_entry =
  ie_meta :: chart_meta
  ie_urls :: "string list"

type_synonym repo_index = "(string \<times> index_entry list) list"

record 'v sources =
  so_settings :: settings
  so_hosts :: host_rules
  so_quote :: "string \<Rightarrow> string"
  so_now :: int
  so_web :: "string \<Rightarrow> web"
  so_decode :: "string \<Rightarrow> derror + (string \<times> index_entry option list) list"
  so_client :: "derror option"
  so_tags :: "string \<Rightarrow> nat \<Rightarrow> derror + string list"
  so_pull :: "string \<Rightarrow> nat \<Rightarrow> derror + pulled"
  so_archive :: "string \<Rightarrow> derror + loaded_chart"
  so_version :: "string \<Rightarrow> 'v option"
  so_greater :: "'v \<Rightarrow> 'v \<Rightarrow> bool"
  so_equal :: "'v \<Rightarrow> 'v \<Rightarrow> bool"

text \<open>A load fails with an error, or panics while it redacts an address for one.\<close>

datatype fault = Panics | Fails derror

definition quoted :: "'v sources \<Rightarrow> string \<Rightarrow> (string \<Rightarrow> derror) \<Rightarrow> fault" where
  "quoted so url e = (case redact_url (so_hosts so) url of None \<Rightarrow> Panics | Some r \<Rightarrow> Fails (e (so_quote so r)))"

definition sanitized :: "'v sources \<Rightarrow> string list \<Rightarrow> derror \<Rightarrow> (derror \<Rightarrow> fault) \<Rightarrow> fault" where
  "sanitized so raws e k = (case sanitize_error (so_hosts so) e raws of None \<Rightarrow> Panics | Some e' \<Rightarrow> k e')"

text \<open>\<open>errors.Join\<close>: both texts, and whatever either of them answers.\<close>

definition joined_error :: "derror \<Rightarrow> derror \<Rightarrow> derror" where
  "joined_error a b =
     \<lparr>er_text = er_text a @ [newline] @ er_text b, er_deadline = er_deadline a \<or> er_deadline b, er_eof = er_eof a \<or> er_eof b,
      er_net = (case er_net a of None \<Rightarrow> er_net b | n \<Rightarrow> n), er_op = er_op a \<or> er_op b,
      er_status = (case er_status a of None \<Rightarrow> er_status b | n \<Rightarrow> n),
      er_registry = (case er_registry a of None \<Rightarrow> er_registry b | n \<Rightarrow> n)\<rparr>"

definition joined_fault :: "derror \<Rightarrow> fault \<Rightarrow> fault" where
  "joined_fault a f = (case f of Panics \<Rightarrow> Panics | Fails b \<Rightarrow> Fails (joined_error a b))"

definition downloaded :: "artifact_cache \<Rightarrow> (derror + string) \<times> artifact_cache option \<Rightarrow> (derror + string) \<times> artifact_cache" where
  "downloaded cache r = (fst r, case snd r of None \<Rightarrow> cache | Some c \<Rightarrow> c)"

section \<open>The index\<close>

definition kept_entries :: "(string \<times> index_entry option list) list \<Rightarrow> repo_index" where
  "kept_entries raw =
     filter (\<lambda>(_, vs). vs \<noteq> []) (map (\<lambda>(name, vs). (name, List.map_filter id vs)) raw)"

definition fetch_index :: "'v sources \<Rightarrow> string \<Rightarrow> artifact_cache \<Rightarrow> (fault + repo_index) \<times> artifact_cache" where
  "fetch_index so repo cache =
     (let url = trim_right_set repo ''/'' @ ''/index.yaml'' in
      case downloaded cache (download_index (so_web so url) url (so_now so) cache) of
        (Inl e, c) \<Rightarrow> (Inl (sanitized so [url, repo] e (\<lambda>e'. quoted so url (\<lambda>q. wrapped (''fetch index '' @ q) e'))), c)
      | (Inr data, c) \<Rightarrow>
          (case so_decode so data of
             Inl e \<Rightarrow> (Inl (Fails (wrapped ''parse index'' e)), c)
           | Inr raw \<Rightarrow> (Inr (kept_entries raw), c)))"

definition chart_summary :: "string \<Rightarrow> chart_meta \<Rightarrow> chart_meta" where
  "chart_summary name m = m\<lparr>cm_name := name, cm_type := []\<rparr>"

definition index_charts :: "repo_index \<Rightarrow> chart_meta list" where
  "index_charts idx =
     List.map_filter (\<lambda>(name, vs).
       case vs of
         [] \<Rightarrow> None
       | v # _ \<Rightarrow> if installable (cm_type (ie_meta v)) then Some (chart_summary name (ie_meta v)) else None) idx"

section \<open>Pulls\<close>

text \<open>What a retried operation left when it succeeded: its first answer of three attempts.\<close>

definition first_answer :: "(nat \<Rightarrow> derror + 'a) \<Rightarrow> 'a" where
  "first_answer op = (case op 0 of Inr a \<Rightarrow> a | Inl _ \<Rightarrow> (case op 1 of Inr a \<Rightarrow> a | Inl _ \<Rightarrow> projr (op 2)))"

definition retried :: "'v sources \<Rightarrow> string \<Rightarrow> (nat \<Rightarrow> derror + 'a) \<Rightarrow> derror + 'a" where
  "retried so ref op =
     (case retry_oci (so_web so ref) (\<lambda>n. case op n of Inl e \<Rightarrow> Some e | Inr _ \<Rightarrow> None) of
        Some e \<Rightarrow> Inl e
      | None \<Rightarrow> Inr (first_answer op))"

definition resolve_version :: "'v sources \<Rightarrow> string \<Rightarrow> string \<Rightarrow> string \<Rightarrow> fault + string" where
  "resolve_version so repo ref version =
     (if version \<noteq> [] \<or> contains ref ''@'' then Inr version
      else
        (case retried so ref (so_tags so ref) of
           Inl e \<Rightarrow> Inl (sanitized so [repo, ref] e (\<lambda>e'. quoted so repo (\<lambda>q. wrapped (''list oci tags for '' @ q) e')))
         | Inr tags \<Rightarrow>
             (let plain_fault = (\<lambda>m. case redact_url (so_hosts so) repo of None \<Rightarrow> Panics | Some r \<Rightarrow> Fails (plain_error (m @ r))) in
              if tags = [] then Inl (plain_fault ''no tags found for '')
              else
                (let t = latest_oci_tag (so_version so) (so_greater so) tags in
                 if t = [] then Inl (plain_fault ''no semver tags found for '') else Inr t))))"

definition cached_pull :: "'v sources \<Rightarrow> string \<Rightarrow> artifact_cache \<Rightarrow> (fault + pulled) option \<times> artifact_cache" where
  "cached_pull so ref cache =
     (case get_data (''oci-chart:'' @ ref) (so_now so) cache of
        (None, c) \<Rightarrow> (None, c)
      | (Some data, c) \<Rightarrow>
          (case so_archive so data of
             Inl e \<Rightarrow> (Some (Inl (quoted so ref (\<lambda>q. wrapped (''load cached oci chart '' @ q) e))), c)
           | Inr ch \<Rightarrow> (Some (Inr \<lparr>pl_data = data, pl_meta = lc_meta ch\<rparr>), c)))"

definition cache_pull :: "string \<Rightarrow> pulled \<Rightarrow> int \<Rightarrow> artifact_cache \<Rightarrow> artifact_cache" where
  "cache_pull ref p now cache = (if pl_data p = [] then cache else put_data (''oci-chart:'' @ ref) (pl_data p) now cache)"

definition pull_oci_chart :: "'v sources \<Rightarrow> string \<Rightarrow> string \<Rightarrow> artifact_cache \<Rightarrow> (fault + pulled) \<times> artifact_cache" where
  "pull_oci_chart so repo version cache =
     (case resolve_oci_ref repo version of (ref, resolved) \<Rightarrow>
       (case so_client so of
          Some e \<Rightarrow> (Inl (Fails (wrapped ''oci registry client'' e)), cache)
        | None \<Rightarrow>
            (case resolve_version so repo ref resolved of
               Inl f \<Rightarrow> (Inl f, cache)
             | Inr tag \<Rightarrow>
                 if tag \<noteq> [] \<and> contains ref ''@'' then
                   (Inl (case redact_url (so_hosts so) repo of
                           None \<Rightarrow> Panics
                         | Some r \<Rightarrow> Fails (plain_error (''oci digest reference '' @ r @ '' cannot be used with version '' @ so_quote so tag))), cache)
                 else
                   (let pull_ref = (if tag \<noteq> [] then ref @ '':'' @ tag else ref) in
                    case cached_pull so pull_ref cache of
                      (Some answer, c) \<Rightarrow> (answer, c)
                    | (None, c) \<Rightarrow>
                        (case retried so pull_ref (so_pull so pull_ref) of
                           Inl e \<Rightarrow> (Inl (sanitized so [repo, ref, pull_ref] e (\<lambda>e'. quoted so repo (\<lambda>q. wrapped (''pull oci chart '' @ q) e'))), c)
                         | Inr p \<Rightarrow> (Inr p, cache_pull pull_ref p (so_now so) c))))))"

definition load_oci_chart :: "'v sources \<Rightarrow> string \<Rightarrow> string \<Rightarrow> artifact_cache \<Rightarrow> (fault + loaded_chart) \<times> artifact_cache" where
  "load_oci_chart so repo version cache =
     (case pull_oci_chart so repo version cache of
        (Inl f, c) \<Rightarrow> (Inl f, c)
      | (Inr p, c) \<Rightarrow> (case so_archive so (pl_data p) of Inl e \<Rightarrow> (Inl (Fails e), c) | Inr ch \<Rightarrow> (Inr ch, c)))"

text \<open>The direct attempt runs under a deadline of its own when there is a mirror: \<open>direct\<close> is what it meets.\<close>

definition load_oci_with_mirror ::
  "'v sources \<Rightarrow> 'v sources \<Rightarrow> string \<Rightarrow> string \<Rightarrow> artifact_cache \<Rightarrow> (fault + loaded_chart) \<times> artifact_cache" where
  "load_oci_with_mirror direct so repo version cache =
     (let mirror = docker_hub_oci_mirror (so_settings so) repo in
      case load_oci_chart (if mirror \<noteq> [] then direct else so) repo version cache of
        (Inr ch, c) \<Rightarrow> (Inr ch, c)
      | (Inl Panics, c) \<Rightarrow> (Inl Panics, c)
      | (Inl (Fails e), c) \<Rightarrow>
          if mirror = [] then (Inl (Fails e), c)
          else
            (case load_oci_chart so mirror version c of
               (Inr ch, c') \<Rightarrow> (Inr ch, c')
             | (Inl Panics, c') \<Rightarrow> (Inl Panics, c')
             | (Inl (Fails e'), c') \<Rightarrow>
                 (Inl (joined_fault e (quoted so mirror (\<lambda>q. wrapped (''Docker Hub OCI mirror '' @ q @ '' failed'') e'))), c')))"

definition fetch_oci_summary :: "'v sources \<Rightarrow> string \<Rightarrow> artifact_cache \<Rightarrow> (fault + chart_meta list) \<times> artifact_cache" where
  "fetch_oci_summary so repo cache =
     (case pull_oci_chart so repo [] cache of
        (Inl f, c) \<Rightarrow> (Inl f, c)
      | (Inr p, c) \<Rightarrow>
          (case pl_meta p of
             None \<Rightarrow> (Inl (case redact_url (so_hosts so) repo of None \<Rightarrow> Panics | Some r \<Rightarrow> Fails (plain_error (''chart metadata not found for '' @ r))), c)
           | Some m \<Rightarrow> (Inr (if installable (cm_type m) then [chart_summary (cm_name m) m] else []), c)))"

definition fetch_repo_index :: "'v sources \<Rightarrow> string \<Rightarrow> artifact_cache \<Rightarrow> (fault + chart_meta list) \<times> artifact_cache" where
  "fetch_repo_index so repo cache =
     (if is_oci_repo repo then fetch_oci_summary so repo cache
      else (case fetch_index so repo cache of (Inl f, c) \<Rightarrow> (Inl f, c) | (Inr idx, c) \<Rightarrow> (Inr (index_charts idx), c)))"

section \<open>Loading a chart\<close>

definition helm_versions_equal :: "'v sources \<Rightarrow> string \<Rightarrow> string \<Rightarrow> bool" where
  "helm_versions_equal so l r \<longleftrightarrow>
     l = r \<or> (case (so_version so l, so_version so r) of (Some a, Some b) \<Rightarrow> so_equal so a b | _ \<Rightarrow> False)"

definition load_content_url ::
  "'v sources \<Rightarrow> string \<Rightarrow> string \<Rightarrow> string \<Rightarrow> string \<Rightarrow> fault \<Rightarrow> artifact_cache \<Rightarrow> (fault + loaded_chart) \<times> artifact_cache" where
  "load_content_url so name repo version content primary cache =
     (case primary of
        Panics \<Rightarrow> (Inl Panics, cache)
      | Fails e0 \<Rightarrow>
          if trim_space content = [] then (Inl (Fails e0), cache)
          else
            (case downloaded cache (download_artifact (so_web so content) content (so_now so) cache) of
               (Inl e, c) \<Rightarrow>
                 (Inl (joined_fault e0 (sanitized so [content, repo] e (\<lambda>e'. quoted so content
                    (\<lambda>q. wrapped (''download ArtifactHub content URL '' @ q @ '' failed'') e')))), c)
             | (Inr data, c) \<Rightarrow>
                 (case so_archive so data of
                    Inl e \<Rightarrow> (Inl (joined_fault e0 (quoted so content (\<lambda>q. wrapped (''parse ArtifactHub chart archive '' @ q @ '' failed'') e))), c)
                  | Inr ch \<Rightarrow>
                      (case lc_meta ch of
                         None \<Rightarrow>
                           (Inl (Fails (joined_error e0 (plain_error (''ArtifactHub content URL resolved to chart '' @ so_quote so [] @ '' version ''
                              @ so_quote so [] @ '', expected '' @ so_quote so name @ '' version '' @ so_quote so version)))), c)
                       | Some m \<Rightarrow>
                           if cm_name m \<noteq> name \<or> (version \<noteq> [] \<and> \<not> helm_versions_equal so (cm_version m) version) then
                             (Inl (Fails (joined_error e0 (plain_error (''ArtifactHub content URL resolved to chart '' @ so_quote so (cm_name m) @ '' version ''
                                @ so_quote so (cm_version m) @ '', expected '' @ so_quote so name @ '' version '' @ so_quote so version)))), c)
                           else (Inr ch, c)))))"

definition load_context :: "'v sources \<Rightarrow> string \<Rightarrow> string \<Rightarrow> string \<Rightarrow> string \<Rightarrow> string option" where
  "load_context so name kind repo version =
     map_option (\<lambda>r. ''load chart '' @ so_quote so name @ '' from '' @ kind @ '' '' @ so_quote so r @ '' version '' @ so_quote so version)
       (redact_url (so_hosts so) repo)"

definition in_context :: "string option \<Rightarrow> (string \<Rightarrow> fault) \<Rightarrow> fault" where
  "in_context ctx f = (case ctx of None \<Rightarrow> Panics | Some m \<Rightarrow> f m)"

definition chosen_entry :: "'v sources \<Rightarrow> string \<Rightarrow> index_entry list \<Rightarrow> index_entry option" where
  "chosen_entry so version vs = find (\<lambda>v. version = [] \<or> helm_versions_equal so (cm_version (ie_meta v)) version) vs"

definition chart_address :: "string \<Rightarrow> string \<Rightarrow> string" where
  "chart_address repo url =
     (if has_prefix url ''http'' then url else trim_right_set repo ''/'' @ ''/'' @ trim_left_set url ''/'')"

definition load_indexed ::
  "'v sources \<Rightarrow> 'v sources \<Rightarrow> string \<Rightarrow> string \<Rightarrow> string \<Rightarrow> index_entry \<Rightarrow> string \<Rightarrow> (fault \<Rightarrow> artifact_cache \<Rightarrow> (fault + loaded_chart) \<times> artifact_cache)
     \<Rightarrow> artifact_cache \<Rightarrow> (fault + loaded_chart) \<times> artifact_cache" where
  "load_indexed direct so name repo version entry listed fallback cache =
     (if is_oci_repo listed then
        (let v = (if version = [] then cm_version (ie_meta entry) else version) in
         case load_oci_with_mirror direct so listed v cache of
           (Inr ch, c) \<Rightarrow> (Inr ch, c)
         | (Inl Panics, c) \<Rightarrow> (Inl Panics, c)
         | (Inl (Fails e), c) \<Rightarrow>
             (Inl (in_context (load_context so name ''repo'' repo v)
                (\<lambda>m. quoted so listed (\<lambda>q. wrapped (m @ '': index.yaml resolved to OCI chart URL '' @ q) e))), c))
      else
        (let url = chart_address repo listed in
         case downloaded cache (download_artifact (so_web so url) url (so_now so) cache) of
           (Inl e, c) \<Rightarrow>
             fallback (in_context (load_context so name ''repo'' repo (cm_version (ie_meta entry)))
               (\<lambda>m. sanitized so [url, repo] e (\<lambda>e'. quoted so url (\<lambda>q. wrapped (m @ '': download chart archive '' @ q @ '' failed'') e')))) c
         | (Inr data, c) \<Rightarrow>
             (case so_archive so data of
                Inl e \<Rightarrow>
                  fallback (in_context (load_context so name ''repo'' repo (cm_version (ie_meta entry)))
                    (\<lambda>m. quoted so url (\<lambda>q. wrapped (m @ '': parse chart archive '' @ q @ '' failed'') e))) c
              | Inr ch \<Rightarrow> (Inr ch, c))))"

definition load_chart ::
  "'v sources \<Rightarrow> 'v sources \<Rightarrow> string \<Rightarrow> string \<Rightarrow> string \<Rightarrow> string \<Rightarrow> artifact_cache \<Rightarrow> (fault + loaded_chart) \<times> artifact_cache" where
  "load_chart direct so name repo version content cache =
     (let fallback = load_content_url so name repo version content in
      if is_oci_repo repo then
        (case load_oci_with_mirror direct so repo version cache of
           (Inr ch, c) \<Rightarrow> (Inr ch, c)
         | (Inl Panics, c) \<Rightarrow> (Inl Panics, c)
         | (Inl (Fails e), c) \<Rightarrow> (Inl (in_context (load_context so name ''OCI repo'' repo version) (\<lambda>m. Fails (wrapped m e))), c))
      else
        (case fetch_index so repo cache of
           (Inl Panics, c) \<Rightarrow> (Inl Panics, c)
         | (Inl (Fails e), c) \<Rightarrow>
             fallback (in_context (load_context so name ''repo'' repo version) (\<lambda>m. Fails (wrapped (m @ '': fetch index.yaml failed'') e))) c
         | (Inr idx, c) \<Rightarrow>
             (case map_of idx name of
                None \<Rightarrow> fallback (Fails (plain_error (''chart '' @ so_quote so name @ '' not found in repo''))) c
              | Some vs \<Rightarrow>
                  if vs = [] then fallback (Fails (plain_error (''chart '' @ so_quote so name @ '' not found in repo''))) c
                  else
                    (case chosen_entry so version vs of
                       None \<Rightarrow> fallback (Fails (plain_error (''chart '' @ so_quote so name @ '' version '' @ so_quote so version @ '' not found''))) c
                     | Some entry \<Rightarrow>
                         (case ie_urls entry of
                            [] \<Rightarrow> fallback (Fails (plain_error (''chart '' @ so_quote so name @ '' has no download URLs''))) c
                          | listed # _ \<Rightarrow> load_indexed direct so name repo version entry listed fallback c)))))"

section \<open>A tag and its reference\<close>

lemma tag_avoids:
  assumes "is_oci_tag t"
  shows "CHR ''/'' \<notin> set t" "CHR '':'' \<notin> set t" "CHR ''@'' \<notin> set t" "t \<noteq> []"
proof -
  have w: "oci_tag_char c \<or> c = CHR ''.'' \<or> c = CHR ''-'' \<Longrightarrow> c \<noteq> CHR ''/'' \<and> c \<noteq> CHR '':'' \<and> c \<noteq> CHR ''@''" for c
    by (auto simp: oci_tag_char_def is_digit_def less_eq_char_def)
  obtain c u where t: "t = c # u" using assms by (cases t) (auto simp: is_oci_tag_def)
  with assms have "oci_tag_char c" "list_all (\<lambda>c. oci_tag_char c \<or> c = CHR ''.'' \<or> c = CHR ''-'') u" by (auto simp: is_oci_tag_def)
  then show "CHR ''/'' \<notin> set t" "CHR '':'' \<notin> set t" "CHR ''@'' \<notin> set t" "t \<noteq> []"
    using w t unfolding list_all_iff by (metis set_ConsD list.distinct(1))+
qed

text \<open>The grammar of a tag, as the registries document it: a word character, and at most 127 of them, dots and dashes.\<close>

definition word_chars :: string where
  "word_chars = ''abcdefghijklmnopqrstuvwxyzABCDEFGHIJKLMNOPQRSTUVWXYZ0123456789_''"

definition tag_text :: "string \<Rightarrow> bool" where
  "tag_text t \<longleftrightarrow> (\<exists>c u. t = c # u \<and> c \<in> set word_chars \<and> set u \<subseteq> set (''.-'' @ word_chars) \<and> length u \<le> 127)"

lemma word_char: "oci_tag_char c \<longleftrightarrow> c \<in> set word_chars"
proof -
  have "list_all (\<lambda>n. oci_tag_char (char_of n) = (char_of n \<in> set word_chars)) [0 ..< (256 :: nat)]" by code_simp
  then have "oci_tag_char (char_of (of_char c :: nat)) = (char_of (of_char c :: nat) \<in> set word_chars)"
    unfolding list_all_iff by (rule bspec) simp
  then show ?thesis by simp
qed

lemma tag_text_iff: "tag_text t \<longleftrightarrow> is_oci_tag t"
  by (cases t) (auto simp: tag_text_def is_oci_tag_def word_char list_all_iff)

definition tagged_ref :: "string \<Rightarrow> string \<Rightarrow> string \<Rightarrow> bool" where
  "tagged_ref r a t \<longleftrightarrow> (\<exists>u n. r = u @ ''/'' @ n @ '':'' @ t \<and> a = u @ ''/'' @ n \<and> tag_text t
     \<and> CHR ''/'' \<notin> set n \<and> CHR '':'' \<notin> set n \<and> CHR ''@'' \<notin> set (u @ n))"

lemma contains_char: "contains s [c] \<longleftrightarrow> c \<in> set s"
  by (auto simp: contains_iff dest: split_list)

lemma split_tagged: "tagged_ref r a t \<Longrightarrow> split_oci_tag r = (a, t)"
proof -
  assume "tagged_ref r a t"
  then obtain u n where r: "r = u @ ''/'' @ n @ '':'' @ t" "a = u @ ''/'' @ n" "is_oci_tag t"
      "CHR ''/'' \<notin> set n" "CHR '':'' \<notin> set n" "CHR ''@'' \<notin> set (u @ n)"
    unfolding tagged_ref_def tag_text_iff by blast
  note T = tag_avoids [OF r(3)]
  have "last_index r (CHR ''/'') = Some (length u)"
    using last_index_snoc [of "CHR ''/''" "n @ '':'' @ t" u] T r by simp
  moreover have "last_index r (CHR '':'') = Some (length (u @ ''/'' @ n))"
    using last_index_snoc [of "CHR '':''" t "u @ ''/'' @ n"] T r by simp
  moreover have "\<not> contains r ''@''" using r T by (simp add: contains_char)
  ultimately show ?thesis using r by (simp add: split_oci_tag_def Let_def)
qed

lemma split_found:
  assumes "split_oci_tag r = (a, t)" "t \<noteq> []"
  shows "tagged_ref r a t"
proof -
  obtain i j where ij: "\<not> contains r ''@''" "last_index r (CHR ''/'') = Some i" "last_index r (CHR '':'') = Some j" "i < j"
      and n: "CHR '':'' \<notin> set (drop (i + 1) (take j r))" "is_oci_tag t" and at: "a = take j r" "t = drop (j + 1) r"
    using assms by (auto simp: split_oci_tag_def Let_def split: option.splits if_splits)
  let ?u = "take i r" and ?n = "drop (i + 1) (take j r)"
  have I: "r ! i = CHR ''/''" "CHR ''/'' \<notin> set (drop (Suc i) r)" using last_index_SomeD [OF ij(2)] by auto
  have J: "j < length r" "r ! j = CHR '':''" using last_index_SomeD [OF ij(3)] by auto
  have r: "r = take j r @ '':'' @ t" using J(1,2) at id_take_nth_drop [of j r] by simp
  have a: "take j r = ?u @ ''/'' @ ?n" using id_take_nth_drop [of i "take j r"] ij(4) I(1) J(1) by (simp add: min_def)
  have "set ?n \<subseteq> set (drop (Suc i) r)" by (simp add: drop_take set_take_subset)
  then have "CHR ''/'' \<notin> set ?n" using I(2) by blast
  moreover have "CHR ''@'' \<notin> set (?u @ ?n)"
    using ij(1) set_take_subset [of i r] set_take_subset [of j r] set_drop_subset [of "i + 1" "take j r"] by (auto simp: contains_char)
  ultimately show ?thesis
    unfolding tagged_ref_def tag_text_iff
  proof (intro exI conjI)
    show "r = ?u @ ''/'' @ ?n @ '':'' @ t" using r a by (metis append_assoc)
    show "a = ?u @ ''/'' @ ?n" using a at(1) by simp
  qed (use n(1,2) in simp_all)
qed

lemma split_plain: "split_oci_tag r = (a, []) \<Longrightarrow> a = r"
  using tag_avoids(4) by (auto simp: split_oci_tag_def Let_def split: option.splits if_splits)

text \<open>
  What \<open>splitOCIChartTag\<close> takes apart is the reference it was given: a tag is found exactly where a legal tag follows a colon
  of the last path segment, the only one there, of a reference with a slash and no digest; everything else is left whole.
\<close>

theorem oci_tag_splits:
  "split_oci_tag r = (a, t) \<longleftrightarrow> (if t = [] then a = r \<and> (\<nexists>b v. tagged_ref r b v) else tagged_ref r a t)"
proof (cases "t = []")
  case True
  have one: "split_oci_tag r \<noteq> (r, [])" if "tagged_ref r b v" for b v
  proof -
    have "v \<noteq> []" using that unfolding tagged_ref_def tag_text_def by blast
    then show ?thesis using split_tagged [OF that] by simp
  qed
  have two: "split_oci_tag r = (r, [])" if "\<nexists>b v. tagged_ref r b v"
  proof (cases "split_oci_tag r")
    case (Pair b v)
    then have "v = []" using that split_found by blast
    then show ?thesis using Pair split_plain by simp
  qed
  have "split_oci_tag r = (a, []) \<longleftrightarrow> a = r \<and> (\<nexists>b v. tagged_ref r b v)"
  proof
    assume h: "split_oci_tag r = (a, [])"
    then have "a = r" by (rule split_plain)
    then show "a = r \<and> (\<nexists>b v. tagged_ref r b v)" using h one by blast
  qed (use two in blast)
  then show ?thesis using True by simp
next
  case False
  then have "split_oci_tag r = (a, t) \<longleftrightarrow> tagged_ref r a t" using split_found [of r a t] split_tagged [of r a t] by blast
  then show ?thesis using False by simp
qed

section \<open>The newest tag\<close>

definition strict_weak :: "('v \<Rightarrow> 'v \<Rightarrow> bool) \<Rightarrow> bool" where
  "strict_weak gt \<longleftrightarrow> (\<forall>a b. gt a b \<longrightarrow> \<not> gt b a) \<and> (\<forall>a b c. \<not> gt a b \<longrightarrow> \<not> gt b c \<longrightarrow> \<not> gt a c)"

lemma insert_newest_set [simp]: "set (insert_newest gt x ys) = insert x (set ys)"
  by (induction ys) auto

lemma insert_newest_first:
  assumes "strict_weak gt" "ys \<noteq> [] \<Longrightarrow> \<forall>z \<in> set ys. \<not> gt (snd z) (snd (hd ys))"
  shows "\<forall>z \<in> insert x (set ys). \<not> gt (snd z) (snd (hd (insert_newest gt x ys)))"
proof (cases ys)
  case Nil
  have "\<not> gt (snd x) (snd x)" using assms(1) unfolding strict_weak_def by blast
  then show ?thesis using Nil by simp
next
  case (Cons y zs)
  then have first: "\<not> gt (snd z) (snd y)" if "z \<in> set ys" for z using assms(2) that by auto
  show ?thesis
  proof (cases "gt (snd x) (snd y)")
    case True
    have "\<not> gt (snd z) (snd x)" if "z \<in> set ys" for z
    proof
      assume z: "gt (snd z) (snd x)"
      have "\<not> gt (snd y) (snd x)" "\<not> gt (snd x) (snd z)" using True z assms(1) unfolding strict_weak_def by blast+
      then show False using True z first [OF that] assms(1) unfolding strict_weak_def by blast
    qed
    moreover have "\<not> gt (snd x) (snd x)" using assms(1) unfolding strict_weak_def by blast
    ultimately show ?thesis using Cons True by simp
  next
    case False
    then show ?thesis using Cons first by simp
  qed
qed

lemma newest_first:
  assumes "strict_weak gt"
  shows "\<forall>z \<in> set xs. \<not> gt (snd z) (snd (hd (foldl (\<lambda>sorted x. insert_newest gt x sorted) [] xs)))"
    and "set (foldl (\<lambda>sorted x. insert_newest gt x sorted) [] xs) = set xs"
proof -
  have "set (foldl (\<lambda>sorted x. insert_newest gt x sorted) [] xs) = set xs
      \<and> (\<forall>z \<in> set xs. \<not> gt (snd z) (snd (hd (foldl (\<lambda>sorted x. insert_newest gt x sorted) [] xs))))"
  proof (induction xs rule: rev_induct)
    case (snoc x xs)
    then show ?case using insert_newest_first [OF assms, of "foldl (\<lambda>sorted x. insert_newest gt x sorted) [] xs" x] by auto
  qed simp
  then show "\<forall>z \<in> set xs. \<not> gt (snd z) (snd (hd (foldl (\<lambda>sorted x. insert_newest gt x sorted) [] xs)))"
    "set (foldl (\<lambda>sorted x. insert_newest gt x sorted) [] xs) = set xs" by blast+
qed

definition newest_tag :: "(string \<Rightarrow> 'v option) \<Rightarrow> ('v \<Rightarrow> 'v \<Rightarrow> bool) \<Rightarrow> string list \<Rightarrow> string \<Rightarrow> bool" where
  "newest_tag parse gt tags t \<longleftrightarrow> t \<in> set tags \<and>
     (\<exists>v. parse t = Some v \<and> (\<forall>t' \<in> set tags. \<forall>v'. parse t' = Some v' \<longrightarrow> \<not> gt v' v))"

lemma versioned_iff: "(t, v) \<in> set (versioned_tags parse tags) \<longleftrightarrow> t \<in> set tags \<and> parse t = Some v"
  by (induction tags) (auto simp: versioned_tags_def List.map_filter_simps split: option.splits)

lemma latest_is_newest:
  assumes "strict_weak gt" "latest_oci_tag parse gt tags \<noteq> []"
  shows "newest_tag parse gt tags (latest_oci_tag parse gt tags)"
proof -
  let ?s = "foldl (\<lambda>sorted x. insert_newest gt x sorted) [] (versioned_tags parse tags)"
  obtain t v rest where s: "?s = (t, v) # rest" "latest_oci_tag parse gt tags = t"
    using assms(2) by (auto simp: latest_oci_tag_def split: list.splits)
  then have "(t, v) \<in> set (versioned_tags parse tags)" using newest_first(2) [OF assms(1), of "versioned_tags parse tags"] by (metis list.set_intros(1))
  moreover have "\<forall>z \<in> set (versioned_tags parse tags). \<not> gt (snd z) v" using newest_first(1) [OF assms(1), of "versioned_tags parse tags"] s by simp
  ultimately have "t \<in> set tags" "parse t = Some v" "\<forall>t' \<in> set tags. \<forall>v'. parse t' = Some v' \<longrightarrow> \<not> gt v' v"
    by (auto simp: versioned_iff) (metis snd_conv versioned_iff)
  then show ?thesis using s(2) unfolding newest_tag_def by blast
qed

section \<open>What is loaded is what was asked for\<close>

lemma get_data_cached:
  "get_data key now c = (Some data, c') \<Longrightarrow> \<exists>e. map_of (ac_entries c) key = Some e \<and> ce_data e = data \<and> now \<le> ce_expires e"
  by (auto simp: get_data_def get_entry_def touch_def Let_def split: if_splits option.splits prod.splits)

text \<open>The archive of a reference: the registry gives it, or it was cached for that reference and is not expired.\<close>

definition archive_of :: "'v sources \<Rightarrow> artifact_cache \<Rightarrow> string \<Rightarrow> string \<Rightarrow> bool" where
  "archive_of so cache ref data \<longleftrightarrow>
     (\<exists>n p. n < 3 \<and> so_pull so ref n = Inr p \<and> pl_data p = data) \<or>
     (\<exists>e. map_of (ac_entries cache) (''oci-chart:'' @ ref) = Some e \<and> ce_data e = data \<and> so_now so \<le> ce_expires e)"

lemma retried_answer: "retried so ref op = Inr a \<Longrightarrow> \<exists>n < 3. op n = Inr a"
proof -
  assume r: "retried so ref op = Inr a"
  then have none: "retry_oci (so_web so ref) (\<lambda>n. case op n of Inl e \<Rightarrow> Some e | Inr _ \<Rightarrow> None) = None" and a: "a = first_answer op"
    by (auto simp: retried_def split: option.splits)
  from none have "\<not> (\<forall>n \<in> {0, 1, 2}. isl (op n))"
    by (auto simp: retry_oci_def numeral_2_eq_2 isl_def split: if_splits option.splits)
  then show ?thesis
    using a by (cases "op 0"; cases "op 1"; cases "op 2") (auto simp: first_answer_def intro: exI [of _ "0::nat"] exI [of _ "1::nat"] exI [of _ "2::nat"])
qed

text \<open>
  The reference a pull of an address with a version should ask the registry for. One with an @ is a digest, which stands
  for itself and takes no version. Of one with a tag, the version replaces the tag, and without a version the tag stands.
  To one without, the version is appended, and without a version a newest of the tags that the registry lists.
\<close>

definition asked_ref :: "'v sources \<Rightarrow> string \<Rightarrow> string \<Rightarrow> string \<Rightarrow> bool" where
  "asked_ref so repo version pull_ref \<longleftrightarrow>
     (let r = trim_prefix repo ''oci://'' in
      if CHR ''@'' \<in> set r then version = [] \<and> pull_ref = r
      else if \<exists>base t. tagged_ref r base t
        then \<exists>base t. tagged_ref r base t \<and> pull_ref = (if version = [] then r else base @ '':'' @ version)
      else if version \<noteq> [] then pull_ref = r @ '':'' @ version
      else \<exists>tags t n. so_tags so r n = Inr tags \<and> newest_tag (so_version so) (so_greater so) tags t \<and> pull_ref = r @ '':'' @ t)"

lemma tagged_text: "tagged_ref r a t \<Longrightarrow> r = a @ '':'' @ t \<and> CHR ''@'' \<notin> set r \<and> t \<noteq> []"
  using tag_avoids [of t] by (auto simp: tagged_ref_def tag_text_iff)

text \<open>What the code resolves an address to, by these cases.\<close>

lemma resolved_ref:
  assumes "resolve_oci_ref repo version = (ref, v)"
  defines "r \<equiv> trim_prefix repo ''oci://''"
  shows "(\<exists>t. tagged_ref r ref t \<and> v = (if version = [] then t else version)) \<or> (\<nexists>b t. tagged_ref r b t) \<and> ref = r \<and> v = version"
proof -
  obtain t where t: "split_oci_tag r = (ref, t)" "v = (if version \<noteq> [] then version else t)"
    using assms(1) by (auto simp: resolve_oci_ref_def r_def split: prod.splits)
  show ?thesis
  proof (cases "t = []")
    case True
    with t oci_tag_splits [of r ref t] show ?thesis by auto
  next
    case False
    with t oci_tag_splits [of r ref t] show ?thesis by auto
  qed
qed

lemma cached_pull_cases:
  "cached_pull so ref cache = (Some (Inr p), c) \<Longrightarrow> archive_of so cache ref (pl_data p)"
  unfolding cached_pull_def
  by (auto dest!: get_data_cached simp: archive_of_def split: option.splits prod.splits sum.splits)

lemma resolved_version:
  assumes "strict_weak (so_greater so)" "resolve_version so repo ref v = Inr tag"
  shows "tag = v \<and> (v \<noteq> [] \<or> contains ref ''@'') \<or>
    v = [] \<and> \<not> contains ref ''@'' \<and> tag \<noteq> [] \<and> (\<exists>tags n. so_tags so ref n = Inr tags \<and> newest_tag (so_version so) (so_greater so) tags tag)"
proof (cases "v \<noteq> [] \<or> contains ref ''@''")
  case True
  then show ?thesis using assms(2) by (simp add: resolve_version_def)
next
  case False
  then obtain tags where tags: "retried so ref (so_tags so ref) = Inr tags" "latest_oci_tag (so_version so) (so_greater so) tags = tag" "tag \<noteq> []"
    using assms(2) by (auto simp: resolve_version_def Let_def split: sum.splits if_splits)
  with retried_answer [OF tags(1)] latest_is_newest [OF assms(1), of "so_version so" tags] False show ?thesis by auto
qed

text \<open>
  C39: A pull gives the archive of the reference that was asked for, from the registry within three attempts or from the cache
  under that very reference: the address with the version asked for in place of its tag if it has one, else with its tag, else
  with a newest version among the tags the registry lists. A digest stands alone and is never combined with a version.
\<close>

theorem pulled_as_asked:
  assumes "strict_weak (so_greater so)" "pull_oci_chart so repo version cache = (Inr p, cache')"
  shows "\<exists>ref. asked_ref so repo version ref \<and> archive_of so cache ref (pl_data p)"
proof -
  obtain ref v where ref: "resolve_oci_ref repo version = (ref, v)" by (cases "resolve_oci_ref repo version") auto
  obtain tag where tag: "resolve_version so repo ref v = Inr tag" "\<not> (tag \<noteq> [] \<and> contains ref ''@'')"
    using assms(2) ref by (auto simp: pull_oci_chart_def split: option.splits sum.splits if_splits)
  let ?r = "if tag \<noteq> [] then ref @ '':'' @ tag else ref"
  obtain answer c where cached: "cached_pull so ?r cache = (answer, c)" by (cases "cached_pull so ?r cache") auto
  have "archive_of so cache ?r (pl_data p)"
  proof (cases answer)
    case None
    then have "retried so ?r (so_pull so ?r) = Inr p"
      using assms(2) ref tag cached by (auto simp: pull_oci_chart_def Let_def split: option.splits sum.splits if_splits)
    then show ?thesis using retried_answer unfolding archive_of_def by metis
  next
    case (Some a)
    then have "a = Inr p" using assms(2) ref tag cached by (auto simp: pull_oci_chart_def Let_def split: option.splits sum.splits if_splits)
    then show ?thesis using cached Some cached_pull_cases by metis
  qed
  moreover have "asked_ref so repo version ?r"
    using resolved_ref [OF ref]
  proof
    assume "\<exists>t. tagged_ref (trim_prefix repo ''oci://'') ref t \<and> v = (if version = [] then t else version)"
    then obtain t where t: "tagged_ref (trim_prefix repo ''oci://'') ref t" "v = (if version = [] then t else version)" by blast
    note parts = tagged_text [OF t(1)]
    then have "v \<noteq> []" using t(2) by (auto split: if_splits)
    then have "tag = v" "tag \<noteq> []" using resolved_version [OF assms(1) tag(1)] by auto
    then show ?thesis using t parts by (auto simp: asked_ref_def Let_def)
  next
    assume plain: "(\<nexists>b t. tagged_ref (trim_prefix repo ''oci://'') b t) \<and> ref = trim_prefix repo ''oci://'' \<and> v = version"
    then show ?thesis
      using resolved_version [OF assms(1) tag(1)] tag(2) by (auto simp: asked_ref_def Let_def contains_char)
  qed
  ultimately show ?thesis by blast
qed

text \<open>The chart another address gave instead: it says the name asked for and a version equal to the one asked for.\<close>

definition checked_chart :: "'v sources \<Rightarrow> string \<Rightarrow> string \<Rightarrow> string \<Rightarrow> loaded_chart \<Rightarrow> bool" where
  "checked_chart so name version content ch \<longleftrightarrow>
     trim_space content \<noteq> [] \<and>
     (\<exists>m. lc_meta ch = Some m \<and> cm_name m = name \<and> (version = [] \<or> helm_versions_equal so (cm_version m) version)) \<and>
     (\<exists>c data. fst (download_artifact (so_web so content) content (so_now so) c) = Inr data \<and> so_archive so data = Inr ch)"

lemma content_url_checks:
  "load_content_url so name repo version content f c = (Inr ch, c') \<Longrightarrow> checked_chart so name version content ch"
  unfolding load_content_url_def checked_chart_def downloaded_def
  by (cases f; simp split: if_splits sum.splits prod.splits option.splits; metis fst_conv)

text \<open>The entry the index has for what was asked, and the chart its first address gives.\<close>

definition indexed_chart ::
  "'v sources \<Rightarrow> 'v sources \<Rightarrow> string \<Rightarrow> string \<Rightarrow> string \<Rightarrow> repo_index \<Rightarrow> artifact_cache \<Rightarrow> loaded_chart \<times> artifact_cache \<Rightarrow> bool" where
  "indexed_chart direct so name repo version idx c ans \<longleftrightarrow>
     (\<exists>vs entry listed urls. map_of idx name = Some vs \<and> entry \<in> set vs \<and> ie_urls entry = listed # urls \<and>
        (if version = [] then entry = hd vs else helm_versions_equal so (cm_version (ie_meta entry)) version) \<and>
        (if is_oci_repo listed
         then load_oci_with_mirror direct so listed (if version = [] then cm_version (ie_meta entry) else version) c = (Inr (fst ans), snd ans)
         else (\<exists>data. downloaded c (download_artifact (so_web so (chart_address repo listed)) (chart_address repo listed) (so_now so) c) = (Inr data, snd ans)
                 \<and> so_archive so data = Inr (fst ans))))"

lemma chosen_entry_fits:
  "chosen_entry so version vs = Some entry \<Longrightarrow>
   entry \<in> set vs \<and> (if version = [] then entry = hd vs else helm_versions_equal so (cm_version (ie_meta entry)) version)"
proof (cases "version = []")
  case True
  then show "chosen_entry so version vs = Some entry \<Longrightarrow> ?thesis" by (cases vs) (simp_all add: chosen_entry_def)
next
  case False
  then show "chosen_entry so version vs = Some entry \<Longrightarrow> ?thesis" by (auto simp: chosen_entry_def find_Some_iff)
qed

lemma load_indexed_cases:
  assumes "load_indexed direct so name repo version entry listed (load_content_url so name repo version content) c = (Inr ch, c')"
  shows "checked_chart so name version content ch \<or>
    (if is_oci_repo listed
     then load_oci_with_mirror direct so listed (if version = [] then cm_version (ie_meta entry) else version) c = (Inr ch, c')
     else (\<exists>data. downloaded c (download_artifact (so_web so (chart_address repo listed)) (chart_address repo listed) (so_now so) c) = (Inr data, c')
             \<and> so_archive so data = Inr ch))"
proof (cases "is_oci_repo listed")
  case True
  then show ?thesis using assms by (auto simp: load_indexed_def Let_def split: prod.splits sum.splits fault.splits)
next
  case False
  then show ?thesis
    using assms content_url_checks [of so name repo version content _ _ ch c']
    by (simp add: load_indexed_def Let_def split: prod.splits sum.splits)
qed

text \<open>
  C40: A chart loaded is one that was asked for: of an OCI address, what its pull or its mirror's gives; of a repository, the
  archive at the first address of an entry its index lists under that name, the first entry where no version was asked, else
  one whose version equals it; and where any of that fails, the content address only with a chart that itself says
  the name and the version.
\<close>

theorem loaded_as_asked:
  assumes "load_chart direct so name repo version content cache = (Inr ch, cache')"
  shows "if is_oci_repo repo then load_oci_with_mirror direct so repo version cache = (Inr ch, cache')
    else checked_chart so name version content ch \<or>
      (\<exists>idx c. fetch_index so repo cache = (Inr idx, c) \<and> indexed_chart direct so name repo version idx c (ch, cache'))"
proof (cases "is_oci_repo repo")
  case True
  then show ?thesis using assms by (auto simp: load_chart_def split: prod.splits sum.splits fault.splits)
next
  case False
  note L = assms [unfolded load_chart_def Let_def if_not_P [OF False]]
  note F = content_url_checks [of so name repo version content _ _ ch cache']
  show ?thesis
  proof (cases "\<exists>idx c vs entry listed urls. fetch_index so repo cache = (Inr idx, c) \<and> map_of idx name = Some vs \<and> vs \<noteq> []
      \<and> chosen_entry so version vs = Some entry \<and> ie_urls entry = listed # urls")
    case True
    then obtain idx c vs entry listed urls where found: "fetch_index so repo cache = (Inr idx, c)" "map_of idx name = Some vs" "vs \<noteq> []"
        "chosen_entry so version vs = Some entry" "ie_urls entry = listed # urls" by blast
    then have "load_indexed direct so name repo version entry listed (load_content_url so name repo version content) c = (Inr ch, cache')"
      using L by simp
    from load_indexed_cases [OF this] show ?thesis
    proof
      assume "if is_oci_repo listed
        then load_oci_with_mirror direct so listed (if version = [] then cm_version (ie_meta entry) else version) c = (Inr ch, cache')
        else (\<exists>data. downloaded c (download_artifact (so_web so (chart_address repo listed)) (chart_address repo listed) (so_now so) c) = (Inr data, cache')
             \<and> so_archive so data = Inr ch)"
      then have "indexed_chart direct so name repo version idx c (ch, cache')"
        unfolding indexed_chart_def fst_conv snd_conv using chosen_entry_fits [OF found(4)] found(2,5) by blast
      then show ?thesis using found(1) False by auto
    qed (simp add: False)
  next
    case none: False
    have "checked_chart so name version content ch"
    proof (cases "fetch_index so repo cache")
      case (Pair r c)
      show ?thesis
      proof (cases r)
        case (Inl f)
        then show ?thesis using L Pair F by (cases f) auto
      next
        case (Inr idx)
        show ?thesis
        proof (cases "map_of idx name")
          case None
          then show ?thesis using L Pair Inr F by simp
        next
          case (Some vs)
          then show ?thesis
            using L Pair Inr F none by (cases "chosen_entry so version vs"; cases "ie_urls (the (chosen_entry so version vs))") (auto split: if_splits)
        qed
      qed
    qed
    then show ?thesis using False by simp
  qed
qed

section \<open>Published ports\<close>

lemma assigned_from: "map_of (foldl assign_port acc ps) port = Some n \<Longrightarrow> map_of acc port = Some n \<or> ((port, n) \<in> set ps \<and> n \<noteq> 0)"
proof (induction ps arbitrary: acc)
  case (Cons p ps)
  then show ?case
  proof (cases p)
    case (Pair a b)
    from Cons.prems have "map_of (foldl assign_port (assign_port acc p) ps) port = Some n" by simp
    from Cons.IH [OF this] show ?thesis using Pair by (auto simp: assign_port_def update_conv split: if_splits)
  qed
qed simp

text \<open>
  A node port reserved for an app is one its own release already holds for that service port, or one of the range of
  node ports that no service of the cluster uses.
\<close>

lemma published_port:
  assumes "reserve_node_port (new_cluster_context (Some ss) nodes release ns) port = n" "n \<noteq> 0"
  shows "(\<exists>s \<in> set ss. (ns = [] \<or> hs_namespace s = ns) \<and> (port, n) \<in> set (hs_ports s)
            \<and> (case hs_labels s ''app.kubernetes.io/instance'' of None \<Rightarrow> [] | Some l \<Rightarrow> l) = release)
         \<or> 30000 \<le> n \<and> n \<le> 32767 \<and> (\<forall>s \<in> set ss. n \<notin> snd ` set (hs_ports s))"
proof (cases "map_of (release_assigned_ports (Some ss) release ns) port")
  case (Some m)
  from assigned_from [OF Some [unfolded release_assigned_ports_def]] obtain s where
    s: "s \<in> set ss" "ns = [] \<or> hs_namespace s = ns" "(case hs_labels s ''app.kubernetes.io/instance'' of None \<Rightarrow> [] | Some l \<Rightarrow> l) = release"
      "(port, m) \<in> set (hs_ports s)" "m \<noteq> 0" by auto
  then have "n = m" using assms(1) Some by (simp add: reserve_node_port_def new_cluster_context_def Let_def)
  then show ?thesis using s by blast
next
  case None
  have f: "find (\<lambda>p. p \<notin> set (the (cluster_used_ports (Some ss)))) node_port_range = Some n"
  proof -
    have "cluster_used_ports (Some ss) \<noteq> None" by (simp add: cluster_used_ports_def)
    then show ?thesis using assms None
      by (cases "find (\<lambda>p. p \<notin> set (the (cluster_used_ports (Some ss)))) node_port_range")
        (auto simp: reserve_node_port_def new_cluster_context_def Let_def simp del: find.simps)
  qed
  then have "30000 \<le> n" "n \<le> 32767" "n \<notin> set (the (cluster_used_ports (Some ss)))"
    using find_upto(2) [OF f [unfolded node_port_range_def]] by blast+
  moreover have "set (the (cluster_used_ports (Some ss))) = (\<Union>s \<in> set ss. snd ` set (hs_ports s)) - {0}"
    by (auto simp: cluster_used_ports_def)
  ultimately show ?thesis using assms(2) by simp
qed

section \<open>A repository\<close>

definition sample_meta :: chart_meta where
  "sample_meta = \<lparr>cm_name = ''app'', cm_version = ''2'', cm_app_version = [], cm_description = [], cm_icon = [], cm_keywords = [], cm_type = []\<rparr>"

definition sample_sources :: "int sources" where
  "sample_sources =
     \<lparr>so_settings = \<lparr>se_env = \<lambda>_. None, se_file = \<lambda>_. [], se_os = ''linux''\<rparr>, so_hosts = \<lambda>_. Some,
      so_quote = \<lambda>s. dquote # s @ [dquote], so_now = 0,
      so_web = \<lambda>url. \<lparr>wb_request = \<lambda>_. None,
        wb_do = \<lambda>n u hs. Inr \<lparr>rs_status = 200, rs_encoding = [], rs_etag = [], rs_modified = [], rs_body = (url, None)\<rparr>,
        wb_gzip_open = \<lambda>_. None, wb_gzip_read = \<lambda>b. Inr (fst b), wb_cancelled = \<lambda>_. False, wb_wait = \<lambda>_. None, wb_time = \<lambda>_. 0\<rparr>,
      so_decode = \<lambda>_. Inr [(''app'', [None, Some \<lparr>ie_meta = sample_meta\<lparr>cm_version := ''3''\<rparr>, ie_urls = [''app-3.tgz'']\<rparr>,
        Some \<lparr>ie_meta = sample_meta, ie_urls = [''/app-2.tgz'']\<rparr>])],
      so_client = None, so_tags = \<lambda>ref n. Inr [''2'', ''latest'', ''10'', ''9''],
      so_pull = \<lambda>ref n. Inr \<lparr>pl_data = ref, pl_meta = None\<rparr>,
      so_archive = \<lambda>data. Inr \<lparr>lc_meta = None, lc_archive = data\<rparr>,
      so_version = atoi, so_greater = (>), so_equal = (=)\<rparr>"

theorem pulled_as_asked_witness:
  "\<exists>ref. asked_ref sample_sources ''oci://r.example/app'' [] ref \<and>
     archive_of sample_sources default_artifact_cache ref ''r.example/app:10''"
proof -
  have w: "strict_weak (so_greater sample_sources)" by (auto simp: strict_weak_def sample_sources_def)
  have "fst (pull_oci_chart sample_sources ''oci://r.example/app'' [] default_artifact_cache) = Inr \<lparr>pl_data = ''r.example/app:10'', pl_meta = None\<rparr>"
    by code_simp
  then obtain c where "pull_oci_chart sample_sources ''oci://r.example/app'' [] default_artifact_cache = (Inr \<lparr>pl_data = ''r.example/app:10'', pl_meta = None\<rparr>, c)"
    by (metis prod.collapse)
  from pulled_as_asked [OF w this] show ?thesis by simp
qed

theorem loaded_as_asked_witness:
  "\<exists>cache'. (checked_chart sample_sources ''app'' ''2'' [] \<lparr>lc_meta = None, lc_archive = ''https://r.example/charts/app-2.tgz''\<rparr> \<or>
     (\<exists>idx c. fetch_index sample_sources ''https://r.example/charts/'' default_artifact_cache = (Inr idx, c) \<and>
        indexed_chart sample_sources sample_sources ''app'' ''https://r.example/charts/'' ''2'' idx c
          (\<lparr>lc_meta = None, lc_archive = ''https://r.example/charts/app-2.tgz''\<rparr>, cache')))"
proof -
  let ?l = "load_chart sample_sources sample_sources ''app'' ''https://r.example/charts/'' ''2'' [] default_artifact_cache"
  have "fst ?l = Inr \<lparr>lc_meta = None, lc_archive = ''https://r.example/charts/app-2.tgz''\<rparr>" by code_simp
  then obtain c where "?l = (Inr \<lparr>lc_meta = None, lc_archive = ''https://r.example/charts/app-2.tgz''\<rparr>, c)" by (metis prod.collapse)
  moreover have "\<not> is_oci_repo ''https://r.example/charts/''" by code_simp
  ultimately show ?thesis using loaded_as_asked [of sample_sources sample_sources "''app''" "''https://r.example/charts/''" "''2''" "[]"
      default_artifact_cache _ c] by (intro exI [of _ c]) simp
qed

lemma oci_tag_samples:
  "split_oci_tag ''r.example:5000/app:1.2'' = (''r.example:5000/app'', ''1.2'')"
  "split_oci_tag ''r.example:5000/app'' = (''r.example:5000/app'', [])"
  by code_simp+

end
