(* ===== verification/MeshCloud.thy ===== *)
theory MeshCloud
  imports NodeTasks GoConv HelmCatalog
begin

text \<open>
  The cloud a hub keeps (object/mesh.go, deploy/mesh_agent.go): invites with their uses, the machines that
  joined with one, whole and statement by statement, and the credentials these authenticate with. Parameters: the tables, SHA-256 in
  hexadecimal, and the texts of instants (RFC 3339). Random bytes are what the call that drew them returned.
\<close>

section \<open>Rows\<close>

record mesh_invite =
  mi_owner :: string
  mi_name :: string
  mi_created :: string
  mi_expires :: string
  mi_uses :: int
  mi_hash :: string

record mesh_member =
  mm_owner :: string
  mm_name :: string
  mm_created :: string
  mm_hostname :: string
  mm_seen :: string
  mm_hash :: string

record 'db mesh_store =
  me_invites :: "(mesh_invite, 'db) table"
  me_members :: "(mesh_member, 'db) table"
  me_machines :: "(machine, 'db) table"
  me_tx :: "'db transactions"

record mesh_lib =
  ml_hash :: "string \<Rightarrow> string"
  ml_format :: "int \<Rightarrow> string"
  ml_parse :: "string \<Rightarrow> int option"

datatype mesh_error =
    No_uses | No_random string | Invite_invalid | Invite_spent | No_condition | Bad_id string | Too_many string
  | Mesh_db db_failure

text \<open>\<open>randomHex\<close>: the bytes drawn, or the error of the generator.\<close>

definition random_hex :: "string + string \<Rightarrow> mesh_error + string" where
  "random_hex draw = (case draw of Inl e \<Rightarrow> Inl (No_random e) | Inr raw \<Rightarrow> Inr (hex_encode raw))"

section \<open>Invites\<close>

definition add_mesh_invite ::
  "'db mesh_store \<Rightarrow> mesh_lib \<Rightarrow> string \<Rightarrow> int \<Rightarrow> int \<Rightarrow> (string + string) \<times> (string + string) \<Rightarrow> int \<Rightarrow> 'db
     \<Rightarrow> (mesh_error + mesh_invite \<times> string) \<times> 'db" where
  "add_mesh_invite S L owner ttl uses draws now db =
     (if uses \<le> 0 then (Inl No_uses, db)
      else
        (case random_hex (fst draws) of
           Inl e \<Rightarrow> (Inl e, db)
         | Inr name \<Rightarrow>
             (case random_hex (snd draws) of
                Inl e \<Rightarrow> (Inl e, db)
              | Inr secret \<Rightarrow>
                  (let invite = \<lparr>mi_owner = owner, mi_name = name, mi_created = ml_format L now,
                         mi_expires = ml_format L (now + ttl), mi_uses = uses, mi_hash = ml_hash L secret\<rparr>
                   in case insert_row (me_invites S) invite db of
                        (Inl e, db') \<Rightarrow> (Inl (Mesh_db e), db')
                      | (Inr _, db') \<Rightarrow> (Inr (invite, secret), db')))))"

definition get_mesh_invites :: "'db mesh_store \<Rightarrow> string \<Rightarrow> 'db \<Rightarrow> mesh_error + mesh_invite list" where
  "get_mesh_invites S owner db =
     (case select_where (me_invites S) (\<lambda>i. owner = [] \<or> mi_owner i = owner) db of Inl e \<Rightarrow> Inl (Mesh_db e) | Inr is \<Rightarrow> Inr is)"

text \<open>
  The fields of a bean that are empty are no condition: a deletion without a name is one of all the owner's
  invites, one without both is refused by the engine.
\<close>

definition delete_mesh_invite :: "'db mesh_store \<Rightarrow> string \<Rightarrow> string \<Rightarrow> 'db \<Rightarrow> (mesh_error + bool) \<times> 'db" where
  "delete_mesh_invite S owner name db =
     (if owner = [] \<and> name = [] then (Inl No_condition, db)
      else
        (case delete_where (me_invites S) (\<lambda>i. (owner = [] \<or> mi_owner i = owner) \<and> (name = [] \<or> mi_name i = name)) db of
           (Inl e, db') \<Rightarrow> (Inl (Mesh_db e), db')
         | (Inr n, db') \<Rightarrow> (Inr (n \<noteq> 0), db')))"

text \<open>The body of the transaction: the row found under the name, checked, and its uses counted down.\<close>

definition expired :: "mesh_lib \<Rightarrow> int \<Rightarrow> mesh_invite \<Rightarrow> bool" where
  "expired L now i = (case ml_parse L (mi_expires i) of None \<Rightarrow> True | Some t \<Rightarrow> now > t)"

definition read_invite :: "'db mesh_store \<Rightarrow> mesh_lib \<Rightarrow> string \<Rightarrow> string \<Rightarrow> int \<Rightarrow> 'db \<Rightarrow> mesh_error + mesh_invite" where
  "read_invite S L name secret now db =
     (case get_first (me_invites S) (\<lambda>i. mi_name i = name) db of
        Inl e \<Rightarrow> Inl (Mesh_db e)
      | Inr None \<Rightarrow> Inl Invite_invalid
      | Inr (Some i) \<Rightarrow>
          if mi_hash i \<noteq> ml_hash L secret then Inl Invite_invalid
          else if expired L now i \<or> mi_uses i \<le> 0 then Inl Invite_spent
          else Inr i)"

definition count_down :: "'db mesh_store \<Rightarrow> mesh_invite \<Rightarrow> 'db \<Rightarrow> (mesh_error + mesh_invite) \<times> 'db" where
  "count_down S i db =
     (let i' = i\<lparr>mi_uses := mi_uses i - 1\<rparr>
      in case update_where (me_invites S) (\<lambda>r. mi_owner r = mi_owner i \<and> mi_name r = mi_name i)
                (\<lambda>r. r\<lparr>mi_uses := mi_uses i'\<rparr>) db of
           (Inl e, db') \<Rightarrow> (Inl (Mesh_db e), db')
         | (Inr _, db') \<Rightarrow> (Inr i', db'))"

definition spend_invite ::
  "'db mesh_store \<Rightarrow> mesh_lib \<Rightarrow> string \<Rightarrow> string \<Rightarrow> int \<Rightarrow> 'db \<Rightarrow> (mesh_error + mesh_invite) \<times> 'db" where
  "spend_invite S L name secret now db =
     (case read_invite S L name secret now db of Inl e \<Rightarrow> (Inl e, db) | Inr i \<Rightarrow> count_down S i db)"

definition consume_mesh_invite ::
  "'db mesh_store \<Rightarrow> mesh_lib \<Rightarrow> string \<Rightarrow> string \<Rightarrow> int \<Rightarrow> 'db \<Rightarrow> (mesh_error + mesh_invite) \<times> 'db" where
  "consume_mesh_invite S L name secret now db = with_transaction (me_tx S) Mesh_db (spend_invite S L name secret now) db"

section \<open>Members\<close>

definition add_mesh_member ::
  "'db mesh_store \<Rightarrow> mesh_lib \<Rightarrow> string \<Rightarrow> string \<Rightarrow> string \<Rightarrow> string + string \<Rightarrow> int \<Rightarrow> 'db \<Rightarrow> (mesh_error + string) \<times> 'db" where
  "add_mesh_member S L owner name hostname draw now db =
     (case random_hex draw of
        Inl e \<Rightarrow> (Inl e, db)
      | Inr secret \<Rightarrow>
          (case insert_row (me_members S)
                  \<lparr>mm_owner = owner, mm_name = name, mm_created = ml_format L now, mm_hostname = hostname, mm_seen = [],
                   mm_hash = ml_hash L secret\<rparr> db of
             (Inl e, db') \<Rightarrow> (Inl (Mesh_db e), db')
           | (Inr _, db') \<Rightarrow> (Inr (owner @ ''/'' @ name @ ''.'' @ secret), db')))"

text \<open>\<open>GetOwnerAndNameFromIdWithError\<close>: before and after the first slash.\<close>

definition owner_and_name :: "string \<Rightarrow> (string \<times> string) option" where
  "owner_and_name ident = (case cut ident ''/'' of (owner, name, found) \<Rightarrow> if found then Some (owner, name) else None)"

definition member_bean :: "string \<Rightarrow> string \<Rightarrow> mesh_member \<Rightarrow> bool" where
  "member_bean owner name m \<longleftrightarrow> (owner = [] \<or> mm_owner m = owner) \<and> (name = [] \<or> mm_name m = name)"

definition verify_credential :: "'db mesh_store \<Rightarrow> mesh_lib \<Rightarrow> string \<Rightarrow> 'db \<Rightarrow> mesh_error + mesh_member option" where
  "verify_credential S L credential db =
     (case cut credential ''.'' of
        (ident, secret, found) \<Rightarrow>
          if \<not> found then Inr None
          else
            (case owner_and_name ident of
               None \<Rightarrow> Inr None
             | Some (owner, name) \<Rightarrow>
                 (case get_first (me_members S) (member_bean owner name) db of
                    Inl e \<Rightarrow> Inl (Mesh_db e)
                  | Inr None \<Rightarrow> Inr None
                  | Inr (Some m) \<Rightarrow> if mm_hash m \<noteq> ml_hash L secret then Inr None else Inr (Some m))))"

definition touch_member :: "'db mesh_store \<Rightarrow> mesh_lib \<Rightarrow> mesh_member \<Rightarrow> int \<Rightarrow> 'db \<Rightarrow> 'db" where
  "touch_member S L m now db =
     snd (update_where (me_members S) (\<lambda>r. mm_owner r = mm_owner m \<and> mm_name r = mm_name m) (\<lambda>r. r\<lparr>mm_seen := ml_format L now\<rparr>) db)"

definition get_mesh_members :: "'db mesh_store \<Rightarrow> string \<Rightarrow> 'db \<Rightarrow> mesh_error + mesh_member list" where
  "get_mesh_members S owner db =
     (case select_where (me_members S) (\<lambda>m. owner = [] \<or> mm_owner m = owner) db of Inl e \<Rightarrow> Inl (Mesh_db e) | Inr ms \<Rightarrow> Inr ms)"

definition delete_mesh_member :: "'db mesh_store \<Rightarrow> string \<Rightarrow> string \<Rightarrow> 'db \<Rightarrow> (mesh_error + bool) \<times> 'db" where
  "delete_mesh_member S owner name db =
     (if owner = [] \<and> name = [] then (Inl No_condition, db)
      else
        (case delete_where (me_members S) (member_bean owner name) db of
           (Inl e, db') \<Rightarrow> (Inl (Mesh_db e), db')
         | (Inr n, db') \<Rightarrow> (Inr (n \<noteq> 0), db')))"

section \<open>Machines\<close>

text \<open>A name from a host name: every rune that is no letter or digit once lowered becomes a dash.\<close>

definition machine_char :: "rune \<Rightarrow> char" where
  "machine_char r =
     (if 97 \<le> r \<and> r \<le> 122 \<or> 48 \<le> r \<and> r \<le> 57 then char_of r
      else if 65 \<le> r \<and> r \<le> 90 then char_of (r + 32)
      else if r = 0x130 then CHR ''i''
      else if r = 0x212A then CHR ''k''
      else CHR ''-'')"

text \<open>\<open>collapseDashes\<close> replaces pairs until there are none; a pass shortens a text that has one.\<close>

lemma length_replace_all: "length new \<le> length old \<Longrightarrow> length (replace_all s old new) \<le> length s"
proof (induction s old new rule: replace_all.induct)
  case (1 s old new)
  show ?case
  proof (cases "old \<noteq> [] \<and> has_prefix s old")
    case True
    with "1.IH"(1) "1.prems" show ?thesis by (subst replace_all.simps) (auto simp: has_prefix_iff)
  next
    case False
    with "1.IH"(2) "1.prems" show ?thesis by (subst replace_all.simps) (auto split: list.split)
  qed
qed

lemma length_replace_all_less:
  "length new < length old \<Longrightarrow> contains s old \<Longrightarrow> length (replace_all s old new) < length s"
proof (induction s)
  case Nil
  then show ?case by (auto simp: contains_iff)
next
  case (Cons c s)
  show ?case
  proof (cases "has_prefix (c # s) old")
    case True
    then obtain t where "c # s = old @ t" by (auto simp: has_prefix_iff)
    then have "length old \<le> length (c # s)" using arg_cong [of _ _ length] by fastforce
    moreover have "old \<noteq> []" using Cons.prems(1) by auto
    ultimately show ?thesis
      using True Cons.prems(1) length_replace_all [of new old "drop (length old) (c # s)"]
      by (subst replace_all.simps) simp
  next
    case False
    with Cons have "contains s old" by (auto simp: contains_def split: if_splits)
    with Cons False show ?thesis by (subst replace_all.simps) auto
  qed
qed

function collapse_dashes :: "string \<Rightarrow> string" where
  "collapse_dashes v = (if contains v ''--'' then collapse_dashes (replace_all v ''--'' ''-'') else v)"
  by pat_completeness auto
termination by (relation "measure length") (simp_all add: length_replace_all_less)

declare collapse_dashes.simps [simp del]

definition sanitize_machine_name :: "string \<Rightarrow> string \<Rightarrow> string" where
  "sanitize_machine_name v fallback =
     (let name = trim_set (collapse_dashes (map machine_char (decode_runes (trim_space v)))) ''-'' in
      if name = [] then fallback else name)"

definition machine_bean :: "string \<Rightarrow> string \<Rightarrow> machine \<Rightarrow> bool" where
  "machine_bean owner name m \<longleftrightarrow> (owner = [] \<or> mc_owner m = owner) \<and> (name = [] \<or> mc_name m = name)"

definition get_machine :: "(machine, 'db) table \<Rightarrow> string \<Rightarrow> 'db \<Rightarrow> mesh_error + machine option" where
  "get_machine T ident db =
     (case owner_and_name ident of
        None \<Rightarrow> Inl (Bad_id ident)
      | Some (owner, name) \<Rightarrow>
          (case get_first T (machine_bean owner name) db of Inl e \<Rightarrow> Inl (Mesh_db e) | Inr m \<Rightarrow> Inr m))"

text \<open>Lists come in the order the engine sorts them in.\<close>

definition get_global_machines :: "'db mesh_store \<Rightarrow> 'db \<Rightarrow> mesh_error + machine list" where
  "get_global_machines S db = (case select_where (me_machines S) (\<lambda>_. True) db of Inl e \<Rightarrow> Inl (Mesh_db e) | Inr ms \<Rightarrow> Inr ms)"

definition get_machines :: "'db mesh_store \<Rightarrow> string \<Rightarrow> 'db \<Rightarrow> mesh_error + machine list" where
  "get_machines S owner db =
     (case select_where (me_machines S) (machine_bean owner []) db of Inl e \<Rightarrow> Inl (Mesh_db e) | Inr ms \<Rightarrow> Inr ms)"

text \<open>Every column is written, the key too.\<close>

definition update_machine :: "'db mesh_store \<Rightarrow> string \<Rightarrow> machine \<Rightarrow> 'db \<Rightarrow> (mesh_error + bool) \<times> 'db" where
  "update_machine S ident m db =
     (case owner_and_name ident of
        None \<Rightarrow> (Inl (Bad_id ident), db)
      | Some (owner, name) \<Rightarrow>
          (case get_machine (me_machines S) ident db of
             Inl e \<Rightarrow> (Inl e, db)
           | Inr None \<Rightarrow> (Inr False, db)
           | Inr (Some _) \<Rightarrow>
               (case update_where (me_machines S) (\<lambda>r. mc_owner r = owner \<and> mc_name r = name) (\<lambda>_. m) db of
                  (Inl e, db') \<Rightarrow> (Inl (Mesh_db e), db') | (Inr n, db') \<Rightarrow> (Inr (n \<noteq> 0), db'))))"

definition add_machine :: "'db mesh_store \<Rightarrow> machine \<Rightarrow> 'db \<Rightarrow> (mesh_error + bool) \<times> 'db" where
  "add_machine S m db = (case insert_row (me_machines S) m db of (Inl e, db') \<Rightarrow> (Inl (Mesh_db e), db') | (Inr _, db') \<Rightarrow> (Inr True, db'))"

definition delete_machine :: "'db mesh_store \<Rightarrow> string \<Rightarrow> string \<Rightarrow> 'db \<Rightarrow> (mesh_error + bool) \<times> 'db" where
  "delete_machine S owner name db =
     (case delete_where (me_machines S) (\<lambda>m. mc_owner m = owner \<and> mc_name m = name) db of
        (Inl e, db') \<Rightarrow> (Inl (Mesh_db e), db') | (Inr n, db') \<Rightarrow> (Inr (n \<noteq> 0), db'))"

definition base_name :: "string \<Rightarrow> string" where
  "base_name hostname =
     (let base = sanitize_machine_name hostname ''member'' in
      if length base > 90 then trim_right_set (take 90 base) ''-'' else base)"

definition numbered :: "string \<Rightarrow> nat \<Rightarrow> string" where
  "numbered base i = (if i > 1 then base @ ''-'' @ itoa (int i) else base)"

definition joined_machine :: "mesh_lib \<Rightarrow> string \<Rightarrow> string \<Rightarrow> string \<Rightarrow> string \<Rightarrow> int \<Rightarrow> machine" where
  "joined_machine L owner name hostname os now =
     \<lparr>mc_owner = owner, mc_name = name, mc_created = ml_format L now, mc_display = hostname, mc_ip = [], mc_port = 0,
      mc_user = [], mc_auth = ''agent'', mc_password = [], mc_key = [], mc_os = os, mc_status = ''Online'', mc_role = [],
      mc_description = ''Joined this cloud with an invite''\<rparr>"

fun try_names ::
  "'db mesh_store \<Rightarrow> mesh_lib \<Rightarrow> string \<Rightarrow> string \<Rightarrow> string \<Rightarrow> string \<Rightarrow> int \<Rightarrow> nat list \<Rightarrow> 'db \<Rightarrow> (mesh_error + machine) \<times> 'db" where
  "try_names S L owner base hostname os now [] db = (Inl (Too_many base), db)"
| "try_names S L owner base hostname os now (i # is) db =
     (let name = numbered base i in
      case get_machine (me_machines S) (owner @ ''/'' @ name) db of
        Inl e \<Rightarrow> (Inl e, db)
      | Inr (Some _) \<Rightarrow> try_names S L owner base hostname os now is db
      | Inr None \<Rightarrow>
          (let m = joined_machine L owner name hostname os now in
           case add_machine S m db of (Inl e, db') \<Rightarrow> (Inl e, db') | (Inr _, db') \<Rightarrow> (Inr m, db')))"

definition add_mesh_machine ::
  "'db mesh_store \<Rightarrow> mesh_lib \<Rightarrow> string \<Rightarrow> string \<Rightarrow> string \<Rightarrow> int \<Rightarrow> 'db \<Rightarrow> (mesh_error + machine) \<times> 'db" where
  "add_mesh_machine S L owner hostname os now db = try_names S L owner (base_name hostname) hostname os now [1..<100] db"

section \<open>Joining and leaving\<close>

record join_request =
  jr_invite :: string
  jr_secret :: string
  jr_hostname :: string
  jr_os :: string

record join_response =
  jp_machine :: string
  jp_credential :: string

text \<open>The answers of \<open>serveMeshJoin\<close> by their status; the address of the console is left out of the last.\<close>

datatype join_answer = Unreadable | Forbidden mesh_error | Not_recorded | Joined join_response

definition serve_join ::
  "'db mesh_store \<Rightarrow> mesh_lib \<Rightarrow> join_request option \<Rightarrow> string + string \<Rightarrow> int \<Rightarrow> 'db \<Rightarrow> join_answer \<times> 'db" where
  "serve_join S L request draw now db =
     (case request of
        None \<Rightarrow> (Unreadable, db)
      | Some req \<Rightarrow>
          (case consume_mesh_invite S L (jr_invite req) (jr_secret req) now db of
             (Inl e, db1) \<Rightarrow> (Forbidden e, db1)
           | (Inr invite, db1) \<Rightarrow>
               (case add_mesh_machine S L (mi_owner invite) (jr_hostname req) (jr_os req) now db1 of
                  (Inl e, db2) \<Rightarrow> (Not_recorded, db2)
                | (Inr m, db2) \<Rightarrow>
                    (case add_mesh_member S L (mc_owner m) (mc_name m) (jr_hostname req) draw now db2 of
                       (Inl e, db3) \<Rightarrow> (Not_recorded, snd (delete_machine S (mc_owner m) (mc_name m) db3))
                     | (Inr credential, db3) \<Rightarrow>
                         (Joined \<lparr>jp_machine = mc_owner m @ ''/'' @ mc_name m, jp_credential = credential\<rparr>, db3)))))"

text \<open>
  The hub serves its requests side by side and the handler holds no lock, so that other requests come between the
  statements of a join. The same join, statement by statement: where it is, and what its next statement does. The
  update and the end of the transaction are one step, since no other transaction changes the row in between.
\<close>

datatype join_phase =
    Arrived
  | Checked mesh_invite
  | Naming string "nat list"
  | Name_free string nat
  | Recorded machine
  | Unrecorded machine
  | Answered join_answer

definition begin_spending :: "'db mesh_store \<Rightarrow> mesh_lib \<Rightarrow> join_request \<Rightarrow> int \<Rightarrow> 'db \<Rightarrow> join_phase \<times> 'db" where
  "begin_spending S L req now db =
     (case begin_tx (me_tx S) db of
        Some e \<Rightarrow> (Answered (Forbidden (Mesh_db e)), db)
      | None \<Rightarrow>
          (case read_invite S L (jr_invite req) (jr_secret req) now db of
             Inl e \<Rightarrow> (Answered (Forbidden e), rollback_tx (me_tx S) db db)
           | Inr i \<Rightarrow> (Checked i, db)))"

definition end_spending :: "'db mesh_store \<Rightarrow> mesh_invite \<Rightarrow> 'db \<Rightarrow> join_phase \<times> 'db" where
  "end_spending S i db =
     (case count_down S i db of
        (Inl e, db') \<Rightarrow> (Answered (Forbidden e), rollback_tx (me_tx S) db db')
      | (Inr i', db') \<Rightarrow>
          (case commit_tx (me_tx S) db db' of
             (Some e, db'') \<Rightarrow> (Answered (Forbidden (Mesh_db e)), db'')
           | (None, db'') \<Rightarrow> (Naming (mi_owner i') [1..<100], db'')))"

definition join_step ::
  "'db mesh_store \<Rightarrow> mesh_lib \<Rightarrow> join_request option \<Rightarrow> string + string \<Rightarrow> int \<Rightarrow> join_phase \<times> 'db \<Rightarrow> join_phase \<times> 'db" where
  "join_step S L request draw now = (\<lambda>(phase, db).
     case request of
       None \<Rightarrow> (Answered Unreadable, db)
     | Some req \<Rightarrow>
         (case phase of
            Arrived \<Rightarrow> begin_spending S L req now db
          | Checked i \<Rightarrow> end_spending S i db
          | Naming owner [] \<Rightarrow> (Answered Not_recorded, db)
          | Naming owner (i # is) \<Rightarrow>
              (case get_machine (me_machines S) (owner @ ''/'' @ numbered (base_name (jr_hostname req)) i) db of
                 Inl e \<Rightarrow> (Answered Not_recorded, db)
               | Inr (Some _) \<Rightarrow> (Naming owner is, db)
               | Inr None \<Rightarrow> (Name_free owner i, db))
          | Name_free owner i \<Rightarrow>
              (let m = joined_machine L owner (numbered (base_name (jr_hostname req)) i) (jr_hostname req) (jr_os req) now
               in case add_machine S m db of (Inl e, db') \<Rightarrow> (Answered Not_recorded, db') | (Inr _, db') \<Rightarrow> (Recorded m, db'))
          | Recorded m \<Rightarrow>
              (case add_mesh_member S L (mc_owner m) (mc_name m) (jr_hostname req) draw now db of
                 (Inl e, db') \<Rightarrow> (Unrecorded m, db')
               | (Inr credential, db') \<Rightarrow>
                   (Answered (Joined \<lparr>jp_machine = mc_owner m @ ''/'' @ mc_name m, jp_credential = credential\<rparr>), db'))
          | Unrecorded m \<Rightarrow> (Answered Not_recorded, snd (delete_machine S (mc_owner m) (mc_name m) db))
          | Answered a \<Rightarrow> (Answered a, db)))"

text \<open>A join that nothing comes between is \<^term>\<open>serve_join\<close>.\<close>

lemma funpow_then: "(f ^^ n) a = b \<Longrightarrow> (f ^^ k) b = c \<Longrightarrow> \<exists>m. (f ^^ m) a = c"
  by (rule exI [of _ "k + n"]) (simp add: funpow_add)

lemma names_by_steps:
  "\<exists>n. (join_step S L (Some req) draw now ^^ n) (Naming owner is, db) =
     (case try_names S L owner (base_name (jr_hostname req)) (jr_hostname req) (jr_os req) now is db of
        (Inl e, d) \<Rightarrow> (Answered Not_recorded, d) | (Inr m, d) \<Rightarrow> (Recorded m, d))"
  (is "\<exists>n. (?f ^^ n) _ = _")
proof (induction "is" arbitrary: db)
  case Nil
  then show ?case by (intro exI [of _ 1]) (simp add: join_step_def)
next
  case (Cons i "is")
  let ?g = "get_machine (me_machines S) (owner @ ''/'' @ numbered (base_name (jr_hostname req)) i) db"
  consider e where "?g = Inl e" | m where "?g = Inr (Some m)" | "?g = Inr None" by (cases ?g) auto
  then show ?case
  proof cases
    case 1
    then show ?thesis by (intro exI [of _ 1]) (simp add: join_step_def)
  next
    case 2
    then have "(?f ^^ 1) (Naming owner (i # is), db) = (Naming owner is, db)" by (simp add: join_step_def)
    from Cons.IH [of db] funpow_then [OF this] 2 show ?thesis by fastforce
  next
    case 3
    have "(?f ^^ 2) (Naming owner (i # is), db) = ?f (Name_free owner i, db)"
      using 3 by (simp add: join_step_def numeral_2_eq_2)
    with 3 show ?thesis
      by (intro exI [of _ 2]) (simp add: join_step_def Let_def split: prod.split sum.split)
  qed
qed

lemma join_alone:
  obtains n where "(join_step S L req draw now ^^ n) (Arrived, db) =
    (case serve_join S L req draw now db of (a, db') \<Rightarrow> (Answered a, db'))"
proof (cases req)
  case None
  then have "(join_step S L req draw now ^^ 1) (Arrived, db) = (case serve_join S L req draw now db of (a, db') \<Rightarrow> (Answered a, db'))"
    by (simp add: join_step_def serve_join_def)
  then show ?thesis using that by blast
next
  case (Some r)
  let ?f = "join_step S L (Some r) draw now"
  obtain c db1 where c: "consume_mesh_invite S L (jr_invite r) (jr_secret r) now db = (c, db1)" by force
  have spend: "\<exists>n. (?f ^^ n) (Arrived, db) = (case c of Inl e \<Rightarrow> Answered (Forbidden e) | Inr v \<Rightarrow> Naming (mi_owner v) [1..<100], db1)"
  proof (cases "begin_tx (me_tx S) db")
    case (Some e)
    with c show ?thesis
      by (intro exI [of _ 1]) (auto simp: join_step_def begin_spending_def consume_mesh_invite_def with_transaction_def)
  next
    case None
    show ?thesis
    proof (cases "read_invite S L (jr_invite r) (jr_secret r) now db")
      case (Inl e)
      with None c show ?thesis
        by (intro exI [of _ 1]) (auto simp: join_step_def begin_spending_def consume_mesh_invite_def with_transaction_def spend_invite_def split: sum.splits)
    next
      case (Inr i)
      have "(?f ^^ 2) (Arrived, db) = end_spending S i db"
        using None Inr by (simp add: join_step_def begin_spending_def numeral_2_eq_2)
      with None Inr c show ?thesis
        by (intro exI [of _ 2])
          (auto simp: end_spending_def consume_mesh_invite_def with_transaction_def spend_invite_def split: sum.splits prod.splits option.splits)
    qed
  qed
  then show ?thesis
  proof (cases c)
    case (Inl e)
    with spend c Some show ?thesis by (auto simp: serve_join_def intro: that)
  next
    case (Inr v)
    let ?add = "add_mesh_machine S L (mi_owner v) (jr_hostname r) (jr_os r) now db1"
    obtain a db2 where a: "?add = (a, db2)" by force
    from spend Inr obtain n where "(?f ^^ n) (Arrived, db) = (Naming (mi_owner v) [1..<100], db1)" by auto
    from funpow_then [OF this] names_by_steps [of S L r draw now "mi_owner v" "[1..<100]" db1]
    obtain m where m: "(?f ^^ m) (Arrived, db) = (case a of Inl e \<Rightarrow> Answered Not_recorded | Inr m \<Rightarrow> Recorded m, db2)"
      using a by (fastforce simp: add_mesh_machine_def split: sum.splits)
    show ?thesis
    proof (cases a)
      case (Inl e)
      with m c a \<open>c = Inr v\<close> Some show ?thesis by (auto simp: serve_join_def intro: that)
    next
      case (Inr x)
      obtain q db3 where q: "add_mesh_member S L (mc_owner x) (mc_name x) (jr_hostname r) draw now db2 = (q, db3)" by force
      from m Inr have m: "(?f ^^ m) (Arrived, db) = (Recorded x, db2)" by simp
      show ?thesis
      proof (cases q)
        case (Inl e)
        have k: "(?f ^^ 2) (Recorded x, db2) = (Answered Not_recorded, snd (delete_machine S (mc_owner x) (mc_name x) db3))"
          using q Inl by (simp add: join_step_def numeral_2_eq_2)
        have s: "serve_join S L req draw now db = (Not_recorded, snd (delete_machine S (mc_owner x) (mc_name x) db3))"
          using Some c a \<open>a = Inr x\<close> \<open>c = Inr v\<close> q Inl by (simp add: serve_join_def)
        show ?thesis using funpow_then [OF m k] that Some unfolding s by auto
      next
        case (Inr cred)
        let ?joined = "Joined \<lparr>jp_machine = mc_owner x @ ''/'' @ mc_name x, jp_credential = cred\<rparr>"
        have k: "(?f ^^ 1) (Recorded x, db2) = (Answered ?joined, db3)"
          using q Inr by (simp add: join_step_def)
        have s: "serve_join S L req draw now db = (?joined, db3)"
          using Some c a \<open>a = Inr x\<close> \<open>c = Inr v\<close> q Inr by (simp add: serve_join_def)
        show ?thesis using funpow_then [OF m k] that Some unfolding s by auto
      qed
    qed
  qed
qed

text \<open>The header of a request, if it has one.\<close>

definition member_of_request :: "'db mesh_store \<Rightarrow> mesh_lib \<Rightarrow> string \<Rightarrow> 'db \<Rightarrow> mesh_error + mesh_member option" where
  "member_of_request S L header db =
     (if \<not> has_prefix header ''Bearer '' then Inr None
      else verify_credential S L (trim_space (trim_prefix header ''Bearer '')) db)"

text \<open>
  \<open>RemoveMeshMember\<close>: the node, if the cluster can be asked, with its error; the overlay's failure is only
  logged. The session that is dropped is the other module's.
\<close>

definition remove_member :: "'db mesh_store \<Rightarrow> string option \<Rightarrow> string \<Rightarrow> string \<Rightarrow> 'db \<Rightarrow> (string + (mesh_error + bool)) \<times> 'db" where
  "remove_member S node_error owner name db =
     (case node_error of
        Some e \<Rightarrow> (Inl (''delete node '' @ name @ '': '' @ e), db)
      | None \<Rightarrow>
          (case delete_mesh_member S owner name db of
             (Inl e, db1) \<Rightarrow> (Inr (Inl e), db1)
           | (Inr _, db1) \<Rightarrow> (case delete_machine S owner name db1 of (r, db2) \<Rightarrow> (Inr r, db2))))"

datatype leave_answer = Leave_failed | Leave_unknown | Left_cloud

definition serve_leave :: "'db mesh_store \<Rightarrow> mesh_lib \<Rightarrow> string \<Rightarrow> string option \<Rightarrow> 'db \<Rightarrow> leave_answer \<times> 'db" where
  "serve_leave S L header node_error db =
     (case member_of_request S L header db of
        Inl e \<Rightarrow> (Leave_failed, db)
      | Inr None \<Rightarrow> (Leave_unknown, db)
      | Inr (Some m) \<Rightarrow>
          (case remove_member S node_error (mm_owner m) (mm_name m) db of
             (Inr (Inr _), db') \<Rightarrow> (Left_cloud, db') | (_, db') \<Rightarrow> (Leave_failed, db')))"

end
