(* ===== verification/MeshJoin.thy ===== *)
theory MeshJoin
  imports MeshCloud NodeDeploy
begin

text \<open>
  What the record of a cloud promises (object/mesh.go, deploy/mesh_agent.go): with the one connection of SQLite an invite
  lets no more machines in than it has uses, however the requests interleave, only with its secret and before it
  expires; a machine that joined is a member its credential identifies; and its name.
\<close>

section \<open>Names\<close>

definition name_chars :: "char set" where
  "name_chars = insert (CHR ''-'') (set lower_digits)"

lemma machine_char_in: "machine_char r \<in> name_chars"
proof -
  have "char_of n \<in> set lower_digits" if "97 \<le> n \<and> n \<le> 122 \<or> 48 \<le> n \<and> n \<le> 57" for n :: nat
  proof -
    have "n \<in> set ([97..<123] @ [48..<58])" using that by (simp del: upt.simps upt_rec_numeral) linarith
    moreover have "list_all (\<lambda>n. char_of n \<in> set lower_digits) ([97..<123] @ [48..<58 :: nat])" by code_simp
    ultimately show ?thesis by (auto simp: list_all_iff)
  qed
  then show ?thesis by (auto simp: machine_char_def name_chars_def lower_digits_def)
qed

lemma set_replace_all: "set (replace_all s old new) \<subseteq> set s \<union> set new"
proof (induction s old new rule: replace_all.induct)
  case (1 s old new)
  show ?case
  proof (cases "old \<noteq> [] \<and> has_prefix s old")
    case True
    with "1.IH"(1) show ?thesis by (subst replace_all.simps) (auto dest: in_set_dropD)
  next
    case False
    show ?thesis
    proof (cases s)
      case (Cons c cs)
      with False "1.IH"(2) show ?thesis by (subst replace_all.simps) auto
    qed (use False in \<open>subst replace_all.simps, cases old, auto simp: has_prefix_def\<close>)
  qed
qed

lemma set_collapse: "set (collapse_dashes v) \<subseteq> insert (CHR ''-'') (set v)"
proof (induction v rule: collapse_dashes.induct)
  case (1 v)
  then show ?case
    using set_replace_all [of v "''--''" "''-''"] by (subst collapse_dashes.simps) auto
qed

lemma trim_set_ends:
  "set (trim_set s cs) \<subseteq> set s" "trim_set s cs \<noteq> [] \<Longrightarrow> hd (trim_set s cs) \<notin> set cs \<and> last (trim_set s cs) \<notin> set cs"
proof -
  let ?l = "trim_left_set s cs"
  have "set ?l \<subseteq> set s" by (auto simp: trim_left_set_def dest: set_dropWhileD)
  moreover obtain t where t: "?l = trim_set s cs @ t" using trim_right_set_prefix [of ?l cs] by (auto simp: trim_set_def)
  ultimately show "set (trim_set s cs) \<subseteq> set s" by auto
  assume ne: "trim_set s cs \<noteq> []"
  then have "hd (trim_set s cs) = hd ?l" "?l \<noteq> []" using t by auto
  moreover have "hd ?l \<notin> set cs" if "?l \<noteq> []" using that hd_dropWhile [of "\<lambda>c. c \<in> set cs" s] by (simp add: trim_left_set_def)
  ultimately show "hd (trim_set s cs) \<notin> set cs \<and> last (trim_set s cs) \<notin> set cs"
    using last_trim_right_set [of ?l cs] ne by (simp add: trim_set_def)
qed

definition plain_name :: "string \<Rightarrow> bool" where
  "plain_name s \<longleftrightarrow> s \<noteq> [] \<and> set s \<subseteq> name_chars \<and> hd s \<noteq> CHR ''-'' \<and> last s \<noteq> CHR ''-''"

lemma sanitized_plain: "plain_name (sanitize_machine_name v ''member'')"
proof -
  let ?c = "collapse_dashes (map machine_char (decode_runes (trim_space v)))"
  have "set ?c \<subseteq> name_chars"
    using set_collapse [of "map machine_char (decode_runes (trim_space v))"] machine_char_in
    by (auto simp: name_chars_def)
  then have "plain_name (trim_set ?c ''-'')" if "trim_set ?c ''-'' \<noteq> []"
    using that trim_set_ends [of ?c "''-''"] by (auto simp: plain_name_def)
  moreover have "plain_name ''member''" by (simp add: plain_name_def name_chars_def lower_digits_def)
  ultimately show ?thesis by (simp add: sanitize_machine_name_def Let_def)
qed

lemma base_plain: "plain_name (base_name h) \<and> length (base_name h) \<le> 90"
proof (cases "length (sanitize_machine_name h ''member'') > 90")
  case True
  let ?s = "sanitize_machine_name h ''member''" and ?b = "trim_right_set (take 90 (sanitize_machine_name h ''member'')) ''-''"
  have s: "plain_name ?s" by (rule sanitized_plain)
  obtain t where t: "take 90 ?s = ?b @ t" using trim_right_set_prefix by blast
  have hd: "hd (take 90 ?s) \<noteq> CHR ''-''" "take 90 ?s \<noteq> []" using s True by (auto simp: plain_name_def hd_take)
  have "?b \<noteq> []"
  proof
    assume "?b = []"
    then have "dropWhile (\<lambda>c. c \<in> set ''-'') (rev (take 90 ?s)) = []" by (simp add: trim_right_set_def)
    then have "\<forall>c \<in> set (take 90 ?s). c = CHR ''-''" by (auto simp: dropWhile_eq_Nil_conv)
    with hd show False by (metis hd_in_set)
  qed
  moreover from this have "hd ?b \<noteq> CHR ''-''" using hd t by (metis hd_append2)
  moreover have "set ?b \<subseteq> name_chars"
  proof -
    have "set ?b \<subseteq> set (take 90 ?s)" by (subst t) simp
    then show ?thesis using s set_take_subset [of 90 ?s] by (auto simp: plain_name_def)
  qed
  moreover have "last ?b \<noteq> CHR ''-''" using last_trim_right_set [of "take 90 ?s" "''-''"] \<open>?b \<noteq> []\<close> by simp
  moreover have "length ?b \<le> 90" using length_trim_right_set [of "take 90 ?s" "''-''"] by simp
  ultimately show ?thesis using True by (simp add: base_name_def Let_def plain_name_def)
qed (simp add: base_name_def Let_def sanitized_plain)

lemma itoa_small: "i < 100 \<Longrightarrow> set (itoa (int i)) \<subseteq> set lower_digits \<and> itoa (int i) \<noteq> [] \<and> length (itoa (int i)) \<le> 2"
proof -
  assume "i < 100"
  then have "i \<in> set [0..<100]" by simp
  moreover have "list_all (\<lambda>i. set (itoa (int i)) \<subseteq> set lower_digits \<and> itoa (int i) \<noteq> [] \<and> length (itoa (int i)) \<le> 2) [0..<100]"
    by code_simp
  ultimately show ?thesis by (auto simp: list_all_iff)
qed

lemma numbered_plain: "plain_name b \<Longrightarrow> i < 100 \<Longrightarrow> plain_name (numbered b i) \<and> length (numbered b i) \<le> length b + 3"
proof -
  assume b: "plain_name b" "i < 100"
  note i = itoa_small [OF b(2)]
  then have "last (itoa (int i)) \<in> set lower_digits" using last_in_set by blast
  moreover have "CHR ''-'' \<notin> set lower_digits" by (simp add: lower_digits_def)
  ultimately show ?thesis using b i by (auto simp: numbered_def plain_name_def name_chars_def)
qed

lemma plain_visible: "set s \<subseteq> name_chars \<Longrightarrow> list_all visible s"
proof -
  have "list_all visible (CHR ''-'' # lower_digits)" by code_simp
  then show "set s \<subseteq> name_chars \<Longrightarrow> ?thesis" by (auto simp: list_all_iff name_chars_def)
qed

lemma plain_label: "plain_name s \<Longrightarrow> validate_node_name s = None \<longleftrightarrow> length s \<le> 63"
proof -
  assume s: "plain_name s"
  have "CHR ''.'' \<notin> name_chars" by (simp add: name_chars_def lower_digits_def)
  then have "split_on (CHR ''.'') s = [s]" using s by (intro split_on_single) (auto simp: plain_name_def)
  moreover have "trim_space s = s" using s plain_visible [of s] by (simp add: plain_name_def trim_space_visible list_all_iff)
  ultimately show ?thesis using s by (auto simp: node_name_labels rfc1123_label_def plain_name_def name_chars_def)
qed

text \<open>
  C32: whatever a machine calls itself, it joins under a name of at most 93 lower-case letters, digits and dashes,
  with no dash at either end; and it can be deployed as a node of that name exactly when the name has at most 63
  characters, although the machines page deploys every machine that joined under its name.
\<close>

theorem joined_names:
  "list_all (\<lambda>i. let name = numbered (base_name hostname) i in
      name \<noteq> [] \<and> length name \<le> 93 \<and> list_all (\<lambda>c. c \<in> set (CHR ''-'' # lower_digits)) name \<and>
      hd name \<noteq> CHR ''-'' \<and> last name \<noteq> CHR ''-'' \<and> (validate_node_name name = None \<longleftrightarrow> length name \<le> 63)) [1..<100]"
proof -
  have "plain_name (numbered (base_name hostname) i) \<and> length (numbered (base_name hostname) i) \<le> 93" if "i < 100" for i
    using numbered_plain [OF conjunct1 [OF base_plain] that, of hostname] base_plain [of hostname] by linarith
  moreover have "list_all (\<lambda>c. c \<in> set (CHR ''-'' # lower_digits)) n" if "plain_name n" for n
    using that unfolding plain_name_def name_chars_def list_all_iff by fastforce
  ultimately show ?thesis
    unfolding list_all_iff [of _ "[1..<100]"] Let_def by (simp add: plain_label) (simp add: plain_name_def)
qed

section \<open>Calls\<close>

definition invite_key :: "mesh_invite \<Rightarrow> string \<times> string" where
  "invite_key i = (mi_owner i, mi_name i)"

definition member_key :: "mesh_member \<Rightarrow> string \<times> string" where
  "member_key m = (mm_owner m, mm_name m)"

definition machine_key :: "machine \<Rightarrow> string \<times> string" where
  "machine_key m = (mc_owner m, mc_name m)"

definition keyed :: "('a \<Rightarrow> 'k) \<Rightarrow> 'a list \<Rightarrow> bool" where
  "keyed f rows \<longleftrightarrow> distinct (map f rows)"

lemma keyed_unique: "keyed f rows \<Longrightarrow> r \<in> set rows \<Longrightarrow> r' \<in> set rows \<Longrightarrow> f r = f r' \<Longrightarrow> r = r'"
  by (auto simp: keyed_def distinct_map dest: inj_onD)

lemma keyed_filter: "keyed f rows \<Longrightarrow> keyed f (filter p rows)"
  by (simp add: keyed_def distinct_map_filter)

text \<open>
  What machines and the administrator ask of the hub: joins, each of them a sequence of statements, and calls, which
  touch the invites with one statement at most. The requests are served side by side, in any order of their statements,
  and each step reads the clock.
\<close>

datatype mesh_call =
    Make_invite string int int "(string + string) \<times> (string + string)" int
  | Drop_invite string string
  | Ask_leave string "string option"
  | Remove_machine "string option" string string
  | Seen mesh_member int

definition mesh_act :: "'db mesh_store \<Rightarrow> mesh_lib \<Rightarrow> mesh_call \<Rightarrow> 'db \<Rightarrow> 'db" where
  "mesh_act S L c db =
     (case c of
        Make_invite owner ttl uses draws now \<Rightarrow> snd (add_mesh_invite S L owner ttl uses draws now db)
      | Drop_invite owner name \<Rightarrow> snd (delete_mesh_invite S owner name db)
      | Ask_leave header node_error \<Rightarrow> snd (serve_leave S L header node_error db)
      | Remove_machine node_error owner name \<Rightarrow> snd (remove_member S node_error owner name db)
      | Seen m now \<Rightarrow> touch_member S L m now db)"

record join_run =
  jn_request :: "join_request option"
  jn_draw :: "string + string"
  jn_phase :: join_phase

datatype mesh_move = Call mesh_call | Arrive "join_request option" "string + string" | Step nat int

definition in_transaction :: "join_run \<Rightarrow> bool" where
  "in_transaction j \<longleftrightarrow> (case jn_phase j of Checked _ \<Rightarrow> True | _ \<Rightarrow> False)"

text \<open>
  With SQLite the engine has a single connection, which an open transaction keeps: whoever else needs the database waits
  (object/ormer.go). With MySQL, \<open>single = False\<close>, it has many.
\<close>

definition waits :: "bool \<Rightarrow> join_run list \<Rightarrow> nat \<Rightarrow> bool" where
  "waits single js k \<longleftrightarrow> single \<and> \<not> list_all (\<lambda>j. j = k \<or> \<not> in_transaction (js ! j)) [0..<length js]"

fun hub_step :: "'db mesh_store \<Rightarrow> mesh_lib \<Rightarrow> bool \<Rightarrow> 'db \<times> join_run list \<Rightarrow> mesh_move \<Rightarrow> 'db \<times> join_run list" where
  "hub_step S L single (db, js) (Call c) = (if waits single js (length js) then (db, js) else (mesh_act S L c db, js))"
| "hub_step S L single (db, js) (Arrive req draw) =
     (db, js @ [\<lparr>jn_request = req, jn_draw = draw, jn_phase = Arrived\<rparr>])"
| "hub_step S L single (db, js) (Step k now) =
     (if length js \<le> k \<or> waits single js k then (db, js)
      else case join_step S L (jn_request (js ! k)) (jn_draw (js ! k)) now (jn_phase (js ! k), db) of
        (phase, db') \<Rightarrow> (db', js[k := (js ! k)\<lparr>jn_phase := phase\<rparr>]))"

text \<open>How many machines were let in with the invite \<open>N\<close>, and how many uses the calls give that name.\<close>

definition asks_with :: "string \<Rightarrow> join_run \<Rightarrow> bool" where
  "asks_with N j \<longleftrightarrow> (case jn_request j of Some req \<Rightarrow> jr_invite req = N | None \<Rightarrow> False)"

definition let_in :: "join_run \<Rightarrow> bool" where
  "let_in j \<longleftrightarrow> (case jn_phase j of Answered (Joined _) \<Rightarrow> True | _ \<Rightarrow> False)"

definition admitted :: "string \<Rightarrow> join_run list \<Rightarrow> nat" where
  "admitted N js = length (filter (\<lambda>j. asks_with N j \<and> let_in j) js)"

fun granted :: "string \<Rightarrow> mesh_move list \<Rightarrow> nat" where
  "granted N [] = 0"
| "granted N (Call (Make_invite owner ttl uses draws now) # ms) =
     (if random_hex (fst draws) = Inr N then nat uses else 0) + granted N ms"
| "granted N (_ # ms) = granted N ms"

definition allowance :: "string \<Rightarrow> mesh_invite list \<Rightarrow> nat" where
  "allowance N rows = (\<Sum>i\<leftarrow>rows. if mi_name i = N then nat (mi_uses i) else 0)"

lemma allowance_filter: "allowance N (filter p rows) \<le> allowance N rows"
  by (induction rows) (auto simp: allowance_def)

lemma allowance_insert:
  "allowance N (xs @ r # ys) = allowance N (xs @ ys) + (if mi_name r = N then nat (mi_uses r) else 0)"
  by (simp add: allowance_def)

definition spent :: "mesh_invite \<Rightarrow> mesh_invite list \<Rightarrow> mesh_invite list" where
  "spent i rows = update_rows (\<lambda>r. mi_owner r = mi_owner i \<and> mi_name r = mi_name i) (\<lambda>r. r\<lparr>mi_uses := mi_uses i - 1\<rparr>) rows"

lemma spent_other: "invite_key i \<notin> invite_key ` set rows \<Longrightarrow> spent i rows = rows"
  by (induction rows) (auto simp: spent_def update_rows_def invite_key_def)

lemma spent_keys: "map invite_key (spent i rows) = map invite_key rows"
  by (induction rows) (auto simp: spent_def update_rows_def invite_key_def)

lemma allowance_spent:
  assumes "keyed invite_key rows" "i \<in> set rows" "0 < mi_uses i"
  shows "allowance N (spent i rows) + of_bool (mi_name i = N) = allowance N rows"
  using assms
proof (induction rows)
  case (Cons r rows)
  show ?case
  proof (cases "r = i")
    case True
    then have "spent i rows = rows" using Cons.prems by (intro spent_other) (auto simp: keyed_def)
    then have "spent i (r # rows) = i\<lparr>mi_uses := mi_uses i - 1\<rparr> # rows" using True by (simp add: spent_def update_rows_def)
    moreover have "Suc (nat (mi_uses i - 1)) = nat (mi_uses i)" using Cons.prems(3) by simp
    ultimately show ?thesis using True by (simp add: allowance_def)
  next
    case False
    then have i: "i \<in> set rows" "invite_key r \<noteq> invite_key i" using Cons.prems by (auto simp: keyed_def)
    then have "spent i (r # rows) = r # spent i rows" by (auto simp: spent_def update_rows_def invite_key_def)
    moreover have "allowance N (spent i rows) + of_bool (mi_name i = N) = allowance N rows"
      using Cons.IH Cons.prems i(1) by (simp add: keyed_def)
    ultimately show ?thesis by (simp add: allowance_def)
  qed
qed simp

text \<open>
  While one connection serves all: at most one join is in its transaction, the row it checked is still there, and the uses
  that joins took and the uses that are left are those that there were.
\<close>

definition took :: "string \<Rightarrow> join_run \<Rightarrow> bool" where
  "took N j \<longleftrightarrow> asks_with N j \<and> jn_phase j \<noteq> Arrived \<and> \<not> in_transaction j \<and> (\<forall>a. jn_phase j = Answered a \<longrightarrow> let_in j)"

definition spending_ok :: "('db \<Rightarrow> mesh_invite list) \<Rightarrow> string \<Rightarrow> nat \<Rightarrow> 'db \<times> join_run list \<Rightarrow> bool" where
  "spending_ok ic N n s \<longleftrightarrow> keyed invite_key (ic (fst s)) \<and>
     (\<Sum>j\<leftarrow>snd s. of_bool (took N j)) + allowance N (ic (fst s)) \<le> n \<and>
     (\<forall>k < length (snd s). \<forall>i. jn_phase (snd s ! k) = Checked i \<longrightarrow>
        i \<in> set (ic (fst s)) \<and> 0 < mi_uses i \<and> asks_with (mi_name i) (snd s ! k) \<and> jn_request (snd s ! k) \<noteq> None \<and>
        (\<forall>j < length (snd s). j \<noteq> k \<longrightarrow> \<not> in_transaction (snd s ! j)))"

section \<open>What the database gives\<close>

locale mesh_engine =
  IM: two_tables "me_invites S" ic "me_members S" mc "me_tx S"
  + IX: two_tables "me_invites S" ic "me_machines S" xc "me_tx S"
  + MX: two_tables "me_members S" mc "me_machines S" xc "me_tx S"
  + I: keyed_table "me_invites S" ic "keyed invite_key"
  + M: keyed_table "me_members S" mc "keyed member_key"
  + X: keyed_table "me_machines S" xc "keyed machine_key"
  for S :: "'db mesh_store" and ic :: "'db \<Rightarrow> mesh_invite list" and mc :: "'db \<Rightarrow> mesh_member list"
    and xc :: "'db \<Rightarrow> machine list"
begin

lemma read_invite_ok:
  "read_invite S L name secret now db = Inr i \<Longrightarrow>
   i \<in> set (ic db) \<and> mi_name i = name \<and> mi_hash i = ml_hash L secret \<and> \<not> expired L now i \<and> 0 < mi_uses i"
  using IM.A.get_first_in [of "\<lambda>i. mi_name i = name" db]
  by (auto simp: read_invite_def split: sum.splits option.splits if_splits)

lemma count_down_effect:
  assumes "count_down S i db = (r, db')"
  shows "ic db' \<in> {ic db, spent i (ic db)}" "r = Inr v \<Longrightarrow> v = i\<lparr>mi_uses := mi_uses i - 1\<rparr> \<and> ic db' = spent i (ic db)"
proof -
  let ?p = "\<lambda>r. mi_owner r = mi_owner i \<and> mi_name r = mi_name i" and ?f = "\<lambda>r. r\<lparr>mi_uses := mi_uses i - 1\<rparr>"
  obtain u d where u: "update_where (me_invites S) ?p ?f db = (u, d)" by force
  then have d: "ic d \<in> {ic db, spent i (ic db)}" "u = Inr n \<Longrightarrow> ic d = spent i (ic db)" for n
    using IM.A.update_either [of ?p ?f db] IM.A.update_ok [of ?p ?f db n d] by (auto simp: spent_def)
  from assms u have "d = db'" "r = Inr v \<Longrightarrow> v = i\<lparr>mi_uses := mi_uses i - 1\<rparr> \<and> (\<exists>n. u = Inr n)"
    by (auto simp: count_down_def split: sum.splits)
  with d show "ic db' \<in> {ic db, spent i (ic db)}" "r = Inr v \<Longrightarrow> v = i\<lparr>mi_uses := mi_uses i - 1\<rparr> \<and> ic db' = spent i (ic db)"
    by auto
qed

lemma end_spending_effect:
  assumes "end_spending S i db = (phase, db')"
  shows "ic db' \<in> {ic db, spent i (ic db)}"
    "(\<exists>e. phase = Answered (Forbidden e)) \<or> phase = Naming (mi_owner i) [1..<100] \<and> ic db' = spent i (ic db)"
proof -
  obtain r d where r: "count_down S i db = (r, d)" by force
  note c = count_down_effect [OF r]
  obtain e d' where d: "commit_tx (me_tx S) db d = (e, d')" by force
  have "ic d' = ic d \<or> ic d' = ic db" "e = None \<Longrightarrow> ic d' = ic d"
    using IM.committed [of db d d'] IM.not_committed [of db d _ d'] d by (cases e; auto)+
  with r c d assms IM.rolled_back [of db d] show "ic db' \<in> {ic db, spent i (ic db)}"
    "(\<exists>e. phase = Answered (Forbidden e)) \<or> phase = Naming (mi_owner i) [1..<100] \<and> ic db' = spent i (ic db)"
    by (auto simp: end_spending_def split: sum.splits option.splits)
qed

lemma try_names_keeps: "ic (snd (try_names S L owner base hostname os now is db)) = ic db
    \<and> mc (snd (try_names S L owner base hostname os now is db)) = mc db"
proof (induction "is")
  case (Cons i "is")
  then show ?case
    using IX.B_keeps_A(2) [of _ db] MX.B_keeps_A(2) [of _ db]
    by (auto simp: Let_def add_machine_def split: sum.split option.split prod.split dest: arg_cong [of _ _ snd])
qed simp

lemma add_machine_keeps: "ic (snd (add_mesh_machine S L owner hostname os now db)) = ic db
    \<and> mc (snd (add_mesh_machine S L owner hostname os now db)) = mc db"
  by (simp add: add_mesh_machine_def try_names_keeps)

lemma add_member_keeps: "ic (snd (add_mesh_member S L owner name hostname draw now db)) = ic db
    \<and> xc (snd (add_mesh_member S L owner name hostname draw now db)) = xc db"
  using IM.B_keeps_A(2) [of _ db] MX.A_keeps_B(2) [of _ db]
  by (auto simp: add_mesh_member_def split: sum.split prod.split dest: arg_cong [of _ _ snd])

lemma delete_machine_keeps: "ic (snd (delete_machine S owner name db)) = ic db \<and> mc (snd (delete_machine S owner name db)) = mc db"
  using IX.B_keeps_A(3) [of _ db] MX.B_keeps_A(3) [of _ db]
  by (auto simp: delete_machine_def split: sum.split prod.split dest: arg_cong [of _ _ snd])

lemma remove_keeps: "ic (snd (remove_member S node_error owner name db)) = ic db"
proof -
  have "ic d = ic db" if "delete_machine S owner name db = (r, d)" for r d db
    using delete_machine_keeps [of owner name db] that by simp
  moreover have "ic (snd (delete_mesh_member S owner name db)) = ic db"
    using IM.B_keeps_A(3) [of "member_bean owner name" db] by (auto simp: delete_mesh_member_def split: sum.split prod.split)
  ultimately show ?thesis by (auto simp: remove_member_def split: sum.split prod.split option.split)
qed

lemma drop_effect: "\<exists>p. ic (snd (delete_mesh_invite S owner name db)) = filter p (ic db)"
proof -
  let ?p = "\<lambda>i. (owner = [] \<or> mi_owner i = owner) \<and> (name = [] \<or> mi_name i = name)"
  obtain r d where d: "delete_where (me_invites S) ?p db = (r, d)" by force
  then have "ic d = ic db \<or> ic d = filter (\<lambda>r. \<not> ?p r) (ic db)"
    using IM.A.delete_ok [of ?p db _ d] IM.A.delete_failed [of ?p db _ d] by (cases r) auto
  moreover have "ic db = filter (\<lambda>_. True) (ic db)" by simp
  ultimately have "\<exists>p. ic d = filter p (ic db)" by metis
  then show ?thesis
    using d \<open>ic db = filter _ _\<close> by (cases r) (auto simp: delete_mesh_invite_def intro: exI [of _ "\<lambda>_. True"])
qed

lemma make_effect:
  assumes "keyed invite_key (ic db)"
  shows "keyed invite_key (ic (snd (add_mesh_invite S L owner ttl uses draws now db))) \<and>
    allowance N (ic (snd (add_mesh_invite S L owner ttl uses draws now db)))
      \<le> allowance N (ic db) + granted N [Call (Make_invite owner ttl uses draws now)]"
proof (cases "\<exists>n s. random_hex (fst draws) = Inr n \<and> random_hex (snd draws) = Inr s \<and> 0 < uses")
  case True
  then obtain n s where d: "random_hex (fst draws) = Inr n" "random_hex (snd draws) = Inr s" "0 < uses" by auto
  let ?r = "\<lparr>mi_owner = owner, mi_name = n, mi_created = ml_format L now, mi_expires = ml_format L (now + ttl),
      mi_uses = uses, mi_hash = ml_hash L s\<rparr>"
  obtain e db' where ins: "insert_row (me_invites S) ?r db = (e, db')" by force
  have "ic db' = ic db \<or> keyed invite_key (ic db') \<and> (\<exists>xs ys. ic db = xs @ ys \<and> ic db' = xs @ ?r # ys)"
    using ins I.keyed_insert_ok [of ?r db _ db'] I.keyed_insert_failed [of ?r db _ db'] by (cases e) auto
  moreover have "snd (add_mesh_invite S L owner ttl uses draws now db) = db'"
    using d ins by (cases e) (simp_all add: add_mesh_invite_def Let_def)
  ultimately show ?thesis using assms d(1) by (auto simp: allowance_insert)
next
  case False
  then have "snd (add_mesh_invite S L owner ttl uses draws now db) = db"
    by (auto simp: add_mesh_invite_def split: sum.split)
  with assms show ?thesis by simp
qed

lemma act_effect:
  assumes "keyed invite_key (ic db)"
  shows "keyed invite_key (ic (mesh_act S L c db)) \<and> allowance N (ic (mesh_act S L c db)) \<le> allowance N (ic db) + granted N [Call c]"
proof (cases c)
  case (Make_invite owner ttl uses draws now)
  then show ?thesis using make_effect [OF assms(1), of L owner ttl uses draws now N] by (simp add: mesh_act_def)
next
  case (Drop_invite owner name)
  obtain p where "ic (snd (delete_mesh_invite S owner name db)) = filter p (ic db)" using drop_effect by blast
  with Drop_invite show ?thesis
    using assms allowance_filter [of N p] by (auto simp: mesh_act_def keyed_filter)
next
  case (Ask_leave header node_error)
  have "ic (snd (serve_leave S L header node_error db)) = ic db"
    using remove_keeps by (auto simp: serve_leave_def split: sum.split option.split prod.split) (metis snd_conv)+
  with Ask_leave show ?thesis using assms by (auto simp: mesh_act_def)
next
  case (Remove_machine node_error owner name)
  then show ?thesis using assms remove_keeps by (auto simp: mesh_act_def)
next
  case (Seen m now)
  then show ?thesis using assms IM.B_keeps_A(1) by (auto simp: mesh_act_def touch_member_def)
qed

text \<open>A step of a join: the transaction opened with a valid row, ended with that row counted down, the rest without invites.\<close>

lemma join_step_begins:
  assumes "join_step S L req draw now (Arrived, db) = (phase, db')"
  shows "ic db' = ic db \<and> (\<exists>a. phase = Answered a \<and> (\<forall>p. a \<noteq> Joined p) \<or>
    (\<exists>i r. req = Some r \<and> phase = Checked i \<and> i \<in> set (ic db) \<and> mi_name i = jr_invite r \<and> 0 < mi_uses i))"
proof (cases req)
  case (Some r)
  with assms have b: "begin_spending S L r now db = (phase, db')" by (simp add: join_step_def)
  show ?thesis
  proof (cases "read_invite S L (jr_invite r) (jr_secret r) now db")
    case (Inl e)
    with b IM.rolled_back(1) [of db db] show ?thesis by (auto simp: begin_spending_def split: option.splits)
  next
    case (Inr i)
    with b read_invite_ok [OF Inr] Some show ?thesis by (auto simp: begin_spending_def split: option.splits)
  qed
qed (use assms in \<open>auto simp: join_step_def\<close>)

lemma join_step_rest:
  assumes "join_step S L (Some r) draw now (phase, db) = (phase', db')" "phase \<noteq> Arrived" "\<forall>i. phase \<noteq> Checked i"
  shows "ic db' = ic db \<and> phase' \<noteq> Arrived \<and> (\<forall>i. phase' \<noteq> Checked i) \<and> ((\<exists>a. phase = Answered a) \<longrightarrow> phase' = phase)"
proof -
  have add: "ic d = ic db" if "add_machine S m db = (a, d)" for m a d
    using that IX.B_keeps_A(2) [of m db] by (auto simp: add_machine_def split: prod.splits sum.splits)
  have member: "ic d = ic db" if "add_mesh_member S L owner name host draw now db = (a, d)" for owner name host a d
    using that add_member_keeps [of L owner name host draw now db] by simp
  show ?thesis
  proof (cases phase)
    case (Naming owner ns)
    then show ?thesis using assms(1) by (cases ns) (auto simp: join_step_def split: sum.splits option.splits)
  next
    case (Name_free owner i)
    then show ?thesis using assms(1) add by (auto simp: join_step_def Let_def split: sum.splits prod.splits)
  next
    case (Recorded m)
    then show ?thesis using assms(1) member by (auto simp: join_step_def split: sum.splits prod.splits)
  next
    case (Unrecorded m)
    then show ?thesis using assms(1) delete_machine_keeps by (auto simp: join_step_def)
  qed (use assms in \<open>auto simp: join_step_def\<close>)
qed

lemma in_transaction_iff: "in_transaction j \<longleftrightarrow> (\<exists>i. jn_phase j = Checked i)"
  by (auto simp: in_transaction_def split: join_phase.splits)

lemma took_sum_update:
  assumes "k < length js" "of_bool (took N j) + a \<le> of_bool (took N (js ! k)) + (b :: nat)"
  shows "(\<Sum>j\<leftarrow>js[k := j]. of_bool (took N j)) + a \<le> (\<Sum>j\<leftarrow>js. of_bool (took N j)) + b"
proof -
  let ?f = "\<lambda>j. of_bool (took N j) :: nat"
  have "?f (js ! k) \<le> sum_list (map ?f js)" using assms(1) by (intro elem_le_sum_list [of k "map ?f js", simplified]) simp_all
  moreover have "sum_list (map ?f (js[k := j])) = sum_list (map ?f js) + ?f j - ?f (js ! k)"
    using assms(1) sum_list_update [of k "map ?f js" "?f j"] by (simp add: map_update)
  ultimately show ?thesis using assms(2) by simp
qed

lemma spending_step:
  assumes "spending_ok ic N n s"
  shows "spending_ok ic N (n + granted N [m]) (hub_step S L True s m)"
proof -
  obtain db js where s: "s = (db, js)" by fastforce
  have k: "keyed invite_key (ic db)" and bound: "(\<Sum>j\<leftarrow>js. of_bool (took N j)) + allowance N (ic db) \<le> n"
    and open_ok: "\<And>k i. k < length js \<Longrightarrow> jn_phase (js ! k) = Checked i \<Longrightarrow>
      i \<in> set (ic db) \<and> 0 < mi_uses i \<and> asks_with (mi_name i) (js ! k) \<and> jn_request (js ! k) \<noteq> None \<and>
      (\<forall>j < length js. j \<noteq> k \<longrightarrow> \<not> in_transaction (js ! j))"
    using assms s by (auto simp: spending_ok_def)
  show ?thesis
  proof (cases m)
    case (Arrive req draw)
    let ?j = "\<lparr>jn_request = req, jn_draw = draw, jn_phase = Arrived\<rparr>"
    have "\<not> took N ?j" "\<not> in_transaction ?j" by (simp_all add: took_def in_transaction_def)
    with Arrive s k bound open_ok show ?thesis
      by (auto simp: spending_ok_def nth_append in_transaction_iff less_Suc_eq)
  next
    case (Call c)
    show ?thesis
    proof (cases "waits True js (length js)")
      case True
      with Call s k bound open_ok show ?thesis by (auto simp: spending_ok_def)
    next
      case False
      then have "\<not> in_transaction (js ! j)" if "j < length js" for j using that by (auto simp: waits_def list_all_iff)
      with Call False s bound act_effect [OF k, of L c N] show ?thesis by (auto simp: spending_ok_def in_transaction_iff)
    qed
  next
    case (Step j now)
    show ?thesis
    proof (cases "length js \<le> j \<or> waits True js j")
      case True
      with Step s assms show ?thesis by simp
    next
      case False
      then have j: "j < length js" and others: "\<And>i. i < length js \<Longrightarrow> i \<noteq> j \<Longrightarrow> \<not> in_transaction (js ! i)"
        by (auto simp: waits_def list_all_iff)
      let ?j = "js ! j"
      obtain phase db' where p: "join_step S L (jn_request ?j) (jn_draw ?j) now (jn_phase ?j, db) = (phase, db')" by fastforce
      let ?j' = "?j\<lparr>jn_phase := phase\<rparr>"
      have hub: "hub_step S L True s m = (db', js[j := ?j'])" using Step False s p by simp
      have "keyed invite_key (ic db') \<and> of_bool (took N ?j') + allowance N (ic db') \<le> of_bool (took N ?j) + allowance N (ic db) \<and>
        (\<forall>i. phase = Checked i \<longrightarrow> i \<in> set (ic db') \<and> 0 < mi_uses i \<and> asks_with (mi_name i) ?j \<and> jn_request ?j \<noteq> None)"
      proof (cases "jn_phase ?j = Arrived")
        case True
        with join_step_begins [OF p [unfolded True]] k show ?thesis
          by (auto simp: took_def asks_with_def let_in_def in_transaction_def split: join_answer.splits)
      next
        case arrived: False
        show ?thesis
        proof (cases "\<exists>i. jn_phase ?j = Checked i")
          case True
          then obtain i where i: "jn_phase ?j = Checked i" by blast
          from open_ok [OF j i] obtain r where r: "i \<in> set (ic db)" "0 < mi_uses i" "asks_with (mi_name i) ?j" "jn_request ?j = Some r" by auto
          from p i r(4) have e: "end_spending S i db = (phase, db')" by (simp add: join_step_def)
          have "keyed invite_key (spent i (ic db))" "allowance N (spent i (ic db)) + of_bool (mi_name i = N) = allowance N (ic db)"
            using k spent_keys [of i "ic db"] allowance_spent [OF k r(1,2), of N] by (simp_all add: keyed_def)
          with end_spending_effect [OF e] k r(3,4) show ?thesis
            by (auto simp: took_def asks_with_def let_in_def in_transaction_def)
        next
          case False
          show ?thesis
          proof (cases "jn_request ?j")
            case None
            with p k show ?thesis by (auto simp: join_step_def took_def asks_with_def)
          next
            case (Some r)
            from join_step_rest [OF p [unfolded Some] arrived] False
            have rest: "ic db' = ic db" "phase \<noteq> Arrived" "\<forall>i. phase \<noteq> Checked i" "(\<exists>a. jn_phase ?j = Answered a) \<longrightarrow> phase = jn_phase ?j"
              by auto
            then have "took N ?j' \<longrightarrow> took N ?j"
              using arrived False by (auto simp: took_def asks_with_def let_in_def in_transaction_def split: join_phase.splits)
            with rest k show ?thesis by auto
          qed
        qed
      qed
      note j' = this
      have "(\<Sum>j\<leftarrow>js[j := ?j']. of_bool (took N j)) + allowance N (ic db') \<le> n"
        using took_sum_update [OF j, of N ?j' "allowance N (ic db')" "allowance N (ic db)"] j' bound by linarith
      moreover have "i \<in> set (ic db') \<and> 0 < mi_uses i \<and> asks_with (mi_name i) (js[j := ?j'] ! q) \<and> jn_request (js[j := ?j'] ! q) \<noteq> None \<and>
          (\<forall>x < length js. x \<noteq> q \<longrightarrow> \<not> in_transaction (js[j := ?j'] ! x))"
        if "q < length js" "jn_phase (js[j := ?j'] ! q) = Checked i" for q i
      proof -
        have "q = j" using that others [of q] by (cases "q = j") (auto simp: in_transaction_iff)
        then show ?thesis using that j j' others by (auto simp: asks_with_def)
      qed
      moreover have "granted N [m] = 0" using Step by simp
      ultimately show ?thesis
        unfolding hub spending_ok_def using j' by simp
    qed
  qed
qed

lemma granted_Cons: "granted N (m # ms) = granted N [m] + granted N ms"
proof (cases m)
  case (Call c)
  then show ?thesis by (cases c) simp_all
qed simp_all

lemma spending_run: "spending_ok ic N n s \<Longrightarrow> spending_ok ic N (n + granted N ms) (foldl (hub_step S L True) s ms)"
proof (induction ms arbitrary: n s)
  case (Cons m ms)
  from Cons.IH [OF spending_step [OF Cons.prems, of m L]] show ?case by (simp add: granted_Cons [of N m ms] add.assoc)
qed simp

lemma admitted_took: "admitted N js \<le> (\<Sum>j\<leftarrow>js. of_bool (took N j))"
proof (induction js)
  case (Cons j js)
  have "asks_with N j \<and> let_in j \<longrightarrow> took N j" by (auto simp: took_def let_in_def in_transaction_def split: join_phase.splits)
  with Cons show ?case by (auto simp: admitted_def)
qed (simp add: admitted_def)

lemma admitted_bound:
  assumes "keyed invite_key (ic db)"
  shows "admitted N (snd (foldl (hub_step S L True) (db, []) ms)) \<le> allowance N (ic db) + granted N ms"
proof -
  have "spending_ok ic N (allowance N (ic db)) (db, [])" using assms by (simp add: spending_ok_def)
  from spending_run [OF this, of ms L] admitted_took [of N "snd (foldl (hub_step S L True) (db, []) ms)"]
  show ?thesis by (simp add: spending_ok_def)
qed

lemma try_names_added:
  assumes "try_names S L owner base hostname os now is db = (Inr m, db')"
  shows "\<exists>i \<in> set is. m = joined_machine L owner (numbered base i) hostname os now \<and> m \<in> set (xc db')"
  using assms
proof (induction "is" arbitrary: db)
  case (Cons i "is")
  let ?m = "joined_machine L owner (numbered base i) hostname os now"
  show ?case
  proof (cases "\<exists>r d. get_machine (me_machines S) (owner @ ''/'' @ numbered base i) db = Inr None \<and> insert_row (me_machines S) ?m db = (Inr r, d)")
    case True
    then obtain r d where d: "get_machine (me_machines S) (owner @ ''/'' @ numbered base i) db = Inr None"
      "insert_row (me_machines S) ?m db = (Inr r, d)" by auto
    then have "?m \<in> set (xc d)" using X.keyed_insert_ok [OF d(2)] by auto
    with d Cons.prems show ?thesis by (auto simp: Let_def add_machine_def)
  next
    case False
    with Cons.prems Cons.IH show ?thesis
      by (auto simp: Let_def add_machine_def split: sum.splits option.splits prod.splits)
  qed
qed simp

lemma join_ok:
  assumes "serve_join S L (Some req) draw now db = (Joined p, db')"
  obtains i k secret where "i \<in> set (ic db)" "mi_name i = jr_invite req" "mi_hash i = ml_hash L (jr_secret req)"
    "\<not> expired L now i" "0 < mi_uses i" "k < 100"
    "jp_machine p = mi_owner i @ ''/'' @ numbered (base_name (jr_hostname req)) k"
    "jp_credential p = mi_owner i @ ''/'' @ numbered (base_name (jr_hostname req)) k @ ''.'' @ secret"
    "\<exists>m \<in> set (mc db'). member_key m = (mi_owner i, numbered (base_name (jr_hostname req)) k) \<and> mm_hash m = ml_hash L secret"
    "keyed member_key (mc db')"
    "\<exists>x \<in> set (xc db'). machine_key x = (mi_owner i, numbered (base_name (jr_hostname req)) k)"
proof -
  let ?consume = "consume_mesh_invite S L (jr_invite req) (jr_secret req) now db"
  obtain v db1 where c: "?consume = (Inr v, db1)"
    using assms by (cases ?consume; cases "fst ?consume") (auto simp: serve_join_def)
  let ?add = "add_mesh_machine S L (mi_owner v) (jr_hostname req) (jr_os req) now db1"
  obtain m db2 where a: "?add = (Inr m, db2)"
    using assms c by (cases ?add; cases "fst ?add") (auto simp: serve_join_def)
  let ?member = "add_mesh_member S L (mc_owner m) (mc_name m) (jr_hostname req) draw now db2"
  obtain cred where mem: "?member = (Inr cred, db')"
    and p: "p = \<lparr>jp_machine = mc_owner m @ ''/'' @ mc_name m, jp_credential = cred\<rparr>"
    using assms c a by (cases ?member; cases "fst ?member") (auto simp: serve_join_def)
  obtain d where d: "spend_invite S L (jr_invite req) (jr_secret req) now db = (Inr v, d)"
    using c by (auto simp: consume_mesh_invite_def elim!: IM.transaction_ok)
  obtain i where i: "i \<in> set (ic db)" "mi_name i = jr_invite req" "mi_hash i = ml_hash L (jr_secret req)"
    "\<not> expired L now i" "0 < mi_uses i" "mi_owner v = mi_owner i"
    using d read_invite_ok count_down_effect(2) by (fastforce simp: spend_invite_def split: sum.splits)
  obtain k where k: "k < 100" "m = joined_machine L (mi_owner i) (numbered (base_name (jr_hostname req)) k) (jr_hostname req) (jr_os req) now"
    "m \<in> set (xc db2)"
    using try_names_added [OF a [unfolded add_mesh_machine_def]] i(6) by auto
  obtain secret where s: "random_hex draw = Inr secret" "cred = mc_owner m @ ''/'' @ mc_name m @ ''.'' @ secret"
    and ins: "\<exists>r. insert_row (me_members S)
      \<lparr>mm_owner = mc_owner m, mm_name = mc_name m, mm_created = ml_format L now, mm_hostname = jr_hostname req, mm_seen = [],
       mm_hash = ml_hash L secret\<rparr> db2 = (Inr r, db')"
    using mem by (auto simp: add_mesh_member_def split: sum.splits prod.splits)
  then have "\<exists>m' \<in> set (mc db'). member_key m' = (mc_owner m, mc_name m) \<and> mm_hash m' = ml_hash L secret"
    "keyed member_key (mc db')"
    using M.keyed_insert_ok [of _ db2 _ db'] by (fastforce simp: member_key_def)+
  moreover have "xc db' = xc db2" using add_member_keeps [of L "mc_owner m" "mc_name m" "jr_hostname req" draw now db2] mem by simp
  moreover have "machine_key m = (mi_owner i, numbered (base_name (jr_hostname req)) k)" "mc_owner m = mi_owner i"
    "mc_name m = numbered (base_name (jr_hostname req)) k" using k(2) by (simp_all add: joined_machine_def machine_key_def)
  ultimately show ?thesis using that [of i k secret] i(1-5) k(1,3) p s(2) by fastforce
qed

lemma verify_member:
  assumes "m \<in> set (mc db)" "keyed member_key (mc db)" "member_key m = (owner, name)" "mm_hash m = ml_hash L secret"
    "owner \<noteq> []" "name \<noteq> []" "CHR ''.'' \<notin> set (owner @ name)" "CHR ''/'' \<notin> set owner"
    "verify_credential S L (owner @ ''/'' @ name @ ''.'' @ secret) db = Inr r"
  shows "r = Some m"
proof -
  have "cut (owner @ ''/'' @ name @ ''.'' @ secret) ''.'' = (owner @ ''/'' @ name, secret, True)"
    using cut_char [of "CHR ''.''" "owner @ ''/'' @ name" secret] assms(7) by simp
  moreover have "owner_and_name (owner @ ''/'' @ name) = Some (owner, name)"
    using cut_char [of "CHR ''/''" owner name] assms(8) by (simp add: owner_and_name_def)
  ultimately have v: "(case get_first (me_members S) (member_bean owner name) db of
      Inl e \<Rightarrow> Inl (Mesh_db e) | Inr None \<Rightarrow> Inr None
    | Inr (Some m) \<Rightarrow> if mm_hash m \<noteq> ml_hash L secret then Inr None else Inr (Some m)) = Inr r"
    using assms(9) by (simp add: verify_credential_def)
  have mb: "member_bean owner name m' \<longleftrightarrow> member_key m' = (owner, name)" for m'
    using assms(5,6) by (simp add: member_bean_def member_key_def)
  have "q = m" if "get_first (me_members S) (member_bean owner name) db = Inr (Some q)" for q
    using IM.B.get_first_in [OF that] assms(1,3) mb keyed_unique [OF assms(2)] by auto
  moreover have "get_first (me_members S) (member_bean owner name) db \<noteq> Inr None"
  proof
    assume "get_first (me_members S) (member_bean owner name) db = Inr None"
    then have "select_where (me_members S) (member_bean owner name) db = Inr []"
      by (simp add: get_first_def split: sum.splits list.splits)
    from IM.B.select_ok [OF this] have "filter (member_bean owner name) (mc db) = []" by simp
    with assms(1,3) mb show False by (auto simp: filter_empty_conv)
  qed
  ultimately show ?thesis using v assms(4) by (auto split: sum.splits option.splits)
qed

lemma removed_unknown:
  assumes "remove_member S node_error owner name db = (Inr (Inr b), db')" "owner \<noteq> []" "name \<noteq> []"
    "CHR ''.'' \<notin> set (owner @ name)" "CHR ''/'' \<notin> set owner"
    "verify_credential S L (owner @ ''/'' @ name @ ''.'' @ secret) db' = Inr r"
  shows "r = None"
proof -
  obtain n d where d: "delete_where (me_members S) (member_bean owner name) db = (Inr n, d)"
    "snd (delete_machine S owner name d) = db'"
    using assms(1,2) by (auto simp: remove_member_def delete_mesh_member_def split: option.splits sum.splits prod.splits)
  then have none: "\<not> member_bean owner name m" if "m \<in> set (mc db')" for m
    using that IM.B.delete_ok [OF d(1)] delete_machine_keeps [of owner name d] by auto
  have "cut (owner @ ''/'' @ name @ ''.'' @ secret) ''.'' = (owner @ ''/'' @ name, secret, True)"
    using cut_char [of "CHR ''.''" "owner @ ''/'' @ name" secret] assms(4) by simp
  moreover have "owner_and_name (owner @ ''/'' @ name) = Some (owner, name)"
    using cut_char [of "CHR ''/''" owner name] assms(5) by (simp add: owner_and_name_def)
  moreover have "get_first (me_members S) (member_bean owner name) db' \<noteq> Inr (Some m)" for m
    using IM.B.get_first_in [of "member_bean owner name" db' m] none by auto
  ultimately show ?thesis using assms(6) by (auto simp: verify_credential_def split: sum.splits option.splits)
qed

end

section \<open>The engine in memory\<close>

record mesh_mem =
  mm_invites :: "mesh_invite mem"
  mm_members :: "mesh_member mem"
  mm_machines :: "machine mem"

definition mesh_mem_store :: "mesh_mem mesh_store" where
  "mesh_mem_store =
     \<lparr>me_invites = mem_table mm_invites (\<lambda>m db. db\<lparr>mm_invites := m\<rparr>) (\<lambda>_. 0) (\<lambda>_ r. r) (keyed invite_key) (DbFailure []),
      me_members = mem_table mm_members (\<lambda>m db. db\<lparr>mm_members := m\<rparr>) (\<lambda>_. 0) (\<lambda>_ r. r) (keyed member_key) (DbFailure []),
      me_machines = mem_table mm_machines (\<lambda>m db. db\<lparr>mm_machines := m\<rparr>) (\<lambda>_. 0) (\<lambda>_ r. r) (keyed machine_key) (DbFailure []),
      me_tx = \<lparr>begin_tx = (\<lambda>_. None), commit_tx = (\<lambda>_ db. (None, db)), rollback_tx = (\<lambda>db _. db)\<rparr>\<rparr>"

interpretation mesh_memory: mesh_engine mesh_mem_store "\<lambda>db. mrows (mm_invites db)" "\<lambda>db. mrows (mm_members db)"
  "\<lambda>db. mrows (mm_machines db)"
proof -
  have i: "keyed_table (me_invites mesh_mem_store) (\<lambda>db. mrows (mm_invites db)) (keyed invite_key)"
    and m: "keyed_table (me_members mesh_mem_store) (\<lambda>db. mrows (mm_members db)) (keyed member_key)"
    and x: "keyed_table (me_machines mesh_mem_store) (\<lambda>db. mrows (mm_machines db)) (keyed machine_key)"
    unfolding mesh_mem_store_def mesh_store.simps by (rule mem_keyed_laws; simp)+
  note rows = keyed_table.axioms(1) [OF i] keyed_table.axioms(1) [OF m] keyed_table.axioms(1) [OF x]
  have tx: "two_tables_axioms TA ca TB cb (me_tx mesh_mem_store)"
    if "\<And>db p f. cb (snd (update_where TA p f db)) = cb db" "\<And>db r. cb (snd (insert_row TA r db)) = cb db"
      "\<And>db p. cb (snd (delete_where TA p db)) = cb db" "\<And>db p f. ca (snd (update_where TB p f db)) = ca db"
      "\<And>db r. ca (snd (insert_row TB r db)) = ca db" "\<And>db p. ca (snd (delete_where TB p db)) = ca db"
    for TA :: "('a, mesh_mem) table" and ca and TB :: "('b, mesh_mem) table" and cb
    using that by (simp add: two_tables_axioms_def mesh_mem_store_def)
  show "mesh_engine mesh_mem_store (\<lambda>db. mrows (mm_invites db)) (\<lambda>db. mrows (mm_members db)) (\<lambda>db. mrows (mm_machines db))"
    unfolding mesh_engine_def two_tables_def
    by (intro conjI i m x rows tx)
       (auto simp: mesh_mem_store_def mem_table_def Let_def split: prod.split option.splits)
qed

section \<open>What an invite is worth\<close>

definition lib_here :: mesh_lib where
  "lib_here = \<lparr>ml_hash = (\<lambda>s. s), ml_format = itoa, ml_parse = (\<lambda>_. Some 100)\<rparr>"

definition mem_of :: "'r list \<Rightarrow> 'r mem" where
  "mem_of rows = \<lparr>mrows = rows, mnext = 1, mfaults = []\<rparr>"

definition cloud_with :: "mesh_invite list \<Rightarrow> mesh_mem" where
  "cloud_with is = \<lparr>mm_invites = mem_of is, mm_members = mem_of [], mm_machines = mem_of []\<rparr>"

definition invite_here :: mesh_invite where
  "invite_here = \<lparr>mi_owner = ''admin'', mi_name = ''i'', mi_created = [], mi_expires = [], mi_uses = 1, mi_hash = ''s''\<rparr>"

definition ask_here :: join_request where
  "ask_here = \<lparr>jr_invite = ''i'', jr_secret = ''s'', jr_hostname = ''Box'', jr_os = ''linux''\<rparr>"

text \<open>
  C30: with SQLite, the default, whatever machines and administrators ask of the hub, however the statements of their
  requests interleave and whatever the database fails to do, an invite lets in no more machines than it had uses at the
  start or was given when it was made.
\<close>

theorem invite_admits_few:
  assumes "mesh_engine S ic mc xc" "keyed invite_key (ic db)"
  shows "admitted N (snd (foldl (hub_step S L True) (db, []) moves)) \<le> allowance N (ic db) + granted N moves"
  by (rule mesh_engine.admitted_bound [OF assms])

text \<open>Two machines that ask side by side with an invite for one.\<close>

definition both_ask :: "mesh_move list" where
  "both_ask = [Arrive (Some ask_here) (Inr ''a''), Arrive (Some ask_here) (Inr ''b'')] @
     [Step 0 1, Step 1 1, Step 0 2, Step 1 2, Step 0 3, Step 0 4, Step 0 5, Step 1 6, Step 1 7, Step 1 8, Step 1 9]"

theorem invite_admits_few_witness:
  "admitted ''i'' (snd (foldl (hub_step mesh_mem_store lib_here True) (cloud_with [invite_here], []) both_ask)) \<in> {1..1}"
proof -
  let ?n = "admitted ''i'' (snd (foldl (hub_step mesh_mem_store lib_here True) (cloud_with [invite_here], []) both_ask))"
  have "1 \<le> ?n" by code_simp
  moreover have "keyed invite_key (mrows (mm_invites (cloud_with [invite_here])))" by code_simp
  from invite_admits_few [OF mesh_memory.mesh_engine_axioms this, of "''i''" lib_here both_ask]
  have "?n \<le> 1" by (simp add: cloud_with_def mem_of_def invite_here_def allowance_def both_ask_def)
  ultimately show ?thesis by simp
qed

text \<open>
  With MySQL the row is read without a lock (object/mesh.go), both read that a use is left, and both are let in. The same
  statements in the same order.
\<close>

lemma invite_spent_twice:
  "admitted ''i'' (snd (foldl (hub_step mesh_mem_store lib_here False) (cloud_with [invite_here], []) both_ask)) = 2"
  by code_simp

text \<open>
  C31: a machine is let in only by an invite that has its name and secret, has not expired and has a use left; the
  machine is then recorded under the name it was told, its credential identifies it as that machine, and no longer
  does once the machine was removed.
\<close>

theorem joined_is_member:
  assumes "mesh_engine S ic mc xc"
    and "list_all (\<lambda>i. mi_owner i \<noteq> [] \<and> CHR ''.'' \<notin> set (mi_owner i) \<and> CHR ''/'' \<notin> set (mi_owner i)) (ic db)"
    and "serve_join S L (Some req) draw now db = (Joined p, db')"
  shows "\<exists>i m. i \<in> set (ic db) \<and> mi_name i = jr_invite req \<and> mi_hash i = ml_hash L (jr_secret req) \<and> \<not> expired L now i \<and> 0 < mi_uses i \<and>
    m \<in> set (mc db') \<and> member_key m \<in> machine_key ` set (xc db') \<and> mm_owner m = mi_owner i \<and> jp_machine p = mm_owner m @ ''/'' @ mm_name m \<and>
    verify_credential S L (jp_credential p) db' \<in> insert (Inr (Some m)) (range Inl) \<and>
    (\<forall>node_error b db''. remove_member S node_error (mm_owner m) (mm_name m) db' = (Inr (Inr b), db'') \<longrightarrow>
       verify_credential S L (jp_credential p) db'' \<in> insert (Inr None) (range Inl))"
proof -
  obtain i k secret where j: "i \<in> set (ic db)" "mi_name i = jr_invite req" "mi_hash i = ml_hash L (jr_secret req)"
    "\<not> expired L now i" "0 < mi_uses i" "k < 100"
    and names: "jp_machine p = mi_owner i @ ''/'' @ numbered (base_name (jr_hostname req)) k"
    "jp_credential p = mi_owner i @ ''/'' @ numbered (base_name (jr_hostname req)) k @ ''.'' @ secret"
    and rows: "\<exists>m \<in> set (mc db'). member_key m = (mi_owner i, numbered (base_name (jr_hostname req)) k) \<and> mm_hash m = ml_hash L secret"
    "keyed member_key (mc db')"
    "\<exists>x \<in> set (xc db'). machine_key x = (mi_owner i, numbered (base_name (jr_hostname req)) k)"
    using mesh_engine.join_ok [OF assms(1,3)] by metis
  let ?name = "numbered (base_name (jr_hostname req)) k"
  have "plain_name ?name" using numbered_plain [OF conjunct1 [OF base_plain] j(6)] by blast
  then have name: "?name \<noteq> []" "CHR ''.'' \<notin> set (mi_owner i @ ?name)" "mi_owner i \<noteq> []" "CHR ''/'' \<notin> set (mi_owner i)"
    using assms(2) j(1) by (auto simp: plain_name_def name_chars_def lower_digits_def list_all_iff)
  obtain m where m: "m \<in> set (mc db')" "member_key m = (mi_owner i, ?name)" "mm_hash m = ml_hash L secret" using rows(1) by blast
  have "verify_credential S L (jp_credential p) db' \<in> insert (Inr (Some m)) (range Inl)"
    using mesh_engine.verify_member [OF assms(1) m(1) rows(2) m(2,3) name(3,1,2,4)] unfolding names(2)
    by (cases "verify_credential S L (mi_owner i @ ''/'' @ ?name @ ''.'' @ secret) db'") auto
  moreover have "verify_credential S L (jp_credential p) db'' \<in> insert (Inr None) (range Inl)"
    if "remove_member S node_error (mm_owner m) (mm_name m) db' = (Inr (Inr b), db'')" for node_error b db''
  proof -
    have "remove_member S node_error (mi_owner i) ?name db' = (Inr (Inr b), db'')" using that m(2) by (simp add: member_key_def)
    from mesh_engine.removed_unknown [OF assms(1) this name(3,1,2,4)] show ?thesis unfolding names(2)
      by (cases "verify_credential S L (mi_owner i @ ''/'' @ ?name @ ''.'' @ secret) db''") auto
  qed
  ultimately show ?thesis using j m rows(3) names(1) by (intro exI [of _ i] exI [of _ m]) (force simp: member_key_def)
qed

definition joined_here :: mesh_mem where
  "joined_here = snd (serve_join mesh_mem_store lib_here (Some ask_here) (Inr ''a'') 1 (cloud_with [invite_here]))"

theorem joined_is_member_witness:
  "\<exists>m. mm_owner m @ ''/'' @ mm_name m = ''admin/box'' \<and>
     verify_credential mesh_mem_store lib_here ''admin/box.61'' joined_here \<in> insert (Inr (Some m)) (range Inl)"
proof -
  have "serve_join mesh_mem_store lib_here (Some ask_here) (Inr ''a'') 1 (cloud_with [invite_here])
      = (Joined \<lparr>jp_machine = ''admin/box'', jp_credential = ''admin/box.61''\<rparr>, joined_here)" by code_simp
  note j = joined_is_member [OF mesh_memory.mesh_engine_axioms _ this]
  have "list_all (\<lambda>i. mi_owner i \<noteq> [] \<and> CHR ''.'' \<notin> set (mi_owner i) \<and> CHR ''/'' \<notin> set (mi_owner i))
      (mrows (mm_invites (cloud_with [invite_here])))" by code_simp
  from j [OF this] obtain m where "mm_owner m @ ''/'' @ mm_name m = ''admin/box''"
    "verify_credential mesh_mem_store lib_here ''admin/box.61'' joined_here \<in> insert (Inr (Some m)) (range Inl)"
    unfolding join_response.simps by metis
  then show ?thesis by blast
qed

end
