(* ===== verification/MeshMember.thy ===== *)
theory MeshMember
  imports GoNet Settings
begin

text \<open>
  A machine's own side of a cloud (mesh/config.go, mesh/member.go): the role it plays, the invite it is handed, the
  membership it records, and the connection it keeps. Parameters: the settings of app.conf, the files of the data
  directory, JSON, \<open>url.Parse\<close>, PEM and X.509, the fingerprint of a certificate, and what HTTP and WebSocket calls
  came to.
\<close>

section \<open>The role\<close>

datatype role = Standalone | Hub | Member | Other string

definition role_of :: "string \<Rightarrow> role" where
  "role_of s =
     (if s = ''standalone'' then Standalone else if s = ''hub'' then Hub else if s = ''member'' then Member else Other s)"

text \<open>
  What there is of a state file: nothing, a name that \<open>Stat\<close> cannot look up, one that it finds and that cannot be
  read, or its bytes.
\<close>

datatype state_file = No_file | Hidden_file string | Unreadable_file string | File string

definition stat_ok :: "state_file \<Rightarrow> bool" where
  "stat_ok f = (case f of File _ \<Rightarrow> True | Unreadable_file _ \<Rightarrow> True | _ \<Rightarrow> False)"

record mesh_dir =
  md_path :: string
  md_member :: state_file
  md_hub :: state_file

record mesh_config =
  mk_role :: role
  mk_address :: string
  mk_port :: int
  mk_stun :: int
  mk_dir :: string
  mk_apiserver :: int
  mk_http :: int

datatype config_error =
    Bad_settings string | No_address | Bad_address string | Bad_role string

definition default_mesh_port :: int where "default_mesh_port = 20444"

definition default_stun_port :: int where "default_stun_port = 3478"

definition bare_address :: "string \<Rightarrow> bool" where
  "bare_address a \<longleftrightarrow> \<not> (CHR ''/'' \<in> set a \<or> CHR '':'' \<in> set a \<and> parse_ip a = None)"

text \<open>\<open>settings\<close> is the JSON of a hub's state file, \<open>None\<close> where it does not parse.\<close>

definition load_hub_settings :: "(string \<Rightarrow> string option) \<Rightarrow> state_file \<Rightarrow> config_error + string option" where
  "load_hub_settings settings f =
     (case f of
        No_file \<Rightarrow> Inr None
      | Hidden_file e \<Rightarrow> Inl (Bad_settings e)
      | Unreadable_file e \<Rightarrow> Inl (Bad_settings e)
      | File data \<Rightarrow> (case settings data of None \<Rightarrow> Inl (Bad_settings data) | Some a \<Rightarrow> Inr (Some a)))"

definition recorded_role ::
  "(string \<Rightarrow> string option) \<Rightarrow> mesh_dir \<Rightarrow> mesh_config \<Rightarrow> config_error + mesh_config" where
  "recorded_role settings d cfg =
     (if stat_ok (md_member d) then Inr (cfg\<lparr>mk_role := Member\<rparr>)
      else
        (case load_hub_settings settings (md_hub d) of
           Inl e \<Rightarrow> Inl e
         | Inr None \<Rightarrow> Inr cfg
         | Inr (Some a) \<Rightarrow> Inr (cfg\<lparr>mk_role := Hub, mk_address := if mk_address cfg = [] then a else mk_address cfg\<rparr>)))"

definition check_role :: "mesh_config \<Rightarrow> config_error + mesh_config" where
  "check_role cfg =
     (case mk_role cfg of
        Hub \<Rightarrow>
          if mk_address cfg = [] then Inl No_address
          else if \<not> bare_address (mk_address cfg) then Inl (Bad_address (mk_address cfg)) else Inr cfg
      | Other r \<Rightarrow> if r = [] then Inr (cfg\<lparr>mk_role := Standalone\<rparr>) else Inl (Bad_role r)
      | _ \<Rightarrow> Inr cfg)"

definition config_of ::
  "(string \<Rightarrow> string option) \<Rightarrow> settings \<Rightarrow> mesh_dir \<Rightarrow> int \<Rightarrow> config_error + mesh_config" where
  "config_of settings S d apiserver =
     (let cfg = \<lparr>mk_role = role_of (to_lower (trim_space (config_string_or S ''meshRole'' ''standalone''))),
                 mk_address = trim_space (config_string S ''meshPublicAddress''),
                 mk_port = config_int_or S ''meshPort'' default_mesh_port,
                 mk_stun = config_int_or S ''meshStunPort'' default_stun_port,
                 mk_dir = md_path d, mk_apiserver = apiserver, mk_http = config_int_or S ''httpport'' 20080\<rparr>
      in case (if trim_space (config_string S ''meshRole'') = [] then recorded_role settings d cfg else Inr cfg) of
           Inl e \<Rightarrow> Inl e
         | Inr cfg \<Rightarrow> check_role cfg)"

definition console_url :: "mesh_config \<Rightarrow> string" where
  "console_url c = ''http://'' @ join_host_port (mk_address c) (itoa (mk_http c)) @ ''/''"

definition public_url :: "mesh_config \<Rightarrow> string" where
  "public_url c = ''https://'' @ join_host_port (mk_address c) (itoa (mk_port c))"

text \<open>\<open>EnableHub\<close>: what it writes, if the directory can be made and written.\<close>

definition enable_hub ::
  "(string \<Rightarrow> string) \<Rightarrow> string option \<Rightarrow> mesh_dir \<Rightarrow> string \<Rightarrow> (string + mesh_dir)" where
  "enable_hub encode io_error d address =
     (let a = trim_space address in
      if a = [] \<or> \<not> bare_address a then
        Inl ''enter the IP address or host name other machines reach this one at, without a scheme or port''
      else (case io_error of Some e \<Rightarrow> Inl e | None \<Rightarrow> Inr (d\<lparr>md_hub := File (encode a)\<rparr>)))"

section \<open>The invite\<close>

definition invite_token :: "string \<Rightarrow> string \<Rightarrow> string \<Rightarrow> string" where
  "invite_token ca_hash invite secret = join ''.'' [''casos1'', trim_prefix ca_hash ''sha256:'', invite, secret]"

definition parse_invite_token :: "string \<Rightarrow> (string \<times> string \<times> string) option" where
  "parse_invite_token token =
     (case split_on (CHR ''.'') (trim_space token) of
        [p, h, i, s] \<Rightarrow> if p \<noteq> ''casos1'' \<or> h = [] \<or> i = [] \<or> s = [] then None else Some (h, i, s)
      | _ \<Rightarrow> None)"

section \<open>Joining\<close>

record membership =
  ms_hub :: string
  ms_ca :: string
  ms_machine :: string
  ms_credential :: string
  ms_console :: string
  ms_joined :: string

datatype join_failure =
    Not_an_invite | Bad_hub_address | Unreachable string | Not_a_cloud string | Bad_certificate string | Other_cloud string
  | Bad_ca | Refused string | Bad_answer | Not_saved string

text \<open>
  A PEM file is its blocks, in the order \<open>pem.Decode\<close> finds them; \<open>parse\<close> is \<open>x509.ParseCertificate\<close>.
\<close>

record pem_block =
  pb_type :: string
  pb_headers :: "(string \<times> string) list"
  pb_bytes :: string

text \<open>
  \<open>fetchPinnedCA\<close>: the status and body of the answer on an unauthenticated connection, accepted by the fingerprint of
  its first block, whatever follows it.
\<close>

definition pinned_ca ::
  "(string \<Rightarrow> pem_block list) \<Rightarrow> (string \<Rightarrow> 'cert option) \<Rightarrow> ('cert \<Rightarrow> string) \<Rightarrow> string \<Rightarrow> string \<Rightarrow> string + int \<times> string
     \<Rightarrow> join_failure + string" where
  "pinned_ca blocks parse ca_hash hub pin answer =
     (case answer of
        Inl e \<Rightarrow> Inl (Unreachable e)
      | Inr (status, data) \<Rightarrow>
          (case blocks data of
             [] \<Rightarrow> Inl (Not_a_cloud hub)
           | b # _ \<Rightarrow>
               if status \<noteq> 200 then Inl (Not_a_cloud hub)
               else
                 (case parse (pb_bytes b) of
                    None \<Rightarrow> Inl (Bad_certificate hub)
                  | Some c \<Rightarrow> if trim_prefix (ca_hash c) ''sha256:'' \<noteq> pin then Inl (Other_cloud hub) else Inr data)))"

text \<open>
  \<open>pinnedTLSConfig\<close>: the roots of a connection are what \<open>AppendCertsFromPEM\<close> makes of the whole answer, every block that
  is a certificate without headers and that it can parse; an answer with none is refused.
\<close>

definition certs_in :: "(string \<Rightarrow> pem_block list) \<Rightarrow> (string \<Rightarrow> 'cert option) \<Rightarrow> string \<Rightarrow> 'cert list" where
  "certs_in blocks parse data =
     List.map_filter (\<lambda>b. if pb_type b \<noteq> ''CERTIFICATE'' \<or> pb_headers b \<noteq> [] then None else parse (pb_bytes b)) (blocks data)"

definition pinned_roots :: "(string \<Rightarrow> pem_block list) \<Rightarrow> (string \<Rightarrow> 'cert option) \<Rightarrow> string \<Rightarrow> 'cert list option" where
  "pinned_roots blocks parse data = (case certs_in blocks parse data of [] \<Rightarrow> None | cs \<Rightarrow> Some cs)"

text \<open>
  What joining asks of its surroundings: the address parsed into scheme, host and text; PEM and certificates; the two
  requests, the second over the roots it trusts; the answer's JSON; whether the membership could be saved. And the
  requests it made, in their order.
\<close>

record 'cert join_world =
  jw_url :: "string \<Rightarrow> (string \<times> string \<times> string) option"
  jw_blocks :: "string \<Rightarrow> pem_block list"
  jw_parse :: "string \<Rightarrow> 'cert option"
  jw_ca_hash :: "'cert \<Rightarrow> string"
  jw_get_ca :: "string \<Rightarrow> string + int \<times> string"
  jw_post :: "'cert list \<Rightarrow> string \<Rightarrow> string \<Rightarrow> string \<Rightarrow> string \<Rightarrow> string \<Rightarrow> string + int \<times> string"
  jw_answer :: "string \<Rightarrow> (string \<times> string \<times> string) option"
  jw_now :: string
  jw_save :: "membership \<Rightarrow> string option"

datatype 'cert member_request =
    Get_ca string
  | Post_join "'cert list" string string string string string

definition hub_address :: "'cert join_world \<Rightarrow> string \<Rightarrow> string option" where
  "hub_address w url =
     (case jw_url w (trim_right_set (trim_space url) ''/'') of
        None \<Rightarrow> None
      | Some (scheme, host, text) \<Rightarrow> if scheme \<noteq> ''https'' \<or> host = [] then None else Some text)"

definition join_over ::
  "'cert join_world \<Rightarrow> 'cert list \<Rightarrow> string \<Rightarrow> string \<Rightarrow> string \<Rightarrow> string \<Rightarrow> string \<Rightarrow> string \<Rightarrow> join_failure + membership" where
  "join_over w roots ca hub invite secret hostname os =
     (case jw_post w roots hub invite secret hostname os of
        Inl e \<Rightarrow> Inl (Unreachable e)
      | Inr (status, data) \<Rightarrow>
          if status \<noteq> 200 then Inl (Refused (trim_space data))
          else
            (case jw_answer w data of
               None \<Rightarrow> Inl Bad_answer
             | Some (machine, credential, console) \<Rightarrow>
                 if credential = [] then Inl Bad_answer
                 else
                   (let m = \<lparr>ms_hub = hub, ms_ca = ca, ms_machine = machine, ms_credential = credential,
                             ms_console = console, ms_joined = jw_now w\<rparr>
                    in case jw_save w m of Some e \<Rightarrow> Inl (Not_saved e) | None \<Rightarrow> Inr m)))"

definition join_cloud ::
  "'cert join_world \<Rightarrow> string \<Rightarrow> string \<Rightarrow> string \<Rightarrow> string \<Rightarrow> (join_failure + membership) \<times> 'cert member_request list" where
  "join_cloud w url token hostname os =
     (case parse_invite_token token of
        None \<Rightarrow> (Inl Not_an_invite, [])
      | Some (pin, invite, secret) \<Rightarrow>
          (case hub_address w url of
             None \<Rightarrow> (Inl Bad_hub_address, [])
           | Some hub \<Rightarrow>
               (case pinned_ca (jw_blocks w) (jw_parse w) (jw_ca_hash w) hub pin (jw_get_ca w hub) of
                  Inl e \<Rightarrow> (Inl e, [Get_ca hub])
                | Inr ca \<Rightarrow>
                    (case pinned_roots (jw_blocks w) (jw_parse w) ca of
                       None \<Rightarrow> (Inl Bad_ca, [Get_ca hub])
                     | Some roots \<Rightarrow>
                         (join_over w roots ca hub invite secret hostname os,
                          [Get_ca hub, Post_join roots hub invite secret hostname os])))))"

text \<open>\<open>LoadMembership\<close> and \<open>RemoveMembership\<close> on the state file, whose removal may fail.\<close>

definition load_membership :: "(string \<Rightarrow> membership option) \<Rightarrow> mesh_dir \<Rightarrow> string + membership option" where
  "load_membership decode d =
     (case md_member d of
        No_file \<Rightarrow> Inr None
      | Hidden_file e \<Rightarrow> Inl e
      | Unreadable_file e \<Rightarrow> Inl e
      | File data \<Rightarrow> (case decode data of None \<Rightarrow> Inl data | Some m \<Rightarrow> Inr (Some m)))"

definition save_membership ::
  "(membership \<Rightarrow> string) \<Rightarrow> string option \<Rightarrow> membership \<Rightarrow> mesh_dir \<Rightarrow> string option \<times> mesh_dir" where
  "save_membership encode io_error m d =
     (case io_error of Some e \<Rightarrow> (Some e, d) | None \<Rightarrow> (None, d\<lparr>md_member := File (encode m)\<rparr>))"

definition remove_membership :: "string option \<Rightarrow> mesh_dir \<Rightarrow> string option \<times> mesh_dir" where
  "remove_membership io_error d =
     (case md_member d of
        No_file \<Rightarrow> (None, d)
      | _ \<Rightarrow> (case io_error of Some e \<Rightarrow> (Some e, d) | None \<Rightarrow> (None, d\<lparr>md_member := No_file\<rparr>)))"

text \<open>\<open>Leave\<close>: a cloud that no longer knows the machine counts as left.\<close>

definition leave_cloud ::
  "(string \<Rightarrow> pem_block list) \<Rightarrow> (string \<Rightarrow> 'cert option) \<Rightarrow> ('cert list \<Rightarrow> string + int \<times> string \<times> string) \<Rightarrow> membership \<Rightarrow> string option" where
  "leave_cloud blocks parse post m =
     (case pinned_roots blocks parse (ms_ca m) of
        None \<Rightarrow> Some ''the cloud's CA is unreadable''
      | Some roots \<Rightarrow>
          (case post roots of
             Inl e \<Rightarrow> Some e
           | Inr (status, shown, body) \<Rightarrow>
               if status \<noteq> 200 \<and> status \<noteq> 401 then Some (shown @ '': '' @ trim_space body) else None))"

section \<open>Staying connected\<close>

text \<open>
  \<open>RunAgent\<close>: each round is one connection, how long it lasted and whether the context had ended by then and during
  the wait; the result is the waits in seconds. Durations are in nanoseconds.
\<close>

record agent_round =
  rd_lasted :: int
  rd_ended :: bool
  rd_ended_waiting :: bool

fun run_agent :: "int \<Rightarrow> agent_round list \<Rightarrow> int list" where
  "run_agent backoff [] = []"
| "run_agent backoff (r # rs) =
     (if rd_ended r then []
      else
        (let backoff = (if rd_lasted r > 60 * 1000000000 then 1000000000 else backoff) in
         if rd_ended_waiting r then [backoff]
         else backoff # run_agent (min (backoff * 2) (60 * 1000000000)) rs))"

section \<open>What is promised\<close>

lemma token_parts:
  assumes "list_all visible (h @ i @ s)" "CHR ''.'' \<notin> set (trim_prefix h ''sha256:'' @ i @ s)"
    and "trim_prefix h ''sha256:'' \<noteq> []" "i \<noteq> []" "s \<noteq> []"
  shows "parse_invite_token (invite_token h i s) = Some (trim_prefix h ''sha256:'', i, s)"
proof -
  let ?h = "trim_prefix h ''sha256:''"
  have t: "invite_token h i s = ''casos1'' @ CHR ''.'' # ?h @ CHR ''.'' # i @ CHR ''.'' # s"
    by (simp add: invite_token_def)
  have "set ?h \<subseteq> set h" by (auto simp: trim_prefix_def dest: in_set_dropD)
  moreover have "list_all visible ''casos1.''" by code_simp
  ultimately have "list_all visible (invite_token h i s)" using assms(1) by (auto simp: t list_all_iff)
  then have "trim_space (invite_token h i s) = invite_token h i s" by (rule trim_space_visible)
  moreover have "split_on (CHR ''.'') (invite_token h i s) = [''casos1'', ?h, i, s]"
    using assms(2) by (simp add: t split_on_append split_on_single)
  ultimately show ?thesis using assms(3-5) by (simp add: parse_invite_token_def)
qed

lemma pinned_caD:
  "pinned_ca blocks parse ca_hash hub pin answer = Inr ca \<Longrightarrow>
    \<exists>b bs c. answer = Inr (200, ca) \<and> blocks ca = b # bs \<and> parse (pb_bytes b) = Some c \<and> trim_prefix (ca_hash c) ''sha256:'' = pin"
  by (auto simp: pinned_ca_def split: sum.splits option.splits list.splits if_splits)

lemma pinned_roots_iff: "pinned_roots blocks parse data = Some roots \<longleftrightarrow> roots = certs_in blocks parse data \<and> roots \<noteq> []"
  by (auto simp: pinned_roots_def split: list.split)

lemma certs_single: "blocks data = [b] \<Longrightarrow> parse (pb_bytes b) = Some c \<Longrightarrow> certs_in blocks parse data \<in> {[], [c]}"
  by (simp add: certs_in_def map_filter_simps)

lemma join_overD:
  "join_over w roots ca hub i s hostname os = Inr m \<Longrightarrow>
    ms_hub m = hub \<and> ms_ca m = ca \<and> ms_credential m \<noteq> [] \<and> jw_save w m = None \<and>
    (\<exists>body. jw_post w roots hub i s hostname os = Inr (200, body) \<and> jw_answer w body = Some (ms_machine m, ms_credential m, ms_console m))"
  by (auto simp: join_over_def Let_def split: sum.splits option.splits if_splits)

lemma join_cloud_cases:
  assumes "parse_invite_token token = Some (pin, i, s)" "join_cloud w url token hostname os = (r, sent)"
  obtains "\<nexists>m. r = Inr m" "\<forall>roots hub i s h o'. Post_join roots hub i s h o' \<notin> set sent"
  | hub ca b bs c roots where "hub_address w url = Some hub" "jw_get_ca w hub = Inr (200, ca)" "jw_blocks w ca = b # bs"
      "jw_parse w (pb_bytes b) = Some c" "trim_prefix (jw_ca_hash w c) ''sha256:'' = pin"
      "roots = certs_in (jw_blocks w) (jw_parse w) ca" "roots \<noteq> []"
      "sent = [Get_ca hub, Post_join roots hub i s hostname os]" "r = join_over w roots ca hub i s hostname os"
proof (cases "\<exists>hub ca roots. hub_address w url = Some hub \<and>
    pinned_ca (jw_blocks w) (jw_parse w) (jw_ca_hash w) hub pin (jw_get_ca w hub) = Inr ca \<and>
    pinned_roots (jw_blocks w) (jw_parse w) ca = Some roots")
  case True
  then obtain hub ca roots where t: "hub_address w url = Some hub"
    "pinned_ca (jw_blocks w) (jw_parse w) (jw_ca_hash w) hub pin (jw_get_ca w hub) = Inr ca"
    "pinned_roots (jw_blocks w) (jw_parse w) ca = Some roots" by blast
  from pinned_caD [OF t(2)] obtain b bs c where b: "jw_get_ca w hub = Inr (200, ca)" "jw_blocks w ca = b # bs"
    "jw_parse w (pb_bytes b) = Some c" "trim_prefix (jw_ca_hash w c) ''sha256:'' = pin" by blast
  moreover from t(3) have "roots = certs_in (jw_blocks w) (jw_parse w) ca" "roots \<noteq> []" unfolding pinned_roots_iff by blast+
  moreover from assms t have "sent = [Get_ca hub, Post_join roots hub i s hostname os]" "r = join_over w roots ca hub i s hostname os"
    by (simp_all add: join_cloud_def)
  ultimately show ?thesis using that(2) t(1) by blast
next
  case False
  with assms show ?thesis
    by (intro that(1)) (auto simp: join_cloud_def split: option.splits sum.splits)
qed

text \<open>
  C33: whatever comes of it, a machine that joins with an invite sends the invite and its secret at most once, to the
  address it was given, after that address sent an answer whose first block is a certificate with the fingerprint in the
  invite, over a connection whose roots are the certificates of that answer; when the answer is this block alone, as a
  hub sends it, the one root is the certificate the invite was made for. And when it has joined, the credential came
  back over that connection, and it is recorded with that answer as the CA.
\<close>

theorem joined_pinned:
  assumes "list_all visible (h @ i @ s)" "CHR ''.'' \<notin> set (trim_prefix h ''sha256:'' @ i @ s)"
    and "trim_prefix h ''sha256:'' \<noteq> []" "i \<noteq> []" "s \<noteq> []"
    and "join_cloud w url (invite_token h i s) hostname os = (r, sent)"
  shows "(\<forall>roots hub i' s' h' os'. Post_join roots hub i' s' h' os' \<in> set sent \<longrightarrow>
      hub_address w url = Some hub \<and> sent = [Get_ca hub, Post_join roots hub i s hostname os] \<and>
      (\<exists>ca b bs c. jw_get_ca w hub = Inr (200, ca) \<and> jw_blocks w ca = b # bs \<and> jw_parse w (pb_bytes b) = Some c \<and>
         trim_prefix (jw_ca_hash w c) ''sha256:'' = trim_prefix h ''sha256:'' \<and>
         roots = certs_in (jw_blocks w) (jw_parse w) ca \<and> (bs = [] \<longrightarrow> roots = [c]) \<and>
         (\<forall>m. r = Inr m \<longrightarrow> ms_hub m = hub \<and> ms_ca m = ca \<and> ms_credential m \<noteq> [] \<and> jw_save w m = None \<and>
            (\<exists>body. jw_post w roots hub i s hostname os = Inr (200, body) \<and>
               jw_answer w body = Some (ms_machine m, ms_credential m, ms_console m))))) \<and>
    (\<forall>m. r = Inr m \<longrightarrow> (\<exists>roots. Post_join roots (ms_hub m) i s hostname os \<in> set sent))"
proof (cases rule: join_cloud_cases [OF token_parts [OF assms(1-5)] assms(6)])
  case 1
  then show ?thesis by blast
next
  case (2 hub ca b bs c roots)
  have "bs = [] \<longrightarrow> roots = [c]" using certs_single [of "jw_blocks w" ca b "jw_parse w" c] 2(3,4,6,7) by auto
  moreover note over = join_overD [of w roots ca hub i s hostname os, folded 2(9)]
  ultimately show ?thesis using 2(1-7) over unfolding 2(8) by (auto dest: over)
qed

text \<open>A hub's answer that someone on the way has added a CA of his own to.\<close>

definition certificate_here :: "string \<Rightarrow> pem_block" where
  "certificate_here c = \<lparr>pb_type = ''CERTIFICATE'', pb_headers = [], pb_bytes = c\<rparr>"

definition world_here :: "string join_world" where
  "world_here =
     \<lparr>jw_url = (\<lambda>u. Some (''https'', ''hub'', u)), jw_blocks = (\<lambda>d. map certificate_here (split_on (CHR '' '') d)), jw_parse = Some,
      jw_ca_hash = (\<lambda>c. ''sha256:'' @ c), jw_get_ca = (\<lambda>_. Inr (200, ''ab his'')),
      jw_post = (\<lambda>roots hub i s h os. Inr (200, s)),
      jw_answer = (\<lambda>b. Some (''admin/box'', b, [])), jw_now = [], jw_save = (\<lambda>_. None)\<rparr>"

theorem joined_pinned_witness:
  "(let (r, sent) = join_cloud world_here ''https://hub/'' (invite_token ''sha256:ab'' ''i'' ''s'') ''box'' ''linux'' in
    sent = [Get_ca ''https://hub'', Post_join [''ab'', ''his''] ''https://hub'' ''i'' ''s'' ''box'' ''linux''] \<and>
    hub_address world_here ''https://hub/'' = Some ''https://hub'')"
proof -
  let ?sent = "[Get_ca ''https://hub'', Post_join [''ab'', ''his''] ''https://hub'' ''i'' ''s'' ''box'' ''linux'']"
  let ?m = "\<lparr>ms_hub = ''https://hub'', ms_ca = ''ab his'', ms_machine = ''admin/box'', ms_credential = ''s'', ms_console = [],
      ms_joined = []\<rparr>"
  have j: "join_cloud world_here ''https://hub/'' (invite_token ''sha256:ab'' ''i'' ''s'') ''box'' ''linux'' = (Inr ?m, ?sent)"
    by code_simp
  have v: "list_all visible (''sha256:ab'' @ ''i'' @ ''s'')" by code_simp
  have p: "trim_prefix ''sha256:ab'' ''sha256:'' = ''ab''" by code_simp
  show ?thesis using joined_pinned [OF v _ _ _ _ j] unfolding p j by simp
qed

text \<open>
  A machine that was made a hub is one after its next start, at the address that was given, if neither its settings
  nor a membership say otherwise.
\<close>

theorem enabled_hub_starts:
  assumes "enable_hub encode io_error d address = Inr d'"
    and "settings (encode (trim_space address)) = Some (trim_space address)" "\<not> stat_ok (md_member d)"
    and "trim_space (config_string S ''meshRole'') = []" "trim_space (config_string S ''meshPublicAddress'') = []"
  shows "\<exists>cfg. config_of settings S d' apiserver = Inr cfg \<and> mk_role cfg = Hub \<and> mk_address cfg = trim_space address"
proof -
  let ?a = "trim_space address"
  have e: "?a \<noteq> []" "bare_address ?a" "d' = d\<lparr>md_hub := File (encode ?a)\<rparr>"
    using assms(1) by (auto simp: enable_hub_def Let_def split: if_splits option.splits)
  then show ?thesis
    using assms(2-5) by (simp add: config_of_def Let_def recorded_role_def load_hub_settings_def check_role_def)
qed

definition bare_settings :: settings where
  "bare_settings = \<lparr>se_env = (\<lambda>_. None), se_file = (\<lambda>_. []), se_os = ''linux''\<rparr>"

theorem enabled_hub_starts_witness:
  "\<exists>cfg. config_of Some bare_settings \<lparr>md_path = [], md_member = No_file, md_hub = File ''1.2.3.4''\<rparr> 20443 = Inr cfg \<and>
     mk_role cfg = Hub \<and> mk_address cfg = trim_space '' 1.2.3.4''"
proof -
  have "enable_hub id None \<lparr>md_path = [], md_member = No_file, md_hub = No_file\<rparr> '' 1.2.3.4'' =
      Inr \<lparr>md_path = [], md_member = No_file, md_hub = File ''1.2.3.4''\<rparr>" by code_simp
  note start = enabled_hub_starts [OF this, of Some bare_settings 20443]
  have "trim_space (config_string bare_settings ''meshRole'') = []"
    "trim_space (config_string bare_settings ''meshPublicAddress'') = []" by code_simp+
  with start show ?thesis by (simp add: stat_ok_def)
qed

text \<open>The waits between two connections double from one second and stay within a minute.\<close>

lemma run_agent_waits:
  "1000000000 \<le> b \<Longrightarrow> b \<le> 60000000000 \<Longrightarrow> list_all (\<lambda>w. 1000000000 \<le> w \<and> w \<le> 60000000000) (run_agent b rs)"
  by (induction b rs rule: run_agent.induct) (auto simp: Let_def)

lemma config_role: "config_of settings S d p = Inr cfg \<Longrightarrow>
    mk_role cfg \<in> {Standalone, Hub, Member} \<and> (mk_role cfg = Hub \<longrightarrow> mk_address cfg \<noteq> [] \<and> bare_address (mk_address cfg))"
  by (auto simp: config_of_def Let_def check_role_def split: sum.splits role.splits if_splits)

end
