(* ===== verification/MeshAgent.thy ===== *)
theory MeshAgent
  imports MeshMember "HOL-Library.Word"
begin

text \<open>
  The hub's end of the connections its members hold open (mesh/agent.go): the registry of sessions, the requests a
  session has under way with their 64-bit numbers, and the answers read from the connection. What goroutines do is a
  sequence of steps, each what happens under one lock; when the connection fails, a context ends or a member answers
  is left open. Sending an answer into the channel of a call, which has room for the one answer it can get, is part of
  the step that takes the call from the table.
\<close>

section \<open>Messages\<close>

record agent_request =
  ag_id :: "64 word"
  ag_op :: string
  ag_command :: string
  ag_path :: string
  ag_content :: string
  ag_mode :: string
  ag_timeout :: int

record agent_response =
  an_id :: "64 word"
  an_output :: string
  an_error :: string

text \<open>The member's answer to a request it ran (mesh/member.go).\<close>

definition agent_reply :: "agent_request \<Rightarrow> string \<times> string option \<Rightarrow> agent_response" where
  "agent_reply req outcome =
     \<lparr>an_id = ag_id req, an_output = fst outcome, an_error = (case snd outcome of None \<Rightarrow> [] | Some e \<Rightarrow> e)\<rparr>"

text \<open>The number and the time limit a request is sent with; \<open>left\<close> is the whole seconds left until a deadline.\<close>

definition numbered_request :: "64 word \<Rightarrow> int option \<Rightarrow> agent_request \<Rightarrow> agent_request" where
  "numbered_request n left req =
     req\<lparr>ag_id := n, ag_timeout := (case left of None \<Rightarrow> ag_timeout req | Some s \<Rightarrow> s + 1)\<rparr>"

section \<open>Sessions and calls\<close>

text \<open>A session is open until \<open>done\<close> is closed, and over once the connection is closed and the registry cleared.\<close>

datatype session_phase = Open | Closing | Over

record agent_session =
  as_member :: string
  as_next :: "64 word"
  as_pending :: "64 word \<Rightarrow> nat option"
  as_phase :: session_phase
  as_close_asked :: bool
  as_reading :: bool

datatype agent_result = Answer agent_response | Offline | Send_failed | Given_up

record agent_call =
  al_session :: nat
  al_id :: "64 word option"
  al_sent :: bool
  al_channel :: "agent_response option"
  al_result :: "agent_result option"

text \<open>
  A call that found its session closed has no number, and its result at once. \<open>ag_received\<close> records what was read from the connections; the code keeps no such record.\<close>

record agents =
  ag_registry :: "string \<Rightarrow> nat option"
  ag_sessions :: "agent_session list"
  ag_calls :: "agent_call list"
  ag_received :: "(nat \<times> agent_response) list"

definition no_agents :: agents where
  "no_agents = \<lparr>ag_registry = (\<lambda>_. None), ag_sessions = [], ag_calls = [], ag_received = []\<rparr>"

definition on_session :: "nat \<Rightarrow> (agent_session \<Rightarrow> agent_session) \<Rightarrow> agents \<Rightarrow> agents" where
  "on_session i f A = A\<lparr>ag_sessions := (ag_sessions A)[i := f (ag_sessions A ! i)]\<rparr>"

definition on_call :: "nat \<Rightarrow> (agent_call \<Rightarrow> agent_call) \<Rightarrow> agents \<Rightarrow> agents" where
  "on_call k f A = A\<lparr>ag_calls := (ag_calls A)[k := f (ag_calls A ! k)]\<rparr>"

text \<open>\<open>Agent\<close>, and \<open>AcceptAgent\<close> up to the call that closes the session it replaced.\<close>

definition agent_of :: "string \<Rightarrow> agents \<Rightarrow> nat option" where
  "agent_of member A = ag_registry A member"

definition new_session :: "string \<Rightarrow> agent_session" where
  "new_session member =
     \<lparr>as_member = member, as_next = 0, as_pending = (\<lambda>_. None), as_phase = Open, as_close_asked = False, as_reading = True\<rparr>"

definition ask_close :: "nat \<Rightarrow> agents \<Rightarrow> agents" where
  "ask_close i = on_session i (\<lambda>s. s\<lparr>as_close_asked := True\<rparr>)"

definition accept_agent :: "string \<Rightarrow> agents \<Rightarrow> agents" where
  "accept_agent member A =
     (let A' = A\<lparr>ag_registry := (ag_registry A)(member \<mapsto> length (ag_sessions A)),
                 ag_sessions := ag_sessions A @ [new_session member]\<rparr>
      in case ag_registry A member of None \<Rightarrow> A' | Some old \<Rightarrow> ask_close old A')"

definition drop_agent :: "string \<Rightarrow> agents \<Rightarrow> agents" where
  "drop_agent member A = (case agent_of member A of None \<Rightarrow> A | Some i \<Rightarrow> ask_close i A)"

text \<open>\<open>close\<close>: under the lock, then the connection and the registry, which may name a newer session by then.\<close>

definition close_done :: "nat \<Rightarrow> agents \<Rightarrow> agents" where
  "close_done i = on_session i (\<lambda>s. if as_phase s = Open then s\<lparr>as_phase := Closing\<rparr> else s)"

definition close_end :: "nat \<Rightarrow> agents \<Rightarrow> agents" where
  "close_end i A =
     (let member = as_member (ag_sessions A ! i);
          A' = on_session i (\<lambda>s. s\<lparr>as_phase := Over\<rparr>) A
      in if ag_registry A member = Some i then A'\<lparr>ag_registry := (ag_registry A)(member := None)\<rparr> else A')"

text \<open>\<open>readLoop\<close>: one answer, and the end of the loop.\<close>

definition read_answer :: "nat \<Rightarrow> agent_response \<Rightarrow> agents \<Rightarrow> agents" where
  "read_answer i r A =
     (let A' = (on_session i (\<lambda>s. s\<lparr>as_pending := (as_pending s)(an_id r := None)\<rparr>) A)\<lparr>ag_received := ag_received A @ [(i, r)]\<rparr>
      in case as_pending (ag_sessions A ! i) (an_id r) of
           None \<Rightarrow> A'
         | Some k \<Rightarrow> on_call k (\<lambda>c. c\<lparr>al_channel := Some r\<rparr>) A')"

definition stop_reading :: "nat \<Rightarrow> agents \<Rightarrow> agents" where
  "stop_reading i A = ask_close i (on_session i (\<lambda>s. s\<lparr>as_reading := False\<rparr>) A)"

text \<open>\<open>Call\<close>: entering the table, sending, and leaving with a result.\<close>

definition start_call :: "nat \<Rightarrow> agents \<Rightarrow> agents" where
  "start_call i A =
     (let s = ag_sessions A ! i; n = as_next s + 1 in
      if as_phase s \<noteq> Open then
        A\<lparr>ag_calls := ag_calls A @ [\<lparr>al_session = i, al_id = None, al_sent = False, al_channel = None, al_result = Some Offline\<rparr>]\<rparr>
      else
        (on_session i (\<lambda>s. s\<lparr>as_next := n, as_pending := (as_pending s)(n \<mapsto> length (ag_calls A))\<rparr>) A)
          \<lparr>ag_calls := ag_calls A @ [\<lparr>al_session = i, al_id = Some n, al_sent = False, al_channel = None, al_result = None\<rparr>]\<rparr>)"

definition finish_call :: "nat \<Rightarrow> agent_result \<Rightarrow> agents \<Rightarrow> agents" where
  "finish_call k res A =
     (let c = ag_calls A ! k in
      on_session (al_session c) (\<lambda>s. s\<lparr>as_pending := (as_pending s)(the (al_id c) := None)\<rparr>)
        (on_call k (\<lambda>c. c\<lparr>al_result := Some res\<rparr>) A))"

definition waiting :: "agents \<Rightarrow> nat \<Rightarrow> bool" where
  "waiting A k \<longleftrightarrow> k < length (ag_calls A) \<and> al_result (ag_calls A ! k) = None"

inductive agent_step :: "agents \<Rightarrow> agents \<Rightarrow> bool" where
  accept: "agent_step A (accept_agent member A)"
| drop: "agent_step A (drop_agent member A)"
| closing: "i < length (ag_sessions A) \<Longrightarrow> as_close_asked (ag_sessions A ! i) \<Longrightarrow> as_phase (ag_sessions A ! i) = Open
    \<Longrightarrow> agent_step A (close_done i A)"
| closed: "i < length (ag_sessions A) \<Longrightarrow> as_phase (ag_sessions A ! i) = Closing \<Longrightarrow> agent_step A (close_end i A)"
| ping_failed: "i < length (ag_sessions A) \<Longrightarrow> agent_step A (ask_close i A)"
| answered: "i < length (ag_sessions A) \<Longrightarrow> as_reading (ag_sessions A ! i) \<Longrightarrow> agent_step A (read_answer i r A)"
| hung_up: "i < length (ag_sessions A) \<Longrightarrow> agent_step A (stop_reading i A)"
| call: "i < length (ag_sessions A) \<Longrightarrow> agent_step A (start_call i A)"
| sent: "waiting A k \<Longrightarrow> \<not> al_sent (ag_calls A ! k) \<Longrightarrow> agent_step A (on_call k (\<lambda>c. c\<lparr>al_sent := True\<rparr>) A)"
| unsent: "waiting A k \<Longrightarrow> \<not> al_sent (ag_calls A ! k)
    \<Longrightarrow> agent_step A (finish_call k Send_failed (ask_close (al_session (ag_calls A ! k)) A))"
| returns: "waiting A k \<Longrightarrow> al_sent (ag_calls A ! k) \<Longrightarrow> al_channel (ag_calls A ! k) = Some r
    \<Longrightarrow> agent_step A (finish_call k (Answer r) A)"
| lost: "waiting A k \<Longrightarrow> al_sent (ag_calls A ! k) \<Longrightarrow> as_phase (ag_sessions A ! al_session (ag_calls A ! k)) \<noteq> Open
    \<Longrightarrow> agent_step A (finish_call k Offline A)"
| given_up: "waiting A k \<Longrightarrow> al_sent (ag_calls A ! k) \<Longrightarrow> agent_step A (finish_call k Given_up A)"

text \<open>What a runner makes of a call (deploy/mesh_agent.go); \<open>None\<close>: the member had no session.\<close>

datatype runner_error = No_session | Session_error agent_result | Command_error string

definition runner_call :: "agent_result option \<Rightarrow> string \<times> runner_error option" where
  "runner_call res =
     (case res of
        None \<Rightarrow> ([], Some No_session)
      | Some (Answer r) \<Rightarrow> (an_output r, if an_error r \<noteq> [] then Some (Command_error (an_error r)) else None)
      | Some e \<Rightarrow> ([], Some (Session_error e)))"

section \<open>The numbers of calls\<close>

definition heads :: "agents \<Rightarrow> (nat \<times> 64 word option) list" where
  "heads A = map (\<lambda>c. (al_session c, al_id c)) (ag_calls A)"

definition numbers :: "nat \<Rightarrow> (nat \<times> 64 word option) list \<Rightarrow> nat" where
  "numbers i hs = length (filter (\<lambda>h. fst h = i \<and> snd h \<noteq> None) hs)"

definition heads_ok :: "(nat \<times> 64 word option) list \<Rightarrow> bool" where
  "heads_ok hs \<longleftrightarrow> (\<forall>k < length hs. \<forall>x. snd (hs ! k) = Some x \<longrightarrow> x = of_nat (numbers (fst (hs ! k)) (take (Suc k) hs)))"

lemma heads_snoc:
  assumes "heads_ok hs" "\<And>x. n = Some x \<Longrightarrow> x = of_nat (numbers i hs) + 1"
  shows "heads_ok (hs @ [(i, n)])"
  using assms by (auto simp: heads_ok_def nth_append less_Suc_eq numbers_def)

lemma numbers_less:
  assumes "k1 < k2" "k2 < length hs" "fst (hs ! k2) = i" "snd (hs ! k2) = Some x"
  shows "numbers i (take (Suc k1) hs) < numbers i (take (Suc k2) hs)"
proof -
  have "take k2 hs = take (Suc k1) hs @ drop (Suc k1) (take k2 hs)"
    using append_take_drop_id [of "Suc k1" "take k2 hs"] assms(1) by (simp add: min_absorb2 min_def)
  then have "numbers i (take k2 hs) = numbers i (take (Suc k1) hs) + numbers i (drop (Suc k1) (take k2 hs))"
    unfolding numbers_def by (metis filter_append length_append)
  then have "numbers i (take (Suc k1) hs) \<le> numbers i (take k2 hs)" by simp
  moreover have "numbers i (take (Suc k2) hs) = Suc (numbers i (take k2 hs))"
    using assms by (simp add: numbers_def take_Suc_conv_app_nth)
  ultimately show ?thesis by simp
qed

text \<open>Two calls of a session have the same number only after 2 to the 64 calls.\<close>

lemma heads_distinct:
  assumes "heads_ok hs" "length hs < 2 ^ 64" "k1 < length hs" "k2 < length hs" "hs ! k1 = (i, Some x)" "hs ! k2 = (i, Some x)"
  shows "k1 = k2"
proof -
  have "numbers i (take (Suc k) hs) < 2 ^ 64" for k
  proof -
    have "numbers i (take (Suc k) hs) \<le> length (take (Suc k) hs)" unfolding numbers_def by (rule length_filter_le)
    then show ?thesis using assms(2) by simp
  qed
  moreover have "(of_nat (numbers i (take (Suc k1) hs)) :: 64 word) = of_nat (numbers i (take (Suc k2) hs))"
    using assms(1,3,4) unfolding heads_ok_def by (metis assms(5,6) fst_conv snd_conv)
  ultimately have "numbers i (take (Suc k1) hs) = numbers i (take (Suc k2) hs)"
    by (simp add: word_of_nat_eq_iff take_bit_nat_eq_self)
  then show ?thesis
    using numbers_less [of k1 k2 hs i x] numbers_less [of k2 k1 hs i x] assms by (cases k1 k2 rule: linorder_cases) auto
qed

section \<open>What holds of the sessions and calls\<close>

definition call_ok :: "(nat \<times> agent_response) list \<Rightarrow> agent_call \<Rightarrow> bool" where
  "call_ok got c \<longleftrightarrow> (\<forall>r. al_channel c = Some r \<or> al_result c = Some (Answer r) \<longrightarrow>
       al_id c = Some (an_id r) \<and> (al_session c, r) \<in> set got) \<and> (al_result c = None \<longrightarrow> al_id c \<noteq> None)"

definition session_ok :: "(nat \<times> 64 word option) list \<Rightarrow> nat \<Rightarrow> agent_session \<Rightarrow> bool" where
  "session_ok hs i s \<longleftrightarrow> as_next s = of_nat (numbers i hs) \<and>
     (\<forall>x k. as_pending s x = Some k \<longrightarrow> k < length hs \<and> hs ! k = (i, Some x))"

definition agents_ok :: "agents \<Rightarrow> bool" where
  "agents_ok A \<longleftrightarrow> heads_ok (heads A) \<and> (\<forall>c \<in> set (ag_calls A). al_session c < length (ag_sessions A) \<and> call_ok (ag_received A) c) \<and>
     (\<forall>i < length (ag_sessions A). session_ok (heads A) i (ag_sessions A ! i))"

lemma agents_fields [simp]:
  "ag_calls (on_session i f A) = ag_calls A" "ag_received (on_session i f A) = ag_received A"
  "ag_registry (on_session i f A) = ag_registry A" "length (ag_sessions (on_session i f A)) = length (ag_sessions A)"
  "ag_sessions (on_call k g A) = ag_sessions A" "ag_received (on_call k g A) = ag_received A"
  "ag_registry (on_call k g A) = ag_registry A" "length (ag_calls (on_call k g A)) = length (ag_calls A)"
  "heads (on_session i f A) = heads A" "heads (A\<lparr>ag_sessions := ss\<rparr>) = heads A" "heads (A\<lparr>ag_registry := m\<rparr>) = heads A"
  "heads (A\<lparr>ag_received := rs\<rparr>) = heads A" "length (heads A) = length (ag_calls A)" "waiting (on_session i f A) = waiting A"
  by (auto simp: on_session_def on_call_def heads_def waiting_def fun_eq_iff)

lemma on_session_nth:
  "j < length (ag_sessions A) \<Longrightarrow> ag_sessions (on_session i f A) ! j = (if j = i then f (ag_sessions A ! i) else ag_sessions A ! j)"
  by (auto simp: on_session_def nth_list_update)

lemma on_call_nth:
  "j < length (ag_calls A) \<Longrightarrow> ag_calls (on_call k f A) ! j = (if j = k then f (ag_calls A ! k) else ag_calls A ! j)"
  by (auto simp: on_call_def nth_list_update)

lemma heads_on_call: "(\<And>c. al_session (f c) = al_session c \<and> al_id (f c) = al_id c) \<Longrightarrow> heads (on_call k f A) = heads A"
  by (rule nth_equalityI) (auto simp: heads_def on_call_nth)

lemma on_session_ok:
  assumes "agents_ok A" "as_next (f (ag_sessions A ! i)) = as_next (ag_sessions A ! i)"
    and "\<And>x k. as_pending (f (ag_sessions A ! i)) x = Some k \<Longrightarrow> as_pending (ag_sessions A ! i) x = Some k"
  shows "agents_ok (on_session i f A)"
proof -
  have "session_ok (heads A) i (f (ag_sessions A ! i))" if "i < length (ag_sessions A)"
    using assms that unfolding agents_ok_def session_ok_def by metis
  then show ?thesis using assms(1) by (simp add: agents_ok_def on_session_nth)
qed

lemma agents_ok_registry [simp]: "agents_ok (A\<lparr>ag_registry := m\<rparr>) = agents_ok A"
  by (simp add: agents_ok_def)

lemma on_call_ok:
  assumes "agents_ok A" "k < length (ag_calls A)" "\<And>c. al_session (f c) = al_session c \<and> al_id (f c) = al_id c"
    and "call_ok (ag_received A) (f (ag_calls A ! k))"
  shows "agents_ok (on_call k f A)"
proof -
  have "al_session c < length (ag_sessions A) \<and> call_ok (ag_received A) c" if c: "c \<in> set (ag_calls (on_call k f A))" for c
  proof -
    obtain j where "j < length (ag_calls (on_call k f A))" "c = ag_calls (on_call k f A) ! j"
      using c unfolding in_set_conv_nth by blast
    then show ?thesis using assms by (auto simp: on_call_nth agents_ok_def)
  qed
  then show ?thesis using assms(1) heads_on_call [of f k A] assms(3) by (auto simp: agents_ok_def)
qed

lemma ask_close_ok: "agents_ok A \<Longrightarrow> agents_ok (ask_close i A)"
  unfolding ask_close_def by (rule on_session_ok) auto

lemma add_session_ok: "agents_ok A \<Longrightarrow> agents_ok (A\<lparr>ag_registry := m, ag_sessions := ag_sessions A @ [new_session member]\<rparr>)"
  (is "_ \<Longrightarrow> agents_ok ?A")
proof -
  assume A: "agents_ok A"
  have "numbers (length (ag_sessions A)) (heads A) = 0"
    using A by (auto simp: agents_ok_def numbers_def heads_def filter_empty_conv)
  then have "session_ok (heads A) (length (ag_sessions A)) (new_session member)" by (simp add: session_ok_def new_session_def)
  moreover have "session_ok (heads A) i (ag_sessions ?A ! i)" if "i < length (ag_sessions A)" for i
    using A that by (simp add: agents_ok_def nth_append)
  ultimately have "session_ok (heads A) i (ag_sessions ?A ! i)" if "i < Suc (length (ag_sessions A))" for i
    using that by (auto simp: less_Suc_eq nth_append)
  then show "agents_ok ?A" using A by (auto simp: agents_ok_def intro: less_SucI)
qed

lemma accept_ok: "agents_ok A \<Longrightarrow> agents_ok (accept_agent member A)"
  by (auto simp: accept_agent_def Let_def ask_close_ok add_session_ok split: option.split)

lemma read_answer_ok: "agents_ok A \<Longrightarrow> i < length (ag_sessions A) \<Longrightarrow> agents_ok (read_answer i r A)"
proof -
  assume A: "agents_ok A" "i < length (ag_sessions A)"
  let ?B = "on_session i (\<lambda>s. s\<lparr>as_pending := (as_pending s)(an_id r := None)\<rparr>) A"
  let ?C = "?B\<lparr>ag_received := ag_received A @ [(i, r)]\<rparr>"
  have "agents_ok ?B" by (rule on_session_ok [OF A(1)]) (auto split: if_splits)
  moreover have "call_ok (ag_received A) c \<Longrightarrow> call_ok (ag_received A @ [(i, r)]) c" for c by (auto simp: call_ok_def)
  ultimately have C: "agents_ok ?C" by (simp add: agents_ok_def)
  have "agents_ok (on_call k (\<lambda>c. c\<lparr>al_channel := Some r\<rparr>) ?C)" if "as_pending (ag_sessions A ! i) (an_id r) = Some k" for k
  proof -
    have k: "k < length (ag_calls A)" "heads A ! k = (i, Some (an_id r))" using A that by (auto simp: agents_ok_def session_ok_def)
    then have "ag_calls A ! k \<in> set (ag_calls A)" by simp
    with A(1) have "call_ok (ag_received A) (ag_calls A ! k)" by (simp add: agents_ok_def)
    with k show ?thesis by (intro on_call_ok [OF C]) (auto simp: call_ok_def heads_def)
  qed
  with C show ?thesis by (auto simp: read_answer_def Let_def split: option.split)
qed

lemma start_call_ok: "agents_ok A \<Longrightarrow> i < length (ag_sessions A) \<Longrightarrow> agents_ok (start_call i A)"
proof -
  assume A: "agents_ok A" "i < length (ag_sessions A)"
  let ?n = "as_next (ag_sessions A ! i) + 1"
  show ?thesis
  proof (cases "as_phase (ag_sessions A ! i) = Open")
    case True
    have h: "heads (start_call i A) = heads A @ [(i, Some ?n)]" using True by (simp add: start_call_def Let_def heads_def)
    have "numbers j (heads A @ [(i, Some ?n)]) = numbers j (heads A) + of_bool (j = i)" for j by (simp add: numbers_def)
    then have "session_ok (heads A @ [(i, Some ?n)]) j (ag_sessions (start_call i A) ! j)" if "j < length (ag_sessions A)" for j
    proof -
      have "session_ok (heads A) j (ag_sessions A ! j)" using A that by (simp add: agents_ok_def)
      then show ?thesis
        using True that \<open>numbers j _ = _\<close>
        by (auto simp: start_call_def Let_def on_session_def nth_list_update session_ok_def nth_append)
    qed
    moreover have "heads_ok (heads A @ [(i, Some ?n)])" using A by (intro heads_snoc) (auto simp: agents_ok_def session_ok_def)
    ultimately show ?thesis
      using True A unfolding agents_ok_def h by (auto simp: start_call_def Let_def call_ok_def)
  next
    case False
    then have h: "heads (start_call i A) = heads A @ [(i, None)]" by (simp add: start_call_def Let_def heads_def)
    have "numbers j (heads A @ [(i, None)]) = numbers j (heads A)" for j by (simp add: numbers_def)
    then have "session_ok (heads A) j s \<Longrightarrow> session_ok (heads A @ [(i, None)]) j s" for j s
      unfolding session_ok_def by (metis length_append less_or_eq_imp_le nth_append trans_less_add1)
    moreover have "heads_ok (heads A @ [(i, None)])" using A by (intro heads_snoc) (auto simp: agents_ok_def)
    ultimately show ?thesis
      using False A unfolding agents_ok_def h by (auto simp: start_call_def Let_def call_ok_def)
  qed
qed

lemma finish_call_ok:
  assumes "agents_ok A" "waiting A k" "\<And>r. res = Answer r \<Longrightarrow> al_channel (ag_calls A ! k) = Some r"
  shows "agents_ok (finish_call k res A)"
proof -
  have k: "k < length (ag_calls A)" "ag_calls A ! k \<in> set (ag_calls A)" using assms(2) by (simp_all add: waiting_def)
  then have "call_ok (ag_received A) (ag_calls A ! k)" using assms(1) by (simp add: agents_ok_def)
  then have "call_ok (ag_received A) ((ag_calls A ! k)\<lparr>al_result := Some res\<rparr>)" using assms(3) by (auto simp: call_ok_def)
  then have "agents_ok (on_call k (\<lambda>c. c\<lparr>al_result := Some res\<rparr>) A)" by (intro on_call_ok [OF assms(1) k(1)]) auto
  then show ?thesis unfolding finish_call_def Let_def by (rule on_session_ok) (auto split: if_splits)
qed

lemma agent_step_ok: "agent_step A B \<Longrightarrow> agents_ok A \<Longrightarrow> agents_ok B"
proof (induction rule: agent_step.induct)
  case (sent A k)
  then have k: "k < length (ag_calls A)" "ag_calls A ! k \<in> set (ag_calls A)" by (simp_all add: waiting_def)
  with sent have "call_ok (ag_received A) (ag_calls A ! k)" by (simp add: agents_ok_def)
  with sent k show ?case by (intro on_call_ok) (auto simp: call_ok_def)
next
  case (unsent A k)
  then show ?case by (intro finish_call_ok ask_close_ok) (auto simp: ask_close_def)
qed (auto simp: drop_agent_def close_done_def close_end_def stop_reading_def Let_def
       intro!: accept_ok ask_close_ok read_answer_ok start_call_ok finish_call_ok on_session_ok split: option.split
       dest: on_session_ok)

lemma agents_reachable_ok: "agent_step\<^sup>*\<^sup>* no_agents A \<Longrightarrow> agents_ok A"
proof (induction rule: rtranclp_induct)
  case base
  show ?case by (simp add: agents_ok_def heads_ok_def heads_def no_agents_def)
qed (rule agent_step_ok)

section \<open>Answers that arrive while a call waits\<close>

definition expects :: "agents \<Rightarrow> bool" where
  "expects A \<longleftrightarrow> (\<forall>k. waiting A k \<and> al_channel (ag_calls A ! k) = None \<longrightarrow>
     as_pending (ag_sessions A ! al_session (ag_calls A ! k)) (the (al_id (ag_calls A ! k))) = Some k)"

lemma expectsI: "(\<And>k. waiting A k \<Longrightarrow> al_channel (ag_calls A ! k) = None \<Longrightarrow>
    as_pending (ag_sessions A ! al_session (ag_calls A ! k)) (the (al_id (ag_calls A ! k))) = Some k) \<Longrightarrow> expects A"
  by (simp add: expects_def)

lemma call_of_ok:
  assumes "agents_ok A" "waiting A k"
  shows "k < length (ag_calls A)" "al_session (ag_calls A ! k) < length (ag_sessions A)"
    "heads A ! k = (al_session (ag_calls A ! k), Some (the (al_id (ag_calls A ! k))))"
proof -
  show k: "k < length (ag_calls A)" using assms(2) by (simp add: waiting_def)
  then have "ag_calls A ! k \<in> set (ag_calls A)" by simp
  then have "al_session (ag_calls A ! k) < length (ag_sessions A)" "call_ok (ag_received A) (ag_calls A ! k)"
    using assms(1) by (auto simp: agents_ok_def)
  then show "al_session (ag_calls A ! k) < length (ag_sessions A)"
    "heads A ! k = (al_session (ag_calls A ! k), Some (the (al_id (ag_calls A ! k))))"
    using assms(2) k by (auto simp: call_ok_def waiting_def heads_def)
qed

lemma on_session_expects:
  assumes "expects A" "agents_ok A" "as_pending (f (ag_sessions A ! i)) = as_pending (ag_sessions A ! i)"
  shows "expects (on_session i f A)"
proof (rule expectsI)
  fix k assume k: "waiting (on_session i f A) k" "al_channel (ag_calls (on_session i f A) ! k) = None"
  then have "waiting A k" by simp
  from call_of_ok(2) [OF assms(2) this] k assms(1,3) show
    "as_pending (ag_sessions (on_session i f A) ! al_session (ag_calls (on_session i f A) ! k))
       (the (al_id (ag_calls (on_session i f A) ! k))) = Some k"
    by (auto simp: expects_def on_session_nth)
qed

lemma expects_registry [simp]: "expects (A\<lparr>ag_registry := m\<rparr>) = expects A"
  by (simp add: expects_def waiting_def)

lemma accept_expects: "expects A \<Longrightarrow> agents_ok A \<Longrightarrow> expects (accept_agent member A)"
proof -
  assume A: "expects A" "agents_ok A"
  let ?A = "A\<lparr>ag_registry := (ag_registry A)(member \<mapsto> length (ag_sessions A)), ag_sessions := ag_sessions A @ [new_session member]\<rparr>"
  have "expects ?A" using A call_of_ok(2) [OF A(2)] by (auto simp: expects_def waiting_def nth_append)
  moreover have "agents_ok ?A" by (rule add_session_ok [OF A(2)])
  ultimately show ?thesis
    by (auto simp: accept_agent_def Let_def ask_close_def intro!: on_session_expects split: option.split)
qed

text \<open>Taking a number from the table leaves every other call's there.\<close>

lemma other_call:
  assumes "agents_ok A" "length (ag_calls A) < 2 ^ 64" "waiting A k" "k' < length (ag_calls A)"
    and "heads A ! k' = (al_session (ag_calls A ! k), Some (the (al_id (ag_calls A ! k))))"
  shows "k = k'"
proof -
  have "heads_ok (heads A)" using assms(1) by (simp add: agents_ok_def)
  from heads_distinct [OF this] assms call_of_ok [OF assms(1,3)] show ?thesis by (metis agents_fields(13))
qed

lemma read_answer_expects:
  assumes "expects A" "agents_ok A"
  shows "expects (read_answer i r A)"
proof (rule expectsI)
  fix k assume w: "waiting (read_answer i r A) k" "al_channel (ag_calls (read_answer i r A) ! k) = None"
  let ?p = "as_pending (ag_sessions A ! i) (an_id r)"
  have c: "ag_calls (read_answer i r A) ! k = ag_calls A ! k" "waiting A k" "?p \<noteq> Some k"
    using w by (auto simp: read_answer_def Let_def waiting_def on_call_nth split: option.splits if_splits)
  with w assms(1) have "as_pending (ag_sessions A ! al_session (ag_calls A ! k)) (the (al_id (ag_calls A ! k))) = Some k"
    by (simp add: expects_def)
  moreover have "ag_sessions (read_answer i r A) = ag_sessions (on_session i (\<lambda>s. s\<lparr>as_pending := (as_pending s)(an_id r := None)\<rparr>) A)"
    by (simp add: read_answer_def Let_def split: option.split)
  ultimately show "as_pending (ag_sessions (read_answer i r A) ! al_session (ag_calls (read_answer i r A) ! k))
      (the (al_id (ag_calls (read_answer i r A) ! k))) = Some k"
    using call_of_ok(2) [OF assms(2) c(2)] c(3) unfolding c(1) by (auto simp: on_session_nth)
qed

lemma start_call_expects:
  assumes "expects A" "agents_ok A" "i < length (ag_sessions A)" "length (ag_calls (start_call i A)) < 2 ^ 64"
  shows "expects (start_call i A)"
proof (rule expectsI)
  fix k assume w: "waiting (start_call i A) k" "al_channel (ag_calls (start_call i A) ! k) = None"
  show "as_pending (ag_sessions (start_call i A) ! al_session (ag_calls (start_call i A) ! k))
      (the (al_id (ag_calls (start_call i A) ! k))) = Some k"
  proof (cases "k < length (ag_calls A)")
    case True
    then have c: "ag_calls (start_call i A) ! k = ag_calls A ! k" "waiting A k"
      using w by (cases "as_phase (ag_sessions A ! i) = Open"; auto simp: start_call_def Let_def waiting_def nth_append)+
    with w assms(1) have p: "as_pending (ag_sessions A ! al_session (ag_calls A ! k)) (the (al_id (ag_calls A ! k))) = Some k"
      by (simp add: expects_def)
    show ?thesis
    proof (cases "as_phase (ag_sessions A ! i) = Open \<and> al_session (ag_calls A ! k) = i \<and> the (al_id (ag_calls A ! k)) = as_next (ag_sessions A ! i) + 1")
      case same: True
      then have "heads (start_call i A) = heads A @ [heads A ! k]"
        using call_of_ok(3) [OF assms(2) c(2)] by (simp add: start_call_def Let_def heads_def)
      then have "heads (start_call i A) ! length (ag_calls A) = heads (start_call i A) ! k" using True by (simp add: nth_append)
      with other_call [OF start_call_ok [OF assms(2,3)] assms(4) w(1), of "length (ag_calls A)"] call_of_ok(3) [OF start_call_ok [OF assms(2,3)] w(1)] True
      show ?thesis by (simp add: start_call_def Let_def split: if_splits)
    next
      case False
      then show ?thesis
        using p call_of_ok(2) [OF assms(2) c(2)] unfolding c(1)
        by (cases "al_session (ag_calls A ! k) = i") (auto simp: start_call_def Let_def on_session_nth)
    qed
  next
    case False
    then have "k = length (ag_calls A)" using w(1) by (auto simp: waiting_def start_call_def Let_def split: if_splits)
    then show ?thesis using w assms(3) by (auto simp: waiting_def start_call_def Let_def on_session_def nth_append split: if_splits)
  qed
qed

lemma finish_call_expects:
  assumes "expects A" "agents_ok A" "waiting A k'" "length (ag_calls A) < 2 ^ 64"
  shows "expects (finish_call k' res A)"
proof (rule expectsI)
  fix k assume w: "waiting (finish_call k' res A) k" "al_channel (ag_calls (finish_call k' res A) ! k) = None"
  have k': "k' < length (ag_calls A)" using assms(3) by (simp add: waiting_def)
  then have c: "k \<noteq> k'" "ag_calls (finish_call k' res A) ! k = ag_calls A ! k" "waiting A k"
    using w by (auto simp: finish_call_def Let_def waiting_def on_call_nth split: if_splits)
  then have "heads A ! k' \<noteq> heads A ! k" using other_call [OF assms(2,4) c(3) k'] call_of_ok(3) [OF assms(2) c(3)] by metis
  then have "al_session (ag_calls A ! k) \<noteq> al_session (ag_calls A ! k') \<or> the (al_id (ag_calls A ! k)) \<noteq> the (al_id (ag_calls A ! k'))"
    using call_of_ok(3) [OF assms(2) c(3)] call_of_ok(3) [OF assms(2,3)] by auto
  moreover have "as_pending (ag_sessions A ! al_session (ag_calls A ! k)) (the (al_id (ag_calls A ! k))) = Some k"
    using w c assms(1) by (simp add: expects_def)
  ultimately show "as_pending (ag_sessions (finish_call k' res A) ! al_session (ag_calls (finish_call k' res A) ! k))
      (the (al_id (ag_calls (finish_call k' res A) ! k))) = Some k"
    using call_of_ok(2) [OF assms(2) c(3)] unfolding c(2) by (auto simp: finish_call_def Let_def on_session_nth)
qed

lemma sent_expects: "expects A \<Longrightarrow> expects (on_call k (\<lambda>c. c\<lparr>al_sent := b\<rparr>) A)"
proof (rule expectsI)
  fix j assume e: "expects A" and w: "waiting (on_call k (\<lambda>c. c\<lparr>al_sent := b\<rparr>) A) j" "al_channel (ag_calls (on_call k (\<lambda>c. c\<lparr>al_sent := b\<rparr>) A) ! j) = None"
  then have j: "j < length (ag_calls A)" by (simp add: waiting_def)
  then have "waiting A j" "al_channel (ag_calls A ! j) = None" using w by (auto simp: waiting_def on_call_nth split: if_splits)
  with e j show "as_pending (ag_sessions (on_call k (\<lambda>c. c\<lparr>al_sent := b\<rparr>) A) ! al_session (ag_calls (on_call k (\<lambda>c. c\<lparr>al_sent := b\<rparr>) A) ! j))
      (the (al_id (ag_calls (on_call k (\<lambda>c. c\<lparr>al_sent := b\<rparr>) A) ! j))) = Some j"
    by (auto simp: on_call_nth expects_def)
qed

lemma agent_step_calls: "agent_step A B \<Longrightarrow> length (ag_calls A) \<le> length (ag_calls B)"
  by (induction rule: agent_step.induct)
     (auto simp: accept_agent_def drop_agent_def ask_close_def close_done_def close_end_def read_answer_def stop_reading_def
       start_call_def finish_call_def Let_def split: option.split)

lemma agent_step_expects:
  "agent_step A B \<Longrightarrow> agents_ok A \<Longrightarrow> length (ag_calls B) < 2 ^ 64 \<Longrightarrow> expects A \<Longrightarrow> expects B"
proof (induction rule: agent_step.induct)
  case (unsent A k)
  then have "expects (ask_close (al_session (ag_calls A ! k)) A)" by (auto simp: ask_close_def intro: on_session_expects)
  moreover have "waiting (ask_close (al_session (ag_calls A ! k)) A) k" "length (ag_calls (ask_close (al_session (ag_calls A ! k)) A)) < 2 ^ 64"
    using unsent by (auto simp: ask_close_def finish_call_def Let_def)
  ultimately show ?case by (intro finish_call_expects ask_close_ok unsent(3))
next
  case (closed i A)
  then show ?case by (auto simp: close_end_def Let_def intro!: on_session_expects)
next
  case (hung_up i A)
  then show ?case
    by (auto simp: stop_reading_def ask_close_def intro!: on_session_expects on_session_ok)
qed (auto simp: drop_agent_def close_done_def ask_close_def finish_call_def Let_def
       intro: accept_expects read_answer_expects start_call_expects sent_expects finish_call_expects [unfolded finish_call_def Let_def]
         on_session_expects split: option.split)

lemma agents_reachable_expects: "agent_step\<^sup>*\<^sup>* no_agents A \<Longrightarrow> length (ag_calls A) < 2 ^ 64 \<Longrightarrow> expects A"
proof (induction rule: rtranclp_induct)
  case base
  show ?case by (simp add: expects_def waiting_def no_agents_def)
next
  case (step A B)
  then show ?case using agent_step_calls [OF step(2)] agents_reachable_ok [OF step(1)] agent_step_expects [OF step(2)] by auto
qed

section \<open>The registry\<close>

definition registry_ok :: "agents \<Rightarrow> bool" where
  "registry_ok A \<longleftrightarrow>
     (\<forall>m i. ag_registry A m = Some i \<longrightarrow> i < length (ag_sessions A) \<and> as_member (ag_sessions A ! i) = m \<and> as_phase (ag_sessions A ! i) \<noteq> Over) \<and>
     (\<forall>i < length (ag_sessions A). as_close_asked (ag_sessions A ! i) \<or>
        as_phase (ag_sessions A ! i) = Open \<and> ag_registry A (as_member (ag_sessions A ! i)) = Some i)"

lemma registry_same:
  assumes "registry_ok A" "ag_registry B = ag_registry A" "length (ag_sessions B) = length (ag_sessions A)"
    and "\<And>i. i < length (ag_sessions A) \<Longrightarrow> as_member (ag_sessions B ! i) = as_member (ag_sessions A ! i) \<and>
      as_phase (ag_sessions B ! i) = as_phase (ag_sessions A ! i) \<and> (as_close_asked (ag_sessions A ! i) \<longrightarrow> as_close_asked (ag_sessions B ! i))"
  shows "registry_ok B"
  using assms unfolding registry_ok_def by metis

lemma ask_close_registry: "registry_ok A \<Longrightarrow> registry_ok (ask_close i A)"
  by (erule registry_same) (auto simp: ask_close_def on_session_nth)

lemma registryI:
  assumes "\<And>m i. ag_registry A m = Some i \<Longrightarrow> i < length (ag_sessions A) \<and> as_member (ag_sessions A ! i) = m \<and> as_phase (ag_sessions A ! i) \<noteq> Over"
    and "\<And>i. i < length (ag_sessions A) \<Longrightarrow> \<not> as_close_asked (ag_sessions A ! i)
      \<Longrightarrow> as_phase (ag_sessions A ! i) = Open \<and> ag_registry A (as_member (ag_sessions A ! i)) = Some i"
  shows "registry_ok A"
  using assms unfolding registry_ok_def by blast

lemma registryD:
  assumes "registry_ok A"
  shows "ag_registry A m = Some i \<Longrightarrow> i < length (ag_sessions A) \<and> as_member (ag_sessions A ! i) = m \<and> as_phase (ag_sessions A ! i) \<noteq> Over"
    and "i < length (ag_sessions A) \<Longrightarrow> \<not> as_close_asked (ag_sessions A ! i)
      \<Longrightarrow> as_phase (ag_sessions A ! i) = Open \<and> ag_registry A (as_member (ag_sessions A ! i)) = Some i"
  using assms unfolding registry_ok_def by blast+

lemma accept_fields:
  assumes "registry_ok A"
  shows "length (ag_sessions (accept_agent member A)) = Suc (length (ag_sessions A))"
    "ag_registry (accept_agent member A) = (ag_registry A)(member \<mapsto> length (ag_sessions A))"
    "ag_sessions (accept_agent member A) ! length (ag_sessions A) = new_session member"
    "i < length (ag_sessions A) \<Longrightarrow> ag_sessions (accept_agent member A) ! i =
       (if ag_registry A member = Some i then (ag_sessions A ! i)\<lparr>as_close_asked := True\<rparr> else ag_sessions A ! i)"
  using registryD(1) [OF assms, of member]
  by (auto simp: accept_agent_def Let_def ask_close_def on_session_def nth_append nth_list_update split: option.split)

lemma accept_registry: "registry_ok A \<Longrightarrow> registry_ok (accept_agent member A)"
proof (rule registryI)
  let ?B = "accept_agent member A"
  assume A: "registry_ok A"
  note f = accept_fields [OF A, where member = member]
  show "i < length (ag_sessions ?B) \<and> as_member (ag_sessions ?B ! i) = m \<and> as_phase (ag_sessions ?B ! i) \<noteq> Over"
    if "ag_registry ?B m = Some i" for m i
    using that registryD(1) [OF A, of m i] f by (cases "m = member") (auto simp: new_session_def)
  fix i assume i: "i < length (ag_sessions ?B)" "\<not> as_close_asked (ag_sessions ?B ! i)"
  show "as_phase (ag_sessions ?B ! i) = Open \<and> ag_registry ?B (as_member (ag_sessions ?B ! i)) = Some i"
  proof (cases "i = length (ag_sessions A)")
    case False
    then have "i < length (ag_sessions A)" using i(1) f(1) by simp
    moreover from this have "ag_registry A member \<noteq> Some i" "\<not> as_close_asked (ag_sessions A ! i)" using i(2) f(4) by (auto split: if_splits)
    ultimately show ?thesis using registryD(2) [OF A, of i] f(2,4) by auto
  qed (simp add: f(2,3) new_session_def)
qed

lemma close_end_registry:
  assumes A: "registry_ok A" and i: "i < length (ag_sessions A)" "as_phase (ag_sessions A ! i) = Closing"
  shows "registry_ok (close_end i A)"
proof (rule registryI)
  let ?B = "close_end i A"
  have s: "length (ag_sessions ?B) = length (ag_sessions A)"
    "j < length (ag_sessions A) \<Longrightarrow> ag_sessions ?B ! j = (if j = i then (ag_sessions A ! i)\<lparr>as_phase := Over\<rparr> else ag_sessions A ! j)" for j
    using i by (auto simp: close_end_def Let_def on_session_nth)
  have r: "ag_registry ?B = (if ag_registry A (as_member (ag_sessions A ! i)) = Some i
      then (ag_registry A)(as_member (ag_sessions A ! i) := None) else ag_registry A)"
    by (simp add: close_end_def Let_def)
  show "j < length (ag_sessions ?B) \<and> as_member (ag_sessions ?B ! j) = m \<and> as_phase (ag_sessions ?B ! j) \<noteq> Over"
    if "ag_registry ?B m = Some j" for m j
    using that registryD(1) [OF A, of m j] s r by (auto split: if_splits)
  fix j assume j: "j < length (ag_sessions ?B)" "\<not> as_close_asked (ag_sessions ?B ! j)"
  then have "j \<noteq> i" using registryD(2) [OF A, of j] s i by (auto split: if_splits)
  then show "as_phase (ag_sessions ?B ! j) = Open \<and> ag_registry ?B (as_member (ag_sessions ?B ! j)) = Some j"
    using j registryD(2) [OF A, of j] s r by auto
qed

lemma agent_step_registry: "agent_step A B \<Longrightarrow> registry_ok A \<Longrightarrow> registry_ok B"
proof (induction rule: agent_step.induct)
  case (closing i A)
  then show ?case by (auto simp: registry_ok_def close_done_def on_session_nth split: if_splits)
next
  case (closed i A)
  then show ?case by (intro close_end_registry)
next
  case (answered i A r)
  then show ?case by (elim registry_same) (auto simp: read_answer_def Let_def on_session_nth split: option.split)
next
  case (hung_up i A)
  then show ?case by (elim registry_same) (auto simp: stop_reading_def ask_close_def on_session_nth)
next
  case (call i A)
  then show ?case by (elim registry_same) (auto simp: start_call_def Let_def on_session_nth)
next
  case (unsent A k)
  then show ?case by (elim registry_same) (auto simp: finish_call_def ask_close_def Let_def on_session_nth)
qed (auto simp: drop_agent_def accept_registry ask_close_registry finish_call_def Let_def on_session_nth split: option.split
       elim!: registry_same)

lemma agents_reachable_registry: "agent_step\<^sup>*\<^sup>* no_agents A \<Longrightarrow> registry_ok A"
proof (induction rule: rtranclp_induct)
  case base
  show ?case by (simp add: registry_ok_def no_agents_def)
qed (rule agent_step_registry)

section \<open>What a hub can count on\<close>

text \<open>
  C34: with fewer than 2 to the 64 calls, an answer a call returns was read from the connection the call was sent on
  and carries its number, no other call of that connection returns an answer with this number, and an answer read
  while its call waits is the one that call finds in its channel.
\<close>

theorem answers_reach_their_call:
  assumes "agent_step\<^sup>*\<^sup>* no_agents A" "length (ag_calls A) < 2 ^ 64" "k < length (ag_calls A)"
  shows "(al_result (ag_calls A ! k) = Some (Answer r) \<longrightarrow>
      al_id (ag_calls A ! k) = Some (an_id r) \<and> (al_session (ag_calls A ! k), r) \<in> set (ag_received A) \<and>
      (\<forall>k' < length (ag_calls A). k' \<noteq> k \<and> al_session (ag_calls A ! k') = al_session (ag_calls A ! k) \<longrightarrow>
         al_id (ag_calls A ! k') \<noteq> Some (an_id r))) \<and>
    (waiting A k \<and> al_channel (ag_calls A ! k) = None \<and> al_id (ag_calls A ! k) = Some (an_id r) \<longrightarrow>
      al_channel (ag_calls (read_answer (al_session (ag_calls A ! k)) r A) ! k) = Some r)"
proof -
  have ok: "agents_ok A" and ex: "expects A" using agents_reachable_ok agents_reachable_expects assms by blast+
  have "ag_calls A ! k \<in> set (ag_calls A)" using assms(3) by simp
  then have c: "call_ok (ag_received A) (ag_calls A ! k)" and h: "heads_ok (heads A)" using ok by (auto simp: agents_ok_def)
  have "k' = k" if "k' < length (ag_calls A)" "al_session (ag_calls A ! k') = al_session (ag_calls A ! k)"
    "al_id (ag_calls A ! k') = Some x" "al_id (ag_calls A ! k) = Some x" for k' x
    using heads_distinct [OF h, of k' k "al_session (ag_calls A ! k)" x] that assms(2,3) by (simp add: heads_def)
  moreover have "al_channel (ag_calls (read_answer (al_session (ag_calls A ! k)) r A) ! k) = Some r"
    if "waiting A k" "al_channel (ag_calls A ! k) = None" "al_id (ag_calls A ! k) = Some (an_id r)"
  proof -
    have "as_pending (ag_sessions A ! al_session (ag_calls A ! k)) (an_id r) = Some k" using ex that by (auto simp: expects_def)
    with assms(3) show ?thesis by (simp add: read_answer_def Let_def on_call_nth)
  qed
  ultimately show ?thesis using c by (auto simp: call_ok_def)
qed

definition reply_here :: agent_response where
  "reply_here = \<lparr>an_id = 1, an_output = ''ok'', an_error = []\<rparr>"

definition calling_here :: agents where
  "calling_here = on_call 0 (\<lambda>c. c\<lparr>al_sent := True\<rparr>) (start_call 0 (accept_agent ''m'' no_agents))"

definition answered_here :: agents where
  "answered_here = finish_call 0 (Answer reply_here) (read_answer 0 reply_here calling_here)"

lemmas here_defs = calling_here_def answered_here_def reply_here_def accept_agent_def no_agents_def new_session_def start_call_def
  read_answer_def finish_call_def on_call_def on_session_def waiting_def Let_def

lemma answered_here_reached: "agent_step\<^sup>*\<^sup>* no_agents answered_here"
proof -
  let ?A1 = "accept_agent ''m'' no_agents" and ?A2 = "start_call 0 (accept_agent ''m'' no_agents)"
  have "agent_step\<^sup>*\<^sup>* no_agents ?A1" by (rule r_into_rtranclp [where r = agent_step, OF accept])
  also have "agent_step ?A1 ?A2" by (rule call) (simp add: accept_agent_def no_agents_def)
  also have "agent_step ?A2 calling_here" unfolding calling_here_def by (rule sent) (simp_all add: here_defs)
  also have "agent_step calling_here (read_answer 0 reply_here calling_here)" by (rule answered) (simp_all add: here_defs)
  also have "agent_step (read_answer 0 reply_here calling_here) answered_here"
    unfolding answered_here_def by (rule returns) (simp_all add: here_defs)
  finally show ?thesis .
qed

theorem answers_reach_their_call_witness:
  "(al_session (ag_calls answered_here ! 0), reply_here) \<in> set (ag_received answered_here)"
proof -
  have "length (ag_calls answered_here) < 2 ^ 64" "0 < length (ag_calls answered_here)" by (simp_all add: here_defs)
  note a = answers_reach_their_call [OF answered_here_reached this]
  have "al_result (ag_calls answered_here ! 0) = Some (Answer reply_here)" by (simp add: here_defs)
  with a show ?thesis by blast
qed

text \<open>
  C35: the registry names, of a member, a session of that member that is not over, and of all the sessions a member ever
  opened the one it names is the only one nobody has asked to close.
\<close>

theorem one_live_session:
  assumes "agent_step\<^sup>*\<^sup>* no_agents A"
  shows "(\<forall>i. agent_of member A = Some i \<longrightarrow> i < length (ag_sessions A) \<and> as_member (ag_sessions A ! i) = member \<and> as_phase (ag_sessions A ! i) \<noteq> Over) \<and>
    (\<forall>i < length (ag_sessions A). as_member (ag_sessions A ! i) = member \<and> \<not> as_close_asked (ag_sessions A ! i) \<longrightarrow>
       agent_of member A = Some i \<and> as_phase (ag_sessions A ! i) = Open)"
  using agents_reachable_registry [OF assms] by (auto simp: registry_ok_def agent_of_def)

theorem one_live_session_witness:
  "agent_of ''m'' (accept_agent ''m'' answered_here) = Some 1"
proof -
  let ?A = "accept_agent ''m'' answered_here"
  have "agent_step\<^sup>*\<^sup>* no_agents ?A" by (rule rtranclp.rtrancl_into_rtrancl [OF answered_here_reached accept])
  note o = one_live_session [OF this, of "''m''"]
  have "1 < length (ag_sessions ?A)" "as_member (ag_sessions ?A ! 1) = ''m''" "\<not> as_close_asked (ag_sessions ?A ! 1)"
    by (simp_all add: here_defs ask_close_def)
  with o show ?thesis by blast
qed

end
