(* ===== verification/NodeService.thy ===== *)
theory NodeService
  imports NodeDeploy MeshCloud GoNet
begin

text \<open>
  The service that deploys machines as nodes (deploy/service.go, deploy/types.go): the request, the slots, the task,
  and the run that carries it out and settles the task and the machine. Parameters: the deployer itself (what it
  reports and how it ends), the resolution of the API server's address, the firewall, and how an error prints.
\<close>

section \<open>Requests\<close>

record node_request =
  nq_owner :: string
  nq_machine :: string
  nq_node :: string
  nq_url :: string

record deploy_machine =
  dm_host :: string
  dm_port :: int
  dm_user :: string
  dm_password :: string
  dm_key :: string
  dm_local :: bool
  dm_agent :: string

record node_config =
  ng_advertise :: string
  ng_bind :: string
  ng_port :: int

datatype service_error =
    No_config | No_apiserver | No_machine_name | Slash_in_name | Long_name | Bad_node node_error | Bad_url
  | Machine_missing | No_address | No_secret_given | Machine_error mesh_error | Credential_error node_error
  | No_credential | Unresolved string | No_slot | Task_error node_error | Deployer_error string

datatype deploy_outcome = Deploy_failed string | Deploy_done string | Deploy_panicked string

record deploy_env =
  de_config :: "node_config option"
  de_ready :: bool
  de_https :: "string \<Rightarrow> bool"
  de_ssh_key :: "string \<Rightarrow> bool"
  de_crypt :: crypt
  de_chance :: "nat \<Rightarrow> chance"
  de_now :: "nat \<Rightarrow> int"
  de_hub :: "string option"
  de_resolve :: "deploy_machine \<Rightarrow> string \<Rightarrow> string + string"
  de_firewall :: "string \<times> string"
  de_deploy :: "deploy_machine \<Rightarrow> string \<Rightarrow> string \<Rightarrow> (string \<times> string \<times> string) list \<times> deploy_outcome"
  de_show :: "service_error \<Rightarrow> string"

definition normalize_request :: "node_request \<Rightarrow> node_request" where
  "normalize_request r =
     \<lparr>nq_owner = if nq_owner r = [] then ''admin'' else nq_owner r, nq_machine = trim_space (nq_machine r),
      nq_node = trim_space (nq_node r), nq_url = trim_space (nq_url r)\<rparr>"

definition validate_request :: "(string \<Rightarrow> bool) \<Rightarrow> node_request \<Rightarrow> service_error option" where
  "validate_request https_url r =
     (if nq_machine r = [] then Some No_machine_name
      else if CHR ''/'' \<in> set (nq_machine r) then Some Slash_in_name
      else if length (nq_machine r) > 100 then Some Long_name
      else
        (case (if nq_node r \<noteq> [] then validate_node_name (nq_node r) else None) of
           Some e \<Rightarrow> Some (Bad_node e)
         | None \<Rightarrow> if nq_url r \<noteq> [] \<and> \<not> https_url (nq_url r) then Some Bad_url else None))"

definition blank_secret :: "string \<Rightarrow> bool" where
  "blank_secret s \<longleftrightarrow> trim_space s = []"

text \<open>\<open>getMachineForNodeDeploy\<close>: a machine behind SSH needs an address, a user and a secret, given or kept.\<close>

definition machine_for_deploy ::
  "'db node_store \<Rightarrow> deploy_env \<Rightarrow> string \<Rightarrow> string \<Rightarrow> key_host \<times> 'db \<Rightarrow> (service_error + machine) \<times> key_host \<times> 'db" where
  "machine_for_deploy S E owner name = (\<lambda>(h, db).
     if name = [] then (Inl No_machine_name, h, db)
     else
       (case get_machine (nd_machines S) (owner @ ''/'' @ name) db of
          Inl e \<Rightarrow> (Inl (Machine_error e), h, db)
        | Inr None \<Rightarrow> (Inl Machine_missing, h, db)
        | Inr (Some m) \<Rightarrow>
            if mc_auth m = ''local'' \<or> mc_auth m = ''agent'' then (Inr m, h, db)
            else if mc_ip m = [] \<or> mc_user m = [] then (Inl No_address, h, db)
            else if blank_secret (mc_password m) \<and> blank_secret (mc_key m) then
              (case get_credential S (de_crypt E) (de_chance E 0) (mc_owner m) (mc_name m) (h, db) of
                 (Inl e, st) \<Rightarrow> (Inl (Credential_error e), st)
               | (Inr (Some c), st) \<Rightarrow> if \<not> blank_secret (nc_key c) then (Inr m, st) else (Inl No_secret_given, st)
               | (Inr None, st) \<Rightarrow> (Inl No_secret_given, st))
            else (Inr m, h, db)))"

definition to_deploy_machine ::
  "'db node_store \<Rightarrow> deploy_env \<Rightarrow> chance \<Rightarrow> machine \<Rightarrow> key_host \<times> 'db \<Rightarrow> (service_error + deploy_machine) \<times> key_host \<times> 'db" where
  "to_deploy_machine S E ch m st =
     (let ident = mc_owner m @ ''/'' @ mc_name m;
          dm = \<lparr>dm_host = mc_ip m, dm_port = mc_port m, dm_user = mc_user m, dm_password = mc_password m, dm_key = mc_key m,
                dm_local = False, dm_agent = []\<rparr>
      in if mc_auth m = ''local'' then
           (Inr \<lparr>dm_host = mc_ip m, dm_port = 0, dm_user = mc_user m, dm_password = [], dm_key = [], dm_local = True, dm_agent = []\<rparr>, st)
         else if mc_auth m = ''agent'' then
           (Inr \<lparr>dm_host = ident, dm_port = 0, dm_user = [], dm_password = [], dm_key = [], dm_local = False, dm_agent = ident\<rparr>, st)
         else if blank_secret (mc_password m) \<and> blank_secret (mc_key m) then
           (case get_credential S (de_crypt E) ch (mc_owner m) (mc_name m) st of
              (Inl e, st) \<Rightarrow> (Inl (Credential_error e), st)
            | (Inr (Some c), st) \<Rightarrow> if blank_secret (nc_key c) then (Inl No_credential, st) else (Inr (dm\<lparr>dm_key := nc_key c\<rparr>), st)
            | (Inr None, st) \<Rightarrow> (Inl No_credential, st))
         else (Inr dm, st))"

definition prepare_request ::
  "'db node_store \<Rightarrow> deploy_env \<Rightarrow> node_request \<Rightarrow> key_host \<times> 'db
     \<Rightarrow> (service_error + node_request \<times> machine \<times> deploy_machine) \<times> key_host \<times> 'db" where
  "prepare_request S E req0 st =
     (let req = normalize_request req0 in
      case validate_request (de_https E) req of
        Some e \<Rightarrow> (Inl e, st)
      | None \<Rightarrow>
          (case machine_for_deploy S E (nq_owner req) (nq_machine req) st of
             (Inl e, st) \<Rightarrow> (Inl e, st)
           | (Inr m, st) \<Rightarrow>
               (let req = (if nq_node req = [] then req\<lparr>nq_node := mc_name m\<rparr> else req) in
                case validate_node_name (nq_node req) of
                  Some e \<Rightarrow> (Inl (Bad_node e), st)
                | None \<Rightarrow>
                    (case to_deploy_machine S E (de_chance E 1) m st of
                       (Inl e, st) \<Rightarrow> (Inl e, st) | (Inr dm, st) \<Rightarrow> (Inr (req, m, dm), st)))))"

definition unspecified :: "string \<Rightarrow> bool" where
  "unspecified host \<longleftrightarrow> host \<in> {[], ''0.0.0.0'', ''::''}"

definition default_apiserver :: "node_config \<Rightarrow> string" where
  "default_apiserver c =
     (let host = (if unspecified (ng_advertise c) then ng_bind c else ng_advertise c);
          host = (if unspecified host then ''127.0.0.1'' else host)
      in ''https://'' @ join_host_port host (itoa (ng_port c)))"

definition request_url :: "deploy_env \<Rightarrow> node_config \<Rightarrow> deploy_machine \<Rightarrow> string \<Rightarrow> service_error + string" where
  "request_url E c dm url =
     (case de_hub E of
        Some hub \<Rightarrow> Inr hub
      | None \<Rightarrow>
          if url \<noteq> [] then Inr url
          else (case de_resolve E dm (default_apiserver c) of Inl e \<Rightarrow> Inl (Unresolved e) | Inr u \<Rightarrow> Inr u))"

section \<open>Starting a deployment\<close>

text \<open>The state: the slots taken, the key files and the database. At most five deployments run.\<close>

definition max_slots :: nat where "max_slots = 5"

definition log_task :: "'db node_store \<Rightarrow> int \<Rightarrow> string \<Rightarrow> string \<Rightarrow> int \<Rightarrow> 'db \<Rightarrow> 'db" where
  "log_task S tid level message now db = snd (add_node_log S tid level message now db)"

definition created_task ::
  "'db node_store \<Rightarrow> deploy_env \<Rightarrow> machine \<Rightarrow> string \<Rightarrow> string \<Rightarrow> 'db \<Rightarrow> (service_error + node_task) \<times> 'db" where
  "created_task S E m node url db =
     (case create_node_task S (de_https E) (mc_owner m) (mc_name m) node url (de_now E 0) db of
        (Inl e, db) \<Rightarrow> (Inl (Task_error e), db)
      | (Inr t, db) \<Rightarrow>
          (case add_node_log S (nt_id t) ''info'' ''Node deployment task created'' (de_now E 1) db of
             (Inl e, db) \<Rightarrow> (Inl (Task_error e), db)
           | (Inr _, db) \<Rightarrow>
               (Inr t, if snd (de_firewall E) \<noteq> [] then log_task S (nt_id t) (fst (de_firewall E)) (snd (de_firewall E)) (de_now E 2) db
                       else db)))"

definition deploy_node ::
  "'db node_store \<Rightarrow> deploy_env \<Rightarrow> node_request \<Rightarrow> nat \<times> key_host \<times> 'db \<Rightarrow> (service_error + node_task) \<times> nat \<times> key_host \<times> 'db" where
  "deploy_node S E req0 = (\<lambda>(slots, st).
     case de_config E of
       None \<Rightarrow> (Inl No_config, slots, st)
     | Some c \<Rightarrow>
         if \<not> de_ready E then (Inl No_apiserver, slots, st)
         else
           (case prepare_request S E req0 st of
              (Inl e, st) \<Rightarrow> (Inl e, slots, st)
            | (Inr (req, m, dm), st) \<Rightarrow>
                (case request_url E c dm (nq_url req) of
                   Inl e \<Rightarrow> (Inl e, slots, st)
                 | Inr url \<Rightarrow>
                     if slots \<ge> max_slots then (Inl No_slot, slots, st)
                     else
                       (case created_task S E m (nq_node req) url (snd st) of
                          (Inl e, db) \<Rightarrow> (Inl e, slots, fst st, db)
                        | (Inr t, db) \<Rightarrow> (Inr t, Suc slots, fst st, db)))))"

section \<open>The run of a task\<close>

text \<open>
  What a run did of its task: the success it tried to record and what came of that, \<open>None\<close> if it never tried. The code
  only logs it.
\<close>

type_synonym settled_as = "(bool \<times> (node_error, unit) result) option"

definition settle ::
  "'db node_store \<Rightarrow> deploy_env \<Rightarrow> int \<Rightarrow> bool \<Rightarrow> string \<Rightarrow> string \<Rightarrow> 'db \<Rightarrow> settled_as \<times> 'db" where
  "settle S E tid success phase msg db =
     (case finish_node_task S tid success phase msg (de_now E 3) db of (r, db) \<Rightarrow> (Some (success, r), db))"

text \<open>A failure: a log line, the machine's status where the code sets it, and the task, whose failure to end is logged.\<close>

definition fail_run ::
  "'db node_store \<Rightarrow> deploy_env \<Rightarrow> int \<Rightarrow> machine option \<Rightarrow> string \<Rightarrow> string \<Rightarrow> 'db \<Rightarrow> settled_as \<times> 'db" where
  "fail_run S E tid m line msg db =
     (let db = log_task S tid ''error'' line (de_now E 4) db;
          db = (case m of Some m \<Rightarrow> snd (update_machine_status S (mc_owner m) (mc_name m) ''Failed'' db) | None \<Rightarrow> db)
      in case settle S E tid False ''failed'' msg db of
           (Some (b, Inl e), db) \<Rightarrow>
             (Some (b, Inl e), log_task S tid ''error'' (''Failed to finish node deployment task: '' @ de_show E (Task_error e)) (de_now E 5) db)
         | (r, db) \<Rightarrow> (r, db))"

fun run_reports :: "'db node_store \<Rightarrow> int \<Rightarrow> int \<Rightarrow> (string \<times> string \<times> string) list \<Rightarrow> 'db \<Rightarrow> 'db" where
  "run_reports S tid now [] db = db"
| "run_reports S tid now ((level, message, phase) # rs) db =
     (let db = log_task S tid level message now db in
      run_reports S tid now rs (if phase \<noteq> [] then snd (update_node_phase S tid phase now db) else db))"

definition complete_run :: "'db node_store \<Rightarrow> deploy_env \<Rightarrow> int \<Rightarrow> machine \<Rightarrow> 'db \<Rightarrow> settled_as \<times> 'db" where
  "complete_run S E tid m db =
     (let db = log_task S tid ''info'' ''Node deployment completed'' (de_now E 6) db in
      case update_machine_status S (mc_owner m) (mc_name m) ''Deployed'' db of
        (Inl e, db) \<Rightarrow>
          settle S E tid True ''ready'' (''machine status update failed: '' @ de_show E (Task_error e))
            (log_task S tid ''error'' (''Failed to update machine status after completed node deployment: '' @ de_show E (Task_error e))
               (de_now E 7) db)
      | (Inr _, db) \<Rightarrow> settle S E tid True ''ready'' [] db)"

definition carry_out ::
  "'db node_store \<Rightarrow> deploy_env \<Rightarrow> int \<Rightarrow> node_task \<Rightarrow> machine \<Rightarrow> deploy_machine \<Rightarrow> key_host \<times> 'db \<Rightarrow> settled_as \<times> key_host \<times> 'db" where
  "carry_out S E tid t m dm = (\<lambda>(h, db).
     let (reports, outcome) = de_deploy E dm (nt_node t) (nt_apiserver t);
         db = run_reports S tid (de_now E 8) reports db;
         beside = (\<lambda>h (r, db). (r, h, db))
     in case outcome of
          Deploy_panicked msg \<Rightarrow>
            (let msg = ''Node deployment task panic: '' @ msg;
                 db = log_task S tid ''error'' msg (de_now E 9) db;
                 db = snd (update_machine_status S (mc_owner m) (mc_name m) ''Failed'' db)
             in beside h (settle S E tid False ''failed'' msg db))
        | Deploy_failed e \<Rightarrow> beside h (fail_run S E tid (Some m) (''Node deployment failed: '' @ e) e db)
        | Deploy_done key \<Rightarrow>
            if key = [] then beside h (complete_run S E tid m db)
            else
              (case update_credential S (de_crypt E) (de_ssh_key E) (de_chance E 3, de_chance E 4) m key (de_now E 10) (h, db) of
                 (Inl e, h, db) \<Rightarrow>
                   beside h (fail_run S E tid (Some m) (''Failed to save managed SSH key: '' @ de_show E (Task_error e)) (de_show E (Task_error e)) db)
               | (Inr _, h, db) \<Rightarrow>
                   beside h (complete_run S E tid m (log_task S tid ''info'' ''CasOS managed SSH key installed'' (de_now E 11) db))))"

definition run_task :: "'db node_store \<Rightarrow> deploy_env \<Rightarrow> int \<Rightarrow> key_host \<times> 'db \<Rightarrow> settled_as \<times> key_host \<times> 'db" where
  "run_task S E tid = (\<lambda>(h, db).
     let beside = (\<lambda>h (r, db). (r, h, db)) in
     case get_node_task S tid db of
       Inl _ \<Rightarrow> (None, h, log_task S tid ''error'' ''Failed to load node deployment task'' (de_now E 12) db)
     | Inr None \<Rightarrow> (None, h, log_task S tid ''error'' ''Failed to load node deployment task'' (de_now E 12) db)
     | Inr (Some t) \<Rightarrow>
         (let no_machine = (\<lambda>_. beside h (settle S E tid False ''failed'' ''machine not found''
                (log_task S tid ''error'' ''Failed to load machine'' (de_now E 13) db)))
          in case get_machine (nd_machines S) (nt_owner t @ ''/'' @ nt_machine t) db of
               Inl _ \<Rightarrow> no_machine ()
             | Inr None \<Rightarrow> no_machine ()
             | Inr (Some m) \<Rightarrow>
                 (case start_node_task S tid ''preflight'' (de_now E 14) db of
                    (Inl e, db) \<Rightarrow> beside h (fail_run S E tid (Some m) (de_show E (Task_error e)) (de_show E (Task_error e)) db)
                  | (Inr _, db) \<Rightarrow>
                      (case update_machine_status S (mc_owner m) (mc_name m) ''Deploying'' db of
                         (Inl e, db) \<Rightarrow> beside h (fail_run S E tid None (de_show E (Task_error e)) (de_show E (Task_error e)) db)
                       | (Inr _, db) \<Rightarrow>
                           (case to_deploy_machine S E (de_chance E 2) m (h, db) of
                              (Inl e, h, db) \<Rightarrow> beside h (fail_run S E tid (Some m) (de_show E e) (de_show E e) db)
                            | (Inr dm, h, db) \<Rightarrow> carry_out S E tid t m dm (h, db))))))"

text \<open>The goroutine gives its slot back however it ends.\<close>

definition run_deployment ::
  "'db node_store \<Rightarrow> deploy_env \<Rightarrow> int \<Rightarrow> nat \<times> key_host \<times> 'db \<Rightarrow> settled_as \<times> nat \<times> key_host \<times> 'db" where
  "run_deployment S E tid = (\<lambda>(slots, st). case run_task S E tid st of (r, st) \<Rightarrow> (r, slots - 1, st))"

text \<open>A slot is taken exactly by a deployment that was started.\<close>

lemma deploy_slots:
  "deploy_node S E req (slots, st) = (r, slots', st') \<Longrightarrow> slots \<le> max_slots
   \<Longrightarrow> slots' \<le> max_slots \<and> slots' = slots + (case r of Inr _ \<Rightarrow> 1 | Inl _ \<Rightarrow> 0)"
  by (auto simp: deploy_node_def split: option.splits if_splits sum.splits prod.splits)

section \<open>A run is a sequence of calls of the record\<close>

definition reaches :: "'db node_store \<Rightarrow> deploy_env \<Rightarrow> key_host \<times> 'db \<Rightarrow> key_host \<times> 'db \<Rightarrow> bool" where
  "reaches S E st st' \<longleftrightarrow> (\<exists>calls. st' = run_node_calls S (de_crypt E) (de_https E) (de_ssh_key E) calls st)"

named_theorems reaching \<open>steps of a run as calls of the record\<close>

lemma reaches_refl [simp]: "reaches S E st st"
  unfolding reaches_def by (rule exI [of _ "[]"]) (simp add: run_node_calls_def)

lemma reaches_trans [trans]: "reaches S E st st1 \<Longrightarrow> reaches S E st1 st2 \<Longrightarrow> reaches S E st st2"
  unfolding reaches_def run_node_calls_def by (metis comp_apply fold_append)

lemma reaches_call: "st' = run_node_call S (de_crypt E) (de_https E) (de_ssh_key E) c st \<Longrightarrow> reaches S E st st'"
  unfolding reaches_def by (rule exI [of _ "[c]"]) (simp add: run_node_calls_def)

lemma reaches_log [reaching]: "reaches S E (h, db) (h, log_task S tid level message now db)"
  by (rule reaches_call [where c = "NodeLog tid level message now"]) (simp add: log_task_def)

lemma reaches_status [reaching]: "reaches S E (h, db) (h, snd (update_machine_status S owner name status db))"
  by (rule reaches_call [where c = "MachineStatus owner name status"]) simp

lemma reaches_start [reaching]: "reaches S E (h, db) (h, snd (start_node_task S tid phase now db))"
  by (rule reaches_call [where c = "StartNode tid phase now"]) simp

lemma reaches_phase [reaching]: "reaches S E (h, db) (h, snd (update_node_phase S tid phase now db))"
  by (rule reaches_call [where c = "NodePhase tid phase now"]) simp

lemma reaches_settle [reaching]: "reaches S E (h, db) (h, snd (settle S E tid success phase msg db))"
  by (rule reaches_call [where c = "FinishNode tid success phase msg (de_now E 3)"]) (simp add: settle_def split: prod.split)

lemma reaches_read [reaching]: "reaches S E st (snd (get_credential S (de_crypt E) ch owner name st))"
  by (rule reaches_call [where c = "ReadKey ch owner name"]) simp

lemma reaches_store [reaching]: "reaches S E st (snd (update_credential S (de_crypt E) (de_ssh_key E) chs m key now st))"
  by (rule reaches_call [where c = "StoreKey chs m key now"]) simp

lemma reaches_reports [reaching]: "reaches S E (h, db) (h, run_reports S tid now rs db)"
proof (induction S tid now rs db rule: run_reports.induct)
  case (2 S tid now level message phase rs db)
  have "reaches S E (h, db) (h, log_task S tid level message now db)" by (rule reaches_log)
  also have "reaches S E \<dots> (h, if phase \<noteq> [] then snd (update_node_phase S tid phase now (log_task S tid level message now db))
      else log_task S tid level message now db)" by (simp add: reaches_phase)
  also note "2.IH" [OF refl]
  finally show ?case by (simp add: Let_def)
qed simp

lemma reaches_deploy_machine [reaching]: "reaches S E st (snd (to_deploy_machine S E ch m st))"
proof -
  obtain r st' where c: "get_credential S (de_crypt E) ch (mc_owner m) (mc_name m) st = (r, st')" by (rule prod.exhaust)
  then have "reaches S E st st'" using reaches_read [of S E st ch "mc_owner m" "mc_name m"] by simp
  with c show ?thesis by (auto simp: to_deploy_machine_def Let_def split: sum.split option.split)
qed

lemma reaches_fail [reaching]: "reaches S E (h, db) (h, snd (fail_run S E tid m line msg db))"
proof -
  let ?d1 = "log_task S tid ''error'' line (de_now E 4) db"
  let ?d2 = "case m of Some m \<Rightarrow> snd (update_machine_status S (mc_owner m) (mc_name m) ''Failed'' ?d1) | None \<Rightarrow> ?d1"
  obtain r d3 where d3: "settle S E tid False ''failed'' msg ?d2 = (r, d3)" by force
  have "reaches S E (h, db) (h, ?d1)" by (rule reaches_log)
  also have "reaches S E (h, ?d1) (h, ?d2)" by (cases m) (simp_all add: reaches_status)
  also have "reaches S E (h, ?d2) (h, d3)" using reaches_settle [of S E h ?d2 tid False "''failed''" msg] d3 by simp
  also have "reaches S E (h, d3) (h, snd (fail_run S E tid m line msg db))"
    using d3 by (auto simp: fail_run_def Let_def reaches_log split: option.split sum.split)
  finally show ?thesis .
qed

lemma reaches_complete [reaching]: "reaches S E (h, db) (h, snd (complete_run S E tid m db))"
proof -
  let ?d1 = "log_task S tid ''info'' ''Node deployment completed'' (de_now E 6) db"
  obtain r d2 where d2: "update_machine_status S (mc_owner m) (mc_name m) ''Deployed'' ?d1 = (r, d2)" by force
  have "reaches S E (h, db) (h, ?d1)" by (rule reaches_log)
  also have "reaches S E (h, ?d1) (h, d2)" using reaches_status [of S E h ?d1 "mc_owner m" "mc_name m" "''Deployed''"] d2 by simp
  also have "reaches S E (h, d2) (h, snd (complete_run S E tid m db))"
    using d2 by (cases r) (auto simp: complete_run_def Let_def reaches_settle intro: reaches_trans [OF reaches_log reaches_settle])
  finally show ?thesis .
qed

lemma snd_beside [simp]: "snd (case x of (r, db) \<Rightarrow> (r, h, db)) = (h, snd x)" "fst (case x of (r, db) \<Rightarrow> (r, h, db)) = fst x"
  by (cases x; simp)+

lemma reaches_carry_out [reaching]: "reaches S E st (snd (carry_out S E tid t m dm st))"
proof -
  obtain h db where st: "st = (h, db)" by force
  obtain reports outcome where o: "de_deploy E dm (nt_node t) (nt_apiserver t) = (reports, outcome)" by force
  let ?d1 = "run_reports S tid (de_now E 8) reports db"
  have "reaches S E st (h, ?d1)" unfolding st by (rule reaches_reports)
  also have "reaches S E (h, ?d1) (snd (carry_out S E tid t m dm st))"
  proof (cases outcome)
    case (Deploy_failed e)
    then show ?thesis by (simp add: carry_out_def st o reaches_fail)
  next
    case (Deploy_panicked e)
    let ?d2 = "log_task S tid ''error'' (''Node deployment task panic: '' @ e) (de_now E 9) ?d1"
    have "reaches S E (h, ?d1) (h, ?d2)" by (rule reaches_log)
    also have "reaches S E (h, ?d2) (h, snd (update_machine_status S (mc_owner m) (mc_name m) ''Failed'' ?d2))" by (rule reaches_status)
    also note reaches_settle [where success = False and phase = "''failed''" and msg = "''Node deployment task panic: '' @ e"]
    finally show ?thesis using Deploy_panicked by (simp add: carry_out_def st o Let_def)
  next
    case (Deploy_done key)
    let ?u = "update_credential S (de_crypt E) (de_ssh_key E) (de_chance E 3, de_chance E 4) m key (de_now E 10) (h, ?d1)"
    obtain r h2 d2 where u: "?u = (r, h2, d2)" by (metis prod_cases3)
    then have "reaches S E (h, ?d1) (h2, d2)"
      using reaches_store [of S E "(h, ?d1)" "(de_chance E 3, de_chance E 4)" m key "de_now E 10"] by simp
    note k = this
    show ?thesis
    proof (cases "key = []")
      case True
      then show ?thesis using Deploy_done by (simp add: carry_out_def st o Let_def reaches_complete)
    next
      case False
      show ?thesis
      proof (cases r)
        case (Inl e)
        then show ?thesis using Deploy_done False u reaches_trans [OF k reaches_fail] by (simp add: carry_out_def st o Let_def)
      next
        case (Inr x)
        then show ?thesis using Deploy_done False u reaches_trans [OF reaches_trans [OF k reaches_log] reaches_complete]
          by (simp add: carry_out_def st o Let_def)
      qed
    qed
  qed
  finally show ?thesis .
qed

lemma reaches_run: "reaches S E st (snd (run_task S E tid st))"
proof -
  obtain h db where st: "st = (h, db)" by force
  show ?thesis
  proof (cases "\<exists>t m. get_node_task S tid db = Inr (Some t) \<and> get_machine (nd_machines S) (nt_owner t @ ''/'' @ nt_machine t) db = Inr (Some m)")
    case True
    then obtain t m where t: "get_node_task S tid db = Inr (Some t)"
      "get_machine (nd_machines S) (nt_owner t @ ''/'' @ nt_machine t) db = Inr (Some m)" by auto
    obtain r1 d1 where s: "start_node_task S tid ''preflight'' (de_now E 14) db = (r1, d1)" by force
    obtain r2 d2 where u: "update_machine_status S (mc_owner m) (mc_name m) ''Deploying'' d1 = (r2, d2)" by force
    obtain r3 h3 d3 where m: "to_deploy_machine S E (de_chance E 2) m (h, d2) = (r3, h3, d3)" by (metis prod_cases3)
    have a: "reaches S E st (h, d1)" using reaches_start [of S E h db tid "''preflight''" "de_now E 14"] s st by simp
    moreover have b: "reaches S E st (h, d2)" using reaches_trans [OF a] reaches_status [of S E h d1 "mc_owner m" "mc_name m" "''Deploying''"] u by simp
    moreover have "reaches S E st (h3, d3)" using reaches_trans [OF b] reaches_deploy_machine [of S E "(h, d2)" "de_chance E 2" m] m by simp
    ultimately show ?thesis
      using t s u m by (cases r1; cases r2; cases r3)
        (auto simp: run_task_def st intro: reaches_trans [OF _ reaches_fail] reaches_trans [OF _ reaches_carry_out])
  next
    case False
    then show ?thesis
      using reaches_trans [OF reaches_log reaches_settle]
      by (auto simp: run_task_def st Let_def reaches_log split: sum.split option.split)
  qed
qed

section \<open>What a run settles\<close>

text \<open>An engine that answers: in a state that is \<open>calm\<close> statements succeed, and the state stays calm.\<close>

locale calm_node_engine = node_engine S tc lc cc mc
  for S :: "'db node_store" and tc lc cc mc +
  fixes calm :: "'db \<Rightarrow> bool"
  assumes calm_tasks: "calm db \<Longrightarrow> select_where (nd_tasks S) p db \<noteq> Inl e"
      "calm db \<Longrightarrow> fst (update_where (nd_tasks S) p f db) \<noteq> Inl e"
      "calm db \<Longrightarrow> calm (snd (update_where (nd_tasks S) p f db))"
    and calm_machines: "calm db \<Longrightarrow> select_where (nd_machines S) q db \<noteq> Inl e"
      "calm db \<Longrightarrow> fst (update_where (nd_machines S) q g db) \<noteq> Inl e"
      "calm db \<Longrightarrow> calm (snd (update_where (nd_machines S) q g db))"
    and calm_creds: "calm db \<Longrightarrow> calm (snd (update_where (nd_creds S) u v db))" "calm db \<Longrightarrow> calm (snd (insert_row (nd_creds S) c db))"
    and calm_logs: "calm db \<Longrightarrow> calm (snd (insert_row (nd_logs S) l db))"
    and calm_tx: "calm db \<Longrightarrow> calm db' \<Longrightarrow> calm (rollback_tx (nd_tx S) db db')"
      "calm db \<Longrightarrow> calm db' \<Longrightarrow> calm (snd (commit_tx (nd_tx S) db db'))"
begin

text \<open>A task that is still under way, in a calm state.\<close>

definition under_way :: "int \<Rightarrow> 'db \<Rightarrow> bool" where
  "under_way tid db \<longleftrightarrow> calm db \<and> (\<exists>t \<in> set (tc db). nt_id t = tid \<and> node_active t)"

lemma live_same: "under_way tid db \<Longrightarrow> calm db' \<Longrightarrow> tc db' = tc db \<Longrightarrow> under_way tid db'"
  by (simp add: under_way_def)

lemma live_log: "under_way tid db \<Longrightarrow> under_way tid (log_task S tid' level message now db)"
proof -
  assume l: "under_way tid db"
  have "calm (log_task S tid' level message now db)" using l calm_logs by (auto simp: log_task_def add_node_log_def under_way_def)
  then show ?thesis using l log_keeps by (auto simp: log_task_def intro: live_same)
qed

lemma live_status: "under_way tid db \<Longrightarrow> under_way tid (snd (update_machine_status S owner name status db))"
proof -
  assume l: "under_way tid db"
  have "calm (snd (update_machine_status S owner name status db))"
    using l calm_machines(3) by (auto simp: update_machine_status_def under_way_def)
  then show ?thesis by (rule live_same [OF l _ machine_status_keeps])
qed

lemma live_update:
  assumes "under_way tid db" "\<And>t. t \<in> set (tc db) \<Longrightarrow> p t \<Longrightarrow> nt_id (f t) = nt_id t \<and> (node_active t \<longrightarrow> node_active (f t))"
  shows "under_way tid (snd (update_where (nd_tasks S) p f db))"
proof -
  obtain t where t: "t \<in> set (tc db)" "nt_id t = tid" "node_active t" using assms(1) by (auto simp: under_way_def)
  have "\<exists>t' \<in> set (tc (snd (update_where (nd_tasks S) p f db))). nt_id t' = tid \<and> node_active t'"
  proof (cases "p t \<and> tc (snd (update_where (nd_tasks S) p f db)) \<noteq> tc db")
    case True
    then have "f t \<in> set (tc (snd (update_where (nd_tasks S) p f db)))"
      using TM.A.update_either [of p f db] t(1) by (auto simp: set_update_rows)
    then show ?thesis using assms(2) [OF t(1)] t(2,3) True by auto
  next
    case False
    then have "t \<in> set (tc (snd (update_where (nd_tasks S) p f db)))"
      using TM.A.update_either [of p f db] t(1) by (auto simp: set_update_rows)
    with t show ?thesis by blast
  qed
  with assms(1) calm_tasks(3) show ?thesis by (simp add: under_way_def)
qed

lemma live_start: "under_way tid db \<Longrightarrow> under_way tid (snd (start_node_task S tid' phase now db))"
  using live_update [of tid db "\<lambda>t. nt_id t = tid' \<and> nt_status t = ''pending''"
      "\<lambda>t. t\<lparr>nt_status := ''running'', nt_phase := phase, nt_started := now, nt_updated := now\<rparr>"]
  by (auto simp: start_node_task_def node_active_def)

lemma live_phase: "under_way tid db \<Longrightarrow> under_way tid (snd (update_node_phase S tid' phase now db))"
  using live_update [of tid db "\<lambda>t. nt_id t = tid' \<and> nt_status t = ''running''" "\<lambda>t. t\<lparr>nt_phase := phase, nt_updated := now\<rparr>"]
  by (auto simp: update_node_phase_def node_active_def)

lemma live_reports: "under_way tid db \<Longrightarrow> under_way tid (run_reports S tid' now rs db)"
proof (induction rs arbitrary: db)
  case (Cons r rs)
  obtain level message phase where r: "r = (level, message, phase)" by (metis prod_cases3)
  have "under_way tid (log_task S tid' level message now db)" by (rule live_log [OF Cons.prems])
  then have "under_way tid (if phase \<noteq> [] then snd (update_node_phase S tid' phase now (log_task S tid' level message now db))
      else log_task S tid' level message now db)" by (simp add: live_phase)
  from Cons.IH [OF this] show ?case by (simp add: r Let_def)
qed simp

lemma calm_upsert: "calm db \<Longrightarrow> calm (snd (upsert_credential S c db))"
proof -
  assume "calm db"
  obtain r d where u: "update_where (nd_creds S) (\<lambda>r. nc_owner r = nc_owner c \<and> nc_machine r = nc_machine c)
      (\<lambda>r. r\<lparr>nc_key := nc_key c, nc_updated := nc_updated c\<rparr>) db = (r, d)" by force
  then have "calm d" using calm_creds(1) [OF \<open>calm db\<close>] by (metis snd_conv)
  then show ?thesis using u calm_creds(2) [OF \<open>calm d\<close>, of c]
    by (cases r) (auto simp: upsert_credential_def split: sum.split prod.split)
qed

lemma calm_store: "calm db \<Longrightarrow> calm (snd (snd (store_credential S C ch c (h, db))))"
proof -
  assume "calm db"
  obtain r db1 where u: "upsert_credential S c db = (r, db1)" by force
  then have "calm db1" using calm_upsert [OF \<open>calm db\<close>, of c] by simp
  then have "calm (snd (update_where (nd_machines S) p f db1))" for p f by (rule calm_machines(3))
  then show ?thesis
    using u \<open>calm db\<close> \<open>calm db1\<close> by (auto simp: store_credential_def Let_def split: sum.split option.split prod.split) (metis snd_conv)+
qed

lemma live_store: "under_way tid db \<Longrightarrow> under_way tid (snd (snd (update_credential S C ssh_key chs m key now (h, db))))"
proof -
  assume l: "under_way tid db"
  obtain ch1 ch2 where chs: "chs = (ch1, ch2)" by force
  obtain enc h1 where enc: "encrypt_key C ch1 (mc_owner m) (mc_name m) key h = (enc, h1)" by force
  have "calm (snd (snd (with_transaction (beside_files (nd_tx S)) NodeDb (store_credential S C ch2 c) (h1, db))))" for c
  proof -
    obtain res h2 db2 where f: "store_credential S C ch2 c (h1, db) = (res, h2, db2)" by (metis prod_cases3)
    then have "calm db2" "calm db" using calm_store [of db C ch2 c h1] l by (simp_all add: under_way_def)
    note t = calm_tx [OF \<open>calm db\<close> \<open>calm db2\<close>]
    obtain e db3 where c: "commit_tx (nd_tx S) db db2 = (e, db3)" by force
    show ?thesis
      using f c t \<open>calm db\<close> by (cases res; cases e) (auto simp: with_transaction_def beside_files_def split: option.split)
  qed
  then have "calm (snd (snd (update_credential S C ssh_key chs m key now (h, db))))"
    using enc l by (cases enc) (auto simp: update_credential_def chs under_way_def)
  then show ?thesis by (rule live_same [OF l _ update_credential_keeps])
qed

lemma live_deploy_machine: "under_way tid db \<Longrightarrow> under_way tid (snd (snd (to_deploy_machine S E ch m (h, db))))"
proof -
  assume "under_way tid db"
  moreover have "snd (snd (to_deploy_machine S E ch m (h, db))) = db"
  proof -
    obtain r h' db' where c: "get_credential S (de_crypt E) ch (mc_owner m) (mc_name m) (h, db) = (r, h', db')" by (metis prod_cases3)
    then have "db' = db" using get_credential_db [of S "de_crypt E" ch "mc_owner m" "mc_name m" h db] by simp
    with c show ?thesis by (auto simp: to_deploy_machine_def Let_def split: sum.split option.split)
  qed
  ultimately show ?thesis by simp
qed

text \<open>The end of a task that is under way succeeds.\<close>

lemma settle_live:
  assumes "under_way tid db" "valid_node_phase phase"
  shows "fst (settle S E tid success phase msg db) = Some (success, Inr ())"
proof -
  let ?p = "\<lambda>t. nt_id t = tid \<and> node_active t"
  let ?f = "end_node_task (if success then ''succeeded'' else ''failed'') phase msg (de_now E 3)"
  obtain r db' where u: "update_where (nd_tasks S) ?p ?f db = (r, db')" by force
  then obtain n where n: "r = Inr n" using calm_tasks(2) [of db ?p ?f] assms(1) by (cases r) (auto simp: under_way_def)
  obtain t where t: "t \<in> set (tc db)" "?p t" using assms(1) by (auto simp: under_way_def)
  then have "?f t \<noteq> t" by (auto simp: end_node_task_def node_active_def dest: arg_cong [of _ _ nt_status])
  then have "0 < count_rows (\<lambda>r. ?p r \<and> ?f r \<noteq> r) (tc db)" using t by (auto simp: count_rows_def filter_empty_conv)
  then have "0 < n" using TM.A.update_ok [OF u [unfolded n]] by simp
  with u n assms(2) show ?thesis by (simp add: settle_def finish_node_task_def)
qed

text \<open>How a run ends: the machine's status is written, then the task.\<close>

definition ended :: "deploy_env \<Rightarrow> int \<Rightarrow> machine \<Rightarrow> bool \<Rightarrow> settled_as \<times> 'db \<Rightarrow> bool" where
  "ended E tid m ok res \<longleftrightarrow> fst res = Some (ok, Inr ()) \<and>
     (\<exists>db phase msg. under_way tid db \<and> valid_node_phase phase \<and>
        res = settle S E tid ok phase msg
                (snd (update_machine_status S (mc_owner m) (mc_name m) (if ok then ''Deployed'' else ''Failed'') db)))"

lemma endedI:
  "under_way tid db \<Longrightarrow> valid_node_phase phase \<Longrightarrow>
   ended E tid m ok (settle S E tid ok phase msg
     (snd (update_machine_status S (mc_owner m) (mc_name m) (if ok then ''Deployed'' else ''Failed'') db)))"
  unfolding ended_def using settle_live [OF live_status] by blast

lemma fail_ended: "under_way tid db \<Longrightarrow> ended E tid m False (fail_run S E tid (Some m) line msg db)"
proof -
  assume l: "under_way tid db"
  note e = endedI [OF live_log [OF l], of "''failed''" E m False msg tid "''error''" line "de_now E 4"]
  then obtain d where d: "settle S E tid False ''failed'' msg
      (snd (update_machine_status S (mc_owner m) (mc_name m) ''Failed'' (log_task S tid ''error'' line (de_now E 4) db))) = (Some (False, Inr ()), d)"
    by (simp add: ended_def valid_node_phase_def) (metis prod.collapse)
  with e show ?thesis by (simp add: fail_run_def Let_def valid_node_phase_def)
qed

lemma complete_ended: "under_way tid db \<Longrightarrow> ended E tid m True (complete_run S E tid m db)"
proof -
  assume l: "under_way tid db"
  let ?d1 = "log_task S tid ''info'' ''Node deployment completed'' (de_now E 6) db"
  obtain r d2 where d2: "update_machine_status S (mc_owner m) (mc_name m) ''Deployed'' ?d1 = (r, d2)" by force
  have "calm ?d1" using live_log [OF l] by (simp add: under_way_def)
  then have "r = Inr ()"
    using d2 calm_machines(2) [of ?d1 "\<lambda>q. mc_owner q = mc_owner m \<and> mc_name q = mc_name m" "\<lambda>q. q\<lparr>mc_status := ''Deployed''\<rparr>"]
    by (auto simp: update_machine_status_def valid_machine_status_def split: prod.splits sum.splits)
  with d2 endedI [OF live_log [OF l], of "''ready''" E m True "[]" tid "''info''" "''Node deployment completed''" "de_now E 6"]
  show ?thesis by (simp add: complete_run_def valid_node_phase_def)
qed

lemma carry_ended:
  assumes "under_way tid db"
  shows "\<exists>ok. ended E tid m ok (fst (carry_out S E tid t m dm (h, db)), snd (snd (carry_out S E tid t m dm (h, db)))) \<and>
    (ok \<longrightarrow> (\<exists>reports key. de_deploy E dm (nt_node t) (nt_apiserver t) = (reports, Deploy_done key)))"
proof -
  obtain reports outcome where o: "de_deploy E dm (nt_node t) (nt_apiserver t) = (reports, outcome)" by force
  let ?d1 = "run_reports S tid (de_now E 8) reports db"
  have l: "under_way tid ?d1" by (rule live_reports [OF assms])
  show ?thesis
  proof (cases outcome)
    case (Deploy_failed e)
    then show ?thesis using fail_ended [OF l] by (intro exI [of _ False]) (simp add: carry_out_def o)
  next
    case (Deploy_panicked e)
    note endedI [OF live_log [OF l], of "''failed''" E m False "''Node deployment task panic: '' @ e" tid "''error''"
        "''Node deployment task panic: '' @ e" "de_now E 9"]
    then show ?thesis using Deploy_panicked by (intro exI [of _ False]) (simp add: carry_out_def o Let_def valid_node_phase_def)
  next
    case (Deploy_done key)
    let ?u = "update_credential S (de_crypt E) (de_ssh_key E) (de_chance E 3, de_chance E 4) m key (de_now E 10) (h, ?d1)"
    obtain r h2 d2 where u: "?u = (r, h2, d2)" by (metis prod_cases3)
    have l2: "under_way tid d2" using live_store [OF l, of "de_crypt E" "de_ssh_key E" "(de_chance E 3, de_chance E 4)" m key "de_now E 10" h] u by simp
    show ?thesis
    proof (cases "key = [] \<or> r = Inr ()")
      case True
      then show ?thesis
        using Deploy_done u o complete_ended [OF l] complete_ended [OF live_log [OF l2]]
        by (intro exI [of _ True]) (auto simp: carry_out_def Let_def)
    next
      case False
      then show ?thesis
        using Deploy_done u o fail_ended [OF l2] by (intro exI [of _ False]) (cases r; simp add: carry_out_def Let_def)
    qed
  qed
qed

lemma run_ended:
  assumes "calm db" "get_node_task S tid db = Inr (Some t)" "nt_id t = tid" "nt_status t = ''pending''" "t \<in> set (tc db)"
    and "get_machine (nd_machines S) (nt_owner t @ ''/'' @ nt_machine t) db = Inr (Some m)"
  shows "\<exists>ok. ended E tid m ok (fst (run_task S E tid (h, db)), snd (snd (run_task S E tid (h, db)))) \<and>
    (ok \<longrightarrow> (\<exists>dm reports key. de_deploy E dm (nt_node t) (nt_apiserver t) = (reports, Deploy_done key)))"
proof -
  let ?p = "\<lambda>t. nt_id t = tid \<and> nt_status t = ''pending''"
  let ?f = "\<lambda>t. t\<lparr>nt_status := ''running'', nt_phase := ''preflight'', nt_started := de_now E 14, nt_updated := de_now E 14\<rparr>"
  have l: "under_way tid db" using assms by (auto simp: under_way_def node_active_def)
  obtain r1 d1 where s: "start_node_task S tid ''preflight'' (de_now E 14) db = (r1, d1)" by force
  have l1: "under_way tid d1" using live_start [OF l, of tid "''preflight''" "de_now E 14"] s by simp
  obtain r2 d2 where u: "update_machine_status S (mc_owner m) (mc_name m) ''Deploying'' d1 = (r2, d2)" by force
  have l2: "under_way tid d2" using live_status [OF l1, of "mc_owner m" "mc_name m" "''Deploying''"] u by simp
  have r2: "r2 = Inr ()"
    using u l1 calm_machines(2) [of d1 "\<lambda>q. mc_owner q = mc_owner m \<and> mc_name q = mc_name m" "\<lambda>q. q\<lparr>mc_status := ''Deploying''\<rparr>"]
    by (auto simp: update_machine_status_def valid_machine_status_def under_way_def split: prod.splits sum.splits)
  obtain r3 h3 d3 where m: "to_deploy_machine S E (de_chance E 2) m (h, d2) = (r3, h3, d3)" by (metis prod_cases3)
  have l3: "under_way tid d3" using live_deploy_machine [OF l2, of E "de_chance E 2" m h] m by simp
  show ?thesis
  proof (cases "(\<exists>v. r1 = Inr v) \<and> (\<exists>dm. r3 = Inr dm)")
    case True
    then obtain dm where dm: "r1 = Inr ()" "r3 = Inr dm" by auto
    then have "run_task S E tid (h, db) = carry_out S E tid t m dm (h3, d3)"
      using assms(2,6) s u r2 m by (simp add: run_task_def)
    then show ?thesis using carry_ended [OF l3, of E m t dm h3] by metis
  next
    case False
    then show ?thesis
      using assms(2,6) s u r2 m fail_ended [OF l1] fail_ended [OF l3]
      by (intro exI [of _ False]) (cases r1; cases r3; simp add: run_task_def)
  qed
qed

lemma ended_rows:
  assumes "ended E tid m ok (res, db')" "node_rows_ok (tc db')"
  shows "res = Some (ok, Inr ()) \<and> (\<forall>t \<in> set (tc db'). nt_id t = tid \<longrightarrow> nt_status t = (if ok then ''succeeded'' else ''failed'')) \<and>
    (\<forall>q \<in> set (mc db'). mc_owner q = mc_owner m \<and> mc_name q = mc_name m \<longrightarrow> mc_status q = (if ok then ''Deployed'' else ''Failed''))"
proof -
  let ?st = "if ok then ''Deployed'' else ''Failed''"
  obtain db phase msg where e: "res = Some (ok, Inr ())" "under_way tid db" "valid_node_phase phase"
    "(res, db') = settle S E tid ok phase msg (snd (update_machine_status S (mc_owner m) (mc_name m) ?st db))"
    using assms(1) by (auto simp: ended_def)
  let ?q = "\<lambda>q. mc_owner q = mc_owner m \<and> mc_name q = mc_name m"
  obtain r d where d: "update_machine_status S (mc_owner m) (mc_name m) ?st db = (r, d)" by force
  then obtain n where n: "update_where (nd_machines S) ?q (\<lambda>q. q\<lparr>mc_status := ?st\<rparr>) db = (Inr n, d)"
    using calm_machines(2) [of db ?q "\<lambda>q. q\<lparr>mc_status := ?st\<rparr>"] e(2)
    by (cases "update_where (nd_machines S) ?q (\<lambda>q. q\<lparr>mc_status := ?st\<rparr>) db"; cases "fst (update_where (nd_machines S) ?q (\<lambda>q. q\<lparr>mc_status := ?st\<rparr>) db)")
       (auto simp: update_machine_status_def valid_machine_status_def under_way_def split: if_splits)
  let ?p = "\<lambda>t. nt_id t = tid \<and> node_active t"
  let ?f = "end_node_task (if ok then ''succeeded'' else ''failed'') phase msg (de_now E 3)"
  obtain k where k: "update_where (nd_tasks S) ?p ?f d = (Inr k, db')" "k \<noteq> 0"
    using e d by (auto simp: settle_def finish_node_task_def split: prod.splits sum.splits if_splits)
  have tc: "tc db' = update_rows ?p ?f (tc d)" "k \<le> count_rows ?p (tc d)" using TM.A.update_ok [OF k(1)] by auto
  then obtain t where t: "t \<in> set (tc d)" "?p t" using k(2) count_rows_pos [of ?p "tc d"] by auto
  have f: "?f t \<in> set (tc db')" using t by (auto simp: tc(1) set_update_rows)
  have "distinct (map nt_id (tc db'))" using assms(2) by (simp add: node_rows_ok_def strict_sorted_iff)
  then have eq: "x = ?f t" if "x \<in> set (tc db')" "nt_id x = tid" for x
    using that f t by (auto simp: distinct_map inj_on_def end_node_task_def)
  have "nt_status x = (if ok then ''succeeded'' else ''failed'')" if "x \<in> set (tc db')" "nt_id x = tid" for x
    by (subst eq [OF that]) (simp add: end_node_task_def)
  moreover have "mc db' = mc d" using TM.A_keeps_B(1) [of ?p ?f d] k(1) by simp
  moreover have "mc_status x = ?st" if x: "x \<in> set (mc d)" "?q x" for x
  proof -
    obtain y where "y \<in> set (mc db)" "x = (if ?q y then y\<lparr>mc_status := ?st\<rparr> else y)"
      using x(1) TM.B.update_ok [OF n] by (auto simp: update_rows_def)
    with x(2) show ?thesis by (cases "?q y") auto
  qed
  ultimately show ?thesis using e(1) by simp
qed

end

section \<open>An engine in memory that answers\<close>

definition no_faults :: "node_mem \<Rightarrow> bool" where
  "no_faults db \<longleftrightarrow> mfaults (nm_tasks db) = [] \<and> mfaults (nm_logs db) = [] \<and> mfaults (nm_creds db) = [] \<and> mfaults (nm_machines db) = []"

interpretation calm_memory: calm_node_engine node_mem_store "\<lambda>db. mrows (nm_tasks db)" "\<lambda>db. mrows (nm_logs db)"
  "\<lambda>db. mrows (nm_creds db)" "\<lambda>db. mrows (nm_machines db)" no_faults
  unfolding calm_node_engine_def calm_node_engine_axioms_def
  by (simp add: node_mem_engine) (simp add: no_faults_def node_mem_store_def mem_table_def next_fault_def Let_def)

section \<open>The promise\<close>

text \<open>
  C36: while the database answers, a run of a pending task whose machine exists settles it: the task ends as succeeded
  or failed, the machine reads deployed or failed to match, and a success means that the deployer was done.
\<close>

theorem deployment_settles:
  assumes "calm_node_engine S tc lc cc mc calm" "calm db" "node_rows_ok (tc db)"
    and "t \<in> set (tc db)" "nt_status t = ''pending''" "CHR ''/'' \<notin> set (nt_owner t)"
    and "\<exists>m \<in> set (mc db). mc_owner m = nt_owner t \<and> mc_name m = nt_machine t"
    and "run_task S E (nt_id t) (h, db) = (r, h', db')"
  shows "\<exists>ok. r = Some (ok, Inr ()) \<and>
    (\<forall>t' \<in> set (tc db'). nt_id t' = nt_id t \<longrightarrow> nt_status t' = (if ok then ''succeeded'' else ''failed'')) \<and>
    (\<forall>m \<in> set (mc db'). mc_owner m = nt_owner t \<and> mc_name m = nt_machine t \<longrightarrow> mc_status m = (if ok then ''Deployed'' else ''Failed'')) \<and>
    (ok \<longrightarrow> (\<exists>dm reports key. de_deploy E dm (nt_node t) (nt_apiserver t) = (reports, Deploy_done key)))"
proof -
  have ne: "node_engine S tc lc cc mc" using assms(1) by (simp add: calm_node_engine_def)
  have ok: "node_task_ok t" "distinct (map nt_id (tc db))" using assms(3,4) by (auto simp: node_rows_ok_def strict_sorted_iff)
  let ?P = "\<lambda>x. nt_id t = 0 \<or> nt_id x = nt_id t" and ?M = "machine_bean (nt_owner t) (nt_machine t)"
  obtain ts where ts: "select_where (nd_tasks S) ?P db = Inr ts"
    using calm_node_engine.calm_tasks(1) [OF assms(1,2), of ?P] by (cases "select_where (nd_tasks S) ?P db") auto
  obtain ms where ms: "select_where (nd_machines S) ?M db = Inr ms"
    using calm_node_engine.calm_machines(1) [OF assms(1,2), of ?M] by (cases "select_where (nd_machines S) ?M db") auto
  have rt: "row_table (nd_tasks S) tc" "row_table (nd_machines S) mc"
    using ne by (auto simp: node_engine_def two_tables_def)
  have "ts = filter ?P (tc db)" "ms = filter ?M (mc db)" using row_table.select_ok [OF rt(1) ts] row_table.select_ok [OF rt(2) ms] by auto
  moreover have pos: "0 < nt_id t" "nt_owner t \<noteq> []" "nt_machine t \<noteq> []" using ok(1) by (simp_all add: node_task_ok_def)
  moreover have "x = t" if "x \<in> set (tc db)" "nt_id x = nt_id t" for x using ok(2) assms(4) that by (auto simp: distinct_map dest: inj_onD)
  ultimately have mem: "t \<in> set ts" "\<And>x. x \<in> set ts \<Longrightarrow> x = t"
    "\<And>x. x \<in> set ms \<longleftrightarrow> x \<in> set (mc db) \<and> mc_owner x = nt_owner t \<and> mc_name x = nt_machine t"
    using assms(4) by (simp_all add: machine_bean_def)
  have "ms \<noteq> []" using assms(7) mem(3) by (metis empty_iff empty_set)
  obtain x xs where "ts = x # xs" using mem(1) by (cases ts) simp_all
  moreover from this have "x = t" using mem(2) [of x] by simp
  ultimately have get: "get_node_task S (nt_id t) db = Inr (Some t)" using ts by (simp add: get_node_task_def get_first_def)
  have "owner_and_name (nt_owner t @ ''/'' @ nt_machine t) = Some (nt_owner t, nt_machine t)"
    using cut_char [of "CHR ''/''" "nt_owner t" "nt_machine t"] assms(6) by (simp add: owner_and_name_def)
  with ms \<open>ms \<noteq> []\<close> obtain m where m: "m \<in> set ms" "get_machine (nd_machines S) (nt_owner t @ ''/'' @ nt_machine t) db = Inr (Some m)"
    by (cases ms) (auto simp: get_machine_def get_first_def)
  obtain b where b: "calm_node_engine.ended S tc calm E (nt_id t) m b (r, db')"
    "b \<Longrightarrow> \<exists>dm reports key. de_deploy E dm (nt_node t) (nt_apiserver t) = (reports, Deploy_done key)"
    using calm_node_engine.run_ended [OF assms(1,2) get refl assms(5,4) m(2), of E h] assms(8) by auto
  have "node_rows_ok (tc db')"
    using reaches_run [of S E "(h, db)" "nt_id t"] assms(8) node_engine.node_calls_steps [OF ne, of "(h, db)"] node_steps_ok assms(3)
    unfolding reaches_def by (metis snd_conv)
  note e = calm_node_engine.ended_rows [OF assms(1) b(1) this]
  have "mc_owner m = nt_owner t" "mc_name m = nt_machine t" using mem(3) m(1) by simp_all
  with e b(2) show ?thesis by (intro exI [of _ b]) simp
qed

abbreviation (input) env_here :: deploy_env where
  "env_here \<equiv> \<lparr>de_config = None, de_ready = True, de_https = (\<lambda>_. True), de_ssh_key = (\<lambda>_. True), de_crypt = plain_crypt,
     de_chance = (\<lambda>_. sure), de_now = int, de_hub = None, de_resolve = (\<lambda>_ u. Inr u), de_firewall = ([], []),
     de_deploy = (\<lambda>_ _ _. ([(''info'', ''unpacked'', ''installing'')], Deploy_done ''key'')), de_show = (\<lambda>_. [])\<rparr>"

abbreviation (input) task_here :: node_task where
  "task_here \<equiv> (new_node_task ''o'' ''m'' ''node-1'' [] 1)\<lparr>nt_id := 1\<rparr>"

theorem deployment_settles_witness:
  "case run_task node_mem_store env_here 1 (no_files, one_machine_db\<lparr>nm_tasks := \<lparr>mrows = [task_here], mnext = 1, mfaults = []\<rparr>\<rparr>) of
     (r, h, db) \<Rightarrow> r = Some (True, Inr ()) \<and> list_all (\<lambda>m. mc_status m = ''Deployed'') (mrows (nm_machines db))"
proof -
  let ?db = "one_machine_db\<lparr>nm_tasks := \<lparr>mrows = [task_here], mnext = 1, mfaults = []\<rparr>\<rparr>"
  obtain r h db where run: "run_task node_mem_store env_here (nt_id task_here) (no_files, ?db) = (r, h, db)" by (metis prod_cases3)
  have "node_rows_ok (mrows (nm_tasks ?db))"
  proof -
    have "validate_node_name ''node-1'' = None" by code_simp
    then show ?thesis by (simp add: node_rows_ok_def one_active_def node_task_ok_def new_node_task_def node_statuses_def)
  qed
  note s = deployment_settles [OF calm_memory.calm_node_engine_axioms _ this _ _ _ _ run]
  have "no_faults ?db" by (simp add: no_faults_def)
  with s obtain ok where ok: "r = Some (ok, Inr ())"
    "\<forall>m \<in> set (mrows (nm_machines db)). mc_owner m = ''o'' \<and> mc_name m = ''m'' \<longrightarrow> mc_status m = (if ok then ''Deployed'' else ''Failed'')"
    by (auto simp: new_node_task_def)
  have f: "fst (run_task node_mem_store env_here 1 (no_files, ?db)) = Some (True, Inr ()) \<and>
    list_all (\<lambda>m. mc_owner m = ''o'' \<and> mc_name m = ''m'') (mrows (nm_machines (snd (snd (run_task node_mem_store env_here 1 (no_files, ?db))))))"
    by code_simp
  have run1: "run_task node_mem_store env_here 1 (no_files, ?db) = (r, h, db)" using run by (simp add: new_node_task_def)
  show ?thesis using f ok unfolding run1 by (auto simp: list_all_iff)
qed

end
