(* ===== verification/Spec2Isabelle.thy ===== *)
theory Spec2Isabelle
  imports TemplatePrint TemplateDeploy HelmRecorder NodeDeploy LoadBalancerRound Admission Manifests Images Databases ComposePlan HelmInstall MonitorChecks HelmDownload HelmCompat
    HelmDiagnostics HelmGuards HelmProgress HelmOperation HelmRepo
    MeshJoin MeshAgent NodeService
begin

text \<open>
  CasOS, in the parts that are verified here.

  CasOS is one Go program that runs a Kubernetes control plane, a web console and an app store. Its console
  handlers (controllers/) and routers call the store (store/), the object layer (object/), the built-in
  controllers and webhooks (server/), the node deployment (deploy/) and the cloud of several machines (mesh/).
  The state they keep is rows of a database, objects of the API server, files under the data directory,
  caches and registries in memory. Modelled is what these parts decide and keep; not modelled is the wire.

  How the code is translated. A string is a list of bytes. A Go \<open>int\<close> is an \<open>int\<close>, kept in range where
  the code can leave it; the numbers of requests on a member connection are 64-bit words. \<open>(value, error)\<close>
  is a sum with the error on the left. A function that writes returns the new state with its result. A Go map is
  a function or the list of its entries; where the code visits a map, the order is an argument, or the
  result is proved not to depend on it. Time, randomness and everything outside src/ are arguments; what is
  assumed of them stands in a locale or a named predicate, and each is shown to be satisfiable. A locked
  section is one step; goroutines are sequences of steps in any order.

  Shared theories. \<open>Prelude\<close> (results, lists, rows), \<open>GoStrings\<close>, \<open>GoConv\<close>, \<open>GoFloat\<close>, \<open>GoBase64\<close>,
  \<open>GoNet\<close>, \<open>GoUrl\<close>, \<open>GoRegexp\<close>, \<open>GoDuration\<close>: the standard library as far as the code calls it, with the facts about
  it. \<open>SqlTable\<close> and \<open>Kube\<close>: the database engine and the API server as interfaces, with in-memory engines
  that can fail at every statement. \<open>Settings\<close>: conf/conf.go.

  Templates (controllers/template\_expr.go, template.go, app\_gateway.go, store/templates.go).
  \<open>TemplateExpr\<close> is the tokenizer and the parser that evaluates as it parses; its fuel is \<open>parse_fuel\<close> of the
  number of tokens and \<open>TemplateSound\<close> proves that enough for every input. \<open>TemplateGrammar\<close> gives expressions
  a meaning of their own and proves that evaluating what is printed has it, \<open>TemplatePrint\<close> that the tokenizer
  reads tokens back. \<open>TemplateText\<close> is conditionals and placeholders against a tree of blocks,
  \<open>TemplateRender\<close> and \<open>TemplateDeploy\<close> a deployment and the record of it, \<open>AppGateway\<close> host names and
  addresses, \<open>Market\<close> the sync of the market over a file system that fails.

  Helm (store/, object/helm\_operation.go, object/helm\_operation\_recorder.go). \<open>HelmTasks\<close> is the record of
  operations; \<open>HelmLifecycle\<close> proves every call a sequence of four transitions and derives the record's invariant
  (5 attempts at finishing, 20 entries of history). \<open>HelmRecorder\<close> is the queue, the worker and the batches of a
  running operation. \<open>HelmPipeline\<close> is an install and an upgrade, step by step, with the events its client
  sees; \<open>HelmOperation\<close> puts the recorder in as its lifecycle and relates what the client is told to the row of the
  task. \<open>HelmValues\<close>, \<open>HelmAdapters\<close>, \<open>HelmCatalog\<close>, \<open>HelmInstall\<close>: the values of a chart, the adapters of the
  store, the overrides kept. \<open>HelmCompat\<close>, \<open>HelmGuards\<close>, \<open>HelmDiagnostics\<close>, \<open>HelmProgress\<close>: what is checked,
  watched, said and reported around an install, and the claims an uninstall deletes. \<open>HelmDownload\<close>: the cache (32
  entries, 128 MiB) and the retries (3 attempts) of downloads, and where an answer comes from when downloads run side by
  side. \<open>HelmRedact\<close>: addresses in errors, without their credentials, and the addresses that do not parse where these
  show. \<open>HelmRepo\<close>: indexes, OCI references and where a chart is loaded from. \<open>Manifests\<close>: the post renderer. \<open>Images\<close>: image references and registries.

  The cluster (server/, object/). \<open>ServiceLB\<close>, \<open>LoadBalancer\<close>, \<open>LoadBalancerRound\<close>: the load balancer, what a
  round may touch and that rounds converge. \<open>Admission\<close>: the webhooks, the enforcers and the table of at most 512
  denials. \<open>Monitor\<close>, \<open>MonitorChecks\<close>: health checks, at most 50 issues, the diagnosis.

  Machines (object/machine\_node\_deploy.go, object/mesh.go, deploy/mesh\_agent.go, mesh/). \<open>NodeTasks\<close> and
  \<open>NodeDeploy\<close>: deployments of machines as nodes and the encrypted credentials. \<open>MeshCloud\<close> and \<open>MeshJoin\<close>: invites,
  members, machines (99 names a host name), joining and leaving; a join is also the sequence of its statements, with others
  in between, on the one connection of SQLite or the many of MySQL. \<open>MeshMember\<close>: the machine's side, with its role,
  the pinned certificate and the roots that its connections trust. \<open>MeshAgent\<close>: the connections members hold open and the calls on them. \<open>NodeService\<close>
  (deploy/service.go): the request, the slots (5) and the run that settles a deployment.

  Databases and compose projects (controllers/). \<open>Databases\<close>: the engines, their settings, and the command a
  container starts, with the shell line of Redis read by the quoting rules of POSIX. \<open>Compose\<close>,
  \<open>ComposePlan\<close>: from a compose file to the plan of a project (node ports 30000 to 32767).

  Interfaces. \<open>row_table\<close>, \<open>sql_table\<close>, \<open>keyed_table\<close>, \<open>two_tables\<close> (SqlTable) are what the code counts on of its
  database; \<open>helm_engine\<close>, \<open>outcome_store\<close>, \<open>node_engine\<close>, \<open>mesh_engine\<close> combine them for the components that use them and
  are interpreted on engines in memory. \<open>kube_resource\<close>, \<open>lb_server\<close> and \<open>claim_server\<close> are the same for the API server.
  \<open>outcome_lifecycle\<close> is what an install needs of its lifecycle; the recorder provides it. The laws are those of
  documented behaviour: a statement that fails may have had its effect, an answer can get lost, a rollback restores.

  Parameters, by what they stand for: SHA-256, AES-GCM, randomness, clocks and contexts; JSON and YAML decoders and
  encoders; \<open>url.Parse\<close> (its host rules only, where \<open>GoUrl\<close> models the rest); PEM and X.509; the texts of \<open>%q\<close> and of errors; HTTP and WebSocket calls; Casbin; xorm and the engines
  behind it; the API server; Helm's actions and its coalescing of values; file operations; the order of Go maps and of
  unstable sorts.

  Bounds of the models: \<open>Stat\<close> of the market directory is taken to answer; the statements of a leaving machine are one
  step beside the joins, since they touch no invite.

  Not modelled: the handlers of the console, which decode a request, call one of the above or the API server and encode
  the answer; the wrappers of object/ and controllers/ around single calls of the Kubernetes client; the MCP, launchpad,
  devbox and git build features, which drive commands and pods; the bootstrap of certificates, DNS, ingress, storage,
  flannel and the control plane's own processes; the SSH and WSL executors; the overlay network of the cloud (headscale,
  tailscale, TLS); the web frontend. Their logic is mostly in the processes and services they drive.
\<close>

end
